(* ===== verification/Prelude.thy ===== *)
theory Prelude
  imports Main "HOL-Library.Monad_Syntax"
begin

section \<open>Shared vocabulary: text, options and lists\<close>

text \<open>
  The part of the Rust standard library that the modelled code uses, and the lemmas every
  component shares.

  A Rust \<^verbatim>\<open>char\<close> is a Unicode scalar value; an Isabelle character \<open>c\<close> stands for the scalar
  value \<open>of_char c\<close>, so text ranges over U+0000 to U+00FF.  Every character the modelled code
  compares with is ASCII.  \<^verbatim>\<open>str::len\<close> counts UTF-8 bytes (\<open>utf8_len\<close>), and a slice at a byte
  offset that is not a character boundary panics (\<open>byte_split\<close> is \<open>None\<close> there).

  A value of type \<open>'a option\<close> as the result of an operation that may panic or never return is
  \<open>None\<close> exactly when no value is returned.
\<close>

named_theorems text_simps "evaluation rules of the string operations"
named_theorems progress "facts that an operation moves a cursor forward"

type_synonym str = string

subsection \<open>Characters\<close>

definition code :: "char \<Rightarrow> int" where
  "code c = of_char c"

definition is_whitespace :: "char \<Rightarrow> bool" where
  "is_whitespace c \<longleftrightarrow> code c \<in> set [9, 10, 11, 12, 13, 32, 133, 160]"

definition is_ascii_digit :: "char \<Rightarrow> bool" where
  "is_ascii_digit c \<longleftrightarrow> 48 \<le> code c \<and> code c \<le> 57"

definition is_ascii_upper :: "char \<Rightarrow> bool" where
  "is_ascii_upper c \<longleftrightarrow> 65 \<le> code c \<and> code c \<le> 90"

definition is_ascii_lower :: "char \<Rightarrow> bool" where
  "is_ascii_lower c \<longleftrightarrow> 97 \<le> code c \<and> code c \<le> 122"

definition is_ascii_alphabetic :: "char \<Rightarrow> bool" where
  "is_ascii_alphabetic c \<longleftrightarrow> is_ascii_upper c \<or> is_ascii_lower c"

definition is_ascii_alphanumeric :: "char \<Rightarrow> bool" where
  "is_ascii_alphanumeric c \<longleftrightarrow> is_ascii_alphabetic c \<or> is_ascii_digit c"

definition ascii_lower :: "char \<Rightarrow> char" where
  "ascii_lower c = (if is_ascii_upper c then char_of (code c + 32) else c)"

text \<open>\<^verbatim>\<open>char::to_lowercase\<close> on U+0000 to U+00FF: ASCII letters and the Latin-1 capitals.\<close>

definition latin1_lower :: "char \<Rightarrow> char" where
  "latin1_lower c =
     (if is_ascii_upper c \<or> (192 \<le> code c \<and> code c \<le> 222 \<and> code c \<noteq> 215)
      then char_of (code c + 32) else c)"

definition utf8_width :: "char \<Rightarrow> nat" where
  "utf8_width c = (if code c < 128 then 1 else 2)"

abbreviation LF :: char where "LF \<equiv> CHR 0x0A"
abbreviation CR :: char where "CR \<equiv> CHR 0x0D"

subsection \<open>Strings\<close>

definition to_ascii_lowercase :: "str \<Rightarrow> str" where
  "to_ascii_lowercase = map ascii_lower"

definition to_lowercase :: "str \<Rightarrow> str" where
  "to_lowercase = map latin1_lower"

definition eq_ignore_ascii_case :: "str \<Rightarrow> str \<Rightarrow> bool" where
  "eq_ignore_ascii_case a b \<longleftrightarrow> to_ascii_lowercase a = to_ascii_lowercase b"

definition utf8_len :: "str \<Rightarrow> nat" where
  "utf8_len s = sum_list (map utf8_width s)"

text \<open>Split a string at a byte offset; \<open>None\<close> is the panic of \<^verbatim>\<open>str\<close> slicing.\<close>

fun byte_split :: "nat \<Rightarrow> str \<Rightarrow> (str \<times> str) option" where
  "byte_split n [] = (if n = 0 then Some ([], []) else None)"
| "byte_split n (c # s) =
     (if n = 0 then Some ([], c # s)
      else if utf8_width c \<le> n
        then map_option (\<lambda>(a, b). (c # a, b)) (byte_split (n - utf8_width c) s)
        else None)"

fun starts_with :: "str \<Rightarrow> str \<Rightarrow> bool" where
  "starts_with [] s = True"
| "starts_with (c # p) [] = False"
| "starts_with (c # p) (d # s) = (c = d \<and> starts_with p s)"

definition ends_with :: "str \<Rightarrow> str \<Rightarrow> bool" where
  "ends_with p s = starts_with (rev p) (rev s)"

fun strip_prefix :: "str \<Rightarrow> str \<Rightarrow> str option" where
  "strip_prefix [] s = Some s"
| "strip_prefix (c # p) [] = None"
| "strip_prefix (c # p) (d # s) = (if c = d then strip_prefix p s else None)"

definition strip_suffix :: "str \<Rightarrow> str \<Rightarrow> str option" where
  "strip_suffix p s = map_option rev (strip_prefix (rev p) (rev s))"

fun contains_str :: "str \<Rightarrow> str \<Rightarrow> bool" where
  "contains_str p [] = (p = [])"
| "contains_str p (c # s) = (starts_with p (c # s) \<or> contains_str p s)"

fun split_on :: "char \<Rightarrow> str \<Rightarrow> str list" where
  "split_on d [] = [[]]"
| "split_on d (c # s) =
     (if c = d then [] # split_on d s
      else (case split_on d s of [] \<Rightarrow> [[c]] | x # xs \<Rightarrow> (c # x) # xs))"

fun join :: "str \<Rightarrow> str list \<Rightarrow> str" where
  "join d [] = []"
| "join d [x] = x"
| "join d (x # y # ys) = x @ d @ join d (y # ys)"

text \<open>\<^verbatim>\<open>str::lines().count()\<close>: a final line break ends the last line.\<close>

definition lines_count :: "str \<Rightarrow> nat" where
  "lines_count s =
     (let parts = split_on CHR 0x0A s in if last parts = [] then length parts - 1 else length parts)"

definition trim_start :: "str \<Rightarrow> str" where
  "trim_start s = dropWhile is_whitespace s"

definition trim :: "str \<Rightarrow> str" where
  "trim s = rev (dropWhile is_whitespace (rev (dropWhile is_whitespace s)))"

definition trim_matches :: "(char \<Rightarrow> bool) \<Rightarrow> str \<Rightarrow> str" where
  "trim_matches P s = rev (dropWhile P (rev (dropWhile P s)))"

definition replace_char :: "char \<Rightarrow> char \<Rightarrow> str \<Rightarrow> str" where
  "replace_char a b = map (\<lambda>c. if c = a then b else c)"

lemmas [text_simps] =
  to_ascii_lowercase_def to_lowercase_def eq_ignore_ascii_case_def utf8_len_def utf8_width_def
  ends_with_def strip_suffix_def trim_start_def trim_def trim_matches_def replace_char_def
  ascii_lower_def latin1_lower_def is_ascii_upper_def is_ascii_lower_def is_ascii_digit_def
  is_ascii_alphabetic_def is_ascii_alphanumeric_def is_whitespace_def code_def

lemma starts_with_iff: "starts_with p s \<longleftrightarrow> (\<exists>r. s = p @ r)"
  by (induction p s rule: starts_with.induct) auto

lemma strip_prefix_Some_iff [simp]: "strip_prefix p s = Some r \<longleftrightarrow> s = p @ r"
  by (induction p s rule: strip_prefix.induct) auto

lemma strip_prefix_None_iff: "strip_prefix p s = None \<longleftrightarrow> \<not> starts_with p s"
  by (induction p s rule: strip_prefix.induct) auto

lemma starts_with_append [simp]: "starts_with p (p @ r)"
  by (auto simp: starts_with_iff)

lemma starts_with_refl [simp]: "starts_with p p"
  by (auto simp: starts_with_iff)

lemma strip_suffix_Some_iff [simp]: "strip_suffix p s = Some r \<longleftrightarrow> s = r @ p"
proof -
  have "(\<exists>z. rev s = rev p @ z \<and> r = rev z) \<longleftrightarrow> rev s = rev p @ rev r"
    by force
  also have "\<dots> \<longleftrightarrow> s = r @ p"
    by (metis rev_append rev_rev_ident)
  finally show ?thesis
    by (auto simp: strip_suffix_def)
qed

lemma ends_with_iff: "ends_with p s \<longleftrightarrow> (\<exists>r. s = r @ p)"
proof -
  have "rev s = rev p @ z \<longleftrightarrow> s = rev z @ p" for z
    by (metis rev_append rev_rev_ident)
  then show ?thesis by (auto simp: ends_with_def starts_with_iff) (metis rev_rev_ident)
qed

lemma split_on_not_Nil [simp]: "split_on d s \<noteq> []"
  by (induction d s rule: split_on.induct) (auto split: list.splits)

lemma join_split_on: "join [d] (split_on d s) = s"
proof (induction d s rule: split_on.induct)
  case (2 d c s)
  then show ?case
    by (cases "split_on d s"; cases "tl (split_on d s)") auto
qed simp

lemma split_on_parts: "p \<in> set (split_on d s) \<Longrightarrow> d \<notin> set p"
  by (induction d s arbitrary: p rule: split_on.induct) (auto split: list.splits if_splits)

lemma split_on_no_sep: "d \<notin> set s \<Longrightarrow> split_on d s = [s]"
  by (induction s) auto

lemma split_on_append_sep: "d \<notin> set x \<Longrightarrow> split_on d (x @ d # s) = x # split_on d s"
  by (induction x) auto

lemma split_on_join:
  "xs \<noteq> [] \<Longrightarrow> list_all (\<lambda>x. d \<notin> set x) xs \<Longrightarrow> split_on d (join [d] xs) = xs"
  by (induction "[d]" xs rule: join.induct) (auto simp: split_on_no_sep split_on_append_sep)

lemma split_on_snoc: "split_on d (s @ [d]) = split_on d s @ [[]]"
  by (induction s) (auto split: list.split)

lemma join_part: "l \<in> set ls \<Longrightarrow> set l \<subseteq> set (join d ls)"
  by (induction d ls rule: join.induct) auto

lemma byte_split_front: "byte_split (utf8_len a) (a @ b) = Some (a, b)"
  by (induction a) (cases b; auto simp: utf8_len_def utf8_width_def)+

lemma byte_split_Some: "byte_split n s = Some (a, b) \<Longrightarrow> s = a @ b \<and> utf8_len a = n"
  by (induction n s arbitrary: a b rule: byte_split.induct)
    (auto simp: utf8_len_def split: if_splits)

subsection \<open>Words and numbers\<close>

text \<open>\<^verbatim>\<open>str::split_whitespace\<close>, decimal printing, and \<^verbatim>\<open>str::parse::<usize>\<close>, which takes an optional plus sign and
  digits, and fails on an overflow.\<close>

fun split_whitespace_go :: "str \<Rightarrow> str \<Rightarrow> str list" where
  "split_whitespace_go word [] = (if word = [] then [] else [word])"
| "split_whitespace_go word (c # s) =
     (if is_whitespace c
      then (if word = [] then split_whitespace_go [] s else word # split_whitespace_go [] s)
      else split_whitespace_go (word @ [c]) s)"

definition split_whitespace :: "str \<Rightarrow> str list" where
  "split_whitespace s = split_whitespace_go [] s"

fun show_nat :: "nat \<Rightarrow> str" where
  "show_nat n =
     (let d = [char_of (48 + n mod 10)] in if n < 10 then d else show_nat (n div 10) @ d)"

declare show_nat.simps [simp del]

definition digit_value :: "char \<Rightarrow> nat" where
  "digit_value c = nat (code c - 48)"

fun parse_digits :: "nat \<Rightarrow> str \<Rightarrow> nat option" where
  "parse_digits acc [] = Some acc"
| "parse_digits acc (c # s) =
     (if is_ascii_digit c \<and> int (10 * acc + digit_value c) \<le> 18446744073709551615
      then parse_digits (10 * acc + digit_value c) s else None)"

definition parse_usize :: "str \<Rightarrow> nat option" where
  "parse_usize s =
     (let digits = (case s of c # t \<Rightarrow> if c = CHR ''+'' then t else s | [] \<Rightarrow> [])
      in if digits = [] then None else parse_digits 0 digits)"

text \<open>The two parts around the first separator, and the text before the first occurrence of a pattern.\<close>

definition split_once :: "char \<Rightarrow> str \<Rightarrow> (str \<times> str) option" where
  "split_once d s = (if d \<in> set s then Some (takeWhile (\<lambda>c. c \<noteq> d) s, tl (dropWhile (\<lambda>c. c \<noteq> d) s)) else None)"

fun text_before :: "str \<Rightarrow> str \<Rightarrow> str option" where
  "text_before p [] = (if p = [] then Some [] else None)"
| "text_before p (c # s) = (if starts_with p (c # s) then Some [] else map_option ((#) c) (text_before p s))"

lemma split_once_append: "d \<notin> set x \<Longrightarrow> split_once d (x @ d # y) = Some (x, y)"
  by (induction x) (auto simp: split_once_def)

lemma split_whitespace_go_word:
  "list_all (\<lambda>c. \<not> is_whitespace c) w \<Longrightarrow> split_whitespace_go v (w @ s) = split_whitespace_go (v @ w) s"
  by (induction w arbitrary: v) simp_all

lemma split_whitespace_two:
  assumes "list_all (\<lambda>c. \<not> is_whitespace c) v" "list_all (\<lambda>c. \<not> is_whitespace c) w" "v \<noteq> []" "w \<noteq> []"
  shows "split_whitespace (v @ CHR '' '' # w) = [v, w]"
proof -
  have "is_whitespace (CHR '' '')" by code_simp
  with assms split_whitespace_go_word [OF assms(1), of "[]" "CHR '' '' # w"] split_whitespace_go_word [OF assms(2), of "[]" "[]"]
  show ?thesis by (simp add: split_whitespace_def)
qed

lemma digit_char:
  fixes d :: nat
  assumes "d < 10"
  shows "is_ascii_digit (char_of (48 + d)) \<and> digit_value (char_of (48 + d)) = d"
proof -
  have all: "list_all (\<lambda>d. is_ascii_digit (char_of (48 + d)) \<and> digit_value (char_of (48 + d)) = d) [0..<10]" by code_simp
  have "d \<in> set [0..<10]" using assms by simp
  from bspec [OF all [unfolded list_all_iff] this] show ?thesis .
qed

lemma show_nat_digits: "list_all is_ascii_digit (show_nat n) \<and> show_nat n \<noteq> []"
proof (induction n rule: show_nat.induct)
  case (1 n)
  have d: "is_ascii_digit (char_of (48 + n mod 10))" using digit_char [of "n mod 10"] by simp
  show ?case
  proof (cases "n < 10")
    case True
    with d have "is_ascii_digit (char_of (48 + n))" by simp
    with True show ?thesis by (simp add: show_nat.simps [of n])
  qed (use 1 d in \<open>simp add: show_nat.simps [of n] Let_def\<close>)
qed

lemma parse_digits_append:
  "parse_digits acc (s @ t) = (case parse_digits acc s of None \<Rightarrow> None | Some v \<Rightarrow> parse_digits v t)"
  by (induction acc s rule: parse_digits.induct) simp_all

lemma parse_digits_show: "int n \<le> 18446744073709551615 \<Longrightarrow> parse_digits 0 (show_nat n) = Some n"
proof (induction n rule: show_nat.induct)
  case (1 n)
  have d: "is_ascii_digit (char_of (48 + n mod 10)) \<and> digit_value (char_of (48 + n mod 10)) = n mod 10" by (rule digit_char) simp
  show ?case
  proof (cases "n < 10")
    case True
    with d show ?thesis by (subst show_nat.simps) (simp add: Let_def)
  next
    case False
    have "int (n div 10) \<le> 18446744073709551615" using 1(2) by simp
    with 1(1) False have "parse_digits 0 (show_nat (n div 10)) = Some (n div 10)" by simp
    moreover have "10 * (n div 10) + n mod 10 = n" by simp
    ultimately show ?thesis using d False 1(2)
      by (subst show_nat.simps) (simp add: Let_def parse_digits_append del: mult_div_mod_eq)
  qed
qed

lemma parse_usize_show: "int n \<le> 18446744073709551615 \<Longrightarrow> parse_usize (show_nat n) = Some n"
proof -
  assume n: "int n \<le> 18446744073709551615"
  obtain c s where c: "show_nat n = c # s" "is_ascii_digit c" using show_nat_digits [of n] by (cases "show_nat n") simp_all
  have "c \<noteq> CHR ''+''" using c(2) by (auto simp: is_ascii_digit_def code_def)
  with parse_digits_show [OF n] c(1) show ?thesis by (simp add: parse_usize_def)
qed

subsection \<open>Errors as sums\<close>

definition bind_e :: "'e + 'a \<Rightarrow> ('a \<Rightarrow> 'e + 'b) \<Rightarrow> 'e + 'b" where
  "bind_e x f = (case x of Inl e \<Rightarrow> Inl e | Inr y \<Rightarrow> f y)"

lemma bind_e_simps [simp]: "bind_e (Inl e) f = Inl e" "bind_e (Inr x) f = f x"
  by (simp_all add: bind_e_def)

lemma bind_e_Inr_iff: "bind_e x f = Inr y \<longleftrightarrow> (\<exists>z. x = Inr z \<and> f z = Inr y)"
  by (cases x) simp_all

subsection \<open>Short-circuiting iteration over operations that may not return\<close>

text \<open>
  \<^verbatim>\<open>Iterator::any\<close> and \<^verbatim>\<open>Iterator::all\<close> with a closure that may panic: elements after the deciding
  one are never visited.
\<close>

fun any_m :: "('a \<Rightarrow> bool option) \<Rightarrow> 'a list \<Rightarrow> bool option" where
  "any_m f [] = Some False"
| "any_m f (x # xs) = do { b \<leftarrow> f x; if b then Some True else any_m f xs }"

fun all_m :: "('a \<Rightarrow> bool option) \<Rightarrow> 'a list \<Rightarrow> bool option" where
  "all_m f [] = Some True"
| "all_m f (x # xs) = do { b \<leftarrow> f x; if b then all_m f xs else Some False }"

definition or_m :: "bool option \<Rightarrow> bool option \<Rightarrow> bool option" where
  "or_m a b = do { x \<leftarrow> a; if x then Some True else b }"

definition and_m :: "bool option \<Rightarrow> bool option \<Rightarrow> bool option" where
  "and_m a b = do { x \<leftarrow> a; if x then b else Some False }"

lemma any_m_True: "any_m f xs = Some True \<Longrightarrow> \<exists>x \<in> set xs. f x = Some True"
  by (induction xs) (auto simp: bind_eq_Some_conv split: if_splits)

lemma any_m_False: "any_m f xs = Some False \<Longrightarrow> x \<in> set xs \<Longrightarrow> f x = Some False"
  by (induction xs) (auto simp: bind_eq_Some_conv split: if_splits)

lemma all_m_True: "all_m f xs = Some True \<Longrightarrow> x \<in> set xs \<Longrightarrow> f x = Some True"
  by (induction xs) (auto simp: bind_eq_Some_conv split: if_splits)

lemma all_m_False: "all_m f xs = Some False \<Longrightarrow> \<exists>x \<in> set xs. f x = Some False"
  by (induction xs) (auto simp: bind_eq_Some_conv split: if_splits)

lemma any_m_append: "any_m f (xs @ ys) = or_m (any_m f xs) (any_m f ys)"
  by (induction xs) (auto simp: or_m_def split: Option.bind_splits)

lemma any_m_total: "(\<And>x. x \<in> set xs \<Longrightarrow> f x = Some (P x)) \<Longrightarrow> any_m f xs = Some (list_ex P xs)"
  by (induction xs) auto

lemma all_m_total: "(\<And>x. x \<in> set xs \<Longrightarrow> f x = Some (P x)) \<Longrightarrow> all_m f xs = Some (list_all P xs)"
  by (induction xs) auto

lemma or_m_True_iff: "or_m a b = Some True \<longleftrightarrow> a = Some True \<or> a = Some False \<and> b = Some True"
  by (cases a) (auto simp: or_m_def)

lemma or_m_False_iff: "or_m a b = Some False \<longleftrightarrow> a = Some False \<and> b = Some False"
  by (cases a) (auto simp: or_m_def)

lemma and_m_True_iff: "and_m a b = Some True \<longleftrightarrow> a = Some True \<and> b = Some True"
  by (cases a) (auto simp: and_m_def)

lemma and_m_False_iff:
  "and_m a b = Some False \<longleftrightarrow> a = Some False \<or> a = Some True \<and> b = Some False"
  by (cases a) (auto simp: and_m_def)

subsection \<open>Maximum of a list, indexed access\<close>

text \<open>\<^verbatim>\<open>iter.max().unwrap_or(d)\<close> and \<^verbatim>\<open>slice.get(i)\<close>.\<close>

fun max_or :: "'a::linorder \<Rightarrow> 'a list \<Rightarrow> 'a" where
  "max_or d [] = d"
| "max_or d (x # xs) = fold max xs x"

lemma fold_max_ge_init: "(x::'a::linorder) \<le> fold max xs x"
proof (induction xs arbitrary: x)
  case (Cons a xs)
  have "x \<le> max a x" by simp
  also have "\<dots> \<le> fold max xs (max a x)" by (rule Cons.IH)
  finally show ?case by simp
qed simp

lemma fold_max_ge: "(y::'a::linorder) \<in> set xs \<Longrightarrow> y \<le> fold max xs x"
proof (induction xs arbitrary: x)
  case (Cons a xs)
  then show ?case
    using fold_max_ge_init [of "max a x" xs] by (auto intro: order_trans)
qed simp

lemma fold_max_in: "fold max xs (x::'a::linorder) \<in> insert x (set xs)"
proof (induction xs arbitrary: x)
  case (Cons a xs)
  then show ?case by (metis fold_simps(2) insert_iff list.simps(15) max_def)
qed simp

lemma max_or_ge: "x \<in> set xs \<Longrightarrow> x \<le> max_or d xs"
  by (cases xs) (auto simp: fold_max_ge_init fold_max_ge)

lemma max_or_in: "xs \<noteq> [] \<Longrightarrow> max_or d xs \<in> set xs"
  by (cases xs) (use fold_max_in in auto)

definition get_at :: "'a list \<Rightarrow> nat \<Rightarrow> 'a option" where
  "get_at xs i = (if i < length xs then Some (xs ! i) else None)"

lemma get_at_Some_iff: "get_at xs i = Some x \<longleftrightarrow> i < length xs \<and> xs ! i = x"
  by (auto simp: get_at_def)

lemma those_map_Some: "those (map (\<lambda>x. Some (f x)) xs) = Some (map f xs)"
  by (induction xs) simp_all

lemma those_map_in: "(\<And>x. x \<in> set xs \<Longrightarrow> f x = Some (g x)) \<Longrightarrow> those (map f xs) = Some (map g xs)"
  by (induction xs) auto

subsection \<open>Slices\<close>

definition slice :: "nat \<Rightarrow> nat \<Rightarrow> 'a list \<Rightarrow> 'a list" where
  "slice i j xs = take (j - i) (drop i xs)"

lemma set_slice: "set (slice i j xs) \<subseteq> set xs"
  by (auto simp: slice_def dest: in_set_takeD in_set_dropD)

lemma count_list_take_le: "count_list (take n xs) x \<le> count_list xs x"
  by (metis append_take_drop_id count_list_append le_add1)

lemma count_list_drop_le: "count_list (drop n xs) x \<le> count_list xs x"
  by (metis append_take_drop_id count_list_append le_add2)

lemma length_slice_le: "length (slice i j xs) \<le> length xs - i"
  by (simp add: slice_def)

lemma count_list_slice_le: "count_list (slice i j xs) x \<le> count_list (drop i xs) x"
  by (simp add: slice_def count_list_take_le)

text \<open>Reasoning about the arms of an optional conditional, one at a time.\<close>

lemma pred_option_if:
  "(b \<Longrightarrow> pred_option P x) \<Longrightarrow> (\<not> b \<Longrightarrow> pred_option P y) \<Longrightarrow> pred_option P (if b then x else y)"
  by simp

lemma pred_optionI: "(\<And>y. x = Some y \<Longrightarrow> P y) \<Longrightarrow> pred_option P x"
  by (cases x) simp_all

lemma pred_option_bind:
  "pred_option Q x \<Longrightarrow> (\<And>y. x = Some y \<Longrightarrow> Q y \<Longrightarrow> pred_option P (f y)) \<Longrightarrow> pred_option P (x \<bind> f)"
  by (cases x) simp_all

lemma pred_option_bind':
  "(\<And>y. x = Some y \<Longrightarrow> pred_option P (f y)) \<Longrightarrow> pred_option P (x \<bind> f)"
  by (cases x) simp_all

lemma pred_option_SomeD: "pred_option P x \<Longrightarrow> x = Some y \<Longrightarrow> P y"
  by simp

lemma bind3E:
  assumes "a \<bind> (\<lambda>(x, y, z). f x y z) = Some r"
  obtains x y z where "a = Some (x, y, z)" "f x y z = Some r"
  using assms by (cases a) auto

end
