(* ===== verification/ShellTypes.thy ===== *)
theory ShellTypes
  imports Prelude
begin

section \<open>Vocabulary of the shell classifier\<close>

text \<open>
  The closed sets of \<^verbatim>\<open>core/src/permissions/shell.rs\<close> (risk classes and opaque constructs, with
  their names and parsers) and the token types of \<^verbatim>\<open>core/src/permissions/shell/lexer.rs\<close>.
  Risk classes are ordered from least to most severe, as the derived \<^verbatim>\<open>Ord\<close> of the source has it.
\<close>

abbreviation NL :: char where "NL \<equiv> CHR 0x0A"
abbreviation TAB :: char where "TAB \<equiv> CHR 0x09"
abbreviation SPC :: char where "SPC \<equiv> CHR 0x20"
abbreviation BSL :: char where "BSL \<equiv> CHR 0x5C"
abbreviation SQ :: char where "SQ \<equiv> CHR 0x27"
abbreviation DQ :: char where "DQ \<equiv> CHR 0x22"
abbreviation BTICK :: char where "BTICK \<equiv> CHR 0x60"
abbreviation DOLLAR :: char where "DOLLAR \<equiv> CHR 0x24"

subsection \<open>Risk classes\<close>

datatype shell_risk =
    ReadOnly | Mutating | Opaque | RemoteCode | Escalating | Destructive | Catastrophic

fun risk_rank :: "shell_risk \<Rightarrow> nat" where
  "risk_rank ReadOnly = 0"
| "risk_rank Mutating = 1"
| "risk_rank Opaque = 2"
| "risk_rank RemoteCode = 3"
| "risk_rank Escalating = 4"
| "risk_rank Destructive = 5"
| "risk_rank Catastrophic = 6"

lemma risk_rank_inject: "risk_rank a = risk_rank b \<longleftrightarrow> a = b"
  by (cases a; cases b) simp_all

instantiation shell_risk :: linorder
begin

definition less_eq_shell_risk :: "shell_risk \<Rightarrow> shell_risk \<Rightarrow> bool" where
  "less_eq_shell_risk a b \<longleftrightarrow> risk_rank a \<le> risk_rank b"

definition less_shell_risk :: "shell_risk \<Rightarrow> shell_risk \<Rightarrow> bool" where
  "less_shell_risk a b \<longleftrightarrow> risk_rank a < risk_rank b"

instance
  by standard (auto simp: less_eq_shell_risk_def less_shell_risk_def risk_rank_inject)

end

lemmas risk_order = less_eq_shell_risk_def less_shell_risk_def

definition ShellRisk_ALL :: "shell_risk list" where
  "ShellRisk_ALL =
     [ReadOnly, Mutating, Opaque, RemoteCode, Escalating, Destructive, Catastrophic]"

fun ShellRisk_as_str :: "shell_risk \<Rightarrow> str" where
  "ShellRisk_as_str ReadOnly = ''read_only''"
| "ShellRisk_as_str Mutating = ''mutating''"
| "ShellRisk_as_str Opaque = ''opaque''"
| "ShellRisk_as_str RemoteCode = ''remote_code''"
| "ShellRisk_as_str Escalating = ''escalating''"
| "ShellRisk_as_str Destructive = ''destructive''"
| "ShellRisk_as_str Catastrophic = ''catastrophic''"

text \<open>\<open>None\<close> is the refusal that names the closed set.\<close>

definition ShellRisk_parse :: "str \<Rightarrow> shell_risk option" where
  "ShellRisk_parse value = List.find (\<lambda>risk. ShellRisk_as_str risk = value) ShellRisk_ALL"

definition is_hard_denial :: "shell_risk \<Rightarrow> bool" where
  "is_hard_denial r \<longleftrightarrow> r \<in> {RemoteCode, Escalating, Destructive, Catastrophic}"

lemma is_hard_denial_iff: "is_hard_denial r \<longleftrightarrow> RemoteCode \<le> r"
  by (cases r) (simp_all add: is_hard_denial_def risk_order)

subsection \<open>Opaque constructs\<close>

datatype opaque_construct =
    CommandSubstitution | ProcessSubstitution | ArithmeticExpansion | AnsiCQuote | Subshell
  | Group | FunctionDefinition | ControlFlow | Heredoc | Eval | DynamicProgram
  | UnterminatedQuote | UnbalancedNesting | NestingTooDeep | Oversized | Empty

definition OpaqueConstruct_ALL :: "opaque_construct list" where
  "OpaqueConstruct_ALL =
     [CommandSubstitution, ProcessSubstitution, ArithmeticExpansion, AnsiCQuote, Subshell,
      Group, FunctionDefinition, ControlFlow, Heredoc, Eval, DynamicProgram,
      UnterminatedQuote, UnbalancedNesting, NestingTooDeep, Oversized, Empty]"

fun OpaqueConstruct_as_str :: "opaque_construct \<Rightarrow> str" where
  "OpaqueConstruct_as_str CommandSubstitution = ''command_substitution''"
| "OpaqueConstruct_as_str ProcessSubstitution = ''process_substitution''"
| "OpaqueConstruct_as_str ArithmeticExpansion = ''arithmetic_expansion''"
| "OpaqueConstruct_as_str AnsiCQuote = ''ansi_c_quote''"
| "OpaqueConstruct_as_str Subshell = ''subshell''"
| "OpaqueConstruct_as_str Group = ''group''"
| "OpaqueConstruct_as_str FunctionDefinition = ''function_definition''"
| "OpaqueConstruct_as_str ControlFlow = ''control_flow''"
| "OpaqueConstruct_as_str Heredoc = ''heredoc''"
| "OpaqueConstruct_as_str Eval = ''eval''"
| "OpaqueConstruct_as_str DynamicProgram = ''dynamic_program''"
| "OpaqueConstruct_as_str UnterminatedQuote = ''unterminated_quote''"
| "OpaqueConstruct_as_str UnbalancedNesting = ''unbalanced_nesting''"
| "OpaqueConstruct_as_str NestingTooDeep = ''nesting_too_deep''"
| "OpaqueConstruct_as_str Oversized = ''oversized''"
| "OpaqueConstruct_as_str Empty = ''empty''"

definition OpaqueConstruct_parse :: "str \<Rightarrow> opaque_construct option" where
  "OpaqueConstruct_parse value =
     List.find (\<lambda>c. OpaqueConstruct_as_str c = value) OpaqueConstruct_ALL"

text \<open>Looking a value up by its name in a duplicate-free closed set finds that value.\<close>

lemma find_by_name:
  assumes "x \<in> set xs" and "inj_on name (set xs)"
  shows "List.find (\<lambda>y. name y = name x) xs = Some x"
  using assms by (induction xs) (auto simp: inj_on_def)

lemma find_by_name_Some: "List.find (\<lambda>y. name y = v) xs = Some x \<Longrightarrow> name x = v"
  by (auto simp: find_Some_iff)

lemma ShellRisk_ALL_complete: "r \<in> set ShellRisk_ALL"
  by (cases r) (simp_all add: ShellRisk_ALL_def)

lemma OpaqueConstruct_ALL_complete: "c \<in> set OpaqueConstruct_ALL"
  by (cases c) (simp_all add: OpaqueConstruct_ALL_def)

lemma ShellRisk_as_str_inj: "inj_on ShellRisk_as_str A"
  by (rule inj_onI) (case_tac x; case_tac y; simp)

lemma OpaqueConstruct_as_str_inj: "inj_on OpaqueConstruct_as_str A"
  by (rule inj_onI) (case_tac x; case_tac y; simp)

subsection \<open>Tokens\<close>

record sh_word =
  w_text :: str
  w_quoted :: bool
  w_dynamic :: bool
  w_glob :: bool
  w_assignment :: bool

definition word_default :: sh_word where
  "word_default =
     \<lparr>w_text = [], w_quoted = False, w_dynamic = False, w_glob = False, w_assignment = False\<rparr>"

datatype connector = Start | Sequence | And | Or | Pipe | Background

datatype redirect_kind =
    Input | Output | Append | ReadWrite | DupOutput | DupInput | HereString | HeredocRedirect

record redirect =
  rd_kind :: redirect_kind
  rd_target :: sh_word
  rd_body :: "str option"

record raw_segment =
  seg_connector :: connector
  seg_words :: "sh_word list"
  seg_redirects :: "redirect list"

record lexed =
  lexed_segments :: "raw_segment list"
  lexed_nested :: "str list"
  lexed_opaque :: "opaque_construct set"

record pending_heredoc =
  hd_segment :: nat
  hd_redirect :: nat
  hd_delimiter :: str
  hd_strip_tabs :: bool
  hd_expands :: bool

definition empty_segment :: "connector \<Rightarrow> raw_segment" where
  "empty_segment c = \<lparr>seg_connector = c, seg_words = [], seg_redirects = []\<rparr>"

definition lexed_default :: lexed where
  "lexed_default = \<lparr>lexed_segments = [], lexed_nested = [], lexed_opaque = {}\<rparr>"

end
