(* ===== verification/ShellLexer.thy ===== *)
theory ShellLexer
  imports ShellTypes
begin

section \<open>The quote-aware tokenizer\<close>

text \<open>
  \<^verbatim>\<open>core/src/permissions/shell/lexer.rs\<close>, function by function.  The \<^verbatim>\<open>Lexer\<close> struct is the record
  \<open>lexer\<close>; a method that mutates it returns the new record.  A cursor loop is a recursive function
  over the character array and an index, with the distance to the end as its measure.

  Two functions of the source call \<^verbatim>\<open>lex\<close> again on a nested text (\<^verbatim>\<open>scan_expansions\<close>, from a
  parameter expansion or an expanding heredoc).  They take the recursive lexer \<open>lx\<close> as an argument,
  and \<open>lex_fuel\<close> ties the knot.  The main loop \<^verbatim>\<open>run\<close> need not end (see \<open>ShellLexer_Termination\<close>), so
  its iterations spend fuel; \<open>None\<close> is running out of it.
\<close>

record lexer =
  lx_chars :: str
  lx_index :: nat
  lx_out :: lexed
  lx_current :: raw_segment
  lx_pending :: "pending_heredoc list"

type_synonym sublexer = "str \<Rightarrow> lexed option"

subsection \<open>Character classes\<close>

definition is_operator_start :: "char \<Rightarrow> bool" where
  "is_operator_start c \<longleftrightarrow> c \<in> set '';&|<>()''"

definition is_name_char :: "char \<Rightarrow> bool" where
  "is_name_char c \<longleftrightarrow> is_ascii_alphanumeric c \<or> c = CHR ''_''"

definition is_special_parameter :: "char \<Rightarrow> bool" where
  "is_special_parameter c \<longleftrightarrow> c \<in> set (''?#@*!-'' @ [DOLLAR])"

definition is_reserved_prefix :: "str \<Rightarrow> bool" where
  "is_reserved_prefix w \<longleftrightarrow>
     w \<in> set [''if'', ''then'', ''elif'', ''else'', ''do'', ''while'', ''until'', ''!'', ''time'']"

subsection \<open>The cursor\<close>

definition peek_at :: "str \<Rightarrow> nat \<Rightarrow> char option" where
  "peek_at cs i = (if i < length cs then Some (cs ! i) else None)"

definition peek :: "lexer \<Rightarrow> nat \<Rightarrow> char option" where
  "peek st k = peek_at (lx_chars st) (lx_index st + k)"

text \<open>\<^verbatim>\<open>self.index += n\<close>\<close>

definition bump :: "nat \<Rightarrow> lexer \<Rightarrow> lexer" where
  "bump n st = st\<lparr>lx_index := lx_index st + n\<rparr>"

definition flag :: "opaque_construct \<Rightarrow> lexer \<Rightarrow> lexer" where
  "flag c st = st\<lparr>lx_out := (lx_out st)\<lparr>lexed_opaque := insert c (lexed_opaque (lx_out st))\<rparr>\<rparr>"

definition push_nested :: "str list \<Rightarrow> lexer \<Rightarrow> lexer" where
  "push_nested ts st = st\<lparr>lx_out := (lx_out st)\<lparr>lexed_nested := lexed_nested (lx_out st) @ ts\<rparr>\<rparr>"

definition push_word :: "sh_word \<Rightarrow> lexer \<Rightarrow> lexer" where
  "push_word w st =
     st\<lparr>lx_current := (lx_current st)\<lparr>seg_words := seg_words (lx_current st) @ [w]\<rparr>\<rparr>"

definition add_redirect :: "redirect \<Rightarrow> lexer \<Rightarrow> lexer" where
  "add_redirect r st =
     st\<lparr>lx_current := (lx_current st)\<lparr>seg_redirects := seg_redirects (lx_current st) @ [r]\<rparr>\<rparr>"

definition push_text :: "str \<Rightarrow> sh_word \<Rightarrow> sh_word" where
  "push_text t w = w\<lparr>w_text := w_text w @ t\<rparr>"

text \<open>\<^verbatim>\<open>while self.peek(0).is_some_and(P) { self.index += 1 }\<close>\<close>

function scan_while :: "(char \<Rightarrow> bool) \<Rightarrow> str \<Rightarrow> nat \<Rightarrow> nat" where
  "scan_while P cs i = (if i < length cs \<and> P (cs ! i) then scan_while P cs (Suc i) else i)"
  by pat_completeness auto
termination
  by (relation "measure (\<lambda>(P, cs, i). length cs - i)") auto

declare scan_while.simps [simp del]

text \<open>Scan to an unescaped terminator: a backslash skips the character after it.\<close>

function escaped_scan :: "char \<Rightarrow> str \<Rightarrow> nat \<Rightarrow> nat" where
  "escaped_scan q cs i =
     (if i < length cs then
        if cs ! i = BSL then escaped_scan q cs (i + 2)
        else if cs ! i = q then i
        else escaped_scan q cs (Suc i)
      else i)"
  by pat_completeness auto
termination
  by (relation "measure (\<lambda>(q, cs, i). length cs - i)") auto

declare escaped_scan.simps [simp del]

lemma scan_while_ge [progress]: "i \<le> scan_while P cs i"
proof (induction P cs i rule: scan_while.induct)
  case (1 P cs i)
  show ?case
    by (cases "i < length cs \<and> P (cs ! i)")
      (use "1.IH" in \<open>auto simp: scan_while.simps [of P cs i]\<close>)
qed

lemma escaped_scan_ge [progress]: "i \<le> escaped_scan q cs i"
proof (induction q cs i rule: escaped_scan.induct)
  case (1 q cs i)
  show ?case
    using "1.IH" by (subst escaped_scan.simps) auto
qed

definition skip_while :: "(char \<Rightarrow> bool) \<Rightarrow> lexer \<Rightarrow> lexer" where
  "skip_while P st = st\<lparr>lx_index := scan_while P (lx_chars st) (lx_index st)\<rparr>"

definition skip_comment :: "lexer \<Rightarrow> lexer" where
  "skip_comment = skip_while (\<lambda>c. c \<noteq> NL)"

definition skip_blank :: "lexer \<Rightarrow> lexer" where
  "skip_blank = skip_while is_whitespace"

definition skip_inline_blank :: "lexer \<Rightarrow> lexer" where
  "skip_inline_blank = skip_while (\<lambda>c. c = SPC \<or> c = TAB)"

definition skip_char :: "char \<Rightarrow> lexer \<Rightarrow> lexer" where
  "skip_char expected st =
     (if peek st 0 = Some expected then bump 1 st else flag UnbalancedNesting st)"

definition next_non_space_after :: "nat \<Rightarrow> lexer \<Rightarrow> char option" where
  "next_non_space_after offset st =
     peek_at (lx_chars st)
       (scan_while (\<lambda>c. c = SPC \<or> c = TAB) (lx_chars st) (lx_index st + offset))"

definition at_word_boundary :: "lexer \<Rightarrow> bool" where
  "at_word_boundary st \<longleftrightarrow>
     lx_index st = 0 \<or>
     (case peek_at (lx_chars st) (lx_index st - 1) of
        None \<Rightarrow> False
      | Some c \<Rightarrow> is_whitespace c \<or> c \<in> set '';&|()'')"

definition fd_redirect_ahead :: "lexer \<Rightarrow> bool" where
  "fd_redirect_ahead st \<longleftrightarrow>
     at_word_boundary st \<and>
     (let e = scan_while is_ascii_digit (lx_chars st) (lx_index st)
      in peek_at (lx_chars st) e \<in> set [Some CHR ''<'', Some CHR ''>''] \<and>
         peek_at (lx_chars st) (e + 1) \<noteq> Some CHR ''('')"

definition at_command_start :: "lexer \<Rightarrow> bool" where
  "at_command_start st \<longleftrightarrow>
     seg_redirects (lx_current st) = [] \<and>
     list_all (\<lambda>w. \<not> w_quoted w \<and> is_reserved_prefix (w_text w)) (seg_words (lx_current st))"

definition after_function_keyword :: "lexer \<Rightarrow> bool" where
  "after_function_keyword st \<longleftrightarrow>
     (case seg_words (lx_current st) of
        [keyword, _] \<Rightarrow> w_text keyword = ''function''
      | _ \<Rightarrow> False)"

definition names_function :: "lexer \<Rightarrow> bool" where
  "names_function st \<longleftrightarrow>
     (case seg_words (lx_current st) of
        [name] \<Rightarrow>
          \<not> w_quoted name \<and> \<not> w_assignment name \<and> \<not> w_dynamic name \<and> w_text name \<noteq> []
      | [_, _] \<Rightarrow> after_function_keyword st
      | _ \<Rightarrow> False)"

definition finish_segment :: "connector \<Rightarrow> lexer \<Rightarrow> lexer" where
  "finish_segment nxt st =
     (let segment = lx_current st;
          st = st\<lparr>lx_current := empty_segment nxt\<rparr>
      in if seg_words segment \<noteq> [] \<or> seg_redirects segment \<noteq> [] then
           st\<lparr>lx_out := (lx_out st)\<lparr>lexed_segments := lexed_segments (lx_out st) @ [segment]\<rparr>\<rparr>
         else if seg_connector segment \<notin> set [Start, Sequence] then
           st\<lparr>lx_current := (lx_current st)\<lparr>seg_connector := seg_connector segment\<rparr>\<rparr>
         else st)"

subsection \<open>Balanced text\<close>

text \<open>
  The loop of \<^verbatim>\<open>read_balanced_text\<close>: the index where it stops and whether it met the closer that
  brings the depth to zero.
\<close>

function balanced_loop :: "char \<Rightarrow> char \<Rightarrow> str \<Rightarrow> nat \<Rightarrow> nat \<Rightarrow> nat \<times> bool" where
  "balanced_loop opn cls cs i depth =
     (if i < length cs then
        let c = cs ! i in
        if c = BSL then balanced_loop opn cls cs (i + 2) depth
        else if c = SQ then
          balanced_loop opn cls cs (scan_while (\<lambda>d. d \<noteq> SQ) cs (i + 1) + 1) depth
        else if c = DQ then
          balanced_loop opn cls cs (escaped_scan DQ cs (i + 1) + 1) depth
        else if c = cls then
          if depth - 1 = 0 then (i, True) else balanced_loop opn cls cs (i + 1) (depth - 1)
        else if c = opn then balanced_loop opn cls cs (i + 1) (depth + 1)
        else balanced_loop opn cls cs (i + 1) depth
      else (i, False))"
  by pat_completeness auto
termination
proof (relation "measure (\<lambda>(opn, cls, cs, i, depth). length cs - i)", goal_cases)
  case (3 opn cls cs i depth x)
  then show ?case using scan_while_ge [of "i + 1" "\<lambda>d. d \<noteq> SQ" cs] by auto
next
  case (4 opn cls cs i depth x)
  then show ?case using escaped_scan_ge [of "i + 1" DQ cs] by auto
qed auto

declare balanced_loop.simps [simp del]

definition read_balanced_text :: "char \<Rightarrow> char \<Rightarrow> lexer \<Rightarrow> str \<times> lexer" where
  "read_balanced_text opn cls st =
     (let cs = lx_chars st; start = lx_index st;
          (i, closed) = balanced_loop opn cls cs start 1
      in if closed then (slice start (min i (length cs)) cs, st\<lparr>lx_index := i\<rparr>)
         else let st = flag UnbalancedNesting st; e = min i (length cs)
              in (slice (min start e) e cs, st\<lparr>lx_index := length cs\<rparr>))"

definition read_balanced_into_nested :: "char \<Rightarrow> char \<Rightarrow> lexer \<Rightarrow> str \<times> lexer" where
  "read_balanced_into_nested opn cls st =
     (let (inner, st) = read_balanced_text opn cls st;
          st = (if peek st 0 = Some cls then bump 1 st else st)
      in (inner, push_nested [inner] st))"

definition function_body :: "lexer \<Rightarrow> lexer" where
  "function_body st =
     (let st = flag FunctionDefinition st;
          st = st\<lparr>lx_current := (lx_current st)\<lparr>seg_words := []\<rparr>\<rparr>;
          st = skip_blank st
      in if peek st 0 = Some CHR ''{'' then
           snd (read_balanced_into_nested CHR ''{'' CHR ''}'' (bump 1 st))
         else if peek st 0 = Some CHR ''('' then
           snd (read_balanced_into_nested CHR ''('' CHR '')'' (bump 1 st))
         else flag UnbalancedNesting st)"

definition open_paren :: "lexer \<Rightarrow> lexer" where
  "open_paren st =
     (if names_function st \<and> next_non_space_after 1 st = Some CHR '')'' then
        function_body (bump 1 (skip_while (\<lambda>c. c \<noteq> CHR '')'') (bump 1 st)))
      else if at_command_start st then
        let st = bump 1 st in
        if peek st 0 = Some CHR ''('' then
          let st = bump 1 (flag ArithmeticExpansion st);
              st = snd (read_balanced_text CHR ''('' CHR '')'' st)
          in skip_char CHR '')'' (skip_char CHR '')'' st)
        else snd (read_balanced_into_nested CHR ''('' CHR '')'' (flag Subshell st))
      else bump 1 (flag UnbalancedNesting st))"

definition process_substitution :: "lexer \<Rightarrow> lexer" where
  "process_substitution st =
     (let st = flag ProcessSubstitution (bump 2 st);
          (inner, st) = read_balanced_into_nested CHR ''('' CHR '')'' st
      in push_word
           (word_default\<lparr>w_text := ''<('' @ inner @ '')'', w_dynamic := True\<rparr>) st)"

subsection \<open>Expansions inside a word\<close>

text \<open>\<^verbatim>\<open>lex_double_quoted\<close> wraps the text in double quotes and lexes it; \<open>dq_source\<close> is the wrapped text.\<close>

definition dq_source :: "str \<Rightarrow> str" where
  "dq_source t = DQ # concat (map (\<lambda>c. if c = DQ then [BSL, c] else [c]) t) @ [DQ]"

definition lex_double_quoted :: "sublexer \<Rightarrow> str \<Rightarrow> lexed option" where
  "lex_double_quoted lx t = lx (dq_source t)"

definition scan_expansions :: "sublexer \<Rightarrow> str \<Rightarrow> lexer \<Rightarrow> lexer option" where
  "scan_expansions lx t st = do {
     inner \<leftarrow> lex_double_quoted lx t;
     Some (push_nested (lexed_nested inner)
       (if lexed_nested inner \<noteq> [] then flag CommandSubstitution st else st)) }"

function backtick_loop :: "str \<Rightarrow> nat \<Rightarrow> str \<Rightarrow> str \<times> nat \<times> bool" where
  "backtick_loop cs i inner =
     (if i < length cs then
        if cs ! i = BSL then
          backtick_loop cs (i + 2)
            (case peek_at cs (i + 1) of
               None \<Rightarrow> inner
             | Some nxt \<Rightarrow>
                 inner @ (if nxt \<in> set [BTICK, BSL, DOLLAR] then [] else [BSL]) @ [nxt])
        else if cs ! i = BTICK then (inner, i + 1, True)
        else backtick_loop cs (i + 1) (inner @ [cs ! i])
      else (inner, i, False))"
  by pat_completeness auto
termination
  by (relation "measure (\<lambda>(cs, i, inner). length cs - i)") auto

declare backtick_loop.simps [simp del]

lemma backtick_loop_ge [progress]: "backtick_loop cs i inner = (t, j, b) \<Longrightarrow> i \<le> j"
proof (induction cs i inner arbitrary: t j b rule: backtick_loop.induct)
  case (1 cs i inner)
  show ?case
    by (cases "i < length cs"; cases "cs ! i = BSL"; cases "cs ! i = BTICK")
      (use "1.prems" "1.IH" in \<open>force simp: backtick_loop.simps [of cs i inner]\<close>)+
qed

definition read_backtick :: "sh_word \<Rightarrow> lexer \<Rightarrow> sh_word \<times> lexer" where
  "read_backtick w st =
     (let st = flag CommandSubstitution (bump 1 st);
          (inner, i, terminated) = backtick_loop (lx_chars st) (lx_index st) [];
          st = st\<lparr>lx_index := i\<rparr>;
          st = (if terminated then st else flag UnterminatedQuote st);
          w = (push_text ([BTICK] @ inner @ [BTICK]) w)\<lparr>w_dynamic := True\<rparr>
      in (w, push_nested [inner] st))"

text \<open>
  \<^verbatim>\<open>read_dollar\<close> and \<^verbatim>\<open>read_double_quoted\<close> call each other, but inside double quotes \<^verbatim>\<open>read_dollar\<close> never
  opens another double-quoted string.  The reader for that string is a parameter here; within
  double quotes it is not reached (\<open>read_dollar_in_quotes\<close> below).
\<close>

definition read_dollar_with ::
    "(sh_word \<Rightarrow> lexer \<Rightarrow> (sh_word \<times> lexer) option) \<Rightarrow> sublexer \<Rightarrow> sh_word \<Rightarrow> bool \<Rightarrow> lexer
      \<Rightarrow> (sh_word \<times> lexer) option" where
  "read_dollar_with rdq lx w in_double_quotes st =
     (let st = bump 1 st in
      case peek st 0 of
        None \<Rightarrow> Some (push_text [DOLLAR] w, st)
      | Some c \<Rightarrow>
        if c = CHR ''('' \<and> peek st 1 = Some CHR ''('' then
          let st = flag ArithmeticExpansion (bump 2 st);
              (inner, st) = read_balanced_text CHR ''('' CHR '')'' st;
              st = skip_char CHR '')'' (skip_char CHR '')'' st)
          in Some ((push_text ([DOLLAR] @ ''(('' @ inner @ ''))'') w)\<lparr>w_dynamic := True\<rparr>, st)
        else if c = CHR ''('' then
          let st = flag CommandSubstitution (bump 1 st);
              (inner, st) = read_balanced_into_nested CHR ''('' CHR '')'' st
          in Some ((push_text ([DOLLAR] @ ''('' @ inner @ '')'') w)\<lparr>w_dynamic := True\<rparr>, st)
        else if c = CHR ''{'' then
          let (inner, st) = read_balanced_text CHR ''{'' CHR ''}'' (bump 1 st);
              st = skip_char CHR ''}'' st
          in do {
               st \<leftarrow> (if contains_str ([DOLLAR] @ ''('') inner \<or> BTICK \<in> set inner
                      then scan_expansions lx inner st else Some st);
               Some ((push_text ([DOLLAR] @ ''{'' @ inner @ ''}'') w)\<lparr>w_dynamic := True\<rparr>, st) }
        else if c = SQ \<and> \<not> in_double_quotes then
          let st = flag AnsiCQuote (bump 1 st);
              start = lx_index st;
              i = escaped_scan SQ (lx_chars st) start;
              st = st\<lparr>lx_index := i\<rparr>;
              w = push_text ([DOLLAR, SQ] @ slice start (min i (length (lx_chars st))) (lx_chars st)
                    @ [SQ]) w;
              st = (if peek st 0 = None then flag UnterminatedQuote st else st)
          in Some (w\<lparr>w_quoted := True, w_dynamic := True\<rparr>, bump 1 st)
        else if c = DQ \<and> \<not> in_double_quotes then rdq (w\<lparr>w_quoted := True\<rparr>) (bump 1 st)
        else if is_name_char c \<or> is_special_parameter c then
          if is_name_char c \<and> \<not> is_ascii_digit c then
            let i = scan_while is_name_char (lx_chars st) (lx_index st)
            in Some ((push_text ([DOLLAR] @ slice (lx_index st) i (lx_chars st)) w)
                       \<lparr>w_dynamic := True\<rparr>, st\<lparr>lx_index := i\<rparr>)
          else Some ((push_text [DOLLAR, c] w)\<lparr>w_dynamic := True\<rparr>, bump 1 st)
        else Some (push_text [DOLLAR] w, st))"

text \<open>\<^verbatim>\<open>self.read_dollar(word, true)\<close>\<close>

definition read_dollar_in_quotes ::
    "sublexer \<Rightarrow> sh_word \<Rightarrow> lexer \<Rightarrow> (sh_word \<times> lexer) option" where
  "read_dollar_in_quotes lx w st = read_dollar_with (\<lambda>w st. None) lx w True st"

subsection \<open>Progress of the readers used inside loops\<close>

text \<open>Same text, and the cursor has not moved back (\<open>keeps\<close>) or has moved on (\<open>advances\<close>).\<close>

definition keeps :: "lexer \<Rightarrow> lexer \<Rightarrow> bool" where
  "keeps st st' \<longleftrightarrow> lx_chars st' = lx_chars st \<and> lx_index st \<le> lx_index st'"

definition advances :: "lexer \<Rightarrow> lexer \<Rightarrow> bool" where
  "advances st st' \<longleftrightarrow> lx_chars st' = lx_chars st \<and> lx_index st < lx_index st'"

lemma lexer_frame [simp]:
  "lx_chars (bump n st) = lx_chars st" "lx_index (bump n st) = lx_index st + n"
  "lx_chars (flag c st) = lx_chars st" "lx_index (flag c st) = lx_index st"
  "lx_chars (push_nested ts st) = lx_chars st" "lx_index (push_nested ts st) = lx_index st"
  "lx_chars (push_word w st) = lx_chars st" "lx_index (push_word w st) = lx_index st"
  "lx_chars (add_redirect r st) = lx_chars st" "lx_index (add_redirect r st) = lx_index st"
  "lx_chars (skip_while P st) = lx_chars st"
  "lx_chars (finish_segment k st) = lx_chars st" "lx_index (finish_segment k st) = lx_index st"
  by (simp_all add: bump_def flag_def push_nested_def push_word_def add_redirect_def
      skip_while_def finish_segment_def Let_def)

lemma lexer_frame_pending [simp]:
  "lx_pending (bump n st) = lx_pending st" "lx_pending (flag c st) = lx_pending st"
  "lx_pending (push_nested ts st) = lx_pending st" "lx_pending (push_word w st) = lx_pending st"
  "lx_pending (add_redirect r st) = lx_pending st" "lx_pending (skip_while P st) = lx_pending st"
  "lx_pending (finish_segment k st) = lx_pending st"
  by (simp_all add: bump_def flag_def push_nested_def push_word_def add_redirect_def
      skip_while_def finish_segment_def Let_def)

lemma peek_Some: "peek st k = Some c \<longleftrightarrow> lx_index st + k < length (lx_chars st) \<and> lx_chars st ! (lx_index st + k) = c"
  by (auto simp: peek_def peek_at_def)

lemma peek_None: "peek st k = None \<longleftrightarrow> length (lx_chars st) \<le> lx_index st + k"
  by (auto simp: peek_def peek_at_def)

lemma keeps_refl [simp, intro]: "keeps st st"
  by (simp add: keeps_def)

lemma keeps_trans [trans]: "keeps a b \<Longrightarrow> keeps b c \<Longrightarrow> keeps a c"
  by (auto simp: keeps_def)

lemma advances_keeps: "advances a b \<Longrightarrow> keeps a b"
  by (auto simp: keeps_def advances_def)

lemma advances_trans1 [trans]: "advances a b \<Longrightarrow> keeps b c \<Longrightarrow> advances a c"
  by (auto simp: keeps_def advances_def)

lemma advances_trans2 [trans]: "keeps a b \<Longrightarrow> advances b c \<Longrightarrow> advances a c"
  by (auto simp: keeps_def advances_def)

lemma balanced_loop_bounds:
  "balanced_loop opn cls cs i depth = (j, b) \<Longrightarrow> i \<le> j \<and> (b \<longrightarrow> j < length cs \<and> cs ! j = cls)"
proof (induction opn cls cs i depth arbitrary: j b rule: balanced_loop.induct)
  case (1 opn cls cs i depth)
  note sq = scan_while_ge [of "Suc i" "\<lambda>d. d \<noteq> SQ" cs]
  note dq = escaped_scan_ge [of "Suc i" DQ cs]
  note unfold = balanced_loop.simps [of opn cls cs i depth]
  note res = "1.prems"
  consider "\<not> i < length cs" | "i < length cs" "cs ! i = BSL" | "i < length cs" "cs ! i = SQ"
    | "i < length cs" "cs ! i = DQ"
    | "i < length cs" "cs ! i \<notin> {BSL, SQ, DQ}" by blast
  then show ?case
  proof cases
    case 1
    then show ?thesis using res by (simp add: unfold)
  next
    case 2
    then have "balanced_loop opn cls cs (i + 2) depth = (j, b)" using res by (simp add: unfold)
    then have "i + 2 \<le> j \<and> (b \<longrightarrow> j < length cs \<and> cs ! j = cls)"
      using "1.IH"(1) 2 by simp
    then show ?thesis by simp
  next
    case 3
    then have "balanced_loop opn cls cs (scan_while (\<lambda>d. d \<noteq> SQ) cs (i + 1) + 1) depth = (j, b)"
      using res by (simp add: unfold)
    then have "scan_while (\<lambda>d. d \<noteq> SQ) cs (i + 1) + 1 \<le> j
        \<and> (b \<longrightarrow> j < length cs \<and> cs ! j = cls)"
      using "1.IH"(2) 3 by simp
    then show ?thesis using sq by simp
  next
    case 4
    then have "balanced_loop opn cls cs (escaped_scan DQ cs (i + 1) + 1) depth = (j, b)"
      using res by (simp add: unfold)
    then have "escaped_scan DQ cs (i + 1) + 1 \<le> j \<and> (b \<longrightarrow> j < length cs \<and> cs ! j = cls)"
      using "1.IH"(3) 4 by simp
    then show ?thesis using dq by simp
  next
    case 5
    note ih = "1.IH"(4,5,6) [OF 5(1) refl]
    from res 5 have body: "(if cs ! i = cls then
          if depth - 1 = 0 then (i, True) else balanced_loop opn cls cs (i + 1) (depth - 1)
        else if cs ! i = opn then balanced_loop opn cls cs (i + 1) (depth + 1)
        else balanced_loop opn cls cs (i + 1) depth) = (j, b)"
      unfolding unfold Let_def by (simp only: if_True if_False insert_iff empty_iff simp_thms de_Morgan_disj)
    show ?thesis
    proof (cases "cs ! i = cls \<and> depth - 1 = 0")
      case True
      with body 5 show ?thesis by auto
    next
      case False
      then have "i + 1 \<le> j \<and> (b \<longrightarrow> j < length cs \<and> cs ! j = cls)"
        using body 5(2) ih(1) [of j b] ih(2) [of j b] ih(3) [of j b]
        by (metis insert_iff)
      then show ?thesis by simp
    qed
  qed
qed

lemma read_balanced_text_keeps:
  assumes "read_balanced_text opn cls st = (t, st')" and "lx_index st \<le> length (lx_chars st)"
  shows "keeps st st' \<and> lx_pending st' = lx_pending st"
proof -
  obtain i b where ib: "balanced_loop opn cls (lx_chars st) (lx_index st) 1 = (i, b)"
    by fastforce
  with balanced_loop_bounds [OF ib] assms show ?thesis
    by (auto simp: read_balanced_text_def keeps_def Let_def split: if_splits)
qed

lemma read_balanced_into_nested_keeps:
  assumes "read_balanced_into_nested opn cls st = (t, st')"
    and "lx_index st \<le> length (lx_chars st)"
  shows "keeps st st' \<and> lx_pending st' = lx_pending st"
proof -
  obtain t1 st1 where r: "read_balanced_text opn cls st = (t1, st1)"
    by fastforce
  with read_balanced_text_keeps [OF r assms(2)] assms(1) show ?thesis
    by (auto simp: read_balanced_into_nested_def keeps_def Let_def split: if_splits)
qed

lemma skip_while_keeps: "keeps st (skip_while P st)"
  by (simp add: keeps_def skip_while_def scan_while_ge)

lemma skip_char_keeps: "keeps st (skip_char c st)"
  by (simp add: keeps_def skip_char_def)

lemma skip_char_pending [simp]: "lx_pending (skip_char c st) = lx_pending st"
  by (simp add: skip_char_def)

lemma scan_expansions_keeps:
  "scan_expansions lx t st = Some st' \<Longrightarrow>
     lx_chars st' = lx_chars st \<and> lx_index st' = lx_index st \<and> lx_pending st' = lx_pending st"
  by (auto simp: scan_expansions_def bind_eq_Some_conv)

lemma read_backtick_advances:
  assumes "read_backtick w st = (w', st')"
  shows "advances st st' \<and> lx_pending st' = lx_pending st"
proof -
  obtain t i b where loop: "backtick_loop (lx_chars st) (Suc (lx_index st)) [] = (t, i, b)"
    by (metis prod_cases3)
  with backtick_loop_ge [OF loop] assms show ?thesis
    by (auto simp: read_backtick_def advances_def Let_def split: if_splits)
qed

lemma skip_char_twice_keeps: "keeps st (skip_char c (skip_char d st))"
  by (rule keeps_trans [OF skip_char_keeps skip_char_keeps])

text \<open>
  \<open>reader_ok\<close>: a reader of part of a word moves the cursor on and leaves the pending heredocs alone.
\<close>

definition reader_ok :: "(sh_word \<Rightarrow> lexer \<Rightarrow> (sh_word \<times> lexer) option) \<Rightarrow> bool" where
  "reader_ok rd \<longleftrightarrow>
     (\<forall>w st w' st'. rd w st = Some (w', st') \<longrightarrow> keeps st st' \<and> lx_pending st' = lx_pending st)"

lemma read_dollar_with_advances:
  assumes rdq: "reader_ok rdq"
    and res: "read_dollar_with rdq lx w q st = Some (w', st')"
  shows "advances st st' \<and> lx_pending st' = lx_pending st"
proof -
  let ?s = "bump 1 st"
  have adv: "keeps ?s st' \<Longrightarrow> advances st st'"
    by (auto simp: keeps_def advances_def)
  show ?thesis
  proof (cases "peek ?s 0")
    case None
    with res adv show ?thesis by (auto simp: read_dollar_with_def)
  next
    case (Some c)
    then have bound: "lx_index ?s < length (lx_chars ?s)" by (simp add: peek_Some)
    consider (arith) "c = CHR ''(''" "peek ?s 1 = Some CHR ''(''"
      | (subst) "c = CHR ''(''" "peek ?s 1 \<noteq> Some CHR ''(''"
      | (param) "c = CHR ''{''" | (ansi) "c = SQ" "\<not> q" | (translated) "c = DQ" "\<not> q"
      | (other) "c \<notin> {CHR ''('', CHR ''{''}" "c = SQ \<longrightarrow> q" "c = DQ \<longrightarrow> q"
      by blast
    then show ?thesis
    proof cases
      case arith
      obtain t st1 where r: "read_balanced_text CHR ''('' CHR '')'' (flag ArithmeticExpansion (bump 2 ?s)) = (t, st1)"
        by fastforce
      have "keeps (flag ArithmeticExpansion (bump 2 ?s)) st1 \<and> lx_pending st1 = lx_pending st"
        using read_balanced_text_keeps [OF r] arith(2) by (simp add: peek_Some)
      moreover have "st' = skip_char CHR '')'' (skip_char CHR '')'' st1)"
        using res Some arith r by (simp add: read_dollar_with_def Let_def)
      ultimately have "keeps ?s st' \<and> lx_pending st' = lx_pending st"
        using skip_char_twice_keeps [of st1 "CHR '')''" "CHR '')''"] by (auto simp: keeps_def)
      then show ?thesis using adv by blast
    next
      case subst
      obtain t st1 where r: "read_balanced_into_nested CHR ''('' CHR '')'' (flag CommandSubstitution (bump 1 ?s)) = (t, st1)"
        by fastforce
      have "keeps (flag CommandSubstitution (bump 1 ?s)) st1 \<and> lx_pending st1 = lx_pending st"
        using read_balanced_into_nested_keeps [OF r] bound by simp
      moreover have "st' = st1"
        using res Some subst r by (simp add: read_dollar_with_def Let_def)
      ultimately show ?thesis using adv by (auto simp: keeps_def)
    next
      case param
      obtain t st1 where r: "read_balanced_text CHR ''{'' CHR ''}'' (bump 1 ?s) = (t, st1)"
        by fastforce
      have k: "keeps (bump 1 ?s) st1 \<and> lx_pending st1 = lx_pending st"
        using read_balanced_text_keeps [OF r] bound by simp
      have "lx_chars st' = lx_chars st1 \<and> lx_index (skip_char CHR ''}'' st1) = lx_index st'
          \<and> lx_pending st' = lx_pending st1"
        using res Some param r scan_expansions_keeps [of lx t "skip_char CHR ''}'' st1"]
          skip_char_keeps [of st1 "CHR ''}''"]
        by (auto simp: read_dollar_with_def Let_def bind_eq_Some_conv keeps_def split: if_splits)
      then show ?thesis
        using k skip_char_keeps [of st1 "CHR ''}''"] adv by (auto simp: keeps_def)
    next
      case ansi
      with res Some show ?thesis
        using escaped_scan_ge [of "lx_index st + 2" SQ "lx_chars st"]
        by (auto simp: read_dollar_with_def Let_def advances_def)
    next
      case translated
      with res Some have "rdq (w\<lparr>w_quoted := True\<rparr>) (bump 1 ?s) = Some (w', st')"
        by (simp add: read_dollar_with_def Let_def)
      with rdq have "keeps (bump 1 ?s) st' \<and> lx_pending st' = lx_pending (bump 1 ?s)"
        unfolding reader_ok_def by blast
      then show ?thesis using adv by (auto simp: keeps_def)
    next
      case other
      then have "st' \<in> {?s, bump 1 ?s,
          ?s\<lparr>lx_index := scan_while is_name_char (lx_chars ?s) (lx_index ?s)\<rparr>}"
        using res Some by (auto simp: read_dollar_with_def Let_def split: if_splits)
      then have "keeps ?s st' \<and> lx_pending st' = lx_pending st"
        using scan_while_ge [of "lx_index ?s" is_name_char "lx_chars ?s"]
        by (auto simp: keeps_def)
      then show ?thesis using adv by blast
    qed
  qed
qed

lemma read_dollar_in_quotes_advances:
  "read_dollar_in_quotes lx w st = Some (w', st') \<Longrightarrow>
     advances st st' \<and> lx_pending st' = lx_pending st"
  unfolding read_dollar_in_quotes_def
  by (rule read_dollar_with_advances) (simp_all add: reader_ok_def)

subsection \<open>Words\<close>

function read_double_quoted :: "sublexer \<Rightarrow> sh_word \<Rightarrow> lexer \<Rightarrow> (sh_word \<times> lexer) option" where
  "read_double_quoted lx w st =
     (case peek st 0 of
        None \<Rightarrow> Some (w, flag UnterminatedQuote st)
      | Some c \<Rightarrow>
        if c = DQ then Some (w, bump 1 st)
        else if c = BSL then
          (case peek (bump 1 st) 0 of
             None \<Rightarrow> read_double_quoted lx w (bump 1 st)
           | Some e \<Rightarrow>
             if e \<in> set [DOLLAR, BTICK, DQ, BSL] then
               read_double_quoted lx (push_text [e] w) (bump 1 (bump 1 st))
             else if e = NL then read_double_quoted lx w (bump 1 (bump 1 st))
             else read_double_quoted lx (push_text [BSL] w) (bump 1 st))
        else if c = DOLLAR then
          (case read_dollar_in_quotes lx w st of
             None \<Rightarrow> None
           | Some (w', st') \<Rightarrow> read_double_quoted lx w' st')
        else if c = BTICK then
          (case read_backtick w st of (w', st') \<Rightarrow> read_double_quoted lx w' st')
        else read_double_quoted lx (push_text [c] w) (bump 1 st))"
  by pat_completeness auto
termination
proof (relation "measure (\<lambda>(lx, w, st). length (lx_chars st) - lx_index st)", goal_cases)
  case (6 lx w st c a w' st')
  then show ?case
    using read_dollar_in_quotes_advances [of lx w st w' st']
    by (auto simp: advances_def peek_Some)
next
  case (7 lx w st c w' st')
  then show ?case
    using read_backtick_advances [of w st w' st']
    by (cases "read_backtick w st") (auto simp: advances_def peek_Some)
qed (auto simp: peek_Some)

declare read_double_quoted.simps [simp del]

definition read_dollar :: "sublexer \<Rightarrow> sh_word \<Rightarrow> bool \<Rightarrow> lexer \<Rightarrow> (sh_word \<times> lexer) option" where
  "read_dollar lx w in_double_quotes st =
     read_dollar_with (read_double_quoted lx) lx w in_double_quotes st"

lemma read_dollar_True: "read_dollar lx w True st = read_dollar_in_quotes lx w st"
  by (simp add: read_dollar_def read_dollar_in_quotes_def read_dollar_with_def Let_def
      cong: if_cong option.case_cong)

lemma read_double_quoted_keeps:
  "read_double_quoted lx w st = Some (w', st') \<Longrightarrow> keeps st st' \<and> lx_pending st' = lx_pending st"
proof (induction lx w st arbitrary: w' st' rule: read_double_quoted.induct)
  case (1 lx w st)
  note unfold = read_double_quoted.simps [of lx w st]
  note kt = keeps_trans
  have b: "keeps st (bump n st)" for n by (simp add: keeps_def)
  show ?case
  proof (cases "peek st 0")
    case None
    with "1.prems" show ?thesis by (auto simp: unfold keeps_def)
  next
    case (Some c)
    note ih = "1.IH" [OF Some]
    consider "c = DQ" | (esc) "c = BSL" | (dollar) "c = DOLLAR" | (tick) "c = BTICK"
      | (plain) "c \<notin> {DQ, BSL, DOLLAR, BTICK}" by blast
    then show ?thesis
    proof cases
      case 1
      with "1.prems" Some show ?thesis by (auto simp: unfold keeps_def)
    next
      case esc
      show ?thesis
      proof (cases "peek (bump 1 st) 0")
        case None
        with esc Some "1.prems" have "read_double_quoted lx w (bump 1 st) = Some (w', st')"
          by (simp add: unfold)
        from ih(1) [OF _ esc None this] show ?thesis using b [of 1] kt esc by auto
      next
        case (Some e)
        note e = this
        consider "e \<in> set [DOLLAR, BTICK, DQ, BSL]" | "e = NL" | "e \<notin> set [DOLLAR, BTICK, DQ, BSL, NL]"
          by force
        then show ?thesis
        proof cases
          case 1
          then have "read_double_quoted lx (push_text [e] w) (bump 1 (bump 1 st)) = Some (w', st')"
            using "1.prems" \<open>peek st 0 = Some c\<close> esc e by (auto simp: unfold)
          from ih(2) [OF _ esc e 1 this] show ?thesis using esc by (auto simp: keeps_def)
        next
          case 2
          then have "read_double_quoted lx w (bump 1 (bump 1 st)) = Some (w', st')"
            using "1.prems" \<open>peek st 0 = Some c\<close> esc e by (auto simp: unfold)
          from ih(3) [OF _ esc e _ 2 this] show ?thesis using esc 2 by (auto simp: keeps_def)
        next
          case 3
          then have "read_double_quoted lx (push_text [BSL] w) (bump 1 st) = Some (w', st')"
            using "1.prems" \<open>peek st 0 = Some c\<close> esc e by (auto simp: unfold)
          from ih(4) [OF _ esc e _ _ this] show ?thesis using esc 3 by (auto simp: keeps_def)
        qed
      qed
    next
      case dollar
      then obtain w1 st1 where r: "read_dollar_in_quotes lx w st = Some (w1, st1)"
        and rest: "read_double_quoted lx w1 st1 = Some (w', st')"
        using "1.prems" Some by (auto simp: unfold split: option.splits)
      from ih(5) [OF _ _ dollar r refl rest] read_dollar_in_quotes_advances [OF r] dollar
      show ?thesis by (auto simp: keeps_def advances_def)
    next
      case tick
      obtain w1 st1 where r: "read_backtick w st = (w1, st1)" by fastforce
      then have rest: "read_double_quoted lx w1 st1 = Some (w', st')"
        using "1.prems" Some tick by (auto simp: unfold)
      from ih(6) [OF _ _ _ tick r [symmetric] rest] read_backtick_advances [OF r] tick
      show ?thesis by (auto simp: keeps_def advances_def)
    next
      case plain
      then have rest: "read_double_quoted lx (push_text [c] w) (bump 1 st) = Some (w', st')"
        using "1.prems" Some by (auto simp: unfold)
      from ih(7) [OF _ _ _ _ rest] plain show ?thesis by (auto simp: keeps_def)
    qed
  qed
qed

lemma read_dollar_advances:
  "read_dollar lx w q st = Some (w', st') \<Longrightarrow> advances st st' \<and> lx_pending st' = lx_pending st"
  unfolding read_dollar_def
  by (rule read_dollar_with_advances) (auto simp: reader_ok_def dest: read_double_quoted_keeps)

text \<open>One iteration of the loop of \<^verbatim>\<open>read_word\<close>, past the two \<^verbatim>\<open>break\<close> arms.\<close>

definition read_word_step ::
    "sublexer \<Rightarrow> char \<Rightarrow> lexer \<Rightarrow> sh_word \<Rightarrow> bool \<Rightarrow> (lexer \<times> sh_word \<times> bool) option" where
  "read_word_step lx c st w name_prefix =
     (if c = BSL then
        let st = bump 1 st in
        (case peek st 0 of
           None \<Rightarrow> Some (st, w, False)
         | Some e \<Rightarrow>
           if e = NL then Some (bump 1 st, w, False)
           else Some (bump 1 st, (push_text [e] w)\<lparr>w_quoted := True\<rparr>, False))
      else if c = SQ then
        let st = bump 1 st; start = lx_index st;
            st = skip_while (\<lambda>d. d \<noteq> SQ) st;
            st = (if peek st 0 = None then flag UnterminatedQuote st else st);
            w = (push_text (slice start (lx_index st) (lx_chars st)) w)\<lparr>w_quoted := True\<rparr>
        in Some (bump 1 st, w, False)
      else if c = DQ then do {
        (w, st) \<leftarrow> read_double_quoted lx (w\<lparr>w_quoted := True\<rparr>) (bump 1 st);
        Some (st, w, False) }
      else if c = DOLLAR then do {
        (w, st) \<leftarrow> read_dollar lx w False st;
        Some (st, w, False) }
      else if c = BTICK then
        let (w, st) = read_backtick w st in Some (st, w, False)
      else if c = CHR ''='' \<and> name_prefix \<and> w_text w \<noteq> [] then
        Some (bump 1 st, (push_text [c] w)\<lparr>w_assignment := True\<rparr>, False)
      else if c = CHR ''+'' \<and> name_prefix \<and> peek st 1 = Some CHR ''='' \<and> w_text w \<noteq> [] then
        Some (bump 2 st, (push_text ''+='' w)\<lparr>w_assignment := True\<rparr>, False)
      else
        let name_prefix =
              (if \<not> is_name_char c \<or> w_text w = [] \<and> is_ascii_digit c then False else name_prefix);
            w = (if c \<in> set ''*?[{'' then w\<lparr>w_glob := True\<rparr> else w);
            w = (if c = CHR ''~'' \<and> w_text w = [] then w\<lparr>w_dynamic := True\<rparr> else w)
        in Some (bump 1 st, push_text [c] w, name_prefix))"

lemma read_word_step_advances:
  assumes "read_word_step lx c st w np = Some (st', w', np')"
  shows "advances st st' \<and> lx_pending st' = lx_pending st"
proof -
  consider (dq) "c = DQ" | (dollar) "c = DOLLAR" | (tick) "c = BTICK" | (sq) "c = SQ"
    | (esc) "c = BSL" | (plain) "c \<notin> {DQ, DOLLAR, BTICK, SQ, BSL}" by blast
  then show ?thesis
  proof cases
    case dq
    then obtain w1 where
      "read_double_quoted lx (w\<lparr>w_quoted := True\<rparr>) (bump 1 st) = Some (w1, st')"
      using assms by (auto simp: read_word_step_def bind_eq_Some_conv)
    from read_double_quoted_keeps [OF this] show ?thesis by (auto simp: keeps_def advances_def)
  next
    case dollar
    then obtain w1 where "read_dollar lx w False st = Some (w1, st')"
      using assms by (auto simp: read_word_step_def bind_eq_Some_conv)
    from read_dollar_advances [OF this] show ?thesis .
  next
    case tick
    obtain w1 st1 where r: "read_backtick w st = (w1, st1)" by fastforce
    with assms tick have "st' = st1" by (auto simp: read_word_step_def)
    with read_backtick_advances [OF r] show ?thesis by simp
  next
    case sq
    let ?s = "skip_while (\<lambda>d. d \<noteq> SQ) (bump 1 st)"
    from sq assms have "st' = bump 1 ?s \<or> st' = bump 1 (flag UnterminatedQuote ?s)"
      by (auto simp: read_word_step_def Let_def split: if_splits)
    with skip_while_keeps [of "bump 1 st" "\<lambda>d. d \<noteq> SQ"] show ?thesis
      by (auto simp: advances_def keeps_def)
  next
    case esc
    then show ?thesis
      using assms
      by (auto simp: read_word_step_def Let_def advances_def split: option.splits if_splits)
  next
    case plain
    then have "st' = bump 1 st \<or> st' = bump 2 st"
      using assms by (auto simp: read_word_step_def Let_def split: if_splits)
    then show ?thesis by (auto simp: advances_def)
  qed
qed

function read_word_loop ::
    "sublexer \<Rightarrow> lexer \<Rightarrow> sh_word \<Rightarrow> bool \<Rightarrow> (sh_word \<times> lexer) option" where
  "read_word_loop lx st w name_prefix =
     (case peek st 0 of
        None \<Rightarrow> Some (w, st)
      | Some c \<Rightarrow>
        if is_whitespace c then Some (w, st)
        else if is_operator_start c then Some (w, st)
        else (case read_word_step lx c st w name_prefix of
                None \<Rightarrow> None
              | Some (st', w', np') \<Rightarrow> read_word_loop lx st' w' np'))"
  by pat_completeness auto
termination
proof (relation "measure (\<lambda>(lx, st, w, np). length (lx_chars st) - lx_index st)", goal_cases)
  case (2 lx st w np c a st' y w' np')
  then show ?case
    using read_word_step_advances [of lx c st w np st' w' np']
    by (auto simp: advances_def peek_Some)
qed simp

declare read_word_loop.simps [simp del]

definition read_word :: "sublexer \<Rightarrow> lexer \<Rightarrow> (sh_word \<times> lexer) option" where
  "read_word lx st = read_word_loop lx st word_default True"

lemma read_word_loop_keeps:
  "read_word_loop lx st w np = Some (w', st') \<Longrightarrow> keeps st st' \<and> lx_pending st' = lx_pending st"
proof (induction lx st w np arbitrary: w' st' rule: read_word_loop.induct)
  case (1 lx st w np)
  note unfold = read_word_loop.simps [of lx st w np]
  show ?case
  proof (cases "peek st 0")
    case (Some c)
    note c = this
    show ?thesis
    proof (cases "is_whitespace c \<or> is_operator_start c")
      case False
      then obtain st1 w1 np1 where step: "read_word_step lx c st w np = Some (st1, w1, np1)"
        and rest: "read_word_loop lx st1 w1 np1 = Some (w', st')"
        using "1.prems" c by (auto simp: unfold split: option.splits)
      from "1.IH" [OF c _ _ step refl refl rest] read_word_step_advances [OF step] False
      show ?thesis by (auto simp: keeps_def advances_def)
    qed (use "1.prems" c in \<open>auto simp: unfold split: if_splits\<close>)
  qed (use "1.prems" in \<open>auto simp: unfold\<close>)
qed

lemma read_word_keeps:
  "read_word lx st = Some (w', st') \<Longrightarrow> keeps st st' \<and> lx_pending st' = lx_pending st"
  unfolding read_word_def by (rule read_word_loop_keeps)

text \<open>
  A word starting at a character that is neither white space nor an operator consumes it.
\<close>

lemma read_word_advances:
  assumes c: "peek st 0 = Some c" "\<not> is_whitespace c" "\<not> is_operator_start c"
    and res: "read_word lx st = Some (w', st')"
  shows "advances st st' \<and> lx_pending st' = lx_pending st"
proof -
  obtain st1 w1 np1 where step: "read_word_step lx c st word_default True = Some (st1, w1, np1)"
    and rest: "read_word_loop lx st1 w1 np1 = Some (w', st')"
    using c res
    by (auto simp: read_word_def read_word_loop.simps [of lx st] split: option.splits)
  from read_word_step_advances [OF step] read_word_loop_keeps [OF rest] show ?thesis
    by (auto simp: keeps_def advances_def)
qed

subsection \<open>Redirects and heredocs\<close>

definition push_redirect :: "sublexer \<Rightarrow> redirect_kind \<Rightarrow> lexer \<Rightarrow> lexer option" where
  "push_redirect lx kind st =
     (let st = skip_inline_blank st in
      if (case peek st 0 of None \<Rightarrow> True | Some c \<Rightarrow> is_operator_start c \<or> c = NL) then
        Some (flag UnbalancedNesting st)
      else do {
        (target, st) \<leftarrow> read_word lx st;
        let kind =
          (if kind = DupOutput \<and>
              \<not> (w_text target = ''-'' \<or> list_all is_ascii_digit (w_text target))
           then Output else kind);
        let body = (if kind = HereString then Some (w_text target) else None);
        Some (add_redirect \<lparr>rd_kind = kind, rd_target = target, rd_body = body\<rparr> st) })"

definition heredoc :: "sublexer \<Rightarrow> lexer \<Rightarrow> lexer option" where
  "heredoc lx st =
     (let strip_tabs = (peek st 0 = Some CHR ''-'');
          st = (if strip_tabs then bump 1 st else st);
          st = skip_inline_blank st
      in do {
        (delimiter, st) \<leftarrow> read_word lx st;
        let st = add_redirect
              \<lparr>rd_kind = HeredocRedirect, rd_target = delimiter, rd_body = None\<rparr> (flag Heredoc st);
        Some (st\<lparr>lx_pending := lx_pending st @
          [\<lparr>hd_segment = length (lexed_segments (lx_out st)),
            hd_redirect = length (seg_redirects (lx_current st)) - 1,
            hd_delimiter = w_text delimiter, hd_strip_tabs = strip_tabs,
            hd_expands = \<not> w_quoted delimiter\<rparr>]\<rparr>) })"

text \<open>The kind of a redirect operator at the cursor, and the number of characters it spans.\<close>

definition redirect_operator :: "char option \<Rightarrow> char option \<Rightarrow> char option \<Rightarrow> redirect_kind \<times> nat" where
  "redirect_operator c d e =
     (if c = Some CHR ''>'' then
        if d = Some CHR ''>'' then (Append, 2)
        else if d = Some CHR ''|'' then (Output, 2)
        else if d = Some CHR ''&'' then (DupOutput, 2)
        else (Output, 1)
      else if c = Some CHR ''<'' \<and> d = Some CHR ''<'' then
        if e = Some CHR ''<'' then (HereString, 3) else (HeredocRedirect, 2)
      else if c = Some CHR ''<'' \<and> d = Some CHR ''>'' then (ReadWrite, 2)
      else if c = Some CHR ''<'' \<and> d = Some CHR ''&'' then (DupInput, 2)
      else (Input, 1))"

definition redirect_at :: "sublexer \<Rightarrow> lexer \<Rightarrow> lexer option" where
  "redirect_at lx st =
     (let (kind, n) = redirect_operator (peek st 0) (peek st 1) (peek st 2);
          st = bump n st
      in if kind = HeredocRedirect then heredoc lx st else push_redirect lx kind st)"

function heredoc_lines :: "str \<Rightarrow> str \<Rightarrow> bool \<Rightarrow> nat \<Rightarrow> str \<Rightarrow> str \<times> nat \<times> bool" where
  "heredoc_lines cs delimiter strip_tabs i body =
     (if i < length cs then
        let e = scan_while (\<lambda>c. c \<noteq> NL) cs i;
            line = slice i e cs;
            i' = (if peek_at cs e = Some NL then e + 1 else e);
            compared = (if strip_tabs then dropWhile (\<lambda>c. c = TAB) line else line)
        in if compared = delimiter then (body, i', True)
           else heredoc_lines cs delimiter strip_tabs i' (body @ line @ [NL])
      else (body, i, False))"
  by pat_completeness auto
termination
proof (relation "measure (\<lambda>(cs, d, b, i, body). length cs - i)", goal_cases)
  case (2 cs d b i body e line i' compared)
  then show ?case
    using scan_while_ge [of i "\<lambda>c. c \<noteq> NL" cs] scan_while_ge [of "Suc i" "\<lambda>c. c \<noteq> NL" cs]
    by (auto simp: peek_at_def scan_while.simps [of "\<lambda>c. c \<noteq> NL" cs i] split: if_splits)
qed simp

declare heredoc_lines.simps [simp del]

definition set_heredoc_body :: "nat \<Rightarrow> nat \<Rightarrow> str \<Rightarrow> lexer \<Rightarrow> lexer" where
  "set_heredoc_body s r body st =
     (let segs = lexed_segments (lx_out st) in
      if s < length segs \<and> r < length (seg_redirects (segs ! s)) then
        let seg = segs ! s;
            seg = seg\<lparr>seg_redirects :=
              (seg_redirects seg)[r := (seg_redirects seg ! r)\<lparr>rd_body := Some body\<rparr>]\<rparr>
        in st\<lparr>lx_out := (lx_out st)\<lparr>lexed_segments := segs[s := seg]\<rparr>\<rparr>
      else st)"

definition read_heredoc :: "sublexer \<Rightarrow> pending_heredoc \<Rightarrow> lexer \<Rightarrow> lexer option" where
  "read_heredoc lx p st =
     (let (body, i, terminated) =
            heredoc_lines (lx_chars st) (hd_delimiter p) (hd_strip_tabs p) (lx_index st) [];
          st = st\<lparr>lx_index := i\<rparr>;
          st = (if terminated then st else flag UnterminatedQuote st)
      in do {
        st \<leftarrow> (if hd_expands p then scan_expansions lx body st else Some st);
        Some (set_heredoc_body (hd_segment p) (hd_redirect p) body st) })"

fun read_heredocs :: "sublexer \<Rightarrow> pending_heredoc list \<Rightarrow> lexer \<Rightarrow> lexer option" where
  "read_heredocs lx [] st = Some st"
| "read_heredocs lx (p # ps) st = do { st \<leftarrow> read_heredoc lx p st; read_heredocs lx ps st }"

definition read_pending_heredocs :: "sublexer \<Rightarrow> lexer \<Rightarrow> lexer option" where
  "read_pending_heredocs lx st = read_heredocs lx (lx_pending st) (st\<lparr>lx_pending := []\<rparr>)"

subsection \<open>The main loop\<close>

definition read_plain_word :: "sublexer \<Rightarrow> lexer \<Rightarrow> lexer option" where
  "read_plain_word lx st = do { (w, st) \<leftarrow> read_word lx st; Some (push_word w st) }"

definition run_ampersand :: "sublexer \<Rightarrow> lexer \<Rightarrow> lexer option" where
  "run_ampersand lx st =
     (if peek st 1 = Some CHR ''&'' then Some (finish_segment And (bump 2 st))
      else if peek st 1 = Some CHR ''>'' then
        let st = bump 2 st in
        if peek st 0 = Some CHR ''>'' then push_redirect lx Append (bump 1 st)
        else push_redirect lx Output st
      else Some (finish_segment Background (bump 1 st)))"

definition run_bar :: "lexer \<Rightarrow> lexer" where
  "run_bar st =
     (if peek st 1 = Some CHR ''|'' then finish_segment Or (bump 2 st)
      else if peek st 1 = Some CHR ''&'' then finish_segment Pipe (bump 2 st)
      else finish_segment Pipe (bump 1 st))"

definition run_semicolon :: "lexer \<Rightarrow> lexer" where
  "run_semicolon st =
     finish_segment Sequence
       (if peek st 1 = Some CHR '';'' then bump 2 (flag ControlFlow st) else bump 1 st)"

definition blank_ahead :: "lexer \<Rightarrow> bool" where
  "blank_ahead st \<longleftrightarrow> (case peek st 1 of None \<Rightarrow> True | Some c \<Rightarrow> is_whitespace c)"

text \<open>One iteration of \<^verbatim>\<open>run\<close>: the arms of the \<^verbatim>\<open>match\<close>, in order, with their guards.\<close>

definition run_step :: "sublexer \<Rightarrow> char \<Rightarrow> lexer \<Rightarrow> lexer option" where
  "run_step lx c st =
     (if c = SPC \<or> c = TAB then Some (bump 1 st)
      else if c = CR then Some (bump 1 st)
      else if c = NL then read_pending_heredocs lx (finish_segment Sequence (bump 1 st))
      else if c = CHR ''#'' \<and> at_word_boundary st then Some (skip_comment st)
      else if c = BSL \<and> peek st 1 = Some NL then Some (bump 2 st)
      else if c = CHR '';'' then Some (run_semicolon st)
      else if c = CHR ''&'' then run_ampersand lx st
      else if c = CHR ''|'' then Some (run_bar st)
      else if (c = CHR ''<'' \<or> c = CHR ''>'') \<and> peek st 1 = Some CHR ''('' then
        Some (process_substitution st)
      else if c = CHR ''<'' \<or> c = CHR ''>'' then redirect_at lx st
      else if is_ascii_digit c \<and> fd_redirect_ahead st then
        redirect_at lx (skip_while is_ascii_digit st)
      else if c = CHR ''('' then Some (open_paren st)
      else if c = CHR '')'' then
        Some (finish_segment Sequence (bump 1 (flag UnbalancedNesting st)))
      else if c = CHR ''{'' \<and> blank_ahead st \<and> after_function_keyword st then
        Some (function_body st)
      else if c = CHR ''{'' \<and> at_command_start st \<and> blank_ahead st then
        Some (snd (read_balanced_into_nested CHR ''{'' CHR ''}'' (flag Group (bump 1 st))))
      else if c = CHR ''}'' \<and> at_command_start st then
        Some (bump 1 (flag UnbalancedNesting st))
      else read_plain_word lx st)"

definition run_end :: "lexer \<Rightarrow> lexer" where
  "run_end st =
     (let st = finish_segment Sequence st in
      if lx_pending st \<noteq> [] then (flag UnterminatedQuote st)\<lparr>lx_pending := []\<rparr> else st)"

fun run :: "nat \<Rightarrow> sublexer \<Rightarrow> lexer \<Rightarrow> lexer option" where
  "run fuel lx st =
     (case peek st 0 of
        None \<Rightarrow> Some (run_end st)
      | Some c \<Rightarrow>
        (case fuel of
           0 \<Rightarrow> None
         | Suc fuel \<Rightarrow> do { st \<leftarrow> run_step lx c st; run fuel lx st }))"

declare run.simps [simp del]

definition new_lexer :: "str \<Rightarrow> lexer" where
  "new_lexer source =
     \<lparr>lx_chars = source, lx_index = 0, lx_out = lexed_default,
      lx_current = empty_segment Start, lx_pending = []\<rparr>"

text \<open>
  \<open>lex_fuel d k\<close>: \<open>d\<close> bounds the depth of nested calls of \<^verbatim>\<open>lex\<close>, and each loop may run \<open>k\<close> turns
  more than its text has characters.
\<close>

primrec lex_fuel :: "nat \<Rightarrow> nat \<Rightarrow> sublexer" where
  "lex_fuel 0 = (\<lambda>k source. None)"
| "lex_fuel (Suc d) =
     (\<lambda>k source. map_option lx_out (run (length source + k) (lex_fuel d k) (new_lexer source)))"

text \<open>
  Every call of \<^verbatim>\<open>lex\<close> on a nested text loses a brace or a less-than sign, and every turn of the loop
  that does not stall consumes a character, so this fuel is enough whenever any is (theory
  \<open>ShellLexer_Termination\<close>).
\<close>

definition lex_weight :: "str \<Rightarrow> nat" where
  "lex_weight s = count_list s CHR ''{'' + count_list s CHR ''<''"

definition lex :: "str \<Rightarrow> lexed option" where
  "lex source = lex_fuel (Suc (lex_weight source)) 0 source"

end
