(* ===== verification/ShellPrograms.thy ===== *)
theory ShellPrograms
  imports ShellTypes
begin

section \<open>Program tables of the shell classifier\<close>

text \<open>
  The leaf functions of \<^verbatim>\<open>core/src/permissions/shell.rs\<close>: path and option tests, the risk of a \<^verbatim>\<open>rm\<close>
  invocation, the read-only allowlist and the Git tables.  None of them looks at the parse state.
\<close>

subsection \<open>Names and constants\<close>

definition MAX_DEPTH :: nat where "MAX_DEPTH = 4"

definition MAX_SOURCE_BYTES :: nat where "MAX_SOURCE_BYTES = 64 * 1024"

definition SHELLS :: "str list" where
  "SHELLS =
     [''sh'', ''bash'', ''zsh'', ''dash'', ''ksh'', ''mksh'', ''ash'', ''fish'', ''busybox'']"

definition FETCHERS :: "str list" where
  "FETCHERS = [''curl'', ''wget'', ''fetch'', ''aria2c'', ''http'', ''https'', ''xh'']"

definition SYSTEM_DIRS :: "str list" where
  "SYSTEM_DIRS =
     [''Applications'', ''Library'', ''System'', ''Users'', ''Volumes'', ''bin'', ''boot'',
      ''cores'', ''dev'', ''etc'', ''home'', ''lib'', ''lib32'', ''lib64'', ''opt'', ''private'',
      ''proc'', ''root'', ''run'', ''sbin'', ''srv'', ''sys'', ''usr'', ''var'']"

definition is_interpreter :: "str \<Rightarrow> bool" where
  "is_interpreter program \<longleftrightarrow>
     program \<in> set [''perl'', ''ruby'', ''node'', ''php'', ''lua'', ''deno'', ''Rscript'', ''tclsh'']
     \<or> starts_with ''python'' program"

definition basename :: "str \<Rightarrow> str" where
  "basename program = last (split_on CHR ''/'' program)"

definition short_flag :: "str \<Rightarrow> char \<Rightarrow> bool" where
  "short_flag t f \<longleftrightarrow> starts_with ''-'' t \<and> \<not> starts_with ''--'' t \<and> f \<in> set (tl t)"

text \<open>\<^verbatim>\<open>text.len() > 1 && text.starts_with('-')\<close>\<close>

definition is_option :: "str \<Rightarrow> bool" where
  "is_option t \<longleftrightarrow> utf8_len t > 1 \<and> starts_with ''-'' t"

subsection \<open>Broad and system targets\<close>

definition home_rest :: "str \<Rightarrow> str \<Rightarrow> str option" where
  "home_rest prefix t =
     (case strip_prefix prefix t of
        None \<Rightarrow> None
      | Some rest \<Rightarrow> if rest = [] \<or> starts_with ''/'' rest then Some rest else None)"

definition strip_home :: "str \<Rightarrow> str option" where
  "strip_home t =
     (case home_rest (DOLLAR # ''HOME'') t of
        Some rest \<Rightarrow> Some rest
      | None \<Rightarrow>
        (case home_rest (DOLLAR # ''{HOME}'') t of
           Some rest \<Rightarrow> Some rest
         | None \<Rightarrow> map_option (dropWhile (\<lambda>c. c \<noteq> CHR ''/'')) (strip_prefix ''~'' t)))"

text \<open>
  The component loop of \<^verbatim>\<open>is_root_target\<close>; \<open>None\<close> is its early \<^verbatim>\<open>return true\<close> (leaving the home
  directory upwards).  The stack is kept with its top first.
\<close>

fun root_components :: "bool \<Rightarrow> str list \<Rightarrow> str list \<Rightarrow> str list option" where
  "root_components home stack [] = Some stack"
| "root_components home stack (c # cs) =
     (if c \<in> set [[], ''.'', ''*''] then root_components home stack cs
      else if c = ''..'' then
        (if stack = [] \<and> home then None else root_components home (tl stack) cs)
      else root_components home (c # stack) cs)"

definition is_root_target :: "str \<Rightarrow> bool" where
  "is_root_target t =
     (let go = (\<lambda>home rest.
        case root_components home [] (split_on CHR ''/'' rest) of
          None \<Rightarrow> True
        | Some [] \<Rightarrow> True
        | Some [single] \<Rightarrow> \<not> home \<and> single \<in> set SYSTEM_DIRS
        | Some _ \<Rightarrow> False)
      in case strip_home t of
           Some rest \<Rightarrow> go True rest
         | None \<Rightarrow> if starts_with ''/'' t then go False t else False)"

definition is_harmless_device :: "str \<Rightarrow> bool" where
  "is_harmless_device path \<longleftrightarrow>
     path \<in> set [''/dev/null'', ''/dev/stdout'', ''/dev/stderr'', ''/dev/tty'', ''/dev/zero'',
             ''/dev/random'', ''/dev/urandom'']
     \<or> starts_with ''/dev/fd/'' path"

definition is_block_device :: "str \<Rightarrow> bool" where
  "is_block_device path =
     (case strip_prefix ''/dev/'' path of
        None \<Rightarrow> False
      | Some device \<Rightarrow>
          list_ex (\<lambda>p. starts_with p device)
            [''sd'', ''hd'', ''vd'', ''xvd'', ''nvme'', ''disk'', ''rdisk'', ''mmcblk'', ''md'',
             ''dm-'', ''mapper/'', ''loop''])"

subsection \<open>Destructive programs\<close>

record rm_scan =
  rm_recursive :: bool
  rm_force :: bool
  rm_targets :: "sh_word list"
  rm_options_done :: bool

definition rm_scan_word :: "sh_word \<Rightarrow> rm_scan \<Rightarrow> rm_scan" where
  "rm_scan_word word s =
     (let t = w_text word in
      if \<not> rm_options_done s \<and> t = ''--'' then s\<lparr>rm_options_done := True\<rparr>
      else if \<not> rm_options_done s \<and> starts_with ''--'' t then
        s\<lparr>rm_recursive := rm_recursive s \<or> t = ''--recursive'',
          rm_force := rm_force s \<or> t = ''--force''\<rparr>
      else if \<not> rm_options_done s \<and> is_option t \<and> \<not> w_quoted word then
        s\<lparr>rm_recursive := rm_recursive s \<or> short_flag t CHR ''r'' \<or> short_flag t CHR ''R'',
          rm_force := rm_force s \<or> short_flag t CHR ''f''\<rparr>
      else s\<lparr>rm_targets := rm_targets s @ [word]\<rparr>)"

definition rm_scan_all :: "sh_word list \<Rightarrow> rm_scan" where
  "rm_scan_all args =
     fold rm_scan_word args
       \<lparr>rm_recursive = False, rm_force = False, rm_targets = [], rm_options_done = False\<rparr>"

definition rm_broad :: "sh_word \<Rightarrow> bool" where
  "rm_broad word \<longleftrightarrow>
     w_dynamic word \<or> starts_with ''/'' (w_text word) \<or> starts_with ''~'' (w_text word)
     \<or> starts_with ''*'' (w_text word) \<or> w_text word \<in> set [''.'', ''..'', ''./'', ''../'']"

definition rm_risk :: "sh_word list \<Rightarrow> bool \<Rightarrow> shell_risk" where
  "rm_risk args from_xargs =
     (let s = rm_scan_all args in
      if rm_recursive s \<and> list_ex (\<lambda>w. is_root_target (w_text w)) (rm_targets s)
      then Catastrophic
      else if rm_recursive s \<and> rm_force s \<and> (list_ex rm_broad (rm_targets s) \<or> from_xargs)
      then Destructive
      else Mutating)"

definition kills_every_process :: "str list \<Rightarrow> bool" where
  "kills_every_process args =
     (let index =
        (case args of
           [] \<Rightarrow> 0
         | first # _ \<Rightarrow>
             if first \<in> set [''-s'', ''-n''] then 2
             else if starts_with ''-'' first \<and> length args > 1 \<and> first \<noteq> ''--'' then 1
             else 0);
          index = (if get_at args index = Some ''--'' then index + 1 else index)
      in ''-1'' \<in> set (drop index args))"

definition dd_risk :: "str list \<Rightarrow> shell_risk" where
  "dd_risk texts =
     max_or Mutating
       (map (\<lambda>target.
           if is_block_device target then Catastrophic
           else if starts_with ''/dev/'' target then Destructive
           else Mutating)
         (List.map_filter (strip_prefix ''of='') texts))"

definition diskutil_erases :: "str \<Rightarrow> bool" where
  "diskutil_erases t \<longleftrightarrow>
     (let lower = to_ascii_lowercase t in
      starts_with ''erase'' lower
      \<or> lower \<in> set [''zerodisk'', ''randomdisk'', ''secureerase'', ''partitiondisk'', ''reformat''])"

subsection \<open>File-mutating programs\<close>

function git_subcommand_from :: "str list \<Rightarrow> nat \<Rightarrow> str option" where
  "git_subcommand_from args index =
     (if index < length args then
        let arg = args ! index in
        if arg \<in> set [''-c'', ''-C'', ''--git-dir'', ''--work-tree'', ''--namespace'', ''--exec-path'']
        then git_subcommand_from args (index + 2)
        else if starts_with ''-'' arg then git_subcommand_from args (index + 1)
        else Some arg
      else None)"
  by pat_completeness auto
termination
  by (relation "measure (\<lambda>(args, i). length args - i)") auto

declare git_subcommand_from.simps [simp del]

definition git_subcommand :: "str list \<Rightarrow> str option" where
  "git_subcommand args = git_subcommand_from args 0"

definition program_mutates_files :: "str list \<Rightarrow> bool" where
  "program_mutates_files argv =
     (case argv of
        [] \<Rightarrow> False
      | program # args \<Rightarrow>
        if program \<in> set [''rm'', ''rmdir'', ''unlink'', ''mv'', ''cp'', ''tee'', ''dd'', ''truncate'',
             ''shred'', ''ln'', ''install'', ''chmod'', ''chown'', ''chgrp'', ''touch'', ''mkdir'',
             ''rsync'', ''patch''] then True
        else if program \<in> set [''sed'', ''perl''] then
          list_ex (\<lambda>arg. starts_with ''-i'' arg \<or> starts_with ''--in-place'' arg) args
        else if program = ''git'' then
          (case git_subcommand args of
             None \<Rightarrow> False
           | Some sub \<Rightarrow>
               sub \<in> set [''add'', ''am'', ''apply'', ''checkout'', ''cherry-pick'', ''clean'',
                 ''commit'', ''merge'', ''mv'', ''pull'', ''push'', ''rebase'', ''reset'',
                 ''restore'', ''revert'', ''rm'', ''stash'', ''switch'', ''tag''])
        else False)"

subsection \<open>Read-only allowlist\<close>

definition short_option_contains :: "str \<Rightarrow> char \<Rightarrow> bool" where
  "short_option_contains v f \<longleftrightarrow> starts_with ''-'' v \<and> \<not> starts_with ''--'' v \<and> f \<in> set (tl v)"

definition option_executes_or_writes :: "str \<Rightarrow> bool" where
  "option_executes_or_writes v \<longleftrightarrow>
     v \<in> set [''--output'', ''--exec'', ''--command'', ''--config'', ''--files-from'']
     \<or> list_ex (\<lambda>p. starts_with p v)
         [''--output='', ''--exec='', ''--command='', ''--config='', ''--files-from='']"

function git_global_options :: "str list \<Rightarrow> nat \<Rightarrow> nat option" where
  "git_global_options args index =
     (if index < length args then
        let v = args ! index in
        if v \<in> set [''--no-pager'', ''-P'', ''--no-optional-locks'']
        then git_global_options args (index + 1)
        else if starts_with ''-'' v then None
        else Some index
      else Some index)"
  by pat_completeness auto
termination
  by (relation "measure (\<lambda>(args, i). length args - i)") auto

declare git_global_options.simps [simp del]

definition read_only_git :: "str list \<Rightarrow> bool" where
  "read_only_git args =
     (case git_global_options args 0 of
        None \<Rightarrow> False
      | Some index \<Rightarrow>
        (case get_at args index of
           None \<Rightarrow> False
         | Some subcommand \<Rightarrow>
           let rest = drop (index + 1) args in
           if list_ex (\<lambda>v. v \<in> set [''--ext-diff'', ''--textconv'', ''--exec-path'', ''--config-env'']
                \<or> starts_with ''--exec-path='' v \<or> starts_with ''--config-env='' v) rest
           then False
           else if subcommand \<in> set [''status'', ''diff'', ''log'', ''show'', ''blame'', ''grep'',
                     ''ls-files'', ''rev-parse''] then
             \<not> list_ex (\<lambda>v. option_executes_or_writes v
                  \<or> v \<in> set [''--paginate'', ''-p'', ''--ext-diff'', ''--textconv'']
                  \<or> starts_with ''--format='' v \<and> contains_str ''%(rest)'' v) rest
           else if subcommand = ''remote'' then
             (case rest of [] \<Rightarrow> True | v # _ \<Rightarrow> v \<in> set [''-v'', ''show''])
           else if subcommand = ''branch'' then
             list_all (\<lambda>v. v \<in> set [''--all'', ''-a'', ''--list'', ''--show-current'', ''--verbose'',
                                ''-v'', ''-vv'']) rest
           else False))"

definition read_only_program :: "str \<Rightarrow> str list \<Rightarrow> bool" where
  "read_only_program program args =
     (if program \<in> set [''pwd'', ''cat'', ''head'', ''tail'', ''wc'', ''stat'', ''file'', ''cut'',
           ''tr'', ''whoami'', ''df'', ''uname''] then
        list_all (\<lambda>v. \<not> option_executes_or_writes v) args
      else if program = ''ls'' then
        list_all (\<lambda>v. \<not> option_executes_or_writes v
            \<and> \<not> short_option_contains v CHR ''L'' \<and> \<not> short_option_contains v CHR ''R''
            \<and> v \<notin> set [''--dereference'', ''--recursive'']) args
      else if program = ''rg'' then
        list_all (\<lambda>v. \<not> option_executes_or_writes v
            \<and> v \<notin> set [''--pre'', ''--hostname-bin'', ''-L'', ''--follow'']
            \<and> \<not> starts_with ''--pre='' v \<and> \<not> starts_with ''--hostname-bin='' v) args
      else if program = ''grep'' then
        list_all (\<lambda>v. \<not> option_executes_or_writes v \<and> \<not> short_option_contains v CHR ''f''
            \<and> v \<notin> set [''-R'', ''-r'', ''--recursive'', ''--dereference-recursive'', ''--include'',
                   ''--exclude-from'', ''--file'']
            \<and> \<not> starts_with ''--exclude-from='' v \<and> \<not> starts_with ''--file='' v) args
      else if program = ''du'' then
        list_all (\<lambda>v. \<not> short_option_contains v CHR ''L'' \<and> v \<noteq> ''--dereference''
            \<and> \<not> option_executes_or_writes v) args
      else if program = ''date'' then
        list_all (\<lambda>v. v \<notin> set [''-s'', ''--set''] \<and> \<not> short_option_contains v CHR ''s''
            \<and> \<not> starts_with ''--set='' v \<and> \<not> option_executes_or_writes v) args
      else if program = ''sort'' then
        list_all (\<lambda>v. v \<notin> set [''-o'', ''-T'', ''--output'', ''--temporary-directory'',
                          ''--compress-program'']
            \<and> \<not> short_option_contains v CHR ''o'' \<and> \<not> short_option_contains v CHR ''T''
            \<and> \<not> starts_with ''--output='' v \<and> \<not> starts_with ''--temporary-directory='' v
            \<and> \<not> starts_with ''--compress-program='' v \<and> \<not> option_executes_or_writes v) args
      else if program = ''uniq'' then
        length (filter (\<lambda>v. \<not> starts_with ''-'' v) args) \<le> 1
      else if program \<in> set [''printf'', ''echo''] then
        list_all (\<lambda>v. \<not> starts_with ''-'' v) args
      else if program = ''find'' then
        \<not> list_ex (\<lambda>v. v \<in> set [''-L'', ''-H'', ''-delete'', ''-exec'', ''-execdir'', ''-ok'',
                           ''-okdir'', ''-fprint'', ''-fprint0'', ''-fprintf'', ''-fls'',
                           ''-follow'', ''-lname'']) args
      else if program = ''sed'' then False
      else if program = ''git'' then read_only_git args
      else False)"

subsection \<open>Laws of the tables\<close>

text \<open>The components of a path, as \<open>is_root_target\<close> sees an absolute one.\<close>

definition plain_component :: "str \<Rightarrow> bool" where
  "plain_component c \<longleftrightarrow> CHR ''/'' \<notin> set c \<and> c \<notin> set [[], ''.'', ''*'', ''..'']"

lemma is_root_target_absolute:
  assumes "list_all (\<lambda>c. CHR ''/'' \<notin> set c) cs"
  shows "is_root_target (CHR ''/'' # join ''/'' cs) \<longleftrightarrow>
    (case root_components False [] cs of
       None \<Rightarrow> True | Some [] \<Rightarrow> True | Some [single] \<Rightarrow> single \<in> set SYSTEM_DIRS | Some _ \<Rightarrow> False)"
proof -
  have "split_on CHR ''/'' (CHR ''/'' # join ''/'' cs) = [] # (if cs = [] then [[]] else cs)"
    using assms by (simp add: split_on_join)
  moreover have "strip_home (CHR ''/'' # t) = None" for t
    by (simp add: strip_home_def home_rest_def)
  ultimately show ?thesis
    by (auto simp: is_root_target_def Let_def split: option.splits list.splits)
qed

lemma root_components_append:
  "root_components h st (as @ bs) = Option.bind (root_components h st as) (\<lambda>st. root_components h st bs)"
  by (induction h st as rule: root_components.induct) auto

lemma root_components_detour:
  "plain_component x \<Longrightarrow> root_components h st (as @ x # ''..'' # bs) = root_components h st (as @ bs)"
  by (auto simp: root_components_append plain_component_def)

lemma root_components_plain:
  "''..'' \<notin> set cs \<Longrightarrow>
     root_components h st cs = Some (rev (filter (\<lambda>c. c \<notin> set [[], ''.'', ''*'']) cs) @ st)"
  by (induction h st cs rule: root_components.induct) auto

text \<open>A recursive \<^verbatim>\<open>rm\<close> without an end-of-options marker sees every operand and every option.\<close>

lemma rm_scan_fold:
  "\<not> rm_options_done s \<Longrightarrow> list_all (\<lambda>v. w_text v \<noteq> ''--'') args \<Longrightarrow>
     (rm_recursive (fold rm_scan_word args s) \<longleftrightarrow> rm_recursive s \<or>
      list_ex (\<lambda>v. w_text v = ''--recursive'' \<or> \<not> w_quoted v \<and> is_option (w_text v) \<and>
        (short_flag (w_text v) CHR ''r'' \<or> short_flag (w_text v) CHR ''R'')) args) \<and>
     set (rm_targets s) \<union> {v \<in> set args. \<not> starts_with ''-'' (w_text v)}
      \<subseteq> set (rm_targets (fold rm_scan_word args s))"
proof (induction args arbitrary: s)
  case (Cons v args)
  have nd: "\<not> rm_options_done (rm_scan_word v s)" "list_all (\<lambda>v. w_text v \<noteq> ''--'') args"
    using Cons.prems by (auto simp: rm_scan_word_def Let_def)
  have long: "\<not> short_flag t f" if "starts_with ''--'' t" for t f
    using that by (simp add: short_flag_def)
  have "rm_recursive (rm_scan_word v s) \<longleftrightarrow> rm_recursive s \<or> w_text v = ''--recursive'' \<or>
      \<not> w_quoted v \<and> is_option (w_text v) \<and>
        (short_flag (w_text v) CHR ''r'' \<or> short_flag (w_text v) CHR ''R'')"
    using Cons.prems long by (auto simp: rm_scan_word_def Let_def)
  moreover have "set (rm_targets s) \<union> (if starts_with ''-'' (w_text v) then {} else {v})
      \<subseteq> set (rm_targets (rm_scan_word v s))"
    using Cons.prems by (auto simp: rm_scan_word_def Let_def is_option_def starts_with_iff)
  ultimately show ?case
    using Cons.IH [OF nd] by auto
qed simp

end
