(* ===== verification/ShellClassifier.thy ===== *)
theory ShellClassifier
  imports ShellLexer ShellPrograms
begin

section \<open>The shell-command classifier\<close>

text \<open>
  \<^verbatim>\<open>core/src/permissions/shell.rs\<close>: from the tokens of a command line to a list of simple commands, a
  set of opaque constructs and one risk.  The functions of the source are mutually recursive through
  \<^verbatim>\<open>analyze_into\<close>, one level deeper at every nested script.  Each function below takes that nested call
  as its first argument \<open>an\<close>, and \<open>analyze_into\<close> ties the knot; it stops because the depth grows
  to \<open>MAX_DEPTH\<close>.  \<open>None\<close> is the lexer not returning.
\<close>

record shell_command =
  cmd_depth :: nat
  cmd_literal :: "str list"
  cmd_effective :: "str list"
  cmd_plain_words :: bool
  cmd_wrapped :: bool
  cmd_has_assignments :: bool
  cmd_redirects :: bool
  cmd_writes_file :: bool
  cmd_piped_input :: bool
  cmd_risk :: shell_risk

definition literal_text :: "shell_command \<Rightarrow> str" where
  "literal_text c = join '' '' (cmd_literal c)"

definition effective_text :: "shell_command \<Rightarrow> str" where
  "effective_text c = join '' '' (cmd_effective c)"

definition program :: "shell_command \<Rightarrow> str option" where
  "program c = (case cmd_effective c of [] \<Rightarrow> None | p # _ \<Rightarrow> Some p)"

record accumulator =
  acc_commands :: "shell_command list"
  acc_opaque :: "opaque_construct set"
  acc_only_pipes :: bool

definition accumulator_default :: accumulator where
  "accumulator_default = \<lparr>acc_commands = [], acc_opaque = {}, acc_only_pipes = False\<rparr>"

definition note_opaque :: "opaque_construct \<Rightarrow> accumulator \<Rightarrow> accumulator" where
  "note_opaque c acc = acc\<lparr>acc_opaque := insert c (acc_opaque acc)\<rparr>"

record flow =
  fl_fetches :: bool
  fl_executes_stdin :: bool

definition flow_default :: flow where
  "flow_default = \<lparr>fl_fetches = False, fl_executes_stdin = False\<rparr>"

record classified =
  cl_risk :: shell_risk
  cl_escalated :: bool
  cl_wrapped :: bool
  cl_from_xargs :: bool
  cl_lookup :: bool
  cl_writes_file :: bool

definition classified_default :: classified where
  "classified_default =
     \<lparr>cl_risk = Mutating, cl_escalated = False, cl_wrapped = False, cl_from_xargs = False,
      cl_lookup = False, cl_writes_file = False\<rparr>"

type_synonym nested_analyzer = "str \<Rightarrow> accumulator \<Rightarrow> accumulator option"

definition analyze_nested_text ::
    "nested_analyzer \<Rightarrow> str \<Rightarrow> bool \<Rightarrow> accumulator \<Rightarrow> accumulator option" where
  "analyze_nested_text an t dynamic acc = an t (if dynamic then note_opaque DynamicProgram acc else acc)"

subsection \<open>Wrappers\<close>

function skip_options :: "sh_word list \<Rightarrow> nat \<Rightarrow> str list \<Rightarrow> nat" where
  "skip_options words index takes_value =
     (if index < length words then
        let t = w_text (words ! index) in
        if t = ''--'' then index + 1
        else if is_option t then
          skip_options words (index + (if t \<in> set takes_value then 2 else 1)) takes_value
        else index
      else index)"
  by pat_completeness auto
termination
  by (relation "measure (\<lambda>(ws, i, tv). length ws - i)") auto

declare skip_options.simps [simp del]

function skip_env ::
    "nested_analyzer \<Rightarrow> sh_word list \<Rightarrow> nat \<Rightarrow> accumulator \<Rightarrow> (nat \<times> accumulator) option" where
  "skip_env an words index acc =
     (if index < length words then
        let word = words ! index; t = w_text word in
        if t = ''--'' then Some (index + 1, acc)
        else
          let splits = (t \<in> set [''-S'', ''--split-string'']);
              index' = (if splits then index + 1 else index)
          in
          if \<not> splits \<and> starts_with ''--split-string='' t then do {
            acc \<leftarrow> analyze_nested_text an (drop (length ''--split-string='') t) (w_dynamic word) acc;
            Some (length words, acc) }
          else if splits \<and> index' < length words then do {
            acc \<leftarrow> analyze_nested_text an (w_text (words ! index')) (w_dynamic (words ! index')) acc;
            Some (length words, acc) }
          else if t \<in> set [''-u'', ''--unset'', ''-C'', ''--chdir'', ''-P''] then
            skip_env an words (index' + 2) acc
          else if is_option t \<or> w_assignment word then skip_env an words (index' + 1) acc
          else Some (index', acc)
      else Some (index, acc))"
  by pat_completeness auto
termination
  by (relation "measure (\<lambda>(an, ws, i, acc). length ws - i)") auto

declare skip_env.simps [simp del]

text \<open>
  One turn of the loop of \<^verbatim>\<open>unwrap_wrappers\<close>: \<open>Stop\<close> is a \<^verbatim>\<open>return\<close>, \<open>Unwrapped\<close> goes on behind the
  wrapper.
\<close>

datatype wrapper_turn = Stop nat classified accumulator | Unwrapped nat classified accumulator

definition XARGS_VALUE_OPTIONS :: "str list" where
  "XARGS_VALUE_OPTIONS =
     [''-a'', ''-d'', ''-E'', ''-e'', ''-I'', ''-i'', ''-L'', ''-l'', ''-n'', ''-P'', ''-s'',
      ''--arg-file'', ''--delimiter'', ''--max-args'', ''--max-procs'', ''--max-lines'',
      ''--replace'']"

definition time_writes_output :: "sh_word list \<Rightarrow> bool" where
  "time_writes_output ws \<longleftrightarrow>
     list_ex (\<lambda>w. w_text w \<in> set [''-o'', ''--output''] \<or> starts_with ''--output='' (w_text w))
       (takeWhile (\<lambda>w. starts_with ''-'' (w_text w)) ws)"

definition ESCALATORS :: "str list" where
  "ESCALATORS = [''sudo'', ''doas'', ''pkexec'', ''run0'']"

definition mark_wrapped :: "str \<Rightarrow> classified \<Rightarrow> classified" where
  "mark_wrapped name cmd =
     (if name \<in> set ESCALATORS then cmd\<lparr>cl_escalated := True\<rparr> else cmd)\<lparr>cl_wrapped := True\<rparr>"

definition unwrap_turn ::
    "nested_analyzer \<Rightarrow> sh_word list \<Rightarrow> nat \<Rightarrow> classified \<Rightarrow> accumulator \<Rightarrow> wrapper_turn option" where
  "unwrap_turn an words index cmd acc =
     (if \<not> index < length words then Some (Stop index cmd acc)
      else if w_dynamic (words ! index) then Some (Stop index cmd acc)
      else
        let name = basename (w_text (words ! index));
            nxt = index + 1;
            go = (\<lambda>i cmd. Some (Unwrapped i (mark_wrapped name cmd) acc))
        in
        if name = ''sudo'' then
          go (skip_options words nxt
            [''-u'', ''-g'', ''-h'', ''-p'', ''-C'', ''-U'', ''-r'', ''-t'', ''-T'', ''-D'']) cmd
        else if name = ''doas'' then go (skip_options words nxt [''-u'', ''-C'']) cmd
        else if name = ''pkexec'' then go (skip_options words nxt [''--user'']) cmd
        else if name = ''run0'' then
          go (skip_options words nxt [''-u'', ''--user'', ''-D'', ''--chdir'']) cmd
        else if name = ''env'' then do {
          (i, acc) \<leftarrow> skip_env an words nxt acc;
          Some (Unwrapped i (mark_wrapped name cmd) acc) }
        else if name \<in> set [''nohup'', ''builtin'', ''unbuffer'', ''chronic''] then go nxt cmd
        else if name = ''exec'' then go (skip_options words nxt [''-a'']) cmd
        else if name = ''command'' then
          (if nxt < length words \<and> w_text (words ! nxt) \<in> set [''-v'', ''-V'']
           then Some (Stop (length words) (cmd\<lparr>cl_lookup := True\<rparr>) acc)
           else go (skip_options words nxt []) cmd)
        else if name = ''nice'' then go (skip_options words nxt [''-n'', ''--adjustment'']) cmd
        else if name = ''ionice'' then
          go (skip_options words nxt [''-c'', ''-n'', ''-p'', ''-t'', ''-P'', ''-u'']) cmd
        else if name = ''time'' then
          go (skip_options words nxt [''-f'', ''-o'', ''--format'', ''--output''])
            (if time_writes_output (drop nxt words) then cmd\<lparr>cl_writes_file := True\<rparr> else cmd)
        else if name = ''timeout'' then
          go (skip_options words nxt [''-s'', ''-k'', ''--signal'', ''--kill-after''] + 1) cmd
        else if name = ''stdbuf'' then go (skip_options words nxt [''-i'', ''-o'', ''-e'']) cmd
        else if name = ''caffeinate'' then go (skip_options words nxt [''-w'', ''-t'']) cmd
        else if name = ''watch'' then
          go (skip_options words nxt
            [''-n'', ''--interval'', ''-q'', ''--equexit'', ''--differences'']) cmd
        else if name = ''xargs'' then
          go (skip_options words nxt XARGS_VALUE_OPTIONS) (cmd\<lparr>cl_from_xargs := True\<rparr>)
        else Some (Stop index cmd acc))"

primrec unwrap_loop ::
    "nat \<Rightarrow> nested_analyzer \<Rightarrow> sh_word list \<Rightarrow> nat \<Rightarrow> classified \<Rightarrow> accumulator
      \<Rightarrow> (nat \<times> classified \<times> accumulator) option" where
  "unwrap_loop 0 an words index cmd acc =
     Some (length words, cmd, note_opaque NestingTooDeep acc)"
| "unwrap_loop (Suc n) an words index cmd acc =
     (case unwrap_turn an words index cmd acc of
        None \<Rightarrow> None
      | Some (Stop i cmd acc) \<Rightarrow> Some (i, cmd, acc)
      | Some (Unwrapped i cmd acc) \<Rightarrow> unwrap_loop n an words i cmd acc)"

definition unwrap_wrappers ::
    "nested_analyzer \<Rightarrow> sh_word list \<Rightarrow> nat \<Rightarrow> classified \<Rightarrow> accumulator
      \<Rightarrow> (nat \<times> classified \<times> accumulator) option" where
  "unwrap_wrappers an words index cmd acc = unwrap_loop 8 an words index cmd acc"

subsection \<open>Programs\<close>

function shell_options :: "sh_word list \<Rightarrow> nat \<Rightarrow> bool \<Rightarrow> bool \<Rightarrow> nat \<times> bool \<times> bool" where
  "shell_options args index inline reads_stdin =
     (if index < length args then
        let t = w_text (args ! index) in
        if t = ''--'' \<or> t = ''-'' then (index + 1, inline, reads_stdin)
        else if t \<in> set [''-o'', ''+o'', ''--rcfile'', ''--init-file''] then
          shell_options args (index + 2) inline reads_stdin
        else if utf8_len t > 1 \<and> (starts_with ''-'' t \<or> starts_with ''+'' t) then
          (if \<not> starts_with ''--'' t then
             shell_options args (index + 1) (inline \<or> CHR ''c'' \<in> set t)
               (reads_stdin \<or> CHR ''s'' \<in> set t)
           else shell_options args (index + 1) (inline \<or> t = ''--command'') reads_stdin)
        else (index, inline, reads_stdin)
      else (index, inline, reads_stdin))"
  by pat_completeness auto
termination
  by (relation "measure (\<lambda>(ws, i, a, b). length ws - i)") auto

declare shell_options.simps [simp del]

definition classify_shell_invocation ::
    "nested_analyzer \<Rightarrow> sh_word list \<Rightarrow> flow \<Rightarrow> accumulator \<Rightarrow> (flow \<times> accumulator) option" where
  "classify_shell_invocation an args fl acc =
     (let (index, inline, reads_stdin) = shell_options args 0 False False in
      case get_at args index of
        Some script \<Rightarrow>
          if inline then do {
            acc \<leftarrow> analyze_nested_text an (w_text script) (w_dynamic script) acc;
            Some (fl, acc) }
          else if \<not> reads_stdin then Some (fl, acc)
          else Some (fl\<lparr>fl_executes_stdin := True\<rparr>, acc)
      | None \<Rightarrow>
          if inline then Some (fl, note_opaque UnbalancedNesting acc)
          else Some (fl\<lparr>fl_executes_stdin := True\<rparr>, acc))"

definition position :: "('a \<Rightarrow> bool) \<Rightarrow> 'a list \<Rightarrow> nat option" where
  "position P xs =
     (let n = length (takeWhile (\<lambda>x. \<not> P x) xs) in if n < length xs then Some n else None)"

definition classify_program ::
    "nested_analyzer \<Rightarrow> str \<Rightarrow> sh_word \<Rightarrow> sh_word list \<Rightarrow> classified \<Rightarrow> flow \<Rightarrow> accumulator
      \<Rightarrow> (classified \<times> flow \<times> accumulator) option" where
  "classify_program an prog program_word args cmd fl acc =
     (let texts = map w_text args;
          done = (\<lambda>r. Some (cmd\<lparr>cl_risk := r\<rparr>, fl, acc))
      in
      if prog \<in> set SHELLS then
        (if prog = ''busybox'' then
           (case args of
              applet # rest \<Rightarrow>
                if w_text applet \<in> set SHELLS then do {
                  (fl, acc) \<leftarrow> classify_shell_invocation an rest fl acc;
                  Some (cmd\<lparr>cl_risk := Mutating\<rparr>, fl, acc) }
                else Some (cmd, fl, acc)
            | [] \<Rightarrow> Some (cmd, fl, acc))
         else do {
           (fl, acc) \<leftarrow> classify_shell_invocation an args fl acc;
           Some (cmd\<lparr>cl_risk := Mutating\<rparr>, fl, acc) })
      else if is_interpreter prog then
        let inline = list_ex (\<lambda>t. t \<in> set [''-c'', ''-e'', ''-E'', ''-r'', ''--eval'']) texts;
            positional = list_ex (\<lambda>t. \<not> starts_with ''-'' t) texts
        in Some (cmd\<lparr>cl_risk := Mutating\<rparr>,
             fl\<lparr>fl_executes_stdin := \<not> inline \<and> (\<not> positional \<or> ''-'' \<in> set texts)\<rparr>, acc)
      else if prog = ''eval'' then do {
        acc \<leftarrow> analyze_nested_text an (join '' '' texts) (list_ex w_dynamic args)
          (note_opaque Eval acc);
        Some (cmd\<lparr>cl_risk := Mutating\<rparr>, fl, acc) }
      else if prog = ''su'' then
        let cmd = cmd\<lparr>cl_escalated := True, cl_risk := Escalating\<rparr> in
        (case position (\<lambda>t. t \<in> set [''-c'', ''--command'']) texts of
           None \<Rightarrow> Some (cmd, fl, acc)
         | Some p \<Rightarrow>
           (case get_at args (p + 1) of
              None \<Rightarrow> Some (cmd, fl, acc)
            | Some script \<Rightarrow> do {
                acc \<leftarrow> analyze_nested_text an (w_text script) (w_dynamic script) acc;
                Some (cmd, fl, acc) }))
      else if prog \<in> set FETCHERS then
        Some (cmd\<lparr>cl_risk := Mutating\<rparr>, fl\<lparr>fl_fetches := True\<rparr>, acc)
      else if prog = ''rm'' then done (rm_risk args (cl_from_xargs cmd))
      else if prog \<in> set [''chmod'', ''chown'', ''chgrp''] then
        done (if list_ex (\<lambda>t. t = ''--recursive'' \<or> short_flag t CHR ''R'') texts
                \<and> list_ex (\<lambda>w. \<not> starts_with ''-'' (w_text w) \<and> is_root_target (w_text w)) args
              then Catastrophic else Mutating)
      else if prog = ''mkfs'' \<or> starts_with ''mkfs.'' prog \<or> starts_with ''newfs'' prog
              \<or> prog \<in> set [''mke2fs'', ''wipefs''] then done Catastrophic
      else if prog = ''dd'' then done (dd_risk texts)
      else if prog = ''diskutil'' then
        done (if list_ex diskutil_erases texts then Catastrophic else Mutating)
      else if prog = ''kill'' \<and> kills_every_process texts then done Catastrophic
      else if prog \<in> set [''shutdown'', ''reboot'', ''halt'', ''poweroff''] then done Catastrophic
      else if prog \<in> set [''init'', ''telinit''] \<and> list_ex (\<lambda>t. t \<in> set [''0'', ''6'']) texts then
        done Catastrophic
      else if prog = ''systemctl'' \<and>
              list_ex (\<lambda>t. t \<in> set [''poweroff'', ''reboot'', ''halt'', ''kexec'']) texts then
        done Catastrophic
      else if \<not> cl_wrapped cmd \<and> prog = w_text program_word \<and> read_only_program prog texts then
        done ReadOnly
      else done Mutating)"

subsection \<open>One simple command\<close>

text \<open>Reserved words before the command, and the constructs they stand for.\<close>

fun skip_reserved :: "sh_word list \<Rightarrow> nat \<Rightarrow> accumulator \<Rightarrow> nat \<times> accumulator" where
  "skip_reserved [] index acc = (index, acc)"
| "skip_reserved (w # ws) index acc =
     (if \<not> w_quoted w \<and> is_reserved_prefix (w_text w) then
        skip_reserved ws (index + 1)
          (if w_text w \<in> set [''!'', ''time''] then acc else note_opaque ControlFlow acc)
      else (index, acc))"

definition skip_keyword :: "sh_word list \<Rightarrow> nat \<Rightarrow> accumulator \<Rightarrow> nat \<times> accumulator" where
  "skip_keyword words index acc =
     (if index < length words \<and> \<not> w_quoted (words ! index) then
        let t = w_text (words ! index) in
        if t \<in> set [''for'', ''case'', ''select'', ''[['', ''coproc''] then
          (length words, note_opaque ControlFlow acc)
        else if t = ''function'' then (length words, note_opaque FunctionDefinition acc)
        else if t \<in> set [''fi'', ''done'', ''esac'', ''}'', '']]'', ''in''] then (length words, acc)
        else (index, acc)
      else (index, acc))"

definition skip_assignments :: "sh_word list \<Rightarrow> nat \<Rightarrow> nat" where
  "skip_assignments words index = index + length (takeWhile w_assignment (drop index words))"

text \<open>The redirect loop: the risk so far, whether a file is written, the accumulator.\<close>

fun classify_redirects ::
    "nested_analyzer \<Rightarrow> flow \<Rightarrow> redirect list \<Rightarrow> shell_risk \<Rightarrow> bool \<Rightarrow> accumulator
      \<Rightarrow> (shell_risk \<times> bool \<times> accumulator) option" where
  "classify_redirects an fl [] risk writes acc = Some (risk, writes, acc)"
| "classify_redirects an fl (r # rs) risk writes acc =
     (if rd_kind r \<in> set [Output, Append, ReadWrite] then
        let target = w_text (rd_target r) in
        classify_redirects an fl rs
          (if is_block_device target then Catastrophic
           else if starts_with ''/dev/'' target \<and> \<not> is_harmless_device target
           then max risk Destructive else risk)
          (writes \<or> w_dynamic (rd_target r) \<or> \<not> is_harmless_device target) acc
      else if rd_kind r \<in> set [HeredocRedirect, HereString] \<and> fl_executes_stdin fl then
        (case rd_body r of
           None \<Rightarrow> classify_redirects an fl rs risk writes acc
         | Some body \<Rightarrow> do { acc \<leftarrow> an body acc; classify_redirects an fl rs risk writes acc })
      else classify_redirects an fl rs risk writes acc)"

definition classify_effective ::
    "nested_analyzer \<Rightarrow> sh_word list \<Rightarrow> classified \<Rightarrow> accumulator
      \<Rightarrow> (classified \<times> flow \<times> accumulator) option" where
  "classify_effective an effective cmd acc =
     (case effective of
        program_word # args \<Rightarrow>
          if w_dynamic program_word then
            Some (cmd\<lparr>cl_risk := Opaque\<rparr>, flow_default, note_opaque DynamicProgram acc)
          else
            classify_program an (basename (w_text program_word)) program_word args cmd
              flow_default acc
      | [] \<Rightarrow>
          Some (if cl_escalated cmd then cmd\<lparr>cl_risk := Escalating\<rparr>
                else if cl_lookup cmd then cmd\<lparr>cl_risk := ReadOnly\<rparr>
                else cmd, flow_default, acc))"

definition basename_first :: "str list \<Rightarrow> str list" where
  "basename_first ts = (case ts of [] \<Rightarrow> [] | p # rest \<Rightarrow> basename p # rest)"

definition classify_segment ::
    "nested_analyzer \<Rightarrow> raw_segment \<Rightarrow> nat \<Rightarrow> bool \<Rightarrow> accumulator \<Rightarrow> (flow \<times> accumulator) option" where
  "classify_segment an segment depth pipeline_fetches acc =
     (let words = seg_words segment;
          (index, acc) = skip_reserved words 0 acc;
          (index, acc) = skip_keyword words index acc;
          assignments_start = index;
          index = skip_assignments words index;
          has_assignments = (index > assignments_start)
      in do {
        (program_start, cmd, acc) \<leftarrow> unwrap_wrappers an words index classified_default acc;
        let effective = drop program_start words;
        (cmd, fl, acc) \<leftarrow> classify_effective an effective cmd acc;
        let risk = cl_risk cmd;
        let risk = (if cl_escalated cmd then max risk Escalating else risk);
        let risk = (if fl_executes_stdin fl \<and> pipeline_fetches \<and> seg_connector segment = Pipe
                    then max risk RemoteCode else risk);
        (risk, writes_file, acc) \<leftarrow>
          classify_redirects an fl (seg_redirects segment) risk (cl_writes_file cmd) acc;
        if words = [] \<and> seg_redirects segment = [] then Some (fl, acc)
        else
          let risk = (if writes_file \<or> has_assignments then max risk Mutating else risk) in
          Some (fl, acc\<lparr>acc_commands := acc_commands acc @
            [\<lparr>cmd_depth = depth,
              cmd_literal = map w_text words,
              cmd_effective = basename_first (map w_text effective),
              cmd_plain_words =
                list_all (\<lambda>w. \<not> w_quoted w \<and> \<not> w_dynamic w \<and> \<not> w_glob w) words,
              cmd_wrapped = cl_wrapped cmd,
              cmd_has_assignments = has_assignments,
              cmd_redirects = (seg_redirects segment \<noteq> []),
              cmd_writes_file = writes_file,
              cmd_piped_input = (seg_connector segment = Pipe),
              cmd_risk = risk\<rparr>]\<rparr>) })"

subsection \<open>A whole script\<close>

fun classify_segments ::
    "nested_analyzer \<Rightarrow> nat \<Rightarrow> bool \<Rightarrow> raw_segment list \<Rightarrow> accumulator \<Rightarrow> accumulator option" where
  "classify_segments an depth fetches [] acc = Some acc"
| "classify_segments an depth fetches (seg # segs) acc =
     (let fetches = (if seg_connector seg \<noteq> Pipe then False else fetches) in do {
        (fl, acc) \<leftarrow> classify_segment an seg depth fetches acc;
        classify_segments an depth (fetches \<or> fl_fetches fl) segs acc })"

fun analyze_all :: "nested_analyzer \<Rightarrow> str list \<Rightarrow> accumulator \<Rightarrow> accumulator option" where
  "analyze_all an [] acc = Some acc"
| "analyze_all an (t # ts) acc = do { acc \<leftarrow> an t acc; analyze_all an ts acc }"

function analyze_into :: "str \<Rightarrow> nat \<Rightarrow> accumulator \<Rightarrow> (bool \<times> accumulator) option" where
  "analyze_into source depth acc =
     (if depth > MAX_DEPTH then Some (False, note_opaque NestingTooDeep acc)
      else (case lex source of
              None \<Rightarrow> None
            | Some lexed \<Rightarrow>
              let an = (\<lambda>t acc. map_option snd (analyze_into t (depth + 1) acc));
                  acc = acc\<lparr>acc_opaque := acc_opaque acc \<union> lexed_opaque lexed\<rparr>;
                  only_pipes =
                    list_all (\<lambda>s. seg_connector s \<in> set [Start, Pipe]) (lexed_segments lexed)
              in do {
                acc \<leftarrow> classify_segments an depth False (lexed_segments lexed) acc;
                acc \<leftarrow> analyze_all an (lexed_nested lexed) acc;
                Some (only_pipes, acc) }))"
  by pat_completeness auto
termination
  by (relation "measure (\<lambda>(s, d, acc). MAX_DEPTH + 1 - d)") auto

declare analyze_into.simps [simp del]

record shell_analysis =
  an_commands :: "shell_command list"
  an_opaque :: "opaque_construct set"
  an_only_pipes :: bool
  an_risk :: shell_risk

definition is_opaque :: "shell_analysis \<Rightarrow> bool" where
  "is_opaque a \<longleftrightarrow> an_opaque a \<noteq> {}"

definition is_single_plain_command :: "shell_analysis \<Rightarrow> bool" where
  "is_single_plain_command a \<longleftrightarrow>
     (case an_commands a of
        [c] \<Rightarrow> cmd_depth c = 0 \<and> cmd_plain_words c \<and> \<not> cmd_wrapped c
                \<and> \<not> cmd_has_assignments c \<and> \<not> cmd_redirects c
      | _ \<Rightarrow> False)
     \<and> an_opaque a = {}"

definition writes_files :: "shell_analysis \<Rightarrow> bool" where
  "writes_files a \<longleftrightarrow>
     an_risk a \<ge> RemoteCode \<or> Eval \<in> an_opaque a \<or> DynamicProgram \<in> an_opaque a
     \<or> UnterminatedQuote \<in> an_opaque a \<or> NestingTooDeep \<in> an_opaque a \<or> Oversized \<in> an_opaque a
     \<or> list_ex (\<lambda>c. cmd_writes_file c \<or> program_mutates_files (cmd_effective c)) (an_commands a)"

definition analysis_of :: "accumulator \<Rightarrow> shell_analysis" where
  "analysis_of acc =
     (let acc = (if acc_commands acc = [] then note_opaque Empty acc else acc);
          risk = max_or Opaque (map cmd_risk (acc_commands acc));
          risk = (if acc_opaque acc \<noteq> {} then max risk Opaque else risk);
          risk = (if FunctionDefinition \<in> acc_opaque acc then max risk Destructive else risk)
      in \<lparr>an_commands = acc_commands acc, an_opaque = acc_opaque acc,
          an_only_pipes = acc_only_pipes acc, an_risk = risk\<rparr>)"

definition analyze_lexed :: "str \<Rightarrow> shell_analysis option" where
  "analyze_lexed command = do {
     (only_pipes, acc) \<leftarrow> analyze_into command 0 accumulator_default;
     Some (analysis_of (acc\<lparr>acc_only_pipes := only_pipes\<rparr>)) }"

definition analyze :: "str \<Rightarrow> shell_analysis option" where
  "analyze command =
     (if utf8_len command > MAX_SOURCE_BYTES
      then Some (analysis_of (note_opaque Oversized accumulator_default))
      else analyze_lexed command)"

lemma analyze_short:
  assumes "2 * length command \<le> MAX_SOURCE_BYTES"
  shows "analyze command = analyze_lexed command"
proof -
  have "utf8_len command \<le> 2 * length command"
    by (induction command) (auto simp: utf8_len_def utf8_width_def)
  with assms show ?thesis by (simp add: analyze_def)
qed

text \<open>The size test on binary integers, for evaluation.\<close>

lemma analyze_code [code]:
  "analyze command =
     (if int (utf8_len command) > 65536
      then Some (analysis_of (note_opaque Oversized accumulator_default))
      else analyze_lexed command)"
  by (simp add: analyze_def MAX_SOURCE_BYTES_def)

end
