(* ===== verification/ShellSafety.thy ===== *)
theory ShellSafety
  imports ShellClassifier
begin

section \<open>What a verdict of the shell classifier guarantees\<close>

text \<open>
  The classifier threads one accumulator through every segment and every nested script.  The locale
  \<open>nested_analysis\<close> is the contract between a function of the classifier and the nested analyzer it
  calls: the analyzer only adds to the accumulator, and every command it adds is sound.  The lemmas
  about the classifier's functions are proved once from that contract, and \<open>analyze_into\<close> itself
  satisfies it at every depth, which closes the induction.
\<close>

subsection \<open>The contract\<close>

text \<open>
  What the classifier promises of one command it reports: its depth is bounded, and the verdict
  \<open>ReadOnly\<close> is given only to a command that writes no file, assigns no variable, and is a bare
  lookup or passes the read-only allowlist without a wrapper.
\<close>

definition read_only_evidence :: "shell_command \<Rightarrow> bool" where
  "read_only_evidence c \<longleftrightarrow>
     \<not> cmd_writes_file c \<and> \<not> cmd_has_assignments c \<and>
     (case cmd_effective c of
        [] \<Rightarrow> True
      | p # args \<Rightarrow> \<not> cmd_wrapped c \<and> read_only_program p args)"

definition sound_command :: "nat \<Rightarrow> shell_command \<Rightarrow> bool" where
  "sound_command d c \<longleftrightarrow>
     d \<le> cmd_depth c \<and> cmd_depth c \<le> MAX_DEPTH \<and>
     (cmd_risk c = ReadOnly \<longrightarrow> read_only_evidence c)"

definition grows :: "nat \<Rightarrow> accumulator \<Rightarrow> accumulator \<Rightarrow> bool" where
  "grows d acc acc' \<longleftrightarrow>
     acc_opaque acc \<subseteq> acc_opaque acc' \<and>
     (\<exists>new. acc_commands acc' = acc_commands acc @ new \<and> list_all (sound_command d) new)"

lemma grows_refl [simp, intro]: "grows d acc acc"
  by (simp add: grows_def)

lemma grows_trans [trans]: "grows d a b \<Longrightarrow> grows d b c \<Longrightarrow> grows d a c"
  by (fastforce simp: grows_def)

lemma grows_weaken: "grows d a b \<Longrightarrow> e \<le> d \<Longrightarrow> grows e a b"
  by (fastforce simp: grows_def sound_command_def list_all_iff)

lemma grows_note_opaque [simp, intro]: "grows d acc (note_opaque c acc)"
  by (auto simp: grows_def note_opaque_def)

lemma grows_opaque: "grows d a b \<Longrightarrow> x \<in> acc_opaque a \<Longrightarrow> x \<in> acc_opaque b"
  by (auto simp: grows_def)

lemma grows_commands: "grows d a b \<Longrightarrow> x \<in> set (acc_commands a) \<Longrightarrow> x \<in> set (acc_commands b)"
  by (auto simp: grows_def)

text \<open>Risks that are never \<open>ReadOnly\<close>.\<close>

lemma rm_risk_ge: "Mutating \<le> rm_risk args x"
  by (simp add: rm_risk_def Let_def risk_order)

lemma dd_risk_ge: "Mutating \<le> dd_risk texts"
proof -
  let ?rs = "map (\<lambda>target. if is_block_device target then Catastrophic
           else if starts_with ''/dev/'' target then Destructive else Mutating)
         (List.map_filter (strip_prefix ''of='') texts)"
  have "max_or Mutating ?rs \<in> insert Mutating (set ?rs)"
    using max_or_in [of ?rs Mutating] by (cases "?rs = []") simp_all
  then show ?thesis by (auto simp: dd_risk_def risk_order)
qed

lemma not_read_only [simp]: "rm_risk args x \<noteq> ReadOnly" "dd_risk texts \<noteq> ReadOnly"
  using rm_risk_ge [of args x] dd_risk_ge [of texts] by (auto simp: risk_order)

subsection \<open>The pieces of one command\<close>

text \<open>Where a command starts: behind its reserved words, keyword and assignments.\<close>

definition command_start :: "sh_word list \<Rightarrow> accumulator \<Rightarrow> nat \<times> nat \<times> accumulator" where
  "command_start ws acc =
     (let (i, acc) = skip_reserved ws 0 acc; (i, acc) = skip_keyword ws i acc
      in (i, skip_assignments ws i, acc))"

lemma skip_reserved_grows: "skip_reserved ws i acc = (j, acc') \<Longrightarrow> grows d acc acc'"
proof (induction ws i acc arbitrary: j acc' rule: skip_reserved.induct)
  case (2 w ws i acc)
  then show ?case
    by (auto split: if_splits intro: grows_trans [OF grows_note_opaque])
qed simp

lemma skip_keyword_grows: "skip_keyword ws i acc = (j, acc') \<Longrightarrow> grows d acc acc'"
  by (auto simp: skip_keyword_def Let_def split: if_splits)

lemma command_start_grows: "command_start ws acc = (k, i, acc') \<Longrightarrow> grows d acc acc'"
  unfolding command_start_def
  by (auto split: prod.splits dest: skip_keyword_grows skip_reserved_grows intro: grows_trans)

text \<open>The risk a segment has before its redirects, and the command it adds at the end.\<close>

definition segment_risk :: "classified \<Rightarrow> flow \<Rightarrow> bool \<Rightarrow> shell_risk" where
  "segment_risk cmd fl fetched =
     (let risk = cl_risk cmd;
          risk = (if cl_escalated cmd then max risk Escalating else risk)
      in if fl_executes_stdin fl \<and> fetched then max risk RemoteCode else risk)"

lemma segment_risk_ge:
  "cl_risk cmd \<le> segment_risk cmd fl p"
  "cl_escalated cmd \<Longrightarrow> Escalating \<le> segment_risk cmd fl p"
  "fl_executes_stdin fl \<Longrightarrow> p \<Longrightarrow> RemoteCode \<le> segment_risk cmd fl p"
  by (simp_all add: segment_risk_def Let_def le_max_iff_disj)

definition segment_command ::
    "raw_segment \<Rightarrow> nat \<Rightarrow> bool \<Rightarrow> nat \<Rightarrow> classified \<Rightarrow> shell_risk \<Rightarrow> bool \<Rightarrow> shell_command" where
  "segment_command seg d assigns start cmd risk writes =
     \<lparr>cmd_depth = d,
      cmd_literal = map w_text (seg_words seg),
      cmd_effective = basename_first (map w_text (drop start (seg_words seg))),
      cmd_plain_words =
        list_all (\<lambda>w. \<not> w_quoted w \<and> \<not> w_dynamic w \<and> \<not> w_glob w) (seg_words seg),
      cmd_wrapped = cl_wrapped cmd,
      cmd_has_assignments = assigns,
      cmd_redirects = (seg_redirects seg \<noteq> []),
      cmd_writes_file = writes,
      cmd_piped_input = (seg_connector seg = Pipe),
      cmd_risk = (if writes \<or> assigns then max risk Mutating else risk)\<rparr>"

lemma segment_command_risk_ge: "risk \<le> cmd_risk (segment_command seg d a start cmd risk writes)"
  by (simp add: segment_command_def)

lemma classify_segment_cases:
  assumes "classify_segment an seg d fetches acc = Some (fl, acc')"
  obtains k i acc1 start cmd acc2 cmd' acc3 risk writes acc4 where
    "command_start (seg_words seg) acc = (k, i, acc1)"
    "unwrap_wrappers an (seg_words seg) i classified_default acc1 = Some (start, cmd, acc2)"
    "classify_effective an (drop start (seg_words seg)) cmd acc2 = Some (cmd', fl, acc3)"
    "classify_redirects an fl (seg_redirects seg)
       (segment_risk cmd' fl (fetches \<and> seg_connector seg = Pipe)) (cl_writes_file cmd') acc3
     = Some (risk, writes, acc4)"
    "seg_words seg = [] \<and> seg_redirects seg = [] \<and> acc' = acc4 \<or>
     acc' = acc4\<lparr>acc_commands := acc_commands acc4 @
              [segment_command seg d (k < i) start cmd' risk writes]\<rparr>"
proof -
  obtain i0 acc0 where sr: "skip_reserved (seg_words seg) 0 acc = (i0, acc0)" by fastforce
  obtain k acc1 where sk: "skip_keyword (seg_words seg) i0 acc0 = (k, acc1)" by fastforce
  let ?i = "skip_assignments (seg_words seg) k"
  have cs: "command_start (seg_words seg) acc = (k, ?i, acc1)"
    by (simp add: command_start_def sr sk)
  have "unwrap_wrappers an (seg_words seg) ?i classified_default acc1 \<bind> (\<lambda>(start, cmd, acc2).
      classify_effective an (drop start (seg_words seg)) cmd acc2 \<bind> (\<lambda>(cmd', fl', acc3).
      classify_redirects an fl' (seg_redirects seg)
        (segment_risk cmd' fl' (fetches \<and> seg_connector seg = Pipe)) (cl_writes_file cmd') acc3
      \<bind> (\<lambda>(risk, writes, acc4).
        if seg_words seg = [] \<and> seg_redirects seg = [] then Some (fl', acc4)
        else Some (fl', acc4\<lparr>acc_commands := acc_commands acc4 @
              [segment_command seg d (k < ?i) start cmd' risk writes]\<rparr>)))) = Some (fl, acc')"
    using assms unfolding classify_segment_def Let_def sr sk prod.case segment_risk_def
      segment_command_def by (simp only: conj_assoc)
  then obtain start cmd acc2 cmd' fl' acc3 risk writes acc4 where
    u: "unwrap_wrappers an (seg_words seg) ?i classified_default acc1 = Some (start, cmd, acc2)"
    and e: "classify_effective an (drop start (seg_words seg)) cmd acc2 = Some (cmd', fl', acc3)"
    and r: "classify_redirects an fl' (seg_redirects seg)
       (segment_risk cmd' fl' (fetches \<and> seg_connector seg = Pipe)) (cl_writes_file cmd') acc3
     = Some (risk, writes, acc4)"
    and c: "(if seg_words seg = [] \<and> seg_redirects seg = [] then Some (fl', acc4)
      else Some (fl', acc4\<lparr>acc_commands := acc_commands acc4 @
              [segment_command seg d (k < ?i) start cmd' risk writes]\<rparr>)) = Some (fl, acc')"
    by (elim bind3E) blast
  from c have [simp]: "fl' = fl" and "seg_words seg = [] \<and> seg_redirects seg = [] \<and> acc' = acc4 \<or>
     acc' = acc4\<lparr>acc_commands := acc_commands acc4 @
              [segment_command seg d (k < ?i) start cmd' risk writes]\<rparr>"
    by (auto split: if_splits)
  with that cs u e r show thesis by simp
qed

text \<open>Unwrapping keeps the risk, keeps an escalation, and marks an escalation.\<close>

lemma unwrap_turn_frame:
  assumes "unwrap_turn an ws i cmd acc = Some turn"
  shows "case turn of
      Stop _ cmd' _ \<Rightarrow> cl_risk cmd' = cl_risk cmd \<and> (cl_escalated cmd \<longrightarrow> cl_escalated cmd')
    | Unwrapped _ cmd' _ \<Rightarrow> cl_risk cmd' = cl_risk cmd \<and> (cl_escalated cmd \<longrightarrow> cl_escalated cmd')"
  using assms
  by (auto simp: unwrap_turn_def mark_wrapped_def Let_def bind_eq_Some_conv split: if_splits)

lemma unwrap_loop_frame:
  "unwrap_loop n an ws i cmd acc = Some (j, cmd', acc') \<Longrightarrow>
     cl_risk cmd' = cl_risk cmd \<and> (cl_escalated cmd \<longrightarrow> cl_escalated cmd')"
proof (induction n arbitrary: i cmd acc)
  case (Suc n)
  then show ?case
    using unwrap_turn_frame [of an ws i cmd acc]
    by (fastforce split: option.splits wrapper_turn.splits)
qed auto

subsection \<open>The contract of the nested analyzer\<close>

locale nested_analysis =
  fixes an :: nested_analyzer and depth :: nat
  assumes grows_nested: "an t acc = Some acc' \<Longrightarrow> grows depth acc acc'"
begin

lemma analyze_nested_text_grows:
  "analyze_nested_text an t dyn acc = Some acc' \<Longrightarrow> grows depth acc acc'"
  unfolding analyze_nested_text_def
  by (auto split: if_splits dest: grows_nested intro: grows_trans)

lemma skip_env_grows: "skip_env an ws i acc = Some (j, acc') \<Longrightarrow> grows depth acc acc'"
proof (induction "length ws - i" arbitrary: i rule: less_induct)
  case less
  have ih: "grows depth acc acc'" if "skip_env an ws (i + Suc k) acc = Some (j, acc')" "i < length ws" for k
    by (rule less.hyps [OF _ that(1)]) (use that(2) in simp)
  show ?case
    using less.prems ih [of 0] ih [of 1] ih [of 2] analyze_nested_text_grows
    by (fastforce simp: skip_env.simps [of an ws i] Let_def bind_eq_Some_conv numeral_2_eq_2 split: if_splits)
qed

lemma unwrap_turn_grows:
  assumes "unwrap_turn an ws i cmd acc = Some turn"
  shows "case turn of Stop _ _ acc' \<Rightarrow> grows depth acc acc' | Unwrapped _ _ acc' \<Rightarrow> grows depth acc acc'"
  using assms skip_env_grows
  by (auto simp: unwrap_turn_def Let_def bind_eq_Some_conv split: if_splits)

lemma unwrap_loop_grows:
  "unwrap_loop n an ws i cmd acc = Some (j, cmd', acc') \<Longrightarrow> grows depth acc acc'"
proof (induction n arbitrary: i cmd acc)
  case (Suc n)
  then show ?case
    using unwrap_turn_grows [of ws i cmd acc]
    by (fastforce split: option.splits wrapper_turn.splits intro: grows_trans)
qed auto

lemma classify_shell_invocation_grows:
  "classify_shell_invocation an args fl acc = Some (fl', acc') \<Longrightarrow> grows depth acc acc'"
  by (auto simp: classify_shell_invocation_def bind_eq_Some_conv dest: analyze_nested_text_grows
      split: prod.splits option.splits if_splits)

text \<open>
  What classifying the program keeps of the command under construction, and where \<open>ReadOnly\<close> comes
  from.
\<close>

lemma classify_program_ok:
  "pred_option (\<lambda>(cmd', fl', acc').
      grows depth acc acc' \<and> cl_wrapped cmd' = cl_wrapped cmd \<and>
      cl_writes_file cmd' = cl_writes_file cmd \<and>
      (cl_escalated cmd \<longrightarrow> cl_escalated cmd') \<and>
      (cl_risk cmd' = ReadOnly \<longrightarrow> cl_risk cmd = ReadOnly \<or>
         \<not> cl_wrapped cmd \<and> read_only_program prog (map w_text args)))
    (classify_program an prog pw args cmd fl acc)"
  unfolding classify_program_def Let_def
proof (intro pred_option_if, goal_cases)
  case 1
  then show ?case
    by (auto split: list.splits intro!: pred_option_bind' dest: classify_shell_invocation_grows)
next
  case 2
  then show ?case
    by (auto intro!: pred_option_bind' dest: classify_shell_invocation_grows)
next
  case 4
  then show ?case
    by (auto intro!: pred_option_bind' dest!: analyze_nested_text_grows
        intro: grows_trans [OF grows_note_opaque])
next
  case 5
  then show ?case
    by (auto split: option.splits intro!: pred_option_bind' dest: analyze_nested_text_grows)
next
  case 16
  then have "\<not> cl_wrapped cmd \<and> read_only_program prog (map w_text args)" by blast
  then show ?case by simp
qed simp_all

lemma classify_redirects_ok:
  "classify_redirects an fl rs risk writes acc = Some (risk', writes', acc') \<Longrightarrow>
     grows depth acc acc' \<and> risk \<le> risk' \<and> (writes \<longrightarrow> writes')"
proof (induction rs arbitrary: risk writes acc)
  case (Cons r rs)
  let ?t = "w_text (rd_target r)"
  consider (out) "rd_kind r \<in> set [Output, Append, ReadWrite]"
    | (doc) b acc1 where "rd_kind r \<notin> set [Output, Append, ReadWrite]" "an b acc = Some acc1"
        "classify_redirects an fl rs risk writes acc1 = Some (risk', writes', acc')"
    | (skip) "rd_kind r \<notin> set [Output, Append, ReadWrite]"
        "classify_redirects an fl rs risk writes acc = Some (risk', writes', acc')"
    using Cons.prems by (auto simp: bind_eq_Some_conv split: if_splits option.splits)
  then show ?case
  proof cases
    case out
    let ?risk = "if is_block_device ?t then Catastrophic
      else if starts_with ''/dev/'' ?t \<and> \<not> is_harmless_device ?t then max risk Destructive else risk"
    have "risk \<le> ?risk" by (cases risk) (simp_all add: risk_order max_def)
    moreover have "classify_redirects an fl rs ?risk
        (writes \<or> w_dynamic (rd_target r) \<or> \<not> is_harmless_device ?t) acc = Some (risk', writes', acc')"
      using Cons.prems out by (simp only: classify_redirects.simps if_True Let_def)
    note Cons.IH [OF this]
    ultimately show ?thesis by (auto intro: order_trans)
  next
    case doc
    then show ?thesis using Cons.IH [OF doc(3)] grows_nested [OF doc(2)] grows_trans by blast
  next
    case skip
    then show ?thesis using Cons.IH by blast
  qed
qed simp

lemma classify_effective_ok:
  assumes "classify_effective an effective cmd acc = Some (cmd', fl, acc')"
  shows "grows depth acc acc' \<and> cl_wrapped cmd' = cl_wrapped cmd
    \<and> cl_writes_file cmd' = cl_writes_file cmd \<and> (cl_escalated cmd \<longrightarrow> cl_escalated cmd')
    \<and> (cl_risk cmd' = ReadOnly \<longrightarrow> cl_risk cmd = ReadOnly \<or>
      (case basename_first (map w_text effective) of [] \<Rightarrow> True
       | p # args \<Rightarrow> \<not> cl_wrapped cmd \<and> read_only_program p args))"
proof (cases "effective \<noteq> [] \<and> \<not> w_dynamic (hd effective)")
  case True
  then obtain pw args where eff: "effective = pw # args" "\<not> w_dynamic pw" by (cases effective) auto
  with assms have "classify_program an (basename (w_text pw)) pw args cmd flow_default acc
      = Some (cmd', fl, acc')" by (simp add: classify_effective_def)
  from pred_option_SomeD [OF classify_program_ok this] eff show ?thesis
    by (auto simp: basename_first_def)
qed (use assms in \<open>auto simp: classify_effective_def basename_first_def split: list.splits if_splits\<close>)

lemma classify_segment_grows:
  assumes cls: "classify_segment an seg d fetches acc = Some (fl, acc')"
    and d: "depth = Suc d" "d \<le> MAX_DEPTH"
  shows "grows d acc acc'"
proof -
  from cls obtain k i acc1 start cmd acc2 cmd' acc3 risk writes acc4 where
    s: "command_start (seg_words seg) acc = (k, i, acc1)"
    and u: "unwrap_wrappers an (seg_words seg) i classified_default acc1 = Some (start, cmd, acc2)"
    and e: "classify_effective an (drop start (seg_words seg)) cmd acc2 = Some (cmd', fl, acc3)"
    and r: "classify_redirects an fl (seg_redirects seg)
       (segment_risk cmd' fl (fetches \<and> seg_connector seg = Pipe)) (cl_writes_file cmd') acc3
     = Some (risk, writes, acc4)"
    and c: "seg_words seg = [] \<and> seg_redirects seg = [] \<and> acc' = acc4 \<or>
     acc' = acc4\<lparr>acc_commands := acc_commands acc4 @
              [segment_command seg d (k < i) start cmd' risk writes]\<rparr>"
    by (rule classify_segment_cases)
  note eff = classify_effective_ok [OF e] and red = classify_redirects_ok [OF r]
  note unw = unwrap_loop_frame [OF u [unfolded unwrap_wrappers_def]]
  have "grows depth acc acc4"
    using command_start_grows [OF s, of depth] unwrap_loop_grows [OF u [unfolded unwrap_wrappers_def]]
      eff red by (blast intro: grows_trans)
  then have g: "grows d acc acc4" using d by (auto intro: grows_weaken)
  let ?c = "segment_command seg d (k < i) start cmd' risk writes"
  have "sound_command d ?c"
  proof -
    have "read_only_evidence ?c" if "cmd_risk ?c = ReadOnly"
    proof -
      from that have flags: "\<not> writes" "\<not> k < i" and risk: "risk = ReadOnly"
        by (auto simp: segment_command_def max_def risk_order split: if_splits)
      have "cl_risk cmd' \<le> risk"
        using red segment_risk_ge(1) order_trans by blast
      with risk have "cl_risk cmd' = ReadOnly" by (cases "cl_risk cmd'") (simp_all add: risk_order)
      then show ?thesis
        using eff unw flags
        by (auto simp: read_only_evidence_def segment_command_def classified_default_def
            split: list.splits)
    qed
    then show ?thesis using d(2) by (simp add: sound_command_def segment_command_def)
  qed
  with c g show ?thesis by (fastforce simp: grows_def)
qed

lemma classify_segments_grows:
  "classify_segments an d fetches segs acc = Some acc' \<Longrightarrow> depth = Suc d \<Longrightarrow> d \<le> MAX_DEPTH \<Longrightarrow>
     grows d acc acc'"
proof (induction segs arbitrary: fetches acc)
  case (Cons seg segs)
  then obtain b fl acc1 where "classify_segment an seg d b acc = Some (fl, acc1)"
    "classify_segments an d (b \<or> fl_fetches fl) segs acc1 = Some acc'"
    by (auto simp: Let_def bind_eq_Some_conv)
  with Cons.IH Cons.prems classify_segment_grows show ?case by (blast intro: grows_trans)
qed simp

lemma analyze_all_grows: "analyze_all an ts acc = Some acc' \<Longrightarrow> grows depth acc acc'"
proof (induction ts arbitrary: acc)
  case (Cons t ts)
  then show ?case by (auto simp: bind_eq_Some_conv dest!: grows_nested intro: grows_trans)
qed simp

end

subsection \<open>The classifier satisfies its own contract\<close>

definition nested_analyze :: "nat \<Rightarrow> nested_analyzer" where
  "nested_analyze d t acc = map_option snd (analyze_into t d acc)"

lemma nested_analyze_eta:
  "(\<lambda>t acc. map_option snd (analyze_into t d acc)) = nested_analyze d"
  by (simp add: nested_analyze_def fun_eq_iff)

lemma analyze_into_cases:
  assumes "analyze_into t d acc = Some (b, acc')" and "\<not> d > MAX_DEPTH"
  obtains lexed acc2 where "lex t = Some lexed"
    "classify_segments (nested_analyze (Suc d)) d False (lexed_segments lexed)
       (acc\<lparr>acc_opaque := acc_opaque acc \<union> lexed_opaque lexed\<rparr>) = Some acc2"
    "analyze_all (nested_analyze (Suc d)) (lexed_nested lexed) acc2 = Some acc'"
  using assms
  by (auto simp: analyze_into.simps [of t d] Let_def bind_eq_Some_conv nested_analyze_eta
      split: option.splits)

lemma analyze_into_grows: "analyze_into t d acc = Some (b, acc') \<Longrightarrow> grows d acc acc'"
proof (induction t d acc arbitrary: b acc' rule: analyze_into.induct)
  case (1 t d acc)
  show ?case
  proof (cases "d > MAX_DEPTH")
    case True
    with "1.prems" show ?thesis by (auto simp: analyze_into.simps)
  next
    case False
    with "1.prems" obtain lexed acc2 where lexed: "lex t = Some lexed"
      and seg: "classify_segments (nested_analyze (Suc d)) d False (lexed_segments lexed)
        (acc\<lparr>acc_opaque := acc_opaque acc \<union> lexed_opaque lexed\<rparr>) = Some acc2"
      and nested: "analyze_all (nested_analyze (Suc d)) (lexed_nested lexed) acc2 = Some acc'"
      by (auto elim: analyze_into_cases)
    have contract: "nested_analysis (nested_analyze (Suc d)) (Suc d)"
      by unfold_locales (use "1.IH" [OF False lexed] in \<open>auto simp: nested_analyze_def\<close>)
    have "grows d acc (acc\<lparr>acc_opaque := acc_opaque acc \<union> lexed_opaque lexed\<rparr>)"
      by (auto simp: grows_def)
    also have "grows d \<dots> acc2" using nested_analysis.classify_segments_grows [OF contract seg] False by simp
    also have "grows d \<dots> acc'" using grows_weaken [OF nested_analysis.analyze_all_grows [OF contract nested]] by simp
    finally show ?thesis .
  qed
qed

interpretation nested: nested_analysis "nested_analyze d" d for d
  by unfold_locales (auto simp: nested_analyze_def dest: analyze_into_grows)

text \<open>What an analysis as a whole keeps of its accumulator.\<close>

lemma analyze_lexed_cases:
  assumes "analyze_lexed s = Some a"
  obtains lexed acc2 acc b where "lex s = Some lexed"
    "classify_segments (nested_analyze (Suc 0)) 0 False (lexed_segments lexed)
       (accumulator_default\<lparr>acc_opaque := lexed_opaque lexed\<rparr>) = Some acc2"
    "analyze_all (nested_analyze (Suc 0)) (lexed_nested lexed) acc2 = Some acc"
    "a = analysis_of (acc\<lparr>acc_only_pipes := b\<rparr>)"
  using assms
  by (auto simp: analyze_lexed_def bind_eq_Some_conv accumulator_default_def MAX_DEPTH_def
      elim!: analyze_into_cases)

lemma analysis_of_simps [simp]:
  "an_commands (analysis_of acc) = acc_commands acc"
  "an_only_pipes (analysis_of acc) = acc_only_pipes acc"
  by (simp_all add: analysis_of_def note_opaque_def Let_def)

lemma an_opaque_analysis_of:
  "an_opaque (analysis_of acc) = (if acc_commands acc = [] then insert Empty (acc_opaque acc) else acc_opaque acc)"
  by (simp add: analysis_of_def note_opaque_def Let_def)

lemma an_risk_analysis_of:
  "an_risk (analysis_of acc) =
     max (max_or Opaque (map cmd_risk (an_commands (analysis_of acc))))
       (if FunctionDefinition \<in> an_opaque (analysis_of acc) then Destructive
        else if an_opaque (analysis_of acc) \<noteq> {} then Opaque else ReadOnly)"
proof -
  have [simp]: "max (max x Opaque) Destructive = max x Destructive" "max x ReadOnly = x" for x
    by (cases x; simp add: max_def risk_order)+
  show ?thesis by (auto simp: analysis_of_def note_opaque_def Let_def)
qed

definition well_analyzed :: "shell_analysis \<Rightarrow> bool" where
  "well_analyzed a \<longleftrightarrow>
     list_all (sound_command 0) (an_commands a) \<and>
     (an_commands a = [] \<longrightarrow> Empty \<in> an_opaque a) \<and>
     an_risk a = max (max_or Opaque (map cmd_risk (an_commands a)))
       (if FunctionDefinition \<in> an_opaque a then Destructive
        else if an_opaque a \<noteq> {} then Opaque else ReadOnly)"

lemma analyze_well: "analyze s = Some a \<Longrightarrow> well_analyzed a"
proof -
  assume a: "analyze s = Some a"
  show "well_analyzed a"
  proof (cases "utf8_len s > MAX_SOURCE_BYTES")
    case True
    with a show ?thesis
      by (auto simp: analyze_def well_analyzed_def an_risk_analysis_of an_opaque_analysis_of
          note_opaque_def accumulator_default_def)
  next
    case False
    with a obtain b acc where into: "analyze_into s 0 accumulator_default = Some (b, acc)"
      and a': "a = analysis_of (acc\<lparr>acc_only_pipes := b\<rparr>)"
      by (auto simp: analyze_def analyze_lexed_def bind_eq_Some_conv)
    from analyze_into_grows [OF into] show ?thesis
      by (auto simp: a' well_analyzed_def an_risk_analysis_of an_opaque_analysis_of grows_def
          accumulator_default_def)
  qed
qed

lemma command_risk_le:
  assumes "well_analyzed a" and "c \<in> set (an_commands a)"
  shows "cmd_risk c \<le> an_risk a"
proof -
  have "cmd_risk c \<le> max_or Opaque (map cmd_risk (an_commands a))"
    using assms(2) by (intro max_or_ge) simp
  with assms(1) show ?thesis by (simp add: well_analyzed_def le_max_iff_disj)
qed

lemma opaque_risk_le: "well_analyzed a \<Longrightarrow> an_opaque a \<noteq> {} \<Longrightarrow> Opaque \<le> an_risk a"
  by (simp add: well_analyzed_def le_max_iff_disj) (simp add: risk_order)

subsection \<open>Programs named directly\<close>

text \<open>
  \<open>runs w p\<close>: the word \<open>w\<close> names the program \<open>p\<close>, bare or by a path.  A word that names none of the
  shell's reserved words starts the command, and a program that is no wrapper stays in front.
\<close>

definition RESERVED :: "str list" where
  "RESERVED =
     [''if'', ''then'', ''elif'', ''else'', ''do'', ''while'', ''until'', ''!'', ''time'', ''for'',
      ''case'', ''select'', ''[['', ''coproc'', ''function'', ''fi'', ''done'', ''esac'', ''}'',
      '']]'', ''in'']"

definition WRAPPERS :: "str list" where
  "WRAPPERS =
     [''sudo'', ''doas'', ''pkexec'', ''run0'', ''env'', ''nohup'', ''builtin'', ''unbuffer'',
      ''chronic'', ''exec'', ''command'', ''nice'', ''ionice'', ''time'', ''timeout'', ''stdbuf'',
      ''caffeinate'', ''watch'', ''xargs'']"

definition runs :: "sh_word \<Rightarrow> str \<Rightarrow> bool" where
  "runs w p \<longleftrightarrow> basename (w_text w) = p \<and> \<not> w_dynamic w \<and> \<not> w_assignment w"

lemma basename_RESERVED: "list_all (\<lambda>r. basename r = r) RESERVED"
  by code_simp

lemma runs_not_reserved: "runs w p \<Longrightarrow> p \<notin> set RESERVED \<Longrightarrow> w_text w \<notin> set RESERVED"
  using basename_RESERVED by (auto simp: runs_def list_all_iff)

lemma command_start_direct:
  assumes "runs w p" "p \<notin> set RESERVED"
  shows "command_start (w # args) acc = (0, 0, acc)"
proof -
  have t: "w_text w \<notin> set RESERVED" using runs_not_reserved [OF assms] .
  have "skip_reserved (w # args) 0 acc = (0, acc)"
    using t by (simp add: is_reserved_prefix_def RESERVED_def)
  moreover have "skip_keyword (w # args) 0 acc = (0, acc)"
    using t by (simp add: skip_keyword_def RESERVED_def)
  moreover have "skip_assignments (w # args) 0 = 0"
    using assms by (simp add: skip_assignments_def runs_def)
  ultimately show ?thesis by (simp add: command_start_def)
qed

lemma unwrap_direct:
  assumes "runs w p" "p \<notin> set WRAPPERS"
  shows "unwrap_wrappers an (w # args) 0 cmd acc = Some (0, cmd, acc)"
proof -
  have "unwrap_turn an (w # args) 0 cmd acc = Some (Stop 0 cmd acc)"
    using assms by (simp add: unwrap_turn_def runs_def WRAPPERS_def)
  then show ?thesis by (simp add: unwrap_wrappers_def eval_nat_numeral)
qed

lemma unwrap_escalator:
  assumes "runs w p" "p \<in> set ESCALATORS"
    and "unwrap_wrappers an (w # args) 0 cmd acc = Some (j, cmd', acc')"
  shows "cl_escalated cmd'"
proof -
  obtain i where "unwrap_turn an (w # args) 0 cmd acc = Some (Unwrapped i (mark_wrapped p cmd) acc)"
    using assms(1,2) by (auto simp: unwrap_turn_def runs_def ESCALATORS_def)
  moreover have "unwrap_loop 8 an (w # args) 0 cmd acc = Some (j, cmd', acc')"
    using assms(3) by (simp add: unwrap_wrappers_def)
  ultimately have "unwrap_loop 7 an (w # args) i (mark_wrapped p cmd) acc = Some (j, cmd', acc')"
    by (simp add: eval_nat_numeral)
  from unwrap_loop_frame [OF this] assms(2) show ?thesis by (simp add: mark_wrapped_def)
qed

subsection \<open>From a segment to the verdict\<close>

lemma classify_segments_append:
  "classify_segments an d f (xs @ ys) acc = Some acc' \<Longrightarrow>
     \<exists>f' acc1. classify_segments an d f' ys acc1 = Some acc'"
proof (induction xs arbitrary: f acc)
  case (Cons x xs)
  then show ?case by (fastforce simp: Let_def bind_eq_Some_conv)
qed auto

lemma segment_command_reported:
  assumes a: "analyze_lexed s = Some a" and l: "lex s = Some lexed"
    and seg: "seg \<in> set (lexed_segments lexed)" "seg_words seg \<noteq> [] \<or> seg_redirects seg \<noteq> []"
  obtains f acc fl acc1 c where "classify_segment (nested_analyze 1) seg 0 f acc = Some (fl, acc1)"
    "c \<in> set (an_commands a)" "c = last (acc_commands acc1)"
proof -
  from a l obtain acc2 acc3 b where
    cls: "classify_segments (nested_analyze (Suc 0)) 0 False (lexed_segments lexed)
       (accumulator_default\<lparr>acc_opaque := lexed_opaque lexed\<rparr>) = Some acc2"
    and nst: "analyze_all (nested_analyze (Suc 0)) (lexed_nested lexed) acc2 = Some acc3"
    and a': "a = analysis_of (acc3\<lparr>acc_only_pipes := b\<rparr>)"
    by (auto elim: analyze_lexed_cases)
  from seg(1) obtain xs ys where "lexed_segments lexed = xs @ seg # ys" by (meson split_list)
  with cls classify_segments_append obtain f acc where
    "classify_segments (nested_analyze (Suc 0)) 0 f (seg # ys) acc = Some acc2" by metis
  then obtain f fl acc1 where
    one: "classify_segment (nested_analyze (Suc 0)) seg 0 f acc = Some (fl, acc1)"
    and rest: "classify_segments (nested_analyze (Suc 0)) 0 (f \<or> fl_fetches fl) ys acc1 = Some acc2"
    by (auto simp: Let_def bind_eq_Some_conv)
  have "acc_commands acc1 \<noteq> []"
    using one seg(2) by (auto elim!: classify_segment_cases)
  then have "last (acc_commands acc1) \<in> set (acc_commands acc1)" by simp
  with nested.classify_segments_grows [OF rest] nested.analyze_all_grows [OF nst]
  have "last (acc_commands acc1) \<in> set (an_commands a)"
    by (auto simp: a' MAX_DEPTH_def dest: grows_commands)
  with one that show thesis by simp
qed

lemma segment_risk_reported:
  assumes a: "analyze s = Some a" and short: "utf8_len s \<le> MAX_SOURCE_BYTES"
    and l: "lex s = Some lexed" and seg: "seg \<in> set (lexed_segments lexed)"
    and ws: "seg_words seg = w # args" and start: "runs w p" "p \<notin> set RESERVED"
  obtains f acc start cmd acc2 cmd' fl acc3 risk writes acc4 where
    "unwrap_wrappers (nested_analyze 1) (w # args) 0 classified_default acc = Some (start, cmd, acc2)"
    "classify_effective (nested_analyze 1) (drop start (w # args)) cmd acc2 = Some (cmd', fl, acc3)"
    "classify_redirects (nested_analyze 1) fl (seg_redirects seg)
       (segment_risk cmd' fl (f \<and> seg_connector seg = Pipe)) (cl_writes_file cmd') acc3
     = Some (risk, writes, acc4)"
    "risk \<le> an_risk a"
proof -
  from a short have a': "analyze_lexed s = Some a" by (simp add: analyze_def)
  from ws have ne: "seg_words seg \<noteq> [] \<or> seg_redirects seg \<noteq> []" by simp
  from segment_command_reported [OF a' l seg ne] obtain f acc fl acc1 c where
    one: "classify_segment (nested_analyze 1) seg 0 f acc = Some (fl, acc1)"
    and c: "c \<in> set (an_commands a)" "c = last (acc_commands acc1)" by blast
  from one show thesis
  proof (rule classify_segment_cases)
    fix k i acc1' start cmd acc2 cmd' acc3 risk writes acc4
    assume s: "command_start (seg_words seg) acc = (k, i, acc1')"
      and u: "unwrap_wrappers (nested_analyze 1) (seg_words seg) i classified_default acc1' = Some (start, cmd, acc2)"
      and e: "classify_effective (nested_analyze 1) (drop start (seg_words seg)) cmd acc2 = Some (cmd', fl, acc3)"
      and r: "classify_redirects (nested_analyze 1) fl (seg_redirects seg)
        (segment_risk cmd' fl (f \<and> seg_connector seg = Pipe)) (cl_writes_file cmd') acc3 = Some (risk, writes, acc4)"
      and last: "seg_words seg = [] \<and> seg_redirects seg = [] \<and> acc1 = acc4 \<or>
        acc1 = acc4\<lparr>acc_commands := acc_commands acc4 @ [segment_command seg 0 (k < i) start cmd' risk writes]\<rparr>"
    from s ws command_start_direct [OF start, of args acc] have "i = 0" "acc1' = acc" by auto
    moreover have "risk \<le> cmd_risk c" using last ws c(2) segment_command_risk_ge by auto
    with command_risk_le [OF analyze_well [OF a] c(1)] have "risk \<le> an_risk a" by simp
    ultimately show thesis using that u e r ws by simp
  qed
qed

lemma program_risk_reported:
  assumes "analyze s = Some a" "utf8_len s \<le> MAX_SOURCE_BYTES"
    and "lex s = Some lexed" "seg \<in> set (lexed_segments lexed)"
    and "seg_words seg = w # args" "runs w p" "p \<notin> set RESERVED" "p \<notin> set WRAPPERS"
    and prog: "\<And>acc cmd' fl acc'.
      classify_program (nested_analyze 1) p w args classified_default flow_default acc = Some (cmd', fl, acc')
      \<Longrightarrow> r \<le> cl_risk cmd'"
  shows "r \<le> an_risk a"
proof -
  from assms(1-7) obtain f acc start cmd acc2 cmd' fl acc3 risk writes acc4 where
    u: "unwrap_wrappers (nested_analyze 1) (w # args) 0 classified_default acc = Some (start, cmd, acc2)"
    and e: "classify_effective (nested_analyze 1) (drop start (w # args)) cmd acc2 = Some (cmd', fl, acc3)"
    and rd: "classify_redirects (nested_analyze 1) fl (seg_redirects seg)
       (segment_risk cmd' fl (f \<and> seg_connector seg = Pipe)) (cl_writes_file cmd') acc3
     = Some (risk, writes, acc4)"
    and le: "risk \<le> an_risk a" by (rule segment_risk_reported)
  from u unwrap_direct [OF assms(6,8)] have "start = 0" "cmd = classified_default" "acc2 = acc" by auto
  with e assms(6) have "classify_program (nested_analyze 1) p w args classified_default flow_default acc
      = Some (cmd', fl, acc3)" by (simp add: classify_effective_def runs_def)
  then have "r \<le> cl_risk cmd'" by (rule prog)
  also have "\<dots> \<le> segment_risk cmd' fl (f \<and> seg_connector seg = Pipe)" by (rule segment_risk_ge)
  also have "\<dots> \<le> risk" using nested.classify_redirects_ok [OF rd] by blast
  finally show ?thesis using le by simp
qed

subsection \<open>Pipelines\<close>

lemma classify_segment_direct:
  assumes "classify_segment an seg d f acc = Some (fl, acc')"
    and "seg_words seg = w # args" "runs w p" "p \<notin> set RESERVED" "p \<notin> set WRAPPERS"
  obtains cmd' acc3 risk writes acc4 where
    "classify_program an p w args classified_default flow_default acc = Some (cmd', fl, acc3)"
    "classify_redirects an fl (seg_redirects seg)
       (segment_risk cmd' fl (f \<and> seg_connector seg = Pipe)) (cl_writes_file cmd') acc3
     = Some (risk, writes, acc4)"
    "risk \<le> cmd_risk (last (acc_commands acc'))" "acc_commands acc' \<noteq> []"
  using assms(1)
proof (rule classify_segment_cases)
  fix k i acc1 start cmd acc2 cmd' acc3 risk writes acc4
  assume s: "command_start (seg_words seg) acc = (k, i, acc1)"
    and u: "unwrap_wrappers an (seg_words seg) i classified_default acc1 = Some (start, cmd, acc2)"
    and e: "classify_effective an (drop start (seg_words seg)) cmd acc2 = Some (cmd', fl, acc3)"
    and r: "classify_redirects an fl (seg_redirects seg)
      (segment_risk cmd' fl (f \<and> seg_connector seg = Pipe)) (cl_writes_file cmd') acc3 = Some (risk, writes, acc4)"
    and last: "seg_words seg = [] \<and> seg_redirects seg = [] \<and> acc' = acc4 \<or>
      acc' = acc4\<lparr>acc_commands := acc_commands acc4 @ [segment_command seg d (k < i) start cmd' risk writes]\<rparr>"
  from s assms(2) command_start_direct [OF assms(3,4), of args acc] have i: "i = 0" "acc1 = acc" by auto
  with u assms(2) unwrap_direct [OF assms(3,5)] have st: "start = 0" "cmd = classified_default" "acc2 = acc"
    by auto
  have "risk \<le> cmd_risk (last (acc_commands acc'))" "acc_commands acc' \<noteq> []"
    using last assms(2) segment_command_risk_ge by auto
  moreover have "classify_program an p w args classified_default flow_default acc = Some (cmd', fl, acc3)"
    using e assms(2,3) st by (simp add: classify_effective_def runs_def)
  ultimately show thesis using that r by blast
qed

lemma fetcher_fetches:
  assumes "classify_segment an seg d f acc = Some (fl, acc')"
    and "seg_words seg = w # args" "runs w p" "p \<in> set FETCHERS"
  shows "fl_fetches fl"
proof -
  have p: "p \<notin> set RESERVED" "p \<notin> set WRAPPERS"
    using assms(4) by (auto simp: FETCHERS_def RESERVED_def WRAPPERS_def)
  from assms(1-3) p obtain cmd' acc3 where
    "classify_program an p w args classified_default flow_default acc = Some (cmd', fl, acc3)"
    by (rule classify_segment_direct)
  then show ?thesis
    using assms(4) by (auto simp: classify_program_def FETCHERS_def SHELLS_def is_interpreter_def Let_def)
qed

text \<open>A shell whose options leave it reading commands from standard input.\<close>

definition reads_script_from_stdin :: "sh_word list \<Rightarrow> bool" where
  "reads_script_from_stdin args =
     (case shell_options args 0 False False of
        (index, inline, reads_stdin) \<Rightarrow> \<not> inline \<and> (length args \<le> index \<or> reads_stdin))"

lemma shell_executes_stdin:
  assumes "classify_segment an seg d True acc = Some (fl, acc')" "nested_analysis an e"
    and "seg_words seg = w # args" "runs w p" "p \<in> set SHELLS" "p \<noteq> ''busybox''"
    and "reads_script_from_stdin args" "seg_connector seg = Pipe"
  shows "RemoteCode \<le> cmd_risk (last (acc_commands acc')) \<and> acc_commands acc' \<noteq> []"
proof -
  have p: "p \<notin> set RESERVED" "p \<notin> set WRAPPERS"
    using assms(5) by (auto simp: SHELLS_def RESERVED_def WRAPPERS_def)
  from assms(1,3,4) p obtain cmd' acc3 risk writes acc4 where
    prog: "classify_program an p w args classified_default flow_default acc = Some (cmd', fl, acc3)"
    and r: "classify_redirects an fl (seg_redirects seg)
       (segment_risk cmd' fl (True \<and> seg_connector seg = Pipe)) (cl_writes_file cmd') acc3
     = Some (risk, writes, acc4)"
    and c: "risk \<le> cmd_risk (last (acc_commands acc'))" "acc_commands acc' \<noteq> []"
    by (rule classify_segment_direct)
  from prog assms(5,6) obtain acc5 where
    "classify_shell_invocation an args flow_default acc = Some (fl, acc5)"
    by (auto simp: classify_program_def Let_def bind_eq_Some_conv)
  then have "fl_executes_stdin fl"
    using assms(7)
    by (auto simp: classify_shell_invocation_def reads_script_from_stdin_def get_at_def
        split: prod.splits option.splits if_splits)
  then have "RemoteCode \<le> segment_risk cmd' fl (True \<and> seg_connector seg = Pipe)"
    using assms(8) by (intro segment_risk_ge) simp_all
  also have "\<dots> \<le> risk" using nested_analysis.classify_redirects_ok [OF assms(2) r] by blast
  finally show ?thesis using c by simp
qed

lemma pipeline_keeps_fetch:
  "classify_segments an d True (mid @ e # post) acc = Some acc' \<Longrightarrow>
   list_all (\<lambda>g. seg_connector g = Pipe) (mid @ [e]) \<Longrightarrow>
   \<exists>acc1 fl acc2. classify_segment an e d True acc1 = Some (fl, acc2) \<and>
     classify_segments an d True post acc2 = Some acc'"
proof (induction mid arbitrary: acc)
  case (Cons g mid)
  then show ?case by (fastforce simp: bind_eq_Some_conv)
qed (auto simp: bind_eq_Some_conv)

text \<open>What a pipeline with a fetcher in front of a shell adds to the accumulator.\<close>

lemma fetch_then_shell:
  assumes cls: "classify_segments an d b (pre @ f # mid @ e # post) acc = Some acc'"
    and an: "nested_analysis an (Suc d)" "d \<le> MAX_DEPTH"
    and pipe: "list_all (\<lambda>g. seg_connector g = Pipe) (mid @ [e])"
    and f: "seg_words f = fw # fargs" "runs fw p" "p \<in> set FETCHERS"
    and e: "seg_words e = ew # eargs" "runs ew q" "q \<in> set SHELLS" "q \<noteq> ''busybox''"
      "reads_script_from_stdin eargs"
  shows "\<exists>c \<in> set (acc_commands acc'). RemoteCode \<le> cmd_risk c"
proof -
  from classify_segments_append [OF cls] obtain b1 acc1 where
    "classify_segments an d b1 (f # mid @ e # post) acc1 = Some acc'" by blast
  then obtain b2 fl acc2 where one: "classify_segment an f d b2 acc1 = Some (fl, acc2)"
    and rest: "classify_segments an d (b2 \<or> fl_fetches fl) (mid @ e # post) acc2 = Some acc'"
    by (auto simp: Let_def bind_eq_Some_conv)
  from fetcher_fetches [OF one f] rest have "classify_segments an d True (mid @ e # post) acc2 = Some acc'"
    by simp
  from pipeline_keeps_fetch [OF this pipe] obtain acc3 fl' acc4 where
    shell: "classify_segment an e d True acc3 = Some (fl', acc4)"
    and tail: "classify_segments an d True post acc4 = Some acc'" by blast
  have "seg_connector e = Pipe" using pipe by simp
  from shell_executes_stdin [OF shell an(1) e this]
  have "RemoteCode \<le> cmd_risk (last (acc_commands acc4))" "last (acc_commands acc4) \<in> set (acc_commands acc4)"
    by simp_all
  with grows_commands [OF nested_analysis.classify_segments_grows [OF an(1) tail refl an(2)]]
  show ?thesis by blast
qed

end
