(* ===== verification/ShellLexer_Termination.thy ===== *)
theory ShellLexer_Termination
  imports ShellLexer
begin

section \<open>When the tokenizer returns\<close>

text \<open>
  The main loop of the lexer skips blanks, carriage returns and line feeds, and reads a word at any
  other character; a word stops at every white-space character.  A vertical tab, form feed, U+0085
  or U+00A0 is therefore never consumed.  This theory shows that the loop makes progress at every
  other character, that the fuel of \<open>lex\<close> is enough whenever any fuel is, and that a text without
  those characters is always lexed.
\<close>

definition stalls :: "char \<Rightarrow> bool" where
  "stalls c \<longleftrightarrow> is_whitespace c \<and> c \<notin> set [SPC, TAB, CR, NL]"

subsection \<open>Progress of the main loop\<close>

lemma scan_while_gt: "i < length cs \<Longrightarrow> P (cs ! i) \<Longrightarrow> i < scan_while P cs i"
  using scan_while_ge [of "Suc i" P cs] by (simp add: scan_while.simps [of P cs i])

definition lt_seen :: "lexer \<Rightarrow> bool" where
  "lt_seen st \<longleftrightarrow> CHR ''<'' \<in> set (take (lx_index st) (lx_chars st))"

lemma lt_seen_mono: "keeps st st' \<Longrightarrow> lt_seen st \<Longrightarrow> lt_seen st'"
  unfolding lt_seen_def keeps_def by (metis set_take_subset_set_take subsetD)

text \<open>Any pending heredoc has its operator behind the cursor.\<close>

definition heredoc_inv :: "lexer \<Rightarrow> bool" where
  "heredoc_inv st \<longleftrightarrow> lx_pending st = [] \<or> lt_seen st"

definition settled :: "lexer \<Rightarrow> lexer \<Rightarrow> bool" where
  "settled st st' \<longleftrightarrow> lx_pending st' = lx_pending st \<or> heredoc_inv st'"

lemma heredoc_inv_step: "keeps st st' \<Longrightarrow> settled st st' \<Longrightarrow> heredoc_inv st \<Longrightarrow> heredoc_inv st'"
  by (auto simp: settled_def heredoc_inv_def intro: lt_seen_mono)

lemma settled_same: "lx_pending st' = lx_pending st \<Longrightarrow> settled st st'"
  by (simp add: settled_def)

lemma function_body_keeps: "keeps st (function_body st) \<and> lx_pending (function_body st) = lx_pending st"
proof -
  let ?s = "skip_blank (flag FunctionDefinition st\<lparr>lx_current := (lx_current (flag FunctionDefinition st))\<lparr>seg_words := []\<rparr>\<rparr>)"
  have k: "keeps st ?s" and p: "lx_pending ?s = lx_pending st"
    by (simp_all add: keeps_def skip_blank_def skip_while_def scan_while_ge)
  have nested: "keeps st (snd (read_balanced_into_nested a b (bump 1 ?s)))
      \<and> lx_pending (snd (read_balanced_into_nested a b (bump 1 ?s))) = lx_pending st"
    if "peek ?s 0 = Some c" for a b c
  proof -
    obtain t st1 where r: "read_balanced_into_nested a b (bump 1 ?s) = (t, st1)" by fastforce
    have "keeps (bump 1 ?s) st1 \<and> lx_pending st1 = lx_pending ?s"
      using read_balanced_into_nested_keeps [OF r] that by (simp add: peek_Some)
    with k p r show ?thesis by (auto simp: keeps_def)
  qed
  show ?thesis
    using nested k p by (auto simp: function_body_def Let_def keeps_def)
qed

lemma function_body_at_brace:
  assumes "peek st 0 = Some CHR ''{''"
  shows "advances st (function_body st)"
proof -
  let ?f = "flag FunctionDefinition st\<lparr>lx_current := (lx_current (flag FunctionDefinition st))\<lparr>seg_words := []\<rparr>\<rparr>"
  have ws: "\<not> is_whitespace CHR ''{''" by (simp add: is_whitespace_def code_def)
  have "lx_index (skip_blank ?f) = lx_index st"
    using assms ws
    by (simp add: skip_blank_def skip_while_def scan_while.simps [of is_whitespace "lx_chars st" "lx_index st"] peek_Some)
  moreover have "lx_chars (skip_blank ?f) = lx_chars st"
    by (simp add: skip_blank_def)
  ultimately have p: "peek (skip_blank ?f) 0 = Some CHR ''{''"
    using assms by (simp add: peek_def)
  obtain t st1 where
    r: "read_balanced_into_nested CHR ''{'' CHR ''}'' (bump 1 (skip_blank ?f)) = (t, st1)"
    by fastforce
  have "keeps (bump 1 (skip_blank ?f)) st1"
    using read_balanced_into_nested_keeps [OF r] p by (simp add: peek_Some)
  moreover have "function_body st = st1"
    using p r by (simp add: function_body_def Let_def)
  ultimately show ?thesis
    using \<open>lx_index (skip_blank ?f) = lx_index st\<close> \<open>lx_chars (skip_blank ?f) = lx_chars st\<close>
    by (auto simp: keeps_def advances_def)
qed

lemma open_paren_advances:
  assumes "peek st 0 = Some CHR ''(''"
  shows "advances st (open_paren st) \<and> lx_pending (open_paren st) = lx_pending st"
proof -
  have bound: "lx_index st < length (lx_chars st)" using assms by (simp add: peek_Some)
  consider (fn) "names_function st \<and> next_non_space_after 1 st = Some CHR '')''"
    | (arith) "\<not> (names_function st \<and> next_non_space_after 1 st = Some CHR '')'')"
        "at_command_start st" "peek (bump 1 st) 0 = Some CHR ''(''"
    | (sub) "\<not> (names_function st \<and> next_non_space_after 1 st = Some CHR '')'')"
        "at_command_start st" "peek (bump 1 st) 0 \<noteq> Some CHR ''(''"
    | (bad) "\<not> (names_function st \<and> next_non_space_after 1 st = Some CHR '')'')"
        "\<not> at_command_start st" by blast
  then show ?thesis
  proof cases
    case fn
    let ?s = "bump 1 (skip_while (\<lambda>c. c \<noteq> CHR '')'') (bump 1 st))"
    have "keeps (bump 1 st) (skip_while (\<lambda>c. c \<noteq> CHR '')'') (bump 1 st))"
      by (rule skip_while_keeps)
    then have "advances st ?s" by (auto simp: keeps_def advances_def)
    with fn function_body_keeps [of ?s] show ?thesis
      by (auto simp: open_paren_def keeps_def advances_def)
  next
    case arith
    obtain t st1 where r: "read_balanced_text CHR ''('' CHR '')''
        (bump 1 (flag ArithmeticExpansion (bump 1 st))) = (t, st1)" by fastforce
    have "keeps (bump 1 (flag ArithmeticExpansion (bump 1 st))) st1 \<and> lx_pending st1 = lx_pending st"
      using read_balanced_text_keeps [OF r] arith(3) by (simp add: peek_Some)
    moreover have "open_paren st = skip_char CHR '')'' (skip_char CHR '')'' st1)"
      using arith r unfolding open_paren_def Let_def by (simp only: if_False if_True simp_thms snd_conv)
    ultimately show ?thesis
      using skip_char_twice_keeps [of st1 "CHR '')''" "CHR '')''"]
      by (auto simp: keeps_def advances_def)
  next
    case sub
    obtain t st1 where r: "read_balanced_into_nested CHR ''('' CHR '')''
        (flag Subshell (bump 1 st)) = (t, st1)" by fastforce
    have "keeps (flag Subshell (bump 1 st)) st1 \<and> lx_pending st1 = lx_pending st"
      using read_balanced_into_nested_keeps [OF r] bound by simp
    moreover have "open_paren st = st1"
      using sub r unfolding open_paren_def Let_def by (simp only: if_False if_True simp_thms snd_conv)
    ultimately show ?thesis by (auto simp: keeps_def advances_def)
  next
    case bad
    then have "open_paren st = bump 1 (flag UnbalancedNesting st)"
      unfolding open_paren_def by (simp only: if_False if_True simp_thms)
    then show ?thesis by (simp add: advances_def)
  qed
qed

lemma process_substitution_advances:
  assumes "peek st 1 = Some CHR ''(''"
  shows "advances st (process_substitution st)
    \<and> lx_pending (process_substitution st) = lx_pending st"
proof -
  obtain t st1 where r: "read_balanced_into_nested CHR ''('' CHR '')''
      (flag ProcessSubstitution (bump 2 st)) = (t, st1)" by fastforce
  have "keeps (flag ProcessSubstitution (bump 2 st)) st1 \<and> lx_pending st1 = lx_pending st"
    using read_balanced_into_nested_keeps [OF r] assms by (simp add: peek_Some)
  with r show ?thesis
    by (auto simp: process_substitution_def keeps_def advances_def)
qed

lemma push_redirect_keeps:
  assumes "push_redirect lx kind st = Some st'"
  shows "keeps st st' \<and> lx_pending st' = lx_pending st"
proof -
  let ?s = "skip_inline_blank st"
  have k: "keeps st ?s" and p: "lx_pending ?s = lx_pending st"
    by (simp_all add: skip_inline_blank_def skip_while_keeps)
  consider "st' = flag UnbalancedNesting ?s"
    | w st1 r where "read_word lx ?s = Some (w, st1)" "st' = add_redirect r st1"
    using assms by (auto simp: push_redirect_def Let_def bind_eq_Some_conv split: if_splits)
  then show ?thesis
    by cases (use k p read_word_keeps in \<open>fastforce simp: keeps_def\<close>)+
qed

lemma heredoc_keeps:
  assumes "heredoc lx st = Some st'"
  shows "keeps st st'"
proof -
  let ?s = "skip_inline_blank (if peek st 0 = Some CHR ''-'' then bump 1 st else st)"
  have k: "keeps st ?s"
    using skip_while_keeps [of st] skip_while_keeps [of "bump 1 st"]
    by (auto simp: skip_inline_blank_def keeps_def dest: Suc_leD)
  obtain w st1 where "read_word lx ?s = Some (w, st1)"
    and "lx_chars st' = lx_chars st1" "lx_index st' = lx_index st1"
    using assms by (auto simp: heredoc_def Let_def bind_eq_Some_conv)
  with k read_word_keeps [of lx ?s w st1] show ?thesis by (auto simp: keeps_def)
qed

lemma redirect_operator_cases:
  "redirect_operator c d e = (kind, n) \<Longrightarrow> 0 < n \<and> (kind = HeredocRedirect \<longrightarrow> c = Some CHR ''<'')"
  by (auto simp: redirect_operator_def split: if_splits)

lemma redirect_at_advances:
  assumes "redirect_at lx st = Some st'"
  shows "advances st st' \<and> settled st st'"
proof -
  obtain kind n where op: "redirect_operator (peek st 0) (peek st 1) (peek st 2) = (kind, n)"
    by fastforce
  note pos = redirect_operator_cases [OF op]
  show ?thesis
  proof (cases "kind = HeredocRedirect")
    case True
    with assms op have h: "heredoc lx (bump n st) = Some st'"
      by (simp add: redirect_at_def)
    have "peek st 0 = Some CHR ''<''" using pos True by simp
    then have "lt_seen (bump n st)"
      using pos by (auto simp: lt_seen_def peek_Some in_set_conv_nth intro!: exI [of _ "lx_index st"])
    with heredoc_keeps [OF h] have "lt_seen st'" by (rule lt_seen_mono)
    with heredoc_keeps [OF h] pos show ?thesis
      by (auto simp: keeps_def advances_def settled_def heredoc_inv_def)
  next
    case False
    with assms op have "push_redirect lx kind (bump n st) = Some st'"
      by (simp add: redirect_at_def)
    from push_redirect_keeps [OF this] pos show ?thesis
      by (auto simp: keeps_def advances_def settled_def)
  qed
qed


lemma heredoc_lines_ge: "heredoc_lines cs d b i body = (t, j, e) \<Longrightarrow> i \<le> j"
proof (induction cs d b i body arbitrary: t j e rule: heredoc_lines.induct)
  case (1 cs d b i body)
  let ?e = "scan_while (\<lambda>c. c \<noteq> NL) cs i"
  show ?case
    using "1.prems" "1.IH" [OF _ refl refl refl refl] scan_while_ge [of i "\<lambda>c. c \<noteq> NL" cs]
    by (fastforce simp: heredoc_lines.simps [of cs d b i body] Let_def split: if_splits)
qed

lemma set_heredoc_body_frame [simp]:
  "lx_chars (set_heredoc_body s r body st) = lx_chars st"
  "lx_index (set_heredoc_body s r body st) = lx_index st"
  "lx_pending (set_heredoc_body s r body st) = lx_pending st"
  by (simp_all add: set_heredoc_body_def Let_def)

lemma read_heredoc_keeps:
  assumes "read_heredoc lx p st = Some st'"
  shows "keeps st st' \<and> lx_pending st' = lx_pending st"
proof -
  obtain t i b where l: "heredoc_lines (lx_chars st) (hd_delimiter p) (hd_strip_tabs p) (lx_index st) [] = (t, i, b)"
    using prod_cases3 by blast
  from assms heredoc_lines_ge [OF l] show ?thesis
    by (auto simp: read_heredoc_def l Let_def bind_eq_Some_conv keeps_def
        split: if_splits dest!: scan_expansions_keeps)
qed

lemma read_heredocs_keeps:
  "read_heredocs lx ps st = Some st' \<Longrightarrow> keeps st st' \<and> lx_pending st' = lx_pending st"
proof (induction ps arbitrary: st)
  case (Cons p ps)
  then obtain st1 where "read_heredoc lx p st = Some st1" "read_heredocs lx ps st1 = Some st'"
    by (auto simp: bind_eq_Some_conv)
  with read_heredoc_keeps Cons.IH show ?case by (metis keeps_trans)
qed simp

text \<open>What one turn of the main loop keeps, and that it consumes input unless its character stalls.\<close>

definition step_ok :: "char \<Rightarrow> lexer \<Rightarrow> lexer \<Rightarrow> bool" where
  "step_ok c st st' \<longleftrightarrow> keeps st st' \<and> settled st st' \<and> (\<not> stalls c \<longrightarrow> advances st st')"

lemma step_okI: "advances st st' \<Longrightarrow> lx_pending st' = lx_pending st \<Longrightarrow> step_ok c st st'"
  by (simp add: step_ok_def advances_keeps settled_def)

lemma skip_comment_ok:
  "peek st 0 = Some CHR ''#'' \<Longrightarrow> step_ok c st (skip_comment st)"
  using scan_while_gt [of "lx_index st" "lx_chars st" "\<lambda>c. c \<noteq> NL"]
  by (auto intro!: step_okI simp: skip_comment_def advances_def skip_while_def peek_Some)

lemma run_semicolon_ok: "step_ok c st (run_semicolon st)"
  by (rule step_okI) (auto simp: run_semicolon_def advances_def)

lemma run_bar_ok: "step_ok c st (run_bar st)"
  by (rule step_okI) (auto simp: run_bar_def advances_def)

lemma run_ampersand_ok: "run_ampersand lx st = Some st' \<Longrightarrow> step_ok c st st'"
  by (rule step_okI)
    (auto simp: run_ampersand_def Let_def keeps_def advances_def split: if_splits
      dest!: push_redirect_keeps)

lemma read_plain_word_ok:
  assumes "peek st 0 = Some c" "\<not> is_operator_start c" "c \<notin> set [SPC, TAB, CR, NL]"
    and "read_plain_word lx st = Some st'"
  shows "step_ok c st st'"
proof -
  obtain w st1 where r: "read_word lx st = Some (w, st1)" and st': "st' = push_word w st1"
    using assms by (auto simp: read_plain_word_def bind_eq_Some_conv)
  have "advances st st1" if "\<not> stalls c"
    using read_word_advances [OF assms(1) _ assms(2) r] assms(3) that by (auto simp: stalls_def)
  with read_word_keeps [OF r] st' show ?thesis
    by (auto simp: step_ok_def settled_def keeps_def advances_def)
qed

lemma redirect_at_ok:
  "redirect_at lx st1 = Some st' \<Longrightarrow> keeps st st1 \<Longrightarrow> lx_pending st1 = lx_pending st \<Longrightarrow> step_ok c st st'"
  by (auto dest!: redirect_at_advances simp: step_ok_def settled_def keeps_def advances_def)

lemma read_pending_heredocs_ok:
  assumes "read_pending_heredocs lx (finish_segment k (bump 1 st)) = Some st'"
  shows "step_ok c st st'"
  using read_heredocs_keeps [OF assms [unfolded read_pending_heredocs_def]]
  by (auto simp: step_ok_def settled_def heredoc_inv_def keeps_def advances_def)

lemma group_ok:
  assumes "peek st 0 = Some d"
  shows "step_ok c st (snd (read_balanced_into_nested a b (flag g (bump 1 st))))"
proof -
  obtain t st1 where r: "read_balanced_into_nested a b (flag g (bump 1 st)) = (t, st1)" by fastforce
  have "keeps (flag g (bump 1 st)) st1 \<and> lx_pending st1 = lx_pending st"
    using read_balanced_into_nested_keeps [OF r] assms by (simp add: peek_Some)
  with r show ?thesis by (auto intro!: step_okI simp: keeps_def advances_def)
qed

lemma bump_ok: "0 < n \<Longrightarrow> step_ok c st (bump n st)"
  by (rule step_okI) (auto simp: advances_def)

lemma bump_flag_ok: "step_ok c st (bump 1 (flag g st))"
  "step_ok c st (finish_segment k (bump 1 (flag g st)))"
  by (rule step_okI; simp add: advances_def)+

lemma run_step_ok':
  assumes c: "peek st 0 = Some c"
  shows "pred_option (step_ok c st) (run_step lx c st)"
  unfolding run_step_def
proof (intro pred_option_if, goal_cases)
  case 3
  show ?case by (rule pred_optionI) (rule read_pending_heredocs_ok)
next
  case 4
  then show ?case using skip_comment_ok c by simp
next
  case 7
  show ?case by (rule pred_optionI) (rule run_ampersand_ok)
next
  case 9
  then show ?case using process_substitution_advances by (simp add: step_okI)
next
  case 10
  show ?case by (rule pred_optionI) (erule redirect_at_ok, simp_all)
next
  case 11
  show ?case by (rule pred_optionI) (erule redirect_at_ok, simp_all add: skip_while_keeps)
next
  case 12
  then show ?case using open_paren_advances c by (simp add: step_okI)
next
  case 14
  then show ?case using function_body_at_brace function_body_keeps c by (simp add: step_okI)
next
  case 15
  then show ?case using group_ok [OF c, of c _ _ Group] by simp
next
  case 17
  then have "\<not> is_operator_start c" "c \<notin> set [SPC, TAB, CR, NL]"
    by (auto simp: is_operator_start_def)
  then show ?case by (intro pred_optionI) (rule read_plain_word_ok [OF c])
qed (simp_all add: bump_ok run_semicolon_ok run_bar_ok bump_flag_ok [unfolded One_nat_def])

lemma run_step_ok:
  "peek st 0 = Some c \<Longrightarrow> run_step lx c st = Some st' \<Longrightarrow> step_ok c st st'"
  using run_step_ok' [of st c lx] by simp

text \<open>A stalled state is never left; elsewhere one turn per character is enough.\<close>

lemma run_step_stalled:
  assumes "peek st 0 = Some c" and "stalls c"
  shows "run_step lx c st = Some (push_word word_default st)"
proof -
  from assms(2) have ws: "is_whitespace c" and nb: "c \<notin> set [SPC, TAB, CR, NL]"
    by (auto simp: stalls_def)
  from ws have "c \<notin> set ''#;&|<>(){}'' \<and> c \<noteq> BSL \<and> \<not> is_ascii_digit c"
    by (auto simp: is_whitespace_def is_ascii_digit_def code_def)
  with nb have "run_step lx c st = read_plain_word lx st" by (simp add: run_step_def)
  also have "\<dots> = Some (push_word word_default st)"
    using assms(1) ws by (simp add: read_plain_word_def read_word_def read_word_loop.simps [of lx st])
  finally show ?thesis .
qed

lemma peek_push_word [simp]: "peek (push_word w st) k = peek st k"
  by (simp add: peek_def)

lemma run_stalled: "peek st 0 = Some c \<Longrightarrow> stalls c \<Longrightarrow> run k lx st = None"
proof (induction k arbitrary: st)
  case (Suc k)
  then show ?case
    using Suc.IH [of "push_word word_default st"]
    by (simp add: run.simps [of "Suc k"] run_step_stalled)
qed (simp add: run.simps)

lemma run_fuel_enough:
  "run k lx st = Some r \<Longrightarrow> length (lx_chars st) \<le> lx_index st + k' \<Longrightarrow> run k' lx st = Some r"
proof (induction k arbitrary: st k')
  case 0
  then show ?case by (simp add: run.simps split: option.splits)
next
  case (Suc k)
  show ?case
  proof (cases "peek st 0")
    case None
    with Suc.prems show ?thesis by (simp add: run.simps)
  next
    case (Some c)
    with Suc.prems obtain st1 where step: "run_step lx c st = Some st1"
      and rest: "run k lx st1 = Some r"
      by (auto simp: run.simps [of "Suc k"] bind_eq_Some_conv)
    have "\<not> stalls c" using run_stalled [OF Some] Suc.prems(1) by auto
    with run_step_ok [OF Some step] have adv: "advances st st1" by (simp add: step_ok_def)
    from Some Suc.prems(2) obtain k1 where k1: "k' = Suc k1"
      by (cases k') (auto simp: peek_Some)
    with adv Suc.prems(2) have "run k1 lx st1 = Some r"
      by (intro Suc.IH [OF rest]) (auto simp: advances_def)
    with Some step k1 show ?thesis by (simp add: run.simps [of "Suc k1"])
  qed
qed

subsection \<open>The nested texts are smaller\<close>

text \<open>
  \<open>below a b\<close>: \<open>b\<close> returns what \<open>a\<close> returns, if \<open>a\<close> returns at all.  \<open>subtext cs t\<close>: \<open>t\<close> is built from
  characters of \<open>cs\<close> (and line feeds) and weighs less.
\<close>

definition below :: "'a option \<Rightarrow> 'a option \<Rightarrow> bool" where
  "below a b \<longleftrightarrow> a = None \<or> a = b"

lemma below_refl [simp, intro]: "below a a" "below None a"
  by (simp_all add: below_def)

lemma below_Some: "below a b \<Longrightarrow> a = Some r \<Longrightarrow> b = Some r"
  by (auto simp: below_def)

lemma below_bind:
  "below a b \<Longrightarrow> (\<And>x. a = Some x \<Longrightarrow> below (f x) (g x)) \<Longrightarrow> below (a \<bind> f) (b \<bind> g)"
  by (cases a) (auto simp: below_def)

lemma below_if:
  "(P \<Longrightarrow> below a b) \<Longrightarrow> (\<not> P \<Longrightarrow> below c d) \<Longrightarrow> below (if P then a else c) (if P then b else d)"
  by simp

definition subtext :: "str \<Rightarrow> str \<Rightarrow> bool" where
  "subtext cs t \<longleftrightarrow> lex_weight t < lex_weight cs \<and> set t \<subseteq> insert NL (set cs)"

definition agrees :: "str \<Rightarrow> sublexer \<Rightarrow> sublexer \<Rightarrow> bool" where
  "agrees cs lx lx' \<longleftrightarrow> (\<forall>t. subtext cs t \<longrightarrow> below (lx (dq_source t)) (lx' (dq_source t)))"

lemma scan_expansions_below:
  "agrees cs lx lx' \<Longrightarrow> subtext cs t \<Longrightarrow> below (scan_expansions lx t st) (scan_expansions lx' t st)"
  unfolding scan_expansions_def lex_double_quoted_def
  by (rule below_bind) (auto simp: agrees_def)

lemma count_list_seen: "x \<in> set (take i cs) \<Longrightarrow> count_list (drop i cs) x < count_list cs x"
  using count_list_append [of "take i cs" "drop i cs" x]
  by (simp add: count_list_0_iff zero_less_iff_neq_zero)

lemma subtext_slice:
  assumes "CHR ''{'' \<in> set (take i cs)"
  shows "subtext cs (slice i j cs)"
  using count_list_seen [OF assms] count_list_slice_le [of i j cs "CHR ''{''"]
    count_list_slice_le [of i j cs "CHR ''<''"] count_list_drop_le [of i cs "CHR ''<''"]
    set_slice [of i j cs]
  by (auto simp: subtext_def lex_weight_def)

lemma read_balanced_text_slice:
  assumes "read_balanced_text opn cls st = (t, st')"
  shows "\<exists>i j. t = slice i j (lx_chars st) \<and> (t \<noteq> [] \<longrightarrow> i = lx_index st)"
proof -
  obtain i b where ib: "balanced_loop opn cls (lx_chars st) (lx_index st) 1 = (i, b)" by fastforce
  have "t = slice (lx_index st) (min i (length (lx_chars st))) (lx_chars st)"
    if "t \<noteq> []"
    using assms that ib balanced_loop_bounds [OF ib]
    by (auto simp: read_balanced_text_def Let_def slice_def min_def split: if_splits)
  moreover have "[] = slice 0 0 (lx_chars st)" by (simp add: slice_def)
  ultimately show ?thesis by (cases "t = []") blast+
qed

lemma subtext_braced:
  assumes "peek st 0 = Some CHR ''{''"
    and "read_balanced_text CHR ''{'' CHR ''}'' (bump 1 st) = (t, st')"
  shows "subtext (lx_chars st) t"
proof -
  from read_balanced_text_slice [OF assms(2)] obtain i j where
    t: "t = slice i j (lx_chars st)" "t \<noteq> [] \<longrightarrow> i = Suc (lx_index st)" by auto
  have brace: "CHR ''{'' \<in> set (take (Suc (lx_index st)) (lx_chars st))"
    using assms(1) by (auto simp: peek_Some take_Suc_conv_app_nth)
  show ?thesis
  proof (cases "t = []")
    case True
    moreover have "0 < count_list (lx_chars st) CHR ''{''"
      using brace by (auto simp: zero_less_iff_neq_zero count_list_0_iff dest: in_set_takeD)
    ultimately show ?thesis by (simp add: subtext_def lex_weight_def)
  qed (use t subtext_slice [OF brace] in auto)
qed

lemma heredoc_lines_text:
  "heredoc_lines cs d b i body = (t, j, e) \<Longrightarrow>
     set t \<subseteq> set body \<union> insert NL (set cs) \<and>
     (x \<noteq> NL \<longrightarrow> count_list t x \<le> count_list body x + count_list (drop i cs) x)"
proof (induction cs d b i body arbitrary: t j e rule: heredoc_lines.induct)
  case (1 cs d b i body)
  let ?e = "scan_while (\<lambda>c. c \<noteq> NL) cs i"
  let ?i = "if peek_at cs ?e = Some NL then ?e + 1 else ?e"
  note unfold = heredoc_lines.simps [of cs d b i body]
  show ?case
  proof (cases "i < length cs \<and> (if b then dropWhile (\<lambda>c. c = TAB) (slice i ?e cs) else slice i ?e cs) \<noteq> d")
    case True
    then have rest: "heredoc_lines cs d b ?i (body @ slice i ?e cs @ [NL]) = (t, j, e)"
      using "1.prems" by (simp add: unfold Let_def)
    have "drop i cs = slice i ?e cs @ drop ?e cs"
      using scan_while_ge [of i "\<lambda>c. c \<noteq> NL" cs]
      by (metis append_take_drop_id drop_drop le_add_diff_inverse2 slice_def)
    moreover have "count_list (drop ?i cs) x \<le> count_list (drop ?e cs) x"
      using count_list_drop_le [of 1 "drop ?e cs" x] by (simp add: drop_drop)
    ultimately show ?thesis
      using "1.IH" [OF _ refl refl refl refl _ rest] True set_slice [of i ?e cs] by auto
  qed (use "1.prems" in \<open>auto simp: unfold Let_def split: if_splits\<close>)
qed

lemma subtext_heredoc:
  assumes "lt_seen st"
    and l: "heredoc_lines (lx_chars st) d b (lx_index st) [] = (t, j, e)"
  shows "subtext (lx_chars st) t"
  using heredoc_lines_text [OF l, of "CHR ''<''"] heredoc_lines_text [OF l, of "CHR ''{''"]
    count_list_seen [OF assms(1) [unfolded lt_seen_def]]
    count_list_drop_le [of "lx_index st" "lx_chars st" "CHR ''{''"]
  by (auto simp: subtext_def lex_weight_def)

subsection \<open>The readers depend on the recursive lexer only through smaller texts\<close>

lemma read_dollar_with_below:
  assumes ag: "agrees (lx_chars st) lx lx'"
    and rdq: "\<And>w st'. lx_chars st' = lx_chars st \<Longrightarrow> \<not> q \<Longrightarrow> below (rdq w st') (rdq' w st')"
  shows "below (read_dollar_with rdq lx w q st) (read_dollar_with rdq' lx' w q st)"
proof (cases "peek (bump 1 st) 0")
  case None
  then show ?thesis by (simp add: read_dollar_with_def)
next
  case (Some c)
  show ?thesis
  proof (cases "c = CHR ''{''")
    case True
    obtain t st1 where r: "read_balanced_text CHR ''{'' CHR ''}'' (bump 1 (bump 1 st)) = (t, st1)"
      by fastforce
    have "subtext (lx_chars st) t"
      using subtext_braced [OF _ r] Some True by simp
    with True Some r show ?thesis
      by (auto simp: read_dollar_with_def Let_def intro!: below_bind scan_expansions_below [OF ag])
  next
    case False
    with Some rdq show ?thesis
      by (auto simp: read_dollar_with_def Let_def split: prod.splits)
  qed
qed

lemma read_double_quoted_below:
  "agrees (lx_chars st) lx lx' \<Longrightarrow> below (read_double_quoted lx w st) (read_double_quoted lx' w st)"
proof (induction lx w st rule: read_double_quoted.induct)
  case (1 lx w st)
  note unfold = read_double_quoted.simps [of lx w st] read_double_quoted.simps [of lx' w st]
  show ?case
  proof (cases "peek st 0")
    case (Some c)
    note ih = "1.IH" [OF Some]
    consider "c = DQ" | (esc) "c = BSL" | (dollar) "c = DOLLAR" | (tick) "c = BTICK"
      | (plain) "c \<notin> {DQ, BSL, DOLLAR, BTICK}" by blast
    then show ?thesis
    proof cases
      case esc
      with Some ih(1-4) "1.prems" show ?thesis
        by (auto simp: unfold split: option.splits)
    next
      case dollar
      have b: "below (read_dollar_in_quotes lx w st) (read_dollar_in_quotes lx' w st)"
        unfolding read_dollar_in_quotes_def by (rule read_dollar_with_below [OF "1.prems"]) simp
      show ?thesis
      proof (cases "read_dollar_in_quotes lx w st")
        case None
        with dollar Some show ?thesis by (simp add: unfold)
      next
        fix p assume p: "read_dollar_in_quotes lx w st = Some p"
        obtain w1 st1 where [simp]: "p = (w1, st1)" by fastforce
        have "agrees (lx_chars st1) lx lx'"
          using "1.prems" read_dollar_in_quotes_advances [of lx w st w1 st1] p
          by (simp add: advances_def)
        then have "below (read_double_quoted lx w1 st1) (read_double_quoted lx' w1 st1)"
          using ih(5) [OF _ _ dollar p] dollar by simp
        with dollar Some p below_Some [OF b p] show ?thesis by (simp add: unfold)
      qed
    next
      case tick
      obtain w1 st1 where r: "read_backtick w st = (w1, st1)" by fastforce
      have "agrees (lx_chars st1) lx lx'"
        using "1.prems" read_backtick_advances [OF r] by (simp add: advances_def)
      with ih(6) [OF _ _ _ tick r [symmetric]] tick Some r show ?thesis
        by (simp add: unfold)
    next
      case plain
      with Some ih(7) "1.prems" show ?thesis by (simp add: unfold)
    qed (use Some in \<open>simp add: unfold\<close>)
  qed (simp add: unfold)
qed

lemma read_word_step_below:
  assumes ag: "agrees (lx_chars st) lx lx'"
  shows "below (read_word_step lx c st w np) (read_word_step lx' c st w np)"
proof -
  have "below (read_double_quoted lx w (bump 1 st)) (read_double_quoted lx' w (bump 1 st))" for w
    by (rule read_double_quoted_below) (simp add: ag)
  moreover have "below (read_dollar lx w False st) (read_dollar lx' w False st)"
    unfolding read_dollar_def
    by (rule read_dollar_with_below [OF ag]) (simp add: read_double_quoted_below ag)
  ultimately show ?thesis
    unfolding read_word_step_def by (intro below_if below_bind) auto
qed

lemma read_word_loop_below:
  "agrees (lx_chars st) lx lx' \<Longrightarrow> below (read_word_loop lx st w np) (read_word_loop lx' st w np)"
proof (induction lx st w np rule: read_word_loop.induct)
  case (1 lx st w np)
  note unfold = read_word_loop.simps [of lx st w np] read_word_loop.simps [of lx' st w np]
  show ?case
  proof (cases "peek st 0")
    case (Some c)
    show ?thesis
    proof (cases "is_whitespace c \<or> is_operator_start c")
      case False
      note b = read_word_step_below [OF "1.prems", of c w np]
      show ?thesis
      proof (cases "read_word_step lx c st w np")
        case None
        with Some False show ?thesis by (simp add: unfold)
      next
        fix p assume p: "read_word_step lx c st w np = Some p"
        obtain st1 w1 np1 where [simp]: "p = (st1, w1, np1)" by (metis prod_cases3)
        have "agrees (lx_chars st1) lx lx'"
          using "1.prems" read_word_step_advances [of lx c st w np st1 w1 np1] p
          by (simp add: advances_def)
        then have "below (read_word_loop lx st1 w1 np1) (read_word_loop lx' st1 w1 np1)"
          using "1.IH" [OF Some _ _ p] False by simp
        with Some False p below_Some [OF b p] show ?thesis by (simp add: unfold)
      qed
    qed (use Some in \<open>auto simp: unfold\<close>)
  qed (simp add: unfold)
qed

lemma read_word_below:
  "agrees (lx_chars st) lx lx' \<Longrightarrow> below (read_word lx st) (read_word lx' st)"
  unfolding read_word_def by (rule read_word_loop_below)

lemma push_redirect_below:
  assumes "agrees (lx_chars st) lx lx'"
  shows "below (push_redirect lx kind st) (push_redirect lx' kind st)"
  unfolding push_redirect_def Let_def using assms
  by (auto intro!: below_if below_bind read_word_below simp: skip_inline_blank_def)

lemma heredoc_below:
  assumes "agrees (lx_chars st) lx lx'"
  shows "below (heredoc lx st) (heredoc lx' st)"
  unfolding heredoc_def Let_def using assms
  by (auto intro!: below_bind read_word_below simp: skip_inline_blank_def)

lemma redirect_at_below:
  "agrees (lx_chars st) lx lx' \<Longrightarrow> below (redirect_at lx st) (redirect_at lx' st)"
  unfolding redirect_at_def Let_def
  by (auto intro!: heredoc_below push_redirect_below split: prod.splits)

lemma read_heredoc_below:
  assumes ag: "agrees (lx_chars st) lx lx'" and seen: "lt_seen st"
  shows "below (read_heredoc lx p st) (read_heredoc lx' p st)"
proof -
  obtain t j e where l:
    "heredoc_lines (lx_chars st) (hd_delimiter p) (hd_strip_tabs p) (lx_index st) [] = (t, j, e)"
    using prod_cases3 by blast
  note smaller = subtext_heredoc [OF seen l]
  show ?thesis
    unfolding read_heredoc_def l Let_def prod.case
    by (intro below_bind below_if scan_expansions_below [OF ag smaller]) auto
qed

lemma read_heredocs_below:
  "agrees (lx_chars st) lx lx' \<Longrightarrow> ps \<noteq> [] \<longrightarrow> lt_seen st \<Longrightarrow>
     below (read_heredocs lx ps st) (read_heredocs lx' ps st)"
proof (induction ps arbitrary: st)
  case (Cons p ps)
  have "below (read_heredocs lx ps st1) (read_heredocs lx' ps st1)"
    if "read_heredoc lx p st = Some st1" for st1
  proof (rule Cons.IH)
    note k = read_heredoc_keeps [OF that]
    show "agrees (lx_chars st1) lx lx'" using k Cons.prems(1) by (simp add: keeps_def)
    show "ps \<noteq> [] \<longrightarrow> lt_seen st1" using k Cons.prems(2) lt_seen_mono by blast
  qed
  with Cons.prems show ?case by (auto intro!: below_bind read_heredoc_below)
qed simp

lemma run_step_below:
  assumes ag: "agrees (lx_chars st) lx lx'" and inv: "heredoc_inv st"
  shows "below (run_step lx c st) (run_step lx' c st)"
proof -
  have "below (read_pending_heredocs lx (finish_segment k (bump 1 st)))
      (read_pending_heredocs lx' (finish_segment k (bump 1 st)))" for k
    unfolding read_pending_heredocs_def
  proof (rule read_heredocs_below)
    have "lt_seen st \<Longrightarrow> lt_seen (finish_segment k (bump 1 st)\<lparr>lx_pending := []\<rparr>)"
      by (rule lt_seen_mono [of st]) (simp_all add: keeps_def)
    with inv show "lx_pending (finish_segment k (bump 1 st)) \<noteq> [] \<longrightarrow>
        lt_seen (finish_segment k (bump 1 st)\<lparr>lx_pending := []\<rparr>)"
      by (auto simp: heredoc_inv_def)
  qed (simp add: ag)
  moreover have "below (run_ampersand lx st) (run_ampersand lx' st)"
    unfolding run_ampersand_def Let_def by (intro below_if push_redirect_below) (simp_all add: ag)
  moreover have "below (read_plain_word lx st) (read_plain_word lx' st)"
    unfolding read_plain_word_def by (auto intro!: below_bind read_word_below ag)
  ultimately show ?thesis
    unfolding run_step_def by (intro below_if redirect_at_below) (simp_all add: ag)
qed

lemma run_below:
  "agrees (lx_chars st) lx lx' \<Longrightarrow> heredoc_inv st \<Longrightarrow> below (run k lx st) (run k lx' st)"
proof (induction k arbitrary: st)
  case (Suc k)
  have "below (run k lx st1) (run k lx' st1)"
    if "peek st 0 = Some c" "run_step lx c st = Some st1" for c st1
  proof (rule Suc.IH)
    note ok = run_step_ok [OF that]
    show "agrees (lx_chars st1) lx lx'" using ok Suc.prems(1) by (simp add: step_ok_def keeps_def)
    show "heredoc_inv st1" using ok Suc.prems(2) heredoc_inv_step unfolding step_ok_def by blast
  qed
  with Suc.prems show ?case
    by (auto simp: run.simps [of "Suc k"] intro!: below_bind run_step_below split: option.splits)
qed (simp add: run.simps split: option.splits)

subsection \<open>The fuel of \<open>lex\<close>\<close>

lemma lex_weight_dq_source [simp]: "lex_weight (dq_source t) = lex_weight t"
proof -
  have "count_list (concat (map (\<lambda>c. if c = DQ then [BSL, c] else [c]) t)) x = count_list t x"
    if "x \<noteq> BSL" for x
    using that by (induction t) auto
  then show ?thesis by (simp add: lex_weight_def dq_source_def count_list_append)
qed

lemma lex_fuel_enough:
  "lex_fuel d k s = Some r \<Longrightarrow> lex_weight s < d' \<Longrightarrow> lex_fuel d' k' s = Some r"
proof (induction d arbitrary: s d' r)
  case (Suc d)
  from Suc.prems(2) obtain d1 where d': "d' = Suc d1" "lex_weight s \<le> d1" by (cases d') auto
  from Suc.prems(1) obtain st where st: "run (length s + k) (lex_fuel d k) (new_lexer s) = Some st"
    and r: "r = lx_out st" by auto
  have "agrees s (lex_fuel d k) (lex_fuel d1 k')"
    unfolding agrees_def
  proof (intro allI impI)
    fix t assume "subtext s t"
    then have "lex_weight (dq_source t) < d1" using d'(2) by (simp add: subtext_def)
    with Suc.IH [of "dq_source t" _ d1] show "below (lex_fuel d k (dq_source t)) (lex_fuel d1 k' (dq_source t))"
      by (cases "lex_fuel d k (dq_source t)") auto
  qed
  then have "run (length s + k) (lex_fuel d1 k') (new_lexer s) = Some st"
    by (intro below_Some [OF run_below st]) (simp_all add: new_lexer_def heredoc_inv_def)
  then have "run (length s + k') (lex_fuel d1 k') (new_lexer s) = Some st"
    by (rule run_fuel_enough) (simp add: new_lexer_def)
  then show ?case by (simp add: d' r)
qed simp

subsection \<open>Texts that are always lexed\<close>

definition lexes_all :: "sublexer \<Rightarrow> bool" where
  "lexes_all lx \<longleftrightarrow> (\<forall>t. lx t \<noteq> None)"

lemma bind_not_None: "a \<noteq> None \<Longrightarrow> (\<And>x. a = Some x \<Longrightarrow> f x \<noteq> None) \<Longrightarrow> a \<bind> f \<noteq> None"
  by (cases a) auto

lemma if_not_None: "(P \<Longrightarrow> a \<noteq> None) \<Longrightarrow> (\<not> P \<Longrightarrow> b \<noteq> None) \<Longrightarrow> (if P then a else b) \<noteq> None"
  by simp

lemma scan_expansions_total: "lexes_all lx \<Longrightarrow> scan_expansions lx t st \<noteq> None"
  unfolding scan_expansions_def lex_double_quoted_def lexes_all_def
  by (intro bind_not_None) auto

lemma read_dollar_with_total:
  assumes "lexes_all lx" and "\<not> q \<longrightarrow> (\<forall>w st. rdq w st \<noteq> None)"
  shows "read_dollar_with rdq lx w q st \<noteq> None"
proof (cases "peek (bump 1 st) 0")
  case None
  then show ?thesis by (simp add: read_dollar_with_def)
next
  case (Some c)
  have "\<exists>st'. scan_expansions lx t s = Some st'" for t s
    using scan_expansions_total [OF assms(1)] by blast
  then show ?thesis
    using assms(2) unfolding read_dollar_with_def Let_def Some option.case
    by (intro if_not_None)
      (auto simp: bind_eq_Some_conv split: prod.splits if_splits)
qed

lemma read_double_quoted_total: "lexes_all lx \<Longrightarrow> read_double_quoted lx w st \<noteq> None"
proof (induction lx w st rule: read_double_quoted.induct)
  case (1 lx w st)
  note unfold = read_double_quoted.simps [of lx w st]
  show ?case
  proof (cases "peek st 0")
    case (Some c)
    note ih = "1.IH" [OF Some]
    consider "c = DQ" | (esc) "c = BSL" | (dollar) "c = DOLLAR" | (tick) "c = BTICK"
      | (plain) "c \<notin> {DQ, BSL, DOLLAR, BTICK}" by blast
    then show ?thesis
    proof cases
      case esc
      show ?thesis
        using Some esc ih(1-4) "1.prems" by (cases "peek (bump 1 st) 0") (auto simp: unfold)
    next
      case dollar
      obtain w1 st1 where "read_dollar_in_quotes lx w st = Some (w1, st1)"
        using read_dollar_with_total [OF "1.prems", of True]
        by (force simp: read_dollar_in_quotes_def)
      with Some dollar ih(5) "1.prems" show ?thesis by (simp add: unfold)
    next
      case tick
      obtain w1 st1 where "read_backtick w st = (w1, st1)" by fastforce
      with Some tick ih(6) "1.prems" show ?thesis by (simp add: unfold)
    next
      case plain
      with Some ih(7) "1.prems" show ?thesis by (simp add: unfold)
    qed (use Some in \<open>simp add: unfold\<close>)
  qed (simp add: unfold)
qed

lemma read_word_step_total:
  assumes "lexes_all lx"
  shows "read_word_step lx c st w np \<noteq> None"
proof -
  have "read_dollar lx w False st \<noteq> None"
    unfolding read_dollar_def
    by (rule read_dollar_with_total [OF assms]) (simp add: read_double_quoted_total [OF assms] del: not_None_eq)
  moreover have "\<exists>st' w'. read_double_quoted lx w s = Some (w', st')" for w s
    using read_double_quoted_total [OF assms] by fastforce
  ultimately show ?thesis
    unfolding read_word_step_def Let_def
    by (intro if_not_None) (auto simp: bind_eq_Some_conv split: option.splits prod.splits)
qed

lemma read_word_loop_total: "lexes_all lx \<Longrightarrow> read_word_loop lx st w np \<noteq> None"
proof (induction lx st w np rule: read_word_loop.induct)
  case (1 lx st w np)
  note unfold = read_word_loop.simps [of lx st w np]
  show ?case
  proof (cases "peek st 0")
    case (Some c)
    obtain st1 w1 np1 where "read_word_step lx c st w np = Some (st1, w1, np1)"
      using read_word_step_total [OF "1.prems"] by (metis not_None_eq prod_cases3)
    with Some "1.IH" "1.prems" show ?thesis by (simp add: unfold)
  qed (simp add: unfold)
qed

lemma read_word_total: "lexes_all lx \<Longrightarrow> read_word lx st \<noteq> None"
  unfolding read_word_def by (rule read_word_loop_total)

lemma push_redirect_total: "lexes_all lx \<Longrightarrow> push_redirect lx kind st \<noteq> None"
  unfolding push_redirect_def Let_def
  by (intro if_not_None bind_not_None read_word_total) auto

lemma heredoc_total: "lexes_all lx \<Longrightarrow> heredoc lx st \<noteq> None"
  unfolding heredoc_def Let_def by (intro bind_not_None read_word_total) auto

lemma redirect_at_total: "lexes_all lx \<Longrightarrow> redirect_at lx st \<noteq> None"
  unfolding redirect_at_def Let_def
  by (cases "redirect_operator (peek st 0) (peek st 1) (peek st 2)")
    (simp del: not_None_eq add: push_redirect_total heredoc_total)

lemma read_heredocs_total: "lexes_all lx \<Longrightarrow> read_heredocs lx ps st \<noteq> None"
proof (induction ps arbitrary: st)
  case (Cons p ps)
  obtain t j e where l:
    "heredoc_lines (lx_chars st) (hd_delimiter p) (hd_strip_tabs p) (lx_index st) [] = (t, j, e)"
    using prod_cases3 by blast
  have "read_heredoc lx p st \<noteq> None"
    unfolding read_heredoc_def l Let_def prod.case
    by (intro bind_not_None if_not_None scan_expansions_total [OF Cons.prems]) auto
  with Cons show ?case by auto
qed simp

lemma run_step_total: "lexes_all lx \<Longrightarrow> run_step lx c st \<noteq> None"
  unfolding run_step_def run_ampersand_def read_plain_word_def read_pending_heredocs_def Let_def
  by (intro if_not_None redirect_at_total push_redirect_total read_heredocs_total bind_not_None
      read_word_total) auto

definition calm :: "str \<Rightarrow> bool" where
  "calm s \<longleftrightarrow> list_all (\<lambda>c. \<not> stalls c) s"

lemma calm_iff: "calm s \<longleftrightarrow> (\<forall>c \<in> set s. \<not> stalls c)"
  by (simp add: calm_def list_all_iff)

lemma run_total:
  assumes tot: "lexes_all lx" and "calm (lx_chars st)"
    and "length (lx_chars st) \<le> lx_index st + k"
  shows "run k lx st \<noteq> None"
  using assms(2,3)
proof (induction k arbitrary: st)
  case 0
  then show ?case by (simp add: run.simps peek_None [THEN iffD2])
next
  case (Suc k)
  show ?case
  proof (cases "peek st 0")
    case (Some c)
    obtain st1 where step: "run_step lx c st = Some st1" using run_step_total [OF tot] by blast
    have "\<not> stalls c" using Some Suc.prems(1) by (auto simp: calm_iff peek_Some)
    then have adv: "advances st st1" using run_step_ok [OF Some step] by (simp add: step_ok_def)
    have "run k lx st1 \<noteq> None"
      by (rule Suc.IH) (use adv Suc.prems in \<open>auto simp: advances_def\<close>)
    with Some step show ?thesis by (simp add: run.simps [of "Suc k"])
  qed (simp add: run.simps)
qed

lemma lex_fuel_total: "calm s \<Longrightarrow> lex_weight s < d \<Longrightarrow> lex_fuel d k s \<noteq> None"
proof (induction d arbitrary: s)
  case (Suc d)
  let ?lx = "\<lambda>t. Some (case lex_fuel d k t of None \<Rightarrow> lexed_default | Some r \<Rightarrow> r)"
  obtain st where st: "run (length s + k) ?lx (new_lexer s) = Some st"
    using run_total [of ?lx "new_lexer s" "length s + k"] Suc.prems(1) by (auto simp: new_lexer_def lexes_all_def)
  have "agrees s ?lx (lex_fuel d k)"
    unfolding agrees_def
  proof (intro allI impI)
    fix t assume t: "subtext s t"
    have "set (dq_source t) \<subseteq> {DQ, BSL, NL} \<union> set s"
      using t by (auto simp: dq_source_def subtext_def split: if_splits)
    moreover have "\<not> stalls DQ" "\<not> stalls BSL" "\<not> stalls NL"
      by (simp_all add: stalls_def is_whitespace_def code_def)
    ultimately have "calm (dq_source t)" using Suc.prems(1) by (auto simp: calm_iff)
    with t Suc.prems(2) have "lex_fuel d k (dq_source t) \<noteq> None"
      by (intro Suc.IH) (auto simp: subtext_def)
    then show "below (?lx (dq_source t)) (lex_fuel d k (dq_source t))" by auto
  qed
  then have "run (length s + k) (lex_fuel d k) (new_lexer s) = Some st"
    by (intro below_Some [OF run_below st]) (simp_all add: new_lexer_def heredoc_inv_def)
  then show ?case by simp
qed simp

end
