(* ===== verification/ShellLexer_Calm.thy ===== *)
theory ShellLexer_Calm
  imports ShellLexer_Termination
begin

section \<open>The texts the tokenizer hands on\<close>

text \<open>
  Every text in the tokenizer's output (words, redirect targets and bodies, nested scripts) is built
  from characters of the source and a few fixed ones, none of which stalls the lexer.  So the texts
  of a calm source are calm, and the nested scripts the classifier lexes again are lexed too.
\<close>

lemma calm_simps [simp]:
  "calm []" "calm (c # s) \<longleftrightarrow> \<not> stalls c \<and> calm s" "calm (s @ t) \<longleftrightarrow> calm s \<and> calm t"
  by (auto simp: calm_def)

lemma calm_subset: "calm s \<Longrightarrow> set t \<subseteq> set s \<Longrightarrow> calm t"
  by (auto simp: calm_iff)

lemma calm_slice: "calm s \<Longrightarrow> calm (slice i j s)"
  by (rule calm_subset [OF _ set_slice])

lemma not_stalls [simp]:
  "\<not> stalls DOLLAR" "\<not> stalls BSL" "\<not> stalls DQ" "\<not> stalls SQ" "\<not> stalls BTICK" "\<not> stalls NL"
  "\<not> stalls SPC" "\<not> stalls CHR ''(''" "\<not> stalls CHR '')''" "\<not> stalls CHR ''{''" "\<not> stalls CHR ''}''"
  "\<not> stalls CHR ''<''" "\<not> stalls CHR ''+''" "\<not> stalls CHR ''=''"
  by (simp_all add: stalls_def is_whitespace_def code_def)

subsection \<open>Calm output\<close>

definition calm_redirect :: "redirect \<Rightarrow> bool" where
  "calm_redirect r \<longleftrightarrow> calm (w_text (rd_target r)) \<and> pred_option calm (rd_body r)"

definition calm_segment :: "raw_segment \<Rightarrow> bool" where
  "calm_segment s \<longleftrightarrow>
     list_all (\<lambda>w. calm (w_text w)) (seg_words s) \<and> list_all calm_redirect (seg_redirects s)"

definition calm_lexed :: "lexed \<Rightarrow> bool" where
  "calm_lexed l \<longleftrightarrow> list_all calm_segment (lexed_segments l) \<and> list_all calm (lexed_nested l)"

definition calm_state :: "lexer \<Rightarrow> bool" where
  "calm_state st \<longleftrightarrow> calm (lx_chars st) \<and> calm_lexed (lx_out st) \<and> calm_segment (lx_current st)"

definition calm_sublexer :: "sublexer \<Rightarrow> bool" where
  "calm_sublexer lx \<longleftrightarrow> (\<forall>t r. calm t \<longrightarrow> lx t = Some r \<longrightarrow> calm_lexed r)"

lemma calm_state_frame [simp]:
  "calm_state (bump n st) = calm_state st" "calm_state (flag c st) = calm_state st"
  "calm_state (skip_while P st) = calm_state st" "calm_state (skip_char d st) = calm_state st"
  "calm_state (st\<lparr>lx_index := i\<rparr>) = calm_state st" "calm_state (st\<lparr>lx_pending := ps\<rparr>) = calm_state st"
  by (simp_all add: calm_state_def calm_lexed_def bump_def flag_def skip_while_def skip_char_def)

lemma calm_state_chars: "calm_state st \<Longrightarrow> calm (lx_chars st)"
  by (simp add: calm_state_def)

lemma calm_push_nested [simp]:
  "calm_state st \<Longrightarrow> list_all calm ts \<Longrightarrow> calm_state (push_nested ts st)"
  by (simp add: calm_state_def calm_lexed_def push_nested_def)

lemma calm_push_word [simp]: "calm_state st \<Longrightarrow> calm (w_text w) \<Longrightarrow> calm_state (push_word w st)"
  by (simp add: calm_state_def calm_segment_def push_word_def)

lemma calm_add_redirect [simp]: "calm_state st \<Longrightarrow> calm_redirect r \<Longrightarrow> calm_state (add_redirect r st)"
  by (simp add: calm_state_def calm_segment_def add_redirect_def)

lemma calm_finish_segment [simp]: "calm_state st \<Longrightarrow> calm_state (finish_segment k st)"
  by (auto simp: calm_state_def calm_segment_def calm_lexed_def finish_segment_def empty_segment_def Let_def)

lemma calm_push_text [simp]: "calm (w_text (push_text t w)) \<longleftrightarrow> calm (w_text w) \<and> calm t"
  by (simp add: push_text_def)

lemma calm_peek: "calm_state st \<Longrightarrow> peek st k = Some c \<Longrightarrow> \<not> stalls c"
  by (auto simp: calm_state_def calm_iff peek_Some)

lemma calm_scan_expansions:
  assumes "calm_sublexer lx" "calm_state st" "calm t" "scan_expansions lx t st = Some st'"
  shows "calm_state st'"
proof -
  have "calm (dq_source t)"
    using assms(3) by (auto simp: dq_source_def calm_iff)
  then show ?thesis
    using assms by (auto simp: scan_expansions_def lex_double_quoted_def bind_eq_Some_conv
        calm_sublexer_def calm_lexed_def)
qed

lemma calm_balanced:
  assumes "calm_state st" "read_balanced_text a b st = (t, st')"
  shows "calm t \<and> calm_state st'"
proof -
  obtain i j where "t = slice i j (lx_chars st)" using read_balanced_text_slice [OF assms(2)] by blast
  with assms show ?thesis
    by (auto simp: read_balanced_text_def Let_def calm_slice [OF calm_state_chars] split: prod.splits if_splits)
qed

lemma calm_balanced_nested:
  assumes "calm_state st" "read_balanced_into_nested a b st = (t, st')"
  shows "calm t \<and> calm_state st'"
  using assms calm_balanced [of st a b]
  by (auto simp: read_balanced_into_nested_def Let_def split: prod.splits)

lemma calm_backtick_loop:
  "calm cs \<Longrightarrow> calm inner \<Longrightarrow> backtick_loop cs i inner = (t, j, b) \<Longrightarrow> calm t"
proof (induction cs i inner arbitrary: t j b rule: backtick_loop.induct)
  case (1 cs i inner)
  note unfold = backtick_loop.simps [of cs i inner]
  have nth: "\<not> stalls (cs ! k)" if "k < length cs" for k using "1.prems"(1) that by (auto simp: calm_iff)
  consider (stop) "\<not> i < length cs \<or> cs ! i = BTICK" | (esc) "i < length cs" "cs ! i = BSL"
    | (plain) "i < length cs" "cs ! i \<noteq> BSL" "cs ! i \<noteq> BTICK" by blast
  then show ?case
  proof cases
    case stop
    with "1.prems" show ?thesis by (auto simp: unfold split: if_splits)
  next
    case esc
    let ?inner = "case peek_at cs (i + 1) of None \<Rightarrow> inner
      | Some nxt \<Rightarrow> inner @ (if nxt \<in> set [BTICK, BSL, DOLLAR] then [] else [BSL]) @ [nxt]"
    have "calm ?inner"
      using "1.prems"(2) nth [of "i + 1"] by (auto simp: peek_at_def)
    moreover have "backtick_loop cs (i + 2) ?inner = (t, j, b)"
      using "1.prems"(3) esc by (simp only: unfold if_True simp_thms)
    ultimately show ?thesis using "1.IH"(1) [OF esc "1.prems"(1)] by blast
  next
    case plain
    have "backtick_loop cs (i + 1) (inner @ [cs ! i]) = (t, j, b)"
      using "1.prems"(3) plain by (simp add: unfold)
    then show ?thesis using "1.IH"(2) [OF plain "1.prems"(1)] "1.prems"(2) nth [OF plain(1)] by simp
  qed
qed

lemma calm_read_backtick:
  assumes "calm_state st" "calm (w_text w)" "read_backtick w st = (w', st')"
  shows "calm (w_text w') \<and> calm_state st'"
  using assms calm_backtick_loop [OF calm_state_chars [OF assms(1)], of "[]"]
  by (auto simp: read_backtick_def Let_def split: prod.splits if_splits)

subsection \<open>Words\<close>

definition calm_pair :: "sh_word \<times> lexer \<Rightarrow> bool" where
  "calm_pair p \<longleftrightarrow> calm (w_text (fst p)) \<and> calm_state (snd p)"

lemma calm_read_dollar_with:
  assumes lx: "calm_sublexer lx" and st: "calm_state st" and w: "calm (w_text w)"
    and rdq: "\<And>w st. calm (w_text w) \<Longrightarrow> calm_state st \<Longrightarrow> pred_option calm_pair (rdq w st)"
  shows "pred_option calm_pair (read_dollar_with rdq lx w q st)"
proof (cases "peek (bump 1 st) 0")
  case None
  with st w show ?thesis by (simp add: read_dollar_with_def calm_pair_def)
next
  case (Some c)
  have c: "\<not> stalls c" using calm_peek [OF _ Some] st by simp
  note slice = calm_slice [OF calm_state_chars [OF st]]
  show ?thesis
    unfolding read_dollar_with_def Let_def Some option.case
  proof (intro pred_option_if, goal_cases)
    case 1
    obtain t st1 where r: "read_balanced_text CHR ''('' CHR '')'' (flag ArithmeticExpansion (bump 2 (bump 1 st))) = (t, st1)"
      by fastforce
    with calm_balanced [OF _ r] st w show ?case by (simp add: calm_pair_def)
  next
    case 2
    obtain t st1 where r: "read_balanced_into_nested CHR ''('' CHR '')'' (flag CommandSubstitution (bump 1 (bump 1 st))) = (t, st1)"
      by fastforce
    with calm_balanced_nested [OF _ r] st w show ?case by (simp add: calm_pair_def)
  next
    case 3
    obtain t st1 where r: "read_balanced_text CHR ''{'' CHR ''}'' (bump 1 (bump 1 st)) = (t, st1)"
      by fastforce
    with calm_balanced [OF _ r] st w have "calm t" "calm_state (skip_char CHR ''}'' st1)" by simp_all
    then show ?case
      using w calm_scan_expansions [OF lx, of "skip_char CHR ''}'' st1" t] unfolding r prod.case
      by (auto intro!: pred_option_bind' simp: calm_pair_def split: if_splits)
  next
    case 4
    then show ?case using st w slice by (simp add: calm_pair_def)
  next
    case 5
    then show ?case using st w rdq by simp
  next
    case 6
    then show ?case using st w slice by (simp add: calm_pair_def)
  qed (use st w c in \<open>simp_all add: calm_pair_def\<close>)
qed

lemma calm_read_double_quoted:
  "calm_sublexer lx \<Longrightarrow> calm_state st \<Longrightarrow> calm (w_text w) \<Longrightarrow> pred_option calm_pair (read_double_quoted lx w st)"
proof (induction lx w st rule: read_double_quoted.induct)
  case (1 lx w st)
  note unfold = read_double_quoted.simps [of lx w st] and pre = "1.prems"
  show ?case
  proof (cases "peek st 0")
    case (Some c)
    note ih = "1.IH" [OF Some]
    have c: "\<not> stalls c" using calm_peek [OF pre(2) Some] .
    consider "c = DQ" | (esc) "c = BSL" | (dollar) "c = DOLLAR" | (tick) "c = BTICK"
      | (plain) "c \<notin> {DQ, BSL, DOLLAR, BTICK}" by blast
    then show ?thesis
    proof cases
      case esc
      show ?thesis
        using Some esc ih(1-4) pre calm_peek [of "bump 1 st" 0]
        by (cases "peek (bump 1 st) 0") (auto simp: unfold)
    next
      case dollar
      have r: "pred_option calm_pair (read_dollar_in_quotes lx w st)"
        unfolding read_dollar_in_quotes_def by (rule calm_read_dollar_with [OF pre]) simp
      show ?thesis
        using Some dollar ih(5) pre(1) r
        by (cases "read_dollar_in_quotes lx w st") (auto simp: unfold calm_pair_def)
    next
      case tick
      obtain w1 st1 where r: "read_backtick w st = (w1, st1)" by fastforce
      with Some tick ih(6) pre(1) calm_read_backtick [OF pre(2,3) r] show ?thesis by (simp add: unfold)
    next
      case plain
      with Some ih(7) pre c show ?thesis by (simp add: unfold)
    qed (use Some pre in \<open>simp add: unfold calm_pair_def\<close>)
  qed (use pre in \<open>simp add: unfold calm_pair_def\<close>)
qed

lemma calm_read_word_step:
  assumes "calm_sublexer lx" "calm_state st" "calm (w_text w)" "\<not> stalls c"
  shows "pred_option (\<lambda>(st', w', np'). calm (w_text w') \<and> calm_state st') (read_word_step lx c st w np)"
  unfolding read_word_step_def Let_def
proof (intro pred_option_if, goal_cases)
  case 1
  then show ?case
    using assms calm_peek [of "bump 1 st" 0] by (auto split: option.splits)
next
  case 2
  then show ?case using assms calm_slice [OF calm_state_chars [OF assms(2)]] by simp
next
  case 3
  have "pred_option calm_pair (read_double_quoted lx (w\<lparr>w_quoted := True\<rparr>) (bump 1 st))"
    by (rule calm_read_double_quoted) (use assms in simp_all)
  then show ?case by (rule pred_option_bind) (auto simp: calm_pair_def)
next
  case 4
  have "pred_option calm_pair (read_dollar lx w False st)"
    unfolding read_dollar_def
    by (rule calm_read_dollar_with [OF assms(1-3)]) (rule calm_read_double_quoted [OF assms(1)])
  then show ?case by (rule pred_option_bind) (auto simp: calm_pair_def)
next
  case 5
  then show ?case using calm_read_backtick [OF assms(2,3)] by (auto split: prod.splits)
qed (use assms in simp_all)

lemma calm_read_word_loop:
  "calm_sublexer lx \<Longrightarrow> calm_state st \<Longrightarrow> calm (w_text w) \<Longrightarrow> pred_option calm_pair (read_word_loop lx st w np)"
proof (induction lx st w np rule: read_word_loop.induct)
  case (1 lx st w np)
  note unfold = read_word_loop.simps [of lx st w np] and pre = "1.prems"
  show ?case
  proof (cases "peek st 0")
    case (Some c)
    have "pred_option (\<lambda>(st', w', np'). calm (w_text w') \<and> calm_state st') (read_word_step lx c st w np)"
      using calm_read_word_step [OF pre calm_peek [OF pre(2) Some]] .
    with Some "1.IH" [OF Some] pre show ?thesis
      by (cases "read_word_step lx c st w np") (auto simp: unfold calm_pair_def)
  qed (use pre in \<open>simp add: unfold calm_pair_def\<close>)
qed

lemma calm_read_word:
  "calm_sublexer lx \<Longrightarrow> calm_state st \<Longrightarrow> pred_option calm_pair (read_word lx st)"
  unfolding read_word_def by (rule calm_read_word_loop) (simp_all add: word_default_def)

subsection \<open>Redirects, heredocs and the main loop\<close>

lemma calm_push_redirect:
  assumes "calm_sublexer lx" "calm_state st"
  shows "pred_option calm_state (push_redirect lx kind st)"
proof -
  have st: "calm_state (skip_inline_blank st)" using assms(2) by (simp add: skip_inline_blank_def)
  show ?thesis
    unfolding push_redirect_def Let_def using st
    by (intro pred_option_if pred_option_bind [OF calm_read_word [OF assms(1) st]])
      (auto simp: calm_pair_def calm_redirect_def)
qed

lemma calm_heredoc:
  assumes "calm_sublexer lx" "calm_state st"
  shows "pred_option calm_state (heredoc lx st)"
proof -
  have st: "calm_state (skip_inline_blank (if peek st 0 = Some CHR ''-'' then bump 1 st else st))"
    using assms(2) by (simp add: skip_inline_blank_def)
  show ?thesis
    unfolding heredoc_def Let_def
    by (intro pred_option_bind [OF calm_read_word [OF assms(1) st]])
      (auto simp: calm_pair_def calm_redirect_def)
qed

lemma calm_redirect_at:
  "calm_sublexer lx \<Longrightarrow> calm_state st \<Longrightarrow> pred_option calm_state (redirect_at lx st)"
  unfolding redirect_at_def Let_def
  by (cases "redirect_operator (peek st 0) (peek st 1) (peek st 2)")
    (simp add: calm_heredoc calm_push_redirect)

lemma list_all_update: "list_all P xs \<Longrightarrow> P x \<Longrightarrow> list_all P (xs[i := x])"
  using set_update_subset_insert [of xs i x] by (auto simp: list_all_iff)

lemma calm_set_heredoc_body:
  assumes "calm_state st" "calm body"
  shows "calm_state (set_heredoc_body s r body st)"
proof (cases "s < length (lexed_segments (lx_out st)) \<and>
    r < length (seg_redirects (lexed_segments (lx_out st) ! s))")
  case True
  let ?segs = "lexed_segments (lx_out st)"
  let ?seg = "(?segs ! s)\<lparr>seg_redirects :=
      (seg_redirects (?segs ! s))[r := (seg_redirects (?segs ! s) ! r)\<lparr>rd_body := Some body\<rparr>]\<rparr>"
  have segs: "list_all calm_segment ?segs" using assms(1) by (simp add: calm_state_def calm_lexed_def)
  have old: "calm_segment (?segs ! s)" using segs True by (simp add: list_all_length)
  then have "calm_redirect ((seg_redirects (?segs ! s) ! r)\<lparr>rd_body := Some body\<rparr>)"
    using True assms(2) by (simp add: calm_segment_def calm_redirect_def list_all_length)
  with old have "calm_segment ?seg"
    by (simp add: calm_segment_def list_all_update)
  with segs have "list_all calm_segment (?segs[s := ?seg])"
    by (rule list_all_update)
  with assms(1) True show ?thesis
    by (auto simp: set_heredoc_body_def Let_def calm_state_def calm_lexed_def)
qed (use assms in \<open>auto simp: set_heredoc_body_def Let_def\<close>)

lemma calm_read_heredocs:
  "calm_sublexer lx \<Longrightarrow> calm_state st \<Longrightarrow> pred_option calm_state (read_heredocs lx ps st)"
proof (induction ps arbitrary: st)
  case (Cons p ps)
  obtain t j e where l:
    "heredoc_lines (lx_chars st) (hd_delimiter p) (hd_strip_tabs p) (lx_index st) [] = (t, j, e)"
    using prod_cases3 by blast
  have t: "calm t"
    using heredoc_lines_text [OF l, of NL, THEN conjunct1] calm_state_chars [OF Cons.prems(2)]
    by (auto simp: calm_iff)
  let ?s = "if e then st\<lparr>lx_index := j\<rparr> else flag UnterminatedQuote (st\<lparr>lx_index := j\<rparr>)"
  have s: "calm_state ?s" using Cons.prems(2) by simp
  have "pred_option calm_state (scan_expansions lx t ?s)"
    by (rule pred_optionI) (rule calm_scan_expansions [OF Cons.prems(1) s t])
  with s have "pred_option calm_state (if hd_expands p then scan_expansions lx t ?s else Some ?s)"
    by simp
  then have "pred_option calm_state (read_heredoc lx p st)"
    unfolding read_heredoc_def l Let_def prod.case
    by (rule pred_option_bind) (simp add: calm_set_heredoc_body t)
  then show ?case
    unfolding read_heredocs.simps by (rule pred_option_bind) (rule Cons.IH [OF Cons.prems(1)])
qed simp

lemma calm_function_body: "calm_state st \<Longrightarrow> calm_state (function_body st)"
proof -
  assume "calm_state st"
  let ?s = "skip_blank (flag FunctionDefinition st\<lparr>lx_current := (lx_current (flag FunctionDefinition st))\<lparr>seg_words := []\<rparr>\<rparr>)"
  have s: "calm_state ?s"
    using \<open>calm_state st\<close>
    by (simp add: skip_blank_def) (simp add: calm_state_def calm_segment_def flag_def calm_lexed_def)
  then have "calm_state (snd (read_balanced_into_nested a b (bump 1 ?s)))" for a b
    using calm_balanced_nested [of "bump 1 ?s" a b] by (cases "read_balanced_into_nested a b (bump 1 ?s)") simp
  with s show ?thesis by (simp add: function_body_def Let_def)
qed

lemma calm_open_paren: "calm_state st \<Longrightarrow> calm_state (open_paren st)"
proof -
  assume st: "calm_state st"
  have "calm_state (snd (read_balanced_into_nested a b s))" "calm_state (snd (read_balanced_text a b s))"
    if "calm_state s" for a b s
    using calm_balanced_nested [OF that, of a b] calm_balanced [OF that, of a b]
    by (cases "read_balanced_into_nested a b s"; cases "read_balanced_text a b s"; simp)+
  with st show ?thesis by (simp add: open_paren_def Let_def calm_function_body)
qed

lemma calm_process_substitution: "calm_state st \<Longrightarrow> calm_state (process_substitution st)"
  unfolding process_substitution_def Let_def
  by (auto split: prod.splits dest!: calm_balanced_nested [rotated])

lemma calm_run_step:
  assumes lx: "calm_sublexer lx" and st: "calm_state st"
  shows "pred_option calm_state (run_step lx c st)"
proof -
  have "pred_option calm_state (read_pending_heredocs lx s)" if "calm_state s" for s
    unfolding read_pending_heredocs_def by (rule calm_read_heredocs [OF lx]) (simp add: that)
  moreover have "pred_option calm_state (run_ampersand lx st)"
    unfolding run_ampersand_def Let_def
    by (intro pred_option_if) (simp_all add: st calm_push_redirect [OF lx])
  moreover have "pred_option calm_state (read_plain_word lx st)"
    unfolding read_plain_word_def
    by (rule pred_option_bind [OF calm_read_word [OF lx st]]) (auto simp: calm_pair_def)
  moreover have "calm_state (snd (read_balanced_into_nested a b s))" if "calm_state s" for a b s
    using calm_balanced_nested [OF that, of a b] by (cases "read_balanced_into_nested a b s") simp
  ultimately show ?thesis
    unfolding run_step_def
    by (intro pred_option_if)
      (simp_all add: st calm_redirect_at [OF lx] calm_open_paren calm_process_substitution
        calm_function_body skip_comment_def run_semicolon_def run_bar_def)
qed

lemma calm_run:
  "calm_sublexer lx \<Longrightarrow> calm_state st \<Longrightarrow> pred_option calm_state (run k lx st)"
proof (induction k arbitrary: st)
  case 0
  then show ?case
    by (cases "peek st 0") (simp_all add: run.simps run_end_def Let_def)
next
  case (Suc k)
  show ?case
  proof (cases "peek st 0")
    case None
    with Suc.prems show ?thesis by (simp add: run.simps run_end_def Let_def)
  next
    case (Some c)
    have "pred_option calm_state (run_step lx c st \<bind> run k lx)"
      by (rule pred_option_bind [OF calm_run_step [OF Suc.prems]]) (rule Suc.IH [OF Suc.prems(1)])
    with Some show ?thesis by (simp add: run.simps [of "Suc k"])
  qed
qed

lemma calm_lex_fuel: "calm_sublexer (lex_fuel d k)"
proof (induction d)
  case (Suc d)
  show ?case
    unfolding calm_sublexer_def
  proof (intro allI impI)
    fix t r assume "calm t" and "lex_fuel (Suc d) k t = Some r"
    moreover have "calm_state (new_lexer t)" if "calm t"
      using that by (simp add: calm_state_def calm_lexed_def calm_segment_def new_lexer_def
          lexed_default_def empty_segment_def)
    ultimately show "calm_lexed r"
      using calm_run [OF Suc.IH, of "new_lexer t" "length t + k"] by (auto simp: calm_state_def)
  qed
qed (simp add: calm_sublexer_def)

lemma calm_lex: "calm s \<Longrightarrow> \<exists>l. lex s = Some l \<and> calm_lexed l"
  using lex_fuel_total [of s "Suc (lex_weight s)" 0] calm_lex_fuel [of "Suc (lex_weight s)" 0]
  unfolding lex_def calm_sublexer_def by blast

end
