(* ===== verification/ShellTotal.thy ===== *)
theory ShellTotal
  imports ShellSafety ShellLexer_Calm
begin

section \<open>The classifier answers\<close>

text \<open>
  The locale \<open>answering_analysis\<close> is the second half of the contract of a nested analyzer: it answers
  on every calm text.  From it every function of the classifier answers on calm words, and
  \<open>analyze_into\<close> satisfies the contract at every depth: a command line without a stalling character
  is always classified.
\<close>

abbreviation calm_words :: "sh_word list \<Rightarrow> bool" where
  "calm_words \<equiv> list_all (\<lambda>w. calm (w_text w))"

lemma calm_nth: "calm_words ws \<Longrightarrow> i < length ws \<Longrightarrow> calm (w_text (ws ! i))"
  by (simp add: list_all_length)

lemma calm_drop_text: "calm t \<Longrightarrow> calm (drop n t)"
  by (rule calm_subset) (auto dest: in_set_dropD)

lemma calm_join: "list_all calm ts \<Longrightarrow> calm (join '' '' ts)"
  by (induction "'' ''" ts rule: join.induct) simp_all

lemma calm_words_drop: "calm_words ws \<Longrightarrow> calm_words (drop n ws)"
  by (auto simp: list_all_iff dest: in_set_dropD)

lemma bind3_not_None:
  "a \<noteq> None \<Longrightarrow> (\<And>x y z. f x y z \<noteq> None) \<Longrightarrow> a \<bind> (\<lambda>(x, y, z). f x y z) \<noteq> None"
  by (cases a) auto

lemma nested_analyze_Some: "analyze_into t d acc \<noteq> None \<Longrightarrow> \<exists>acc'. nested_analyze d t acc = Some acc'"
  by (auto simp: nested_analyze_def)

locale answering_analysis =
  fixes an :: nested_analyzer
  assumes answers: "calm t \<Longrightarrow> \<exists>acc'. an t acc = Some acc'"
begin

lemma nested_text_answers: "calm t \<Longrightarrow> \<exists>acc'. analyze_nested_text an t dyn acc = Some acc'"
  unfolding analyze_nested_text_def by (rule answers)

lemma skip_env_answers: "calm_words ws \<Longrightarrow> skip_env an ws i acc \<noteq> None"
proof (induction "length ws - i" arbitrary: i rule: less_induct)
  case less
  show ?case
  proof (cases "i < length ws")
    case True
    have ih: "skip_env an ws (i + Suc k) acc \<noteq> None" for k
      by (rule less.hyps) (use True less.prems in auto)
    have nst: "\<exists>acc'. analyze_nested_text an (w_text (ws ! j)) dyn acc = Some acc'"
      "\<exists>acc'. analyze_nested_text an (drop n (w_text (ws ! j))) dyn acc = Some acc'"
      if "j < length ws" for j n dyn
      using calm_nth [OF less.prems that] by (auto intro: nested_text_answers calm_drop_text)
    show ?thesis
      using True nst [of i] nst [of "i + 1"] ih [of 0] ih [of 1] ih [of 2]
      by (auto simp: skip_env.simps [of an ws i] Let_def bind_eq_Some_conv numeral_2_eq_2)
  qed (simp add: skip_env.simps)
qed

lemma unwrap_turn_answers: "calm_words ws \<Longrightarrow> unwrap_turn an ws i cmd acc \<noteq> None"
  using skip_env_answers [of ws "i + 1" acc]
  by (auto simp: unwrap_turn_def Let_def)

lemma unwrap_loop_answers: "calm_words ws \<Longrightarrow> unwrap_loop n an ws i cmd acc \<noteq> None"
proof (induction n arbitrary: i cmd acc)
  case (Suc n)
  obtain turn where "unwrap_turn an ws i cmd acc = Some turn"
    using unwrap_turn_answers [OF Suc.prems] by blast
  with Suc show ?case by (cases turn) simp_all
qed simp

lemma shell_invocation_answers:
  assumes "calm_words args"
  shows "classify_shell_invocation an args fl acc \<noteq> None"
proof -
  have "\<exists>acc'. analyze_nested_text an (w_text (args ! i)) dyn acc = Some acc'" if "i < length args" for i dyn
    using calm_nth [OF assms that] by (rule nested_text_answers)
  then show ?thesis
    by (auto simp: classify_shell_invocation_def get_at_def bind_eq_Some_conv split: prod.splits)
qed

lemma classify_program_answers:
  assumes "calm_words args"
  shows "classify_program an prog pw args cmd fl acc \<noteq> None"
  unfolding classify_program_def Let_def
proof (intro if_not_None, goal_cases)
  case 1
  have "classify_shell_invocation an (tl args) fl acc \<noteq> None"
    by (rule shell_invocation_answers) (use assms in \<open>cases args; simp\<close>)
  then show ?case by (auto split: list.splits)
next
  case 2
  obtain fl' acc' where "classify_shell_invocation an args fl acc = Some (fl', acc')"
    using shell_invocation_answers [OF assms] by fastforce
  then show ?case by simp
next
  case 4
  have "list_all calm (map w_text args)" using assms by (simp add: list_all_iff)
  from nested_text_answers [OF calm_join [OF this], of "list_ex w_dynamic args" "note_opaque Eval acc"]
  obtain acc' where "analyze_nested_text an (join '' '' (map w_text args)) (list_ex w_dynamic args)
      (note_opaque Eval acc) = Some acc'" by blast
  then show ?case by simp
next
  case 5
  show ?case
  proof (cases "position (\<lambda>t. t \<in> set [''-c'', ''--command'']) (map w_text args)")
    case (Some p)
    then show ?thesis
      using nested_text_answers [OF calm_nth [OF assms, of "Suc p"]]
      by (auto simp: get_at_def bind_eq_Some_conv)
  qed simp
qed simp_all

lemma classify_effective_answers:
  "calm_words effective \<Longrightarrow> classify_effective an effective cmd acc \<noteq> None"
  using classify_program_answers
  by (cases effective) (simp_all add: classify_effective_def del: not_None_eq)

lemma classify_redirects_answers:
  "list_all calm_redirect rs \<Longrightarrow> classify_redirects an fl rs risk writes acc \<noteq> None"
proof (induction rs arbitrary: risk writes acc)
  case (Cons r rs)
  have "\<exists>acc'. an body acc = Some acc'" if "rd_body r = Some body" for body
    by (rule answers) (use Cons.prems that in \<open>simp add: calm_redirect_def\<close>)
  with Cons show ?case by (auto simp: Let_def bind_eq_Some_conv split: option.splits)
qed simp

lemma classify_segment_answers:
  assumes "calm_segment seg"
  shows "classify_segment an seg d f acc \<noteq> None"
proof -
  have ws: "calm_words (seg_words seg)" and rs: "list_all calm_redirect (seg_redirects seg)"
    using assms by (simp_all add: calm_segment_def)
  have "unwrap_wrappers an (seg_words seg) i cmd acc \<noteq> None" for i cmd acc
    unfolding unwrap_wrappers_def by (rule unwrap_loop_answers [OF ws])
  moreover have "classify_effective an (drop n (seg_words seg)) cmd acc \<noteq> None" for n cmd acc
    by (rule classify_effective_answers [OF calm_words_drop [OF ws]])
  ultimately show ?thesis
    using classify_redirects_answers [OF rs]
    unfolding classify_segment_def Let_def
    by (simp only: split: prod.splits) (intro allI impI bind3_not_None; simp)
qed

lemma classify_segments_answer:
  "list_all calm_segment segs \<Longrightarrow> classify_segments an d f segs acc \<noteq> None"
proof (induction segs arbitrary: f acc)
  case (Cons seg segs)
  obtain fl acc1 where "classify_segment an seg d (seg_connector seg = Pipe \<and> f) acc = Some (fl, acc1)"
    using classify_segment_answers [of seg] Cons.prems by fastforce
  with Cons show ?case by (auto simp: Let_def conj_commute split: if_splits)
qed simp

lemma analyze_all_answers: "list_all calm ts \<Longrightarrow> analyze_all an ts acc \<noteq> None"
proof (induction ts arbitrary: acc)
  case (Cons t ts)
  with answers [of t acc] show ?case by auto
qed simp

end

subsection \<open>\<open>analyze\<close> answers on calm command lines\<close>

lemma analyze_into_answers: "calm s \<Longrightarrow> analyze_into s d acc \<noteq> None"
proof (induction "MAX_DEPTH + 1 - d" arbitrary: s d acc rule: less_induct)
  case less
  show ?case
  proof (cases "d > MAX_DEPTH")
    case False
    have "answering_analysis (nested_analyze (Suc d))"
      by unfold_locales (rule nested_analyze_Some, rule less.hyps, use False in simp_all)
    note ans = answering_analysis.classify_segments_answer [OF this]
      answering_analysis.analyze_all_answers [OF this]
    obtain l where l: "lex s = Some l" "calm_lexed l" using calm_lex [OF less.prems] by blast
    let ?acc = "acc\<lparr>acc_opaque := acc_opaque acc \<union> lexed_opaque l\<rparr>"
    obtain acc2 where "classify_segments (nested_analyze (Suc d)) d False (lexed_segments l) ?acc = Some acc2"
      using ans(1) [of "lexed_segments l" d False ?acc] l(2) by (auto simp: calm_lexed_def)
    moreover obtain acc3 where "analyze_all (nested_analyze (Suc d)) (lexed_nested l) acc2 = Some acc3"
      using ans(2) [of "lexed_nested l" acc2] l(2) by (auto simp: calm_lexed_def)
    ultimately show ?thesis
      using False l(1) by (simp add: analyze_into.simps [of s d] Let_def nested_analyze_eta)
  qed (simp add: analyze_into.simps)
qed

interpretation answering: answering_analysis "nested_analyze d" for d
  by unfold_locales (rule nested_analyze_Some, rule analyze_into_answers)

lemma analyze_answers: "calm s \<Longrightarrow> \<exists>a. analyze s = Some a"
  using analyze_into_answers [of s 0 accumulator_default]
  by (auto simp: analyze_def analyze_lexed_def)

end
