(* ===== verification/ShellLexer_RoundTrip.thy ===== *)
theory ShellLexer_RoundTrip
  imports ShellLexer_Termination
begin

section \<open>Lexing a printed script\<close>

text \<open>
  A printer for scripts of simple commands, whose words are plain or single-quoted, and the proof that
  the tokenizer reads back exactly what was printed: the words with their texts and flags, the
  segments with their connectors, no nested script and no opaque construct.  In particular nothing
  inside single quotes is interpreted.
\<close>

subsection \<open>The printer\<close>

datatype simple_word = Plain str | Quoted str

definition plain_char :: "char \<Rightarrow> bool" where
  "plain_char c \<longleftrightarrow> is_ascii_alphanumeric c \<or> c \<in> set ''_-./:,@%''"

fun printable_word :: "simple_word \<Rightarrow> bool" where
  "printable_word (Plain t) \<longleftrightarrow> t \<noteq> [] \<and> list_all plain_char t"
| "printable_word (Quoted t) \<longleftrightarrow> SQ \<notin> set t"

fun print_word :: "simple_word \<Rightarrow> str" where
  "print_word (Plain t) = t"
| "print_word (Quoted t) = [SQ] @ t @ [SQ]"

fun word_of :: "simple_word \<Rightarrow> sh_word" where
  "word_of (Plain t) = word_default\<lparr>w_text := t\<rparr>"
| "word_of (Quoted t) = word_default\<lparr>w_text := t, w_quoted := True\<rparr>"

fun print_words :: "simple_word list \<Rightarrow> str" where
  "print_words [] = []"
| "print_words (w # ws) = print_word w @ SPC # print_words ws"

fun operator_text :: "connector \<Rightarrow> str" where
  "operator_text And = ''&& ''"
| "operator_text Or = ''|| ''"
| "operator_text Pipe = ''| ''"
| "operator_text Background = ''& ''"
| "operator_text _ = ''; ''"

fun print_rest :: "(connector \<times> simple_word list) list \<Rightarrow> str" where
  "print_rest [] = []"
| "print_rest ((c, ws) # rest) = operator_text c @ print_words ws @ print_rest rest"

definition print_script :: "simple_word list \<Rightarrow> (connector \<times> simple_word list) list \<Rightarrow> str" where
  "print_script ws rest = print_words ws @ print_rest rest"

definition segment_of :: "connector \<times> simple_word list \<Rightarrow> raw_segment" where
  "segment_of p = \<lparr>seg_connector = fst p, seg_words = map word_of (snd p), seg_redirects = []\<rparr>"

definition printable_command :: "connector \<times> simple_word list \<Rightarrow> bool" where
  "printable_command p \<longleftrightarrow> fst p \<noteq> Start \<and> snd p \<noteq> [] \<and> list_all printable_word (snd p)"

subsection \<open>Reading one word\<close>

definition at :: "lexer \<Rightarrow> str \<Rightarrow> str \<Rightarrow> bool" where
  "at st pre rest \<longleftrightarrow> lx_chars st = pre @ rest \<and> lx_index st = length pre"

lemma at_peek: "at st pre rest \<Longrightarrow> peek st k = (if k < length rest then Some (rest ! k) else None)"
  by (auto simp: at_def peek_def peek_at_def nth_append)

lemma at_bump: "at st pre (xs @ rest) \<Longrightarrow> at (bump (length xs) st) (pre @ xs) rest"
  by (simp add: at_def)

lemma at_frame: "at st pre rest \<Longrightarrow> at (push_word w st) pre rest"
  "at st pre rest \<Longrightarrow> at (finish_segment k st) pre rest"
  by (simp_all add: at_def)

lemma scan_while_block:
  assumes "list_all P t" and "\<not> (rest \<noteq> [] \<and> P (hd rest))"
  shows "scan_while P (pre @ t @ rest) (length pre) = length pre + length t"
  using assms(1)
proof (induction t arbitrary: pre)
  case Nil
  then show ?case using assms(2) by (cases rest) (simp_all add: scan_while.simps)
next
  case (Cons c t)
  from Cons.IH [of "pre @ [c]"] Cons.prems show ?case
    by (simp add: scan_while.simps [of P "pre @ c # t @ rest"] nth_append)
qed

lemma plain_char_inert:
  assumes "plain_char c"
  shows "\<not> is_whitespace c" "\<not> is_operator_start c"
    "c \<notin> set [BSL, SQ, DQ, DOLLAR, BTICK, CHR ''='', CHR ''+'', CHR ''*'', CHR ''?'', CHR ''['',
       CHR ''{'', CHR ''}'', CHR ''~'', CHR ''#'', CHR '';'', CHR ''&'', CHR ''|'', CHR ''<'', CHR ''>'',
       CHR ''('', CHR '')'', SPC, TAB, CR, NL]"
  using assms
  by (auto simp: plain_char_def is_whitespace_def is_operator_start_def is_ascii_alphanumeric_def
      is_ascii_alphabetic_def is_ascii_upper_def is_ascii_lower_def is_ascii_digit_def code_def)

lemma read_plain_chars:
  assumes "list_all plain_char t" and "at st pre (t @ rest)" and "rest = [] \<or> hd rest = SPC"
  shows "read_word_loop lx st (word_default\<lparr>w_text := acc\<rparr>) np =
    Some (word_default\<lparr>w_text := acc @ t\<rparr>, bump (length t) st)"
  using assms(1,2)
proof (induction t arbitrary: st pre acc np)
  case Nil
  have "is_whitespace SPC" by (simp add: is_whitespace_def code_def)
  with Nil assms(3) show ?case
    by (cases rest) (auto simp: read_word_loop.simps [of lx st] at_peek bump_def)
next
  case (Cons c t)
  have pk: "peek st 0 = Some c" using Cons.prems(2) by (simp add: at_peek)
  obtain np' where step: "read_word_step lx c st (word_default\<lparr>w_text := acc\<rparr>) np
      = Some (bump 1 st, word_default\<lparr>w_text := acc @ [c]\<rparr>, np')"
    using plain_char_inert [of c] Cons.prems(1)
    by (auto simp: read_word_step_def Let_def push_text_def)
  have "at (bump 1 st) (pre @ [c]) (t @ rest)"
    using at_bump [of st pre "[c]"] Cons.prems(2) by simp
  from Cons.IH [OF _ this, of "acc @ [c]" np'] Cons.prems(1)
  have "read_word_loop lx (bump 1 st) (word_default\<lparr>w_text := acc @ [c]\<rparr>) np'
      = Some (word_default\<lparr>w_text := (acc @ [c]) @ t\<rparr>, bump (length t) (bump 1 st))" by simp
  then show ?case
    using pk step plain_char_inert [of c] Cons.prems(1)
    by (subst read_word_loop.simps) (simp add: bump_def)
qed

lemma read_quoted:
  assumes "SQ \<notin> set t" and at: "at st pre (SQ # t @ SQ # rest)" and "rest = [] \<or> hd rest = SPC"
  shows "read_word lx st = Some (word_default\<lparr>w_text := t, w_quoted := True\<rparr>, bump (length t + 2) st)"
proof -
  let ?b = "bump 1 st"
  have at1: "at ?b (pre @ [SQ]) (t @ SQ # rest)"
    using at_bump [of st pre "[SQ]"] at by simp
  have "skip_while (\<lambda>d. d \<noteq> SQ) ?b = bump (length t) ?b"
  proof -
    have "list_all (\<lambda>d. d \<noteq> SQ) t" using assms(1) by (auto simp: list_all_iff)
    from scan_while_block [OF this, of "SQ # rest" "pre @ [SQ]"] at1
    show ?thesis by (simp add: at_def skip_while_def bump_def)
  qed
  moreover have "peek (bump (length t) ?b) 0 = Some SQ"
    using at_peek [OF at_bump [OF at1]] by simp
  moreover have "slice (lx_index ?b) (lx_index ?b + length t) (lx_chars st) = t"
    using at1 by (simp add: at_def slice_def)
  ultimately have "read_word_step lx SQ st word_default True
      = Some (bump 1 (bump (length t) ?b), word_default\<lparr>w_text := t, w_quoted := True\<rparr>, False)"
    by (simp add: read_word_step_def Let_def push_text_def word_default_def)
  moreover have "read_word_loop lx (bump 1 (bump (length t) ?b)) w np
      = Some (w, bump 1 (bump (length t) ?b))" for w np
  proof -
    have "at (bump 1 (bump (length t) ?b)) (pre @ SQ # t @ [SQ]) rest"
      using at by (simp add: at_def)
    moreover have "is_whitespace SPC" by (simp add: is_whitespace_def code_def)
    ultimately show ?thesis
      using assms(3) by (cases rest) (auto simp: read_word_loop.simps at_peek)
  qed
  moreover have "\<not> is_whitespace SQ" "\<not> is_operator_start SQ" "peek st 0 = Some SQ"
    using at by (simp_all add: is_whitespace_def is_operator_start_def code_def at_peek)
  ultimately show ?thesis
    by (simp add: read_word_def read_word_loop.simps [of lx st] bump_def)
qed

lemma read_printed_word:
  assumes "printable_word w" and "at st pre (print_word w @ SPC # rest)"
  shows "read_word lx st = Some (word_of w, bump (length (print_word w)) st)"
proof (cases w)
  case (Plain t)
  with assms have "list_all plain_char t" "at st pre (t @ SPC # rest)" by simp_all
  from read_plain_chars [OF this, of lx "[]" True] Plain show ?thesis
    by (simp add: read_word_def word_default_def)
next
  case (Quoted t)
  with assms read_quoted [of t st pre "SPC # rest" lx] show ?thesis by simp
qed

subsection \<open>Running over a printed script\<close>

definition runs_to :: "sublexer \<Rightarrow> lexer \<Rightarrow> lexer \<Rightarrow> bool" where
  "runs_to lx st r \<longleftrightarrow> (\<exists>k. run k lx st = Some r)"

lemma runs_to_step:
  assumes "peek st 0 = Some c" "run_step lx c st = Some st1" "runs_to lx st1 r"
  shows "runs_to lx st r"
proof -
  from assms(3) obtain k where "run k lx st1 = Some r" by (auto simp: runs_to_def)
  with assms(1,2) have "run (Suc k) lx st = Some r" by (simp add: run.simps [of "Suc k"])
  then show ?thesis by (auto simp: runs_to_def)
qed

lemma runs_to_lex:
  assumes "runs_to (lex_fuel (lex_weight s) 0) (new_lexer s) r"
  shows "lex s = Some (lx_out r)"
proof -
  from assms obtain k where
    "run k (lex_fuel (lex_weight s) 0) (new_lexer s) = Some r" by (auto simp: runs_to_def)
  then have "run (length s) (lex_fuel (lex_weight s) 0) (new_lexer s) = Some r"
    by (rule run_fuel_enough) (simp add: new_lexer_def)
  then show ?thesis by (simp add: lex_def)
qed

lemma run_step_blank:
  assumes "at st pre (SPC # rest)" "runs_to lx (bump 1 st) r"
  shows "runs_to lx st r"
  by (rule runs_to_step [of _ SPC]) (use assms in \<open>simp_all add: at_peek run_step_def\<close>)

lemma digits_end:
  assumes "list_all plain_char t"
  obtains d x r where "t @ SPC # rest = d @ x # r" "list_all is_ascii_digit d" "\<not> is_ascii_digit x"
    "x \<notin> set ''<>''"
proof (cases "dropWhile is_ascii_digit t")
  case Nil
  then have "list_all is_ascii_digit t" by (simp add: dropWhile_eq_Nil_conv list_all_iff)
  moreover have "\<not> is_ascii_digit SPC" by (simp add: is_ascii_digit_def code_def)
  ultimately show thesis by (intro that [of t SPC rest]) simp_all
next
  case (Cons x xs)
  have t: "t = takeWhile is_ascii_digit t @ x # xs" using Cons by (metis takeWhile_dropWhile_id)
  then have "plain_char x" using assms by (metis list_all_append list.pred_inject(2))
  moreover have "\<not> is_ascii_digit x" using Cons by (metis hd_dropWhile list.sel(1) list.distinct(1))
  moreover have "list_all is_ascii_digit (takeWhile is_ascii_digit t)"
    by (auto simp: list_all_iff dest: set_takeWhileD)
  moreover have "t @ SPC # rest = takeWhile is_ascii_digit t @ x # (xs @ SPC # rest)"
    using t by (metis append.assoc append_Cons)
  moreover have "x \<notin> set ''<>''" if "plain_char x" using plain_char_inert(3) [OF that] by simp
  ultimately show thesis using that by blast
qed

lemma no_fd_redirect:
  assumes "list_all plain_char t" and "at st pre (t @ SPC # rest)"
  shows "\<not> fd_redirect_ahead st"
proof -
  from digits_end [OF assms(1), of rest] obtain d x r where
    d: "t @ SPC # rest = d @ x # r" "list_all is_ascii_digit d" "\<not> is_ascii_digit x" "x \<notin> set ''<>''"
    by metis
  have cs: "lx_chars st = pre @ d @ x # r" "lx_index st = length pre"
    using assms(2) d(1) by (simp_all only: at_def)
  have "scan_while is_ascii_digit (lx_chars st) (lx_index st) = length pre + length d"
    unfolding cs by (rule scan_while_block) (use d in simp_all)
  moreover have "peek_at (lx_chars st) (length pre + length d) = Some x"
    by (simp add: cs peek_at_def nth_append)
  ultimately show ?thesis using d(4) by (simp add: fd_redirect_ahead_def Let_def)
qed

lemma run_step_plain:
  assumes "c \<notin> set [SPC, TAB, CR, NL, CHR ''#'', BSL, CHR '';'', CHR ''&'', CHR ''|'', CHR ''<'',
      CHR ''>'', CHR ''('', CHR '')'', CHR ''{'', CHR ''}'']"
    and "\<not> (is_ascii_digit c \<and> fd_redirect_ahead st)"
  shows "run_step lx c st = read_plain_word lx st"
  using assms by (cases "is_ascii_digit c") (simp_all add: run_step_def)

lemma run_step_word:
  assumes w: "printable_word w" and at: "at st pre (print_word w @ SPC # rest)"
    and next_st: "runs_to lx (push_word (word_of w) (bump (length (print_word w)) st)) r"
  shows "runs_to lx st r"
proof -
  have plain: "read_plain_word lx st = Some (push_word (word_of w) (bump (length (print_word w)) st))"
    using read_printed_word [OF w at] by (simp add: read_plain_word_def)
  obtain c cs where c: "print_word w = c # cs" "plain_char c \<or> c = SQ"
  proof (cases w)
    case (Plain t)
    with w obtain x xs where "t = x # xs" by (cases t) simp_all
    with Plain w show ?thesis by (intro that [of x xs]) simp_all
  next
    case (Quoted t)
    then show ?thesis by (intro that [of SQ "t @ [SQ]"]) simp_all
  qed
  have "\<not> (is_ascii_digit c \<and> fd_redirect_ahead st)"
  proof (cases w)
    case (Plain t)
    with w at have "\<not> fd_redirect_ahead st" by (intro no_fd_redirect [of t st pre rest]) simp_all
    then show ?thesis by simp
  next
    case (Quoted t)
    moreover have "\<not> is_ascii_digit SQ" by (simp add: is_ascii_digit_def code_def)
    ultimately show ?thesis using c(1) by auto
  qed
  moreover have "c \<notin> set [SPC, TAB, CR, NL, CHR ''#'', BSL, CHR '';'', CHR ''&'', CHR ''|'', CHR ''<'',
      CHR ''>'', CHR ''('', CHR '')'', CHR ''{'', CHR ''}'']"
    using c(2)
  proof
    assume "plain_char c"
    from plain_char_inert(3) [OF this] show ?thesis by simp
  qed simp
  ultimately have "run_step lx c st = read_plain_word lx st" by (intro run_step_plain)
  then have step: "run_step lx c st = Some (push_word (word_of w) (bump (length (print_word w)) st))"
    unfolding plain .
  have "peek st 0 = Some c" using c(1) at_peek [OF at, of 0] by simp
  from runs_to_step [OF this step next_st] show ?thesis .
qed

text \<open>Appending words to the segment under construction.\<close>

definition push_words :: "simple_word list \<Rightarrow> lexer \<Rightarrow> lexer" where
  "push_words ws st =
     st\<lparr>lx_current := (lx_current st)\<lparr>seg_words := seg_words (lx_current st) @ map word_of ws\<rparr>\<rparr>"

lemma run_words:
  assumes "list_all printable_word ws" and "at st pre (print_words ws @ rest)"
    and "runs_to lx (push_words ws (bump (length (print_words ws)) st)) r"
  shows "runs_to lx st r"
  using assms
proof (induction ws arbitrary: st pre)
  case Nil
  then show ?case by (simp add: push_words_def bump_def)
next
  case (Cons w ws)
  let ?n = "length (print_word w)"
  let ?st1 = "push_word (word_of w) (bump ?n st)"
  have at0: "at st pre (print_word w @ SPC # print_words ws @ rest)" using Cons.prems(2) by simp
  have at1: "at ?st1 (pre @ print_word w) (SPC # print_words ws @ rest)"
    using at_frame(1) [OF at_bump [OF at0]] .
  then have at2: "at (bump 1 ?st1) (pre @ print_word w @ [SPC]) (print_words ws @ rest)"
    using at_bump [of ?st1 "pre @ print_word w" "[SPC]"] by simp
  have "push_words ws (bump (length (print_words ws)) (bump 1 ?st1))
      = push_words (w # ws) (bump (length (print_words (w # ws))) st)"
    by (simp add: push_words_def push_word_def bump_def)
  then have "runs_to lx (bump 1 ?st1) r"
    using Cons.IH [OF _ at2] Cons.prems(1,3) by simp
  then have "runs_to lx ?st1 r" by (rule run_step_blank [OF at1])
  then show ?case by (rule run_step_word [OF _ at0, rotated]) (use Cons.prems(1) in simp)
qed

subsection \<open>The round trip\<close>

lemma finish_words:
  "seg_words (lx_current st) \<noteq> [] \<Longrightarrow>
     finish_segment c st = st\<lparr>lx_out := (lx_out st)\<lparr>lexed_segments :=
       lexed_segments (lx_out st) @ [lx_current st]\<rparr>, lx_current := empty_segment c\<rparr>"
  by (simp add: finish_segment_def Let_def)

lemma run_operator:
  assumes at: "at st pre (operator_text c @ rest)" and c: "c \<noteq> Start"
    and rest: "runs_to lx (finish_segment c (bump (length (operator_text c)) st)) r"
  shows "runs_to lx st r"
proof -
  have fb: "finish_segment k (bump n (bump m st)) = bump n (finish_segment k (bump m st))" for k n m
    by (simp add: finish_segment_def bump_def Let_def)
  let ?n = "length (operator_text c) - 1"
  have n: "bump (length (operator_text c)) st = bump 1 (bump ?n st)"
    by (cases c) (simp_all add: bump_def)
  obtain pre' where at': "at (finish_segment c (bump ?n st)) pre' (SPC # rest)"
    using at_frame(2) [OF at_bump [of st pre "butlast (operator_text c)" "SPC # rest"], of c] at c
    by (cases c) simp_all
  from rest have "runs_to lx (bump 1 (finish_segment c (bump ?n st))) r"
    by (simp only: n fb)
  then have *: "runs_to lx (finish_segment c (bump ?n st)) r" by (rule run_step_blank [OF at'])
  have "run_step lx (hd (operator_text c)) st = Some (finish_segment c (bump ?n st))"
    using at c by (cases c)
      (simp_all add: run_step_def run_ampersand_def run_bar_def run_semicolon_def at_peek numeral_2_eq_2)
  moreover have "peek st 0 = Some (hd (operator_text c))" using at c by (cases c) (simp_all add: at_peek)
  ultimately show ?thesis using * by (blast intro: runs_to_step)
qed

text \<open>The state after the whole script: every segment but the last is in the output.\<close>

definition scanned :: "lexer \<Rightarrow> raw_segment list \<Rightarrow> bool" where
  "scanned st segs \<longleftrightarrow>
     lx_pending st = [] \<and> lexed_nested (lx_out st) = [] \<and> lexed_opaque (lx_out st) = {} \<and>
     seg_words (lx_current st) \<noteq> [] \<and> lexed_segments (lx_out st) @ [lx_current st] = segs"

lemma run_end_scanned:
  assumes "at st pre []" and "scanned st segs"
  shows "\<exists>r. runs_to lx st r \<and> lx_out r = \<lparr>lexed_segments = segs, lexed_nested = [], lexed_opaque = {}\<rparr>"
proof -
  have "run 0 lx st = Some (run_end st)" using assms(1) by (simp add: run.simps at_peek)
  moreover have "lx_out (run_end st) = \<lparr>lexed_segments = segs, lexed_nested = [], lexed_opaque = {}\<rparr>"
    using assms(2) by (auto simp: run_end_def finish_words scanned_def Let_def)
  ultimately show ?thesis by (auto simp: runs_to_def)
qed

lemma run_rest:
  assumes "list_all printable_command cmds" and "at st pre (print_rest cmds)" and "scanned st segs"
  shows "\<exists>r. runs_to lx st r \<and> lx_out r =
    \<lparr>lexed_segments = segs @ map segment_of cmds, lexed_nested = [], lexed_opaque = {}\<rparr>"
  using assms
proof (induction cmds arbitrary: st pre segs)
  case Nil
  then show ?case using run_end_scanned [of st pre segs lx] by simp
next
  case (Cons p cmds)
  obtain c ws where p: "p = (c, ws)" by fastforce
  with Cons.prems(1) have c: "c \<noteq> Start" "ws \<noteq> []" "list_all printable_word ws"
    and rest: "list_all printable_command cmds"
    by (auto simp: printable_command_def [of "(c, ws)"])
  let ?st1 = "finish_segment c (bump (length (operator_text c)) st)"
  let ?st2 = "push_words ws (bump (length (print_words ws)) ?st1)"
  have at0: "at st pre (operator_text c @ print_words ws @ print_rest cmds)"
    using Cons.prems(2) p by simp
  have at1: "at ?st1 (pre @ operator_text c) (print_words ws @ print_rest cmds)"
    using at_frame(2) [OF at_bump [OF at0]] .
  have at2: "at ?st2 (pre @ operator_text c @ print_words ws) (print_rest cmds)"
    using at_bump [OF at1] by (simp add: at_def push_words_def)
  have "scanned ?st2 (segs @ [segment_of p])"
    using Cons.prems(3) p c(2)
    by (auto simp: scanned_def push_words_def finish_words segment_of_def empty_segment_def bump_def)
  from Cons.IH [OF rest at2 this] obtain r where r: "runs_to lx ?st2 r"
    "lx_out r = \<lparr>lexed_segments = (segs @ [segment_of p]) @ map segment_of cmds,
       lexed_nested = [], lexed_opaque = {}\<rparr>" by blast
  from run_operator [OF at0 c(1) run_words [OF c(3) at1 r(1)]] r(2) show ?case by auto
qed

lemma lex_printed:
  assumes "ws \<noteq> []" and "list_all printable_word ws" and "list_all printable_command cmds"
  shows "lex (print_script ws cmds) =
    Some \<lparr>lexed_segments = map segment_of ((Start, ws) # cmds), lexed_nested = [], lexed_opaque = {}\<rparr>"
proof -
  let ?s = "print_script ws cmds"
  let ?st = "push_words ws (bump (length (print_words ws)) (new_lexer ?s))"
  have at0: "at (new_lexer ?s) [] (print_words ws @ print_rest cmds)"
    by (simp add: at_def new_lexer_def print_script_def)
  have at1: "at ?st (print_words ws) (print_rest cmds)"
    using at_bump [OF at0] by (simp add: at_def push_words_def)
  have "scanned ?st [segment_of (Start, ws)]"
    using assms(1) by (simp add: scanned_def push_words_def new_lexer_def bump_def lexed_default_def
        empty_segment_def segment_of_def)
  from run_rest [OF assms(3) at1 this]
  have ex: "\<exists>r. runs_to lx (new_lexer ?s) r \<and> lx_out r =
      \<lparr>lexed_segments = map segment_of ((Start, ws) # cmds), lexed_nested = [], lexed_opaque = {}\<rparr>" for lx
    using run_words [OF assms(2) at0] by fastforce
  then obtain r where r: "runs_to (lex_fuel (lex_weight ?s) 0) (new_lexer ?s) r"
    "lx_out r = \<lparr>lexed_segments = map segment_of ((Start, ws) # cmds), lexed_nested = [], lexed_opaque = {}\<rparr>"
    by blast
  from runs_to_lex [OF r(1)] r(2) show ?thesis by simp
qed

text \<open>C38. Printing and lexing: the tokenizer reads a printed script back as its segments, connectors and
  words, with the text and the quoting of every word, and finds nothing nested and nothing opaque.
  Everything inside single quotes, whatever the characters, stays the text of one word.\<close>

theorem lex_print_script:
  assumes "ws \<noteq> []" and "list_all printable_word ws" and "list_all printable_command cmds"
  shows "lex (print_script ws cmds) =
    Some \<lparr>lexed_segments = map segment_of ((Start, ws) # cmds), lexed_nested = [], lexed_opaque = {}\<rparr>"
  using assms by (rule lex_printed)

theorem lex_print_script_witness:
  "print_script [Plain ''echo'', Quoted ''rm -rf /; $(x)''] [(Pipe, [Plain ''sh''])]
     = ''echo '' @ [SQ] @ ''rm -rf /; $(x)'' @ [SQ] @ '' | sh '' \<and>
   lex (print_script [Plain ''echo'', Quoted ''rm -rf /; $(x)''] [(Pipe, [Plain ''sh''])]) =
     Some \<lparr>lexed_segments = map segment_of
             [(Start, [Plain ''echo'', Quoted ''rm -rf /; $(x)'']), (Pipe, [Plain ''sh''])],
           lexed_nested = [], lexed_opaque = {}\<rparr>"
proof
  show "print_script [Plain ''echo'', Quoted ''rm -rf /; $(x)''] [(Pipe, [Plain ''sh''])]
     = ''echo '' @ [SQ] @ ''rm -rf /; $(x)'' @ [SQ] @ '' | sh ''"
    by (simp add: print_script_def)
  have "list_all printable_word [Plain ''echo'', Quoted ''rm -rf /; $(x)'']"
    "list_all printable_command [(Pipe, [Plain ''sh''])]" by code_simp+
  from lex_print_script [OF _ this]
  show "lex (print_script [Plain ''echo'', Quoted ''rm -rf /; $(x)''] [(Pipe, [Plain ''sh''])]) =
     Some \<lparr>lexed_segments = map segment_of
             [(Start, [Plain ''echo'', Quoted ''rm -rf /; $(x)'']), (Pipe, [Plain ''sh''])],
           lexed_nested = [], lexed_opaque = {}\<rparr>" by simp
qed

end
