(* ===== verification/ShellVerdicts.thy ===== *)
theory ShellVerdicts
  imports ShellTotal ShellLexer_RoundTrip
begin

section \<open>Properties of the shell verdict\<close>

text \<open>
  The properties of \<^verbatim>\<open>shell::analyze\<close> that the permission policy relies on, over the whole analysis of
  a command line: the risk is the least upper bound of its causes, \<open>ReadOnly\<close> is given on evidence
  only, and the programs the policy must never miss (escalation, fetched code, removal of a system
  directory) raise the verdict wherever they appear in the script.
\<close>

subsection \<open>The verdict as a whole\<close>

text \<open>The risk of an analysis is exactly the least risk that is at least the risk of every
  command, at least \<open>Opaque\<close> if a construct hides commands, and at least \<open>Destructive\<close> if a function
  is defined.\<close>

theorem analysis_risk_is_least:
  assumes "analyze s = Some a"
  shows "an_risk a \<le> r \<longleftrightarrow>
    (\<forall>c \<in> set (an_commands a). cmd_risk c \<le> r) \<and> (an_opaque a \<noteq> {} \<longrightarrow> Opaque \<le> r) \<and>
    (FunctionDefinition \<in> an_opaque a \<longrightarrow> Destructive \<le> r)"
proof -
  let ?rs = "map cmd_risk (an_commands a)"
  note well = analyze_well [OF assms, unfolded well_analyzed_def]
  have "max_or Opaque ?rs \<le> r \<longleftrightarrow> (\<forall>c \<in> set (an_commands a). cmd_risk c \<le> r)" if "an_commands a \<noteq> []"
    using max_or_in [of ?rs Opaque] max_or_ge [of _ ?rs Opaque] that by (auto intro: order_trans)
  moreover have "Opaque \<le> r" if "Destructive \<le> r"
    using that by (cases r) (simp_all add: risk_order)
  moreover have "ReadOnly \<le> r" by (simp add: risk_order)
  ultimately show ?thesis
    using well by (cases "an_commands a = []") auto
qed

theorem analysis_risk_is_least_witness:
  "\<exists>a. analyze ''ls'' = Some a \<and> (an_risk a \<le> ReadOnly \<longleftrightarrow>
    (\<forall>c \<in> set (an_commands a). cmd_risk c \<le> ReadOnly) \<and> (an_opaque a \<noteq> {} \<longrightarrow> Opaque \<le> ReadOnly) \<and>
    (FunctionDefinition \<in> an_opaque a \<longrightarrow> Destructive \<le> ReadOnly))"
proof -
  have "analyze_lexed ''ls'' \<noteq> None" by code_simp
  then obtain a where "analyze ''ls'' = Some a"
    by (auto simp: analyze_short MAX_SOURCE_BYTES_def)
  with analysis_risk_is_least [OF this, of ReadOnly] show ?thesis by blast
qed

text \<open>C7. A command line judged \<open>ReadOnly\<close> has no opaque construct and at least one command, and every
  command in it is \<open>ReadOnly\<close> on evidence: it writes no file, assigns no variable, and either only
  looks a name up or passes the read-only allowlist without any wrapper.\<close>

theorem read_only_verdict:
  assumes "analyze s = Some a" and "an_risk a = ReadOnly"
  shows "an_opaque a = {} \<and> an_commands a \<noteq> [] \<and>
    (\<forall>c \<in> set (an_commands a). cmd_risk c = ReadOnly \<and> read_only_evidence c)"
proof -
  note well = analyze_well [OF assms(1)]
  have op: "an_opaque a = {}" using opaque_risk_le [OF well] assms(2) by (auto simp: risk_order)
  moreover have "cmd_risk c = ReadOnly" if "c \<in> set (an_commands a)" for c
    using command_risk_le [OF well that] assms(2) by (cases "cmd_risk c") (simp_all add: risk_order)
  ultimately show ?thesis
    using well by (auto simp: well_analyzed_def sound_command_def list_all_iff)
qed

theorem read_only_verdict_witness:
  "\<exists>a. analyze ''git log -n 3 | head'' = Some a \<and> an_risk a = ReadOnly \<and> an_opaque a = {}
     \<and> (\<forall>c \<in> set (an_commands a). cmd_risk c = ReadOnly \<and> read_only_evidence c)"
proof -
  have "map_option an_risk (analyze_lexed ''git log -n 3 | head'') = Some ReadOnly" by code_simp
  then obtain a where "analyze ''git log -n 3 | head'' = Some a" "an_risk a = ReadOnly"
    by (auto simp: analyze_short MAX_SOURCE_BYTES_def)
  with read_only_verdict [OF this] show ?thesis by blast
qed

text \<open>Nesting is bounded: no reported command lies deeper than \<open>MAX_DEPTH\<close>, and an analysis that
  reports no command says so with the construct \<open>Empty\<close>, so its risk is at least \<open>Opaque\<close>.\<close>

theorem commands_within_depth:
  assumes "analyze s = Some a"
  shows "(\<forall>c \<in> set (an_commands a). cmd_depth c \<le> MAX_DEPTH) \<and>
    (an_commands a = [] \<longrightarrow> Empty \<in> an_opaque a \<and> Opaque \<le> an_risk a)"
  using analyze_well [OF assms] opaque_risk_le [OF analyze_well [OF assms]]
  by (auto simp: well_analyzed_def sound_command_def list_all_iff)

theorem commands_within_depth_witness:
  "\<exists>a. analyze ''# note'' = Some a \<and> Empty \<in> an_opaque a \<and> Opaque \<le> an_risk a"
proof -
  have "map_option an_commands (analyze_lexed ''# note'') = Some []" by code_simp
  then obtain a where "analyze ''# note'' = Some a" "an_commands a = []"
    by (auto simp: analyze_short MAX_SOURCE_BYTES_def)
  with commands_within_depth [OF this(1)] show ?thesis by blast
qed

subsection \<open>Programs that must raise the verdict\<close>

text \<open>Wherever a segment of the script starts with \<open>sudo\<close>, \<open>doas\<close>, \<open>pkexec\<close>, \<open>run0\<close> or \<open>su\<close>, bare or
  by a path, quoted or not, and whatever follows it, the verdict is at least \<open>Escalating\<close>.\<close>

theorem escalation_is_seen:
  assumes "analyze s = Some a" and "utf8_len s \<le> MAX_SOURCE_BYTES"
    and "lex s = Some lexed" and "seg \<in> set (lexed_segments lexed)"
    and "seg_words seg = w # args" and "runs w p" and "p \<in> set (''su'' # ESCALATORS)"
  shows "Escalating \<le> an_risk a"
proof (cases "p = ''su''")
  case True
  show ?thesis
  proof (rule program_risk_reported [OF assms(1-6)])
    fix acc cmd' fl acc'
    assume "classify_program (nested_analyze 1) p w args classified_default flow_default acc
      = Some (cmd', fl, acc')"
    then show "Escalating \<le> cl_risk cmd'"
      by (auto simp: True classify_program_def SHELLS_def is_interpreter_def Let_def
          bind_eq_Some_conv split: option.splits)
  qed (simp_all add: True RESERVED_def WRAPPERS_def)
next
  case False
  with assms(7) have p: "p \<in> set ESCALATORS" by simp
  then have "p \<notin> set RESERVED" by (auto simp: ESCALATORS_def RESERVED_def)
  with assms(1-6) show ?thesis
  proof (rule segment_risk_reported)
    fix f acc start cmd acc2 cmd' fl acc3 risk writes acc4
    assume u: "unwrap_wrappers (nested_analyze 1) (w # args) 0 classified_default acc = Some (start, cmd, acc2)"
      and e: "classify_effective (nested_analyze 1) (drop start (w # args)) cmd acc2 = Some (cmd', fl, acc3)"
      and r: "classify_redirects (nested_analyze 1) fl (seg_redirects seg)
        (segment_risk cmd' fl (f \<and> seg_connector seg = Pipe)) (cl_writes_file cmd') acc3
        = Some (risk, writes, acc4)"
      and le: "risk \<le> an_risk a"
    have "cl_escalated cmd'"
      using unwrap_escalator [OF assms(6) p u] nested.classify_effective_ok [OF e] by blast
    then have "Escalating \<le> segment_risk cmd' fl (f \<and> seg_connector seg = Pipe)"
      by (rule segment_risk_ge)
    also have "\<dots> \<le> risk" using nested.classify_redirects_ok [OF r] by blast
    finally show ?thesis using le by simp
  qed
qed

theorem escalation_is_seen_witness:
  "\<exists>a. analyze ''ls && /usr/bin/sudo -n id'' = Some a \<and> Escalating \<le> an_risk a"
proof -
  let ?s = "''ls && /usr/bin/sudo -n id''"
  have "map_option (\<lambda>a. ()) (analyze_lexed ?s) = Some ()" by code_simp
  then obtain a where a: "analyze ?s = Some a"
    by (auto simp: analyze_short MAX_SOURCE_BYTES_def)
  have "map_option (\<lambda>l. map (map w_text \<circ> seg_words) (lexed_segments l)) (lex ?s)
      = Some [[''ls''], [''/usr/bin/sudo'', ''-n'', ''id'']]
    \<and> map_option (\<lambda>l. list_all (\<lambda>w. \<not> w_dynamic w \<and> \<not> w_assignment w)
        (concat (map seg_words (lexed_segments l)))) (lex ?s) = Some True" by code_simp
  then obtain l x y where l: "lex ?s = Some l" "lexed_segments l = [x, y]"
    and y: "map w_text (seg_words y) = [''/usr/bin/sudo'', ''-n'', ''id'']"
      "list_all (\<lambda>w. \<not> w_dynamic w \<and> \<not> w_assignment w) (seg_words y)" by auto
  from y obtain w args where w: "seg_words y = w # args" "w_text w = ''/usr/bin/sudo''"
    "\<not> w_dynamic w" "\<not> w_assignment w" by auto
  have "basename ''/usr/bin/sudo'' = ''sudo''" by code_simp
  with w have "runs w ''sudo''" by (simp add: runs_def)
  moreover have "utf8_len ?s \<le> MAX_SOURCE_BYTES"
    by (simp add: utf8_len_def utf8_width_def code_def MAX_SOURCE_BYTES_def)
  ultimately have "Escalating \<le> an_risk a"
    using escalation_is_seen [OF a _ l(1) _ w(1)] l(2) by (simp add: ESCALATORS_def)
  with a show ?thesis by blast
qed

text \<open>A pipeline that feeds the output of a fetcher (\<open>curl\<close>, \<open>wget\<close>, ...) into a shell that reads
  its script from standard input is at least \<open>RemoteCode\<close>, whatever stands before, between and
  after the two.\<close>

theorem fetched_code_is_seen:
  assumes "analyze s = Some a" and "utf8_len s \<le> MAX_SOURCE_BYTES" and "lex s = Some lexed"
    and "lexed_segments lexed = pre @ f # mid @ e # post"
    and "list_all (\<lambda>g. seg_connector g = Pipe) (mid @ [e])"
    and "seg_words f = fw # fargs" and "runs fw p" and "p \<in> set FETCHERS"
    and "seg_words e = ew # eargs" and "runs ew q" and "q \<in> set SHELLS - {''busybox''}"
    and "reads_script_from_stdin eargs"
  shows "RemoteCode \<le> an_risk a"
proof -
  from assms(1,2) have "analyze_lexed s = Some a" by (simp add: analyze_def)
  with assms(3,4) obtain acc2 acc b where
    cls: "classify_segments (nested_analyze (Suc 0)) 0 False (pre @ f # mid @ e # post)
       (accumulator_default\<lparr>acc_opaque := lexed_opaque lexed\<rparr>) = Some acc2"
    and nst: "analyze_all (nested_analyze (Suc 0)) (lexed_nested lexed) acc2 = Some acc"
    and a: "a = analysis_of (acc\<lparr>acc_only_pipes := b\<rparr>)"
    by (auto elim: analyze_lexed_cases)
  from fetch_then_shell [OF cls nested.nested_analysis_axioms _ assms(5-10)] assms(11,12)
  obtain c where "c \<in> set (acc_commands acc2)" "RemoteCode \<le> cmd_risk c" by auto
  moreover from this(1) have "c \<in> set (an_commands a)"
    using grows_commands [OF nested.analyze_all_grows [OF nst]] by (simp add: a)
  ultimately show ?thesis
    using command_risk_le [OF analyze_well [OF assms(1)]] by (blast intro: order_trans)
qed

text \<open>The lexer's result on a printed command line, and that a short one is analyzed.\<close>

lemma short_script: "2 * length s \<le> 65536 \<Longrightarrow> utf8_len s \<le> MAX_SOURCE_BYTES"
proof -
  assume "2 * length s \<le> 65536"
  moreover have "utf8_len s \<le> 2 * length s"
    by (induction s) (auto simp: utf8_len_def utf8_width_def)
  ultimately show ?thesis by (simp add: MAX_SOURCE_BYTES_def)
qed

theorem fetched_code_is_seen_witness:
  "\<exists>a. analyze ''ls ; curl -s x | tee y | sh '' = Some a \<and> RemoteCode \<le> an_risk a"
proof -
  let ?s = "''ls ; curl -s x | tee y | sh ''"
  let ?f = "(Sequence, [Plain ''curl'', Plain ''-s'', Plain ''x''])"
  let ?m = "(Pipe, [Plain ''tee'', Plain ''y''])" and ?e = "(Pipe, [Plain ''sh''])"
  have "map_option (\<lambda>a. ()) (analyze_lexed ?s) = Some ()" by code_simp
  then obtain a where a: "analyze ?s = Some a" by (auto simp: analyze_short MAX_SOURCE_BYTES_def)
  have s: "?s = print_script [Plain ''ls''] [?f, ?m, ?e]" by (simp add: print_script_def)
  have ok: "list_all printable_word [Plain ''ls'']" "list_all printable_command [?f, ?m, ?e]"
    by code_simp+
  have l: "lex ?s = Some \<lparr>lexed_segments = [segment_of (Start, [Plain ''ls''])] @ segment_of ?f #
      [segment_of ?m] @ segment_of ?e # [], lexed_nested = [], lexed_opaque = {}\<rparr>"
    unfolding s using lex_printed [OF _ ok] by simp
  have runs: "runs (word_of (Plain ''curl'')) ''curl''" "runs (word_of (Plain ''sh'')) ''sh''"
    by code_simp+
  have "RemoteCode \<le> an_risk a"
    by (rule fetched_code_is_seen [OF a short_script l _ _ _ runs(1) _ _ runs(2),
          where pre = "[segment_of (Start, [Plain ''ls''])]" and f = "segment_of ?f"
            and mid = "[segment_of ?m]" and e = "segment_of ?e" and post = "[]" and eargs = "[]"
            and fargs = "[word_of (Plain ''-s''), word_of (Plain ''x'')]"])
      (simp_all add: segment_of_def FETCHERS_def SHELLS_def reads_script_from_stdin_def
        shell_options.simps)
  with a show ?thesis by blast
qed

lemma classify_rm:
  "classify_program an ''rm'' w args cmd fl acc =
     Some (cmd\<lparr>cl_risk := rm_risk args (cl_from_xargs cmd)\<rparr>, fl, acc)"
  by (simp add: classify_program_def SHELLS_def FETCHERS_def is_interpreter_def Let_def)

lemma root_target_no_option: "is_root_target t \<Longrightarrow> \<not> starts_with ''-'' t"
  by (cases t) (auto simp: is_root_target_def strip_home_def home_rest_def)

lemma root_removal_risk:
  assumes "analyze s = Some a" and "utf8_len s \<le> MAX_SOURCE_BYTES"
    and "lex s = Some lexed" and "seg \<in> set (lexed_segments lexed)"
    and "seg_words seg = w # args" and "runs w ''rm''"
    and "list_all (\<lambda>v. w_text v \<noteq> ''--'') args"
    and "v \<in> set args" and "w_text v = ''--recursive'' \<or> \<not> w_quoted v \<and>
      (short_flag (w_text v) CHR ''r'' \<or> short_flag (w_text v) CHR ''R'')"
    and "t \<in> set args" and "is_root_target (w_text t)"
  shows "an_risk a = Catastrophic"
proof -
  have "\<not> starts_with ''-'' (w_text t)"
    using assms(11) by (rule root_target_no_option)
  moreover have "is_option x" if "short_flag x f" for x f
  proof -
    from that obtain y where "x = CHR ''-'' # y" "f \<in> set y" by (cases x) (auto simp: short_flag_def)
    then show ?thesis by (cases y) (auto simp: is_option_def utf8_len_def utf8_width_def)
  qed
  ultimately have "rm_recursive (rm_scan_all args)" "t \<in> set (rm_targets (rm_scan_all args))"
    using rm_scan_fold [OF _ assms(7), of "\<lparr>rm_recursive = False, rm_force = False,
        rm_targets = [], rm_options_done = False\<rparr>"] assms(8-10)
    unfolding rm_scan_all_def by (auto simp: list_ex_iff)
  with assms(11) have "rm_risk args False = Catastrophic"
    by (auto simp: rm_risk_def Let_def list_ex_iff)
  then have "cl_risk cmd' = Catastrophic"
    if "classify_program (nested_analyze 1) ''rm'' w args classified_default flow_default acc
      = Some (cmd', fl, acc')" for acc cmd' fl acc'
    using that unfolding classify_rm by (auto simp: classified_default_def)
  then have "Catastrophic \<le> an_risk a"
    by (intro program_risk_reported [OF assms(1-6)]) (auto simp: RESERVED_def WRAPPERS_def)
  then show ?thesis by (cases "an_risk a") (simp_all add: risk_order)
qed

text \<open>A recursive \<open>rm\<close> with an operand that denotes the root, a home directory or a top-level
  system directory is \<open>Catastrophic\<close>, wherever its segment stands in the script.\<close>

theorem recursive_root_removal_is_catastrophic:
  assumes "analyze s = Some a" and "utf8_len s \<le> MAX_SOURCE_BYTES"
    and "lex s = Some lexed" and "seg \<in> set (lexed_segments lexed)"
    and "seg_words seg = w # args" and "runs w ''rm''"
    and "list_all (\<lambda>v. w_text v \<noteq> ''--'') args"
    and "v \<in> set args" and "w_text v = ''--recursive'' \<or> \<not> w_quoted v \<and>
      (short_flag (w_text v) CHR ''r'' \<or> short_flag (w_text v) CHR ''R'')"
    and "t \<in> set args" and "is_root_target (w_text t)"
  shows "an_risk a = Catastrophic"
  using assms by (rule root_removal_risk)

theorem recursive_root_removal_is_catastrophic_witness:
  "\<exists>a. analyze ''true && /bin/rm -rf /usr/./local/.. '' = Some a \<and> an_risk a = Catastrophic"
proof -
  let ?s = "''true && /bin/rm -rf /usr/./local/.. ''"
  let ?r = "(And, [Plain ''/bin/rm'', Plain ''-rf'', Plain ''/usr/./local/..''])"
  have "map_option (\<lambda>a. ()) (analyze_lexed ?s) = Some ()" by code_simp
  then obtain a where a: "analyze ?s = Some a" by (auto simp: analyze_short MAX_SOURCE_BYTES_def)
  have s: "?s = print_script [Plain ''true''] [?r]" by (simp add: print_script_def)
  have ok: "list_all printable_word [Plain ''true'']" "list_all printable_command [?r]"
    by code_simp+
  have l: "lex ?s = Some \<lparr>lexed_segments = [segment_of (Start, [Plain ''true'']), segment_of ?r],
      lexed_nested = [], lexed_opaque = {}\<rparr>"
    unfolding s using lex_printed [OF _ ok] by simp
  have facts: "runs (word_of (Plain ''/bin/rm'')) ''rm''"
    "short_flag (w_text (word_of (Plain ''-rf''))) CHR ''r''"
    "is_root_target (w_text (word_of (Plain ''/usr/./local/..'')))" by code_simp+
  have "an_risk a = Catastrophic"
    by (rule recursive_root_removal_is_catastrophic [OF a short_script l _ _ facts(1) _ _ _ _ facts(3),
          of "segment_of ?r" "[word_of (Plain ''-rf''), word_of (Plain ''/usr/./local/..'')]"
            "word_of (Plain ''-rf'')"])
      (use facts(2) in \<open>simp_all add: segment_of_def word_default_def\<close>)
  with a show ?thesis by blast
qed

text \<open>\<open>is_root_target\<close> is lexical path normalisation: for an absolute path given by its components,
  a component followed by \<open>..\<close> can be dropped, and without \<open>..\<close> the path is a root target exactly
  if its significant components are none, or one system directory.\<close>

theorem root_target_normalises:
  assumes "list_all (\<lambda>c. CHR ''/'' \<notin> set c) (as @ bs)"
  shows "(plain_component x \<longrightarrow>
      is_root_target (CHR ''/'' # join ''/'' (as @ x # ''..'' # bs))
        = is_root_target (CHR ''/'' # join ''/'' (as @ bs))) \<and>
    (''..'' \<notin> set bs \<longrightarrow>
      is_root_target (CHR ''/'' # join ''/'' bs) =
        (case filter (\<lambda>c. c \<notin> set [[], ''.'', ''*'']) bs of
           [] \<Rightarrow> True | [single] \<Rightarrow> single \<in> set SYSTEM_DIRS | _ \<Rightarrow> False))"
proof (intro conjI impI)
  assume x: "plain_component x"
  then have "list_all (\<lambda>c. CHR ''/'' \<notin> set c) (as @ x # ''..'' # bs)"
    using assms by (simp add: plain_component_def)
  from is_root_target_absolute [OF this] is_root_target_absolute [OF assms] x
  show "is_root_target (CHR ''/'' # join ''/'' (as @ x # ''..'' # bs))
        = is_root_target (CHR ''/'' # join ''/'' (as @ bs))"
    by (simp only: root_components_detour)
next
  let ?k = "filter (\<lambda>c. c \<notin> set [[], ''.'', ''*'']) bs"
  assume "''..'' \<notin> set bs"
  then have "root_components False [] bs = Some (rev ?k)" by (subst root_components_plain) simp_all
  moreover have "list_all (\<lambda>c. CHR ''/'' \<notin> set c) bs" using assms by simp
  ultimately show "is_root_target (CHR ''/'' # join ''/'' bs) =
      (case ?k of [] \<Rightarrow> True | [single] \<Rightarrow> single \<in> set SYSTEM_DIRS | _ \<Rightarrow> False)"
    by (cases ?k rule: rev_cases; cases "butlast ?k")
      (auto simp: is_root_target_absolute split: list.splits)
qed

theorem root_target_normalises_witness:
  "is_root_target ''/usr/local/..'' = is_root_target ''/usr'' \<and> is_root_target ''/usr''"
proof -
  have "plain_component ''local''" by code_simp
  with root_target_normalises [of "[''usr'']" "[]" "''local''"]
  have "is_root_target ''/usr/local/..'' = is_root_target ''/usr''" by simp
  moreover have "is_root_target ''/usr''"
    using root_target_normalises [of "[]" "[''usr'']" "''local''"] by (simp add: SYSTEM_DIRS_def)
  ultimately show ?thesis by blast
qed

subsection \<open>When the classifier answers\<close>

text \<open>C37. The classifier answers on every command line without a stalling character (vertical tab, form
  feed and the other white space that is not blank, tab, carriage return or line feed), however deep
  its quoting, expansions, heredocs and nested scripts.\<close>

theorem calm_command_is_analyzed:
  assumes "calm s"
  shows "\<exists>a. analyze s = Some a"
  using assms by (rule analyze_answers)

theorem calm_command_is_analyzed_witness:
  "calm (''cat <<EOF '' @ [NL] @ ''$(ls ${x:-`id`})'' @ [NL] @ ''EOF'') \<and>
   (\<exists>a. analyze (''cat <<EOF '' @ [NL] @ ''$(ls ${x:-`id`})'' @ [NL] @ ''EOF'') = Some a)"
proof -
  have "calm (''cat <<EOF '' @ [NL] @ ''$(ls ${x:-`id`})'' @ [NL] @ ''EOF'')" by code_simp
  with calm_command_is_analyzed show ?thesis by blast
qed

text \<open>The bounds of the executable lexer are enough: whatever recursion depth and loop bound makes
  the lexer return a result, \<open>lex\<close> returns the same result.\<close>

theorem lex_fuel_is_enough:
  assumes "lex_fuel d k s = Some r"
  shows "lex s = Some r"
  unfolding lex_def by (rule lex_fuel_enough [OF assms]) simp

theorem lex_fuel_is_enough_witness:
  "\<exists>r. lex_fuel 3 9 ''echo ${a:-$(ls)}'' = Some r \<and> lex ''echo ${a:-$(ls)}'' = Some r"
proof -
  have "map_option (\<lambda>r. ()) (lex_fuel 3 9 ''echo ${a:-$(ls)}'') = Some ()" by code_simp
  then obtain r where "lex_fuel 3 9 ''echo ${a:-$(ls)}'' = Some r" by auto
  with lex_fuel_is_enough [OF this] show ?thesis by blast
qed

text \<open>A stalling character where a command starts is never consumed: no bound makes the lexer
  return, so the classifier never answers.\<close>

theorem stalling_character_diverges:
  assumes "stalls c"
  shows "lex_fuel d k (c # s) = None"
proof (cases d)
  case (Suc d')
  have "peek (new_lexer (c # s)) 0 = Some c" by (simp add: new_lexer_def peek_Some)
  from run_stalled [OF this assms] show ?thesis by (simp add: Suc)
qed simp

theorem stalling_character_diverges_witness:
  "stalls CHR 0x0C \<and> lex_fuel 9 99 (CHR 0x0C # ''ls'') = None"
proof -
  have "stalls CHR 0x0C" by code_simp
  with stalling_character_diverges show ?thesis by blast
qed

subsection \<open>Closed sets\<close>

text \<open>Parsing a risk class or an opaque construct is the exact inverse of printing it: every name
  that is printed parses back, and nothing else parses.\<close>

theorem shell_vocabulary_round_trip:
  "(ShellRisk_parse v = Some r \<longleftrightarrow> v = ShellRisk_as_str r) \<and>
   (OpaqueConstruct_parse v = Some c \<longleftrightarrow> v = OpaqueConstruct_as_str c)"
  unfolding ShellRisk_parse_def OpaqueConstruct_parse_def
  using find_by_name [OF ShellRisk_ALL_complete ShellRisk_as_str_inj, of r]
    find_by_name [OF OpaqueConstruct_ALL_complete OpaqueConstruct_as_str_inj, of c]
    find_by_name_Some [of ShellRisk_as_str v ShellRisk_ALL r]
    find_by_name_Some [of OpaqueConstruct_as_str v OpaqueConstruct_ALL c]
  by metis

subsection \<open>Gaps of the read-only allowlist\<close>

text \<open>
  Three command lines that run or write something and are judged \<open>ReadOnly\<close>: \<^verbatim>\<open>git grep -O\<close> runs its
  pager, \<^verbatim>\<open>uniq\<close> writes its second operand (a lone hyphen is not counted as one), and \<^verbatim>\<open>sort\<close> accepts
  an abbreviated \<^verbatim>\<open>--output\<close>.
\<close>

lemma git_grep_pager_is_read_only:
  "map_option an_risk (analyze ''git grep -Osh x'') = Some ReadOnly"
proof -
  have "map_option an_risk (analyze_lexed ''git grep -Osh x'') = Some ReadOnly" by code_simp
  then show ?thesis by (simp add: analyze_short MAX_SOURCE_BYTES_def)
qed

lemma uniq_output_is_read_only:
  "map_option an_risk (analyze ''uniq - out'') = Some ReadOnly"
proof -
  have "map_option an_risk (analyze_lexed ''uniq - out'') = Some ReadOnly" by code_simp
  then show ?thesis by (simp add: analyze_short MAX_SOURCE_BYTES_def)
qed

lemma sort_abbreviated_output_is_read_only:
  "map_option an_risk (analyze ''sort --outp=f x'') = Some ReadOnly"
proof -
  have "map_option an_risk (analyze_lexed ''sort --outp=f x'') = Some ReadOnly" by code_simp
  then show ?thesis by (simp add: analyze_short MAX_SOURCE_BYTES_def)
qed

end
