(* ===== verification/PermissionRules.thy ===== *)
theory PermissionRules
  imports Prelude
begin

section \<open>Permission rules\<close>

text \<open>
  \<^verbatim>\<open>core/src/tool_name.rs\<close>, \<^verbatim>\<open>core/src/permissions/rule.rs\<close> and \<^verbatim>\<open>core/src/permissions/read_batch.rs\<close>: the
  canonical name of a tool, the parser and the matcher of \<open>Tool(pattern)\<close> rules, and the paths of a
  batch read.  \<open>None\<close> is a panic: \<^verbatim>\<open>canonical_tool_name\<close> slices a string at a byte offset.

  Two library calls are parameters, collected in the record \<open>externals\<close>: \<^verbatim>\<open>regex::Regex\<close> (compile a
  pattern and search a text; \<open>None\<close> is a pattern that does not compile) and
  \<^verbatim>\<open>serde_json::to_string\<close> (\<open>None\<close> is its error).
\<close>

datatype json =
    JNull | JBool bool | JNumber int | JFloat str | JString str | JArray "json list"
  | JObject "(str \<times> json) list"

text \<open>\<^verbatim>\<open>Value::get(key)\<close> and \<^verbatim>\<open>Value::as_str\<close>; a key of a JSON object occurs once.\<close>

fun json_get :: "json \<Rightarrow> str \<Rightarrow> json option" where
  "json_get (JObject fields) k = map_of fields k"
| "json_get _ k = None"

fun as_str :: "json \<Rightarrow> str option" where
  "as_str (JString s) = Some s"
| "as_str _ = None"

fun as_array :: "json \<Rightarrow> json list option" where
  "as_array (JArray xs) = Some xs"
| "as_array _ = None"

fun as_bool :: "json \<Rightarrow> bool option" where
  "as_bool (JBool b) = Some b"
| "as_bool _ = None"

fun as_u64 :: "json \<Rightarrow> int option" where
  "as_u64 (JNumber n) = (if 0 \<le> n \<and> n < 2 ^ 64 then Some n else None)"
| "as_u64 _ = None"

definition get_array :: "json \<Rightarrow> str \<Rightarrow> json list option" where
  "get_array args k = Option.bind (json_get args k) as_array"

definition get_str :: "json \<Rightarrow> str \<Rightarrow> str option" where
  "get_str args k = Option.bind (json_get args k) as_str"

definition str_or_empty :: "str option \<Rightarrow> str" where
  "str_or_empty v = (case v of None \<Rightarrow> [] | Some s \<Rightarrow> s)"

record externals =
  regex_is_match :: "str \<Rightarrow> str \<Rightarrow> bool option"
  json_to_string :: "json \<Rightarrow> str option"

subsection \<open>Tool names\<close>

definition FUNCTIONS_PREFIX :: str where
  "FUNCTIONS_PREFIX = ''functions.''"

definition canonical_tool_name :: "str \<Rightarrow> str option" where
  "canonical_tool_name name =
     (if utf8_len name > utf8_len FUNCTIONS_PREFIX then
        (case byte_split (utf8_len FUNCTIONS_PREFIX) name of
           None \<Rightarrow> None
         | Some (front, rest) \<Rightarrow>
             if eq_ignore_ascii_case front FUNCTIONS_PREFIX then Some rest else Some name)
      else Some name)"

subsection \<open>Parsing\<close>

record permission_rule =
  pr_rule :: str
  pr_tool_name :: "str option"
  pr_arg_pattern :: "str option"

definition canonicalize_search_rule ::
    "str \<Rightarrow> str option \<Rightarrow> str option \<times> str option" where
  "canonicalize_search_rule tool_name arg_pattern =
     (let mode = to_ascii_lowercase tool_name in
      if mode \<in> set [''grep'', ''glob'', ''bm25''] then
        let pattern =
          (case arg_pattern of
             None \<Rightarrow> mode @ '' **''
           | Some p \<Rightarrow> if p = ''*'' then mode @ '' **'' else mode @ '' '' @ p)
        in (Some ''search'', Some pattern)
      else (Some tool_name, arg_pattern))"

definition parse_rule :: "str \<Rightarrow> str option \<times> str option" where
  "parse_rule rule =
     (if CHR ''('' \<in> set rule \<and> ends_with '')'' rule then
        let tool_name = takeWhile (\<lambda>c. c \<noteq> CHR ''('') rule;
            pattern = butlast (tl (dropWhile (\<lambda>c. c \<noteq> CHR ''('') rule))
        in canonicalize_search_rule tool_name (Some pattern)
      else canonicalize_search_rule rule None)"

definition rule_new :: "str \<Rightarrow> permission_rule" where
  "rule_new rule =
     (let (tool_name, arg_pattern) = parse_rule rule
      in \<lparr>pr_rule = rule, pr_tool_name = tool_name, pr_arg_pattern = arg_pattern\<rparr>)"

subsection \<open>Globs\<close>

text \<open>The body of \<^verbatim>\<open>glob_to_regex\<close> between the anchors; the loop reads one, two or three characters.\<close>

definition REGEX_SPECIAL :: str where
  "REGEX_SPECIAL = ''.+^$()[]{}|'' @ [CHR 0x5C]"

definition NOT_SEPARATOR :: str where
  "NOT_SEPARATOR = ''[^/'' @ [CHR 0x5C, CHR 0x5C] @ '']''"

fun glob_body :: "str \<Rightarrow> str" where
  "glob_body [] = []"
| "glob_body (c # cs) =
     (if c = CHR ''*'' then
        (case cs of
           d # ds \<Rightarrow>
             if d = CHR ''*'' then
               (case ds of
                  e # es \<Rightarrow> if e = CHR ''/'' then ''.*'' @ glob_body es else ''.*'' @ glob_body ds
                | [] \<Rightarrow> ''.*'')
             else NOT_SEPARATOR @ ''*'' @ glob_body cs
         | [] \<Rightarrow> NOT_SEPARATOR @ ''*'')
      else if c = CHR ''?'' then NOT_SEPARATOR @ glob_body cs
      else if c \<in> set REGEX_SPECIAL then [CHR 0x5C, c] @ glob_body cs
      else c # glob_body cs)"

definition glob_to_regex :: "str \<Rightarrow> str" where
  "glob_to_regex pattern = ''^'' @ glob_body pattern @ ''$''"

definition glob_match :: "externals \<Rightarrow> str \<Rightarrow> str \<Rightarrow> bool" where
  "glob_match E pattern t =
     (case strip_suffix '':*'' pattern of
        Some prefix \<Rightarrow> starts_with prefix t
      | None \<Rightarrow>
        let t = replace_char CHR 0x5C CHR ''/'' t in
        (case regex_is_match E (glob_to_regex pattern) t of
           Some b \<Rightarrow> b
         | None \<Rightarrow> starts_with pattern t))"

subsection \<open>Batch reads\<close>

datatype decision = Allow | Deny | Ask

definition MAX_BATCH_READ_FILES :: nat where "MAX_BATCH_READ_FILES = 32"
definition MAX_BATCH_READ_PATH_BYTES :: nat where "MAX_BATCH_READ_PATH_BYTES = 4 * 1024"

definition read_entry_path :: "json \<Rightarrow> str option" where
  "read_entry_path entry =
     (case get_str entry ''path'' of
        None \<Rightarrow> None
      | Some path \<Rightarrow>
          if path \<noteq> [] \<and> utf8_len path \<le> MAX_BATCH_READ_PATH_BYTES then Some path else None)"

lemma read_entry_path_code [code]:
  "read_entry_path entry =
     (case get_str entry ''path'' of
        None \<Rightarrow> None
      | Some path \<Rightarrow> if path \<noteq> [] \<and> int (utf8_len path) \<le> 4096 then Some path else None)"
  by (simp add: read_entry_path_def MAX_BATCH_READ_PATH_BYTES_def cong: option.case_cong)

fun read_entry_paths :: "json list \<Rightarrow> str list option" where
  "read_entry_paths [] = Some []"
| "read_entry_paths (e # es) = do {
     path \<leftarrow> read_entry_path e; paths \<leftarrow> read_entry_paths es; Some (path # paths) }"

text \<open>
  \<^verbatim>\<open>read_batch::paths\<close>.  The outer option is the panic; \<open>Inl\<close> is its \<^verbatim>\<open>Err\<close> (always a denial), \<open>Inr None\<close> is
  "not a batch read".
\<close>

definition batch_paths :: "str \<Rightarrow> json \<Rightarrow> (decision + str list option) option" where
  "batch_paths tool_name args = do {
     name \<leftarrow> canonical_tool_name tool_name;
     Some (if \<not> eq_ignore_ascii_case name ''read'' then Inr None
       else (case json_get args ''files'' of
          None \<Rightarrow> Inr None
        | Some files \<Rightarrow>
          if json_get args ''file_path'' \<noteq> None then Inl Deny
          else (case as_array files of
             None \<Rightarrow> Inl Deny
           | Some fs \<Rightarrow>
             if fs \<noteq> [] \<and> length fs \<le> MAX_BATCH_READ_FILES then
               (case read_entry_paths fs of None \<Rightarrow> Inl Deny | Some ps \<Rightarrow> Inr (Some ps))
             else Inl Deny))) }"

definition read_member :: "str \<Rightarrow> json" where
  "read_member path = JObject [(''file_path'', JString path)]"

text \<open>The loop of \<^verbatim>\<open>read_batch::check\<close> over the members' decisions, with its early return.\<close>

fun batch_members :: "(json \<Rightarrow> decision option) \<Rightarrow> str list \<Rightarrow> decision \<Rightarrow> decision option" where
  "batch_members check_member [] d = Some d"
| "batch_members check_member (p # ps) d = do {
     m \<leftarrow> check_member (read_member p);
     (case m of
        Deny \<Rightarrow> Some Deny
      | Ask \<Rightarrow> batch_members check_member ps Ask
      | Allow \<Rightarrow> batch_members check_member ps d) }"

definition batch_check ::
    "str \<Rightarrow> json \<Rightarrow> (json \<Rightarrow> decision option) \<Rightarrow> decision option option" where
  "batch_check tool_name args check_member = do {
     r \<leftarrow> batch_paths tool_name args;
     (case r of
        Inl d \<Rightarrow> Some (Some d)
      | Inr None \<Rightarrow> Some None
      | Inr (Some ps) \<Rightarrow> map_option Some (batch_members check_member ps Allow)) }"

subsection \<open>Matching\<close>

definition matches_tool_name :: "externals \<Rightarrow> str \<Rightarrow> str \<Rightarrow> bool option" where
  "matches_tool_name E rule_tool actual_tool = do {
     rule_tool \<leftarrow> canonical_tool_name rule_tool;
     actual_tool \<leftarrow> canonical_tool_name actual_tool;
     Some (if CHR ''*'' \<in> set rule_tool \<or> CHR ''?'' \<in> set rule_tool then
         glob_match E rule_tool actual_tool
       else if starts_with ''mcp__'' rule_tool \<and> starts_with ''mcp__'' actual_tool
               \<and> starts_with rule_tool actual_tool then True
       else eq_ignore_ascii_case rule_tool actual_tool) }"

definition matches_tool :: "externals \<Rightarrow> permission_rule \<Rightarrow> str \<Rightarrow> bool option" where
  "matches_tool E r tool_name =
     (case pr_tool_name r of
        None \<Rightarrow> Some False
      | Some rule_tool \<Rightarrow> matches_tool_name E rule_tool tool_name)"

definition matches_all_args :: "permission_rule \<Rightarrow> bool" where
  "matches_all_args r \<longleftrightarrow> pr_arg_pattern r = None \<or> pr_arg_pattern r = Some ''*''"

definition matches_shell_command ::
    "externals \<Rightarrow> permission_rule \<Rightarrow> str \<Rightarrow> str \<Rightarrow> bool option" where
  "matches_shell_command E r tool_name command = do {
     m \<leftarrow> matches_tool E r tool_name;
     Some (if \<not> m then False
       else (case pr_arg_pattern r of
          None \<Rightarrow> True
        | Some pattern \<Rightarrow>
          if pattern = ''*'' then True
          else (case strip_suffix '':*'' pattern of
             Some prefix \<Rightarrow>
               (case strip_prefix prefix command of
                  None \<Rightarrow> False
                | Some rest \<Rightarrow> rest = [] \<or> starts_with '' '' rest)
           | None \<Rightarrow> glob_match E pattern command))) }"

definition build_arg_string :: "externals \<Rightarrow> str \<Rightarrow> json \<Rightarrow> str option" where
  "build_arg_string E tool_name args = do {
     tool_name \<leftarrow> canonical_tool_name tool_name;
     let tool = to_lowercase tool_name;
     Some (if tool = ''bash'' then str_or_empty (get_str args ''command'')
       else if tool \<in> set [''read'', ''write'', ''edit'', ''download''] then
         str_or_empty (get_str args ''file_path'')
       else if tool = ''search'' then
         str_or_empty (get_str args ''mode'') @ '' '' @ str_or_empty (get_str args ''query'')
           @ '' '' @ str_or_empty (get_str args ''path'')
       else if tool = ''ls'' then str_or_empty (get_str args ''path'')
       else str_or_empty (json_to_string E args)) }"

definition matches_args ::
    "externals \<Rightarrow> str \<Rightarrow> str \<Rightarrow> json \<Rightarrow> bool option" where
  "matches_args E pattern tool_name args = do {
     batch \<leftarrow> batch_paths tool_name args;
     (case batch of
        Inr (Some paths) \<Rightarrow> Some (list_ex (glob_match E pattern) paths)
      | Inl _ \<Rightarrow> Some False
      | Inr None \<Rightarrow>
        if pattern = ''*'' then Some True
        else do {
          arg_string \<leftarrow> build_arg_string E tool_name args;
          Some (glob_match E pattern arg_string) }) }"

definition rule_matches :: "externals \<Rightarrow> permission_rule \<Rightarrow> str \<Rightarrow> json \<Rightarrow> bool option" where
  "rule_matches E r tool_name args = do {
     m \<leftarrow> matches_tool E r tool_name;
     if \<not> m then Some False
     else (case pr_arg_pattern r of
        None \<Rightarrow> Some True
      | Some pattern \<Rightarrow> matches_args E pattern tool_name args) }"

end
