(* ===== verification/PermissionPolicies.thy ===== *)
theory PermissionPolicies
  imports PermissionRules ShellClassifier
begin

section \<open>Permission policies\<close>

text \<open>
  \<^verbatim>\<open>core/src/permissions/policy.rs\<close>, with the lanes of \<^verbatim>\<open>core/src/queue.rs\<close> and the specialty policies of
  \<^verbatim>\<open>core/src/permissions/style_specialty.rs\<close>.  A decision is \<open>None\<close> when the code panics (a tool name
  sliced inside a character) or never returns (the shell lexer); rules are tried in order, and a
  rule after the deciding one is not evaluated.
\<close>

subsection \<open>Lanes\<close>

datatype session_lane = Control | Query | Execute | Generate

fun lane_priority :: "session_lane \<Rightarrow> nat" where
  "lane_priority Control = 0"
| "lane_priority Query = 1"
| "lane_priority Execute = 2"
| "lane_priority Generate = 3"

definition from_tool_name :: "str \<Rightarrow> session_lane" where
  "from_tool_name tool_name =
     (if tool_name \<in> set [''read'', ''ls'', ''list_files'', ''search'', ''web_fetch'', ''web_search'',
           ''code_symbols'', ''code_navigation'', ''code_diagnostics''] then Query
      else if tool_name \<in> set [''bash'', ''write'', ''edit'', ''download'', ''delete'', ''move'',
           ''copy'', ''execute''] then Execute
      else Execute)"

fun yolo_lane_rule :: "session_lane \<Rightarrow> str" where
  "yolo_lane_rule Control = ''lane:control''"
| "yolo_lane_rule Query = ''lane:query''"
| "yolo_lane_rule Execute = ''lane:execute''"
| "yolo_lane_rule Generate = ''lane:generate''"

subsection \<open>Enforcement\<close>

datatype enforcement = Enforced | Unrestricted

definition Enforcement_parse :: "str \<Rightarrow> enforcement option" where
  "Enforcement_parse value =
     (let v = to_ascii_lowercase (trim value) in
      if v = ''enforced'' then Some Enforced
      else if v = ''unrestricted'' then Some Unrestricted
      else None)"

fun Enforcement_as_str :: "enforcement \<Rightarrow> str" where
  "Enforcement_as_str Enforced = ''enforced''"
| "Enforcement_as_str Unrestricted = ''unrestricted''"

datatype resolve_error = EnabledContradictsEnforced | EnabledNoLongerDisables

definition Enforcement_resolve ::
    "enforcement option \<Rightarrow> bool option \<Rightarrow> resolve_error + enforcement" where
  "Enforcement_resolve enforcement enabled =
     (case enforcement of
        Some e \<Rightarrow>
          if e = Enforced \<and> enabled = Some False then Inl EnabledContradictsEnforced else Inr e
      | None \<Rightarrow> if enabled = Some False then Inl EnabledNoLongerDisables else Inr Enforced)"

subsection \<open>Policies\<close>

record policy =
  pol_deny :: "permission_rule list"
  pol_allow :: "permission_rule list"
  pol_ask :: "permission_rule list"
  pol_default_decision :: decision
  pol_enforcement :: enforcement

record policy_wire =
  wire_deny :: "permission_rule list"
  wire_allow :: "permission_rule list"
  wire_ask :: "permission_rule list"
  wire_default_decision :: decision
  wire_enforcement :: "enforcement option"
  wire_enabled :: "bool option"

definition policy_try_from :: "policy_wire \<Rightarrow> resolve_error + policy" where
  "policy_try_from wire =
     (case Enforcement_resolve (wire_enforcement wire) (wire_enabled wire) of
        Inl e \<Rightarrow> Inl e
      | Inr enforcement \<Rightarrow>
          Inr \<lparr>pol_deny = wire_deny wire, pol_allow = wire_allow wire, pol_ask = wire_ask wire,
               pol_default_decision = wire_default_decision wire, pol_enforcement = enforcement\<rparr>)"

definition policy_new :: policy where
  "policy_new =
     \<lparr>pol_deny = [], pol_allow = [], pol_ask = [], pol_default_decision = Ask,
      pol_enforcement = Enforced\<rparr>"

definition policy_strict :: policy where
  "policy_strict =
     \<lparr>pol_deny = [], pol_allow = [], pol_ask = [], pol_default_decision = Ask,
      pol_enforcement = Enforced\<rparr>"

definition add_deny :: "str \<Rightarrow> policy \<Rightarrow> policy" where
  "add_deny rule p = p\<lparr>pol_deny := pol_deny p @ [rule_new rule]\<rparr>"

definition add_allow :: "str \<Rightarrow> policy \<Rightarrow> policy" where
  "add_allow rule p = p\<lparr>pol_allow := pol_allow p @ [rule_new rule]\<rparr>"

definition add_ask :: "str \<Rightarrow> policy \<Rightarrow> policy" where
  "add_ask rule p = p\<lparr>pol_ask := pol_ask p @ [rule_new rule]\<rparr>"

definition allow_yolo_lanes :: "session_lane list \<Rightarrow> policy \<Rightarrow> policy" where
  "allow_yolo_lanes lanes p = fold (\<lambda>lane. add_allow (yolo_lane_rule lane)) lanes p"

definition deny_all :: "str list \<Rightarrow> policy \<Rightarrow> policy" where
  "deny_all rules p = fold add_deny rules p"

definition allow_all :: "str list \<Rightarrow> policy \<Rightarrow> policy" where
  "allow_all rules p = fold add_allow rules p"

definition ask_all :: "str list \<Rightarrow> policy \<Rightarrow> policy" where
  "ask_all rules p = fold add_ask rules p"

subsection \<open>Decisions\<close>

text \<open>\<^verbatim>\<open>for rule in rules { if rule.matches(..) { return d } }\<close> is \<open>any_m\<close> followed by the return.\<close>

definition any_command_matches ::
    "externals \<Rightarrow> str \<Rightarrow> json \<Rightarrow> shell_analysis \<Rightarrow> permission_rule \<Rightarrow> bool option" where
  "any_command_matches E tool_name args analysis rule =
     or_m (rule_matches E rule tool_name args)
       (any_m (\<lambda>parsed.
           or_m (matches_shell_command E rule tool_name (literal_text parsed))
             (matches_shell_command E rule tool_name (effective_text parsed)))
         (an_commands analysis))"

definition lane_or_blanket :: "externals \<Rightarrow> str \<Rightarrow> permission_rule \<Rightarrow> bool option" where
  "lane_or_blanket E tool_name rule =
     (if pr_rule rule = yolo_lane_rule (from_tool_name tool_name) then Some True
      else and_m (matches_tool E rule tool_name) (Some (matches_all_args rule)))"

definition command_allowed :: "externals \<Rightarrow> policy \<Rightarrow> str \<Rightarrow> shell_command \<Rightarrow> bool option" where
  "command_allowed E p tool_name parsed =
     and_m (Some (\<not> cmd_writes_file parsed))
       (any_m (\<lambda>rule. matches_shell_command E rule tool_name (literal_text parsed)) (pol_allow p))"

definition check_bash :: "externals \<Rightarrow> policy \<Rightarrow> str \<Rightarrow> json \<Rightarrow> str \<Rightarrow> decision option" where
  "check_bash E p tool_name args command = do {
     analysis \<leftarrow> analyze command;
     denied \<leftarrow> any_m (any_command_matches E tool_name args analysis) (pol_deny p);
     if denied then Some Deny
     else if an_risk analysis = Catastrophic then Some Deny
     else if pol_enforcement p = Unrestricted then Some Allow
     else do {
       blanket \<leftarrow> any_m (lane_or_blanket E tool_name) (pol_allow p);
       if blanket then Some Allow
       else do {
         every \<leftarrow> and_m (Some (\<not> is_opaque analysis))
                  (all_m (command_allowed E p tool_name) (an_commands analysis));
         if every then Some Allow
         else do {
           asked \<leftarrow> any_m (any_command_matches E tool_name args analysis) (pol_ask p);
           Some (if asked then Ask else pol_default_decision p) } } } }"

definition check_rules :: "externals \<Rightarrow> policy \<Rightarrow> str \<Rightarrow> json \<Rightarrow> decision option" where
  "check_rules E p tool_name args = do {
     denied \<leftarrow> any_m (\<lambda>rule. rule_matches E rule tool_name args) (pol_deny p);
     if denied then Some Deny
     else if pol_enforcement p = Unrestricted then Some Allow
     else do {
       allowed \<leftarrow> any_m (\<lambda>rule.
           if pr_rule rule = yolo_lane_rule (from_tool_name tool_name) then Some True
           else rule_matches E rule tool_name args) (pol_allow p);
       if allowed then Some Allow
       else do {
         asked \<leftarrow> any_m (\<lambda>rule. rule_matches E rule tool_name args) (pol_ask p);
         Some (if asked then Ask else pol_default_decision p) } } }"

definition check_scalar :: "externals \<Rightarrow> policy \<Rightarrow> str \<Rightarrow> json \<Rightarrow> decision option" where
  "check_scalar E p tool_name args = do {
     name \<leftarrow> canonical_tool_name tool_name;
     if eq_ignore_ascii_case name ''bash'' then
       (case get_str args ''command'' of
          Some command \<Rightarrow> check_bash E p tool_name args command
        | None \<Rightarrow> check_rules E p tool_name args)
     else check_rules E p tool_name args }"

text \<open>
  \<^verbatim>\<open>PermissionPolicy::check\<close>.  A batch read checks every member with \<^verbatim>\<open>check\<close> again; a member has no
  \<^verbatim>\<open>files\<close> field, so that call goes straight to the scalar rules (\<open>check_member\<close> below) and the
  recursion is unfolded here.
\<close>

definition check :: "externals \<Rightarrow> policy \<Rightarrow> str \<Rightarrow> json \<Rightarrow> decision option" where
  "check E p tool_name args = do {
     batch \<leftarrow> batch_check tool_name args (check_scalar E p tool_name);
     (case batch of Some d \<Rightarrow> Some d | None \<Rightarrow> check_scalar E p tool_name args) }"

definition is_allowed :: "externals \<Rightarrow> policy \<Rightarrow> str \<Rightarrow> json \<Rightarrow> bool option" where
  "is_allowed E p tool_name args = map_option (\<lambda>d. d = Allow) (check E p tool_name args)"

definition is_denied :: "externals \<Rightarrow> policy \<Rightarrow> str \<Rightarrow> json \<Rightarrow> bool option" where
  "is_denied E p tool_name args = map_option (\<lambda>d. d = Deny) (check E p tool_name args)"

definition requires_confirmation :: "externals \<Rightarrow> policy \<Rightarrow> str \<Rightarrow> json \<Rightarrow> bool option" where
  "requires_confirmation E p tool_name args = map_option (\<lambda>d. d = Ask) (check E p tool_name args)"

record matching_rules =
  mr_deny :: "str list"
  mr_allow :: "str list"
  mr_ask :: "str list"

fun matching :: "externals \<Rightarrow> str \<Rightarrow> json \<Rightarrow> permission_rule list \<Rightarrow> str list option" where
  "matching E tool_name args [] = Some []"
| "matching E tool_name args (r # rs) = do {
     m \<leftarrow> rule_matches E r tool_name args;
     rest \<leftarrow> matching E tool_name args rs;
     Some (if m then pr_rule r # rest else rest) }"

definition get_matching_rules :: "externals \<Rightarrow> policy \<Rightarrow> str \<Rightarrow> json \<Rightarrow> matching_rules option" where
  "get_matching_rules E p tool_name args = do {
     d \<leftarrow> matching E tool_name args (pol_deny p);
     a \<leftarrow> matching E tool_name args (pol_allow p);
     q \<leftarrow> matching E tool_name args (pol_ask p);
     Some \<lparr>mr_deny = d, mr_allow = a, mr_ask = q\<rparr> }"

definition mr_is_empty :: "matching_rules \<Rightarrow> bool" where
  "mr_is_empty m \<longleftrightarrow> mr_deny m = [] \<and> mr_allow m = [] \<and> mr_ask m = []"

definition declares_tool_access :: "externals \<Rightarrow> policy \<Rightarrow> str \<Rightarrow> bool option" where
  "declares_tool_access E p tool_name =
     any_m (\<lambda>rule. matches_tool E rule tool_name) (pol_allow p @ pol_ask p)"

definition expose_to_model :: "externals \<Rightarrow> policy \<Rightarrow> str \<Rightarrow> bool option" where
  "expose_to_model E p tool_name = do {
     hidden \<leftarrow> any_m (\<lambda>rule. and_m (matches_tool E rule tool_name) (Some (matches_all_args rule)))
       (pol_deny p);
     if hidden then Some False
     else if pol_enforcement p = Unrestricted \<or> pol_default_decision p \<noteq> Deny then Some True
     else declares_tool_access E p tool_name }"

subsection \<open>Named policies\<close>

definition explore_permissions :: policy where
  "explore_permissions =
     (add_deny ''Bash(cp:*)'' \<circ> add_deny ''Bash(mv:*)'' \<circ> add_deny ''Bash(rm:*)''
      \<circ> add_allow ''Bash(wc:*)'' \<circ> add_allow ''Bash(find:*)'' \<circ> add_allow ''Bash(tail:*)''
      \<circ> add_allow ''Bash(head:*)'' \<circ> add_allow ''Bash(cat:*)'' \<circ> add_allow ''Bash(ls:*)''
      \<circ> deny_all [''write'', ''edit'', ''download'', ''task'', ''parallel_task'']
      \<circ> allow_all [''read'', ''search'', ''ls'', ''web_fetch'', ''web_search'', ''update_plan''])
     policy_new \<lparr>pol_default_decision := Deny\<rparr>"

definition plan_permissions :: policy where
  "plan_permissions =
     (deny_all [''write'', ''edit'', ''download'', ''bash'', ''task'', ''parallel_task'']
      \<circ> allow_all [''read'', ''search'', ''ls'', ''update_plan''])
     policy_new \<lparr>pol_default_decision := Deny\<rparr>"

definition verification_permissions :: policy where
  "verification_permissions =
     (deny_all [''write'', ''edit'', ''download'', ''task'', ''parallel_task'']
      \<circ> allow_all [''read'', ''search'', ''ls'', ''bash'', ''web_fetch'', ''web_search'',
          ''update_plan''])
     policy_new \<lparr>pol_default_decision := Deny\<rparr>"

text \<open>The same policies with their rules listed, for evaluation.\<close>

lemma fold_add_rules:
  "fold add_deny rules p = p\<lparr>pol_deny := pol_deny p @ map rule_new rules\<rparr>"
  "fold add_allow rules p = p\<lparr>pol_allow := pol_allow p @ map rule_new rules\<rparr>"
  "fold add_ask rules p = p\<lparr>pol_ask := pol_ask p @ map rule_new rules\<rparr>"
  by (induction rules arbitrary: p) (simp_all add: add_deny_def add_allow_def add_ask_def)

lemmas policy_builders =
  fold_add_rules deny_all_def allow_all_def ask_all_def add_deny_def add_allow_def add_ask_def
  policy_new_def policy_strict_def

lemma explore_permissions_code [code]:
  "explore_permissions =
     \<lparr>pol_deny = map rule_new [''write'', ''edit'', ''download'', ''task'', ''parallel_task'',
        ''Bash(rm:*)'', ''Bash(mv:*)'', ''Bash(cp:*)''],
      pol_allow = map rule_new [''read'', ''search'', ''ls'', ''web_fetch'', ''web_search'',
        ''update_plan'', ''Bash(ls:*)'', ''Bash(cat:*)'', ''Bash(head:*)'', ''Bash(tail:*)'',
        ''Bash(find:*)'', ''Bash(wc:*)''],
      pol_ask = [], pol_default_decision = Deny, pol_enforcement = Enforced\<rparr>"
  by (simp add: explore_permissions_def policy_builders)

lemma plan_permissions_code [code]:
  "plan_permissions =
     \<lparr>pol_deny = map rule_new [''write'', ''edit'', ''download'', ''bash'', ''task'', ''parallel_task''],
      pol_allow = map rule_new [''read'', ''search'', ''ls'', ''update_plan''],
      pol_ask = [], pol_default_decision = Deny, pol_enforcement = Enforced\<rparr>"
  by (simp add: plan_permissions_def policy_builders)

lemma verification_permissions_code [code]:
  "verification_permissions =
     \<lparr>pol_deny = map rule_new [''write'', ''edit'', ''download'', ''task'', ''parallel_task''],
      pol_allow = map rule_new [''read'', ''search'', ''ls'', ''bash'', ''web_fetch'', ''web_search'',
        ''update_plan''],
      pol_ask = [], pol_default_decision = Deny, pol_enforcement = Enforced\<rparr>"
  by (simp add: verification_permissions_def policy_builders)

datatype agent_style = GeneralPurpose | Plan | Verification | Explore | CodeReview

fun specialty_permission_policy :: "agent_style \<Rightarrow> policy option" where
  "specialty_permission_policy GeneralPurpose = None"
| "specialty_permission_policy Explore = Some explore_permissions"
| "specialty_permission_policy Plan = Some plan_permissions"
| "specialty_permission_policy Verification = Some verification_permissions"
| "specialty_permission_policy CodeReview = Some verification_permissions"

definition policy_for_posture :: "str \<Rightarrow> policy" where
  "policy_for_posture posture =
     (let v = to_ascii_lowercase (trim posture) in
      if v = ''plan'' then plan_permissions
      else if v = ''auto'' then allow_all [''read'', ''search'', ''ls'', ''update_plan''] policy_new
      else if v = ''yolo'' then allow_yolo_lanes [Query, Execute] policy_new
      else policy_new)"

end
