(* ===== verification/PolicyLaws.thy ===== *)
theory PolicyLaws
  imports PermissionPolicies ShellTotal
begin

section \<open>Laws of the permission policy\<close>

text \<open>
  The lemmas behind the properties of \<^verbatim>\<open>PermissionPolicy::check\<close>.  The locale \<open>batch_checker\<close> is the
  contract of a checker that authorizes a batch read member by member through \<^verbatim>\<open>read_batch::check\<close>;
  the policy and the permission manager both satisfy it.
\<close>

subsection \<open>Batch reads\<close>

lemma batch_paths_member:
  "canonical_tool_name tool = Some n \<Longrightarrow> batch_paths tool (read_member x) = Some (Inr None)"
  by (simp add: batch_paths_def read_member_def)

lemma batch_paths_None: "batch_paths tool args = None \<longleftrightarrow> canonical_tool_name tool = None"
  by (cases "canonical_tool_name tool") (simp_all add: batch_paths_def)

lemma batch_paths_Some:
  assumes "batch_paths tool args = Some (Inr (Some ps))"
  shows "ps \<noteq> [] \<and> (\<exists>n. canonical_tool_name tool = Some n \<and> eq_ignore_ascii_case n ''read'')"
proof -
  have len: "read_entry_paths fs = Some qs \<Longrightarrow> length qs = length fs" for fs qs
    by (induction fs arbitrary: qs) (auto simp: bind_eq_Some_conv)
  show ?thesis
    using assms by (auto simp: batch_paths_def bind_eq_Some_conv split: if_splits option.splits dest!: len)
qed

lemma batch_members_Allow:
  "batch_members chk ps d = Some Allow \<longleftrightarrow> d = Allow \<and> (\<forall>x \<in> set ps. chk (read_member x) = Some Allow)"
proof (induction ps arbitrary: d)
  case (Cons x ps)
  show ?case
  proof (cases "chk (read_member x)")
    case (Some e)
    with Cons show ?thesis by (cases e) simp_all
  qed simp
qed simp

lemma batch_members_Deny:
  "batch_members chk ps d0 = Some d \<Longrightarrow> x \<in> set ps \<Longrightarrow>
     (\<And>d'. chk (read_member x) = Some d' \<Longrightarrow> d' = Deny) \<Longrightarrow> d = Deny"
proof (induction ps arbitrary: d0)
  case (Cons y ps)
  from Cons.prems(1) obtain e where e: "chk (read_member y) = Some e" by (auto simp: bind_eq_Some_conv)
  show ?case
  proof (cases "x = y \<or> e = Deny")
    case True
    with e Cons.prems have "e = Deny" by blast
    with e Cons.prems(1) show ?thesis by simp
  next
    case False
    with e Cons.prems(1) obtain d1 where "batch_members chk ps d1 = Some d" by (cases e) simp_all
    with Cons.IH Cons.prems(2,3) False show ?thesis by simp
  qed
qed simp

lemma batch_members_monotone:
  assumes "\<And>x e e'. f x = Some e \<Longrightarrow> g x = Some e' \<Longrightarrow> e' = Deny \<or> e' = e"
  shows "batch_members f ps d0 = Some d \<Longrightarrow> batch_members g ps d0 = Some d' \<Longrightarrow> d' = Deny \<or> d' = d"
proof (induction ps arbitrary: d0)
  case (Cons x ps)
  from Cons.prems obtain e e' where "f (read_member x) = Some e" "g (read_member x) = Some e'"
    by (auto simp: bind_eq_Some_conv)
  with assms [OF this] Cons show ?case by (cases e; cases e') auto
qed simp

locale batch_checker =
  fixes whole :: "str \<Rightarrow> json \<Rightarrow> decision option" and scalar :: "str \<Rightarrow> json \<Rightarrow> decision option"
  assumes whole_unfold: "whole tool args = do {
      batch \<leftarrow> batch_check tool args (scalar tool);
      (case batch of Some d \<Rightarrow> Some d | None \<Rightarrow> scalar tool args) }"
begin

lemma member_is_scalar:
  "canonical_tool_name tool = Some n \<Longrightarrow> whole tool (read_member x) = scalar tool (read_member x)"
  by (simp add: whole_unfold batch_check_def batch_paths_member)

lemma no_batch: "batch_paths tool args = Some (Inr None) \<Longrightarrow> whole tool args = scalar tool args"
  by (simp add: whole_unfold batch_check_def)

lemma malformed_batch: "batch_paths tool args = Some (Inl d) \<Longrightarrow> whole tool args = Some d"
  by (simp add: whole_unfold batch_check_def)

lemma batch_is_members:
  "batch_paths tool args = Some (Inr (Some ps)) \<Longrightarrow> whole tool args = batch_members (scalar tool) ps Allow"
  by (simp add: whole_unfold batch_check_def)
    (cases "batch_members (scalar tool) ps Allow"; simp)

lemma batch_allow_iff:
  assumes "batch_paths tool args = Some (Inr (Some ps))"
  shows "whole tool args = Some Allow \<longleftrightarrow> (\<forall>x \<in> set ps. whole tool (read_member x) = Some Allow)"
proof -
  obtain n where n: "canonical_tool_name tool = Some n" using batch_paths_Some [OF assms] by blast
  show ?thesis
    using batch_paths_Some [OF assms]
    by (auto simp: batch_is_members [OF assms] member_is_scalar [OF n] batch_members_Allow)
qed

lemma batch_denied_by_member:
  assumes "batch_paths tool args = Some (Inr (Some ps))" "whole tool args = Some d" "x \<in> set ps"
    and "\<And>d'. whole tool (read_member x) = Some d' \<Longrightarrow> d' = Deny"
  shows "d = Deny"
proof -
  obtain n where n: "canonical_tool_name tool = Some n" using batch_paths_Some [OF assms(1)] by blast
  have "batch_members (scalar tool) ps Allow = Some d" using assms(2) by (simp add: batch_is_members [OF assms(1)])
  from batch_members_Deny [OF this assms(3)] assms(4) show ?thesis
    by (simp add: member_is_scalar [OF n])
qed

end

interpretation policy_batch: batch_checker "check E p" "check_scalar E p" for E p
  by unfold_locales (simp add: check_def)

lemma batch_paths_error: "batch_paths tool args = Some (Inl d) \<Longrightarrow> d = Deny"
  by (auto simp: batch_paths_def bind_eq_Some_conv split: if_splits option.splits)

subsection \<open>Deny rules\<close>

lemma any_m_finds: "any_m f xs = Some b \<Longrightarrow> x \<in> set xs \<Longrightarrow> f x = Some True \<Longrightarrow> b"
  using any_m_False [of f xs x] by (cases b) auto

lemma check_rules_deny:
  "check_rules E p tool args = Some d \<Longrightarrow> r \<in> set (pol_deny p) \<Longrightarrow>
     rule_matches E r tool args = Some True \<Longrightarrow> d = Deny"
  by (auto simp: check_rules_def bind_eq_Some_conv dest: any_m_finds split: if_splits)

lemma any_command_matches_rule:
  "rule_matches E r tool args = Some True \<Longrightarrow> any_command_matches E tool args a r = Some True"
  by (simp add: any_command_matches_def or_m_def)

lemma check_bash_deny:
  "check_bash E p tool args c = Some d \<Longrightarrow> r \<in> set (pol_deny p) \<Longrightarrow>
     rule_matches E r tool args = Some True \<Longrightarrow> d = Deny"
  using any_command_matches_rule
  by (auto simp: check_bash_def bind_eq_Some_conv dest: any_m_finds split: if_splits)

lemma check_scalar_deny:
  "check_scalar E p tool args = Some d \<Longrightarrow> r \<in> set (pol_deny p) \<Longrightarrow>
     rule_matches E r tool args = Some True \<Longrightarrow> d = Deny"
  by (auto simp: check_scalar_def bind_eq_Some_conv dest: check_rules_deny check_bash_deny
      split: if_splits option.splits)

lemma lower_read:
  assumes "eq_ignore_ascii_case n ''read''"
  shows "to_lowercase n = ''read''"
proof -
  have "latin1_lower c = d" if "ascii_lower c = d" "is_ascii_lower d" for c d
    using that by (auto simp: latin1_lower_def ascii_lower_def is_ascii_lower_def code_def split: if_splits)
  moreover have "to_ascii_lowercase ''read'' = ''read''" by code_simp
  moreover have "list_all is_ascii_lower ''read''" by code_simp
  ultimately show ?thesis
    using assms by (auto simp: eq_ignore_ascii_case_def to_ascii_lowercase_def to_lowercase_def map_eq_Cons_conv)
qed

text \<open>A rule that matches a batch read matches one of its members.\<close>

lemma batch_rule_member:
  assumes b: "batch_paths tool args = Some (Inr (Some ps))" and m: "rule_matches E r tool args = Some True"
  shows "\<exists>x \<in> set ps. rule_matches E r tool (read_member x) = Some True"
proof -
  from batch_paths_Some [OF b] obtain n where n: "canonical_tool_name tool = Some n"
    and read: "eq_ignore_ascii_case n ''read''" and ne: "ps \<noteq> []" by blast
  from m have t: "matches_tool E r tool = Some True" by (auto simp: rule_matches_def bind_eq_Some_conv split: if_splits)
  show ?thesis
  proof (cases "pr_arg_pattern r")
    case None
    with t ne show ?thesis by (cases ps) (auto simp: rule_matches_def)
  next
    case (Some pat)
    with m t b obtain x where x: "x \<in> set ps" "glob_match E pat x"
      by (auto simp: rule_matches_def matches_args_def list_ex_iff)
    have "build_arg_string E tool (read_member x) = Some x"
      by (simp add: build_arg_string_def n lower_read [OF read] read_member_def get_str_def str_or_empty_def)
    with x t Some have "rule_matches E r tool (read_member x) = Some True"
      by (simp add: rule_matches_def matches_args_def batch_paths_member [OF n])
    with x show ?thesis by blast
  qed
qed

lemma check_deny:
  assumes chk: "check E p tool args = Some d" and r: "r \<in> set (pol_deny p)"
    and m: "rule_matches E r tool args = Some True"
  shows "d = Deny"
proof -
  obtain b where b: "batch_paths tool args = Some b"
    using chk by (auto simp: check_def batch_check_def bind_eq_Some_conv)
  show ?thesis
  proof (cases b)
    case (Inl e)
    with b chk policy_batch.malformed_batch batch_paths_error show ?thesis by fastforce
  next
    case (Inr o')
    show ?thesis
    proof (cases o')
      case None
      with b Inr chk r m policy_batch.no_batch show ?thesis by (auto dest: check_scalar_deny)
    next
      case (Some ps)
      with b Inr have b': "batch_paths tool args = Some (Inr (Some ps))" by simp
      from batch_rule_member [OF b' m] obtain x where x: "x \<in> set ps"
        "rule_matches E r tool (read_member x) = Some True" by blast
      obtain n where n: "canonical_tool_name tool = Some n" using batch_paths_Some [OF b'] by blast
      show ?thesis
      proof (rule policy_batch.batch_denied_by_member [OF b' chk x(1)])
        fix d' assume "check E p tool (read_member x) = Some d'"
        then show "d' = Deny"
          using check_scalar_deny [OF _ r x(2)] by (simp add: policy_batch.member_is_scalar [OF n])
      qed
    qed
  qed
qed

subsection \<open>Adding a deny rule\<close>

lemma any_m_snoc_False: "any_m f (xs @ [x]) = Some False \<longleftrightarrow> any_m f xs = Some False \<and> f x = Some False"
  by (auto simp: any_m_append or_m_False_iff bind_eq_Some_conv split: if_splits)

text \<open>The part of a decision after the deny rules does not look at them.\<close>

lemma check_rules_add_deny:
  assumes "check_rules E p tool args = Some d" "check_rules E (add_deny r p) tool args = Some d'"
  shows "d' = Deny \<or> d' = d"
proof (cases "any_m (\<lambda>rule. rule_matches E rule tool args) (pol_deny p @ [rule_new r]) = Some False")
  case True
  then have "any_m (\<lambda>rule. rule_matches E rule tool args) (pol_deny p) = Some False"
    by (simp only: any_m_snoc_False)
  with assms True show ?thesis by (simp add: check_rules_def add_deny_def cong: if_cong)
next
  case False
  with assms(2) show ?thesis
    by (auto simp: check_rules_def add_deny_def bind_eq_Some_conv split: if_splits)
qed

lemma command_allowed_add_deny: "command_allowed E (add_deny r p) = command_allowed E p"
  by (simp add: fun_eq_iff command_allowed_def add_deny_def)

lemma check_bash_add_deny:
  assumes "check_bash E p tool args c = Some d" "check_bash E (add_deny r p) tool args c = Some d'"
  shows "d' = Deny \<or> d' = d"
proof -
  from assms(1) obtain a where a: "analyze c = Some a" by (auto simp: check_bash_def bind_eq_Some_conv)
  show ?thesis
  proof (cases "any_m (any_command_matches E tool args a) (pol_deny p @ [rule_new r]) = Some False")
    case True
    then have "any_m (any_command_matches E tool args a) (pol_deny p) = Some False"
      by (simp only: any_m_snoc_False)
    moreover have "pol_deny (add_deny r p) = pol_deny p @ [rule_new r]" "pol_allow (add_deny r p) = pol_allow p"
      "pol_ask (add_deny r p) = pol_ask p" "pol_default_decision (add_deny r p) = pol_default_decision p"
      "pol_enforcement (add_deny r p) = pol_enforcement p" by (simp_all add: add_deny_def)
    ultimately have "check_bash E (add_deny r p) tool args c = check_bash E p tool args c"
      using True a by (simp add: check_bash_def command_allowed_add_deny cong: if_cong)
    with assms show ?thesis by simp
  next
    case False
    with assms(2) a show ?thesis
      by (auto simp: check_bash_def add_deny_def bind_eq_Some_conv split: if_splits)
  qed
qed

lemma check_scalar_add_deny:
  "check_scalar E p tool args = Some d \<Longrightarrow> check_scalar E (add_deny r p) tool args = Some d' \<Longrightarrow>
     d' = Deny \<or> d' = d"
  by (auto simp: check_scalar_def bind_eq_Some_conv dest: check_rules_add_deny check_bash_add_deny
      split: if_splits option.splits)

lemma check_cases:
  assumes "check E p tool args = Some d"
  obtains (scalar) "batch_paths tool args = Some (Inr None)" "check_scalar E p tool args = Some d"
    | (malformed) "batch_paths tool args = Some (Inl Deny)" "d = Deny"
    | (batch) ps where "batch_paths tool args = Some (Inr (Some ps))"
        "batch_members (check_scalar E p tool) ps Allow = Some d"
proof -
  obtain b where b: "batch_paths tool args = Some b"
    using assms by (auto simp: check_def batch_check_def bind_eq_Some_conv)
  show thesis
  proof (cases b)
    case (Inl e)
    with b batch_paths_error [of tool args e] assms policy_batch.malformed_batch [of tool args e E p]
    show thesis by (intro malformed) auto
  next
    case (Inr o')
    with b assms show thesis
      by (cases o') (auto simp: policy_batch.no_batch policy_batch.batch_is_members intro: scalar batch)
  qed
qed

lemma check_add_deny:
  assumes "check E p tool args = Some d" "check E (add_deny r p) tool args = Some d'"
  shows "d' = Deny \<or> d' = d"
  using assms(1)
proof (cases rule: check_cases)
  case scalar
  with assms(2) show ?thesis by (auto simp: policy_batch.no_batch dest: check_scalar_add_deny)
next
  case malformed
  with assms(2) show ?thesis by (simp add: policy_batch.malformed_batch)
next
  case (batch ps)
  with assms(2) have "batch_members (check_scalar E (add_deny r p) tool) ps Allow = Some d'"
    by (simp add: policy_batch.batch_is_members)
  with batch_members_monotone [OF _ batch(2) this] check_scalar_add_deny show ?thesis by blast
qed

subsection \<open>Shell commands\<close>

lemma check_shell:
  assumes "canonical_tool_name tool = Some n" "eq_ignore_ascii_case n ''bash''"
    and "get_str args ''command'' = Some c"
  shows "check E p tool args = check_bash E p tool args c"
proof -
  have "\<not> eq_ignore_ascii_case n ''read''"
    using assms(2) by (simp add: eq_ignore_ascii_case_def to_ascii_lowercase_def ascii_lower_def
        is_ascii_upper_def code_def)
  then have "batch_paths tool args = Some (Inr None)" by (simp add: batch_paths_def assms(1))
  then show ?thesis using assms by (simp add: policy_batch.no_batch check_scalar_def)
qed

lemma catastrophic_denied:
  "check_bash E p tool args c = Some d \<Longrightarrow> analyze c = Some a \<Longrightarrow> an_risk a = Catastrophic \<Longrightarrow> d = Deny"
  by (auto simp: check_bash_def bind_eq_Some_conv split: if_splits)

lemma scoped_allow:
  assumes "check_bash E p tool args c = Some Allow" and "analyze c = Some a"
    and "pol_enforcement p = Enforced" and "pol_default_decision p \<noteq> Allow"
    and "\<And>r. r \<in> set (pol_allow p) \<Longrightarrow> lane_or_blanket E tool r \<noteq> Some True"
  shows "\<not> is_opaque a \<and> (\<forall>x \<in> set (an_commands a). \<not> cmd_writes_file x \<and>
      (\<exists>r \<in> set (pol_allow p). matches_shell_command E r tool (literal_text x) = Some True))"
proof -
  have nb: "any_m (lane_or_blanket E tool) (pol_allow p) \<noteq> Some True"
    using assms(5) any_m_True by blast
  from assms(1-4) nb have "and_m (Some (\<not> is_opaque a)) (all_m (command_allowed E p tool) (an_commands a)) = Some True"
    by (auto simp: check_bash_def bind_eq_Some_conv split: if_splits)
  then have "\<not> is_opaque a" and all: "all_m (command_allowed E p tool) (an_commands a) = Some True"
    by (simp_all add: and_m_True_iff)
  moreover have "\<not> cmd_writes_file x \<and>
      (\<exists>r \<in> set (pol_allow p). matches_shell_command E r tool (literal_text x) = Some True)"
    if "x \<in> set (an_commands a)" for x
    using all_m_True [OF all that] by (auto simp: command_allowed_def and_m_True_iff dest: any_m_True)
  ultimately show ?thesis by blast
qed

subsection \<open>Tool names\<close>

definition LANE_RULES :: "str list" where
  "LANE_RULES = map yolo_lane_rule [Control, Query, Execute, Generate]"

definition no_lane_rules :: "policy \<Rightarrow> bool" where
  "no_lane_rules p \<longleftrightarrow> list_all (\<lambda>r. pr_rule r \<notin> set LANE_RULES) (pol_allow p)"

lemma not_lane_rule: "no_lane_rules p \<Longrightarrow> r \<in> set (pol_allow p) \<Longrightarrow> pr_rule r \<noteq> yolo_lane_rule l"
  by (cases l) (auto simp: no_lane_rules_def LANE_RULES_def list_all_iff)

lemma any_m_cong: "(\<And>x. x \<in> set xs \<Longrightarrow> f x = g x) \<Longrightarrow> any_m f xs = any_m g xs"
  by (induction xs) (auto cong: if_cong)

lemma all_m_cong: "(\<And>x. x \<in> set xs \<Longrightarrow> f x = g x) \<Longrightarrow> all_m f xs = all_m g xs"
  by (induction xs) (auto cong: if_cong)

text \<open>Outside the lane rules, a decision depends on a tool name through its canonical name only.\<close>

lemma same_batch_paths:
  "canonical_tool_name a = canonical_tool_name b \<Longrightarrow> batch_paths a args = batch_paths b args"
  by (simp add: batch_paths_def)

lemma same_matches_tool:
  "canonical_tool_name a = canonical_tool_name b \<Longrightarrow> matches_tool E r a = matches_tool E r b"
  by (simp add: matches_tool_def matches_tool_name_def cong: option.case_cong)

lemma same_rule_matches:
  assumes "canonical_tool_name a = canonical_tool_name b"
  shows "rule_matches E r a args = rule_matches E r b args"
proof -
  have "matches_args E pat a args = matches_args E pat b args" for pat
    using same_batch_paths [OF assms] assms
    by (simp add: matches_args_def build_arg_string_def [of E a] build_arg_string_def [of E b]
        cong: option.case_cong sum.case_cong)
  then show ?thesis by (simp add: rule_matches_def same_matches_tool [OF assms] cong: if_cong option.case_cong)
qed

lemma same_shell_match:
  "canonical_tool_name a = canonical_tool_name b \<Longrightarrow>
     matches_shell_command E r a c = matches_shell_command E r b c"
  by (simp add: matches_shell_command_def same_matches_tool [of a b])

lemma same_check_bash:
  assumes same: "canonical_tool_name a = canonical_tool_name b" and "no_lane_rules p"
  shows "check_bash E p a args c = check_bash E p b args c"
proof -
  have "any_m (lane_or_blanket E a) (pol_allow p) = any_m (lane_or_blanket E b) (pol_allow p)"
    using not_lane_rule [OF assms(2)]
    by (intro any_m_cong) (simp add: lane_or_blanket_def same_matches_tool [OF same])
  moreover have "command_allowed E p a = command_allowed E p b"
    by (simp add: fun_eq_iff command_allowed_def same_shell_match [OF same])
  moreover have "any_command_matches E a args an = any_command_matches E b args an" for args an
    by (simp add: fun_eq_iff any_command_matches_def same_shell_match [OF same] same_rule_matches [OF same])
  ultimately show ?thesis unfolding check_bash_def by (simp cong: if_cong)
qed

lemma same_check_rules:
  assumes same: "canonical_tool_name a = canonical_tool_name b" and "no_lane_rules p"
  shows "check_rules E p a args = check_rules E p b args"
proof -
  have "any_m (\<lambda>rule. if pr_rule rule = yolo_lane_rule (from_tool_name t) then Some True
      else rule_matches E rule t' args) (pol_allow p)
      = any_m (\<lambda>rule. rule_matches E rule t' args) (pol_allow p)" for t t'
    using not_lane_rule [OF assms(2)] by (intro any_m_cong) simp
  then show ?thesis by (simp add: check_rules_def same_rule_matches [OF same] cong: if_cong)
qed

lemma same_check:
  assumes same: "canonical_tool_name a = canonical_tool_name b" and "no_lane_rules p"
  shows "check E p a args = check E p b args"
proof -
  have "check_scalar E p a = check_scalar E p b"
    by (simp add: fun_eq_iff check_scalar_def same same_check_bash [OF assms] same_check_rules [OF assms]
        cong: if_cong option.case_cong)
  then show ?thesis by (simp only: check_def batch_check_def same_batch_paths [OF same])
qed

subsection \<open>Visibility\<close>

lemma matches_all_args_matches:
  assumes "matches_tool E r tool = Some True" "matches_all_args r" "batch_paths tool args = Some (Inr None)"
  shows "rule_matches E r tool args = Some True"
  using assms by (auto simp: rule_matches_def matches_all_args_def matches_args_def)

lemma blanket_deny:
  assumes chk: "check E p tool args = Some d" and r: "r \<in> set (pol_deny p)"
    and m: "matches_tool E r tool = Some True" "matches_all_args r"
  shows "d = Deny"
  using chk
proof (cases rule: check_cases)
  case scalar
  then show ?thesis using check_scalar_deny [OF _ r matches_all_args_matches [OF m]] by blast
next
  case (batch ps)
  from batch_paths_Some [OF batch(1)] obtain n x where n: "canonical_tool_name tool = Some n" and x: "x \<in> set ps"
    by (cases ps) auto
  show ?thesis
  proof (rule batch_members_Deny [OF batch(2) x])
    fix d' assume "check_scalar E p tool (read_member x) = Some d'"
    then show "d' = Deny"
      using check_scalar_deny [OF _ r matches_all_args_matches [OF m batch_paths_member [OF n]]] by blast
  qed
qed

lemma undeclared_rule:
  "matches_tool E r tool = Some False \<Longrightarrow> rule_matches E r tool args = Some False"
  "matches_tool E r tool = Some False \<Longrightarrow> matches_shell_command E r tool c = Some False"
  by (simp_all add: rule_matches_def matches_shell_command_def)

lemma any_m_all_False: "(\<And>x. x \<in> set xs \<Longrightarrow> f x = Some False) \<Longrightarrow> any_m f xs = Some False"
  by (induction xs) auto

lemma undeclared_scalar:
  assumes lanes: "no_lane_rules p" and enf: "pol_enforcement p = Enforced" "pol_default_decision p = Deny"
    and undecl: "\<And>r. r \<in> set (pol_allow p) \<union> set (pol_ask p) \<Longrightarrow> matches_tool E r tool = Some False"
    and chk: "check_scalar E p tool args = Some d"
  shows "d = Deny"
proof -
  have allow: "any_m (\<lambda>rule. if pr_rule rule = yolo_lane_rule (from_tool_name tool) then Some True
      else rule_matches E rule tool args) (pol_allow p) = Some False"
    using undecl undeclared_rule(1) not_lane_rule [OF lanes] by (intro any_m_all_False) simp
  have ask: "any_m (\<lambda>rule. rule_matches E rule tool args) (pol_ask p) = Some False"
    using undecl undeclared_rule(1) by (intro any_m_all_False) simp
  have blanket: "any_m (lane_or_blanket E tool) (pol_allow p) = Some False"
    using undecl not_lane_rule [OF lanes] by (intro any_m_all_False) (simp add: lane_or_blanket_def and_m_def)
  have cmd: "command_allowed E p tool c \<noteq> Some True" for c
  proof -
    have "any_m (\<lambda>rule. matches_shell_command E rule tool (literal_text c)) (pol_allow p) = Some False"
      using undecl undeclared_rule(2) by (intro any_m_all_False) simp
    then show ?thesis by (simp add: command_allowed_def and_m_def)
  qed
  have ask_bash: "any_m (any_command_matches E tool args a) (pol_ask p) = Some False" for a
    using undecl undeclared_rule
    by (intro any_m_all_False) (simp add: any_command_matches_def or_m_False_iff any_m_all_False)
  have "d' = Deny" if bash: "check_bash E p tool args c = Some d'" for c d'
  proof -
    from bash obtain a where a: "analyze c = Some a" by (auto simp: check_bash_def bind_eq_Some_conv)
    have "and_m (Some (\<not> is_opaque a)) (all_m (command_allowed E p tool) (an_commands a)) \<noteq> Some True"
    proof
      assume *: "and_m (Some (\<not> is_opaque a)) (all_m (command_allowed E p tool) (an_commands a)) = Some True"
      then have "\<not> is_opaque a" "all_m (command_allowed E p tool) (an_commands a) = Some True"
        by (simp_all add: and_m_True_iff)
      moreover from this(1) have "an_commands a \<noteq> []"
        using analyze_well [OF a] by (auto simp: well_analyzed_def is_opaque_def)
      ultimately show False using all_m_True cmd by (metis list.set_intros(1) neq_Nil_conv)
    qed
    with bash a enf blanket ask_bash show ?thesis
      by (auto simp: check_bash_def bind_eq_Some_conv split: if_splits)
  qed
  moreover have "d' = Deny" if "check_rules E p tool args = Some d'" for d'
    using that allow ask enf by (auto simp: check_rules_def bind_eq_Some_conv split: if_splits)
  ultimately show ?thesis
    using chk by (auto simp: check_scalar_def bind_eq_Some_conv split: if_splits option.splits)
qed

lemma hidden_denied:
  assumes "expose_to_model E p tool = Some False" and lanes: "no_lane_rules p"
    and chk: "check E p tool args = Some d"
  shows "d = Deny"
proof -
  from assms(1) consider (blanket) r where "r \<in> set (pol_deny p)" "matches_tool E r tool = Some True"
      "matches_all_args r"
    | (undeclared) "pol_enforcement p = Enforced" "pol_default_decision p = Deny"
      "declares_tool_access E p tool = Some False"
    by (cases "pol_enforcement p")
      (auto simp: expose_to_model_def bind_eq_Some_conv and_m_True_iff dest!: any_m_True split: if_splits)
  then show ?thesis
  proof cases
    case blanket
    then show ?thesis using blanket_deny [OF chk] by blast
  next
    case undeclared
    have un: "matches_tool E r tool = Some False" if "r \<in> set (pol_allow p) \<union> set (pol_ask p)" for r
      using any_m_False [OF undeclared(3) [unfolded declares_tool_access_def]] that by auto
    note scalar = undeclared_scalar [OF lanes undeclared(1,2) un]
    from chk show ?thesis
    proof (cases rule: check_cases)
      case (batch ps)
      then obtain x where "x \<in> set ps" using batch_paths_Some by (metis list.set_sel(1))
      with batch(2) scalar show ?thesis using batch_members_Deny by blast
    qed (use scalar in blast)+
  qed
qed

subsection \<open>Unrestricted enforcement and lanes\<close>

text \<open>Why a scalar check denies although nothing but a deny may stop it.\<close>

definition shell_floor :: "str \<Rightarrow> json \<Rightarrow> bool" where
  "shell_floor tool args \<longleftrightarrow>
     (case canonical_tool_name tool of
        None \<Rightarrow> False
      | Some n \<Rightarrow> eq_ignore_ascii_case n ''bash'' \<and>
          (case get_str args ''command'' of
             None \<Rightarrow> False
           | Some c \<Rightarrow> (case analyze c of None \<Rightarrow> False | Some a \<Rightarrow> an_risk a = Catastrophic)))"

definition denied_by_rule :: "externals \<Rightarrow> policy \<Rightarrow> str \<Rightarrow> json \<Rightarrow> bool" where
  "denied_by_rule E p tool args \<longleftrightarrow>
     list_ex (\<lambda>r. rule_matches E r tool args = Some True \<or>
       (case get_str args ''command'' of
          None \<Rightarrow> False
        | Some c \<Rightarrow> (case analyze c of
             None \<Rightarrow> False
           | Some a \<Rightarrow> any_command_matches E tool args a r = Some True))) (pol_deny p)"

definition permissive :: "policy \<Rightarrow> str \<Rightarrow> bool" where
  "permissive p tool \<longleftrightarrow> pol_enforcement p = Unrestricted \<or>
     list_ex (\<lambda>r. pr_rule r = yolo_lane_rule (from_tool_name tool)) (pol_allow p)"

lemma permissive_lane:
  "permissive p tool \<Longrightarrow> pol_enforcement p \<noteq> Unrestricted \<Longrightarrow> any_m f (pol_allow p) = Some b \<Longrightarrow>
     (\<And>r. pr_rule r = yolo_lane_rule (from_tool_name tool) \<Longrightarrow> f r = Some True) \<Longrightarrow> b"
  using any_m_finds by (fastforce simp: permissive_def list_ex_iff)

lemma permissive_bash:
  assumes "check_bash E p tool args c = Some d" and perm: "permissive p tool"
  obtains a b where "analyze c = Some a" "any_m (any_command_matches E tool args a) (pol_deny p) = Some b"
    "d = (if b \<or> an_risk a = Catastrophic then Deny else Allow)"
proof -
  from assms(1) obtain a b where a: "analyze c = Some a"
    and b: "any_m (any_command_matches E tool args a) (pol_deny p) = Some b"
    unfolding check_bash_def bind_eq_Some_conv by blast
  have "d = (if b \<or> an_risk a = Catastrophic then Deny else Allow)"
  proof (cases "b \<or> an_risk a = Catastrophic \<or> pol_enforcement p = Unrestricted")
    case True
    with assms(1) a b show ?thesis by (auto simp: check_bash_def split: if_splits)
  next
    case False
    with assms(1) a b obtain bl where bl: "any_m (lane_or_blanket E tool) (pol_allow p) = Some bl"
      by (auto simp: check_bash_def bind_eq_Some_conv)
    have bl by (rule permissive_lane [OF perm _ bl]) (use False in \<open>simp_all add: lane_or_blanket_def\<close>)
    with False assms(1) a b bl show ?thesis by (simp add: check_bash_def)
  qed
  with a b that show thesis by blast
qed

lemma permissive_rules:
  assumes "check_rules E p tool args = Some d" and perm: "permissive p tool"
  obtains b where "any_m (\<lambda>rule. rule_matches E rule tool args) (pol_deny p) = Some b"
    "d = (if b then Deny else Allow)"
proof -
  let ?f = "\<lambda>rule. if pr_rule rule = yolo_lane_rule (from_tool_name tool) then Some True
    else rule_matches E rule tool args"
  from assms(1) obtain b where b: "any_m (\<lambda>rule. rule_matches E rule tool args) (pol_deny p) = Some b"
    unfolding check_rules_def bind_eq_Some_conv by blast
  have "d = (if b then Deny else Allow)"
  proof (cases "b \<or> pol_enforcement p = Unrestricted")
    case True
    with assms(1) b show ?thesis by (auto simp: check_rules_def split: if_splits)
  next
    case False
    with assms(1) b obtain bl where bl: "any_m ?f (pol_allow p) = Some bl"
      by (auto simp: check_rules_def bind_eq_Some_conv)
    have bl by (rule permissive_lane [OF perm _ bl]) (use False in simp_all)
    with False assms(1) b bl show ?thesis by (simp add: check_rules_def)
  qed
  with b that show thesis by blast
qed

lemma permissive_scalar:
  assumes "check_scalar E p tool args = Some d" and perm: "permissive p tool"
  shows "d = Allow \<or> d = Deny \<and> (shell_floor tool args \<or> denied_by_rule E p tool args)"
proof -
  obtain n where n: "canonical_tool_name tool = Some n"
    using assms(1) by (auto simp: check_scalar_def bind_eq_Some_conv)
  show ?thesis
  proof (cases "eq_ignore_ascii_case n ''bash'' \<and> get_str args ''command'' \<noteq> None")
    case True
    then obtain c where c: "get_str args ''command'' = Some c" by blast
    with True n assms(1) have "check_bash E p tool args c = Some d" by (simp add: check_scalar_def)
    from permissive_bash [OF this perm] obtain a b where a: "analyze c = Some a"
      and b: "any_m (any_command_matches E tool args a) (pol_deny p) = Some b"
      and d: "d = (if b \<or> an_risk a = Catastrophic then Deny else Allow)" by blast
    have "denied_by_rule E p tool args" if b
      using any_m_True [of "any_command_matches E tool args a"] b that a c
      by (auto simp: denied_by_rule_def list_ex_iff)
    with d a c n True show ?thesis by (auto simp: shell_floor_def)
  next
    case False
    with n assms(1) have "check_rules E p tool args = Some d"
      by (cases "get_str args ''command''") (auto simp: check_scalar_def split: if_splits)
    from permissive_rules [OF this perm] obtain b where
      b: "any_m (\<lambda>rule. rule_matches E rule tool args) (pol_deny p) = Some b"
      and d: "d = (if b then Deny else Allow)" by blast
    have "denied_by_rule E p tool args" if b
      using any_m_True [of "\<lambda>rule. rule_matches E rule tool args"] b that
      by (auto simp: denied_by_rule_def list_ex_iff)
    with d show ?thesis by auto
  qed
qed

subsection \<open>When a check answers\<close>

definition nameable :: "permission_rule \<Rightarrow> bool" where
  "nameable r \<longleftrightarrow> (case pr_tool_name r of None \<Rightarrow> True | Some t \<Rightarrow> canonical_tool_name t \<noteq> None)"

definition nameable_policy :: "policy \<Rightarrow> bool" where
  "nameable_policy p \<longleftrightarrow> list_all nameable (pol_deny p @ pol_allow p @ pol_ask p)"

lemma matches_tool_answers:
  "nameable r \<Longrightarrow> canonical_tool_name tool = Some n \<Longrightarrow> \<exists>b. matches_tool E r tool = Some b"
  by (auto simp: nameable_def matches_tool_def matches_tool_name_def split: option.splits)

lemma rule_matches_answers:
  assumes "nameable r" "canonical_tool_name tool = Some n"
  shows "\<exists>b. rule_matches E r tool args = Some b"
proof -
  obtain b where b: "matches_tool E r tool = Some b" using matches_tool_answers [OF assms] by blast
  obtain q where q: "batch_paths tool args = Some q"
    using batch_paths_None [of tool args] assms(2) by (cases "batch_paths tool args") auto
  have "\<exists>b. matches_args E pat tool args = Some b" for pat
    using q by (auto simp: matches_args_def build_arg_string_def assms(2) Let_def split: sum.split option.split)
  with b show ?thesis by (cases "pr_arg_pattern r") (auto simp: rule_matches_def)
qed

lemma shell_match_answers:
  assumes "nameable r" "canonical_tool_name tool = Some n"
  shows "\<exists>b. matches_shell_command E r tool c = Some b"
proof -
  obtain b where "matches_tool E r tool = Some b" using matches_tool_answers [OF assms] by blast
  then show ?thesis by (simp add: matches_shell_command_def)
qed

lemma any_m_answers: "(\<And>x. x \<in> set xs \<Longrightarrow> \<exists>b. f x = Some b) \<Longrightarrow> \<exists>b. any_m f xs = Some b"
proof (induction xs)
  case (Cons x xs)
  from Cons.prems [of x] obtain b where "f x = Some b" by auto
  moreover obtain b' where "any_m f xs = Some b'" using Cons by auto
  ultimately show ?case by (cases b) auto
qed auto

lemma all_m_answers: "(\<And>x. x \<in> set xs \<Longrightarrow> \<exists>b. f x = Some b) \<Longrightarrow> \<exists>b. all_m f xs = Some b"
proof (induction xs)
  case (Cons x xs)
  from Cons.prems [of x] obtain b where "f x = Some b" by auto
  moreover obtain b' where "all_m f xs = Some b'" using Cons by auto
  ultimately show ?case by (cases b) auto
qed auto

lemma or_m_answers: "\<exists>b. x = Some b \<Longrightarrow> \<exists>b. y = Some b \<Longrightarrow> \<exists>b. or_m x y = Some b"
  by (auto simp: or_m_def)

lemma and_m_answers: "\<exists>b. x = Some b \<Longrightarrow> \<exists>b. y = Some b \<Longrightarrow> \<exists>b. and_m x y = Some b"
  by (auto simp: and_m_def)

lemmas answers_intros = any_m_answers all_m_answers or_m_answers and_m_answers

lemma check_bash_answers:
  assumes p: "nameable_policy p" and n: "canonical_tool_name tool = Some n" and a: "analyze c = Some a"
  shows "check_bash E p tool args c \<noteq> None"
proof -
  have rules: "nameable r" if "r \<in> set (pol_deny p) \<union> set (pol_allow p) \<union> set (pol_ask p)" for r
    using p that by (auto simp: nameable_policy_def list_all_iff)
  have cmd: "\<exists>b. any_command_matches E tool args a r = Some b" if "nameable r" for r
    unfolding any_command_matches_def
    by (intro answers_intros rule_matches_answers [OF that n] shell_match_answers [OF that n])
  obtain b1 where b1: "any_m (any_command_matches E tool args a) (pol_deny p) = Some b1"
    using any_m_answers cmd rules by (metis UnI1)
  obtain b2 where b2: "any_m (lane_or_blanket E tool) (pol_allow p) = Some b2"
  proof -
    have "\<exists>b. lane_or_blanket E tool r = Some b" if "nameable r" for r
      using matches_tool_answers [OF that n, of E] by (auto simp: lane_or_blanket_def and_m_def)
    with that any_m_answers rules show thesis by (metis UnI1 UnI2)
  qed
  obtain b3 where b3: "and_m (Some (\<not> is_opaque a)) (all_m (command_allowed E p tool) (an_commands a)) = Some b3"
  proof -
    have "\<exists>b. command_allowed E p tool x = Some b" for x
      unfolding command_allowed_def
      by (intro answers_intros shell_match_answers [OF _ n]) (use rules in auto)
    then have "\<exists>b. and_m (Some (\<not> is_opaque a)) (all_m (command_allowed E p tool) (an_commands a)) = Some b"
      by (intro answers_intros) auto
    with that show thesis by blast
  qed
  obtain b4 where b4: "any_m (any_command_matches E tool args a) (pol_ask p) = Some b4"
    using any_m_answers cmd rules by (metis UnI2)
  show ?thesis by (simp add: check_bash_def a b1 b2 b3 b4)
qed

lemma check_rules_answers:
  assumes p: "nameable_policy p" and n: "canonical_tool_name tool = Some n"
  shows "check_rules E p tool args \<noteq> None"
proof -
  have rules: "\<exists>b. rule_matches E r tool args = Some b"
    if "r \<in> set (pol_deny p) \<union> set (pol_allow p) \<union> set (pol_ask p)" for r
    using p that rule_matches_answers [OF _ n] by (auto simp: nameable_policy_def list_all_iff)
  obtain b1 where b1: "any_m (\<lambda>rule. rule_matches E rule tool args) (pol_deny p) = Some b1"
    using any_m_answers rules by (metis UnI1)
  obtain b2 where b2: "any_m (\<lambda>rule. if pr_rule rule = yolo_lane_rule (from_tool_name tool) then Some True
      else rule_matches E rule tool args) (pol_allow p) = Some b2"
  proof -
    have "\<exists>b. any_m (\<lambda>rule. if pr_rule rule = yolo_lane_rule (from_tool_name tool) then Some True
        else rule_matches E rule tool args) (pol_allow p) = Some b"
      by (rule any_m_answers) (use rules in auto)
    with that show thesis by blast
  qed
  obtain b3 where b3: "any_m (\<lambda>rule. rule_matches E rule tool args) (pol_ask p) = Some b3"
    using any_m_answers rules by (metis UnI2)
  show ?thesis by (simp add: check_rules_def b1 b2 b3)
qed

lemma check_answers:
  assumes p: "nameable_policy p" and n: "canonical_tool_name tool = Some n"
    and calm: "\<And>c. get_str args ''command'' = Some c \<Longrightarrow> calm c"
  shows "check E p tool args \<noteq> None"
proof -
  have scalar: "check_scalar E p tool v \<noteq> None"
    if quiet: "\<And>c. get_str v ''command'' = Some c \<Longrightarrow> calm c" for v
  proof (cases "get_str v ''command''")
    case None
    then show ?thesis by (simp add: check_scalar_def n check_rules_answers [OF p n] del: not_None_eq)
  next
    case (Some c)
    obtain a where "analyze c = Some a" using analyze_answers [OF quiet [OF Some]] by blast
    with Some show ?thesis
      by (simp add: check_scalar_def n check_rules_answers [OF p n] check_bash_answers [OF p n] del: not_None_eq)
  qed
  have member: "check_scalar E p tool (read_member x) \<noteq> None" for x
    by (rule scalar) (simp add: read_member_def get_str_def)
  have batch: "batch_members (check_scalar E p tool) ps d \<noteq> None" for ps d
  proof (induction ps arbitrary: d)
    case (Cons x ps)
    obtain e where "check_scalar E p tool (read_member x) = Some e" using member by blast
    with Cons show ?case by (cases e) simp_all
  qed simp
  obtain b where b: "batch_paths tool args = Some b"
    using batch_paths_None [of tool args] n by (cases "batch_paths tool args") auto
  obtain s where s: "check_scalar E p tool args = Some s" using scalar [OF calm] by blast
  have whole: "batch_members (check_scalar E p tool) ps Allow = Some (the (batch_members (check_scalar E p tool) ps Allow))" for ps
    using batch [of ps Allow] by (cases "batch_members (check_scalar E p tool) ps Allow") simp_all
  consider "\<exists>d. b = Inl d" | "b = Inr None" | ps where "b = Inr (Some ps)"
    by (metis sum.exhaust_sel option.exhaust)
  then show ?thesis
  proof cases
    case (3 ps)
    then show ?thesis by (subst check_def, subst batch_check_def, subst b, subst bind.bind_lunit, simp, subst whole) simp
  qed (use b s in \<open>auto simp: check_def batch_check_def\<close>)
qed

lemma check_panics: "canonical_tool_name tool = None \<Longrightarrow> check E p tool args = None"
  by (simp add: check_def batch_check_def batch_paths_def)

lemma byte_split_inside:
  "utf8_len pre < n \<Longrightarrow> n < utf8_len pre + utf8_width c \<Longrightarrow> byte_split n (pre @ c # rest) = None"
proof (induction pre arbitrary: n)
  case (Cons x pre)
  have "utf8_width x \<le> n" "0 < n" using Cons.prems(1) by (simp_all add: utf8_len_def)
  moreover have "byte_split (n - utf8_width x) (pre @ c # rest) = None"
    by (rule Cons.IH) (use Cons.prems in \<open>simp_all add: utf8_len_def\<close>)
  ultimately show ?case by simp
qed (auto simp: utf8_len_def)

end
