(* ===== verification/PermissionManagers.thy ===== *)
theory PermissionManagers
  imports PolicyLaws
begin

section \<open>The permission manager\<close>

text \<open>
  \<^verbatim>\<open>core/src/permissions/manager.rs\<close>: a global policy and one optional policy per session.  The manager
  is a second client of the batch-read protocol: it satisfies the contract \<open>batch_checker\<close> with its
  own scalar rules, which read the deny rules of both policies and then only the session's.
\<close>

record manager =
  mgr_global_policy :: policy
  mgr_session_policies :: "str \<rightharpoonup> policy"

definition manager_with_global_policy :: "policy \<Rightarrow> manager" where
  "manager_with_global_policy p = \<lparr>mgr_global_policy = p, mgr_session_policies = Map.empty\<rparr>"

definition manager_new :: manager where
  "manager_new = \<lparr>mgr_global_policy = policy_new, mgr_session_policies = Map.empty\<rparr>"

definition set_global_policy :: "policy \<Rightarrow> manager \<Rightarrow> manager" where
  "set_global_policy p m = m\<lparr>mgr_global_policy := p\<rparr>"

definition set_session_policy :: "str \<Rightarrow> policy \<Rightarrow> manager \<Rightarrow> manager" where
  "set_session_policy session_id p m =
     m\<lparr>mgr_session_policies := (mgr_session_policies m)(session_id \<mapsto> p)\<rparr>"

definition remove_session_policy :: "str \<Rightarrow> manager \<Rightarrow> manager" where
  "remove_session_policy session_id m =
     m\<lparr>mgr_session_policies := (mgr_session_policies m)(session_id := None)\<rparr>"

definition get_effective_policy :: "manager \<Rightarrow> str \<Rightarrow> policy" where
  "get_effective_policy m session_id =
     (case mgr_session_policies m session_id of Some p \<Rightarrow> p | None \<Rightarrow> mgr_global_policy m)"

text \<open>The rules after the batch test; \<open>check\<close> of a batch member goes straight to them.\<close>

definition manager_rules :: "externals \<Rightarrow> manager \<Rightarrow> str \<Rightarrow> str \<Rightarrow> json \<Rightarrow> decision option" where
  "manager_rules E m session_id tool_name args =
     (let p = get_effective_policy m session_id;
          hit = any_m (\<lambda>rule. rule_matches E rule tool_name args)
      in do {
       denied \<leftarrow> hit (pol_deny p);
       if denied then Some Deny
       else do {
         denied \<leftarrow> (if mgr_session_policies m session_id = None then Some False
                    else hit (pol_deny (mgr_global_policy m)));
         if denied then Some Deny
         else do {
           allowed \<leftarrow> hit (pol_allow p);
           if allowed then Some Allow
           else do {
             asked \<leftarrow> hit (pol_ask p);
             Some (if asked then Ask else pol_default_decision p) } } } })"

definition manager_check :: "externals \<Rightarrow> manager \<Rightarrow> str \<Rightarrow> str \<Rightarrow> json \<Rightarrow> decision option" where
  "manager_check E m session_id tool_name args = do {
     batch \<leftarrow> batch_check tool_name args (manager_rules E m session_id tool_name);
     (case batch of Some d \<Rightarrow> Some d | None \<Rightarrow> manager_rules E m session_id tool_name args) }"

interpretation manager_batch: batch_checker "manager_check E m s" "manager_rules E m s" for E m s
  by unfold_locales (simp add: manager_check_def)

subsection \<open>Laws\<close>

lemma effective_policy_update:
  "get_effective_policy (set_session_policy s p m) t = (if t = s then p else get_effective_policy m t)"
  "get_effective_policy (remove_session_policy s m) t =
     (if t = s then mgr_global_policy m else get_effective_policy m t)"
  "get_effective_policy (set_global_policy p m) t =
     (if mgr_session_policies m t = None then p else get_effective_policy m t)"
  by (auto simp: get_effective_policy_def set_session_policy_def remove_session_policy_def
      set_global_policy_def split: option.splits)

lemma manager_rules_deny:
  assumes "manager_rules E m s tool args = Some d"
    and "r \<in> set (pol_deny (get_effective_policy m s)) \<union> set (pol_deny (mgr_global_policy m))"
    and "rule_matches E r tool args = Some True"
  shows "d = Deny"
proof -
  let ?hit = "any_m (\<lambda>rule. rule_matches E rule tool args)"
  from assms(1) obtain b where b: "?hit (pol_deny (get_effective_policy m s)) = Some b"
    by (auto simp: manager_rules_def Let_def bind_eq_Some_conv)
  show ?thesis
  proof (cases b)
    case True
    with assms(1) b show ?thesis by (simp add: manager_rules_def Let_def)
  next
    case False
    then have "r \<notin> set (pol_deny (get_effective_policy m s))"
      using any_m_finds [OF b _ assms(3)] by blast
    with assms(2) have r: "r \<in> set (pol_deny (mgr_global_policy m))"
      and own: "mgr_session_policies m s \<noteq> None" by (auto simp: get_effective_policy_def split: option.splits)
    with assms(1) b False obtain b' where b': "?hit (pol_deny (mgr_global_policy m)) = Some b'"
      by (auto simp: manager_rules_def Let_def bind_eq_Some_conv)
    have b' by (rule any_m_finds [OF b' r assms(3)])
    with assms(1) b b' False own show ?thesis by (simp add: manager_rules_def Let_def)
  qed
qed

text \<open>What a decision reads of the manager: the global deny rules and the session's policy.\<close>

lemma manager_rules_cong:
  assumes "get_effective_policy m s = get_effective_policy m' s"
    and "mgr_session_policies m s = None \<longleftrightarrow> mgr_session_policies m' s = None"
    and "pol_deny (mgr_global_policy m) = pol_deny (mgr_global_policy m')"
  shows "manager_rules E m s = manager_rules E m' s"
proof (intro ext)
  fix tool args
  show "manager_rules E m s tool args = manager_rules E m' s tool args"
    unfolding manager_rules_def assms by (rule refl)
qed

lemma manager_check_cong:
  "manager_rules E m s = manager_rules E m' s' \<Longrightarrow> manager_check E m s = manager_check E m' s'"
  by (intro ext) (simp only: manager_check_def)

end
