(* ===== verification/GlobSemantics.thy ===== *)
theory GlobSemantics
  imports PermissionRules
begin

section \<open>What a glob pattern matches\<close>

text \<open>
  The rule matcher translates a glob to a regular expression and asks the \<^verbatim>\<open>regex\<close> crate.  This theory
  states what a glob means as a relation \<open>globs\<close> on the characters, states what the crate documents for
  the few regular expressions the translation produces, and proves that the two agree.
\<close>

subsection \<open>The meaning of a glob\<close>

definition not_separator :: "char \<Rightarrow> bool" where
  "not_separator c \<longleftrightarrow> c \<noteq> CHR ''/'' \<and> c \<noteq> CHR 0x5C"

definition not_newline :: "char \<Rightarrow> bool" where
  "not_newline c \<longleftrightarrow> c \<noteq> CHR 0x0A"

inductive globs :: "str \<Rightarrow> str \<Rightarrow> bool" where
  empty: "globs [] []"
| literal: "c \<noteq> CHR ''*'' \<Longrightarrow> c \<noteq> CHR ''?'' \<Longrightarrow> globs p t \<Longrightarrow> globs (c # p) (c # t)"
| question: "not_separator c \<Longrightarrow> globs p t \<Longrightarrow> globs (CHR ''?'' # p) (c # t)"
| star: "list_all not_separator u \<Longrightarrow> \<not> starts_with ''*'' p \<Longrightarrow> globs p t \<Longrightarrow>
    globs (CHR ''*'' # p) (u @ t)"
| globstar: "list_all not_newline u \<Longrightarrow> \<not> starts_with ''/'' p \<Longrightarrow> globs p t \<Longrightarrow>
    globs (CHR ''*'' # CHR ''*'' # p) (u @ t)"
| globstar_slash: "list_all not_newline u \<Longrightarrow> globs p t \<Longrightarrow>
    globs (CHR ''*'' # CHR ''*'' # CHR ''/'' # p) (u @ t)"

inductive_simps globs_Nil: "globs [] t"
inductive_simps globs_Cons: "globs (c # p) t"
inductive_cases globs_starE: "globs (CHR ''*'' # p) t"

subsection \<open>The regular expressions of the translation\<close>

datatype regex_atom = Lit char | AnyText | SegmentText | SegmentChar

definition atom_ok :: "regex_atom \<Rightarrow> bool" where
  "atom_ok a \<longleftrightarrow> (case a of Lit c \<Rightarrow> c \<notin> set ''*?'' | _ \<Rightarrow> True)"

fun render_atom :: "regex_atom \<Rightarrow> str" where
  "render_atom (Lit c) = (if c \<in> set REGEX_SPECIAL then [CHR 0x5C, c] else [c])"
| "render_atom AnyText = ''.*''"
| "render_atom SegmentText = NOT_SEPARATOR @ ''*''"
| "render_atom SegmentChar = NOT_SEPARATOR"

definition render_regex :: "regex_atom list \<Rightarrow> str" where
  "render_regex as = ''^'' @ concat (map render_atom as) @ ''$''"

fun skip_some :: "(char \<Rightarrow> bool) \<Rightarrow> (str \<Rightarrow> bool) \<Rightarrow> str \<Rightarrow> bool" where
  "skip_some P Q [] = Q []"
| "skip_some P Q (c # t) = (Q (c # t) \<or> P c \<and> skip_some P Q t)"

fun atoms_match :: "regex_atom list \<Rightarrow> str \<Rightarrow> bool" where
  "atoms_match [] t = (t = [])"
| "atoms_match (Lit c # as) t = (case t of [] \<Rightarrow> False | d # t' \<Rightarrow> c = d \<and> atoms_match as t')"
| "atoms_match (SegmentChar # as) t =
     (case t of [] \<Rightarrow> False | d # t' \<Rightarrow> not_separator d \<and> atoms_match as t')"
| "atoms_match (AnyText # as) t = skip_some not_newline (atoms_match as) t"
| "atoms_match (SegmentText # as) t = skip_some not_separator (atoms_match as) t"

text \<open>
  What the documentation of the \<^verbatim>\<open>regex\<close> crate promises for these expressions: an anchored expression
  is searched as a whole; a literal or escaped character stands for itself, \<^verbatim>\<open>.\<close> for any character
  but a line feed, the negated class for any character outside it, \<^verbatim>\<open>*\<close> repeats.  Compilation may
  fail (a size limit), and then there is no answer.
\<close>

definition regex_documented :: "externals \<Rightarrow> bool" where
  "regex_documented E \<longleftrightarrow>
     (\<forall>as t. list_all atom_ok as \<longrightarrow>
        regex_is_match E (render_regex as) t = None \<or>
        regex_is_match E (render_regex as) t = Some (atoms_match as t))"

lemma skip_some_iff: "skip_some P Q t \<longleftrightarrow> (\<exists>u v. t = u @ v \<and> list_all P u \<and> Q v)"
proof
  show "skip_some P Q t \<Longrightarrow> \<exists>u v. t = u @ v \<and> list_all P u \<and> Q v"
  proof (induction t)
    case (Cons c t)
    then consider "Q (c # t)" | u v where "P c" "t = u @ v" "list_all P u" "Q v" by auto
    then show ?case
    proof cases
      case 1
      then show ?thesis by (intro exI [of _ "[]"] exI [of _ "c # t"]) simp
    next
      case 2
      then show ?thesis by (intro exI [of _ "c # u"] exI [of _ v]) simp
    qed
  qed simp
next
  have "list_all P u \<Longrightarrow> Q v \<Longrightarrow> skip_some P Q (u @ v)" for u v
    by (induction u) (cases v; simp)+
  then show "\<exists>u v. t = u @ v \<and> list_all P u \<and> Q v \<Longrightarrow> skip_some P Q t" by blast
qed

subsection \<open>The translation is correct\<close>

text \<open>\<open>glob_body\<close> with the expression kept as a list of atoms.\<close>

fun glob_atoms :: "str \<Rightarrow> regex_atom list" where
  "glob_atoms [] = []"
| "glob_atoms (c # cs) =
     (if c = CHR ''*'' then
        (case cs of
           d # ds \<Rightarrow>
             if d = CHR ''*'' then
               (case ds of
                  e # es \<Rightarrow> if e = CHR ''/'' then AnyText # glob_atoms es else AnyText # glob_atoms ds
                | [] \<Rightarrow> [AnyText])
             else SegmentText # glob_atoms cs
         | [] \<Rightarrow> [SegmentText])
      else if c = CHR ''?'' then SegmentChar # glob_atoms cs
      else Lit c # glob_atoms cs)"

text \<open>Induction over a pattern by the shapes the translation distinguishes.\<close>

lemma pattern_induct [case_names empty globstar_slash globstar star question literal]:
  assumes "P []"
    and "\<And>p. P p \<Longrightarrow> P (CHR ''*'' # CHR ''*'' # CHR ''/'' # p)"
    and "\<And>p. \<not> starts_with ''/'' p \<Longrightarrow> P p \<Longrightarrow> P (CHR ''*'' # CHR ''*'' # p)"
    and "\<And>p. \<not> starts_with ''*'' p \<Longrightarrow> P p \<Longrightarrow> P (CHR ''*'' # p)"
    and "\<And>p. P p \<Longrightarrow> P (CHR ''?'' # p)"
    and "\<And>c p. c \<notin> {CHR ''*'', CHR ''?''} \<Longrightarrow> P p \<Longrightarrow> P (c # p)"
  shows "P p"
proof (induction p rule: length_induct)
  case (1 p)
  consider "p = []" | q where "p = CHR ''*'' # CHR ''*'' # CHR ''/'' # q"
    | q where "p = CHR ''*'' # CHR ''*'' # q" "\<not> starts_with ''/'' q"
    | q where "p = CHR ''*'' # q" "\<not> starts_with ''*'' q" | q where "p = CHR ''?'' # q"
    | c q where "p = c # q" "c \<notin> {CHR ''*'', CHR ''?''}"
  proof (cases p)
    case (Cons c q)
    have single: "starts_with [x] r \<longleftrightarrow> (\<exists>r'. r = x # r')" for x r by (cases r) auto
    consider "c \<notin> {CHR ''*'', CHR ''?''}" | "c = CHR ''?''" | "c = CHR ''*''" "\<not> starts_with ''*'' q"
      | r where "c = CHR ''*''" "q = CHR ''*'' # r"
      using single by blast
    then show thesis
    proof cases
      case 4
      then show thesis using that(2,3) Cons single [of "CHR ''/''" r] by blast
    qed (use that Cons in blast)+
  qed (use that in blast)
  then show ?case by cases (use 1 assms in auto)
qed

lemma glob_star [simp]:
  "\<not> starts_with ''*'' p \<Longrightarrow> glob_atoms (CHR ''*'' # p) = SegmentText # glob_atoms p"
  "\<not> starts_with ''*'' p \<Longrightarrow> glob_body (CHR ''*'' # p) = NOT_SEPARATOR @ ''*'' @ glob_body p"
  by (cases p; simp)+

lemma glob_globstar [simp]:
  "\<not> starts_with ''/'' p \<Longrightarrow> glob_atoms (CHR ''*'' # CHR ''*'' # p) = AnyText # glob_atoms p"
  "\<not> starts_with ''/'' p \<Longrightarrow> glob_body (CHR ''*'' # CHR ''*'' # p) = ''.*'' @ glob_body p"
  by (cases p; simp)+

lemma glob_other [simp]:
  "c \<notin> {CHR ''*'', CHR ''?''} \<Longrightarrow> glob_atoms (c # p) = Lit c # glob_atoms p"
  "c \<notin> {CHR ''*'', CHR ''?''} \<Longrightarrow> glob_body (c # p) = render_atom (Lit c) @ glob_body p"
  by auto

declare glob_atoms.simps(2) [simp del] glob_body.simps(2) [simp del]

lemma glob_globstar_slash [simp]:
  "glob_atoms (CHR ''*'' # CHR ''*'' # CHR ''/'' # p) = AnyText # glob_atoms p"
  "glob_body (CHR ''*'' # CHR ''*'' # CHR ''/'' # p) = ''.*'' @ glob_body p"
  "glob_atoms (CHR ''?'' # p) = SegmentChar # glob_atoms p"
  "glob_body (CHR ''?'' # p) = NOT_SEPARATOR @ glob_body p"
  by (simp_all add: glob_atoms.simps(2) glob_body.simps(2))

lemma render_glob_atoms: "concat (map render_atom (glob_atoms p)) = glob_body p"
  by (induction p rule: pattern_induct) (simp_all del: render_atom.simps(1))

lemma glob_atoms_ok: "list_all atom_ok (glob_atoms p)"
  by (induction p rule: pattern_induct) (simp_all add: atom_ok_def)

lemma atoms_match_globs: "atoms_match (glob_atoms p) t \<longleftrightarrow> globs p t"
proof (induction p arbitrary: t rule: pattern_induct)
  case empty
  then show ?case by (auto simp: globs_Nil)
next
  case (globstar_slash p)
  then show ?case by (auto simp: skip_some_iff globs_Cons)
next
  case (globstar p)
  then show ?case by (auto simp: skip_some_iff globs_Cons)
next
  case (star p)
  then show ?case by (auto simp: skip_some_iff globs_Cons)
next
  case (question p)
  then show ?case by (cases t) (auto simp: globs_Cons)
next
  case (literal c p)
  then show ?case by (cases t) (auto simp: globs_Cons)
qed

lemma glob_to_regex_render: "glob_to_regex p = render_regex (glob_atoms p)"
  by (simp add: glob_to_regex_def render_regex_def render_glob_atoms)

lemma regex_glob:
  assumes "regex_documented E" and "regex_is_match E (glob_to_regex p) t \<noteq> None"
  shows "regex_is_match E (glob_to_regex p) t = Some (globs p t)"
proof -
  have "regex_is_match E (glob_to_regex p) t = None \<or>
      regex_is_match E (glob_to_regex p) t = Some (atoms_match (glob_atoms p) t)"
    using assms(1) glob_atoms_ok [of p] unfolding regex_documented_def glob_to_regex_render by blast
  with assms(2) show ?thesis by (auto simp: atoms_match_globs)
qed

subsection \<open>An engine that keeps the documented promise\<close>

text \<open>
  A matcher for the expressions of the translation: it reads the expression back into atoms.  It
  shows that the promise can be kept, and stands in for the crate where a concrete one is needed.
\<close>

function decode_regex :: "str \<Rightarrow> regex_atom list option" where
  "decode_regex s =
     (if s = [] then Some []
      else (case strip_prefix (NOT_SEPARATOR @ ''*'') s of
         Some r \<Rightarrow> map_option ((#) SegmentText) (decode_regex r)
       | None \<Rightarrow>
      (case strip_prefix NOT_SEPARATOR s of
         Some r \<Rightarrow> map_option ((#) SegmentChar) (decode_regex r)
       | None \<Rightarrow>
      (case strip_prefix ''.*'' s of
         Some r \<Rightarrow> map_option ((#) AnyText) (decode_regex r)
       | None \<Rightarrow>
         if hd s = CHR 0x5C then
           (case tl s of
              [] \<Rightarrow> None
            | c # r \<Rightarrow> map_option ((#) (Lit c)) (decode_regex r))
         else map_option ((#) (Lit (hd s))) (decode_regex (tl s))))))"
  by pat_completeness auto
termination
  by (relation "measure length") (auto simp: NOT_SEPARATOR_def neq_Nil_conv)

declare decode_regex.simps [simp del]

definition regex_engine :: "str \<Rightarrow> str \<Rightarrow> bool option" where
  "regex_engine pattern t = do {
     body \<leftarrow> strip_prefix ''^'' pattern;
     body \<leftarrow> strip_suffix ''$'' body;
     as \<leftarrow> decode_regex body;
     Some (atoms_match as t) }"

lemma strip_prefix_self [simp]: "strip_prefix p (p @ r) = Some r"
  by simp

lemma render_not_star: "list_all atom_ok as \<Longrightarrow> \<not> starts_with ''*'' (concat (map render_atom as))"
proof (cases as)
  case (Cons a as')
  assume "list_all atom_ok as"
  with Cons show ?thesis
    by (cases a) (auto simp: NOT_SEPARATOR_def REGEX_SPECIAL_def atom_ok_def)
qed simp

lemma decode_render: "list_all atom_ok as \<Longrightarrow> decode_regex (concat (map render_atom as)) = Some as"
proof (induction as)
  case (Cons a as)
  let ?r = "concat (map render_atom as)"
  have ih: "decode_regex ?r = Some as" using Cons by simp
  show ?case
  proof (cases a)
    case (Lit c)
    with Cons.prems have c: "c \<notin> set ''*?''" by (simp add: atom_ok_def)
    show ?thesis
    proof (cases "c \<in> set REGEX_SPECIAL")
      case True
      with Lit ih show ?thesis by (subst decode_regex.simps) (simp add: NOT_SEPARATOR_def)
    next
      case False
      with Lit ih show ?thesis
        by (subst decode_regex.simps) (auto simp: NOT_SEPARATOR_def REGEX_SPECIAL_def)
    qed
  next
    case AnyText
    with ih show ?thesis by (subst decode_regex.simps) (simp add: NOT_SEPARATOR_def)
  next
    case SegmentText
    then have "concat (map render_atom (a # as)) = (NOT_SEPARATOR @ ''*'') @ ?r" by simp
    then show ?thesis
      using ih SegmentText by (subst decode_regex.simps) (simp add: NOT_SEPARATOR_def)
  next
    case SegmentChar
    have "strip_prefix (NOT_SEPARATOR @ ''*'') (NOT_SEPARATOR @ ?r) = None"
      using render_not_star [of as] Cons.prems by (simp add: NOT_SEPARATOR_def strip_prefix_None_iff)
    with ih SegmentChar show ?thesis
      by (subst decode_regex.simps) (simp add: NOT_SEPARATOR_def)
  qed
qed (simp add: decode_regex.simps)

lemma regex_engine_render: "list_all atom_ok as \<Longrightarrow> regex_engine (render_regex as) t = Some (atoms_match as t)"
proof -
  assume as: "list_all atom_ok as"
  show ?thesis
    by (simp add: regex_engine_def render_regex_def decode_render [OF as] bind_eq_Some_conv)
qed

definition reference_externals :: externals where
  "reference_externals = \<lparr>regex_is_match = regex_engine, json_to_string = (\<lambda>v. None)\<rparr>"

lemma reference_regex_documented: "regex_documented reference_externals"
  by (simp add: regex_documented_def reference_externals_def regex_engine_render)

lemma reference_regex_answers: "regex_is_match reference_externals (glob_to_regex p) t \<noteq> None"
  by (simp add: reference_externals_def glob_to_regex_render regex_engine_render [OF glob_atoms_ok])

subsection \<open>The matcher\<close>

definition unix_separators :: "str \<Rightarrow> str" where
  "unix_separators = replace_char CHR 0x5C CHR ''/''"

lemma glob_match_glob:
  assumes "regex_documented E" and "\<not> ends_with '':*'' p"
    and "regex_is_match E (glob_to_regex p) (unix_separators t) \<noteq> None"
  shows "glob_match E p t \<longleftrightarrow> globs p (unix_separators t)"
proof -
  have "strip_suffix '':*'' p = None"
    using assms(2) by (cases "strip_suffix '':*'' p") (auto simp: ends_with_iff)
  with regex_glob [OF assms(1,3)] show ?thesis
    by (simp add: glob_match_def unix_separators_def Let_def)
qed

lemma globs_literal_prefix:
  assumes "list_all (\<lambda>c. c \<notin> {CHR ''*'', CHR ''?''}) d"
  shows "globs (d @ p) t \<longleftrightarrow> (\<exists>r. t = d @ r \<and> globs p r)"
  using assms
proof (induction d arbitrary: t)
  case (Cons c d)
  then show ?case by (cases t) (auto simp: globs_Cons)
qed simp



text \<open>A single star does not cross a directory boundary and a double star does: below a directory
  named without wildcards, \<open>dir/*\<close> matches only direct children, and \<open>dir/**\<close> matches every path
  below it (a path with a line feed excepted).\<close>

theorem star_stays_in_directory:
  assumes "regex_documented E" and "list_all (\<lambda>c. c \<notin> {CHR ''*'', CHR ''?''}) dir"
    and "regex_is_match E (glob_to_regex (dir @ ''/*'')) (unix_separators t) \<noteq> None"
    and "regex_is_match E (glob_to_regex (dir @ ''/**'')) (unix_separators t) \<noteq> None"
  shows "(glob_match E (dir @ ''/*'') t \<longleftrightarrow>
      (\<exists>f. unix_separators t = dir @ ''/'' @ f \<and> CHR ''/'' \<notin> set f)) \<and>
    (glob_match E (dir @ ''/**'') t \<longleftrightarrow>
      (\<exists>f. unix_separators t = dir @ ''/'' @ f \<and> CHR 0x0A \<notin> set f))"
proof -
  have dir: "list_all (\<lambda>c. c \<notin> {CHR ''*'', CHR ''?''}) (dir @ ''/'')" using assms(2) by simp
  have no_suffix: "\<not> ends_with '':*'' (dir @ ''/*'')" "\<not> ends_with '':*'' (dir @ ''/**'')"
    by (simp_all add: ends_with_def)
  have bsl: "CHR 0x5C \<notin> set f" if "unix_separators t = d @ f" for d f
  proof -
    have "CHR 0x5C \<notin> set (unix_separators t)" by (auto simp: unix_separators_def replace_char_def)
    with that show ?thesis by auto
  qed
  have one: "globs ''*'' r \<longleftrightarrow> list_all not_separator r" for r by (auto simp: globs_Cons globs_Nil)
  have two: "globs ''**'' r \<longleftrightarrow> list_all not_newline r" for r by (auto simp: globs_Cons globs_Nil)
  have "globs (dir @ ''/*'') s \<longleftrightarrow> (\<exists>f. s = dir @ ''/'' @ f \<and> list_all not_separator f)"
    "globs (dir @ ''/**'') s \<longleftrightarrow> (\<exists>f. s = dir @ ''/'' @ f \<and> list_all not_newline f)" for s
    using globs_literal_prefix [OF dir, of "''*''" s] globs_literal_prefix [OF dir, of "''**''" s]
    by (simp_all add: one two)
  then show ?thesis
    using glob_match_glob [OF assms(1) no_suffix(1) assms(3)]
      glob_match_glob [OF assms(1) no_suffix(2) assms(4)] bsl [of "dir @ ''/''"]
    by (auto simp: not_separator_def not_newline_def list_all_iff)
qed

theorem star_stays_in_directory_witness:
  "(glob_match reference_externals ''src/*'' ''src/a/b'' \<longleftrightarrow>
     (\<exists>f. unix_separators ''src/a/b'' = ''src'' @ ''/'' @ f \<and> CHR ''/'' \<notin> set f)) \<and>
   glob_match reference_externals ''src/**'' ''src/a/b''"
proof -
  have "list_all (\<lambda>c. c \<notin> {CHR ''*'', CHR ''?''}) ''src''" by simp
  note inst = star_stays_in_directory [OF reference_regex_documented this
      reference_regex_answers reference_regex_answers, of "''src/a/b''"]
  have "unix_separators ''src/a/b'' = ''src'' @ ''/'' @ ''a/b''"
    by (simp add: unix_separators_def replace_char_def)
  moreover have "CHR 0x0A \<notin> set ''a/b''" by simp
  ultimately have "glob_match reference_externals (''src'' @ ''/**'') ''src/a/b''"
    using inst by blast
  with inst show ?thesis by simp
qed

end
