(* ===== verification/PolicyProperties.thy ===== *)
theory PolicyProperties
  imports PermissionManagers GlobSemantics
begin

section \<open>Properties of permission decisions\<close>

text \<open>
  The properties of \<^verbatim>\<open>PermissionPolicy\<close> and \<^verbatim>\<open>PermissionManager\<close> that a host relies on.  Witnesses evaluate
  the model with \<open>reference_externals\<close>, an implementation of the two library parameters.
\<close>

subsection \<open>Deny rules and the floor\<close>

text \<open>C6. A deny rule wins: when some deny rule of the policy matches an invocation (for a batch read,
  any of its files), the decision is \<open>Deny\<close>, whatever the allow rules, lanes and enforcement say.\<close>

theorem deny_rule_wins:
  assumes "check E p tool args = Some d"
    and "r \<in> set (pol_deny p)" and "rule_matches E r tool args = Some True"
  shows "d = Deny"
  using assms by (rule check_deny)

definition two_files :: json where
  "two_files = JObject [(''files'', JArray [JObject [(''path'', JString ''src/a.rs'')],
     JObject [(''path'', JString ''secrets/k'')]])]"

definition no_secrets :: policy where
  "no_secrets = \<lparr>pol_deny = [rule_new ''read(secrets/*)''], pol_allow = [rule_new ''read''],
     pol_ask = [], pol_default_decision = Ask, pol_enforcement = Unrestricted\<rparr>"

theorem deny_rule_wins_witness:
  "\<exists>d. check reference_externals no_secrets ''read'' two_files = Some d \<and> d = Deny"
proof -
  have "rule_matches reference_externals (rule_new ''read(secrets/*)'') ''read'' two_files = Some True"
    by code_simp
  moreover have "rule_new ''read(secrets/*)'' \<in> set (pol_deny no_secrets)" by (simp add: no_secrets_def)
  moreover have "map_option (\<lambda>d. ()) (check reference_externals no_secrets ''read'' two_files) = Some ()"
    by code_simp
  then obtain d where "check reference_externals no_secrets ''read'' two_files = Some d" by auto
  ultimately show ?thesis using deny_rule_wins by blast
qed

lemma floor_denies:
  assumes "nameable_policy p" and "canonical_tool_name tool = Some n" and "eq_ignore_ascii_case n ''bash''"
    and "get_str args ''command'' = Some c" and "analyze c = Some a" and "an_risk a = Catastrophic"
  shows "check E p tool args = Some Deny"
proof -
  obtain d where d: "check_bash E p tool args c = Some d"
    using check_bash_answers [OF assms(1,2,5)] by blast
  with catastrophic_denied [OF d assms(5,6)] check_shell [OF assms(2-4)] show ?thesis by simp
qed

text \<open>The catastrophic floor: a shell invocation whose command is classified \<open>Catastrophic\<close> is
  denied under every policy, with every allow rule, lane and enforcement, and the check answers.\<close>

theorem catastrophic_floor:
  assumes "nameable_policy p" and "canonical_tool_name tool = Some n" and "eq_ignore_ascii_case n ''bash''"
    and "get_str args ''command'' = Some c" and "analyze c = Some a" and "an_risk a = Catastrophic"
  shows "check E p tool args = Some Deny"
  using assms by (rule floor_denies)

definition unrestricted :: policy where
  "unrestricted = \<lparr>pol_deny = [], pol_allow = [rule_new ''Bash''], pol_ask = [],
     pol_default_decision = Allow, pol_enforcement = Unrestricted\<rparr>"

definition shell_args :: "str \<Rightarrow> json" where
  "shell_args c = JObject [(''command'', JString c)]"

lemma get_shell_args [simp]: "get_str (shell_args c) ''command'' = Some c"
  by (simp add: shell_args_def get_str_def)

theorem catastrophic_floor_witness:
  "check reference_externals unrestricted ''functions.Bash'' (shell_args ''ls; mkfs.ext4 /dev/sda1'') = Some Deny"
proof -
  have "map_option an_risk (analyze_lexed ''ls; mkfs.ext4 /dev/sda1'') = Some Catastrophic" by code_simp
  then obtain a where "analyze ''ls; mkfs.ext4 /dev/sda1'' = Some a" "an_risk a = Catastrophic"
    by (auto simp: analyze_short MAX_SOURCE_BYTES_def)
  moreover have "nameable_policy unrestricted" by code_simp
  moreover have "canonical_tool_name ''functions.Bash'' = Some ''Bash''" by code_simp
  moreover have "eq_ignore_ascii_case ''Bash'' ''bash''" by code_simp
  ultimately show ?thesis using catastrophic_floor by (metis get_shell_args)
qed

text \<open>Adding a deny rule only narrows a policy: the decision stays the same or becomes \<open>Deny\<close>.\<close>

theorem adding_deny_narrows:
  assumes "check E p tool args = Some d" and "check E (add_deny rule p) tool args = Some d'"
  shows "d' = Deny \<or> d' = d"
  using assms by (rule check_add_deny)

theorem adding_deny_narrows_witness:
  "\<exists>d d'. check reference_externals policy_new ''read'' two_files = Some d \<and>
     check reference_externals (add_deny ''read(secrets/*)'' policy_new) ''read'' two_files = Some d' \<and>
     (d' = Deny \<or> d' = d)"
proof -
  have "map_option (\<lambda>d. ()) (check reference_externals policy_new ''read'' two_files) = Some ()"
    "map_option (\<lambda>d. ()) (check reference_externals (add_deny ''read(secrets/*)'' policy_new) ''read'' two_files)
      = Some ()" by code_simp+
  then obtain d d' where "check reference_externals policy_new ''read'' two_files = Some d"
    "check reference_externals (add_deny ''read(secrets/*)'' policy_new) ''read'' two_files = Some d'" by auto
  with adding_deny_narrows show ?thesis by blast
qed

subsection \<open>Allow rules\<close>

text \<open>An argument-scoped allow covers the whole command line: when an enforced policy that neither
  allows by default nor has a lane or blanket allow for the tool allows a shell invocation, the line has
  no opaque construct and every simple command in it, nested ones included, writes no file and matches
  an allow rule as written.\<close>

theorem scoped_allow_covers_every_command:
  assumes "canonical_tool_name tool = Some n" and "eq_ignore_ascii_case n ''bash''"
    and "get_str args ''command'' = Some c" and "analyze c = Some a"
    and "pol_enforcement p = Enforced" and "pol_default_decision p \<noteq> Allow"
    and "\<forall>r \<in> set (pol_allow p). lane_or_blanket E tool r \<noteq> Some True"
    and "check E p tool args = Some Allow"
  shows "\<not> is_opaque a \<and> (\<forall>x \<in> set (an_commands a). \<not> cmd_writes_file x \<and>
      (\<exists>r \<in> set (pol_allow p). matches_shell_command E r tool (literal_text x) = Some True))"
  using scoped_allow [OF _ assms(4-6)] assms(7,8) check_shell [OF assms(1-3)] by simp

theorem scoped_allow_covers_every_command_witness:
  "\<exists>a. analyze ''ls | wc -l'' = Some a \<and> (\<forall>x \<in> set (an_commands a). \<not> cmd_writes_file x)"
proof -
  let ?E = reference_externals and ?p = explore_permissions and ?c = "''ls | wc -l''"
  have "map_option (\<lambda>a. ()) (analyze_lexed ?c) = Some ()" by code_simp
  then obtain a where a: "analyze ?c = Some a" by (auto simp: analyze_short MAX_SOURCE_BYTES_def)
  have chk: "check ?E ?p ''bash'' (shell_args ?c) = Some Allow" by code_simp
  have "list_all (\<lambda>r. lane_or_blanket ?E ''bash'' r \<noteq> Some True) (pol_allow ?p)" by code_simp
  then have lane: "\<forall>r \<in> set (pol_allow ?p). lane_or_blanket ?E ''bash'' r \<noteq> Some True"
    by (simp only: list_all_iff)
  have bash: "canonical_tool_name ''bash'' = Some ''bash''" "eq_ignore_ascii_case ''bash'' ''bash''" by code_simp+
  have enf: "pol_enforcement ?p = Enforced" "pol_default_decision ?p \<noteq> Allow"
    by (simp_all add: explore_permissions_code)
  from scoped_allow_covers_every_command [OF bash get_shell_args a enf lane chk] a show ?thesis by blast
qed

text \<open>A batch read is allowed exactly if every one of its files is allowed on its own, and it is
  denied as soon as one of them is.\<close>

theorem batch_read_needs_every_file:
  assumes "batch_paths tool args = Some (Inr (Some ps))"
  shows "(check E p tool args = Some Allow \<longleftrightarrow> (\<forall>x \<in> set ps. check E p tool (read_member x) = Some Allow)) \<and>
    (\<forall>x \<in> set ps. \<forall>d. check E p tool (read_member x) = Some Deny \<longrightarrow> check E p tool args = Some d \<longrightarrow> d = Deny)"
  using policy_batch.batch_allow_iff [OF assms] policy_batch.batch_denied_by_member [OF assms] by fastforce

theorem batch_read_needs_every_file_witness:
  "check reference_externals no_secrets ''read'' two_files \<noteq> Some Allow"
proof -
  have "batch_paths ''read'' two_files = Some (Inr (Some [''src/a.rs'', ''secrets/k'']))" by code_simp
  from batch_read_needs_every_file [OF this, of reference_externals no_secrets]
  have "check reference_externals no_secrets ''read'' two_files = Some Allow \<longrightarrow>
    check reference_externals no_secrets ''read'' (read_member ''secrets/k'') = Some Allow" by simp
  moreover have "check reference_externals no_secrets ''read'' (read_member ''secrets/k'') \<noteq> Some Allow" by code_simp
  ultimately show ?thesis by blast
qed

subsection \<open>Tool names\<close>

lemma utf8_width_lower: "utf8_width (ascii_lower c) = utf8_width c"
  by (auto simp: utf8_width_def ascii_lower_def is_ascii_upper_def code_def of_char_of)

lemma utf8_len_lower: "utf8_len (to_ascii_lowercase s) = utf8_len s"
  by (simp add: utf8_len_def to_ascii_lowercase_def utf8_width_lower comp_def)

lemma canonical_prefixed:
  assumes "eq_ignore_ascii_case pre FUNCTIONS_PREFIX" "tool \<noteq> []"
  shows "canonical_tool_name (pre @ tool) = Some tool"
proof -
  have len: "utf8_len pre = utf8_len FUNCTIONS_PREFIX"
    using assms(1) utf8_len_lower [of pre] utf8_len_lower [of FUNCTIONS_PREFIX]
    by (simp add: eq_ignore_ascii_case_def)
  moreover have "0 < utf8_len tool" using assms(2) by (cases tool) (auto simp: utf8_len_def utf8_width_def)
  ultimately show ?thesis
    using byte_split_front [of pre tool] assms(1) by (simp add: canonical_tool_name_def utf8_len_def)
qed

text \<open>A \<open>functions.\<close> prefix, in any case, changes no decision: for a policy without lane rules,
  the prefixed name of a tool is decided like the tool itself, for every argument.\<close>

theorem functions_prefix_is_transparent:
  assumes "eq_ignore_ascii_case pre FUNCTIONS_PREFIX" and "tool \<noteq> []"
    and "canonical_tool_name tool = Some tool" and "no_lane_rules p"
  shows "check E p (pre @ tool) args = check E p tool args"
proof -
  have "canonical_tool_name (pre @ tool) = canonical_tool_name tool"
    using canonical_prefixed [OF assms(1,2)] assms(3) by simp
  from same_check [OF this assms(4)] show ?thesis .
qed

theorem functions_prefix_is_transparent_witness:
  "check reference_externals no_secrets ''FUNCTIONS.read'' two_files =
   check reference_externals no_secrets ''read'' two_files"
proof -
  have "eq_ignore_ascii_case ''FUNCTIONS.'' FUNCTIONS_PREFIX" "canonical_tool_name ''read'' = Some ''read''"
    "no_lane_rules no_secrets" by code_simp+
  from functions_prefix_is_transparent [OF this(1) _ this(2,3), of reference_externals two_files]
  show ?thesis by simp
qed

text \<open>A tool name whose tenth byte lies inside a multi-byte character makes the name canonicaliser
  slice off a character boundary: it panics, and so does every permission check of that name.\<close>

theorem misaligned_tool_name_panics:
  assumes "utf8_len pre = 9" and "1 < utf8_width c"
  shows "canonical_tool_name (pre @ c # rest) = None \<and> check E p (pre @ c # rest) args = None"
proof -
  have "byte_split 10 (pre @ c # rest) = None"
    using byte_split_inside [of pre 10 c rest] assms by simp
  moreover have "utf8_len FUNCTIONS_PREFIX = 10" by code_simp
  moreover have "10 < utf8_len (pre @ c # rest)" using assms by (simp add: utf8_len_def)
  ultimately have "canonical_tool_name (pre @ c # rest) = None" by (simp add: canonical_tool_name_def)
  with check_panics show ?thesis by blast
qed

theorem misaligned_tool_name_panics_witness:
  "check reference_externals policy_new (''mcp__caf__'' @ [CHR 0xE9]) (shell_args []) \<noteq> None \<and>
   check reference_externals policy_new (''mcp__caf_'' @ CHR 0xE9 # ''x'') (shell_args []) = None"
proof
  show "check reference_externals policy_new (''mcp__caf__'' @ [CHR 0xE9]) (shell_args []) \<noteq> None" by code_simp
  have "utf8_len ''mcp__caf_'' = 9" "1 < utf8_width CHR 0xE9" by code_simp+
  with misaligned_tool_name_panics
  show "check reference_externals policy_new (''mcp__caf_'' @ CHR 0xE9 # ''x'') (shell_args []) = None" by blast
qed

text \<open>A permission check answers: with a policy whose rules have sliceable names, a sliceable tool
  name and, for a shell invocation, a command line without stalling characters.\<close>

theorem permission_check_answers:
  assumes "nameable_policy p" and "canonical_tool_name tool \<noteq> None"
    and "\<forall>c. get_str args ''command'' = Some c \<longrightarrow> calm c"
  shows "\<exists>d. check E p tool args = Some d"
  using check_answers [OF assms(1)] assms(2,3) by blast

theorem permission_check_answers_witness:
  "\<exists>d. check reference_externals explore_permissions ''bash'' (shell_args ''make -j8'') = Some d"
proof -
  have "nameable_policy explore_permissions" "canonical_tool_name ''bash'' \<noteq> None" "calm ''make -j8''"
    by code_simp+
  with permission_check_answers show ?thesis by (metis get_shell_args option.inject)
qed

subsection \<open>Visibility and enforcement\<close>

text \<open>Hiding a tool from the model is sound: when a policy without lane rules does not expose a
  tool, every invocation of it is denied, whatever its arguments.\<close>

theorem hidden_tool_is_denied:
  assumes "expose_to_model E p tool = Some False" and "no_lane_rules p"
    and "check E p tool args = Some d"
  shows "d = Deny"
  using assms by (rule hidden_denied)

theorem hidden_tool_is_denied_witness:
  "\<exists>d. check reference_externals explore_permissions ''delete'' two_files = Some d \<and> d = Deny"
proof -
  have "expose_to_model reference_externals explore_permissions ''delete'' = Some False"
    "no_lane_rules explore_permissions" by code_simp+
  moreover have "map_option (\<lambda>d. ()) (check reference_externals explore_permissions ''delete'' two_files) = Some ()"
    by code_simp
  then obtain d where "check reference_externals explore_permissions ''delete'' two_files = Some d" by auto
  ultimately show ?thesis using hidden_tool_is_denied by blast
qed

text \<open>Unrestricted enforcement, or a lane rule for the tool's lane, never asks and denies only for
  a reason: a deny rule that matches the invocation or one of its simple commands, the catastrophic
  floor, or a malformed batch read.\<close>

theorem permissive_denies_only_for_a_reason:
  assumes "check E p tool args = Some d" and "permissive p tool"
    and "batch_paths tool args = Some (Inr None)"
  shows "d = Allow \<or> d = Deny \<and> (shell_floor tool args \<or> denied_by_rule E p tool args)"
  using permissive_scalar assms policy_batch.no_batch by metis

theorem permissive_denies_only_for_a_reason_witness:
  "\<exists>d. check reference_externals (policy_for_posture ''YOLO '') ''bash'' (shell_args ''make'') = Some d \<and>
     (d = Allow \<or> d = Deny \<and> (shell_floor ''bash'' (shell_args ''make'') \<or>
        denied_by_rule reference_externals (policy_for_posture ''YOLO '') ''bash'' (shell_args ''make'')))"
proof -
  let ?p = "policy_for_posture ''YOLO ''"
  have p: "?p = allow_yolo_lanes [Query, Execute] policy_new"
  proof -
    have "to_ascii_lowercase (trim ''YOLO '') = ''yolo''" by code_simp
    then show ?thesis by (simp add: policy_for_posture_def)
  qed
  have "permissive (allow_yolo_lanes [Query, Execute] policy_new) ''bash''"
    "map_option (\<lambda>d. ()) (check reference_externals (allow_yolo_lanes [Query, Execute] policy_new) ''bash''
       (shell_args ''make'')) = Some ()"
    "batch_paths ''bash'' (shell_args ''make'') = Some (Inr None)" by code_simp+
  then show ?thesis using permissive_denies_only_for_a_reason unfolding p by blast
qed

definition EFFECTS :: "str list" where
  "EFFECTS = [''write'', ''edit'', ''download'', ''bash'', ''task'', ''parallel_task'']"

lemma effect_rules:
  assumes "k \<in> set EFFECTS"
  shows "rule_new k \<in> set (pol_deny plan_permissions)"
    and "pr_tool_name (rule_new k) = Some k" "pr_arg_pattern (rule_new k) = None"
    and "canonical_tool_name k = Some k" "CHR ''*'' \<notin> set k" "CHR ''?'' \<notin> set k"
    and "\<not> starts_with ''mcp__'' k" "to_ascii_lowercase k = k"
proof -
  show "rule_new k \<in> set (pol_deny plan_permissions)"
    using assms by (auto simp: plan_permissions_code EFFECTS_def)
  have "list_all (\<lambda>k. pr_tool_name (rule_new k) = Some k \<and> pr_arg_pattern (rule_new k) = None \<and>
      canonical_tool_name k = Some k \<and> CHR ''*'' \<notin> set k \<and> CHR ''?'' \<notin> set k \<and>
      \<not> starts_with ''mcp__'' k \<and> to_ascii_lowercase k = k) EFFECTS" by code_simp
  with assms show "pr_tool_name (rule_new k) = Some k" "pr_arg_pattern (rule_new k) = None"
    "canonical_tool_name k = Some k" "CHR ''*'' \<notin> set k" "CHR ''?'' \<notin> set k"
    "\<not> starts_with ''mcp__'' k" "to_ascii_lowercase k = k" by (simp_all add: list_all_iff)
qed

text \<open>The plan posture is read-only at the tool level: writing, editing, downloading, the shell and
  delegation are denied for all arguments under any case of the tool's name, and the check answers
  (for the shell, on a command line without stalling characters).\<close>

theorem plan_posture_denies_effects:
  assumes "to_ascii_lowercase tool \<in> set [''write'', ''edit'', ''download'', ''bash'', ''task'', ''parallel_task'']"
    and "canonical_tool_name tool = Some tool"
    and "\<forall>c. get_str args ''command'' = Some c \<longrightarrow> calm c"
  shows "check E (policy_for_posture ''plan'') tool args = Some Deny"
proof -
  let ?k = "to_ascii_lowercase tool"
  have "to_ascii_lowercase (trim ''plan'') = ''plan''" by code_simp
  then have plan: "policy_for_posture ''plan'' = plan_permissions" by (simp add: policy_for_posture_def)
  have "nameable_policy plan_permissions" by code_simp
  from check_answers [OF this assms(2)] assms(3) obtain d where d: "check E plan_permissions tool args = Some d"
    by blast
  have k: "?k \<in> set EFFECTS" using assms(1) by (simp add: EFFECTS_def)
  note r = effect_rules [OF k]
  have "matches_tool E (rule_new ?k) tool = Some True"
    using r assms(2) by (simp add: matches_tool_def matches_tool_name_def eq_ignore_ascii_case_def)
  from blanket_deny [OF d r(1) this] r(3) have "d = Deny" by (simp add: matches_all_args_def)
  with d plan show ?thesis by simp
qed

theorem plan_posture_denies_effects_witness:
  "check reference_externals (policy_for_posture ''plan'') ''Bash'' (shell_args ''ls'') = Some Deny"
proof -
  have "to_ascii_lowercase ''Bash'' = ''bash''" "canonical_tool_name ''Bash'' = Some ''Bash''" "calm ''ls''"
    by code_simp+
  then show ?thesis by (intro plan_posture_denies_effects) simp_all
qed

text \<open>The serialized form of a policy never loosens it: decoding keeps the three rule lists and the
  default, yields \<open>Unrestricted\<close> exactly when the wire says so, and rejects exactly the wires that
  use the retired \<open>enabled: false\<close> without it.\<close>

theorem wire_policy_is_not_loosened:
  "(\<forall>p. policy_try_from w = Inr p \<longrightarrow>
      pol_deny p = wire_deny w \<and> pol_allow p = wire_allow w \<and> pol_ask p = wire_ask w \<and>
      pol_default_decision p = wire_default_decision w \<and>
      (pol_enforcement p = Unrestricted \<longleftrightarrow> wire_enforcement w = Some Unrestricted)) \<and>
   ((\<exists>e. policy_try_from w = Inl e) \<longleftrightarrow>
      wire_enabled w = Some False \<and> wire_enforcement w \<noteq> Some Unrestricted)"
  by (auto simp: policy_try_from_def Enforcement_resolve_def split: option.splits sum.splits if_splits)
    (metis enforcement.exhaust)+

theorem wire_policy_is_not_loosened_witness:
  "\<exists>e. policy_try_from \<lparr>wire_deny = [], wire_allow = [], wire_ask = [], wire_default_decision = Ask,
     wire_enforcement = None, wire_enabled = Some False\<rparr> = Inl e"
  using wire_policy_is_not_loosened [of "\<lparr>wire_deny = [], wire_allow = [], wire_ask = [],
     wire_default_decision = Ask, wire_enforcement = None, wire_enabled = Some False\<rparr>"] by simp

subsection \<open>The permission manager\<close>

text \<open>The manager applies the deny rules of both policies: when a deny rule of the session's policy
  or of the global one matches an invocation, the decision is \<open>Deny\<close>.\<close>

theorem manager_deny_wins:
  assumes "manager_check E m s tool args = Some d"
    and "r \<in> set (pol_deny (get_effective_policy m s)) \<union> set (pol_deny (mgr_global_policy m))"
    and "rule_matches E r tool args = Some True"
  shows "d = Deny"
proof -
  obtain b where b: "batch_paths tool args = Some b"
    using assms(1) by (auto simp: manager_check_def batch_check_def bind_eq_Some_conv)
  consider (bad) e where "b = Inl e" | (scalar) "b = Inr None" | (batch) ps where "b = Inr (Some ps)"
    by (metis sum.exhaust_sel option.exhaust)
  then show ?thesis
  proof cases
    case bad
    with b assms(1) batch_paths_error manager_batch.malformed_batch show ?thesis by fastforce
  next
    case scalar
    with b assms manager_batch.no_batch manager_rules_deny show ?thesis by metis
  next
    case batch
    with b have b': "batch_paths tool args = Some (Inr (Some ps))" by simp
    obtain n where n: "canonical_tool_name tool = Some n" using batch_paths_Some [OF b'] by blast
    from batch_rule_member [OF b' assms(3)] obtain x where x: "x \<in> set ps"
      "rule_matches E r tool (read_member x) = Some True" by blast
    show ?thesis
      by (rule manager_batch.batch_denied_by_member [OF b' assms(1) x(1)])
        (use manager_rules_deny [OF _ assms(2) x(2)] manager_batch.member_is_scalar [OF n] in simp)
  qed
qed

definition guarded_manager :: manager where
  "guarded_manager = set_session_policy ''s1'' unrestricted
     (manager_with_global_policy (add_deny ''read(secrets/*)'' policy_new))"

theorem manager_deny_wins_witness:
  "\<exists>d. manager_check reference_externals guarded_manager ''s1'' ''read'' two_files = Some d \<and> d = Deny"
proof -
  have "map_option (\<lambda>d. ()) (manager_check reference_externals guarded_manager ''s1'' ''read'' two_files) = Some ()"
    "rule_matches reference_externals (rule_new ''read(secrets/*)'') ''read'' two_files = Some True" by code_simp+
  moreover have "rule_new ''read(secrets/*)'' \<in> set (pol_deny (mgr_global_policy guarded_manager))"
    by (simp add: guarded_manager_def set_session_policy_def manager_with_global_policy_def add_deny_def)
  ultimately show ?thesis using manager_deny_wins by fastforce
qed

text \<open>Sessions are isolated: setting or removing the policy of one session changes no decision of
  another, and setting a policy and removing it again restores every decision of a session that had
  none.\<close>

theorem sessions_are_isolated:
  "(t \<noteq> s \<longrightarrow> manager_check E (set_session_policy s p m) t = manager_check E m t \<and>
      manager_check E (remove_session_policy s m) t = manager_check E m t) \<and>
   (mgr_session_policies m s = None \<longrightarrow>
      manager_check E (remove_session_policy s (set_session_policy s p m)) = manager_check E m)"
proof (intro conjI impI)
  assume "t \<noteq> s"
  then show "manager_check E (set_session_policy s p m) t = manager_check E m t"
    "manager_check E (remove_session_policy s m) t = manager_check E m t"
    by (intro manager_check_cong manager_rules_cong;
        simp add: get_effective_policy_def set_session_policy_def remove_session_policy_def
          split: option.split)+
next
  assume "mgr_session_policies m s = None"
  then have "remove_session_policy s (set_session_policy s p m) = m"
    by (simp add: set_session_policy_def remove_session_policy_def fun_upd_idem)
  then show "manager_check E (remove_session_policy s (set_session_policy s p m)) = manager_check E m" by simp
qed

theorem sessions_are_isolated_witness:
  "manager_check reference_externals (set_session_policy ''s2'' unrestricted guarded_manager) ''s1'' =
   manager_check reference_externals guarded_manager ''s1''"
  using sessions_are_isolated [of "''s1''" "''s2''"] by simp

text \<open>For a session without its own policy, the manager decides exactly like the global policy,
  provided the policy is enforced and has no lane rules and the invocation is not a shell command
  (for which the manager does not look at the shell analysis).\<close>

theorem manager_agrees_with_policy:
  assumes "mgr_session_policies m s = None"
    and "pol_enforcement (mgr_global_policy m) = Enforced" and "no_lane_rules (mgr_global_policy m)"
    and "canonical_tool_name tool = Some n" and "\<not> eq_ignore_ascii_case n ''bash''"
  shows "manager_check E m s tool args = check E (mgr_global_policy m) tool args"
proof -
  let ?p = "mgr_global_policy m"
  have lanes: "any_m (\<lambda>rule. if pr_rule rule = yolo_lane_rule (from_tool_name tool) then Some True
      else rule_matches E rule tool v) (pol_allow ?p) = any_m (\<lambda>rule. rule_matches E rule tool v) (pol_allow ?p)" for v
    by (rule any_m_cong) (use not_lane_rule [OF assms(3)] in simp)
  have "manager_rules E m s tool v = check_scalar E ?p tool v" for v
    using assms(1,2,4,5)
    by (simp add: manager_rules_def check_scalar_def check_rules_def get_effective_policy_def lanes
        Let_def cong: if_cong)
  then have "manager_rules E m s tool = check_scalar E ?p tool" by blast
  then show ?thesis by (simp only: manager_check_def check_def)
qed

theorem manager_agrees_with_policy_witness:
  "manager_check reference_externals (manager_with_global_policy plan_permissions) ''s'' ''read'' two_files =
   check reference_externals plan_permissions ''read'' two_files"
proof -
  have "no_lane_rules plan_permissions" "canonical_tool_name ''read'' = Some ''read''"
    "\<not> eq_ignore_ascii_case ''read'' ''bash''" by code_simp+
  with manager_agrees_with_policy [of "manager_with_global_policy plan_permissions" "''s''" "''read''" "''read''"]
  show ?thesis by (simp add: manager_with_global_policy_def plan_permissions_code)
qed

text \<open>The manager has no catastrophic floor: with a global policy that allows the shell, it allows a
  command line that the policy itself denies.\<close>

theorem manager_has_no_floor:
  "manager_check reference_externals (manager_with_global_policy unrestricted) ''s'' ''bash''
     (shell_args ''rm -rf /'') = Some Allow \<and>
   check reference_externals unrestricted ''bash'' (shell_args ''rm -rf /'') = Some Deny"
proof
  show "manager_check reference_externals (manager_with_global_policy unrestricted) ''s'' ''bash''
     (shell_args ''rm -rf /'') = Some Allow" by code_simp
  show "check reference_externals unrestricted ''bash'' (shell_args ''rm -rf /'') = Some Deny" by code_simp
qed

subsection \<open>Rule text\<close>

text \<open>Parsing a rule inverts writing it: \<open>Tool(pattern)\<close> parses to its tool and pattern, whatever
  the pattern, and a bare name to the tool and no pattern, except for the retired search tools, which
  become a \<open>search\<close> rule restricted to their mode.\<close>

theorem rule_text_round_trip:
  assumes "CHR ''('' \<notin> set tool" and "to_ascii_lowercase tool \<notin> set [''grep'', ''glob'', ''bm25'']"
    and "mode \<in> set [''grep'', ''glob'', ''bm25'']" and "pattern \<noteq> ''*''"
  shows "parse_rule (tool @ ''('' @ pattern @ '')'') = (Some tool, Some pattern) \<and>
    parse_rule tool = (Some tool, None) \<and>
    parse_rule (mode @ ''('' @ pattern @ '')'') = (Some ''search'', Some (mode @ '' '' @ pattern)) \<and>
    parse_rule mode = (Some ''search'', Some (mode @ '' **''))"
proof (intro conjI)
  have whole: "CHR ''('' \<notin> set t \<Longrightarrow> takeWhile (\<lambda>c. c \<noteq> CHR ''('') t = t" for t :: str
    by (auto simp: takeWhile_eq_all_conv)
  have split: "CHR ''('' \<notin> set t \<Longrightarrow>
      parse_rule (t @ ''('' @ pat @ '')'') = canonicalize_search_rule t (Some pat)" for t pat
    by (auto simp: parse_rule_def ends_with_def whole takeWhile_append dropWhile_append)
  have "list_all (\<lambda>m. CHR ''('' \<notin> set m \<and> to_ascii_lowercase m = m) [''grep'', ''glob'', ''bm25'']" by code_simp
  then have m: "CHR ''('' \<notin> set mode" "to_ascii_lowercase mode = mode" using assms(3) by auto
  show "parse_rule (tool @ ''('' @ pattern @ '')'') = (Some tool, Some pattern)"
    unfolding split [OF assms(1)] using assms(2) by (simp add: canonicalize_search_rule_def Let_def)
  show "parse_rule tool = (Some tool, None)"
    using assms(1,2) by (simp add: parse_rule_def canonicalize_search_rule_def Let_def)
  show "parse_rule (mode @ ''('' @ pattern @ '')'') = (Some ''search'', Some (mode @ '' '' @ pattern))"
    unfolding split [OF m(1)] using assms(3,4) m(2) by (simp add: canonicalize_search_rule_def Let_def)
  show "parse_rule mode = (Some ''search'', Some (mode @ '' **''))"
    using assms(3) m by (simp add: parse_rule_def canonicalize_search_rule_def Let_def)
qed

theorem rule_text_round_trip_witness:
  "parse_rule ''Bash(echo ())'' = (Some ''Bash'', Some ''echo ()'') \<and>
   parse_rule ''grep'' = (Some ''search'', Some ''grep **'')"
proof -
  have "to_ascii_lowercase ''Bash'' \<notin> set [''grep'', ''glob'', ''bm25'']" by code_simp
  then show ?thesis using rule_text_round_trip [of "''Bash''" "''grep''" "''echo ()''"] by simp
qed

end
