(* ===== verification/RiskAssessments.thy ===== *)
theory RiskAssessments
  imports PermissionRules
begin

section \<open>Risk assessments and approval modes\<close>

text \<open>
  \<^verbatim>\<open>core/src/permissions/risk.rs\<close>, the assessment builders of
  \<^verbatim>\<open>core/src/permissions/interactive/assessment.rs\<close> and the mode matrix of
  \<^verbatim>\<open>core/src/permissions/interactive.rs\<close>.  Constructor names that several of the source's enums share
  (\<^verbatim>\<open>Workspace\<close>, \<^verbatim>\<open>Host\<close>, \<^verbatim>\<open>Unknown\<close>, ...) carry the enum in their name here.
\<close>

subsection \<open>Vocabulary\<close>

datatype risk_level = Routine | Bounded | High | Critical

fun level_rank :: "risk_level \<Rightarrow> nat" where
  "level_rank Routine = 0"
| "level_rank Bounded = 1"
| "level_rank High = 2"
| "level_rank Critical = 3"

lemma level_rank_inject: "level_rank a = level_rank b \<longleftrightarrow> a = b"
  by (cases a; cases b) simp_all

instantiation risk_level :: linorder
begin

definition less_eq_risk_level :: "risk_level \<Rightarrow> risk_level \<Rightarrow> bool" where
  "less_eq_risk_level a b \<longleftrightarrow> level_rank a \<le> level_rank b"

definition less_risk_level :: "risk_level \<Rightarrow> risk_level \<Rightarrow> bool" where
  "less_risk_level a b \<longleftrightarrow> level_rank a < level_rank b"

instance
  by standard (auto simp: less_eq_risk_level_def less_risk_level_def level_rank_inject)

end

lemmas level_order = less_eq_risk_level_def less_risk_level_def

lemma level_bounds [simp]: "Routine \<le> l" "l \<le> Critical" "Critical \<le> l \<longleftrightarrow> l = Critical"
  by (cases l; simp add: level_order)+

datatype risk_action = AllowAction | RequireConfirmation | ReviewByLlm | RuleDeny

datatype risk_type =
    ReadOnlyTool | WorkspaceMutation | CommandExecution | VersionControl | NetworkRead | Delegation
  | DynamicExecution | ExternalIntegration | Composite | UnknownTool

datatype operation_target =
    WorkspaceTarget | OutsideWorkspace | PublicNetwork | ExternalServiceTarget | HostEnvironment
  | PrivilegedSystem | MultipleTargets | UnknownTarget

datatype impact_scope =
    Observation | SingleResource | WorkspaceScope | ExternalServiceScope | HostScope | SystemWide
  | UnknownScope

datatype reversibility =
    NotApplicable | Easy | Conditional | Difficult | Irreversible | UnknownReversibility

datatype sensitivity =
    NoSensitivity | WorkspaceSensitivity | NetworkSensitivity | HostSensitivity | Credentials
  | PrivilegedSensitivity | MixedSensitivity | UnknownSensitivity

datatype risk_reason =
    KnownReadOnly | BoundedWorkspaceMutation | BoundedVersionControlMutation
  | UnboundedCommandExecution | DynamicOrDelegatedExecution | ExternalOrUnknownIntegration
  | EnvironmentSensitiveOperation | ForceOrDestructiveOperation | MalformedOrUnknownOperation
  | WorkspaceBoundaryEscape | SymlinkBoundaryEscape | CatastrophicOperation | CompositeInvocation

record risk_dimensions =
  dim_tool_type :: risk_type
  dim_operation_target :: operation_target
  dim_impact_scope :: impact_scope
  dim_reversibility :: reversibility
  dim_environment_sensitivity :: sensitivity

definition dimensions_new ::
    "risk_type \<Rightarrow> operation_target \<Rightarrow> impact_scope \<Rightarrow> reversibility \<Rightarrow> sensitivity \<Rightarrow> risk_dimensions" where
  "dimensions_new ty target scope rv sens =
     \<lparr>dim_tool_type = ty, dim_operation_target = target, dim_impact_scope = scope,
      dim_reversibility = rv, dim_environment_sensitivity = sens\<rparr>"

record assessment =
  as_level :: risk_level
  as_dimensions :: risk_dimensions
  as_reasons :: "risk_reason list"

text \<open>The first occurrence of every reason, in order.\<close>

definition dedup_reasons :: "risk_reason list \<Rightarrow> risk_reason list" where
  "dedup_reasons rs = fold (\<lambda>r out. if r \<in> set out then out else out @ [r]) rs []"

definition assessment_new :: "risk_level \<Rightarrow> risk_dimensions \<Rightarrow> risk_reason list \<Rightarrow> assessment" where
  "assessment_new level dims reasons =
     \<lparr>as_level = level, as_dimensions = dims, as_reasons = dedup_reasons reasons\<rparr>"

lemma assessment_new_sel [simp]:
  "as_level (assessment_new l d rs) = l" "as_dimensions (assessment_new l d rs) = d"
  "as_reasons (assessment_new l d rs) = dedup_reasons rs"
  by (simp_all add: assessment_new_def)

fun baseline_action_of :: "risk_level \<Rightarrow> risk_action" where
  "baseline_action_of Routine = AllowAction"
| "baseline_action_of Bounded = RequireConfirmation"
| "baseline_action_of High = ReviewByLlm"
| "baseline_action_of Critical = RuleDeny"

definition baseline_action :: "assessment \<Rightarrow> risk_action" where
  "baseline_action a = baseline_action_of (as_level a)"

subsection \<open>Approval modes\<close>

datatype approval_mode = DefaultMode | PlanMode | AutoMode | ForceMode

definition Mode_parse :: "str \<Rightarrow> approval_mode option" where
  "Mode_parse v =
     (let v = to_ascii_lowercase (trim v) in
      if v = ''default'' then Some DefaultMode
      else if v = ''plan'' then Some PlanMode
      else if v = ''auto'' then Some AutoMode
      else if v \<in> set [''force'', ''yolo''] then Some ForceMode
      else None)"

fun Mode_as_str :: "approval_mode \<Rightarrow> str" where
  "Mode_as_str DefaultMode = ''default''"
| "Mode_as_str PlanMode = ''plan''"
| "Mode_as_str AutoMode = ''auto''"
| "Mode_as_str ForceMode = ''force''"

definition action_for :: "approval_mode \<Rightarrow> assessment \<Rightarrow> risk_action" where
  "action_for mode a =
     (case (mode, as_level a) of
        (_, Routine) \<Rightarrow> AllowAction
      | (PlanMode, Bounded) \<Rightarrow> RuleDeny
      | (PlanMode, High) \<Rightarrow> RuleDeny
      | (AutoMode, Bounded) \<Rightarrow> AllowAction
      | (ForceMode, Bounded) \<Rightarrow> AllowAction
      | (_, Bounded) \<Rightarrow> RequireConfirmation
      | (ForceMode, High) \<Rightarrow> AllowAction
      | (_, High) \<Rightarrow> ReviewByLlm
      | (_, Critical) \<Rightarrow> RuleDeny)"

definition mode_apply :: "approval_mode \<Rightarrow> assessment \<Rightarrow> decision" where
  "mode_apply mode a =
     (case action_for mode a of
        AllowAction \<Rightarrow> Allow
      | RequireConfirmation \<Rightarrow> Ask
      | ReviewByLlm \<Rightarrow> Ask
      | RuleDeny \<Rightarrow> Deny)"

subsection \<open>Assessment builders\<close>

definition tool_risk_type :: "str \<Rightarrow> risk_type" where
  "tool_risk_type tool_name =
     (let t = to_ascii_lowercase tool_name in
      if t \<in> set [''read'', ''search'', ''ls'', ''code_symbols'', ''code_navigation'',
           ''code_diagnostics'', ''search_skills'', ''generate_object''] then ReadOnlyTool
      else if t \<in> set [''write'', ''edit'', ''patch'', ''download''] then WorkspaceMutation
      else if t = ''bash'' then CommandExecution
      else if t = ''git'' then VersionControl
      else if t \<in> set [''web_search'', ''web_fetch''] then NetworkRead
      else if t \<in> set [''task'', ''parallel_task''] then Delegation
      else if t \<in> set [''program'', ''dynamic_workflow'', ''skill''] then DynamicExecution
      else if t = ''runtime'' then ExternalIntegration
      else if t = ''batch'' then Composite
      else UnknownTool)"

definition malformed_batch_assessment :: assessment where
  "malformed_batch_assessment =
     assessment_new High
       (dimensions_new Composite MultipleTargets UnknownScope UnknownReversibility UnknownSensitivity)
       [CompositeInvocation, MalformedOrUnknownOperation]"

definition assessment_permission :: "assessment \<Rightarrow> decision" where
  "assessment_permission a =
     (case as_level a of Routine \<Rightarrow> Allow | Bounded \<Rightarrow> Ask | High \<Rightarrow> Ask | Critical \<Rightarrow> Deny)"

definition routine_assessment :: "str \<Rightarrow> assessment" where
  "routine_assessment tool_name =
     (let ty = tool_risk_type tool_name;
          (target, sens) =
            (case ty of
               NetworkRead \<Rightarrow> (PublicNetwork, NetworkSensitivity)
             | CommandExecution \<Rightarrow> (HostEnvironment, HostSensitivity)
             | _ \<Rightarrow> (WorkspaceTarget, WorkspaceSensitivity))
      in assessment_new Routine (dimensions_new ty target Observation NotApplicable sens)
           [KnownReadOnly])"

definition bounded_assessment :: "str \<Rightarrow> assessment" where
  "bounded_assessment tool_name =
     (let ty = tool_risk_type tool_name in
      if eq_ignore_ascii_case tool_name ''download'' then
        assessment_new Bounded
          (dimensions_new ty MultipleTargets WorkspaceScope Easy MixedSensitivity)
          [BoundedWorkspaceMutation]
      else
        let (rv, reason) =
          (if ty = VersionControl then (Conditional, BoundedVersionControlMutation)
           else (Easy, BoundedWorkspaceMutation))
        in assessment_new Bounded
             (dimensions_new ty WorkspaceTarget WorkspaceScope rv WorkspaceSensitivity) [reason])"

definition high_assessment :: "str \<Rightarrow> risk_reason \<Rightarrow> assessment" where
  "high_assessment tool_name reason =
     (let ty = tool_risk_type tool_name;
          (target, scope, sens) =
            (if ty \<in> {ExternalIntegration, UnknownTool}
             then (ExternalServiceTarget, ExternalServiceScope, MixedSensitivity)
             else (HostEnvironment, HostScope, HostSensitivity))
      in assessment_new High (dimensions_new ty target scope UnknownReversibility sens) [reason])"

definition critical_assessment ::
    "risk_type \<Rightarrow> operation_target \<Rightarrow> impact_scope \<Rightarrow> reversibility \<Rightarrow> sensitivity \<Rightarrow> risk_reason
      \<Rightarrow> assessment" where
  "critical_assessment ty target scope rv sens reason =
     assessment_new Critical (dimensions_new ty target scope rv sens) [reason]"

lemma assessment_levels [simp]:
  "as_level (routine_assessment t) = Routine" "as_level (bounded_assessment t) = Bounded"
  "as_level (high_assessment t r) = High" "as_level (critical_assessment ty tg sc rv se r) = Critical"
  "as_level malformed_batch_assessment = High"
  by (simp_all add: routine_assessment_def bounded_assessment_def high_assessment_def
      critical_assessment_def malformed_batch_assessment_def Let_def split: prod.split)

subsection \<open>Laws of the matrix\<close>

fun strictness :: "decision \<Rightarrow> nat" where
  "strictness Allow = 0"
| "strictness Ask = 1"
| "strictness Deny = 2"

fun mode_strictness :: "approval_mode \<Rightarrow> nat" where
  "mode_strictness ForceMode = 0"
| "mode_strictness AutoMode = 1"
| "mode_strictness DefaultMode = 2"
| "mode_strictness PlanMode = 3"

lemmas matrix_defs = mode_apply_def action_for_def

lemma mode_apply_Critical [simp]: "as_level a = Critical \<Longrightarrow> mode_apply m a = Deny"
  by (cases m) (simp_all add: matrix_defs)

lemma mode_apply_Routine [simp]: "as_level a = Routine \<Longrightarrow> mode_apply m a = Allow"
  by (cases m) (simp_all add: matrix_defs)

lemma mode_apply_Allow_level:
  "mode_apply m a = Allow \<Longrightarrow> as_level a = Routine \<or> as_level a = Bounded \<and> m \<in> {AutoMode, ForceMode} \<or>
     as_level a = High \<and> m = ForceMode"
  by (cases m; cases "as_level a") (simp_all add: matrix_defs)

lemma mode_apply_mono:
  "as_level a \<le> as_level b \<Longrightarrow> mode_strictness m \<le> mode_strictness n \<Longrightarrow>
     strictness (mode_apply m a) \<le> strictness (mode_apply n b)"
  by (cases m; cases n; cases "as_level a"; cases "as_level b") (simp_all add: matrix_defs level_order)

lemma set_dedup_reasons [simp]: "set (dedup_reasons rs) = set rs"
proof -
  have "set (fold (\<lambda>r out. if r \<in> set out then out else out @ [r]) rs out) = set out \<union> set rs" for out :: "risk_reason list"
    by (induction rs arbitrary: out) auto
  then show ?thesis by (simp add: dedup_reasons_def)
qed

lemma distinct_dedup_reasons: "distinct (dedup_reasons rs)"
proof -
  have "distinct out \<Longrightarrow> distinct (fold (\<lambda>r out. if r \<in> set out then out else out @ [r]) rs out)"
    for out :: "risk_reason list"
    by (induction rs arbitrary: out) auto
  then show ?thesis by (simp add: dedup_reasons_def)
qed

end
