(* ===== verification/WorkspacePaths.thy ===== *)
theory WorkspacePaths
  imports PermissionRules
begin

section \<open>Paths and the workspace boundary\<close>

text \<open>
  The path functions of \<^verbatim>\<open>core/src/permissions/interactive.rs\<close>, on a Unix host.  A \<^verbatim>\<open>Path\<close> is the list of its
  \<^verbatim>\<open>components()\<close>; the file system is a parameter, a record of the three queries the code makes
  (\<^verbatim>\<open>canonicalize\<close>, \<^verbatim>\<open>exists\<close> and \<^verbatim>\<open>symlink_metadata\<close>).  The depth counter of \<^verbatim>\<open>relative_path_escapes\<close> is
  a natural number: it is tested before it is decremented, and exceeding \<^verbatim>\<open>i32\<close> needs a path of more
  than four gigabytes.
\<close>

subsection \<open>Standard paths\<close>

datatype component = RootDir | CurDir | ParentDir | Normal str

type_synonym path = "component list"

definition component_of :: "str \<Rightarrow> component" where
  "component_of s = (if s = ''..'' then ParentDir else Normal s)"

text \<open>\<^verbatim>\<open>Path::components\<close>: repeated separators and interior dots vanish, a leading dot stays.\<close>

definition path_components :: "str \<Rightarrow> path" where
  "path_components s =
     (let parts = filter (\<lambda>p. p \<noteq> []) (split_on CHR ''/'' s);
          plain = (\<lambda>ps. map component_of (filter (\<lambda>p. p \<noteq> ''.'') ps))
      in if starts_with ''/'' s then RootDir # plain parts
         else (case parts of
             [] \<Rightarrow> []
           | p # ps \<Rightarrow> (if p = ''.'' then [CurDir] else [component_of p]) @ plain ps))"

definition is_absolute :: "path \<Rightarrow> bool" where
  "is_absolute p \<longleftrightarrow> p \<noteq> [] \<and> hd p = RootDir"

definition file_name :: "path \<Rightarrow> str option" where
  "file_name p =
     (if p = [] then None else (case last p of Normal n \<Rightarrow> Some n | _ \<Rightarrow> None))"

definition parent :: "path \<Rightarrow> path option" where
  "parent p = (if p = [] \<or> last p = RootDir then None else Some (butlast p))"

definition path_starts_with :: "path \<Rightarrow> path \<Rightarrow> bool" where
  "path_starts_with p base \<longleftrightarrow> take (length base) p = base"

definition path_strip_prefix :: "path \<Rightarrow> path \<Rightarrow> path option" where
  "path_strip_prefix p base = (if path_starts_with p base then Some (drop (length base) p) else None)"

fun component_text :: "component \<Rightarrow> str" where
  "component_text RootDir = []"
| "component_text CurDir = ''.''"
| "component_text ParentDir = ''..''"
| "component_text (Normal s) = s"

definition path_text :: "path \<Rightarrow> str" where
  "path_text p = join ''/'' (map component_text p)"

datatype metadata_result = Symlink | NotSymlink | NotFound | OtherError

record file_system =
  fs_canonicalize :: "path \<Rightarrow> path option"
  fs_exists :: "path \<Rightarrow> bool"
  fs_symlink_metadata :: "path \<Rightarrow> metadata_result"

subsection \<open>Lexical tests\<close>

definition path_is_lexically_absolute :: "str \<Rightarrow> bool" where
  "path_is_lexically_absolute path \<longleftrightarrow>
     (case path of a # b # _ \<Rightarrow> is_ascii_alphabetic a \<and> b = CHR '':'' | _ \<Rightarrow> False)
     \<or> starts_with ''//'' path \<or> starts_with ''/'' path"

fun escapes_from :: "nat \<Rightarrow> str list \<Rightarrow> bool" where
  "escapes_from depth [] = False"
| "escapes_from depth (c # cs) =
     (if c \<in> set [[], ''.''] then escapes_from depth cs
      else if c = ''..'' then (if depth = 0 then True else escapes_from (depth - 1) cs)
      else escapes_from (depth + 1) cs)"

definition relative_path_escapes :: "str \<Rightarrow> bool" where
  "relative_path_escapes path = escapes_from 0 (split_on CHR ''/'' path)"

subsection \<open>Normalisation\<close>

fun lexical_walk :: "path \<Rightarrow> path \<Rightarrow> path option" where
  "lexical_walk [] out = Some out"
| "lexical_walk (RootDir # cs) out = lexical_walk cs [RootDir]"
| "lexical_walk (CurDir # cs) out = lexical_walk cs out"
| "lexical_walk (Normal s # cs) out = lexical_walk cs (out @ [Normal s])"
| "lexical_walk (ParentDir # cs) out =
     (case parent out of None \<Rightarrow> None | Some out \<Rightarrow> lexical_walk cs out)"

definition normalize_abs_lexical :: "path \<Rightarrow> path option" where
  "normalize_abs_lexical p =
     (case lexical_walk p [] of None \<Rightarrow> None | Some out \<Rightarrow> if out = [] then None else Some out)"

text \<open>The search for the deepest existing ancestor; \<open>None\<close> is the early return of the lexical path.\<close>

function deepest_existing :: "file_system \<Rightarrow> path \<Rightarrow> str list \<Rightarrow> (path \<times> str list) option" where
  "deepest_existing fs current suffix =
     (if fs_exists fs current then Some (current, suffix)
      else (case file_name current of
          None \<Rightarrow> None
        | Some n \<Rightarrow>
          (case parent current of
             None \<Rightarrow> None
           | Some p \<Rightarrow> deepest_existing fs p (suffix @ [n]))))"
  by pat_completeness auto
termination
  by (relation "measure (\<lambda>(fs, p, s). length p)") (auto simp: parent_def split: if_splits)

declare deepest_existing.simps [simp del]

definition normalize_abs_for_compare :: "file_system \<Rightarrow> path \<Rightarrow> path option" where
  "normalize_abs_for_compare fs p = do {
     lexical \<leftarrow> normalize_abs_lexical p;
     (case fs_canonicalize fs lexical of
        Some canonical \<Rightarrow> Some canonical
      | None \<Rightarrow>
        (case deepest_existing fs lexical [] of
           None \<Rightarrow> Some lexical
         | Some (current, suffix) \<Rightarrow>
             Some ((case fs_canonicalize fs current of Some c \<Rightarrow> c | None \<Rightarrow> current)
               @ map Normal (rev suffix)))) }"

definition path_escapes_workspace_root :: "file_system \<Rightarrow> path \<Rightarrow> str \<Rightarrow> bool" where
  "path_escapes_workspace_root fs root input =
     (let candidate = path_components input in
      if is_absolute candidate \<or> path_is_lexically_absolute input then
        (case (normalize_abs_for_compare fs root, normalize_abs_for_compare fs candidate) of
           (Some root_cmp, Some target_cmp) \<Rightarrow> \<not> path_starts_with target_cmp root_cmp
         | _ \<Rightarrow> True)
      else relative_path_escapes input)"

definition path_is_outside_workspace :: "file_system \<Rightarrow> str \<Rightarrow> path option \<Rightarrow> bool" where
  "path_is_outside_workspace fs path workspace =
     (let path = trim (replace_char CHR 0x5C CHR ''/'' path) in
      if path = [] then False
      else if starts_with ''~'' path \<or> starts_with ''$HOME'' path \<or> starts_with ''${HOME}'' path then True
      else (case workspace of
          None \<Rightarrow> path_is_lexically_absolute path \<or> relative_path_escapes path
        | Some root \<Rightarrow> path_escapes_workspace_root fs root path))"

definition workspace_relative_path :: "file_system \<Rightarrow> path \<Rightarrow> str \<Rightarrow> str option" where
  "workspace_relative_path fs root path =
     (let candidate = path_components path in
      if \<not> is_absolute candidate \<and> \<not> path_is_lexically_absolute path then
        Some (replace_char CHR 0x5C CHR ''/'' path)
      else do {
        root_cmp \<leftarrow> normalize_abs_for_compare fs root;
        target_cmp \<leftarrow> normalize_abs_for_compare fs candidate;
        relative \<leftarrow> path_strip_prefix target_cmp root_cmp;
        Some (replace_char CHR 0x5C CHR ''/'' (path_text relative)) })"

subsection \<open>Symbolic links\<close>

definition GLOB_CHARS :: str where
  "GLOB_CHARS = ''*?[]{}''"

fun symlink_walk :: "file_system \<Rightarrow> bool \<Rightarrow> path \<Rightarrow> path \<Rightarrow> bool" where
  "symlink_walk fs stop_at_shell_glob current [] = False"
| "symlink_walk fs stop_at_shell_glob current (c # cs) =
     (case c of
        CurDir \<Rightarrow> symlink_walk fs stop_at_shell_glob current cs
      | Normal n \<Rightarrow>
          if stop_at_shell_glob \<and> list_ex (\<lambda>x. x \<in> set GLOB_CHARS) n then False
          else (case fs_symlink_metadata fs (current @ [Normal n]) of
              Symlink \<Rightarrow> True
            | NotSymlink \<Rightarrow> symlink_walk fs stop_at_shell_glob (current @ [Normal n]) cs
            | NotFound \<Rightarrow> False
            | OtherError \<Rightarrow> True)
      | _ \<Rightarrow> True)"

definition path_crosses_symlink :: "file_system \<Rightarrow> path \<Rightarrow> str \<Rightarrow> bool \<Rightarrow> bool" where
  "path_crosses_symlink fs root path stop_at_shell_glob =
     (if path_is_outside_workspace fs path (Some root) then False
      else (case workspace_relative_path fs root path of
          None \<Rightarrow> True
        | Some relative \<Rightarrow> symlink_walk fs stop_at_shell_glob root (path_components relative)))"

subsection \<open>Laws\<close>

text \<open>How far below the start a walk over components gets: \<open>ups\<close> and \<open>downs\<close> count the steps.\<close>

definition ups :: "str list \<Rightarrow> nat" where
  "ups cs = length (filter (\<lambda>c. c = ''..'') cs)"

definition downs :: "str list \<Rightarrow> nat" where
  "downs cs = length (filter (\<lambda>c. c \<notin> set [[], ''.'', ''..'']) cs)"

lemma counts:
  "ups [] = 0" "downs [] = 0"
  "ups (c # cs) = (if c = ''..'' then Suc (ups cs) else ups cs)"
  "downs (c # cs) = (if c \<in> set [[], ''.'', ''..''] then downs cs else Suc (downs cs))"
  by (simp_all add: ups_def downs_def)

lemma escapes_from_iff: "escapes_from d cs \<longleftrightarrow> (\<exists>i \<le> length cs. d + downs (take i cs) < ups (take i cs))"
proof (induction d cs rule: escapes_from.induct)
  case (1 d)
  then show ?case by (simp add: ups_def)
next
  case (2 d c cs)
  have ex: "(\<exists>i \<le> length (c # cs). P (take i (c # cs))) \<longleftrightarrow> P [] \<or> (\<exists>i \<le> length cs. P (c # take i cs))" for P
  proof
    assume "\<exists>i \<le> length (c # cs). P (take i (c # cs))"
    then obtain i where "i \<le> length (c # cs)" "P (take i (c # cs))" by blast
    then show "P [] \<or> (\<exists>i \<le> length cs. P (c # take i cs))" by (cases i) auto
  next
    assume "P [] \<or> (\<exists>i \<le> length cs. P (c # take i cs))"
    then show "\<exists>i \<le> length (c # cs). P (take i (c # cs))"
      by (metis Suc_le_mono length_Cons take0 take_Suc_Cons zero_le)
  qed
  note ex = ex [of "\<lambda>t. d + downs t < ups t"]
  consider "c \<in> set [[], ''.'']" | "c = ''..''" "d = 0" | "c = ''..''" "d \<noteq> 0" | "c \<notin> set [[], ''.'', ''..'']"
    by auto
  then show ?case
  proof cases
    case 1
    with 2(1) show ?thesis unfolding ex by (auto simp: counts)
  next
    case 2
    then show ?thesis unfolding ex by (auto simp: counts intro!: exI [of _ 0])
  next
    case 3
    then have "escapes_from d (c # cs) \<longleftrightarrow> (\<exists>i \<le> length cs. d - 1 + downs (take i cs) < ups (take i cs))"
      using 2(2) by simp
    moreover have "d - 1 + x < y \<longleftrightarrow> d + x < Suc y" for x y using 3 by auto
    ultimately show ?thesis unfolding ex by (simp add: counts 3)
  next
    case 4
    with 2(3) show ?thesis unfolding ex by (simp add: counts)
  qed
qed

text \<open>Without symbolic links (canonicalisation finds a path or fails) normalisation is lexical.\<close>

definition link_free :: "file_system \<Rightarrow> bool" where
  "link_free fs \<longleftrightarrow> (\<forall>p. fs_canonicalize fs p \<in> {None, Some p})"

lemma deepest_existing_rebuild:
  "deepest_existing fs p suffix = Some (q, s) \<Longrightarrow> q @ map Normal (rev s) = p @ map Normal (rev suffix)"
proof (induction fs p suffix rule: deepest_existing.induct)
  case (1 fs p suffix)
  show ?case
  proof (cases "fs_exists fs p")
    case True
    with 1(2) show ?thesis by (simp add: deepest_existing.simps [of fs p])
  next
    case False
    with 1(2) obtain n p' where n: "file_name p = Some n" "parent p = Some p'"
      and rec: "deepest_existing fs p' (suffix @ [n]) = Some (q, s)"
      by (auto simp: deepest_existing.simps [of fs p] split: option.splits)
    then have "p = p' @ [Normal n]"
      by (auto simp: file_name_def parent_def split: if_splits component.splits)
        (metis append_butlast_last_id)
    with 1(1) [OF False n rec] show ?thesis by simp
  qed
qed

lemma normalize_link_free: "link_free fs \<Longrightarrow> normalize_abs_for_compare fs p = normalize_abs_lexical p"
proof (cases "normalize_abs_lexical p")
  case (Some l)
  assume free: "link_free fs"
  show ?thesis
  proof (cases "fs_canonicalize fs l")
    case None
    show ?thesis
    proof (cases "deepest_existing fs l []")
      case (Some r)
      obtain q s where r: "r = (q, s)" by (cases r)
      have "(case fs_canonicalize fs q of Some c \<Rightarrow> c | None \<Rightarrow> q) = q"
        using free by (auto simp: link_free_def split: option.split) (metis option.distinct(1) option.inject)
      with None Some r \<open>normalize_abs_lexical p = Some l\<close> deepest_existing_rebuild [of fs l "[]" q s]
      show ?thesis by (simp add: normalize_abs_for_compare_def)
    qed (use None \<open>normalize_abs_lexical p = Some l\<close> in \<open>simp add: normalize_abs_for_compare_def\<close>)
  next
    case (Some c)
    with free have "c = l" unfolding link_free_def by (metis insert_iff option.distinct(1) option.inject singletonD)
    with Some \<open>normalize_abs_lexical p = Some l\<close> show ?thesis by (simp add: normalize_abs_for_compare_def)
  qed
qed (simp add: normalize_abs_for_compare_def)

text \<open>What a walk that reports no link has seen: every prefix up to the first missing one is no link.\<close>

lemma symlink_walk_clean:
  assumes "\<not> symlink_walk fs False current cs" and "list_all (\<lambda>c. \<exists>n. c = Normal n) cs"
    and "\<forall>j < i. fs_symlink_metadata fs (current @ take (Suc j) cs) \<noteq> NotFound" and "i < length cs"
  shows "fs_symlink_metadata fs (current @ take (Suc i) cs) \<in> {NotSymlink, NotFound}"
  using assms
proof (induction cs arbitrary: current i)
  case (Cons c cs)
  from Cons.prems(2) obtain n where c: "c = Normal n" by auto
  let ?cur = "current @ [Normal n]"
  show ?case
  proof (cases i)
    case 0
    with Cons.prems(1) c show ?thesis by (auto split: metadata_result.splits)
  next
    case (Suc k)
    have first: "fs_symlink_metadata fs ?cur \<noteq> NotFound" using Cons.prems(3) Suc c by force
    with Cons.prems(1) c have walk: "\<not> symlink_walk fs False ?cur cs" by (auto split: metadata_result.splits)
    have "\<forall>j < k. fs_symlink_metadata fs (?cur @ take (Suc j) cs) \<noteq> NotFound"
      using Cons.prems(3) Suc c by force
    from Cons.IH [OF walk _ this] Cons.prems(2,4) Suc c show ?thesis by simp
  qed
qed simp

end
