(* ===== verification/InteractiveGuardrail.thy ===== *)
theory InteractiveGuardrail
  imports RiskAssessments WorkspacePaths ShellClassifier
begin

section \<open>The interactive guardrail\<close>

text \<open>
  \<^verbatim>\<open>core/src/permissions/interactive.rs\<close> and \<^verbatim>\<open>core/src/permissions/interactive/assessment.rs\<close>: the lexical
  classification of one tool call, its four-level assessment, batches, and the guardrail that combines
  them with the approval mode.  As for the policy, \<open>None\<close> means that the shell tokenizer never returns;
  everything else is total.
\<close>

subsection \<open>JSON values\<close>

fun is_object :: "json \<Rightarrow> bool" where
  "is_object (JObject _) = True"
| "is_object _ = False"

fun is_string :: "json \<Rightarrow> bool" where
  "is_string (JString _) = True"
| "is_string _ = False"

fun object_keys :: "json \<Rightarrow> str list option" where
  "object_keys (JObject kvs) = Some (map fst kvs)"
| "object_keys _ = None"

lemma json_get_size: "json_get j k = Some v \<Longrightarrow> size v < size j"
proof (cases j)
  case (JObject kvs)
  assume "json_get j k = Some v"
  with JObject have "(k, v) \<in> set kvs" by (simp add: map_of_SomeD)
  then have "size v < Suc (size_list (size_prod (\<lambda>x. 0) size) kvs)"
    by (induction kvs) auto
  with JObject show ?thesis by simp
qed simp_all

lemma as_array_size: "as_array j = Some xs \<Longrightarrow> x \<in> set xs \<Longrightarrow> size x < size j"
  by (cases j) (auto intro: le_imp_less_Suc size_list_estimation' [of x _ "size x" size])

subsection \<open>Paths named by a call\<close>

definition clean_shell_token :: "str \<Rightarrow> str" where
  "clean_shell_token token =
     trim_matches (\<lambda>c. c \<in> set ([CHR 0x27, CHR 0x22] @ ''()[]{},:'')) token"

definition local_path_crosses_symlink :: "file_system \<Rightarrow> path \<Rightarrow> str \<Rightarrow> bool" where
  "local_path_crosses_symlink fs root path = path_crosses_symlink fs root path False"

definition shell_token_path_crosses_symlink :: "file_system \<Rightarrow> path \<Rightarrow> str \<Rightarrow> bool" where
  "shell_token_path_crosses_symlink fs root path = path_crosses_symlink fs root path True"

definition shell_path_crosses_symlink :: "file_system \<Rightarrow> path \<Rightarrow> json \<Rightarrow> bool" where
  "shell_path_crosses_symlink fs root args =
     (case get_str args ''command'' of
        None \<Rightarrow> False
      | Some command \<Rightarrow>
          list_ex (shell_token_path_crosses_symlink fs root)
            (filter (\<lambda>t. t \<noteq> [] \<and> \<not> starts_with ''-'' t)
              (map clean_shell_token (split_whitespace command))))"

definition atomic_crosses_symlink :: "file_system \<Rightarrow> path \<Rightarrow> str \<Rightarrow> json \<Rightarrow> bool" where
  "atomic_crosses_symlink fs root tool_name args =
     (let tool = to_ascii_lowercase tool_name in
      if tool = ''bash'' then shell_path_crosses_symlink fs root args
      else if tool = ''read'' then
        (case get_str args ''file_path'' of
           Some path \<Rightarrow> local_path_crosses_symlink fs root path
         | None \<Rightarrow>
           (case get_array args ''files'' of
              None \<Rightarrow> False
            | Some files \<Rightarrow>
                list_ex (\<lambda>entry.
                  (case get_str entry ''path'' of
                     None \<Rightarrow> False
                   | Some path \<Rightarrow> local_path_crosses_symlink fs root path)) files))
      else
        let field =
          (if tool \<in> set [''write'', ''edit'', ''patch'', ''download''] then Some ''file_path''
           else if tool \<in> set [''search'', ''ls'', ''code_symbols'', ''code_navigation'', ''code_diagnostics'']
             then Some ''path''
           else None)
        in (case field of
              None \<Rightarrow> False
            | Some field \<Rightarrow>
              (case get_str args field of
                 None \<Rightarrow> False
               | Some path \<Rightarrow> local_path_crosses_symlink fs root path)))"

function invocation_crosses_local_symlink :: "file_system \<Rightarrow> path \<Rightarrow> str \<Rightarrow> json \<Rightarrow> bool" where
  "invocation_crosses_local_symlink fs root tool_name args =
     (if eq_ignore_ascii_case tool_name ''batch'' then
        (case json_get args ''invocations'' of
           None \<Rightarrow> False
         | Some v \<Rightarrow>
           (case as_array v of
              None \<Rightarrow> False
            | Some invocations \<Rightarrow>
                list_ex (\<lambda>invocation.
                  (case get_str invocation ''tool'' of
                     None \<Rightarrow> False
                   | Some tool \<Rightarrow>
                     (case json_get invocation ''args'' of
                        None \<Rightarrow> False
                      | Some tool_args \<Rightarrow> invocation_crosses_local_symlink fs root tool tool_args)))
                  invocations))
      else atomic_crosses_symlink fs root tool_name args)"
  by pat_completeness auto
termination
  by (relation "measure (\<lambda>(fs, root, tool, args). size args)")
    (auto dest!: json_get_size as_array_size)

declare invocation_crosses_local_symlink.simps [simp del]

subsection \<open>Classifying one call\<close>

fun stricter_permission :: "decision \<Rightarrow> decision \<Rightarrow> decision" where
  "stricter_permission Deny _ = Deny"
| "stricter_permission _ Deny = Deny"
| "stricter_permission Ask _ = Ask"
| "stricter_permission _ Ask = Ask"
| "stricter_permission Allow Allow = Allow"

definition classify_path_value :: "file_system \<Rightarrow> str \<Rightarrow> decision \<Rightarrow> path option \<Rightarrow> decision" where
  "classify_path_value fs path safe_decision workspace =
     (if trim path = [] then Ask
      else if path_is_outside_workspace fs path workspace then Deny
      else safe_decision)"

fun classify_read_files :: "file_system \<Rightarrow> path option \<Rightarrow> json list \<Rightarrow> decision \<Rightarrow> decision" where
  "classify_read_files fs workspace [] d = d"
| "classify_read_files fs workspace (entry # files) d =
     (case get_str entry ''path'' of
        None \<Rightarrow> Ask
      | Some path \<Rightarrow> classify_read_files fs workspace files
          (stricter_permission d (classify_path_value fs path Allow workspace)))"

definition classify_read :: "file_system \<Rightarrow> json \<Rightarrow> path option \<Rightarrow> decision" where
  "classify_read fs args workspace =
     (case get_str args ''file_path'' of
        Some path \<Rightarrow> classify_path_value fs path Allow workspace
      | None \<Rightarrow>
        (case get_array args ''files'' of
           None \<Rightarrow> Ask
         | Some files \<Rightarrow> if files = [] then Ask else classify_read_files fs workspace files Allow))"

definition classify_scoped_path :: "file_system \<Rightarrow> json \<Rightarrow> str \<Rightarrow> decision \<Rightarrow> path option \<Rightarrow> decision" where
  "classify_scoped_path fs args field safe_decision workspace =
     (case get_str args field of
        None \<Rightarrow> if field = ''path'' then safe_decision else Ask
      | Some path \<Rightarrow>
        if trim path = [] then (if field = ''path'' then safe_decision else Ask)
        else classify_path_value fs path safe_decision workspace)"

definition only_git_keys :: "json \<Rightarrow> str list \<Rightarrow> bool" where
  "only_git_keys args allowed \<longleftrightarrow>
     (case object_keys args of None \<Rightarrow> False | Some keys \<Rightarrow> list_all (\<lambda>k. k \<in> set allowed) keys)"

definition valid_non_option_string :: "json \<Rightarrow> str \<Rightarrow> bool" where
  "valid_non_option_string args field \<longleftrightarrow>
     (case get_str args field of
        None \<Rightarrow> False
      | Some v \<Rightarrow> trim v \<noteq> [] \<and> \<not> starts_with ''-'' (trim v))"

definition valid_optional_non_option_string :: "json \<Rightarrow> str \<Rightarrow> bool" where
  "valid_optional_non_option_string args field \<longleftrightarrow>
     json_get args field = None \<or> valid_non_option_string args field"

definition valid_optional_string :: "json \<Rightarrow> str \<Rightarrow> bool" where
  "valid_optional_string args field \<longleftrightarrow>
     (case json_get args field of None \<Rightarrow> True | Some v \<Rightarrow> is_string v)"

definition valid_optional_positive_integer :: "json \<Rightarrow> str \<Rightarrow> bool" where
  "valid_optional_positive_integer args field \<longleftrightarrow>
     (case json_get args field of
        None \<Rightarrow> True
      | Some v \<Rightarrow> (case as_u64 v of None \<Rightarrow> False | Some n \<Rightarrow> n > 0))"

definition valid_optional_nonnegative_integer :: "json \<Rightarrow> str \<Rightarrow> bool" where
  "valid_optional_nonnegative_integer args field \<longleftrightarrow>
     (case json_get args field of None \<Rightarrow> True | Some v \<Rightarrow> as_u64 v \<noteq> None)"

definition classify_git :: "json \<Rightarrow> decision" where
  "classify_git args =
     (case get_str args ''command'' of
        None \<Rightarrow> Ask
      | Some command \<Rightarrow>
        if (case json_get args ''force'' of None \<Rightarrow> False | Some v \<Rightarrow> as_bool v \<noteq> Some False) then Ask
        else if command = ''status'' \<and> only_git_keys args [''command''] then Allow
        else if command = ''log'' \<and> only_git_keys args [''command'', ''limit'', ''max_count'', ''cursor'']
             \<and> valid_optional_positive_integer args ''limit''
             \<and> valid_optional_positive_integer args ''max_count''
             \<and> valid_optional_string args ''cursor'' then Allow
        else if command = ''diff''
             \<and> only_git_keys args [''command'', ''target'', ''byte_offset'', ''max_bytes'']
             \<and> valid_optional_non_option_string args ''target''
             \<and> valid_optional_nonnegative_integer args ''byte_offset''
             \<and> valid_optional_positive_integer args ''max_bytes'' then Allow
        else if command = ''remote'' \<and> only_git_keys args [''command'', ''remote_name'', ''cursor'']
             \<and> valid_optional_string args ''remote_name''
             \<and> valid_optional_string args ''cursor'' then Allow
        else if command = ''branch'' \<and> json_get args ''name'' = None
             \<and> only_git_keys args [''command'', ''limit'', ''max_count'', ''cursor'']
             \<and> valid_optional_positive_integer args ''limit''
             \<and> valid_optional_positive_integer args ''max_count''
             \<and> valid_optional_string args ''cursor'' then Allow
        else if command = ''stash'' \<and> json_get args ''message'' = None
             \<and> json_get args ''include_untracked'' = None
             \<and> only_git_keys args [''command'', ''cursor'']
             \<and> valid_optional_string args ''cursor'' then Allow
        else if command = ''worktree''
             \<and> (case get_str args ''subcommand'' of None \<Rightarrow> ''list'' | Some s \<Rightarrow> s) = ''list''
             \<and> only_git_keys args [''command'', ''subcommand'', ''cursor'']
             \<and> valid_optional_string args ''subcommand''
             \<and> valid_optional_string args ''cursor'' then Allow
        else Ask)"

definition plain_read_command :: "file_system \<Rightarrow> path option \<Rightarrow> shell_command \<Rightarrow> bool" where
  "plain_read_command fs workspace c \<longleftrightarrow>
     cmd_depth c = 0 \<and> cmd_plain_words c \<and> \<not> cmd_redirects c \<and> \<not> cmd_has_assignments c
     \<and> \<not> cmd_wrapped c
     \<and> \<not> list_ex (\<lambda>w. path_is_outside_workspace fs (clean_shell_token w) workspace) (cmd_effective c)"

definition is_read_only_bash_command :: "file_system \<Rightarrow> str \<Rightarrow> shell_analysis \<Rightarrow> path option \<Rightarrow> bool" where
  "is_read_only_bash_command fs command analysis workspace \<longleftrightarrow>
     an_risk analysis = ReadOnly \<and> an_only_pipes analysis
     \<and> \<not> list_ex (\<lambda>c. is_whitespace c \<and> c \<noteq> CHR '' '') command
     \<and> list_all (plain_read_command fs workspace) (an_commands analysis)"

definition classify_bash :: "file_system \<Rightarrow> json \<Rightarrow> path option \<Rightarrow> decision option" where
  "classify_bash fs args workspace =
     (case get_str args ''command'' of
        None \<Rightarrow> Some Ask
      | Some command \<Rightarrow>
        let command = trim command in
        if command = [] then Some Ask
        else do {
          analysis \<leftarrow> analyze command;
          Some (if is_hard_denial (an_risk analysis) then Deny
            else if is_read_only_bash_command fs command analysis workspace then Allow
            else Ask) })"

definition classify_atomic_tool :: "file_system \<Rightarrow> str \<Rightarrow> json \<Rightarrow> path option \<Rightarrow> decision option" where
  "classify_atomic_tool fs tool_name args workspace =
     (let t = to_ascii_lowercase tool_name in
      if t = ''read'' then Some (classify_read fs args workspace)
      else if t \<in> set [''search'', ''ls'', ''code_symbols'', ''code_navigation'', ''code_diagnostics''] then
        Some (classify_scoped_path fs args ''path'' Allow workspace)
      else if t \<in> set [''web_search'', ''web_fetch'', ''search_skills'', ''generate_object'',
           ''update_plan'', ''ask_user'', ''ask_user_form''] then Some Allow
      else if t \<in> set [''write'', ''edit''] then
        Some (classify_scoped_path fs args ''file_path'' Ask workspace)
      else if t = ''download'' then
        Some (if json_get args ''file_path'' = None then Ask
          else classify_scoped_path fs args ''file_path'' Ask workspace)
      else if t = ''patch'' then Some (classify_scoped_path fs args ''file_path'' Ask workspace)
      else if t = ''bash'' then classify_bash fs args workspace
      else if t = ''git'' then Some (classify_git args)
      else Some Ask)"

definition git_requires_explicit_confirmation :: "json \<Rightarrow> bool" where
  "git_requires_explicit_confirmation args \<longleftrightarrow>
     (case json_get args ''force'' of None \<Rightarrow> False | Some v \<Rightarrow> v \<noteq> JBool False)"

definition git_call_is_known_bounded_mutation :: "json \<Rightarrow> bool" where
  "git_call_is_known_bounded_mutation args \<longleftrightarrow>
     \<not> git_requires_explicit_confirmation args \<and>
     (case get_str args ''command'' of
        None \<Rightarrow> False
      | Some c \<Rightarrow>
        if c = ''branch'' then valid_non_option_string args ''name''
        else if c = ''checkout'' then valid_non_option_string args ''ref''
        else if c = ''stash'' then
          get_str args ''message'' \<noteq> None
          \<or> Option.bind (json_get args ''include_untracked'') as_bool = Some True
        else if c = ''remote'' then get_str args ''remote_name'' \<noteq> None
        else if c = ''worktree'' then get_str args ''subcommand'' = Some ''add''
        else False)"

definition bounded_file_target :: "file_system \<Rightarrow> json \<Rightarrow> path option \<Rightarrow> bool" where
  "bounded_file_target fs args workspace \<longleftrightarrow>
     (case get_str args ''file_path'' of
        None \<Rightarrow> False
      | Some path \<Rightarrow> trim path \<noteq> [] \<and> \<not> path_is_outside_workspace fs path workspace)"

definition atomic_tool_is_bounded :: "file_system \<Rightarrow> str \<Rightarrow> json \<Rightarrow> path option \<Rightarrow> bool" where
  "atomic_tool_is_bounded fs tool_name args workspace =
     (let t = to_ascii_lowercase tool_name in
      if t \<in> set [''write'', ''edit'', ''patch''] then bounded_file_target fs args workspace
      else if t = ''download'' then
        json_get args ''file_path'' = None \<or> bounded_file_target fs args workspace
      else if t = ''git'' then classify_git args = Ask \<and> git_call_is_known_bounded_mutation args
      else False)"

subsection \<open>Assessments\<close>

definition MAX_BATCH_RISK_DEPTH :: nat where "MAX_BATCH_RISK_DEPTH = 16"

definition ask_reason :: "str \<Rightarrow> json \<Rightarrow> risk_reason" where
  "ask_reason tool_name args =
     (case tool_risk_type tool_name of
        CommandExecution \<Rightarrow> UnboundedCommandExecution
      | Delegation \<Rightarrow> DynamicOrDelegatedExecution
      | DynamicExecution \<Rightarrow> DynamicOrDelegatedExecution
      | VersionControl \<Rightarrow>
          if git_requires_explicit_confirmation args then ForceOrDestructiveOperation
          else MalformedOrUnknownOperation
      | ExternalIntegration \<Rightarrow> ExternalOrUnknownIntegration
      | UnknownTool \<Rightarrow> ExternalOrUnknownIntegration
      | _ \<Rightarrow> MalformedOrUnknownOperation)"

definition assess_atomic :: "file_system \<Rightarrow> str \<Rightarrow> json \<Rightarrow> path option \<Rightarrow> assessment option" where
  "assess_atomic fs tool_name args workspace =
     (if \<not> is_object args then Some (high_assessment tool_name MalformedOrUnknownOperation)
      else do {
        d \<leftarrow> classify_atomic_tool fs tool_name args workspace;
        Some (case d of
          Allow \<Rightarrow> routine_assessment tool_name
        | Ask \<Rightarrow>
            if atomic_tool_is_bounded fs tool_name args workspace then bounded_assessment tool_name
            else high_assessment tool_name (ask_reason tool_name args)
        | Deny \<Rightarrow>
            if tool_risk_type tool_name = CommandExecution then
              critical_assessment (tool_risk_type tool_name) PrivilegedSystem SystemWide Irreversible
                PrivilegedSensitivity CatastrophicOperation
            else
              critical_assessment (tool_risk_type tool_name) OutsideWorkspace HostScope
                UnknownReversibility HostSensitivity WorkspaceBoundaryEscape) })"

text \<open>
  The loop of \<^verbatim>\<open>assess_batch\<close>: the first child of the highest level so far and the reasons.  \<open>Inl\<close> is
  the early return of the malformed assessment.
\<close>

fun assess_children ::
    "(str \<Rightarrow> json \<Rightarrow> assessment option) \<Rightarrow> json list \<Rightarrow> assessment option \<Rightarrow> risk_reason list
      \<Rightarrow> (unit + assessment option \<times> risk_reason list) option" where
  "assess_children assess [] highest reasons = Some (Inr (highest, reasons))"
| "assess_children assess (invocation # rest) highest reasons =
     (case get_str invocation ''tool'' of
        None \<Rightarrow> Some (Inl ())
      | Some tool \<Rightarrow>
        (case json_get invocation ''args'' of
           None \<Rightarrow> Some (Inl ())
         | Some tool_args \<Rightarrow>
           if \<not> is_object tool_args then Some (Inl ())
           else do {
             child \<leftarrow> assess tool tool_args;
             assess_children assess rest
               (case highest of
                  None \<Rightarrow> Some child
                | Some current \<Rightarrow> if as_level child > as_level current then Some child else highest)
               (reasons @ as_reasons child) }))"

definition assess_batch ::
    "(str \<Rightarrow> json \<Rightarrow> assessment option) \<Rightarrow> json \<Rightarrow> nat \<Rightarrow> assessment option" where
  "assess_batch assess args depth =
     (case get_array args ''invocations'' of
        None \<Rightarrow> Some malformed_batch_assessment
      | Some invocations \<Rightarrow>
        if invocations = [] \<or> depth \<ge> MAX_BATCH_RISK_DEPTH then Some malformed_batch_assessment
        else do {
          r \<leftarrow> assess_children assess invocations None [CompositeInvocation];
          Some (case r of
            Inr (Some highest, reasons) \<Rightarrow>
              assessment_new (as_level highest)
                (dimensions_new Composite MultipleTargets
                  (dim_impact_scope (as_dimensions highest))
                  (dim_reversibility (as_dimensions highest))
                  (dim_environment_sensitivity (as_dimensions highest)))
                reasons
          | _ \<Rightarrow> malformed_batch_assessment) })"

text \<open>
  The recursion through \<^verbatim>\<open>assess_batch\<close>; its depth test is repeated where the recursive call is formed,
  so that the recursion is seen to end (\<open>assess_batch\<close> never makes the call there).
\<close>

function assess_tool_at_depth :: "file_system \<Rightarrow> str \<Rightarrow> json \<Rightarrow> path option \<Rightarrow> nat \<Rightarrow> assessment option" where
  "assess_tool_at_depth fs tool_name args workspace depth =
     (if eq_ignore_ascii_case tool_name ''batch'' then
        assess_batch (\<lambda>tool tool_args.
            if depth \<ge> MAX_BATCH_RISK_DEPTH then Some malformed_batch_assessment
            else assess_tool_at_depth fs tool tool_args workspace (depth + 1))
          args depth
      else assess_atomic fs tool_name args workspace)"
  by pat_completeness auto
termination
  by (relation "measure (\<lambda>(fs, t, a, w, depth). Suc MAX_BATCH_RISK_DEPTH - depth)") auto

declare assess_tool_at_depth.simps [simp del]

definition assess_tool :: "file_system \<Rightarrow> str \<Rightarrow> json \<Rightarrow> path option \<Rightarrow> assessment option" where
  "assess_tool fs tool_name args workspace = assess_tool_at_depth fs tool_name args workspace 0"

subsection \<open>The guardrail\<close>

record guardrail =
  gr_mode :: approval_mode
  gr_workspace :: "path option"

definition guardrail_new :: "approval_mode \<Rightarrow> guardrail" where
  "guardrail_new mode = \<lparr>gr_mode = mode, gr_workspace = None\<rparr>"

definition for_mode :: "str \<Rightarrow> guardrail option" where
  "for_mode mode = map_option guardrail_new (Mode_parse mode)"

definition with_workspace :: "path \<Rightarrow> guardrail \<Rightarrow> guardrail" where
  "with_workspace root g = g\<lparr>gr_workspace := Some root\<rparr>"

definition guardrail_default :: guardrail where
  "guardrail_default = guardrail_new DefaultMode"

definition risk_assessment :: "file_system \<Rightarrow> str \<Rightarrow> json \<Rightarrow> assessment option" where
  "risk_assessment fs tool_name args = assess_tool fs tool_name args None"

definition risk_decision :: "file_system \<Rightarrow> str \<Rightarrow> json \<Rightarrow> decision option" where
  "risk_decision fs tool_name args =
     map_option assessment_permission (assess_tool fs tool_name args None)"

definition is_catastrophic_bash_command :: "str \<Rightarrow> bool option" where
  "is_catastrophic_bash_command command = map_option (\<lambda>a. is_hard_denial (an_risk a)) (analyze command)"

definition workspace_boundary_assessment :: "file_system \<Rightarrow> guardrail \<Rightarrow> str \<Rightarrow> json \<Rightarrow> assessment option" where
  "workspace_boundary_assessment fs g tool_name args =
     (case gr_workspace g of
        None \<Rightarrow> None
      | Some root \<Rightarrow>
          if invocation_crosses_local_symlink fs root tool_name args then
            Some (critical_assessment (tool_risk_type tool_name) OutsideWorkspace HostScope
              UnknownReversibility HostSensitivity SymlinkBoundaryEscape)
          else None)"

definition guardrail_assess :: "file_system \<Rightarrow> guardrail \<Rightarrow> str \<Rightarrow> json \<Rightarrow> assessment option" where
  "guardrail_assess fs g tool_name args =
     (case workspace_boundary_assessment fs g tool_name args of
        Some a \<Rightarrow> Some a
      | None \<Rightarrow> assess_tool fs tool_name args (gr_workspace g))"

definition risk_action_of :: "file_system \<Rightarrow> guardrail \<Rightarrow> str \<Rightarrow> json \<Rightarrow> risk_action option" where
  "risk_action_of fs g tool_name args = map_option (action_for (gr_mode g)) (guardrail_assess fs g tool_name args)"

definition guardrail_check :: "file_system \<Rightarrow> guardrail \<Rightarrow> str \<Rightarrow> json \<Rightarrow> decision option" where
  "guardrail_check fs g tool_name args = map_option (mode_apply (gr_mode g)) (guardrail_assess fs g tool_name args)"

end
