(* ===== verification/GuardrailProperties.thy ===== *)
theory GuardrailProperties
  imports InteractiveGuardrail ShellTotal
begin

section \<open>Properties of the interactive guardrail\<close>

text \<open>
  The mode matrix is monotone; a hard shell denial and a path outside the workspace are denied in every
  mode; a batch is never judged milder than its worst member; and what runs silently in the shell is a
  read-only pipeline.
\<close>

subsection \<open>The mode matrix\<close>

text \<open>The decision matrix is monotone: a higher risk level and a stricter mode (force, auto,
  default, plan in this order) never give a milder decision; routine calls are allowed and critical
  ones denied in every mode.\<close>

theorem mode_matrix_is_monotone:
  "(as_level a \<le> as_level b \<and> mode_strictness m \<le> mode_strictness n \<longrightarrow>
      strictness (mode_apply m a) \<le> strictness (mode_apply n b)) \<and>
   (as_level a = Routine \<longrightarrow> mode_apply m a = Allow) \<and>
   (as_level a = Critical \<longrightarrow> mode_apply m a = Deny \<and> action_for m a = RuleDeny)"
  using mode_apply_mono [of a b m n] by (cases m) (auto simp: matrix_defs)

theorem mode_matrix_is_monotone_witness:
  "strictness (mode_apply AutoMode (bounded_assessment ''write'')) \<le>
     strictness (mode_apply PlanMode malformed_batch_assessment) \<and>
   mode_apply ForceMode (critical_assessment CommandExecution PrivilegedSystem SystemWide Irreversible
     PrivilegedSensitivity CatastrophicOperation) = Deny"
  using mode_matrix_is_monotone [of "bounded_assessment ''write''" malformed_batch_assessment AutoMode PlanMode]
    mode_matrix_is_monotone [of "critical_assessment CommandExecution PrivilegedSystem SystemWide Irreversible
     PrivilegedSensitivity CatastrophicOperation" malformed_batch_assessment ForceMode PlanMode]
  by (simp add: level_order)

subsection \<open>Atomic calls\<close>

lemma not_batch: "to_ascii_lowercase t = n \<Longrightarrow> n \<noteq> ''batch'' \<Longrightarrow> \<not> eq_ignore_ascii_case t ''batch''"
proof -
  assume n: "to_ascii_lowercase t = n" "n \<noteq> ''batch''"
  have "to_ascii_lowercase ''batch'' = ''batch''" by code_simp
  with n show ?thesis by (simp add: eq_ignore_ascii_case_def)
qed

lemma atomic_assessment:
  "\<not> eq_ignore_ascii_case t ''batch'' \<Longrightarrow> assess_tool_at_depth fs t args w d = assess_atomic fs t args w"
  by (simp add: assess_tool_at_depth.simps)

lemma denied_call_is_denied:
  assumes "\<not> eq_ignore_ascii_case t ''batch''" "is_object args"
    and "classify_atomic_tool fs t args (gr_workspace g) = Some Deny"
  shows "guardrail_check fs g t args = Some Deny"
proof -
  obtain a where "guardrail_assess fs g t args = Some a" "as_level a = Critical"
  proof (cases "workspace_boundary_assessment fs g t args")
    case None
    with assms that show thesis
      by (auto simp: guardrail_assess_def assess_tool_def atomic_assessment assess_atomic_def)
  next
    case (Some b)
    then have "as_level b = Critical"
      by (auto simp: workspace_boundary_assessment_def split: option.splits if_splits)
    with Some that show thesis by (simp add: guardrail_assess_def)
  qed
  then show ?thesis by (simp add: guardrail_check_def)
qed

text \<open>A shell call whose command is a hard denial of the classifier is denied in every mode, with or
  without a workspace.\<close>

theorem guardrail_denies_hard_denials:
  assumes "to_ascii_lowercase tool = ''bash''" and "is_object args"
    and "get_str args ''command'' = Some c" and "trim c \<noteq> []" and "analyze (trim c) = Some a"
    and "is_hard_denial (an_risk a)"
  shows "guardrail_check fs g tool args = Some Deny"
proof (rule denied_call_is_denied)
  show "\<not> eq_ignore_ascii_case tool ''batch''" by (rule not_batch [OF assms(1)]) simp
  show "classify_atomic_tool fs tool args (gr_workspace g) = Some Deny"
    using assms by (simp add: classify_atomic_tool_def classify_bash_def Let_def)
qed fact

definition plain_fs :: file_system where
  "plain_fs = \<lparr>fs_canonicalize = (\<lambda>p. Some p), fs_exists = (\<lambda>p. True), fs_symlink_metadata = (\<lambda>p. NotSymlink)\<rparr>"

theorem guardrail_denies_hard_denials_witness:
  "guardrail_check plain_fs (guardrail_new ForceMode) ''Bash''
     (JObject [(''command'', JString '' rm -rf ~ '')]) = Some Deny"
proof -
  have "map_option (\<lambda>a. is_hard_denial (an_risk a)) (analyze_lexed ''rm -rf ~'') = Some True" by code_simp
  then obtain a where a: "analyze ''rm -rf ~'' = Some a" "is_hard_denial (an_risk a)"
    by (auto simp: analyze_short MAX_SOURCE_BYTES_def)
  have "to_ascii_lowercase ''Bash'' = ''bash''" "trim '' rm -rf ~ '' = ''rm -rf ~''" by code_simp+
  with a show ?thesis
    by (intro guardrail_denies_hard_denials [where c = "'' rm -rf ~ ''"]) (simp_all add: get_str_def)
qed




subsection \<open>Batches\<close>

text \<open>What the loop over a batch's members keeps: the best level so far never falls, and when it ends
  regularly it has reached every member's level and collected every reason.\<close>

lemma assess_children_levels:
  "assess_children f invs hi rs = Some (Inr (hi', rs')) \<Longrightarrow>
     (\<forall>h. hi = Some h \<longrightarrow> (\<exists>h'. hi' = Some h' \<and> as_level h \<le> as_level h')) \<and> set rs \<subseteq> set rs' \<and>
     (\<forall>call \<in> set invs. \<exists>t a b h'. get_str call ''tool'' = Some t \<and> json_get call ''args'' = Some a \<and>
        is_object a \<and> f t a = Some b \<and> hi' = Some h' \<and> as_level b \<le> as_level h' \<and> set (as_reasons b) \<subseteq> set rs')"
proof (induction invs arbitrary: hi rs)
  case (Cons call invs)
  from Cons.prems obtain t where t: "get_str call ''tool'' = Some t" by (cases "get_str call ''tool''") simp_all
  from Cons.prems t obtain a where a: "json_get call ''args'' = Some a" by (cases "json_get call ''args''") simp_all
  from Cons.prems t a have obj: "is_object a" by (cases "is_object a") simp_all
  from Cons.prems t a obj obtain b where call: "get_str call ''tool'' = Some t" "json_get call ''args'' = Some a"
    "is_object a" "f t a = Some b"
    and rest: "assess_children f invs (case hi of None \<Rightarrow> Some b
        | Some c \<Rightarrow> if as_level b > as_level c then Some b else hi) (rs @ as_reasons b) = Some (Inr (hi', rs'))"
    by (cases "f t a") simp_all
  let ?next = "case hi of None \<Rightarrow> Some b | Some c \<Rightarrow> if as_level b > as_level c then Some b else hi"
  obtain n where n: "?next = Some n" "as_level b \<le> as_level n" "\<forall>h. hi = Some h \<longrightarrow> as_level h \<le> as_level n"
  proof (cases hi)
    case (Some c)
    then show thesis
      using that [of b] that [of c] by (cases "as_level c < as_level b") (simp_all add: not_less)
  qed (auto intro: that)
  from Cons.IH [OF rest] n(1) obtain h' where h': "hi' = Some h'" "as_level n \<le> as_level h'" by blast
  have reasons: "set rs \<union> set (as_reasons b) \<subseteq> set rs'" using Cons.IH [OF rest] by simp
  have now: "as_level b \<le> as_level h'" "\<forall>h. hi = Some h \<longrightarrow> as_level h \<le> as_level h'"
    using n(2,3) h'(2) by (auto intro: order_trans)
  show ?case
  proof (intro conjI ballI)
    show "\<forall>h. hi = Some h \<longrightarrow> (\<exists>h'. hi' = Some h' \<and> as_level h \<le> as_level h')" using now(2) h'(1) by blast
    show "set rs \<subseteq> set rs'" using reasons by simp
    fix x assume "x \<in> set (call # invs)"
    then consider "x = call" | "x \<in> set invs" by auto
    then show "\<exists>t a b h'. get_str x ''tool'' = Some t \<and> json_get x ''args'' = Some a \<and> is_object a \<and>
        f t a = Some b \<and> hi' = Some h' \<and> as_level b \<le> as_level h' \<and> set (as_reasons b) \<subseteq> set rs'"
      by cases (use call h'(1) now(1) reasons Cons.IH [OF rest] in \<open>blast+\<close>)
  qed
qed auto

lemma batch_level:
  assumes "assess_batch f args depth = Some a" and "get_array args ''invocations'' = Some invs"
    and "call \<in> set invs"
  shows "a = malformed_batch_assessment \<or>
    depth < MAX_BATCH_RISK_DEPTH \<and> (\<exists>t v b. get_str call ''tool'' = Some t \<and> json_get call ''args'' = Some v \<and>
      f t v = Some b \<and> as_level b \<le> as_level a \<and> set (as_reasons b) \<subseteq> set (as_reasons a))"
proof (cases "depth < MAX_BATCH_RISK_DEPTH")
  case True
  have "invs \<noteq> []" using assms(3) by auto
  with True assms(1) obtain r where r: "assess_children f invs None [CompositeInvocation] = Some r"
    and a: "a = (case r of
            Inr (Some highest, reasons) \<Rightarrow>
              assessment_new (as_level highest)
                (dimensions_new Composite MultipleTargets
                  (dim_impact_scope (as_dimensions highest))
                  (dim_reversibility (as_dimensions highest))
                  (dim_environment_sensitivity (as_dimensions highest)))
                reasons
          | _ \<Rightarrow> malformed_batch_assessment)"
    unfolding assess_batch_def assms(2) by (cases "assess_children f invs None [CompositeInvocation]") simp_all
  show ?thesis
  proof (cases "\<exists>h rs. r = Inr (Some h, rs)")
    case True
    then obtain h rs where r': "r = Inr (Some h, rs)" by blast
    from assess_children_levels [OF r [unfolded r']] assms(3)
    obtain t v b where "get_str call ''tool'' = Some t" "json_get call ''args'' = Some v" "f t v = Some b"
      "as_level b \<le> as_level h" "set (as_reasons b) \<subseteq> set rs" by auto
    then show ?thesis using a r' \<open>depth < MAX_BATCH_RISK_DEPTH\<close> by auto
  next
    case False
    then have "a = malformed_batch_assessment"
      unfolding a by (auto split: sum.split option.split)
    then show ?thesis ..
  qed
qed (use assms in \<open>auto simp: assess_batch_def\<close>)

inductive nested_call :: "str \<Rightarrow> json \<Rightarrow> str \<Rightarrow> json \<Rightarrow> bool" where
  here: "nested_call t a t a"
| member: "eq_ignore_ascii_case t ''batch'' \<Longrightarrow> get_array args ''invocations'' = Some invs \<Longrightarrow> call \<in> set invs \<Longrightarrow>
    get_str call ''tool'' = Some t' \<Longrightarrow> json_get call ''args'' = Some args' \<Longrightarrow> nested_call t' args' t0 a0 \<Longrightarrow>
    nested_call t args t0 a0"

lemma nested_call_level:
  "nested_call t args t0 a0 \<Longrightarrow> \<not> eq_ignore_ascii_case t0 ''batch'' \<Longrightarrow> assess_atomic fs t0 a0 w = Some b \<Longrightarrow>
     assess_tool_at_depth fs t args w depth = Some a \<Longrightarrow> min (as_level b) High \<le> as_level a"
proof (induction arbitrary: depth a rule: nested_call.induct)
  case (here t a)
  then show ?case by (simp add: atomic_assessment)
next
  case (member t args invs call t' args' t0 a0)
  let ?f = "\<lambda>tool tool_args. if depth \<ge> MAX_BATCH_RISK_DEPTH then Some malformed_batch_assessment
    else assess_tool_at_depth fs tool tool_args w (depth + 1)"
  have "assess_batch ?f args depth = Some a"
    using member.prems(3) member.hyps(1) by (simp add: assess_tool_at_depth.simps [of fs t])
  from batch_level [OF this member.hyps(2,3)] show ?case
  proof
    assume "a = malformed_batch_assessment"
    then show ?thesis by simp
  next
    assume "depth < MAX_BATCH_RISK_DEPTH \<and> (\<exists>t v b. get_str call ''tool'' = Some t \<and> json_get call ''args'' = Some v \<and>
      ?f t v = Some b \<and> as_level b \<le> as_level a \<and> set (as_reasons b) \<subseteq> set (as_reasons a))"
    with member.hyps(4,5) obtain c where c: "assess_tool_at_depth fs t' args' w (depth + 1) = Some c"
      "as_level c \<le> as_level a" by (auto split: if_splits)
    from member.IH [OF member.prems(1,2) c(1)] c(2) show ?thesis by (rule order_trans)
  qed
qed

text \<open>A batch hides nothing: however deeply a call is nested in batches, the assessment of the whole
  is at least as high as the call's own, capped at \<open>High\<close> (the level of a malformed or too deep batch);
  so outside force mode a batch with a high or critical member is never allowed silently.\<close>

theorem batch_hides_no_risk:
  assumes "nested_call tool args t0 a0" and "\<not> eq_ignore_ascii_case t0 ''batch''"
    and "assess_atomic fs t0 a0 (gr_workspace g) = Some b" and "guardrail_assess fs g tool args = Some a"
  shows "min (as_level b) High \<le> as_level a \<and>
    (High \<le> as_level b \<and> gr_mode g \<noteq> ForceMode \<longrightarrow> guardrail_check fs g tool args \<noteq> Some Allow)"
proof -
  have lev: "min (as_level b) High \<le> as_level a"
  proof (cases "workspace_boundary_assessment fs g tool args")
    case None
    with assms(4) have "assess_tool_at_depth fs tool args (gr_workspace g) 0 = Some a"
      by (simp add: guardrail_assess_def assess_tool_def)
    from nested_call_level [OF assms(1-3) this] show ?thesis .
  next
    case (Some c)
    with assms(4) have "as_level a = Critical"
      by (auto simp: guardrail_assess_def workspace_boundary_assessment_def split: option.splits if_splits)
    then show ?thesis by simp
  qed
  moreover have "guardrail_check fs g tool args \<noteq> Some Allow" if "High \<le> as_level b" "gr_mode g \<noteq> ForceMode"
  proof
    assume "guardrail_check fs g tool args = Some Allow"
    with assms(4) have "mode_apply (gr_mode g) a = Allow" by (simp add: guardrail_check_def)
    from mode_apply_Allow_level [OF this] that(2) have "as_level a < High" by (auto simp: level_order)
    with lev that(1) show False by (auto simp: min_def split: if_splits)
  qed
  ultimately show ?thesis by blast
qed

definition deep_batch :: json where
  "deep_batch = JObject [(''invocations'', JArray [JObject [(''tool'', JString ''Batch''),
     (''args'', JObject [(''invocations'', JArray [JObject [(''tool'', JString ''bash''),
        (''args'', JObject [(''command'', JString ''make'')])]])])]])]"

theorem batch_hides_no_risk_witness:
  "guardrail_check plain_fs (guardrail_new AutoMode) ''batch'' deep_batch \<noteq> Some Allow"
proof -
  let ?g = "guardrail_new AutoMode" and ?inner = "JObject [(''command'', JString ''make'')]"
  have eq: "eq_ignore_ascii_case ''batch'' ''batch''" "eq_ignore_ascii_case ''Batch'' ''batch''"
    "\<not> eq_ignore_ascii_case ''bash'' ''batch''" by code_simp+
  let ?bash = "JObject [(''tool'', JString ''bash''), (''args'', ?inner)]"
  let ?mid = "JObject [(''invocations'', JArray [?bash])]"
  let ?batch = "JObject [(''tool'', JString ''Batch''), (''args'', ?mid)]"
  have "nested_call ''Batch'' ?mid ''bash'' ?inner"
    by (rule nested_call.member [OF eq(2), where call = ?bash and invs = "[?bash]" and t' = "''bash''" and args' = ?inner])
      (simp_all add: get_array_def get_str_def nested_call.here)
  then have nested: "nested_call ''batch'' deep_batch ''bash'' ?inner"
    by (intro nested_call.member [OF eq(1), where call = ?batch and invs = "[?batch]" and t' = "''Batch''" and args' = ?mid])
      (simp_all add: deep_batch_def get_array_def get_str_def)
  have "map_option as_level (assess_atomic plain_fs ''bash'' ?inner None) = Some High"
    "map_option (\<lambda>a. ()) (guardrail_assess plain_fs ?g ''batch'' deep_batch) = Some ()" by code_simp+
  then obtain a b where ab: "assess_atomic plain_fs ''bash'' ?inner (gr_workspace ?g) = Some b" "as_level b = High"
    "guardrail_assess plain_fs ?g ''batch'' deep_batch = Some a" by (auto simp: guardrail_new_def)
  from batch_hides_no_risk [OF nested eq(3) ab(1,3)] ab(2) show ?thesis by (simp add: guardrail_new_def)
qed

subsection \<open>The silent shell\<close>

text \<open>What the guardrail lets through silently in the shell, in every mode but force, is a read-only
  pipeline of top-level commands: the verdict is \<open>ReadOnly\<close>, nothing is opaque, and each command is
  written in plain words, without redirect, assignment or wrapper, naming no path outside the workspace.\<close>

theorem silent_shell_is_a_read_only_pipeline:
  assumes "to_ascii_lowercase tool = ''bash''" and "get_str args ''command'' = Some c"
    and "guardrail_check fs g tool args = Some Allow" and "gr_mode g \<noteq> ForceMode"
  shows "\<exists>a. analyze (trim c) = Some a \<and> an_risk a = ReadOnly \<and> an_only_pipes a \<and> an_opaque a = {} \<and>
    an_commands a \<noteq> [] \<and> (\<forall>x \<in> set (an_commands a). read_only_evidence x \<and> cmd_depth x = 0 \<and> cmd_plain_words x \<and>
      \<not> cmd_redirects x \<and> \<not> cmd_has_assignments x \<and> \<not> cmd_wrapped x \<and>
      (\<forall>w \<in> set (cmd_effective x). \<not> path_is_outside_workspace fs (clean_shell_token w) (gr_workspace g)))"
proof -
  have nb: "\<not> eq_ignore_ascii_case tool ''batch''" by (rule not_batch [OF assms(1)]) simp
  from assms(3) obtain b where b: "guardrail_assess fs g tool args = Some b" "mode_apply (gr_mode g) b = Allow"
    by (auto simp: guardrail_check_def)
  have "as_level b \<noteq> Critical" using b(2) by auto
  with b(1) have "workspace_boundary_assessment fs g tool args = None"
    by (auto simp: guardrail_assess_def workspace_boundary_assessment_def split: option.splits if_splits)
  with b(1) have at: "assess_atomic fs tool args (gr_workspace g) = Some b"
    by (simp add: guardrail_assess_def assess_tool_def atomic_assessment [OF nb])
  have quiet: "as_level b = Routine \<or> as_level b = Bounded" using mode_apply_Allow_level [OF b(2)] assms(4) by auto
  have "is_object args" using assms(2) by (cases args) (simp_all add: get_str_def)
  with at obtain d where d: "classify_atomic_tool fs tool args (gr_workspace g) = Some d"
    by (cases "classify_atomic_tool fs tool args (gr_workspace g)") (simp_all add: assess_atomic_def)
  have "d = Allow"
    using quiet at d \<open>is_object args\<close> assms(1)
    by (cases d) (auto simp: assess_atomic_def atomic_tool_is_bounded_def split: if_splits)
  with d assms(1) have "classify_bash fs args (gr_workspace g) = Some Allow"
    by (simp add: classify_atomic_tool_def)
  with assms(2) obtain a where a: "analyze (trim c) = Some a"
    and ro: "is_read_only_bash_command fs (trim c) a (gr_workspace g)"
    by (auto simp: classify_bash_def bind_eq_Some_conv Let_def split: if_splits)
  from ro have risk: "an_risk a = ReadOnly" by (simp add: is_read_only_bash_command_def)
  note well = analyze_well [OF a]
  have "an_opaque a = {}" using opaque_risk_le [OF well] risk by (auto simp: risk_order)
  moreover have "an_commands a \<noteq> []" using well \<open>an_opaque a = {}\<close> by (auto simp: well_analyzed_def)
  moreover have "read_only_evidence x" if "x \<in> set (an_commands a)" for x
  proof -
    have "cmd_risk x = ReadOnly"
      using command_risk_le [OF well that] risk by (cases "cmd_risk x") (simp_all add: risk_order)
    then show ?thesis using well that by (auto simp: well_analyzed_def sound_command_def list_all_iff)
  qed
  ultimately show ?thesis
    using a risk ro
    by (auto simp: is_read_only_bash_command_def plain_read_command_def list_all_iff list_ex_iff)
qed

theorem silent_shell_is_a_read_only_pipeline_witness:
  "\<exists>a. analyze (trim ''git log | head -n 3'') = Some a \<and> an_opaque a = {}"
proof -
  let ?args = "JObject [(''command'', JString ''git log | head -n 3'')]"
  have "guardrail_check plain_fs (guardrail_new PlanMode) ''bash'' ?args = Some Allow" by code_simp
  moreover have "to_ascii_lowercase ''bash'' = ''bash''" by code_simp
  moreover have "gr_mode (guardrail_new PlanMode) \<noteq> ForceMode" by (simp add: guardrail_new_def)
  moreover have "get_str ?args ''command'' = Some ''git log | head -n 3''" by (simp add: get_str_def)
  ultimately show ?thesis using silent_shell_is_a_read_only_pipeline by blast
qed

subsection \<open>Relative paths\<close>

text \<open>A relative path escapes exactly if some prefix of it has more \<open>..\<close> than directory components
  before them; and in a file system without symbolic links an absolute path escapes a workspace root
  exactly if its lexical normal form does not extend the root's (or one of them has none).\<close>

theorem workspace_escape_is_net_ascent:
  "(relative_path_escapes p \<longleftrightarrow>
     (\<exists>i \<le> length (split_on CHR ''/'' p). downs (take i (split_on CHR ''/'' p)) < ups (take i (split_on CHR ''/'' p)))) \<and>
   (link_free fs \<longrightarrow> path_escapes_workspace_root fs root (CHR ''/'' # p) =
     (case (normalize_abs_lexical root, normalize_abs_lexical (path_components (CHR ''/'' # p))) of
        (Some r, Some t) \<Rightarrow> take (length r) t \<noteq> r | _ \<Rightarrow> True))"
proof (intro conjI impI)
  show "relative_path_escapes p \<longleftrightarrow>
     (\<exists>i \<le> length (split_on CHR ''/'' p). downs (take i (split_on CHR ''/'' p)) < ups (take i (split_on CHR ''/'' p)))"
    using escapes_from_iff [of 0] by (simp add: relative_path_escapes_def)
  assume "link_free fs"
  then show "path_escapes_workspace_root fs root (CHR ''/'' # p) =
     (case (normalize_abs_lexical root, normalize_abs_lexical (path_components (CHR ''/'' # p))) of
        (Some r, Some t) \<Rightarrow> take (length r) t \<noteq> r | _ \<Rightarrow> True)"
    by (simp add: path_escapes_workspace_root_def path_is_lexically_absolute_def normalize_link_free
        path_starts_with_def Let_def split: option.split)
qed

theorem workspace_escape_is_net_ascent_witness:
  "path_escapes_workspace_root plain_fs [RootDir, Normal ''ws''] ''/ws/../etc'' \<and>
   \<not> path_escapes_workspace_root plain_fs [RootDir, Normal ''ws''] ''/ws/a/../b''"
proof -
  have "link_free plain_fs" by (simp add: link_free_def plain_fs_def)
  note eq = workspace_escape_is_net_ascent [of _ plain_fs "[RootDir, Normal ''ws'']", THEN conjunct2, THEN mp, OF this]
  have n: "normalize_abs_lexical [RootDir, Normal ''ws''] = Some [RootDir, Normal ''ws'']"
    "normalize_abs_lexical (path_components ''/ws/../etc'') = Some [RootDir, Normal ''etc'']"
    "normalize_abs_lexical (path_components ''/ws/a/../b'') = Some [RootDir, Normal ''ws'', Normal ''b'']"
    by code_simp+
  show ?thesis using eq [of "''ws/../etc''"] eq [of "''ws/a/../b''"] by (simp add: n)
qed

subsection \<open>Gaps\<close>

text \<open>
  A path glued to an option is not seen by the workspace test, so a silent command can read a file
  outside the workspace; and a \<open>functions.\<close> prefix inside a batch hides a hard denial, which is then
  only a high-risk call.
\<close>

lemma option_path_is_silent:
  "guardrail_check plain_fs (with_workspace [RootDir, Normal ''ws''] (guardrail_new PlanMode)) ''bash''
     (JObject [(''command'', JString ''wc --files0-from=/etc/passwd'')]) = Some Allow"
  by code_simp

lemma prefixed_member_is_only_high:
  "guardrail_check plain_fs (guardrail_new ForceMode) ''batch''
     (JObject [(''invocations'', JArray [JObject [(''tool'', JString ''functions.bash''),
        (''args'', JObject [(''command'', JString ''rm -rf /'')])]])]) = Some Allow"
  by code_simp

end
