(* ===== verification/TaskScheduler.thy ===== *)
theory TaskScheduler
  imports Prelude "HOL-Library.Product_Lexorder" "HOL-Library.Multiset"
begin

section \<open>The task scheduler\<close>

text \<open>
  \<^verbatim>\<open>core/src/task_scheduler.rs\<close> with the identities of \<^verbatim>\<open>core/src/execution_identity.rs\<close>: the actor that admits
  tasks under a global capacity and per-identity quotas, its messages, and the client side that
  validates a request, sends it and releases its lease.

  The priority queue of the crate \<^verbatim>\<open>a3s_lane\<close> is a parameter, the record \<open>queue_ops\<close> over an abstract
  queue type; the locale \<open>priority_queue\<close> (theory \<open>SchedulerLaws\<close>) states what the scheduler relies
  on.  Loops that pop until the queue is empty are bounded by its length.  What the actor sees of the
  outside is the record \<open>turn\<close>: the clock at the aging pass, the clock when an admission's waiting time
  is read, and which callers have dropped their receiver.  Clocks count microseconds.

  Fields of type \<^verbatim>\<open>usize\<close> are natural numbers and those of type \<^verbatim>\<open>u64\<close> integers, both with the saturation
  of the code at \<open>2 ^ 64 - 1\<close>; admission ids count up from one without wrapping.
\<close>

subsection \<open>Identities, priorities and configuration\<close>

record identity =
  idt_schema :: str
  idt_domain :: str
  idt_digest :: str

definition EXECUTION_IDENTITY_SCHEMA_V1 :: str where
  "EXECUTION_IDENTITY_SCHEMA_V1 = ''a3s.code.execution-identity.v1''"

definition validate_domain :: "str \<Rightarrow> bool" where
  "validate_domain domain \<longleftrightarrow>
     \<not> (domain = [] \<or> utf8_len domain > 128 \<or> CHR 0x00 \<in> set domain \<or> lines_count domain \<noteq> 1
        \<or> \<not> list_all (\<lambda>b. is_ascii_lower b \<or> is_ascii_digit b \<or> b \<in> set ''.-_'') domain)"

definition identity_validate :: "identity \<Rightarrow> bool" where
  "identity_validate i \<longleftrightarrow>
     idt_schema i = EXECUTION_IDENTITY_SCHEMA_V1 \<and> validate_domain (idt_domain i) \<and>
     (case strip_prefix ''sha256:'' (idt_digest i) of
        None \<Rightarrow> False
      | Some hex \<Rightarrow> utf8_len hex = 64 \<and>
          list_all (\<lambda>b. is_ascii_digit b \<or> b \<in> set ''abcdef'') hex)"

datatype task_priority = Urgent | Interactive | Foreground | Background | Maintenance

fun priority_value :: "task_priority \<Rightarrow> nat" where
  "priority_value Urgent = 0"
| "priority_value Interactive = 1"
| "priority_value Foreground = 2"
| "priority_value Background = 3"
| "priority_value Maintenance = 4"

definition priority_from_str :: "str \<Rightarrow> task_priority option" where
  "priority_from_str v =
     (let s = filter (\<lambda>c. c \<notin> set ''-_'') (to_ascii_lowercase (trim v)) in
      if s = ''urgent'' then Some Urgent
      else if s \<in> set [''interactive'', ''user''] then Some Interactive
      else if s = ''foreground'' then Some Foreground
      else if s = ''background'' then Some Background
      else if s = ''maintenance'' then Some Maintenance
      else None)"

record scheduler_config =
  cfg_max_active :: nat
  cfg_aging_interval_ms :: nat

definition config_default :: scheduler_config where
  "config_default = \<lparr>cfg_max_active = 4, cfg_aging_interval_ms = 30000\<rparr>"

definition config_validate :: "scheduler_config \<Rightarrow> bool" where
  "config_validate c \<longleftrightarrow> cfg_max_active c \<noteq> 0 \<and> cfg_aging_interval_ms c \<noteq> 0"

record quota =
  qt_identity :: identity
  qt_max_active :: nat

abbreviation qt_key :: "quota \<Rightarrow> str" where
  "qt_key q \<equiv> idt_digest (qt_identity q)"

definition quota_validate :: "quota \<Rightarrow> bool" where
  "quota_validate q \<longleftrightarrow> identity_validate (qt_identity q) \<and> qt_max_active q \<noteq> 0"

definition MAX_PENDING_ADMISSIONS :: nat where "MAX_PENDING_ADMISSIONS = 4096"
definition ADMISSION_CHANNEL_CAPACITY :: nat where "ADMISSION_CHANNEL_CAPACITY = 256"
definition TASK_SCHEDULER_MAX_QUOTAS :: nat where "TASK_SCHEDULER_MAX_QUOTAS = 8"
definition TASK_SCHEDULER_QUOTA_HEALTH_RETENTION :: nat where "TASK_SCHEDULER_QUOTA_HEALTH_RETENTION = 64"

subsection \<open>Saturating counters\<close>

definition USIZE_MAX :: nat where "USIZE_MAX = 2 ^ 64 - 1"
definition U64_MAX :: int where "U64_MAX = 2 ^ 64 - 1"

definition usize_inc :: "nat \<Rightarrow> nat" where
  "usize_inc n = (if n < USIZE_MAX then n + 1 else USIZE_MAX)"

lemma usize_inc_code [code]:
  "usize_inc n = (if int n < 18446744073709551615 then Suc n else USIZE_MAX)"
  by (simp add: usize_inc_def USIZE_MAX_def)

definition u64_add :: "int \<Rightarrow> int \<Rightarrow> int" where
  "u64_add a b = min U64_MAX (a + b)"

subsection \<open>State\<close>

datatype scheduler_error = InvalidConfig | Cancelled | Closed | AtCapacity nat

record admission =
  adm_id :: nat
  adm_priority :: task_priority
  adm_effective_priority :: nat
  adm_label :: str
  adm_identity :: "identity option"
  adm_quotas :: "quota list"
  adm_global_slot :: bool
  adm_enqueued_at :: nat

record counters =
  ct_admitted :: int
  ct_released :: int
  ct_cancelled :: int
  ct_rejected :: int
  ct_aging_promotions :: int
  ct_peak_active :: nat
  ct_total_wait_micros :: int
  ct_max_wait_micros :: int

definition counters_default :: counters where
  "counters_default =
     \<lparr>ct_admitted = 0, ct_released = 0, ct_cancelled = 0, ct_rejected = 0, ct_aging_promotions = 0,
      ct_peak_active = 0, ct_total_wait_micros = 0, ct_max_wait_micros = 0\<rparr>"

record active_admission =
  aa_priority :: task_priority
  aa_quota_identities :: "str list"
  aa_global_slot :: bool

record quota_state =
  qs_identity :: identity
  qs_max_active :: nat
  qs_active :: nat
  qs_pending :: nat
  qs_admitted :: int
  qs_released :: int
  qs_cancelled :: int
  qs_rejected :: int
  qs_peak_active :: nat
  qs_total_wait_micros :: int
  qs_max_wait_micros :: int

definition quota_state_new :: "identity \<Rightarrow> nat \<Rightarrow> quota_state" where
  "quota_state_new i n =
     \<lparr>qs_identity = i, qs_max_active = n, qs_active = 0, qs_pending = 0, qs_admitted = 0,
      qs_released = 0, qs_cancelled = 0, qs_rejected = 0, qs_peak_active = 0,
      qs_total_wait_micros = 0, qs_max_wait_micros = 0\<rparr>"

text \<open>The queue of \<^verbatim>\<open>a3s_lane\<close>: an entry has the priority it was pushed with and a sequence number.\<close>

record entry =
  en_priority :: nat
  en_sequence :: nat
  en_value :: admission

record 'q queue_ops =
  pq_new :: 'q
  pq_push :: "nat \<Rightarrow> admission \<Rightarrow> 'q \<Rightarrow> 'q"
  pq_pop :: "'q \<Rightarrow> (entry \<times> 'q) option"
  pq_restore :: "entry \<Rightarrow> 'q \<Rightarrow> 'q"
  pq_ordered :: "'q \<Rightarrow> entry list"

definition pq_len :: "'q queue_ops \<Rightarrow> 'q \<Rightarrow> nat" where
  "pq_len Q q = length (pq_ordered Q q)"

record 'q scheduler =
  sc_config :: scheduler_config
  sc_pending :: 'q
  sc_active :: "(nat \<times> active_admission) list"
  sc_quotas :: "str \<rightharpoonup> quota_state"
  sc_retained_quota_health :: "str \<rightharpoonup> quota_state"
  sc_retained_quota_order :: "str list"
  sc_closing :: bool
  sc_shutdown_waiters :: "nat list"
  sc_counters :: counters

record turn =
  tn_now :: nat
  tn_clock :: "nat \<Rightarrow> nat"
  tn_gone :: "nat \<Rightarrow> bool"

text \<open>What the actor sends: the answer to an admission and the end of a shutdown.\<close>

datatype reply = Ready nat "scheduler_error option" | ShutdownDone nat

definition scheduler_new :: "'q queue_ops \<Rightarrow> scheduler_config \<Rightarrow> 'q scheduler" where
  "scheduler_new Q config =
     \<lparr>sc_config = config, sc_pending = pq_new Q, sc_active = [], sc_quotas = Map.empty,
      sc_retained_quota_health = Map.empty, sc_retained_quota_order = [], sc_closing = False,
      sc_shutdown_waiters = [], sc_counters = counters_default\<rparr>"

definition global_active_count :: "'q scheduler \<Rightarrow> nat" where
  "global_active_count st = length (filter (\<lambda>(i, a). aa_global_slot a) (sc_active st))"

subsection \<open>Quota accounting\<close>

definition update_quota :: "str \<Rightarrow> (quota_state \<Rightarrow> quota_state) \<Rightarrow> 'q scheduler \<Rightarrow> 'q scheduler" where
  "update_quota key f st =
     (case sc_quotas st key of
        None \<Rightarrow> st
      | Some s \<Rightarrow> st\<lparr>sc_quotas := (sc_quotas st)(key \<mapsto> f s)\<rparr>)"

fun evict_quota_health :: "str list \<Rightarrow> (str \<rightharpoonup> quota_state) \<Rightarrow> str list \<times> (str \<rightharpoonup> quota_state)" where
  "evict_quota_health [] kept = ([], kept)"
| "evict_quota_health (k # order) kept =
     (if length (k # order) > TASK_SCHEDULER_QUOTA_HEALTH_RETENTION
      then evict_quota_health order (kept(k := None))
      else (k # order, kept))"

definition retain_quota_health :: "str \<Rightarrow> quota_state \<Rightarrow> 'q scheduler \<Rightarrow> 'q scheduler" where
  "retain_quota_health key s st =
     (let order = filter (\<lambda>c. c \<noteq> key) (sc_retained_quota_order st) @ [key];
          kept = ((sc_retained_quota_health st)(key := None))(key \<mapsto> s);
          (order, kept) = evict_quota_health order kept
      in st\<lparr>sc_retained_quota_health := kept, sc_retained_quota_order := order\<rparr>)"

definition take_retained_quota_health ::
    "str \<Rightarrow> identity \<Rightarrow> nat \<Rightarrow> 'q scheduler \<Rightarrow> quota_state option \<times> 'q scheduler" where
  "take_retained_quota_health key i n st =
     (case sc_retained_quota_health st key of
        None \<Rightarrow> (None, st)
      | Some s \<Rightarrow>
          (if qs_identity s = i \<and> qs_max_active s = n then Some s else None,
           st\<lparr>sc_retained_quota_health := (sc_retained_quota_health st)(key := None),
              sc_retained_quota_order := filter (\<lambda>c. c \<noteq> key) (sc_retained_quota_order st)\<rparr>))"

definition prune_idle_quota :: "str \<Rightarrow> 'q scheduler \<Rightarrow> 'q scheduler" where
  "prune_idle_quota key st =
     (case sc_quotas st key of
        None \<Rightarrow> st
      | Some s \<Rightarrow>
          if qs_active s = 0 \<and> qs_pending s = 0 then
            retain_quota_health key s (st\<lparr>sc_quotas := (sc_quotas st)(key := None)\<rparr>)
          else st)"

definition quota_conflicts :: "'q scheduler \<Rightarrow> quota \<Rightarrow> bool" where
  "quota_conflicts st q \<longleftrightarrow>
     (case sc_quotas st (qt_key q) of
        None \<Rightarrow> False
      | Some s \<Rightarrow> qs_identity s \<noteq> qt_identity q \<or> qs_max_active s \<noteq> qt_max_active q)"

definition register_quota :: "quota \<Rightarrow> 'q scheduler \<Rightarrow> 'q scheduler" where
  "register_quota q st =
     (if sc_quotas st (qt_key q) \<noteq> None then st
      else
        let (kept, st) = take_retained_quota_health (qt_key q) (qt_identity q) (qt_max_active q) st;
            s = (case kept of Some s \<Rightarrow> s | None \<Rightarrow> quota_state_new (qt_identity q) (qt_max_active q))
        in st\<lparr>sc_quotas := (sc_quotas st)(qt_key q \<mapsto> s)\<rparr>)"

definition register_pending_quotas :: "quota list \<Rightarrow> 'q scheduler \<Rightarrow> 'q scheduler option" where
  "register_pending_quotas quotas st =
     (if list_ex (quota_conflicts st) quotas then None else Some (fold register_quota quotas st))"

text \<open>The loops that settle the quotas of a finished request: update one key, then prune it.\<close>

definition settle_quota :: "(quota_state \<Rightarrow> quota_state) \<Rightarrow> str \<Rightarrow> 'q scheduler \<Rightarrow> 'q scheduler" where
  "settle_quota f key st = prune_idle_quota key (update_quota key f st)"

definition reject_pending_quotas :: "quota list \<Rightarrow> 'q scheduler \<Rightarrow> 'q scheduler" where
  "reject_pending_quotas quotas st =
     fold (settle_quota (\<lambda>s. s\<lparr>qs_pending := qs_pending s - 1, qs_rejected := u64_add (qs_rejected s) 1\<rparr>))
       (map qt_key quotas) st"

definition count_cancelled :: "'q scheduler \<Rightarrow> 'q scheduler" where
  "count_cancelled st =
     st\<lparr>sc_counters := (sc_counters st)\<lparr>ct_cancelled := u64_add (ct_cancelled (sc_counters st)) 1\<rparr>\<rparr>"

definition count_rejected :: "'q scheduler \<Rightarrow> 'q scheduler" where
  "count_rejected st =
     st\<lparr>sc_counters := (sc_counters st)\<lparr>ct_rejected := u64_add (ct_rejected (sc_counters st)) 1\<rparr>\<rparr>"

definition cancel_pending :: "admission \<Rightarrow> 'q scheduler \<Rightarrow> 'q scheduler \<times> reply list" where
  "cancel_pending item st =
     (fold (settle_quota (\<lambda>s. s\<lparr>qs_pending := qs_pending s - 1, qs_cancelled := u64_add (qs_cancelled s) 1\<rparr>))
        (map qt_key (adm_quotas item)) (count_cancelled st),
      [Ready (adm_id item) (Some Cancelled)])"

definition release_active_quotas :: "str list \<Rightarrow> bool \<Rightarrow> 'q scheduler \<Rightarrow> 'q scheduler" where
  "release_active_quotas keys was_cancelled st =
     fold (settle_quota (\<lambda>s.
         if was_cancelled
         then s\<lparr>qs_active := qs_active s - 1, qs_cancelled := u64_add (qs_cancelled s) 1\<rparr>
         else s\<lparr>qs_active := qs_active s - 1, qs_released := u64_add (qs_released s) 1\<rparr>))
       keys st"

definition quota_allows :: "'q scheduler \<Rightarrow> quota list \<Rightarrow> bool" where
  "quota_allows st quotas =
     list_all (\<lambda>q. (case sc_quotas st (qt_key q) of
        None \<Rightarrow> False | Some s \<Rightarrow> qs_active s < qs_max_active s)) quotas"

subsection \<open>Queue passes\<close>

text \<open>\<^verbatim>\<open>while let Some(item) = self.pending.pop()\<close>, and the restoring loop after it.\<close>

fun pop_all :: "'q queue_ops \<Rightarrow> nat \<Rightarrow> 'q \<Rightarrow> entry list \<times> 'q" where
  "pop_all Q 0 q = ([], q)"
| "pop_all Q (Suc n) q =
     (case pq_pop Q q of
        None \<Rightarrow> ([], q)
      | Some (e, q) \<Rightarrow> (let (es, q) = pop_all Q n q in (e # es, q)))"

definition drain :: "'q queue_ops \<Rightarrow> 'q \<Rightarrow> entry list \<times> 'q" where
  "drain Q q = pop_all Q (pq_len Q q) q"

definition restore_all :: "'q queue_ops \<Rightarrow> entry list \<Rightarrow> 'q \<Rightarrow> 'q" where
  "restore_all Q es q = fold (pq_restore Q) es q"

definition remove_pending :: "'q queue_ops \<Rightarrow> nat \<Rightarrow> 'q \<Rightarrow> admission option \<times> 'q" where
  "remove_pending Q i q =
     (if pq_len Q q = 0 then (None, q)
      else
        let (es, q) = drain Q q;
            removed = filter (\<lambda>e. adm_id (en_value e) = i) es;
            retained = filter (\<lambda>e. adm_id (en_value e) \<noteq> i) es
        in (if removed = [] then None else Some (en_value (last removed)), restore_all Q retained q))"

definition admissible :: "'q scheduler \<Rightarrow> bool \<Rightarrow> admission \<Rightarrow> bool" where
  "admissible st global_capacity_available item \<longleftrightarrow>
     (\<not> adm_global_slot item \<or> global_capacity_available) \<and> quota_allows st (adm_quotas item)"

text \<open>The first entry that satisfies the test, and the others in order.\<close>

fun select_first :: "('a \<Rightarrow> bool) \<Rightarrow> 'a list \<Rightarrow> 'a option \<times> 'a list" where
  "select_first P [] = (None, [])"
| "select_first P (x # xs) =
     (if P x then (Some x, xs) else (let (s, ys) = select_first P xs in (s, x # ys)))"

definition pop_admissible ::
    "'q queue_ops \<Rightarrow> bool \<Rightarrow> 'q scheduler \<Rightarrow> admission option \<times> 'q scheduler" where
  "pop_admissible Q global_capacity_available st =
     (let (es, q) = drain Q (sc_pending st);
          (selected, retained) = select_first (\<lambda>e. admissible st global_capacity_available (en_value e)) es
      in (map_option en_value selected, st\<lparr>sc_pending := restore_all Q retained q\<rparr>))"

definition aged_priority :: "nat \<Rightarrow> nat \<Rightarrow> admission \<Rightarrow> nat" where
  "aged_priority now interval_ms item =
     (let elapsed_ms = (now - adm_enqueued_at item) div 1000;
          levels = min (elapsed_ms div interval_ms) 255
      in if adm_priority item = Urgent then priority_value Urgent
         else max (priority_value (adm_priority item) - levels) 1)"

lemma aged_priority_code [code]:
  "aged_priority now interval_ms item =
     (let waited = int (now - adm_enqueued_at item) div 1000;
          levels = min (waited div int interval_ms) 255
      in if adm_priority item = Urgent then priority_value Urgent
         else max (priority_value (adm_priority item) - nat levels) 1)"
proof -
  let ?n = "(now - adm_enqueued_at item) div 1000 div interval_ms"
  have "int (now - adm_enqueued_at item) div 1000 div int interval_ms = int ?n"
    by (simp only: zdiv_int of_nat_numeral)
  moreover have "nat (min (int ?n) 255) = min ?n 255" by linarith
  ultimately have "nat (min (int (now - adm_enqueued_at item) div 1000 div int interval_ms) 255) = min ?n 255"
    by (simp only:)
  then show ?thesis by (simp add: aged_priority_def Let_def)
qed

definition age_item :: "'q queue_ops \<Rightarrow> nat \<Rightarrow> admission \<Rightarrow> 'q scheduler \<Rightarrow> 'q scheduler" where
  "age_item Q now item st =
     (let effective = aged_priority now (cfg_aging_interval_ms (sc_config st)) item;
          c = sc_counters st;
          c = (if effective < adm_effective_priority item
               then c\<lparr>ct_aging_promotions := u64_add (ct_aging_promotions c) 1\<rparr> else c)
      in st\<lparr>sc_counters := c,
            sc_pending := pq_push Q effective (item\<lparr>adm_effective_priority := effective\<rparr>) (sc_pending st)\<rparr>)"

definition apply_aging :: "'q queue_ops \<Rightarrow> nat \<Rightarrow> 'q scheduler \<Rightarrow> 'q scheduler" where
  "apply_aging Q now st =
     (if pq_len Q (sc_pending st) = 0 then st
      else
        let (es, q) = drain Q (sc_pending st)
        in fold (age_item Q now) (map en_value (sort_key en_sequence es)) (st\<lparr>sc_pending := q\<rparr>))"

subsection \<open>Admission\<close>

definition claim_quota :: "str \<Rightarrow> 'q scheduler \<Rightarrow> 'q scheduler" where
  "claim_quota key st =
     update_quota key (\<lambda>s. s\<lparr>qs_pending := qs_pending s - 1, qs_active := usize_inc (qs_active s)\<rparr>) st"

definition credit_quota :: "int \<Rightarrow> str \<Rightarrow> 'q scheduler \<Rightarrow> 'q scheduler" where
  "credit_quota wait key st =
     update_quota key (\<lambda>s. s\<lparr>qs_admitted := u64_add (qs_admitted s) 1,
       qs_total_wait_micros := u64_add (qs_total_wait_micros s) wait,
       qs_max_wait_micros := max (qs_max_wait_micros s) wait,
       qs_peak_active := max (qs_peak_active s) (qs_active s)\<rparr>) st"

definition insert_active :: "nat \<Rightarrow> active_admission \<Rightarrow> 'q scheduler \<Rightarrow> 'q scheduler" where
  "insert_active i a st = st\<lparr>sc_active := (i, a) # filter (\<lambda>(j, _). j \<noteq> i) (sc_active st)\<rparr>"

definition remove_active :: "nat \<Rightarrow> 'q scheduler \<Rightarrow> 'q scheduler" where
  "remove_active i st = st\<lparr>sc_active := filter (\<lambda>(j, _). j \<noteq> i) (sc_active st)\<rparr>"

definition count_admitted :: "int \<Rightarrow> 'q scheduler \<Rightarrow> 'q scheduler" where
  "count_admitted wait st =
     (let c = sc_counters st in
      st\<lparr>sc_counters := c\<lparr>ct_admitted := u64_add (ct_admitted c) 1,
        ct_total_wait_micros := u64_add (ct_total_wait_micros c) wait,
        ct_max_wait_micros := max (ct_max_wait_micros c) wait,
        ct_peak_active := max (ct_peak_active c) (global_active_count st)\<rparr>\<rparr>)"

text \<open>The body of the dispatch loop for one claimed item.\<close>

definition admit :: "turn \<Rightarrow> admission \<Rightarrow> 'q scheduler \<Rightarrow> 'q scheduler \<times> reply list" where
  "admit tn item st =
     (let i = adm_id item;
          keys = map qt_key (adm_quotas item);
          wait = min (int (tn_clock tn i - adm_enqueued_at item)) U64_MAX;
          st = fold claim_quota keys st;
          st = insert_active i \<lparr>aa_priority = adm_priority item, aa_quota_identities = keys,
                 aa_global_slot = adm_global_slot item\<rparr> st
      in if tn_gone tn i then
           (release_active_quotas keys True (count_cancelled (remove_active i st)), [])
         else
           (fold (credit_quota wait) keys (count_admitted wait st), [Ready i None]))"

fun dispatch_loop :: "'q queue_ops \<Rightarrow> turn \<Rightarrow> nat \<Rightarrow> 'q scheduler \<Rightarrow> 'q scheduler \<times> reply list" where
  "dispatch_loop Q tn 0 st = (st, [])"
| "dispatch_loop Q tn (Suc n) st =
     (let available = global_active_count st < cfg_max_active (sc_config st);
          (selected, st) = pop_admissible Q available st
      in (case selected of
            None \<Rightarrow> (st, [])
          | Some item \<Rightarrow>
              (let (st, out) = admit tn item st;
                   (st, out') = dispatch_loop Q tn n st
               in (st, out @ out'))))"

text \<open>Every turn of the loop takes an item out of the queue, so its length plus one bounds the turns.\<close>

definition dispatch :: "'q queue_ops \<Rightarrow> turn \<Rightarrow> 'q scheduler \<Rightarrow> 'q scheduler \<times> reply list" where
  "dispatch Q tn st =
     (if sc_closing st then (st, [])
      else
        let st = apply_aging Q (tn_now tn) st
        in dispatch_loop Q tn (Suc (pq_len Q (sc_pending st))) st)"

definition queue_full :: "'q queue_ops \<Rightarrow> 'q \<Rightarrow> bool" where
  "queue_full Q q \<longleftrightarrow> pq_len Q q \<ge> MAX_PENDING_ADMISSIONS"

lemma queue_full_code [code]: "queue_full Q q \<longleftrightarrow> int (pq_len Q q) \<ge> 4096"
  by (simp add: queue_full_def MAX_PENDING_ADMISSIONS_def)

definition await_quota :: "str \<Rightarrow> 'q scheduler \<Rightarrow> 'q scheduler" where
  "await_quota key st = update_quota key (\<lambda>s. s\<lparr>qs_pending := usize_inc (qs_pending s)\<rparr>) st"

definition enqueue :: "'q queue_ops \<Rightarrow> turn \<Rightarrow> admission \<Rightarrow> 'q scheduler \<Rightarrow> 'q scheduler \<times> reply list" where
  "enqueue Q tn item st =
     (if sc_closing st then (st, [Ready (adm_id item) (Some Closed)])
      else if queue_full Q (sc_pending st) then
        (st, [Ready (adm_id item) (Some (AtCapacity MAX_PENDING_ADMISSIONS))])
      else (case register_pending_quotas (adm_quotas item) st of
          None \<Rightarrow> (count_rejected st, [Ready (adm_id item) (Some InvalidConfig)])
        | Some st \<Rightarrow>
            let st = fold await_quota (map qt_key (adm_quotas item)) st
            in dispatch Q tn
                 (st\<lparr>sc_pending := pq_push Q (adm_effective_priority item) item (sc_pending st)\<rparr>)))"

subsection \<open>Messages\<close>

datatype message =
    Enqueue admission
  | Release nat
  | Stats
  | Health
  | QuotaStats quota
  | QuotaHealth quota
  | Shutdown nat

definition finish_shutdown_if_idle :: "'q scheduler \<Rightarrow> 'q scheduler \<times> reply list" where
  "finish_shutdown_if_idle st =
     (if sc_closing st \<and> sc_active st = [] then
        (st\<lparr>sc_shutdown_waiters := []\<rparr>, map ShutdownDone (sc_shutdown_waiters st))
      else (st, []))"

definition reject_item :: "admission \<Rightarrow> 'q scheduler \<Rightarrow> 'q scheduler" where
  "reject_item item st = reject_pending_quotas (adm_quotas item) (count_rejected st)"

text \<open>The first stage of \<^verbatim>\<open>Release\<close>: an admitted request gives its slot back, a waiting one is cancelled.\<close>

definition release_stage :: "'q queue_ops \<Rightarrow> nat \<Rightarrow> 'q scheduler \<Rightarrow> 'q scheduler \<times> reply list" where
  "release_stage Q i st =
     (case map_of (sc_active st) i of
        Some a \<Rightarrow>
          (release_active_quotas (aa_quota_identities a) False
             (remove_active i st\<lparr>sc_counters := (sc_counters st)
                \<lparr>ct_released := u64_add (ct_released (sc_counters st)) 1\<rparr>\<rparr>), [])
      | None \<Rightarrow>
          (let (removed, q) = remove_pending Q i (sc_pending st);
               st = st\<lparr>sc_pending := q\<rparr>
           in (case removed of None \<Rightarrow> (st, []) | Some item \<Rightarrow> cancel_pending item st)))"

definition release :: "'q queue_ops \<Rightarrow> turn \<Rightarrow> nat \<Rightarrow> 'q scheduler \<Rightarrow> 'q scheduler \<times> reply list" where
  "release Q tn i st =
     (let (st, out) = release_stage Q i st;
          (st, out') = dispatch Q tn st;
          (st, out'') = finish_shutdown_if_idle st
      in (st, out @ out' @ out''))"

definition shutdown_actor :: "'q queue_ops \<Rightarrow> nat \<Rightarrow> 'q scheduler \<Rightarrow> 'q scheduler \<times> reply list" where
  "shutdown_actor Q waiter st =
     (let (es, q) = drain Q (sc_pending st);
          items = map en_value es;
          st = fold reject_item items (st\<lparr>sc_closing := True, sc_pending := q\<rparr>);
          (st, out) = finish_shutdown_if_idle
            (st\<lparr>sc_shutdown_waiters := sc_shutdown_waiters st @ [waiter]\<rparr>)
      in (st, map (\<lambda>item. Ready (adm_id item) (Some Closed)) items @ out))"

text \<open>One turn of \<^verbatim>\<open>run_scheduler\<close> on a received message; the snapshots it sends are below.\<close>

fun handle :: "'q queue_ops \<Rightarrow> turn \<Rightarrow> message \<Rightarrow> 'q scheduler \<Rightarrow> 'q scheduler \<times> reply list" where
  "handle Q tn (Enqueue item) st = enqueue Q tn item st"
| "handle Q tn (Release i) st = release Q tn i st"
| "handle Q tn Stats st = (st, [])"
| "handle Q tn Health st = (apply_aging Q (tn_now tn) st, [])"
| "handle Q tn (QuotaStats q) st = (st, [])"
| "handle Q tn (QuotaHealth q) st = (st, [])"
| "handle Q tn (Shutdown waiter) st = shutdown_actor Q waiter st"

definition actor_stops :: "'q scheduler \<Rightarrow> bool" where
  "actor_stops st \<longleftrightarrow> sc_closing st \<and> sc_active st = [] \<and> sc_shutdown_waiters st = []"

subsection \<open>Snapshots\<close>

record priority_counts =
  pc_urgent :: nat
  pc_interactive :: nat
  pc_foreground :: nat
  pc_background :: nat
  pc_maintenance :: nat

definition counts_default :: priority_counts where
  "counts_default = \<lparr>pc_urgent = 0, pc_interactive = 0, pc_foreground = 0, pc_background = 0, pc_maintenance = 0\<rparr>"

fun counts_increment :: "task_priority \<Rightarrow> priority_counts \<Rightarrow> priority_counts" where
  "counts_increment Urgent c = c\<lparr>pc_urgent := pc_urgent c + 1\<rparr>"
| "counts_increment Interactive c = c\<lparr>pc_interactive := pc_interactive c + 1\<rparr>"
| "counts_increment Foreground c = c\<lparr>pc_foreground := pc_foreground c + 1\<rparr>"
| "counts_increment Background c = c\<lparr>pc_background := pc_background c + 1\<rparr>"
| "counts_increment Maintenance c = c\<lparr>pc_maintenance := pc_maintenance c + 1\<rparr>"

record scheduler_stats =
  ss_max_active :: nat
  ss_active :: nat
  ss_pending :: nat
  ss_active_by_priority :: priority_counts
  ss_pending_by_priority :: priority_counts
  ss_closed :: bool

definition snapshot :: "'q queue_ops \<Rightarrow> 'q scheduler \<Rightarrow> scheduler_stats" where
  "snapshot Q st =
     \<lparr>ss_max_active = cfg_max_active (sc_config st), ss_active = global_active_count st,
      ss_pending = pq_len Q (sc_pending st),
      ss_active_by_priority = fold (\<lambda>(i, a) c. if aa_global_slot a then counts_increment (aa_priority a) c else c)
        (sc_active st) counts_default,
      ss_pending_by_priority = fold (\<lambda>e. counts_increment (adm_priority (en_value e)))
        (pq_ordered Q (sc_pending st)) counts_default,
      ss_closed = sc_closing st\<rparr>"

text \<open>\<^verbatim>\<open>checked_div(..).unwrap_or(0)\<close> of the mean waiting times.\<close>

definition mean_wait :: "int \<Rightarrow> int \<Rightarrow> int" where
  "mean_wait micros n = (if n = 0 then 0 else micros div n)"

record health_snapshot =
  hs_stats :: scheduler_stats
  hs_counters :: counters
  hs_average_wait_micros :: int

definition scheduler_health :: "'q queue_ops \<Rightarrow> 'q scheduler \<Rightarrow> health_snapshot" where
  "scheduler_health Q st =
     \<lparr>hs_stats = snapshot Q st, hs_counters = sc_counters st,
      hs_average_wait_micros = mean_wait (ct_total_wait_micros (sc_counters st)) (ct_admitted (sc_counters st))\<rparr>"

record quota_snapshot =
  qn_identity :: identity
  qn_max_active :: nat
  qn_active :: nat
  qn_pending :: nat
  qn_blocked :: bool

definition quota_snapshot_of :: "quota \<Rightarrow> 'q scheduler \<Rightarrow> scheduler_error + quota_snapshot" where
  "quota_snapshot_of q st =
     (if \<not> quota_validate q then Inl InvalidConfig
      else (case sc_quotas st (qt_key q) of
          Some s \<Rightarrow>
            if qs_identity s \<noteq> qt_identity q \<or> qs_max_active s \<noteq> qt_max_active q then Inl InvalidConfig
            else Inr \<lparr>qn_identity = qs_identity s, qn_max_active = qs_max_active s, qn_active = qs_active s,
                qn_pending = qs_pending s, qn_blocked = qs_pending s > 0 \<and> qs_active s \<ge> qs_max_active s\<rparr>
        | None \<Rightarrow> Inr \<lparr>qn_identity = qt_identity q, qn_max_active = qt_max_active q, qn_active = 0,
            qn_pending = 0, qn_blocked = False\<rparr>))"

record quota_health_snapshot =
  qh_observed :: bool
  qh_live :: bool
  qh_blocked :: bool
  qh_average_wait_micros :: int
  qh_state :: quota_state

definition quota_state_health :: "bool \<Rightarrow> quota_state \<Rightarrow> quota_health_snapshot" where
  "quota_state_health live s =
     \<lparr>qh_observed = True, qh_live = live, qh_blocked = qs_pending s > 0 \<and> qs_active s \<ge> qs_max_active s,
      qh_average_wait_micros = mean_wait (qs_total_wait_micros s) (qs_admitted s), qh_state = s\<rparr>"

definition quota_health_of :: "quota \<Rightarrow> 'q scheduler \<Rightarrow> scheduler_error + quota_health_snapshot" where
  "quota_health_of q st =
     (let unseen = Inr \<lparr>qh_observed = False, qh_live = False, qh_blocked = False, qh_average_wait_micros = 0,
            qh_state = quota_state_new (qt_identity q) (qt_max_active q)\<rparr>
      in
      if \<not> quota_validate q then Inl InvalidConfig
      else (case sc_quotas st (qt_key q) of
          Some s \<Rightarrow>
            if qs_identity s \<noteq> qt_identity q \<or> qs_max_active s \<noteq> qt_max_active q then Inl InvalidConfig
            else Inr (quota_state_health True s)
        | None \<Rightarrow>
            (case sc_retained_quota_health st (qt_key q) of
               Some s \<Rightarrow>
                 if qs_identity s = qt_identity q \<and> qs_max_active s = qt_max_active q
                 then Inr (quota_state_health False s) else unseen
             | None \<Rightarrow> unseen)))"

subsection \<open>Clients and the channels\<close>

record request =
  rq_priority :: task_priority
  rq_label :: str
  rq_quotas :: "quota list"
  rq_identity :: "identity option"
  rq_global_slot :: bool

text \<open>The tests of \<^verbatim>\<open>acquire_inner\<close> before anything is sent; the cancellation test is the caller's.\<close>

definition request_error :: "bool \<Rightarrow> bool \<Rightarrow> request \<Rightarrow> scheduler_error option" where
  "request_error is_closed is_cancelled r =
     (if is_closed then Some Closed
      else if is_cancelled then Some Cancelled
      else if (case rq_identity r of None \<Rightarrow> False | Some i \<Rightarrow> \<not> identity_validate i) then Some InvalidConfig
      else if length (rq_quotas r) > TASK_SCHEDULER_MAX_QUOTAS then Some InvalidConfig
      else if \<not> rq_global_slot r \<and> rq_quotas r = [] then Some InvalidConfig
      else if \<not> list_all quota_validate (rq_quotas r) \<or> \<not> distinct (map qt_key (rq_quotas r))
        then Some InvalidConfig
      else None)"

definition new_admission :: "nat \<Rightarrow> nat \<Rightarrow> request \<Rightarrow> admission" where
  "new_admission i now r =
     \<lparr>adm_id = i, adm_priority = rq_priority r, adm_effective_priority = priority_value (rq_priority r),
      adm_label = rq_label r, adm_identity = rq_identity r, adm_quotas = rq_quotas r,
      adm_global_slot = rq_global_slot r, adm_enqueued_at = now\<rparr>"

record 'q system =
  sy_actor :: "'q scheduler"
  sy_rx :: "message list"
  sy_release_rx :: "nat list"
  sy_shutdown_rx :: "nat list"
  sy_next_id :: nat
  sy_closed :: bool
  sy_stopped :: bool
  sy_sent :: "reply list"

definition system_new :: "'q queue_ops \<Rightarrow> scheduler_config \<Rightarrow> 'q system" where
  "system_new Q config =
     \<lparr>sy_actor = scheduler_new Q config, sy_rx = [], sy_release_rx = [], sy_shutdown_rx = [],
      sy_next_id = 1, sy_closed = False, sy_stopped = False, sy_sent = []\<rparr>"

text \<open>The biased receive of the actor: releases first, then shutdowns, then the other messages.\<close>

definition next_message :: "'q system \<Rightarrow> (message \<times> 'q system) option" where
  "next_message sy =
     (case sy_release_rx sy of
        i # rest \<Rightarrow> Some (Release i, sy\<lparr>sy_release_rx := rest\<rparr>)
      | [] \<Rightarrow>
        (case sy_shutdown_rx sy of
           w # ws \<Rightarrow> Some (Shutdown w, sy\<lparr>sy_shutdown_rx := ws\<rparr>)
         | [] \<Rightarrow>
           (case sy_rx sy of
              m # ms \<Rightarrow> Some (m, sy\<lparr>sy_rx := ms\<rparr>)
            | [] \<Rightarrow> None)))"

definition actor_turn :: "'q queue_ops \<Rightarrow> turn \<Rightarrow> 'q system \<Rightarrow> 'q system option" where
  "actor_turn Q tn sy =
     (if sy_stopped sy then None
      else (case next_message sy of
          None \<Rightarrow> None
        | Some (m, sy) \<Rightarrow>
            (let (st, out) = handle Q tn m (sy_actor sy);
                 stop = actor_stops st
             in Some (sy\<lparr>sy_actor := st, sy_sent := sy_sent sy @ out, sy_stopped := stop,
                  sy_closed := (sy_closed sy \<or> (case m of Shutdown w \<Rightarrow> True | _ \<Rightarrow> False) \<or> stop)\<rparr>))))"

text \<open>What a client does to the channels: a query, the sending part of \<^verbatim>\<open>acquire_inner\<close>, the drop of a lease
  and the request to shut down.\<close>

definition query_error :: "bool \<Rightarrow> message \<Rightarrow> scheduler_error option" where
  "query_error is_closed m =
     (if is_closed then Some Closed
      else (case m of
          QuotaStats q \<Rightarrow> if quota_validate q then None else Some InvalidConfig
        | QuotaHealth q \<Rightarrow> if quota_validate q then None else Some InvalidConfig
        | _ \<Rightarrow> None))"

definition post_message :: "message \<Rightarrow> 'q system \<Rightarrow> 'q system" where
  "post_message m sy = sy\<lparr>sy_rx := sy_rx sy @ [m]\<rparr>"

definition acquire_send :: "nat \<Rightarrow> request \<Rightarrow> 'q system \<Rightarrow> 'q system" where
  "acquire_send now r sy =
     (post_message (Enqueue (new_admission (sy_next_id sy) now r)) sy)\<lparr>sy_next_id := sy_next_id sy + 1\<rparr>"

definition lease_drop :: "nat \<Rightarrow> 'q system \<Rightarrow> 'q system" where
  "lease_drop i sy = sy\<lparr>sy_release_rx := sy_release_rx sy @ [i]\<rparr>"

definition client_shutdown :: "nat \<Rightarrow> 'q system \<Rightarrow> 'q system" where
  "client_shutdown w sy =
     (if sy_closed sy then sy else sy\<lparr>sy_closed := True, sy_shutdown_rx := sy_shutdown_rx sy @ [w]\<rparr>)"

text \<open>
  The interleavings of clients and actor.  A client tests the closed flag before it sends, so its message
  may arrive after the flag was set: \<open>send\<close> and \<open>observe\<close> only ask that the request passed its tests at
  some time and that the bounded channel has room; limits of quotas are of type \<^verbatim>\<open>usize\<close>.  A lease is
  dropped at any time after its id was drawn; the actor must cope with every such release, also one that
  overtakes its own \<^verbatim>\<open>Enqueue\<close> or comes twice.
\<close>

inductive system_step :: "'q queue_ops \<Rightarrow> 'q system \<Rightarrow> 'q system \<Rightarrow> bool" for Q where
  send: "request_error False False r = None \<Longrightarrow> \<forall>q \<in> set (rq_quotas r). qt_max_active q \<le> USIZE_MAX \<Longrightarrow>
    length (sy_rx sy) < ADMISSION_CHANNEL_CAPACITY \<Longrightarrow> system_step Q sy (acquire_send now r sy)"
| observe: "m \<in> {Stats, Health} \<union> range QuotaStats \<union> range QuotaHealth \<Longrightarrow> query_error False m = None \<Longrightarrow>
    length (sy_rx sy) < ADMISSION_CHANNEL_CAPACITY \<Longrightarrow> system_step Q sy (post_message m sy)"
| drop_lease: "i < sy_next_id sy \<Longrightarrow> system_step Q sy (lease_drop i sy)"
| request_shutdown: "system_step Q sy (client_shutdown w sy)"
| actor: "actor_turn Q tn sy = Some sy' \<Longrightarrow> system_step Q sy sy'"

inductive reachable :: "'q queue_ops \<Rightarrow> scheduler_config \<Rightarrow> 'q system \<Rightarrow> bool" for Q config where
  start: "config_validate config \<Longrightarrow> reachable Q config (system_new Q config)"
| step: "reachable Q config sy \<Longrightarrow> system_step Q sy sy' \<Longrightarrow> reachable Q config sy'"

inductive_cases system_stepE: "system_step Q sy sy'"

end
