(* ===== verification/SchedulerLaws.thy ===== *)
theory SchedulerLaws
  imports TaskScheduler
begin

section \<open>The priority queue and its passes\<close>

text \<open>
  What the scheduler relies on of the queue of \<^verbatim>\<open>a3s_lane\<close>, as the locale \<open>priority_queue\<close>: its entries are
  ordered by priority and then by sequence number, \<open>push\<close> draws a sequence number above all others,
  \<open>pop\<close> takes the first entry and \<open>restore\<close> puts one back where it belongs.  The laws of the passes
  (draining, restoring, selecting, aging) follow for every such queue; a sorted list is one.
\<close>

definition en_key :: "entry \<Rightarrow> nat \<times> nat" where
  "en_key e = (en_priority e, en_sequence e)"

locale priority_queue =
  fixes Q :: "'q queue_ops" and I :: "'q \<Rightarrow> bool"
  assumes new_ok: "I (pq_new Q)" "pq_ordered Q (pq_new Q) = []"
    and keys_sorted: "I q \<Longrightarrow> sorted_wrt (<) (map en_key (pq_ordered Q q))"
    and sequences_distinct: "I q \<Longrightarrow> distinct (map en_sequence (pq_ordered Q q))"
    and pop_None: "I q \<Longrightarrow> pq_pop Q q = None \<longleftrightarrow> pq_ordered Q q = []"
    and pop_Some: "I q \<Longrightarrow> pq_pop Q q = Some (e, q') \<Longrightarrow> I q' \<and> pq_ordered Q q = e # pq_ordered Q q'"
    and restore_ok: "I q \<Longrightarrow> en_sequence e \<notin> en_sequence ` set (pq_ordered Q q) \<Longrightarrow>
      I (pq_restore Q e q) \<and> mset (pq_ordered Q (pq_restore Q e q)) = add_mset e (mset (pq_ordered Q q))"
    and push_ok: "I q \<Longrightarrow> I (pq_push Q p v q) \<and> (\<exists>s. (\<forall>e \<in> set (pq_ordered Q q). en_sequence e < s) \<and>
      mset (pq_ordered Q (pq_push Q p v q)) =
        add_mset \<lparr>en_priority = p, en_sequence = s, en_value = v\<rparr> (mset (pq_ordered Q q)))"

subsection \<open>Sorted lists of entries\<close>

lemma en_key_inject: "en_key a = en_key b \<Longrightarrow> en_sequence a = en_sequence b"
  by (simp add: en_key_def)

lemma sorted_entries_unique:
  assumes "sorted_wrt (<) (map en_key xs)" "sorted_wrt (<) (map en_key ys)" "mset xs = mset ys"
  shows "xs = ys"
proof -
  have set: "set xs = set ys" using assms(3) by (rule mset_eq_setD)
  have strict: "sorted_wrt (<) (map en_key zs) \<Longrightarrow> sorted (map en_key zs) \<and> distinct (map en_key zs)" for zs
    by (simp add: strict_sorted_iff)
  have keys: "map en_key xs = map en_key ys"
    by (rule sorted_distinct_set_unique) (use strict [OF assms(1)] strict [OF assms(2)] set in auto)
  moreover have "inj_on en_key (set xs)"
    using strict [OF assms(1)] by (simp add: distinct_map)
  ultimately show ?thesis using set by (intro map_inj_on [of en_key xs ys]) simp_all
qed

lemma select_first_Some:
  "select_first P xs = (Some x, ys) \<Longrightarrow>
     \<exists>pre post. xs = pre @ x # post \<and> ys = pre @ post \<and> P x \<and> (\<forall>y \<in> set pre. \<not> P y)"
proof (induction xs arbitrary: ys)
  case (Cons z xs)
  show ?case
  proof (cases "P z")
    case True
    with Cons.prems show ?thesis by (intro exI [of _ "[]"] exI [of _ xs]) simp
  next
    case False
    with Cons.prems obtain ys' where "select_first P xs = (Some x, ys')" "ys = z # ys'"
      by (auto split: prod.splits)
    with Cons.IH obtain pre post where "xs = pre @ x # post" "ys' = pre @ post" "P x" "\<forall>y \<in> set pre. \<not> P y"
      by blast
    with False \<open>ys = z # ys'\<close> show ?thesis by (intro exI [of _ "z # pre"] exI [of _ post]) simp
  qed
qed simp

lemma select_first_None: "select_first P xs = (None, ys) \<Longrightarrow> ys = xs \<and> (\<forall>y \<in> set xs. \<not> P y)"
  by (induction xs arbitrary: ys) (auto split: prod.splits if_splits)

lemma sorted_wrt_middle: "sorted_wrt R (pre @ x # post) \<Longrightarrow> sorted_wrt R (pre @ post)"
  by (auto simp: sorted_wrt_append)

subsection \<open>Passes over the queue\<close>

text \<open>What a request is to the accounts: its id, its quotas and whether it takes a global slot.\<close>

type_synonym demand = "nat \<times> quota list \<times> bool"

definition demand_of :: "admission \<Rightarrow> demand" where
  "demand_of v = (adm_id v, adm_quotas v, adm_global_slot v)"

definition waiting :: "'q queue_ops \<Rightarrow> 'q \<Rightarrow> demand multiset" where
  "waiting Q q = image_mset (\<lambda>e. demand_of (en_value e)) (mset (pq_ordered Q q))"

lemma size_waiting: "size (waiting Q q) = pq_len Q q"
  by (simp add: waiting_def pq_len_def)

definition same_but_queue :: "'q scheduler \<Rightarrow> 'q scheduler \<Rightarrow> bool" where
  "same_but_queue st st' \<longleftrightarrow> sc_config st' = sc_config st \<and> sc_active st' = sc_active st \<and>
     sc_quotas st' = sc_quotas st \<and> sc_retained_quota_health st' = sc_retained_quota_health st \<and>
     sc_retained_quota_order st' = sc_retained_quota_order st \<and> sc_closing st' = sc_closing st \<and>
     sc_shutdown_waiters st' = sc_shutdown_waiters st"

context priority_queue begin

lemma pop_all_ordered:
  "I q \<Longrightarrow> length (pq_ordered Q q) = n \<Longrightarrow> \<exists>q'. pop_all Q n q = (pq_ordered Q q, q') \<and> I q' \<and> pq_ordered Q q' = []"
proof (induction n arbitrary: q)
  case (Suc n)
  then obtain e q1 where pop: "pq_pop Q q = Some (e, q1)" using pop_None [OF Suc.prems(1)] by (cases "pq_pop Q q") auto
  from pop_Some [OF Suc.prems(1) pop] have q1: "I q1" "pq_ordered Q q = e # pq_ordered Q q1" by auto
  with Suc obtain q' where "pop_all Q n q1 = (pq_ordered Q q1, q')" "I q'" "pq_ordered Q q' = []" by fastforce
  with pop q1 show ?case by simp
qed auto

lemma drain_ordered: "I q \<Longrightarrow> \<exists>q'. drain Q q = (pq_ordered Q q, q') \<and> I q' \<and> pq_ordered Q q' = []"
  unfolding drain_def pq_len_def by (rule pop_all_ordered) simp_all

lemma restore_all_mset:
  "I q \<Longrightarrow> distinct (map en_sequence es) \<Longrightarrow> en_sequence ` set es \<inter> en_sequence ` set (pq_ordered Q q) = {} \<Longrightarrow>
     I (restore_all Q es q) \<and> mset (pq_ordered Q (restore_all Q es q)) = mset es + mset (pq_ordered Q q)"
proof (induction es arbitrary: q)
  case (Cons e es)
  have r: "I (pq_restore Q e q)" "mset (pq_ordered Q (pq_restore Q e q)) = add_mset e (mset (pq_ordered Q q))"
    using restore_ok [of q e] Cons.prems by auto
  then have "set (pq_ordered Q (pq_restore Q e q)) = insert e (set (pq_ordered Q q))"
    by (metis set_mset_add_mset_insert set_mset_mset)
  with Cons.prems have "en_sequence ` set es \<inter> en_sequence ` set (pq_ordered Q (pq_restore Q e q)) = {}" by auto
  from Cons.IH [OF r(1) _ this] Cons.prems r(2) show ?case by (simp add: restore_all_def)
qed (simp add: restore_all_def)

lemma restore_all_ordered:
  assumes "I q" "pq_ordered Q q = []" "sorted_wrt (<) (map en_key es)" "distinct (map en_sequence es)"
  shows "I (restore_all Q es q) \<and> pq_ordered Q (restore_all Q es q) = es"
proof -
  have r: "I (restore_all Q es q)" "mset (pq_ordered Q (restore_all Q es q)) = mset es"
    using restore_all_mset [OF assms(1,4)] assms(2) by auto
  from sorted_entries_unique [OF keys_sorted [OF r(1)] assms(3) r(2)] r(1) show ?thesis by blast
qed

lemma sub_sorted:
  assumes "I q" "pq_ordered Q q = pre @ x # post"
  shows "sorted_wrt (<) (map en_key (pre @ post))" "distinct (map en_sequence (pre @ post))"
proof -
  have "sorted_wrt (<) (map en_key pre @ en_key x # map en_key post)" using keys_sorted [OF assms(1)] assms(2) by simp
  from sorted_wrt_middle [OF this] show "sorted_wrt (<) (map en_key (pre @ post))" by simp
  show "distinct (map en_sequence (pre @ post))" using sequences_distinct [OF assms(1)] assms(2) by auto
qed

text \<open>Claiming an item takes the first admissible entry and leaves the others in their order.\<close>

lemma pop_admissible_Some:
  assumes "I (sc_pending st)" "pop_admissible Q g st = (Some v, st')"
  shows "\<exists>pre e post q. pq_ordered Q (sc_pending st) = pre @ e # post \<and> en_value e = v \<and> admissible st g v \<and>
    (\<forall>x \<in> set pre. \<not> admissible st g (en_value x)) \<and> st' = st\<lparr>sc_pending := q\<rparr> \<and> I q \<and> pq_ordered Q q = pre @ post"
proof -
  obtain q' where q': "drain Q (sc_pending st) = (pq_ordered Q (sc_pending st), q')" "I q'" "pq_ordered Q q' = []"
    using drain_ordered [OF assms(1)] by blast
  obtain s kept where sel: "select_first (\<lambda>e. admissible st g (en_value e)) (pq_ordered Q (sc_pending st)) = (s, kept)"
    by fastforce
  with assms(2) q'(1) have st': "map_option en_value s = Some v" "st' = st\<lparr>sc_pending := restore_all Q kept q'\<rparr>"
    by (auto simp: pop_admissible_def)
  then obtain e where e: "s = Some e" "en_value e = v" by auto
  from select_first_Some [OF sel [unfolded e(1)]] obtain pre post where
    p: "pq_ordered Q (sc_pending st) = pre @ e # post" "kept = pre @ post" "admissible st g (en_value e)"
      "\<forall>x \<in> set pre. \<not> admissible st g (en_value x)" by blast
  from restore_all_ordered [OF q'(2,3) sub_sorted [OF assms(1) p(1)]] p st'(2) e(2) show ?thesis by blast
qed

lemma pop_admissible_None:
  assumes "I (sc_pending st)" "pop_admissible Q g st = (None, st')"
  shows "(\<forall>e \<in> set (pq_ordered Q (sc_pending st)). \<not> admissible st g (en_value e)) \<and>
    (\<exists>q. st' = st\<lparr>sc_pending := q\<rparr> \<and> I q \<and> pq_ordered Q q = pq_ordered Q (sc_pending st))"
proof -
  obtain q' where q': "drain Q (sc_pending st) = (pq_ordered Q (sc_pending st), q')" "I q'" "pq_ordered Q q' = []"
    using drain_ordered [OF assms(1)] by blast
  obtain s kept where sel: "select_first (\<lambda>e. admissible st g (en_value e)) (pq_ordered Q (sc_pending st)) = (s, kept)"
    by fastforce
  with assms(2) q'(1) have st': "s = None" "st' = st\<lparr>sc_pending := restore_all Q kept q'\<rparr>"
    by (auto simp: pop_admissible_def)
  with select_first_None sel have kept: "kept = pq_ordered Q (sc_pending st)"
    "\<forall>e \<in> set (pq_ordered Q (sc_pending st)). \<not> admissible st g (en_value e)" by blast+
  from restore_all_ordered [OF q'(2,3), of kept] keys_sorted [OF assms(1)] sequences_distinct [OF assms(1)] kept st'(2)
  show ?thesis by blast
qed

lemma remove_pending_ok:
  assumes "I q" "remove_pending Q i q = (removed, q')"
  shows "I q' \<and> pq_ordered Q q' = filter (\<lambda>e. adm_id (en_value e) \<noteq> i) (pq_ordered Q q) \<and>
    (case removed of None \<Rightarrow> \<forall>e \<in> set (pq_ordered Q q). adm_id (en_value e) \<noteq> i
     | Some v \<Rightarrow> adm_id v = i \<and> (\<exists>e \<in> set (pq_ordered Q q). en_value e = v))"
proof (cases "pq_len Q q = 0")
  case True
  with assms show ?thesis by (auto simp: remove_pending_def pq_len_def)
next
  case False
  obtain q1 where q1: "drain Q q = (pq_ordered Q q, q1)" "I q1" "pq_ordered Q q1 = []"
    using drain_ordered [OF assms(1)] by blast
  let ?kept = "filter (\<lambda>e. adm_id (en_value e) \<noteq> i) (pq_ordered Q q)"
  let ?gone = "filter (\<lambda>e. adm_id (en_value e) = i) (pq_ordered Q q)"
  have "sorted_wrt (<) (map en_key ?kept)"
    using keys_sorted [OF assms(1)] by (simp add: sorted_wrt_map sorted_wrt_filter)
  moreover have "distinct (map en_sequence ?kept)" using sequences_distinct [OF assms(1)] by (rule distinct_map_filter)
  ultimately have r: "I (restore_all Q ?kept q1)" "pq_ordered Q (restore_all Q ?kept q1) = ?kept"
    using restore_all_ordered [OF q1(2,3)] by blast+
  have res: "q' = restore_all Q ?kept q1" "removed = (if ?gone = [] then None else Some (en_value (last ?gone)))"
    using assms(2) False q1(1) by (auto simp: remove_pending_def Let_def)
  have "?gone \<noteq> [] \<Longrightarrow> last ?gone \<in> set ?gone" by (rule last_in_set)
  with r res show ?thesis by (auto simp: filter_empty_conv)
qed

text \<open>Aging reorders the queue but neither adds nor drops a request.\<close>

lemma waiting_push: "I q \<Longrightarrow> waiting Q (pq_push Q p v q) = add_mset (demand_of v) (waiting Q q)"
  using push_ok [of q p v] by (auto simp: waiting_def)

lemma age_items:
  "I (sc_pending st) \<Longrightarrow>
     same_but_queue st (fold (age_item Q now) vs st) \<and> I (sc_pending (fold (age_item Q now) vs st)) \<and>
     waiting Q (sc_pending (fold (age_item Q now) vs st)) = image_mset demand_of (mset vs) + waiting Q (sc_pending st)"
proof (induction vs arbitrary: st)
  case (Cons v vs)
  let ?st = "age_item Q now v st"
  have "I (sc_pending ?st)" "waiting Q (sc_pending ?st) = add_mset (demand_of v) (waiting Q (sc_pending st))"
    "same_but_queue st ?st"
    using push_ok [OF Cons.prems] waiting_push [OF Cons.prems]
    by (auto simp: age_item_def Let_def same_but_queue_def demand_of_def)
  with Cons.IH [of ?st] show ?case by (simp add: same_but_queue_def)
qed (simp add: same_but_queue_def)

lemma apply_aging_ok:
  assumes "I (sc_pending st)"
  shows "same_but_queue st (apply_aging Q now st) \<and> I (sc_pending (apply_aging Q now st)) \<and>
    waiting Q (sc_pending (apply_aging Q now st)) = waiting Q (sc_pending st)"
proof (cases "pq_len Q (sc_pending st) = 0")
  case True
  with assms show ?thesis by (simp add: apply_aging_def same_but_queue_def)
next
  case False
  obtain q where q: "drain Q (sc_pending st) = (pq_ordered Q (sc_pending st), q)" "I q" "pq_ordered Q q = []"
    using drain_ordered [OF assms] by blast
  let ?vs = "map en_value (sort_key en_sequence (pq_ordered Q (sc_pending st)))"
  have "waiting Q q = {#}" using q(3) by (simp add: waiting_def)
  moreover have "image_mset demand_of (mset ?vs) = waiting Q (sc_pending st)"
    by (simp add: waiting_def image_mset.compositionality comp_def)
  moreover have "apply_aging Q now st = fold (age_item Q now) ?vs (st\<lparr>sc_pending := q\<rparr>)"
    using False q(1) by (simp add: apply_aging_def)
  ultimately show ?thesis using age_items [of "st\<lparr>sc_pending := q\<rparr>" now ?vs] q(2) by (simp add: same_but_queue_def)
qed

end

subsection \<open>A sorted list is such a queue\<close>

definition list_queue :: "(nat \<times> entry list) queue_ops" where
  "list_queue =
     \<lparr>pq_new = (0, []),
      pq_push = (\<lambda>p v (n, es). (Suc n, insort_key en_key \<lparr>en_priority = p, en_sequence = n, en_value = v\<rparr> es)),
      pq_pop = (\<lambda>(n, es). case es of [] \<Rightarrow> None | e # es \<Rightarrow> Some (e, (n, es))),
      pq_restore = (\<lambda>e (n, es). (max n (Suc (en_sequence e)), insort_key en_key e es)),
      pq_ordered = snd\<rparr>"

definition list_queue_inv :: "nat \<times> entry list \<Rightarrow> bool" where
  "list_queue_inv q \<longleftrightarrow> sorted (map en_key (snd q)) \<and> distinct (map en_sequence (snd q)) \<and>
     (\<forall>e \<in> set (snd q). en_sequence e < fst q)"

lemma list_queue_keys: "list_queue_inv q \<Longrightarrow> sorted_wrt (<) (map en_key (snd q))"
proof -
  assume inv: "list_queue_inv q"
  then have "distinct (map en_key (snd q))"
    by (auto simp: list_queue_inv_def distinct_map inj_on_def dest: en_key_inject)
  with inv show ?thesis by (simp add: list_queue_inv_def strict_sorted_iff)
qed

lemma list_queue_insort:
  assumes "list_queue_inv (n, es)" "en_sequence e \<notin> en_sequence ` set es"
  shows "list_queue_inv (max n (Suc (en_sequence e)), insort_key en_key e es)"
proof -
  have "distinct (map en_sequence (insort_key en_key e es))"
  proof -
    have "mset (map en_sequence (insort_key en_key e es)) = mset (map en_sequence (e # es))" by simp
    then have "distinct (map en_sequence (insort_key en_key e es)) = distinct (map en_sequence (e # es))"
      by (rule mset_eq_imp_distinct_iff)
    with assms show ?thesis by (simp add: list_queue_inv_def)
  qed
  with assms show ?thesis by (auto simp: list_queue_inv_def sorted_insort_key set_insort_key less_max_iff_disj)
qed

interpretation list_queue: priority_queue list_queue list_queue_inv
proof
  show "list_queue_inv (pq_new list_queue)" by (simp add: list_queue_def list_queue_inv_def)
  show "pq_ordered list_queue (pq_new list_queue) = []" by (simp add: list_queue_def)
next
  fix q assume inv: "list_queue_inv q"
  then show "sorted_wrt (<) (map en_key (pq_ordered list_queue q))" by (simp add: list_queue_def list_queue_keys)
  from inv show "distinct (map en_sequence (pq_ordered list_queue q))" by (simp add: list_queue_def list_queue_inv_def)
  show "pq_pop list_queue q = None \<longleftrightarrow> pq_ordered list_queue q = []"
    by (cases q) (simp add: list_queue_def split: list.split)
  show "list_queue_inv q' \<and> pq_ordered list_queue q = e # pq_ordered list_queue q'"
    if "pq_pop list_queue q = Some (e, q')" for e q'
    using that inv by (cases q) (auto simp: list_queue_def list_queue_inv_def split: list.splits)
  show "list_queue_inv (pq_restore list_queue e q) \<and>
      mset (pq_ordered list_queue (pq_restore list_queue e q)) = add_mset e (mset (pq_ordered list_queue q))"
    if "en_sequence e \<notin> en_sequence ` set (pq_ordered list_queue q)" for e
    using that inv list_queue_insort [of "fst q" "snd q" e] by (cases q) (simp add: list_queue_def)
  show "list_queue_inv (pq_push list_queue p v q) \<and> (\<exists>s. (\<forall>e \<in> set (pq_ordered list_queue q). en_sequence e < s) \<and>
      mset (pq_ordered list_queue (pq_push list_queue p v q)) =
        add_mset \<lparr>en_priority = p, en_sequence = s, en_value = v\<rparr> (mset (pq_ordered list_queue q)))" for p v
  proof -
    obtain n es where q: "q = (n, es)" by (cases q)
    let ?e = "\<lparr>en_priority = p, en_sequence = n, en_value = v\<rparr>"
    have fresh: "en_sequence ?e \<notin> en_sequence ` set es" using inv q by (auto simp: list_queue_inv_def)
    have "list_queue_inv (Suc n, insort_key en_key ?e es)"
      using list_queue_insort [of n es ?e] inv q fresh by simp
    then show ?thesis using inv q by (auto simp: list_queue_def list_queue_inv_def intro!: exI [of _ n])
  qed
qed

end
