(* ===== verification/SchedulerAccounts.thy ===== *)
theory SchedulerAccounts
  imports SchedulerLaws
begin

section \<open>Quota accounts\<close>

text \<open>
  The accounts of the scheduler and what its loops over the quotas of one request do to them, key by
  key: the ledger says that a live quota counts exactly the admitted and the waiting requests that carry
  it and never exceeds its limit, the shelf that the retained health records are few, idle and not live.
\<close>

definition accounts_only :: "'q scheduler \<Rightarrow> 'q scheduler \<Rightarrow> bool" where
  "accounts_only st st' \<longleftrightarrow> sc_config st' = sc_config st \<and> sc_pending st' = sc_pending st \<and>
     sc_active st' = sc_active st \<and> sc_closing st' = sc_closing st \<and>
     sc_shutdown_waiters st' = sc_shutdown_waiters st"

lemma accounts_only_refl [simp]: "accounts_only st st"
  by (simp add: accounts_only_def)

lemma accounts_only_trans: "accounts_only a b \<Longrightarrow> accounts_only b c \<Longrightarrow> accounts_only a c"
  by (simp add: accounts_only_def)

definition idle :: "quota_state \<Rightarrow> bool" where
  "idle s \<longleftrightarrow> qs_active s = 0 \<and> qs_pending s = 0"

definition keeps_limits :: "(quota_state \<Rightarrow> quota_state) \<Rightarrow> bool" where
  "keeps_limits f \<longleftrightarrow> (\<forall>s. qs_identity (f s) = qs_identity s \<and> qs_max_active (f s) = qs_max_active s)"

definition well_keyed :: "str \<Rightarrow> quota_state \<Rightarrow> bool" where
  "well_keyed k s \<longleftrightarrow> idt_digest (qs_identity s) = k \<and> qs_max_active s \<le> USIZE_MAX"

lemma keeps_limits_keyed [simp]: "keeps_limits f \<Longrightarrow> well_keyed k (f s) \<longleftrightarrow> well_keyed k s"
  by (simp add: keeps_limits_def well_keyed_def)

definition shelf_ok :: "'q scheduler \<Rightarrow> bool" where
  "shelf_ok st \<longleftrightarrow> length (sc_retained_quota_order st) \<le> TASK_SCHEDULER_QUOTA_HEALTH_RETENTION \<and>
     distinct (sc_retained_quota_order st) \<and>
     (\<forall>k. k \<in> set (sc_retained_quota_order st) \<longleftrightarrow> sc_retained_quota_health st k \<noteq> None) \<and>
     (\<forall>k s. sc_retained_quota_health st k = Some s \<longrightarrow> sc_quotas st k = None \<and> idle s \<and> well_keyed k s)"

subsection \<open>Updating keys\<close>

lemma update_quota_simps [simp]:
  "accounts_only st (update_quota k f st)"
  "sc_quotas (update_quota k f st) = (sc_quotas st)(k := map_option f (sc_quotas st k))"
  "sc_retained_quota_health (update_quota k f st) = sc_retained_quota_health st"
  "sc_retained_quota_order (update_quota k f st) = sc_retained_quota_order st"
  by (auto simp: update_quota_def accounts_only_def fun_eq_iff split: option.split)

lemma fold_update_quota:
  assumes "distinct ks"
  shows "accounts_only st (fold (\<lambda>k. update_quota k f) ks st) \<and>
    sc_quotas (fold (\<lambda>k. update_quota k f) ks st) =
      (\<lambda>k. if k \<in> set ks then map_option f (sc_quotas st k) else sc_quotas st k) \<and>
    sc_retained_quota_health (fold (\<lambda>k. update_quota k f) ks st) = sc_retained_quota_health st \<and>
    sc_retained_quota_order (fold (\<lambda>k. update_quota k f) ks st) = sc_retained_quota_order st"
  using assms
proof (induction ks arbitrary: st)
  case (Cons k ks)
  let ?st = "update_quota k f st"
  from Cons.IH [of ?st] Cons.prems have IH: "accounts_only ?st (fold (\<lambda>k. update_quota k f) ks ?st)"
    "sc_quotas (fold (\<lambda>k. update_quota k f) ks ?st) =
      (\<lambda>k. if k \<in> set ks then map_option f (sc_quotas ?st k) else sc_quotas ?st k)"
    "sc_retained_quota_health (fold (\<lambda>k. update_quota k f) ks ?st) = sc_retained_quota_health ?st"
    "sc_retained_quota_order (fold (\<lambda>k. update_quota k f) ks ?st) = sc_retained_quota_order ?st" by simp_all
  have "accounts_only st (fold (\<lambda>k. update_quota k f) ks ?st)"
    using accounts_only_trans [OF _ IH(1)] by simp
  with IH(2-4) Cons.prems show ?case by (auto simp: fun_eq_iff)
qed simp

lemma fold_update_shelf:
  "distinct ks \<Longrightarrow> shelf_ok st \<Longrightarrow> shelf_ok (fold (\<lambda>k. update_quota k f) ks st)"
  using fold_update_quota [of ks st f] by (auto simp: shelf_ok_def)

subsection \<open>Pruning\<close>

lemma evict_quota_health_eq:
  "evict_quota_health order kept =
     (let n = length order - TASK_SCHEDULER_QUOTA_HEALTH_RETENTION
      in (drop n order, \<lambda>k. if k \<in> set (take n order) then None else kept k))"
proof (induction order arbitrary: kept)
  case (Cons k order)
  show ?case
  proof (cases "length (k # order) > TASK_SCHEDULER_QUOTA_HEALTH_RETENTION")
    case True
    then have n: "length (k # order) - TASK_SCHEDULER_QUOTA_HEALTH_RETENTION
        = Suc (length order - TASK_SCHEDULER_QUOTA_HEALTH_RETENTION)" by simp
    from True have "evict_quota_health (k # order) kept = evict_quota_health order (kept(k := None))" by simp
    also note Cons.IH [of "kept(k := None)"]
    finally show ?thesis unfolding n Let_def by (auto simp: fun_eq_iff)
  qed simp
qed simp

lemma retain_quota_health_simps [simp]:
  "accounts_only st (retain_quota_health k s st)" "sc_quotas (retain_quota_health k s st) = sc_quotas st"
  by (simp_all add: retain_quota_health_def accounts_only_def Let_def split: prod.split)

lemma retain_quota_health_shelf:
  assumes "shelf_ok st" "sc_quotas st k = None" "idle s" "well_keyed k s"
  shows "shelf_ok (retain_quota_health k s st)"
proof -
  let ?order = "filter (\<lambda>c. c \<noteq> k) (sc_retained_quota_order st) @ [k]"
  let ?kept = "(sc_retained_quota_health st)(k \<mapsto> s)"
  let ?n = "length ?order - TASK_SCHEDULER_QUOTA_HEALTH_RETENTION"
  have fields: "sc_retained_quota_order (retain_quota_health k s st) = drop ?n ?order"
    "sc_retained_quota_health (retain_quota_health k s st) = (\<lambda>c. if c \<in> set (take ?n ?order) then None else ?kept c)"
    by (simp_all add: retain_quota_health_def evict_quota_health_eq Let_def)
  have dist: "distinct ?order" using assms(1) by (simp add: shelf_ok_def)
  have mem: "c \<in> set ?order \<longleftrightarrow> ?kept c \<noteq> None" for c using assms(1) by (auto simp: shelf_ok_def)
  have split: "c \<in> set ?order \<longleftrightarrow> c \<in> set (take ?n ?order) \<or> c \<in> set (drop ?n ?order)" for c
    by (metis Un_iff append_take_drop_id set_append)
  have disj: "c \<in> set (take ?n ?order) \<Longrightarrow> c \<notin> set (drop ?n ?order)" for c
    using dist set_take_disj_set_drop_if_distinct [of ?order ?n ?n] by blast
  have "length (drop ?n ?order) \<le> TASK_SCHEDULER_QUOTA_HEALTH_RETENTION" by simp
  moreover have "c \<in> set (drop ?n ?order) \<longleftrightarrow> (if c \<in> set (take ?n ?order) then None else ?kept c) \<noteq> None" for c
    using mem split disj by metis
  moreover have "sc_quotas st c = None \<and> idle t \<and> well_keyed c t"
    if "(if c \<in> set (take ?n ?order) then None else ?kept c) = Some t" for c t
    using that assms by (auto simp: shelf_ok_def split: if_splits)
  ultimately show ?thesis
    unfolding shelf_ok_def fields using dist by (auto simp del: drop_append take_append)
qed

lemma settle_quota_ok:
  assumes "keeps_limits f" "\<forall>k s. sc_quotas st k = Some s \<longrightarrow> well_keyed k s"
  shows "accounts_only st (settle_quota f key st)"
    and "sc_quotas (settle_quota f key st) = (sc_quotas st)(key := (case sc_quotas st key of None \<Rightarrow> None
      | Some s \<Rightarrow> if idle (f s) then None else Some (f s)))"
    and "shelf_ok st \<Longrightarrow> shelf_ok (settle_quota f key st)"
proof -
  let ?u = "update_quota key f st"
  consider (none) "sc_quotas st key = None" | (idle) s where "sc_quotas st key = Some s" "idle (f s)"
    | (live) s where "sc_quotas st key = Some s" "\<not> idle (f s)" by (cases "sc_quotas st key") auto
  then show "accounts_only st (settle_quota f key st)"
    "sc_quotas (settle_quota f key st) = (sc_quotas st)(key := (case sc_quotas st key of None \<Rightarrow> None
      | Some s \<Rightarrow> if idle (f s) then None else Some (f s)))"
  proof (atomize (full), cases)
    case none
    then have "update_quota key f st = st" by (simp add: update_quota_def)
    with none show "accounts_only st (settle_quota f key st) \<and>
      sc_quotas (settle_quota f key st) = (sc_quotas st)(key := (case sc_quotas st key of None \<Rightarrow> None
      | Some s \<Rightarrow> if idle (f s) then None else Some (f s)))"
      by (simp add: settle_quota_def prune_idle_quota_def fun_upd_idem)
  next
    case (idle s)
    then have "settle_quota f key st = retain_quota_health key (f s) (?u\<lparr>sc_quotas := (sc_quotas ?u)(key := None)\<rparr>)"
      by (simp add: settle_quota_def prune_idle_quota_def idle_def)
    moreover have "accounts_only st (?u\<lparr>sc_quotas := (sc_quotas ?u)(key := None)\<rparr>)"
      using update_quota_simps(1) [of st key f] by (simp add: accounts_only_def)
    ultimately show "accounts_only st (settle_quota f key st) \<and>
      sc_quotas (settle_quota f key st) = (sc_quotas st)(key := (case sc_quotas st key of None \<Rightarrow> None
      | Some s \<Rightarrow> if idle (f s) then None else Some (f s)))"
      using idle accounts_only_trans retain_quota_health_simps by fastforce
  next
    case (live s)
    then show "accounts_only st (settle_quota f key st) \<and>
      sc_quotas (settle_quota f key st) = (sc_quotas st)(key := (case sc_quotas st key of None \<Rightarrow> None
      | Some s \<Rightarrow> if idle (f s) then None else Some (f s)))"
      by (auto simp: settle_quota_def prune_idle_quota_def idle_def)
  qed
  assume shelf: "shelf_ok st"
  show "shelf_ok (settle_quota f key st)"
  proof (cases "\<exists>s. sc_quotas st key = Some s \<and> idle (f s)")
    case True
    then obtain s where s: "sc_quotas st key = Some s" "idle (f s)" by blast
    let ?v = "?u\<lparr>sc_quotas := (sc_quotas ?u)(key := None)\<rparr>"
    have "shelf_ok ?v" using shelf by (auto simp: shelf_ok_def)
    moreover have "well_keyed key (f s)" using assms s(1) by simp
    moreover have "settle_quota f key st = retain_quota_health key (f s) ?v"
      using s by (simp add: settle_quota_def prune_idle_quota_def idle_def)
    ultimately show ?thesis using retain_quota_health_shelf [of ?v key "f s"] s(2) by simp
  next
    case False
    then have "settle_quota f key st = ?u"
      by (cases "sc_quotas st key") (auto simp: settle_quota_def prune_idle_quota_def idle_def)
    then show ?thesis using shelf by (auto simp: shelf_ok_def)
  qed
qed

lemma fold_settle_quota:
  assumes "keeps_limits f" "distinct ks" "\<forall>k s. sc_quotas st k = Some s \<longrightarrow> well_keyed k s"
  shows "accounts_only st (fold (settle_quota f) ks st) \<and>
    sc_quotas (fold (settle_quota f) ks st) = (\<lambda>k. if k \<in> set ks then
      (case sc_quotas st k of None \<Rightarrow> None | Some s \<Rightarrow> if idle (f s) then None else Some (f s)) else sc_quotas st k) \<and>
    (shelf_ok st \<longrightarrow> shelf_ok (fold (settle_quota f) ks st))"
  using assms(2,3)
proof (induction ks arbitrary: st)
  case (Cons k ks)
  let ?st = "settle_quota f k st"
  note one = settle_quota_ok [OF assms(1) Cons.prems(2), of k]
  have "\<forall>c s. sc_quotas ?st c = Some s \<longrightarrow> well_keyed c s"
    using Cons.prems(2) assms(1) by (auto simp: one(2) split: if_splits option.splits)
  from Cons.IH [OF _ this] Cons.prems(1) have IH: "accounts_only ?st (fold (settle_quota f) ks ?st)"
    "sc_quotas (fold (settle_quota f) ks ?st) = (\<lambda>k. if k \<in> set ks then
      (case sc_quotas ?st k of None \<Rightarrow> None | Some s \<Rightarrow> if idle (f s) then None else Some (f s)) else sc_quotas ?st k)"
    "shelf_ok ?st \<longrightarrow> shelf_ok (fold (settle_quota f) ks ?st)" by simp_all
  have "accounts_only st (fold (settle_quota f) ks ?st)" using accounts_only_trans [OF one(1) IH(1)] .
  moreover have "sc_quotas (fold (settle_quota f) ks ?st) = (\<lambda>c. if c \<in> set (k # ks) then
      (case sc_quotas st c of None \<Rightarrow> None | Some s \<Rightarrow> if idle (f s) then None else Some (f s)) else sc_quotas st c)"
    using Cons.prems(1) by (auto simp: IH(2) one(2) fun_eq_iff)
  ultimately show ?case using IH(3) one(3) by simp
qed simp

subsection \<open>Registering\<close>

lemma register_quota_ok:
  assumes "shelf_ok st" "\<not> quota_conflicts st q" "qt_max_active q \<le> USIZE_MAX"
  shows "accounts_only st (register_quota q st)" "shelf_ok (register_quota q st)"
    and "sc_quotas st k \<noteq> None \<Longrightarrow> sc_quotas (register_quota q st) k = sc_quotas st k"
    and "k \<noteq> qt_key q \<Longrightarrow> sc_quotas (register_quota q st) k = sc_quotas st k"
    and "sc_quotas st (qt_key q) = None \<Longrightarrow> \<exists>s. sc_quotas (register_quota q st) (qt_key q) = Some s \<and> idle s \<and>
      qs_identity s = qt_identity q \<and> qs_max_active s = qt_max_active q"
proof -
  let ?new = "quota_state_new (qt_identity q) (qt_max_active q)"
  have new: "idle ?new" "qs_identity ?new = qt_identity q" "qs_max_active ?new = qt_max_active q"
    by (simp_all add: quota_state_new_def idle_def)
  have frame: "accounts_only st (register_quota q st)"
    by (auto simp: register_quota_def take_retained_quota_health_def accounts_only_def Let_def split: option.split)
  have kept: "\<exists>s. sc_quotas (register_quota q st) (qt_key q) = Some s \<and> idle s \<and>
      qs_identity s = qt_identity q \<and> qs_max_active s = qt_max_active q" if "sc_quotas st (qt_key q) = None"
    using that new assms(1)
    by (auto simp: register_quota_def take_retained_quota_health_def shelf_ok_def Let_def split: option.splits)
  have other: "c \<noteq> qt_key q \<Longrightarrow> sc_quotas (register_quota q st) c = sc_quotas st c" for c
    by (auto simp: register_quota_def take_retained_quota_health_def Let_def split: option.split)
  show "accounts_only st (register_quota q st)" by (rule frame)
  show "k \<noteq> qt_key q \<Longrightarrow> sc_quotas (register_quota q st) k = sc_quotas st k" by (rule other)
  show "sc_quotas st k \<noteq> None \<Longrightarrow> sc_quotas (register_quota q st) k = sc_quotas st k"
    by (cases "k = qt_key q") (auto simp: other, simp add: register_quota_def)
  show "sc_quotas st (qt_key q) = None \<Longrightarrow> \<exists>s. sc_quotas (register_quota q st) (qt_key q) = Some s \<and> idle s \<and>
      qs_identity s = qt_identity q \<and> qs_max_active s = qt_max_active q" by (rule kept)
  show "shelf_ok (register_quota q st)"
  proof (cases "sc_quotas st (qt_key q) = None")
    case True
    have "sc_retained_quota_health (register_quota q st) = (sc_retained_quota_health st)(qt_key q := None) \<and>
      sc_retained_quota_order (register_quota q st) =
        (if sc_retained_quota_health st (qt_key q) = None then sc_retained_quota_order st
         else filter (\<lambda>c. c \<noteq> qt_key q) (sc_retained_quota_order st))"
      using True by (auto simp: register_quota_def take_retained_quota_health_def Let_def fun_upd_idem split: option.split)
    then show ?thesis
      using assms(1) other le_trans [OF length_filter_le]
      by (auto simp: shelf_ok_def split: if_splits)
  qed (use assms(1) in \<open>simp add: register_quota_def\<close>)
qed

end
