(* ===== verification/SchedulerInvariant.thy ===== *)
theory SchedulerInvariant
  imports SchedulerAccounts
begin

section \<open>The invariant of the scheduler\<close>

text \<open>
  The invariant that every message handler of the scheduler keeps: exact quota accounts, capacity,
  bounded queue, distinct ids, bounded health records.  The lemmas say what
  keeps the accounts: a waiting or an admitted request that leaves, a request that is admitted, a new one
  that waits.
\<close>

subsection \<open>Definition\<close>

definition keys_of :: "demand \<Rightarrow> str list" where
  "keys_of d = map qt_key (fst (snd d))"

definition n_pending :: "str \<Rightarrow> demand multiset \<Rightarrow> nat" where
  "n_pending k W = size {#d \<in># W. k \<in> set (keys_of d)#}"

definition n_active :: "str \<Rightarrow> (nat \<times> active_admission) list \<Rightarrow> nat" where
  "n_active k A = length (filter (\<lambda>(i, a). k \<in> set (aa_quota_identities a)) A)"

definition n_global :: "(nat \<times> active_admission) list \<Rightarrow> nat" where
  "n_global A = length (filter (\<lambda>(i, a). aa_global_slot a) A)"

lemma global_active_count_eq: "global_active_count st = n_global (sc_active st)"
  by (simp add: global_active_count_def n_global_def)

definition key_ok :: "(nat \<times> active_admission) list \<Rightarrow> demand multiset \<Rightarrow> str \<Rightarrow> quota_state option \<Rightarrow> bool" where
  "key_ok A W k q \<longleftrightarrow>
     (case q of
        None \<Rightarrow> n_active k A = 0 \<and> n_pending k W = 0
      | Some s \<Rightarrow> qs_active s = n_active k A \<and> qs_pending s = n_pending k W \<and> \<not> idle s \<and>
          qs_active s \<le> qs_max_active s \<and> well_keyed k s)"

definition demand_ok :: "(str \<rightharpoonup> quota_state) \<Rightarrow> demand \<Rightarrow> bool" where
  "demand_ok qs d \<longleftrightarrow> distinct (keys_of d) \<and>
     (\<forall>q \<in> set (fst (snd d)). \<exists>s. qs (qt_key q) = Some s \<and> qs_identity s = qt_identity q \<and>
        qs_max_active s = qt_max_active q)"

definition ids_ok :: "(nat \<times> active_admission) list \<Rightarrow> demand multiset \<Rightarrow> bool" where
  "ids_ok A W \<longleftrightarrow> distinct (map fst A) \<and> (\<forall>i. count (image_mset fst W) i \<le> 1) \<and>
     (\<forall>d \<in># W. fst d \<notin> fst ` set A)"

definition books_ok :: "nat \<Rightarrow> (nat \<times> active_admission) list \<Rightarrow> demand multiset \<Rightarrow> (str \<rightharpoonup> quota_state) \<Rightarrow> bool" where
  "books_ok m A W qs \<longleftrightarrow> (\<forall>k. key_ok A W k (qs k)) \<and> (\<forall>d \<in># W. demand_ok qs d) \<and>
     (\<forall>(i, a) \<in> set A. distinct (aa_quota_identities a)) \<and> ids_ok A W \<and> n_global A \<le> m"

definition scheduler_inv :: "'q queue_ops \<Rightarrow> ('q \<Rightarrow> bool) \<Rightarrow> 'q scheduler \<Rightarrow> bool" where
  "scheduler_inv Q I st \<longleftrightarrow> I (sc_pending st) \<and> shelf_ok st \<and>
     size (waiting Q (sc_pending st)) \<le> MAX_PENDING_ADMISSIONS \<and>
     books_ok (cfg_max_active (sc_config st)) (sc_active st) (waiting Q (sc_pending st)) (sc_quotas st)"

subsection \<open>Counting\<close>

lemma n_pending_simps [simp]:
  "n_pending k {#} = 0"
  "n_pending k (add_mset d W) = (if k \<in> set (keys_of d) then Suc (n_pending k W) else n_pending k W)"
  by (simp_all add: n_pending_def)

lemma n_pending_le: "n_pending k W \<le> size W"
  unfolding n_pending_def by (rule size_filter_mset_lesseq)

lemma n_active_simps [simp]:
  "n_active k [] = 0"
  "n_active k ((i, a) # A) = (if k \<in> set (aa_quota_identities a) then Suc (n_active k A) else n_active k A)"
  by (simp_all add: n_active_def)

lemma n_global_simps [simp]:
  "n_global [] = 0" "n_global ((i, a) # A) = (if aa_global_slot a then Suc (n_global A) else n_global A)"
  by (simp_all add: n_global_def)

lemma filter_absent: "i \<notin> fst ` set A \<Longrightarrow> filter (\<lambda>(j, _). j \<noteq> i) A = A"
  by (induction A) auto

lemma remove_counts:
  assumes "distinct (map fst A)" "map_of A i = Some a"
  shows "n_active k A = n_active k ((i, a) # filter (\<lambda>(j, _). j \<noteq> i) A)"
    and "n_global A = n_global ((i, a) # filter (\<lambda>(j, _). j \<noteq> i) A)"
proof -
  have "n_active k A = n_active k ((i, a) # filter (\<lambda>(j, _). j \<noteq> i) A) \<and>
    n_global A = n_global ((i, a) # filter (\<lambda>(j, _). j \<noteq> i) A)"
    using assms
  proof (induction A)
    case (Cons x A)
    obtain j b where x: "x = (j, b)" by (cases x)
    show ?case
    proof (cases "j = i")
      case True
      with Cons.prems x have "b = a" "filter (\<lambda>(j, _). j \<noteq> i) A = A" by (auto intro: filter_absent)
      with True x show ?thesis by simp
    next
      case False
      with Cons x show ?thesis by auto
    qed
  qed simp
  then show "n_active k A = n_active k ((i, a) # filter (\<lambda>(j, _). j \<noteq> i) A)"
    "n_global A = n_global ((i, a) # filter (\<lambda>(j, _). j \<noteq> i) A)" by blast+
qed

lemma n_active_member: "(i, a) \<in> set A \<Longrightarrow> k \<in> set (aa_quota_identities a) \<Longrightarrow> 0 < n_active k A"
  unfolding n_active_def by (auto simp: filter_empty_conv)

lemma n_pending_member: "d \<in># W \<Longrightarrow> k \<in> set (keys_of d) \<Longrightarrow> 0 < n_pending k W"
  by (auto dest!: multi_member_split)

lemma books_keyed: "books_ok m A W qs \<Longrightarrow> qs k = Some s \<Longrightarrow> well_keyed k s"
  by (auto simp: books_ok_def key_ok_def dest!: spec [of _ k])

lemma ids_ok_waiting: "ids_ok A (add_mset d W) \<Longrightarrow> ids_ok A W"
proof -
  assume ids: "ids_ok A (add_mset d W)"
  have "count (image_mset fst W) i \<le> 1" for i
  proof -
    have "count (image_mset fst (add_mset d W)) i \<le> 1" using ids unfolding ids_ok_def by blast
    then show ?thesis by (simp split: if_splits)
  qed
  with ids show ?thesis by (simp add: ids_ok_def)
qed

lemma ids_ok_active: "ids_ok A W \<Longrightarrow> ids_ok (filter (\<lambda>(j, _). j \<noteq> i) A) W"
  by (auto simp: ids_ok_def distinct_map_filter)

subsection \<open>Settling\<close>

text \<open>A demand whose keys still count someone keeps its registration when other keys are settled.\<close>

lemma demand_ok_settled:
  assumes "demand_ok qs d" "keeps_limits f"
    and "\<And>k. k \<in> set (keys_of d) \<Longrightarrow> qs' k = qs k \<or> qs' k = map_option f (qs k)"
  shows "demand_ok qs' d"
  unfolding demand_ok_def
proof (intro conjI ballI)
  show "distinct (keys_of d)" using assms(1) by (simp add: demand_ok_def)
  fix q assume q: "q \<in> set (fst (snd d))"
  then obtain s where s: "qs (qt_key q) = Some s" "qs_identity s = qt_identity q" "qs_max_active s = qt_max_active q"
    using assms(1) by (auto simp: demand_ok_def)
  have "qt_key q \<in> set (keys_of d)" using q by (simp add: keys_of_def)
  from assms(3) [OF this] s assms(2)
  show "\<exists>s. qs' (qt_key q) = Some s \<and> qs_identity s = qt_identity q \<and> qs_max_active s = qt_max_active q"
    by (auto simp: keeps_limits_def)
qed

lemma books_drop_waiting:
  assumes books: "books_ok m A (add_mset d W) qs" and lim: "keeps_limits f"
    and f: "\<And>s. qs_active (f s) = qs_active s" "\<And>s. qs_pending (f s) = qs_pending s - 1"
  shows "books_ok m A W (\<lambda>k. if k \<in> set (keys_of d) then
    (case qs k of None \<Rightarrow> None | Some s \<Rightarrow> if idle (f s) then None else Some (f s)) else qs k)"
    (is "books_ok m A W ?qs")
proof -
  have key: "key_ok A W k (?qs k)" for k
  proof (cases "k \<in> set (keys_of d)")
    case True
    then obtain s where s: "qs k = Some s"
      using books n_pending_member [of d "add_mset d W" k] by (cases "qs k") (auto simp: books_ok_def key_ok_def dest!: spec [of _ k])
    with books True have "qs_active s = n_active k A" "qs_pending s = Suc (n_pending k W)"
      "qs_active s \<le> qs_max_active s" "well_keyed k s" by (auto simp: books_ok_def key_ok_def dest!: spec [of _ k])
    with True s lim f show ?thesis by (auto simp: key_ok_def idle_def keeps_limits_def)
  next
    case False
    with books show ?thesis by (auto simp: books_ok_def key_ok_def dest!: spec [of _ k] split: option.splits)
  qed
  moreover have "demand_ok ?qs x" if x: "x \<in># W" for x
  proof (rule demand_ok_settled [OF _ lim])
    show "demand_ok qs x" using books x by (simp add: books_ok_def)
    fix k assume "k \<in> set (keys_of x)"
    then have "0 < n_pending k W" using x by (rule n_pending_member [rotated])
    with key [of k] show "?qs k = qs k \<or> ?qs k = map_option f (qs k)"
      by (auto simp: key_ok_def split: option.splits if_splits)
  qed
  ultimately show ?thesis using books ids_ok_waiting [of A d W] by (auto simp: books_ok_def)
qed

lemma books_drop_active:
  assumes books: "books_ok m A W qs" and a: "map_of A i = Some a" and lim: "keeps_limits f"
    and f: "\<And>s. qs_active (f s) = qs_active s - 1" "\<And>s. qs_pending (f s) = qs_pending s"
  shows "books_ok m (filter (\<lambda>(j, _). j \<noteq> i) A) W (\<lambda>k. if k \<in> set (aa_quota_identities a) then
    (case qs k of None \<Rightarrow> None | Some s \<Rightarrow> if idle (f s) then None else Some (f s)) else qs k)"
    (is "books_ok m ?A W ?qs")
proof -
  have dist: "distinct (map fst A)" using books by (simp add: books_ok_def ids_ok_def)
  note counts = remove_counts [OF dist a]
  have key: "key_ok ?A W k (?qs k)" for k
  proof (cases "k \<in> set (aa_quota_identities a)")
    case True
    with counts(1) [of k] have n: "n_active k A = Suc (n_active k ?A)" by simp
    then obtain s where s: "qs k = Some s"
      using books by (cases "qs k") (auto simp: books_ok_def key_ok_def dest!: spec [of _ k])
    with books n have "qs_active s = Suc (n_active k ?A)" "qs_pending s = n_pending k W"
      "qs_active s \<le> qs_max_active s" "well_keyed k s" by (auto simp: books_ok_def key_ok_def dest!: spec [of _ k])
    with True s lim f show ?thesis by (auto simp: key_ok_def idle_def keeps_limits_def)
  next
    case False
    with counts(1) [of k] have "n_active k A = n_active k ?A" by simp
    with False books show ?thesis by (auto simp: books_ok_def key_ok_def dest!: spec [of _ k] split: option.splits)
  qed
  moreover have "demand_ok ?qs x" if x: "x \<in># W" for x
  proof (rule demand_ok_settled [OF _ lim])
    show "demand_ok qs x" using books x by (simp add: books_ok_def)
    fix k assume "k \<in> set (keys_of x)"
    then have "0 < n_pending k W" using x by (rule n_pending_member [rotated])
    with key [of k] show "?qs k = qs k \<or> ?qs k = map_option f (qs k)"
      by (auto simp: key_ok_def split: option.splits if_splits)
  qed
  ultimately show ?thesis using books ids_ok_active [of A W i] counts(2) by (auto simp: books_ok_def split: if_splits)
qed

subsection \<open>Waiting and admission\<close>

lemma books_claim:
  assumes books: "books_ok m A (add_mset d W) qs" and free: "snd (snd d) \<Longrightarrow> n_global A < m"
    and allows: "\<And>k s. k \<in> set (keys_of d) \<Longrightarrow> qs k = Some s \<Longrightarrow> qs_active s < qs_max_active s"
    and a: "aa_quota_identities a = keys_of d" "aa_global_slot a = snd (snd d)"
  shows "books_ok m ((fst d, a) # A) W (\<lambda>k. if k \<in> set (keys_of d) then
    map_option (\<lambda>s. s\<lparr>qs_pending := qs_pending s - 1, qs_active := usize_inc (qs_active s)\<rparr>) (qs k) else qs k)"
    (is "books_ok m ?A W ?qs")
proof -
  let ?f = "\<lambda>s::quota_state. s\<lparr>qs_pending := qs_pending s - 1, qs_active := usize_inc (qs_active s)\<rparr>"
  have lim: "keeps_limits ?f" by (simp add: keeps_limits_def)
  have key: "key_ok ?A W k (?qs k)" for k
  proof (cases "k \<in> set (keys_of d)")
    case True
    then obtain s where s: "qs k = Some s"
      using books n_pending_member [of d "add_mset d W" k] by (cases "qs k") (auto simp: books_ok_def key_ok_def dest!: spec [of _ k])
    with books True have acc: "qs_active s = n_active k A" "qs_pending s = Suc (n_pending k W)" "well_keyed k s"
      by (auto simp: books_ok_def key_ok_def dest!: spec [of _ k])
    have "qs_active s < qs_max_active s" by (rule allows [OF True s])
    then have "usize_inc (qs_active s) = Suc (qs_active s)"
      using acc(3) by (simp add: usize_inc_def well_keyed_def)
    with True s acc a(1) \<open>qs_active s < qs_max_active s\<close> show ?thesis
      by (auto simp: key_ok_def idle_def well_keyed_def)
  next
    case False
    with books a(1) show ?thesis by (auto simp: books_ok_def key_ok_def dest!: spec [of _ k] split: option.splits)
  qed
  moreover have "demand_ok ?qs x" if "x \<in># W" for x
    by (rule demand_ok_settled [OF _ lim]) (use books that in \<open>auto simp: books_ok_def\<close>)
  moreover have "distinct (keys_of d)" using books by (simp add: books_ok_def demand_ok_def)
  moreover have "ids_ok ?A W"
  proof -
    have ids: "ids_ok A (add_mset d W)" using books by (simp add: books_ok_def)
    then have "count (image_mset fst (add_mset d W)) (fst d) \<le> 1" unfolding ids_ok_def by blast
    then have "count (image_mset fst W) (fst d) = 0" by simp
    then have "fst d \<notin># image_mset fst W" by (simp only: not_in_iff)
    then have "\<forall>x \<in># W. fst x \<noteq> fst d" unfolding set_image_mset by (metis imageI)
    with ids ids_ok_waiting [OF ids] show ?thesis by (simp add: ids_ok_def)
  qed
  ultimately show ?thesis using books a free by (auto simp: books_ok_def)
qed

lemma books_await:
  assumes books: "books_ok m A W qs" and d: "distinct (keys_of d)" "fst d \<notin> fst ` set A" "fst d \<notin> fst ` set_mset W"
    and few: "size W < USIZE_MAX"
    and same: "\<And>k. qs k \<noteq> None \<Longrightarrow> qs1 k = qs k" "\<And>k. k \<notin> set (keys_of d) \<Longrightarrow> qs1 k = qs k"
    and new: "\<And>q. q \<in> set (fst (snd d)) \<Longrightarrow> \<exists>s. qs1 (qt_key q) = Some s \<and> (qs (qt_key q) = None \<longrightarrow> idle s) \<and>
      qs_identity s = qt_identity q \<and> qs_max_active s = qt_max_active q"
    and bound: "\<And>q. q \<in> set (fst (snd d)) \<Longrightarrow> qt_max_active q \<le> USIZE_MAX"
  shows "books_ok m A (add_mset d W) (\<lambda>k. if k \<in> set (keys_of d) then
    map_option (\<lambda>s. s\<lparr>qs_pending := usize_inc (qs_pending s)\<rparr>) (qs1 k) else qs1 k)"
    (is "books_ok m A ?W ?qs")
proof -
  let ?f = "\<lambda>s::quota_state. s\<lparr>qs_pending := usize_inc (qs_pending s)\<rparr>"
  have lim: "keeps_limits ?f" by (simp add: keeps_limits_def)
  have key: "key_ok A ?W k (?qs k)" for k
  proof (cases "k \<in> set (keys_of d)")
    case True
    then obtain q where q: "q \<in> set (fst (snd d))" "k = qt_key q" by (auto simp: keys_of_def)
    obtain s where s: "qs1 k = Some s" "qs k = None \<longrightarrow> idle s"
      "qs_identity s = qt_identity q" "qs_max_active s = qt_max_active q"
      using new [OF q(1)] unfolding q(2) [symmetric] by auto
    have acc: "qs_active s = n_active k A \<and> qs_pending s = n_pending k W \<and> qs_active s \<le> qs_max_active s"
    proof (cases "qs k")
      case None
      with books s(2) show ?thesis by (auto simp: books_ok_def key_ok_def idle_def dest!: spec [of _ k])
    next
      case (Some t)
      with same(1) [of k] s(1) have "t = s" by simp
      with books Some show ?thesis by (auto simp: books_ok_def key_ok_def dest!: spec [of _ k])
    qed
    have "n_pending k W < USIZE_MAX" using n_pending_le few by (rule le_less_trans)
    with acc have "usize_inc (qs_pending s) = Suc (qs_pending s)" by (simp add: usize_inc_def)
    with True s(1,3,4) acc q(2) bound [OF q(1)] show ?thesis
      by (auto simp: key_ok_def idle_def well_keyed_def)
  next
    case False
    with books same(2) [OF False] show ?thesis
      by (auto simp: books_ok_def key_ok_def dest!: spec [of _ k] split: option.splits)
  qed
  moreover have "demand_ok ?qs x" if "x \<in># W" for x
  proof (rule demand_ok_settled [OF _ lim])
    show reg: "demand_ok qs x" using books that by (simp add: books_ok_def)
    fix k assume "k \<in> set (keys_of x)"
    then obtain s where "qs k = Some s"
      using reg unfolding demand_ok_def keys_of_def by auto
    with same(1) [of k] show "?qs k = qs k \<or> ?qs k = map_option ?f (qs k)" by simp
  qed
  moreover have "demand_ok ?qs d"
    unfolding demand_ok_def
  proof (intro conjI ballI d(1))
    fix q assume q: "q \<in> set (fst (snd d))"
    then have "qt_key q \<in> set (keys_of d)" by (simp add: keys_of_def)
    moreover obtain s where "qs1 (qt_key q) = Some s" "qs_identity s = qt_identity q" "qs_max_active s = qt_max_active q"
      using new [OF q] by blast
    ultimately show "\<exists>s. ?qs (qt_key q) = Some s \<and> qs_identity s = qt_identity q \<and> qs_max_active s = qt_max_active q"
      by simp
  qed
  moreover have "ids_ok A ?W"
  proof -
    have "fst d \<notin># image_mset fst W" using d(3) by simp
    then have "count (image_mset fst W) (fst d) = 0" by (simp only: not_in_iff)
    moreover have "ids_ok A W" using books by (simp add: books_ok_def)
    ultimately show ?thesis using d(2) by (simp add: ids_ok_def)
  qed
  moreover have "\<forall>(i, a) \<in> set A. distinct (aa_quota_identities a)" "n_global A \<le> m"
    using books by (simp_all add: books_ok_def)
  ultimately show ?thesis unfolding books_ok_def by simp
qed

end
