(* ===== verification/SchedulerHandlers.thy ===== *)
theory SchedulerHandlers
  imports SchedulerInvariant
begin

section \<open>Admitting and dispatching\<close>

text \<open>
  The steps the message handlers are made of, from the inside out: registering quotas, settling them,
  admitting one request, and the dispatch loop with its aging pass.  Each keeps the accounts; dispatching
  leaves nothing admissible waiting and takes no request off the queue without an answer.
\<close>

subsection \<open>Frames\<close>

lemma counted_simps [simp]:
  "sc_config (count_cancelled st) = sc_config st" "sc_pending (count_cancelled st) = sc_pending st"
  "sc_active (count_cancelled st) = sc_active st" "sc_quotas (count_cancelled st) = sc_quotas st"
  "sc_retained_quota_health (count_cancelled st) = sc_retained_quota_health st"
  "sc_retained_quota_order (count_cancelled st) = sc_retained_quota_order st"
  "sc_closing (count_cancelled st) = sc_closing st"
  "sc_shutdown_waiters (count_cancelled st) = sc_shutdown_waiters st"
  "sc_config (count_rejected st) = sc_config st" "sc_pending (count_rejected st) = sc_pending st"
  "sc_active (count_rejected st) = sc_active st" "sc_quotas (count_rejected st) = sc_quotas st"
  "sc_retained_quota_health (count_rejected st) = sc_retained_quota_health st"
  "sc_retained_quota_order (count_rejected st) = sc_retained_quota_order st"
  "sc_closing (count_rejected st) = sc_closing st"
  "sc_shutdown_waiters (count_rejected st) = sc_shutdown_waiters st"
  "sc_config (count_admitted w st) = sc_config st" "sc_pending (count_admitted w st) = sc_pending st"
  "sc_active (count_admitted w st) = sc_active st" "sc_quotas (count_admitted w st) = sc_quotas st"
  "sc_retained_quota_health (count_admitted w st) = sc_retained_quota_health st"
  "sc_retained_quota_order (count_admitted w st) = sc_retained_quota_order st"
  "sc_closing (count_admitted w st) = sc_closing st"
  "sc_shutdown_waiters (count_admitted w st) = sc_shutdown_waiters st"
  by (simp_all add: count_cancelled_def count_rejected_def count_admitted_def Let_def)

lemma shelf_cong:
  "shelf_ok st \<Longrightarrow> sc_quotas st' = sc_quotas st \<Longrightarrow>
     sc_retained_quota_health st' = sc_retained_quota_health st \<Longrightarrow>
     sc_retained_quota_order st' = sc_retained_quota_order st \<Longrightarrow> shelf_ok st'"
  by (simp add: shelf_ok_def)

lemma books_map:
  assumes "books_ok m A W qs" "keeps_limits f" "\<And>s. qs_active (f s) = qs_active s" "\<And>s. qs_pending (f s) = qs_pending s"
  shows "books_ok m A W (\<lambda>k. if k \<in> set ks then map_option f (qs k) else qs k)"
proof -
  have "key_ok A W k (if k \<in> set ks then map_option f (qs k) else qs k)" if "key_ok A W k (qs k)" for k
    using that assms(2-4) by (auto simp: key_ok_def idle_def keeps_limits_def well_keyed_def split: option.splits)
  moreover have "demand_ok (\<lambda>k. if k \<in> set ks then map_option f (qs k) else qs k) d" if "demand_ok qs d" for d
    by (rule demand_ok_settled [OF that assms(2)]) simp
  ultimately show ?thesis using assms(1) by (simp add: books_ok_def)
qed

subsection \<open>Registering the quotas of a request\<close>

lemma fold_register_quota:
  assumes "shelf_ok st" "\<forall>q \<in> set qs. \<not> quota_conflicts st q \<and> qt_max_active q \<le> USIZE_MAX" "distinct (map qt_key qs)"
  shows "accounts_only st (fold register_quota qs st) \<and> shelf_ok (fold register_quota qs st) \<and>
    (\<forall>k. sc_quotas st k \<noteq> None \<or> k \<notin> qt_key ` set qs \<longrightarrow> sc_quotas (fold register_quota qs st) k = sc_quotas st k) \<and>
    (\<forall>q \<in> set qs. \<exists>s. sc_quotas (fold register_quota qs st) (qt_key q) = Some s \<and>
       (sc_quotas st (qt_key q) = None \<longrightarrow> idle s) \<and> qs_identity s = qt_identity q \<and> qs_max_active s = qt_max_active q)"
  using assms
proof (induction qs arbitrary: st)
  case (Cons q qs)
  let ?st = "register_quota q st"
  have nc: "\<not> quota_conflicts st q" "qt_max_active q \<le> USIZE_MAX" using Cons.prems(2) by simp_all
  note reg = register_quota_ok [OF Cons.prems(1) nc]
  have later: "sc_quotas ?st (qt_key p) = sc_quotas st (qt_key p)" if "p \<in> set qs" for p
  proof (rule reg(4))
    show "qt_key p \<noteq> qt_key q" using Cons.prems(3) imageI [OF that, of qt_key] by auto
  qed
  have "\<not> quota_conflicts ?st p" if "p \<in> set qs" for p
    using Cons.prems(2) that later [OF that] by (simp add: quota_conflicts_def)
  with Cons.IH [OF reg(2)] Cons.prems(2,3)
  have IH: "accounts_only ?st (fold register_quota qs ?st)" "shelf_ok (fold register_quota qs ?st)"
    "\<And>k. sc_quotas ?st k \<noteq> None \<or> k \<notin> qt_key ` set qs \<Longrightarrow> sc_quotas (fold register_quota qs ?st) k = sc_quotas ?st k"
    "\<And>q. q \<in> set qs \<Longrightarrow> \<exists>s. sc_quotas (fold register_quota qs ?st) (qt_key q) = Some s \<and>
       (sc_quotas ?st (qt_key q) = None \<longrightarrow> idle s) \<and> qs_identity s = qt_identity q \<and> qs_max_active s = qt_max_active q"
    by auto
  have acc: "accounts_only st (fold register_quota (q # qs) st)"
    using accounts_only_trans [OF reg(1) IH(1)] by simp
  have same: "sc_quotas (fold register_quota (q # qs) st) k = sc_quotas st k"
    if "sc_quotas st k \<noteq> None \<or> k \<notin> qt_key ` set (q # qs)" for k
    using that reg(3) [of k] reg(4) [of k] IH(3) [of k] by auto
  have here: "\<exists>s. sc_quotas (fold register_quota (q # qs) st) (qt_key q) = Some s \<and>
       (sc_quotas st (qt_key q) = None \<longrightarrow> idle s) \<and> qs_identity s = qt_identity q \<and> qs_max_active s = qt_max_active q"
  proof (cases "sc_quotas st (qt_key q)")
    case None
    with reg(5) obtain s where s: "sc_quotas ?st (qt_key q) = Some s" "idle s" "qs_identity s = qt_identity q"
      "qs_max_active s = qt_max_active q" by blast
    with IH(3) [of "qt_key q"] show ?thesis by simp
  next
    case (Some s)
    with nc(1) same [of "qt_key q"] show ?thesis by (simp add: quota_conflicts_def)
  qed
  have there: "\<exists>s. sc_quotas (fold register_quota (q # qs) st) (qt_key p) = Some s \<and>
       (sc_quotas st (qt_key p) = None \<longrightarrow> idle s) \<and> qs_identity s = qt_identity p \<and> qs_max_active s = qt_max_active p"
    if "p \<in> set qs" for p
    using IH(4) [OF that] later [OF that] by simp
  from acc same here there IH(2) show ?case by simp
qed simp

subsection \<open>Admitting one request\<close>

lemma claim_quota_fold: "fold claim_quota ks = fold (\<lambda>k. update_quota k
    (\<lambda>s. s\<lparr>qs_pending := qs_pending s - 1, qs_active := usize_inc (qs_active s)\<rparr>)) ks"
  by (simp add: claim_quota_def [abs_def])

lemma credit_quota_fold: "fold (credit_quota w) ks = fold (\<lambda>k. update_quota k
    (\<lambda>s. s\<lparr>qs_admitted := u64_add (qs_admitted s) 1, qs_total_wait_micros := u64_add (qs_total_wait_micros s) w,
       qs_max_wait_micros := max (qs_max_wait_micros s) w, qs_peak_active := max (qs_peak_active s) (qs_active s)\<rparr>)) ks"
  by (simp add: credit_quota_def [abs_def])

lemma await_quota_fold: "fold await_quota ks = fold (\<lambda>k. update_quota k
    (\<lambda>s. s\<lparr>qs_pending := usize_inc (qs_pending s)\<rparr>)) ks"
  by (simp add: await_quota_def [abs_def])

text \<open>What every inner step keeps of the scheduler.\<close>

definition same_frame :: "'q scheduler \<Rightarrow> 'q scheduler \<Rightarrow> bool" where
  "same_frame st st' \<longleftrightarrow> sc_config st' = sc_config st \<and> sc_closing st' = sc_closing st \<and>
     sc_shutdown_waiters st' = sc_shutdown_waiters st"

abbreviation keys_for :: "admission \<Rightarrow> str list" where
  "keys_for v \<equiv> map qt_key (adm_quotas v)"

abbreviation active_of :: "admission \<Rightarrow> active_admission" where
  "active_of v \<equiv> \<lparr>aa_priority = adm_priority v, aa_quota_identities = keys_for v, aa_global_slot = adm_global_slot v\<rparr>"

lemma demand_of_simps [simp]:
  "fst (demand_of v) = adm_id v" "fst (snd (demand_of v)) = adm_quotas v"
  "snd (snd (demand_of v)) = adm_global_slot v" "keys_of (demand_of v) = keys_for v"
  by (simp_all add: demand_of_def keys_of_def)

lemma claim_ok:
  assumes "shelf_ok st" "books_ok m (sc_active st) (add_mset (demand_of v) W) (sc_quotas st)"
    and "admissible st (global_active_count st < m) v"
    and st': "st' = insert_active (adm_id v) (active_of v) (fold claim_quota (keys_for v) st)"
  shows "shelf_ok st' \<and> sc_pending st' = sc_pending st \<and> same_frame st st' \<and>
    sc_active st' = (adm_id v, active_of v) # sc_active st \<and> distinct (keys_for v) \<and> adm_id v \<notin> fst ` set (sc_active st) \<and>
    books_ok m (sc_active st') W (sc_quotas st')"
proof -
  let ?f = "\<lambda>s::quota_state. s\<lparr>qs_pending := qs_pending s - 1, qs_active := usize_inc (qs_active s)\<rparr>"
  let ?d = "demand_of v" and ?s1 = "fold claim_quota (keys_for v) st"
  have "demand_ok (sc_quotas st) ?d" "ids_ok (sc_active st) (add_mset ?d W)"
    using assms(2) by (simp_all add: books_ok_def)
  then have dist: "distinct (keys_for v)" and new: "adm_id v \<notin> fst ` set (sc_active st)"
    unfolding demand_ok_def ids_ok_def by simp_all
  note upd = fold_update_quota [OF dist, of st ?f, folded claim_quota_fold]
  have act: "sc_active st' = (adm_id v, active_of v) # sc_active st"
    using upd filter_absent [OF new] by (simp add: st' insert_active_def accounts_only_def)
  have "books_ok m ((fst ?d, active_of v) # sc_active st) W (\<lambda>k. if k \<in> set (keys_of ?d)
      then map_option ?f (sc_quotas st k) else sc_quotas st k)"
  proof (rule books_claim [OF assms(2)])
    show "n_global (sc_active st) < m" if "snd (snd ?d)"
      using that assms(3) by (simp add: admissible_def global_active_count_eq)
    show "qs_active s < qs_max_active s" if "k \<in> set (keys_of ?d)" "sc_quotas st k = Some s" for k s
      using that assms(3) by (auto simp: admissible_def quota_allows_def list_all_iff split: option.splits)
  qed simp_all
  moreover have "sc_quotas st' = (\<lambda>k. if k \<in> set (keys_for v) then map_option ?f (sc_quotas st k) else sc_quotas st k)"
    using upd by (simp add: st' insert_active_def)
  ultimately have "books_ok m (sc_active st') W (sc_quotas st')" by (simp add: act)
  moreover have "shelf_ok st'"
    using fold_update_shelf [OF dist assms(1), of ?f, folded claim_quota_fold]
    by (rule shelf_cong) (simp_all add: st' insert_active_def)
  ultimately show ?thesis using act dist new upd by (simp add: st' insert_active_def accounts_only_def same_frame_def)
qed

text \<open>Settling keys of requests that leave: the accounts of the others stay right.\<close>

lemma settle_waiting_ok:
  assumes "keeps_limits f" "\<And>s. qs_active (f s) = qs_active s" "\<And>s. qs_pending (f s) = qs_pending s - 1"
    and "shelf_ok st" "books_ok m (sc_active st) (add_mset (demand_of v) W) (sc_quotas st)"
    and st': "st' = fold (settle_quota f) (keys_for v) st"
  shows "accounts_only st st' \<and> shelf_ok st' \<and> books_ok m (sc_active st') W (sc_quotas st')"
proof -
  have "demand_ok (sc_quotas st) (demand_of v)" using assms(5) by (simp add: books_ok_def)
  then have "distinct (keys_for v)" unfolding demand_ok_def by simp
  from fold_settle_quota [OF assms(1) this, of st] books_keyed [OF assms(5)]
  have fs: "accounts_only st st'" "shelf_ok st'"
    "sc_quotas st' = (\<lambda>k. if k \<in> set (keys_for v) then
      (case sc_quotas st k of None \<Rightarrow> None | Some s \<Rightarrow> if idle (f s) then None else Some (f s)) else sc_quotas st k)"
    using assms(4) by (simp_all add: st')
  from books_drop_waiting [OF assms(5,1-3)] have "books_ok m (sc_active st) W (sc_quotas st')"
    unfolding demand_of_simps fs(3) .
  with fs(1,2) show ?thesis by (simp add: accounts_only_def)
qed

lemma settle_active_ok:
  assumes "keeps_limits f" "\<And>s. qs_active (f s) = qs_active s - 1" "\<And>s. qs_pending (f s) = qs_pending s"
    and "shelf_ok st" "books_ok m A W (sc_quotas st)" "map_of A i = Some a"
    and "sc_active st = filter (\<lambda>(j, _). j \<noteq> i) A"
    and st': "st' = fold (settle_quota f) (aa_quota_identities a) st"
  shows "accounts_only st st' \<and> shelf_ok st' \<and> books_ok m (sc_active st') W (sc_quotas st')"
proof -
  have "(i, a) \<in> set A" using assms(6) by (rule map_of_SomeD)
  then have "distinct (aa_quota_identities a)" using assms(5) by (auto simp: books_ok_def)
  from fold_settle_quota [OF assms(1) this, of st] books_keyed [OF assms(5)]
  have fs: "accounts_only st st'" "shelf_ok st'"
    "sc_quotas st' = (\<lambda>k. if k \<in> set (aa_quota_identities a) then
      (case sc_quotas st k of None \<Rightarrow> None | Some s \<Rightarrow> if idle (f s) then None else Some (f s)) else sc_quotas st k)"
    using assms(4) by (simp_all add: st')
  from books_drop_active [OF assms(5,6,1-3)] have "books_ok m (sc_active st) W (sc_quotas st')"
    unfolding assms(7) fs(3) .
  with fs(1,2) show ?thesis by (simp add: accounts_only_def)
qed

lemma admit_ok:
  assumes "I (sc_pending st)" "shelf_ok st" "size (waiting Q (sc_pending st)) \<le> MAX_PENDING_ADMISSIONS"
    and books: "books_ok (cfg_max_active (sc_config st)) (sc_active st)
      (add_mset (demand_of v) (waiting Q (sc_pending st))) (sc_quotas st)"
    and "admissible st (global_active_count st < cfg_max_active (sc_config st)) v"
    and st': "admit tn v st = (st', out)"
  shows "scheduler_inv Q I st' \<and> sc_pending st' = sc_pending st \<and> same_frame st st' \<and>
    (if tn_gone tn (adm_id v) then out = [] \<and> sc_active st' = sc_active st
     else out = [Ready (adm_id v) None] \<and> sc_active st' = (adm_id v, active_of v) # sc_active st)"
proof -
  let ?m = "cfg_max_active (sc_config st)" and ?W = "waiting Q (sc_pending st)"
  define s2 where "s2 = insert_active (adm_id v) (active_of v) (fold claim_quota (keys_for v) st)"
  from claim_ok [OF assms(2) books assms(5) s2_def]
  have c: "shelf_ok s2" "sc_pending s2 = sc_pending st" "same_frame st s2"
    "sc_active s2 = (adm_id v, active_of v) # sc_active st" "distinct (keys_for v)"
    "adm_id v \<notin> fst ` set (sc_active st)" "books_ok ?m (sc_active s2) ?W (sc_quotas s2)" by blast+
  show ?thesis
  proof (cases "tn_gone tn (adm_id v)")
    case True
    let ?f = "\<lambda>s::quota_state. s\<lparr>qs_active := qs_active s - 1, qs_cancelled := u64_add (qs_cancelled s) 1\<rparr>"
    let ?s3 = "count_cancelled (remove_active (adm_id v) s2)"
    have s3: "sc_active ?s3 = sc_active st" "sc_quotas ?s3 = sc_quotas s2" "sc_pending ?s3 = sc_pending st" "same_frame st ?s3"
      using c(2,3,4) filter_absent [OF c(6)] by (simp_all add: remove_active_def same_frame_def)
    have "shelf_ok ?s3" by (rule shelf_cong [OF c(1)]) (simp_all add: remove_active_def)
    moreover have res: "st' = fold (settle_quota ?f) (aa_quota_identities (active_of v)) ?s3" "out = []"
      using st' True by (simp_all add: admit_def release_active_quotas_def s2_def Let_def)
    ultimately have "accounts_only ?s3 st' \<and> shelf_ok st' \<and> books_ok ?m (sc_active st') ?W (sc_quotas st')"
      using c(4,7) s3(1,2) filter_absent [OF c(6)]
      by (intro settle_active_ok [of ?f ?s3 _ "sc_active s2" _ "adm_id v" "active_of v"])
        (simp_all add: keeps_limits_def)
    then have "accounts_only ?s3 st'" "shelf_ok st'" "books_ok ?m (sc_active st') ?W (sc_quotas st')" by blast+
    with s3 res(2) True assms(1,3) show ?thesis
      by (simp add: scheduler_inv_def accounts_only_def same_frame_def)
  next
    case False
    let ?w = "min (int (tn_clock tn (adm_id v) - adm_enqueued_at v)) U64_MAX"
    let ?g = "\<lambda>s. s\<lparr>qs_admitted := u64_add (qs_admitted s) 1,
       qs_total_wait_micros := u64_add (qs_total_wait_micros s) ?w,
       qs_max_wait_micros := max (qs_max_wait_micros s) ?w, qs_peak_active := max (qs_peak_active s) (qs_active s)\<rparr>"
    let ?s3 = "count_admitted ?w s2"
    have res: "st' = fold (credit_quota ?w) (keys_for v) ?s3" "out = [Ready (adm_id v) None]"
      using st' False by (simp_all add: admit_def s2_def Let_def)
    note upd = fold_update_quota [OF c(5), of ?s3 ?g, folded credit_quota_fold res(1)]
    have "shelf_ok ?s3" by (rule shelf_cong [OF c(1)]) simp_all
    then have "shelf_ok st'" unfolding res(1) credit_quota_fold by (rule fold_update_shelf [OF c(5)])
    moreover
    have q: "sc_quotas st' = (\<lambda>k. if k \<in> set (keys_for v) then map_option ?g (sc_quotas s2 k) else sc_quotas s2 k)"
      using upd unfolding counted_simps by (elim conjE)
    have "books_ok ?m (sc_active s2) ?W (sc_quotas st')"
      unfolding q by (rule books_map [OF c(7)]) (simp_all add: keeps_limits_def)
    moreover have "accounts_only ?s3 st'" using upd by blast
    ultimately show ?thesis using c(2,3,4) res(2) False assms(1,3)
      by (simp add: scheduler_inv_def accounts_only_def same_frame_def)
  qed
qed

subsection \<open>Dispatching\<close>

definition admits :: "'q scheduler \<Rightarrow> demand \<Rightarrow> bool" where
  "admits st d \<longleftrightarrow> (snd (snd d) \<longrightarrow> global_active_count st < cfg_max_active (sc_config st)) \<and> quota_allows st (fst (snd d))"

lemma admissible_admits:
  "admissible st (global_active_count st < cfg_max_active (sc_config st)) v \<longleftrightarrow> admits st (demand_of v)"
  by (auto simp: admissible_def admits_def)

definition queued_ids :: "'q queue_ops \<Rightarrow> 'q scheduler \<Rightarrow> nat set" where
  "queued_ids Q st = fst ` set_mset (waiting Q (sc_pending st))"

definition active_ids :: "'q scheduler \<Rightarrow> nat set" where
  "active_ids st = fst ` set (sc_active st)"

definition granted :: "reply list \<Rightarrow> nat set" where
  "granted out = {i. Ready i None \<in> set out}"

definition answered :: "reply list \<Rightarrow> nat set" where
  "answered out = {i. \<exists>r. Ready i r \<in> set out}"

lemma granted_simps [simp]:
  "granted [] = {}" "granted (Ready i None # out) = insert i (granted out)" "granted (xs @ ys) = granted xs \<union> granted ys"
  by (auto simp: granted_def)

lemma answered_simps [simp]:
  "answered [] = {}" "answered (Ready i r # out) = insert i (answered out)" "answered (xs @ ys) = answered xs \<union> answered ys"
  by (auto simp: answered_def)

lemma granted_answered: "granted out \<subseteq> answered out"
  by (auto simp: granted_def answered_def)

text \<open>A request that leaves the queue was granted its slot, or its caller is gone.\<close>

definition dispatched :: "'q queue_ops \<Rightarrow> turn \<Rightarrow> 'q scheduler \<Rightarrow> 'q scheduler \<Rightarrow> reply list \<Rightarrow> bool" where
  "dispatched Q tn st st' out \<longleftrightarrow> same_frame st st' \<and> queued_ids Q st' \<subseteq> queued_ids Q st \<and>
     granted out \<subseteq> queued_ids Q st \<and> active_ids st' = active_ids st \<union> granted out \<and>
     queued_ids Q st \<subseteq> queued_ids Q st' \<union> granted out \<union> {i. tn_gone tn i}"

lemma dispatched_refl: "dispatched Q tn st st []"
  by (simp add: dispatched_def same_frame_def)

lemma dispatched_trans:
  "dispatched Q tn a b xs \<Longrightarrow> dispatched Q tn b c ys \<Longrightarrow> dispatched Q tn a c (xs @ ys)"
  unfolding dispatched_def same_frame_def granted_simps by (elim conjE, intro conjI) (simp, simp, simp, blast+)

context priority_queue begin

lemma waiting_split:
  assumes "pq_ordered Q (sc_pending st) = pre @ e # post" "pq_ordered Q q = pre @ post"
  shows "waiting Q (sc_pending st) = add_mset (demand_of (en_value e)) (waiting Q q)"
  using assms by (simp add: waiting_def)

lemma claim_and_admit:
  assumes inv: "scheduler_inv Q I st"
    and pop: "pop_admissible Q (global_active_count st < cfg_max_active (sc_config st)) st = (Some v, st1)"
    and adm: "admit tn v st1 = (st2, out)"
  shows "scheduler_inv Q I st2 \<and> dispatched Q tn st st2 out \<and> pq_len Q (sc_pending st) = Suc (pq_len Q (sc_pending st2))"
proof -
  have I: "I (sc_pending st)" using inv by (simp add: scheduler_inv_def)
  from pop_admissible_Some [OF I pop] obtain pre e post q where
    q: "pq_ordered Q (sc_pending st) = pre @ e # post" "en_value e = v"
      "admissible st (global_active_count st < cfg_max_active (sc_config st)) v"
      "st1 = st\<lparr>sc_pending := q\<rparr>" "I q" "pq_ordered Q q = pre @ post" by blast
  note W = waiting_split [OF q(1,6), unfolded q(2)]
  have a: "scheduler_inv Q I st2 \<and> sc_pending st2 = sc_pending st1 \<and> same_frame st1 st2 \<and>
    (if tn_gone tn (adm_id v) then out = [] \<and> sc_active st2 = sc_active st1
     else out = [Ready (adm_id v) None] \<and> sc_active st2 = (adm_id v, active_of v) # sc_active st1)"
  proof (rule admit_ok [OF _ _ _ _ _ adm])
    show "shelf_ok st1" using inv q(4) by (simp add: scheduler_inv_def shelf_ok_def)
    show "size (waiting Q (sc_pending st1)) \<le> MAX_PENDING_ADMISSIONS" "I (sc_pending st1)"
      "books_ok (cfg_max_active (sc_config st1)) (sc_active st1)
        (add_mset (demand_of v) (waiting Q (sc_pending st1))) (sc_quotas st1)"
      using inv W q(4,5) by (simp_all add: scheduler_inv_def)
    show "admissible st1 (global_active_count st1 < cfg_max_active (sc_config st1)) v"
      using q(3,4) by (simp add: admissible_def quota_allows_def global_active_count_def)
  qed
  have "queued_ids Q st = insert (adm_id v) (queued_ids Q st2)" "sc_pending st2 = q"
    using a q(4) by (simp_all add: queued_ids_def W)
  then have "dispatched Q tn st st2 out"
    using a q(4) by (auto simp: dispatched_def same_frame_def active_ids_def split: if_splits)
  with a \<open>sc_pending st2 = q\<close> q(1,6) show ?thesis by (simp add: pq_len_def)
qed

lemma dispatch_loop_ok:
  "scheduler_inv Q I st \<Longrightarrow> pq_len Q (sc_pending st) < n \<Longrightarrow> dispatch_loop Q tn n st = (st', out) \<Longrightarrow>
     scheduler_inv Q I st' \<and> dispatched Q tn st st' out \<and> (\<forall>d \<in># waiting Q (sc_pending st'). \<not> admits st' d)"
proof (induction n arbitrary: st out)
  case (Suc n)
  obtain sel st1 where pop: "pop_admissible Q (global_active_count st < cfg_max_active (sc_config st)) st = (sel, st1)"
    by fastforce
  have I: "I (sc_pending st)" using Suc.prems(1) by (simp add: scheduler_inv_def)
  show ?case
  proof (cases sel)
    case None
    with pop Suc.prems(3) have st': "st' = st1" "out = []" by simp_all
    from pop_admissible_None [OF I pop [unfolded None]] obtain q where
      q: "\<forall>e \<in> set (pq_ordered Q (sc_pending st)).
          \<not> admissible st (global_active_count st < cfg_max_active (sc_config st)) (en_value e)"
        "st1 = st\<lparr>sc_pending := q\<rparr>" "I q" "pq_ordered Q q = pq_ordered Q (sc_pending st)" by blast
    have W: "waiting Q q = waiting Q (sc_pending st)" using q(4) by (simp add: waiting_def)
    have "scheduler_inv Q I st1" using Suc.prems(1) q(2,3) W by (simp add: scheduler_inv_def shelf_ok_def)
    moreover have "admits st1 = admits st"
      by (simp add: fun_eq_iff admits_def q(2) quota_allows_def global_active_count_def)
    moreover have "\<forall>d \<in># waiting Q (sc_pending st). \<not> admits st d"
      using q(1) unfolding admissible_admits by (auto simp: waiting_def)
    moreover have "dispatched Q tn st st1 []"
      using q(2) W by (simp add: dispatched_def same_frame_def queued_ids_def active_ids_def)
    ultimately show ?thesis using st' q(2) W by simp
  next
    case (Some v)
    obtain st2 out1 where adm: "admit tn v st1 = (st2, out1)" by fastforce
    obtain out2 where loop: "dispatch_loop Q tn n st2 = (st', out2)" "out = out1 @ out2"
      using Suc.prems(3) pop Some adm by (auto split: prod.splits)
    from claim_and_admit [OF Suc.prems(1) pop [unfolded Some] adm]
    have c: "scheduler_inv Q I st2" "dispatched Q tn st st2 out1" "pq_len Q (sc_pending st) = Suc (pq_len Q (sc_pending st2))"
      by blast+
    from Suc.IH [OF c(1) _ loop(1)] Suc.prems(2) c(3) dispatched_trans [OF c(2)] loop(2) show ?thesis by auto
  qed
qed simp

lemma apply_aging_inv:
  assumes "scheduler_inv Q I st"
  shows "scheduler_inv Q I (apply_aging Q now st) \<and> dispatched Q tn st (apply_aging Q now st) [] \<and>
    admits (apply_aging Q now st) = admits st \<and> sc_active (apply_aging Q now st) = sc_active st \<and>
    waiting Q (sc_pending (apply_aging Q now st)) = waiting Q (sc_pending st)"
proof -
  let ?st = "apply_aging Q now st"
  have I: "I (sc_pending st)" using assms by (simp add: scheduler_inv_def)
  from apply_aging_ok [OF I, of now] have a: "same_but_queue st ?st" "I (sc_pending ?st)"
    "waiting Q (sc_pending ?st) = waiting Q (sc_pending st)" by blast+
  have "admits ?st = admits st"
    using a(1) by (simp add: fun_eq_iff admits_def same_but_queue_def quota_allows_def global_active_count_def)
  moreover have "shelf_ok ?st" using assms a(1) by (simp add: scheduler_inv_def same_but_queue_def shelf_ok_def)
  ultimately show ?thesis using assms a
    by (simp add: scheduler_inv_def same_but_queue_def dispatched_def same_frame_def queued_ids_def active_ids_def)
qed

lemma dispatch_ok:
  assumes "scheduler_inv Q I st" "dispatch Q tn st = (st', out)"
  shows "scheduler_inv Q I st' \<and> dispatched Q tn st st' out \<and>
    (if sc_closing st then st' = st else \<forall>d \<in># waiting Q (sc_pending st'). \<not> admits st' d)"
proof (cases "sc_closing st")
  case True
  with assms show ?thesis by (simp add: dispatch_def dispatched_refl)
next
  case False
  let ?st = "apply_aging Q (tn_now tn) st"
  from apply_aging_inv [OF assms(1)] have a: "scheduler_inv Q I ?st" "dispatched Q tn st ?st []" by blast+
  have "dispatch_loop Q tn (Suc (pq_len Q (sc_pending ?st))) ?st = (st', out)"
    using assms(2) False by (simp add: dispatch_def Let_def del: dispatch_loop.simps)
  from dispatch_loop_ok [OF a(1) _ this] dispatched_trans [OF a(2)] False show ?thesis by auto
qed

end

end
