(* ===== verification/SchedulerTurns.thy ===== *)
theory SchedulerTurns
  imports SchedulerHandlers
begin

section \<open>Turns of the actor\<close>

text \<open>
  One turn of the actor on each message: the invariant is kept, nothing admissible is left waiting, a
  closing scheduler has an empty queue and no forgotten shutdown, and every request that left the queue
  in the turn was answered in it or has no caller any more.  The interleavings of clients and actor keep
  all of that.
\<close>

definition fresh_request :: "'q queue_ops \<Rightarrow> 'q scheduler \<Rightarrow> admission \<Rightarrow> bool" where
  "fresh_request Q st item \<longleftrightarrow> adm_id item \<notin> active_ids st \<union> queued_ids Q st \<and> distinct (keys_for item) \<and>
     (\<forall>q \<in> set (adm_quotas item). qt_max_active q \<le> USIZE_MAX)"

definition orderly :: "'q queue_ops \<Rightarrow> 'q scheduler \<Rightarrow> bool" where
  "orderly Q st \<longleftrightarrow>
     (if sc_closing st then waiting Q (sc_pending st) = {#} else \<forall>d \<in># waiting Q (sc_pending st). \<not> admits st d) \<and>
     (sc_shutdown_waiters st \<noteq> [] \<longrightarrow> sc_closing st \<and> sc_active st \<noteq> [])"

definition turn_ok ::
    "'q queue_ops \<Rightarrow> ('q \<Rightarrow> bool) \<Rightarrow> turn \<Rightarrow> nat set \<Rightarrow> 'q scheduler \<Rightarrow> 'q scheduler \<Rightarrow> reply list \<Rightarrow> bool" where
  "turn_ok Q I tn X st st' out \<longleftrightarrow> scheduler_inv Q I st' \<and> orderly Q st' \<and> sc_config st' = sc_config st \<and>
     active_ids st' \<union> queued_ids Q st' \<subseteq> active_ids st \<union> queued_ids Q st \<union> X \<and>
     queued_ids Q st \<union> X \<subseteq> queued_ids Q st' \<union> answered out \<union> {i. tn_gone tn i}"

lemma queued_ids_empty: "queued_ids Q st = {} \<longleftrightarrow> waiting Q (sc_pending st) = {#}"
  by (simp add: queued_ids_def)

lemma answered_map: "answered (map (\<lambda>v. Ready (adm_id v) r) vs) = adm_id ` set vs"
  by (induction vs) simp_all

text \<open>Counters and shutdown waiters are outside the accounts.\<close>

lemma same_core:
  assumes "sc_config st' = sc_config st" "sc_pending st' = sc_pending st" "sc_active st' = sc_active st"
    "sc_quotas st' = sc_quotas st" "sc_retained_quota_health st' = sc_retained_quota_health st"
    "sc_retained_quota_order st' = sc_retained_quota_order st"
  shows "scheduler_inv Q I st' = scheduler_inv Q I st" "admits st' = admits st"
    "active_ids st' = active_ids st" "queued_ids Q st' = queued_ids Q st"
  using assms by (simp_all add: scheduler_inv_def shelf_ok_def admits_def [abs_def] global_active_count_def
    quota_allows_def active_ids_def queued_ids_def)

lemma turn_unchanged:
  assumes "scheduler_inv Q I st" "orderly Q st" "X \<subseteq> answered out"
  shows "turn_ok Q I tn X st st out" "turn_ok Q I tn X st (count_rejected st) out"
proof -
  show "turn_ok Q I tn X st st out" using assms by (auto simp: turn_ok_def)
  have "orderly Q (count_rejected st)" using assms(2) same_core(2) [of "count_rejected st" st] by (simp add: orderly_def)
  with assms same_core [of "count_rejected st" st] show "turn_ok Q I tn X st (count_rejected st) out"
    by (auto simp: turn_ok_def)
qed

context priority_queue begin

subsection \<open>Enqueueing\<close>

lemma enqueue_books:
  assumes inv: "scheduler_inv Q I st" and "\<not> queue_full Q (sc_pending st)" "fresh_request Q st item"
    and "register_pending_quotas (adm_quotas item) st = Some st1"
    and st2: "st2 = fold await_quota (keys_for item) st1"
    and st3: "st3 = st2\<lparr>sc_pending := pq_push Q p item (sc_pending st2)\<rparr>"
  shows "scheduler_inv Q I st3 \<and> same_frame st st3 \<and> active_ids st3 = active_ids st \<and>
    queued_ids Q st3 = insert (adm_id item) (queued_ids Q st)"
proof -
  let ?W = "waiting Q (sc_pending st)" and ?A = "sc_active st" and ?m = "cfg_max_active (sc_config st)"
  let ?f = "\<lambda>s::quota_state. s\<lparr>qs_pending := usize_inc (qs_pending s)\<rparr>"
  have i: "I (sc_pending st)" "shelf_ok st" "books_ok ?m ?A ?W (sc_quotas st)" using inv by (simp_all add: scheduler_inv_def)
  have fr: "distinct (keys_for item)" "\<forall>q \<in> set (adm_quotas item). qt_max_active q \<le> USIZE_MAX"
    "adm_id item \<notin> fst ` set ?A" "adm_id item \<notin> fst ` set_mset ?W"
    using assms(3) by (simp_all add: fresh_request_def active_ids_def queued_ids_def)
  have size: "size ?W < MAX_PENDING_ADMISSIONS" using assms(2) by (simp add: queue_full_def size_waiting)
  then have few: "size ?W < USIZE_MAX" by (simp add: MAX_PENDING_ADMISSIONS_def USIZE_MAX_def)
  have nc: "\<forall>q \<in> set (adm_quotas item). \<not> quota_conflicts st q \<and> qt_max_active q \<le> USIZE_MAX"
    and st1: "st1 = fold register_quota (adm_quotas item) st"
    using assms(4) fr(2) by (auto simp: register_pending_quotas_def list_ex_iff split: if_splits)
  from fold_register_quota [OF i(2) nc fr(1), folded st1]
  have reg: "accounts_only st st1" "shelf_ok st1"
    "\<And>k. sc_quotas st k \<noteq> None \<or> k \<notin> qt_key ` set (adm_quotas item) \<Longrightarrow> sc_quotas st1 k = sc_quotas st k"
    "\<And>q. q \<in> set (adm_quotas item) \<Longrightarrow> \<exists>s. sc_quotas st1 (qt_key q) = Some s \<and>
       (sc_quotas st (qt_key q) = None \<longrightarrow> idle s) \<and> qs_identity s = qt_identity q \<and> qs_max_active s = qt_max_active q"
    by blast+
  from fold_update_quota [OF fr(1), of st1 ?f, folded await_quota_fold st2]
  have upd: "accounts_only st1 st2"
    "sc_quotas st2 = (\<lambda>k. if k \<in> set (keys_for item) then map_option ?f (sc_quotas st1 k) else sc_quotas st1 k)" by blast+
  have "shelf_ok st2" unfolding st2 await_quota_fold by (rule fold_update_shelf [OF fr(1) reg(2)])
  then have "shelf_ok st3" by (rule shelf_cong) (simp_all add: st3)
  moreover have frame: "sc_config st3 = sc_config st" "sc_active st3 = ?A" "sc_quotas st3 = sc_quotas st2"
    "sc_pending st3 = pq_push Q p item (sc_pending st)" "same_frame st st3"
    using reg(1) upd(1) by (simp_all add: st3 accounts_only_def same_frame_def)
  moreover have "books_ok ?m ?A (add_mset (demand_of item) ?W) (sc_quotas st2)"
    unfolding upd(2) demand_of_simps(4) [symmetric]
    by (rule books_await [OF i(3) _ _ _ few]) (use fr reg(3,4) in \<open>simp_all\<close>)
  ultimately show ?thesis using push_ok [OF i(1), of p item] waiting_push [OF i(1), of p item] size
    by (simp add: scheduler_inv_def active_ids_def queued_ids_def)
qed

lemma enqueue_ok:
  assumes inv: "scheduler_inv Q I st" "orderly Q st" "fresh_request Q st item" and e: "enqueue Q tn item st = (st', out)"
  shows "turn_ok Q I tn {adm_id item} st st' out"
proof (cases "sc_closing st \<or> queue_full Q (sc_pending st)")
  case True
  with e have "st' = st \<and> adm_id item \<in> answered out" by (auto simp: enqueue_def answered_def split: if_splits)
  with turn_unchanged(1) [OF inv(1,2)] show ?thesis by simp
next
  case open_: False
  show ?thesis
  proof (cases "register_pending_quotas (adm_quotas item) st")
    case None
    with open_ e have "st' = count_rejected st \<and> adm_id item \<in> answered out" by (auto simp: enqueue_def answered_def)
    with turn_unchanged(2) [OF inv(1,2)] show ?thesis by simp
  next
    case (Some st1)
    define st2 where "st2 = fold await_quota (keys_for item) st1"
    define st3 where "st3 = st2\<lparr>sc_pending := pq_push Q (adm_effective_priority item) item (sc_pending st2)\<rparr>"
    have d: "dispatch Q tn st3 = (st', out)" using open_ Some e by (simp add: enqueue_def Let_def st2_def st3_def)
    from open_ have "\<not> queue_full Q (sc_pending st)" by simp
    from enqueue_books [OF inv(1) this inv(3) Some st2_def st3_def]
    have b: "scheduler_inv Q I st3" "same_frame st st3" "active_ids st3 = active_ids st"
      "queued_ids Q st3 = insert (adm_id item) (queued_ids Q st)" by blast+
    from dispatch_ok [OF b(1) d] open_ b(2)
    have r: "scheduler_inv Q I st'" "dispatched Q tn st3 st' out" "\<forall>d \<in># waiting Q (sc_pending st'). \<not> admits st' d"
      by (simp_all add: same_frame_def)
    have "\<not> sc_closing st'" "sc_shutdown_waiters st' = []" "sc_config st' = sc_config st"
      using r(2) b(2) inv(2) open_ by (auto simp: dispatched_def same_frame_def orderly_def)
    then have "orderly Q st'" using r(3) by (simp add: orderly_def)
    with r b \<open>sc_config st' = sc_config st\<close> granted_answered [of out] show ?thesis
      by (auto simp: turn_ok_def dispatched_def)
  qed
qed

subsection \<open>Releasing\<close>

lemma remove_pending_waiting:
  assumes "scheduler_inv Q I st" "remove_pending Q i (sc_pending st) = (removed, q)"
  shows "I q \<and> (case removed of None \<Rightarrow> waiting Q q = waiting Q (sc_pending st)
    | Some v \<Rightarrow> adm_id v = i \<and> waiting Q (sc_pending st) = add_mset (demand_of v) (waiting Q q))"
proof -
  let ?es = "pq_ordered Q (sc_pending st)"
  have I: "I (sc_pending st)" using assms(1) by (simp add: scheduler_inv_def)
  note r = remove_pending_ok [OF I assms(2)]
  have split: "waiting Q (sc_pending st) =
      image_mset (\<lambda>e. demand_of (en_value e)) {#e \<in># mset ?es. adm_id (en_value e) = i#} + waiting Q q"
    using r multiset_partition [of "mset ?es" "\<lambda>e. adm_id (en_value e) = i"]
    by (simp add: waiting_def flip: image_mset_union)
  show ?thesis
  proof (cases removed)
    case None
    with r split show ?thesis by (simp add: filter_False)
  next
    case (Some v)
    with r obtain e where e: "e \<in> set ?es" "en_value e = v" "adm_id v = i" by auto
    let ?M = "{#e \<in># mset ?es. adm_id (en_value e) = i#}"
    have "e \<in># ?M" using e by simp
    then obtain M where M: "?M = add_mset e M" by (blast dest: multi_member_split)
    have "M = {#}"
    proof (rule ccontr)
      assume "M \<noteq> {#}"
      then obtain e' M' where "M = add_mset e' M'" by (cases M) auto
      then have M': "?M = add_mset e (add_mset e' M')" using M by simp
      then have "e' \<in># ?M" by simp
      then have "adm_id (en_value e') = i" by simp
      then have "Suc 0 < count (image_mset fst (waiting Q (sc_pending st))) i"
        using e unfolding split M' by simp
      moreover have "count (image_mset fst (waiting Q (sc_pending st))) i \<le> 1"
        using assms(1) unfolding scheduler_inv_def books_ok_def ids_ok_def by blast
      ultimately show False by simp
    qed
    with split M e r Some show ?thesis by simp
  qed
qed

lemma finish_shutdown_ok:
  assumes "finish_shutdown_if_idle st = (st', out)"
  shows "st' = st\<lparr>sc_shutdown_waiters := if sc_closing st \<and> sc_active st = [] then [] else sc_shutdown_waiters st\<rparr> \<and>
    answered out = {}"
  using assms by (auto simp: finish_shutdown_if_idle_def answered_def split: if_splits)

lemma release_stage_ok:
  assumes inv: "scheduler_inv Q I st" and r: "release_stage Q i st = (st', out)"
  shows "scheduler_inv Q I st' \<and> same_frame st st' \<and> active_ids st' \<subseteq> active_ids st \<and>
    queued_ids Q st' \<subseteq> queued_ids Q st \<and> queued_ids Q st \<subseteq> queued_ids Q st' \<union> answered out"
proof (cases "map_of (sc_active st) i")
  case (Some a)
  let ?f = "\<lambda>s::quota_state. s\<lparr>qs_active := qs_active s - 1, qs_released := u64_add (qs_released s) 1\<rparr>"
  let ?s1 = "remove_active i st\<lparr>sc_counters := (sc_counters st)\<lparr>ct_released := u64_add (ct_released (sc_counters st)) 1\<rparr>\<rparr>"
  have st': "st' = fold (settle_quota ?f) (aa_quota_identities a) ?s1" "out = []"
    using r Some by (simp_all add: release_stage_def release_active_quotas_def)
  have i: "shelf_ok st" "books_ok (cfg_max_active (sc_config st)) (sc_active st) (waiting Q (sc_pending st)) (sc_quotas st)"
    using inv by (simp_all add: scheduler_inv_def)
  have "shelf_ok ?s1" by (rule shelf_cong [OF i(1)]) (simp_all add: remove_active_def)
  then have "accounts_only ?s1 st' \<and> shelf_ok st' \<and>
      books_ok (cfg_max_active (sc_config st)) (sc_active st') (waiting Q (sc_pending st)) (sc_quotas st')"
    by (rule settle_active_ok [OF _ _ _ _ _ Some _ st'(1), rotated 3])
      (use i(2) in \<open>simp_all add: keeps_limits_def remove_active_def\<close>)
  then have "accounts_only ?s1 st'" "shelf_ok st'"
      "books_ok (cfg_max_active (sc_config st)) (sc_active st') (waiting Q (sc_pending st)) (sc_quotas st')" by blast+
  moreover have "fst ` set (sc_active ?s1) \<subseteq> fst ` set (sc_active st)" by (auto simp: remove_active_def)
  ultimately show ?thesis using inv st'(2)
    by (simp add: scheduler_inv_def accounts_only_def same_frame_def active_ids_def queued_ids_def remove_active_def)
next
  case None
  obtain removed q where q: "remove_pending Q i (sc_pending st) = (removed, q)" by fastforce
  note p = remove_pending_waiting [OF inv q]
  let ?s1 = "st\<lparr>sc_pending := q\<rparr>"
  have shelf: "shelf_ok ?s1" using inv by (simp add: scheduler_inv_def shelf_ok_def)
  show ?thesis
  proof (cases removed)
    case removed_None: None
    with r None q have "st' = ?s1" "out = []" by (simp_all add: release_stage_def)
    with p removed_None inv shelf show ?thesis
      by (simp add: scheduler_inv_def same_frame_def active_ids_def queued_ids_def)
  next
    case (Some v)
    let ?f = "\<lambda>s::quota_state. s\<lparr>qs_pending := qs_pending s - 1, qs_cancelled := u64_add (qs_cancelled s) 1\<rparr>"
    let ?s2 = "count_cancelled ?s1" and ?m = "cfg_max_active (sc_config st)"
    have st': "st' = fold (settle_quota ?f) (keys_for v) ?s2" "out = [Ready i (Some Cancelled)]"
      using r None q Some p by (simp_all add: release_stage_def cancel_pending_def)
    have W: "waiting Q (sc_pending st) = add_mset (demand_of v) (waiting Q q)" "adm_id v = i" using p Some by simp_all
    have "shelf_ok ?s2" by (rule shelf_cong [OF shelf]) simp_all
    then have "accounts_only ?s2 st' \<and> shelf_ok st' \<and> books_ok ?m (sc_active st') (waiting Q q) (sc_quotas st')"
      by (rule settle_waiting_ok [OF _ _ _ _ _ st'(1), rotated 3])
        (use inv W(1) in \<open>simp_all add: keeps_limits_def scheduler_inv_def\<close>)
    then have "accounts_only ?s2 st'" "shelf_ok st'" "books_ok ?m (sc_active st') (waiting Q q) (sc_quotas st')" by blast+
    with inv W p st'(2) show ?thesis
      by (auto simp: scheduler_inv_def accounts_only_def same_frame_def active_ids_def queued_ids_def)
  qed
qed

lemma release_ok:
  assumes inv: "scheduler_inv Q I st" "orderly Q st" and r: "release Q tn i st = (st', out)"
  shows "turn_ok Q I tn {} st st' out"
proof -
  obtain st1 out1 where s1: "release_stage Q i st = (st1, out1)" by fastforce
  obtain st2 out2 where s2: "dispatch Q tn st1 = (st2, out2)" by fastforce
  obtain out3 where s3: "finish_shutdown_if_idle st2 = (st', out3)" "out = out1 @ out2 @ out3"
    using r s1 s2 by (auto simp: release_def split: prod.splits)
  from release_stage_ok [OF inv(1) s1] have a: "scheduler_inv Q I st1" "same_frame st st1"
    "active_ids st1 \<subseteq> active_ids st" "queued_ids Q st1 \<subseteq> queued_ids Q st"
    "queued_ids Q st \<subseteq> queued_ids Q st1 \<union> answered out1" by blast+
  from dispatch_ok [OF a(1) s2] have b: "scheduler_inv Q I st2" "dispatched Q tn st1 st2 out2"
    "if sc_closing st1 then st2 = st1 else \<forall>d \<in># waiting Q (sc_pending st2). \<not> admits st2 d" by blast+
  from finish_shutdown_ok [OF s3(1)] have c: "st' = st2\<lparr>sc_shutdown_waiters :=
      if sc_closing st2 \<and> sc_active st2 = [] then [] else sc_shutdown_waiters st2\<rparr>" "answered out3 = {}" by blast+
  have core: "scheduler_inv Q I st' = scheduler_inv Q I st2" "admits st' = admits st2"
    "active_ids st' = active_ids st2" "queued_ids Q st' = queued_ids Q st2"
    by (rule same_core; simp add: c(1))+
  have frame: "sc_closing st' = sc_closing st" "sc_closing st1 = sc_closing st" "sc_config st' = sc_config st"
    "sc_shutdown_waiters st2 = sc_shutdown_waiters st" "sc_closing st2 = sc_closing st"
    using a(2) b(2) by (simp_all add: dispatched_def same_frame_def c(1))
  have "orderly Q st'"
  proof (cases "sc_closing st")
    case True
    with inv(2) have "queued_ids Q st = {}" by (simp add: orderly_def queued_ids_empty)
    with a(4) b(3) True frame have "queued_ids Q st' = {}" using core(4) by auto
    with True frame show ?thesis unfolding queued_ids_empty by (simp add: orderly_def c(1))
  next
    case False
    with inv(2) have "sc_shutdown_waiters st = []" by (simp add: orderly_def)
    with False b(3) frame core(2) show ?thesis by (simp add: orderly_def c(1))
  qed
  with core b(1) frame(3) a b(2) c(2) s3(2) granted_answered [of out2] show ?thesis
    unfolding turn_ok_def dispatched_def by auto
qed

subsection \<open>Shutting down\<close>

lemma reject_items:
  assumes "shelf_ok st" "books_ok m (sc_active st) (image_mset demand_of (mset vs) + W) (sc_quotas st)"
  shows "accounts_only st (fold reject_item vs st) \<and> shelf_ok (fold reject_item vs st) \<and>
    books_ok m (sc_active st) W (sc_quotas (fold reject_item vs st))"
  using assms
proof (induction vs arbitrary: st)
  case (Cons v vs)
  let ?f = "\<lambda>s::quota_state. s\<lparr>qs_pending := qs_pending s - 1, qs_rejected := u64_add (qs_rejected s) 1\<rparr>"
  let ?st = "reject_item v st"
  have st: "?st = fold (settle_quota ?f) (keys_for v) (count_rejected st)"
    by (simp add: reject_item_def reject_pending_quotas_def)
  have "shelf_ok (count_rejected st)" by (rule shelf_cong [OF Cons.prems(1)]) simp_all
  then have "accounts_only (count_rejected st) ?st \<and> shelf_ok ?st \<and>
      books_ok m (sc_active ?st) (image_mset demand_of (mset vs) + W) (sc_quotas ?st)"
    by (rule settle_waiting_ok [OF _ _ _ _ _ st, rotated 3])
      (use Cons.prems(2) in \<open>simp_all add: keeps_limits_def\<close>)
  then have one: "accounts_only (count_rejected st) ?st" "shelf_ok ?st"
    "books_ok m (sc_active ?st) (image_mset demand_of (mset vs) + W) (sc_quotas ?st)" by blast+
  have fr: "accounts_only st ?st" using one(1) by (simp add: accounts_only_def)
  from Cons.IH [OF one(2,3)] accounts_only_trans [OF fr] fr show ?case by (simp add: accounts_only_def)
qed simp

lemma shutdown_ok:
  assumes inv: "scheduler_inv Q I st" "orderly Q st" and r: "shutdown_actor Q w st = (st', out)"
  shows "turn_ok Q I tn {} st st' out"
proof -
  have I: "I (sc_pending st)" using inv(1) by (simp add: scheduler_inv_def)
  from drain_ordered [OF I] obtain q where
    q: "drain Q (sc_pending st) = (pq_ordered Q (sc_pending st), q)" "I q" "pq_ordered Q q = []" by blast
  let ?vs = "map en_value (pq_ordered Q (sc_pending st))"
  define st1 where "st1 = st\<lparr>sc_closing := True, sc_pending := q\<rparr>"
  define st2 where "st2 = fold reject_item ?vs st1"
  define st3 where "st3 = st2\<lparr>sc_shutdown_waiters := sc_shutdown_waiters st2 @ [w]\<rparr>"
  obtain out3 where s: "finish_shutdown_if_idle st3 = (st', out3)"
    "out = map (\<lambda>item. Ready (adm_id item) (Some Closed)) ?vs @ out3"
    using r q(1) by (auto simp: shutdown_actor_def st1_def st2_def st3_def Let_def split: prod.splits)
  from finish_shutdown_ok [OF s(1)] have c: "st' = st3\<lparr>sc_shutdown_waiters :=
      if sc_closing st3 \<and> sc_active st3 = [] then [] else sc_shutdown_waiters st3\<rparr>" "answered out3 = {}" by blast+
  have W: "waiting Q (sc_pending st) = image_mset demand_of (mset ?vs) + {#}"
    by (simp add: waiting_def image_mset.compositionality comp_def)
  have "shelf_ok st1" using inv(1) by (simp add: scheduler_inv_def shelf_ok_def st1_def)
  moreover have "books_ok (cfg_max_active (sc_config st)) (sc_active st1) (image_mset demand_of (mset ?vs) + {#}) (sc_quotas st1)"
    using inv(1) unfolding W [symmetric] by (simp add: scheduler_inv_def st1_def)
  ultimately have b: "accounts_only st1 st2" "shelf_ok st2"
    "books_ok (cfg_max_active (sc_config st)) (sc_active st1) {#} (sc_quotas st2)"
    using reject_items [of st1 _ ?vs "{#}"] by (simp_all add: st2_def)
  have empty: "waiting Q q = {#}" using q(3) by (simp add: waiting_def)
  have frame: "sc_config st' = sc_config st" "sc_pending st' = q" "sc_active st' = sc_active st" "sc_closing st'"
    "sc_quotas st' = sc_quotas st2" "sc_active st3 = sc_active st" "sc_closing st3"
    using b(1) by (simp_all add: c(1) st3_def st1_def accounts_only_def)
  have "shelf_ok st'" by (rule shelf_cong [OF b(2)]) (simp_all add: c(1) st3_def)
  then have "scheduler_inv Q I st'" using b(3) frame q(2) empty by (simp add: scheduler_inv_def st1_def)
  moreover have "orderly Q st'" using frame empty by (simp add: orderly_def c(1))
  moreover have "queued_ids Q st \<subseteq> answered out"
    by (simp add: queued_ids_def W s(2) image_image answered_map del: map_map)
  ultimately show ?thesis using frame empty by (auto simp: turn_ok_def active_ids_def queued_ids_def)
qed

end

subsection \<open>One message\<close>

fun message_ids :: "message \<Rightarrow> nat set" where
  "message_ids (Enqueue item) = {adm_id item}"
| "message_ids m = {}"

fun message_ok :: "'q queue_ops \<Rightarrow> 'q scheduler \<Rightarrow> message \<Rightarrow> bool" where
  "message_ok Q st (Enqueue item) = fresh_request Q st item"
| "message_ok Q st m = True"

context priority_queue begin

lemma handle_ok:
  assumes inv: "scheduler_inv Q I st" "orderly Q st" and m: "message_ok Q st m" and h: "handle Q tn m st = (st', out)"
  shows "turn_ok Q I tn (message_ids m) st st' out"
proof (cases m)
  case (Enqueue item)
  with enqueue_ok [OF inv] m h show ?thesis by simp
next
  case (Release i)
  with release_ok [OF inv] h show ?thesis by simp
next
  case Health
  let ?st = "apply_aging Q (tn_now tn) st"
  from apply_aging_inv [OF inv(1), of "tn_now tn" tn] have a: "scheduler_inv Q I ?st" "dispatched Q tn st ?st []"
    "admits ?st = admits st" "waiting Q (sc_pending ?st) = waiting Q (sc_pending st)" "sc_active ?st = sc_active st" by blast+
  then have "orderly Q ?st" "queued_ids Q ?st = queued_ids Q st"
    using inv(2) by (auto simp: orderly_def dispatched_def same_frame_def queued_ids_def)
  with a Health h show ?thesis by (auto simp: turn_ok_def dispatched_def same_frame_def)
next
  case (Shutdown w)
  with shutdown_ok [OF inv] h show ?thesis by simp
qed (use turn_unchanged(1) [OF inv] h in simp_all)

end

subsection \<open>Clients and actor\<close>

fun requests :: "message list \<Rightarrow> admission list" where
  "requests [] = []"
| "requests (Enqueue item # ms) = item # requests ms"
| "requests (m # ms) = requests ms"

lemma requests_append [simp]: "requests (xs @ ys) = requests xs @ requests ys"
  by (induction xs rule: requests.induct) simp_all

definition system_ok :: "'q queue_ops \<Rightarrow> ('q \<Rightarrow> bool) \<Rightarrow> scheduler_config \<Rightarrow> 'q system \<Rightarrow> bool" where
  "system_ok Q I config sy \<longleftrightarrow> scheduler_inv Q I (sy_actor sy) \<and> orderly Q (sy_actor sy) \<and>
     sc_config (sy_actor sy) = config \<and> distinct (map adm_id (requests (sy_rx sy))) \<and>
     (\<forall>item \<in> set (requests (sy_rx sy)). fresh_request Q (sy_actor sy) item \<and> adm_id item < sy_next_id sy) \<and>
     (\<forall>i \<in> active_ids (sy_actor sy) \<union> queued_ids Q (sy_actor sy). i < sy_next_id sy)"

lemma fresh_request_mono:
  "fresh_request Q st item \<Longrightarrow> active_ids st' \<union> queued_ids Q st' \<subseteq> active_ids st \<union> queued_ids Q st \<union> X \<Longrightarrow>
     adm_id item \<notin> X \<Longrightarrow> fresh_request Q st' item"
  by (auto simp: fresh_request_def)

text \<open>The message that is taken off the channels, and what is left.\<close>

lemma next_message_cases:
  assumes "next_message sy = Some (m, sy')"
  shows "sy_actor sy' = sy_actor sy \<and> sy_next_id sy' = sy_next_id sy \<and>
    ((\<exists>ms. sy_rx sy = m # ms \<and> sy_rx sy' = ms) \<or> (sy_rx sy' = sy_rx sy \<and> message_ids m = {} \<and> (\<forall>Q st. message_ok Q st m)))"
  using assms by (auto simp: next_message_def split: list.splits)

context priority_queue begin

lemma system_start: "system_ok Q I config (system_new Q config)"
proof -
  have W: "waiting Q (pq_new Q) = {#}" using new_ok(2) by (simp add: waiting_def)
  have "books_ok (cfg_max_active config) [] {#} Map.empty"
    by (simp add: books_ok_def key_ok_def ids_ok_def n_global_def n_pending_def)
  then show ?thesis using new_ok(1) W
    by (simp add: system_ok_def system_new_def scheduler_new_def scheduler_inv_def shelf_ok_def orderly_def
      active_ids_def queued_ids_def)
qed

lemma next_message_ok:
  assumes ok: "system_ok Q I config sy" and m: "next_message sy = Some (m, sy')"
  shows "message_ok Q (sy_actor sy) m \<and> (\<forall>i \<in> message_ids m. i < sy_next_id sy) \<and>
    set (requests (sy_rx sy')) \<subseteq> set (requests (sy_rx sy)) \<and> distinct (map adm_id (requests (sy_rx sy'))) \<and>
    (\<forall>item \<in> set (requests (sy_rx sy')). adm_id item \<notin> message_ids m)"
proof -
  have o: "distinct (map adm_id (requests (sy_rx sy)))"
    "\<forall>item \<in> set (requests (sy_rx sy)). fresh_request Q (sy_actor sy) item \<and> adm_id item < sy_next_id sy"
    using ok by (simp_all add: system_ok_def)
  from next_message_cases [OF m] consider (head) ms where "sy_rx sy = m # ms" "sy_rx sy' = ms"
    | (other) "sy_rx sy' = sy_rx sy" "message_ids m = {}" "message_ok Q (sy_actor sy) m" by blast
  then show ?thesis
  proof cases
    case head
    with o show ?thesis by (cases m) (auto simp: image_iff)
  next
    case other
    with o show ?thesis by simp
  qed
qed

lemma actor_turn_ok:
  assumes ok: "system_ok Q I config sy" and t: "actor_turn Q tn sy = Some sy'"
  shows "system_ok Q I config sy' \<and> (\<exists>X out. turn_ok Q I tn X (sy_actor sy) (sy_actor sy') out \<and>
    sy_sent sy' = sy_sent sy @ out)"
proof -
  obtain m sy1 where m: "next_message sy = Some (m, sy1)" using t by (auto simp: actor_turn_def split: if_splits option.splits)
  obtain st out where h: "handle Q tn m (sy_actor sy1) = (st, out)" by fastforce
  note n = next_message_cases [OF m]
  have sent: "sy_sent sy1 = sy_sent sy" using m by (auto simp: next_message_def split: list.splits)
  have sy': "sy_actor sy' = st" "sy_rx sy' = sy_rx sy1" "sy_next_id sy' = sy_next_id sy" "sy_sent sy' = sy_sent sy @ out"
    using t m h n sent by (auto simp: actor_turn_def Let_def split: if_splits)
  have o: "scheduler_inv Q I (sy_actor sy)" "orderly Q (sy_actor sy)" "sc_config (sy_actor sy) = config"
    "distinct (map adm_id (requests (sy_rx sy)))"
    "\<forall>item \<in> set (requests (sy_rx sy)). fresh_request Q (sy_actor sy) item \<and> adm_id item < sy_next_id sy"
    "\<forall>i \<in> active_ids (sy_actor sy) \<union> queued_ids Q (sy_actor sy). i < sy_next_id sy"
    using ok by (simp_all add: system_ok_def)
  note mok = next_message_ok [OF ok m]
  have tk: "turn_ok Q I tn (message_ids m) (sy_actor sy) st out" 
    using handle_ok [OF o(1,2) conjunct1 [OF mok] h [unfolded conjunct1 [OF n]]] .
  then have sub: "active_ids st \<union> queued_ids Q st \<subseteq> active_ids (sy_actor sy) \<union> queued_ids Q (sy_actor sy) \<union> message_ids m"
    by (simp only: turn_ok_def)
  have "fresh_request Q st item \<and> adm_id item < sy_next_id sy" if "item \<in> set (requests (sy_rx sy1))" for item
  proof -
    have "fresh_request Q (sy_actor sy) item" "adm_id item < sy_next_id sy" "adm_id item \<notin> message_ids m"
      using that o(5) mok by auto
    with fresh_request_mono [OF _ sub] show ?thesis by simp
  qed
  moreover have "\<forall>i \<in> active_ids st \<union> queued_ids Q st. i < sy_next_id sy" using sub o(6) mok by blast
  moreover have "scheduler_inv Q I st" "orderly Q st" "sc_config st = config" using tk o(3) by (simp_all add: turn_ok_def)
  ultimately have "system_ok Q I config sy'" using sy' mok by (simp add: system_ok_def)
  with tk sy' show ?thesis by blast
qed

lemma system_step_ok: "system_step Q sy sy' \<Longrightarrow> system_ok Q I config sy \<Longrightarrow> system_ok Q I config sy'"
proof (induction rule: system_step.induct)
  case (send r sy now)
  let ?item = "new_admission (sy_next_id sy) now r"
  have "distinct (keys_for ?item)" using send(1) by (simp add: request_error_def new_admission_def split: if_splits)
  moreover have "sy_next_id sy \<notin> active_ids (sy_actor sy) \<union> queued_ids Q (sy_actor sy)"
    using send(4) by (auto simp: system_ok_def)
  ultimately have fresh: "fresh_request Q (sy_actor sy) ?item"
    using send(2) by (simp add: fresh_request_def new_admission_def)
  have "adm_id ?item \<notin> adm_id ` set (requests (sy_rx sy))"
    using send(4) by (auto simp: system_ok_def new_admission_def)
  with send(4) fresh show ?case
    by (auto simp: system_ok_def acquire_send_def post_message_def new_admission_def intro: less_SucI)
next
  case (observe m sy)
  then have "requests [m] = []" by auto
  with observe(4) show ?case by (simp add: system_ok_def post_message_def)
next
  case (actor tn sy sy')
  from actor_turn_ok [OF actor(2,1)] show ?case by blast
qed (simp_all add: system_ok_def lease_drop_def client_shutdown_def)

lemma reachable_ok: "reachable Q config sy \<Longrightarrow> system_ok Q I config sy"
proof (induction rule: reachable.induct)
  case start
  show ?case by (rule system_start)
next
  case (step sy sy')
  then show ?case by (blast intro: system_step_ok)
qed

end

end
