(* ===== verification/SchedulerProperties.thy ===== *)
theory SchedulerProperties
  imports SchedulerTurns
begin

section \<open>Properties of the task scheduler\<close>

text \<open>
  What holds in every reachable state of clients and actor, for every queue that satisfies the laws of
  \<open>priority_queue\<close>: capacity and quotas are respected and exactly accounted, no capacity is left unused
  while a request could take it, no request is forgotten, a shutdown ends.  The examples run the model on
  a sorted list with two global slots and a quota of one that two requests share.
\<close>

subsection \<open>Facts of a reachable state\<close>

lemma reachable_books:
  assumes "priority_queue Q I" "reachable Q config sy"
  shows "books_ok (cfg_max_active config) (sc_active (sy_actor sy)) (waiting Q (sc_pending (sy_actor sy)))
    (sc_quotas (sy_actor sy))" "size (waiting Q (sc_pending (sy_actor sy))) \<le> MAX_PENDING_ADMISSIONS"
    "shelf_ok (sy_actor sy)" "orderly Q (sy_actor sy)" "sc_config (sy_actor sy) = config" "I (sc_pending (sy_actor sy))"
  using priority_queue.reachable_ok [OF assms] unfolding system_ok_def scheduler_inv_def by auto

lemma n_pending_waiting:
  "n_pending k (waiting Q q) =
     length (filter (\<lambda>e. k \<in> set (keys_for (en_value e))) (pq_ordered Q q))"
  by (simp add: n_pending_def waiting_def filter_mset_image_mset flip: mset_filter)

subsection \<open>An example run\<close>

definition demo_config :: scheduler_config where
  "demo_config = \<lparr>cfg_max_active = 2, cfg_aging_interval_ms = 2\<rparr>"

definition demo_quota :: quota where
  "demo_quota = \<lparr>qt_identity = \<lparr>idt_schema = EXECUTION_IDENTITY_SCHEMA_V1, idt_domain = ''tenant'',
     idt_digest = ''sha256:'' @ replicate 64 CHR ''a''\<rparr>, qt_max_active = 1\<rparr>"

definition demo_request :: request where
  "demo_request = \<lparr>rq_priority = Background, rq_label = ''task'', rq_quotas = [demo_quota],
     rq_identity = None, rq_global_slot = True\<rparr>"

definition demo_turn :: turn where
  "demo_turn = \<lparr>tn_now = 9, tn_clock = (\<lambda>_. 9), tn_gone = (\<lambda>_. False)\<rparr>"

abbreviation send_demo :: "'q system \<Rightarrow> 'q system" where
  "send_demo \<equiv> acquire_send 0 demo_request"

definition turn_demo :: "(nat \<times> entry list) system \<Rightarrow> (nat \<times> entry list) system" where
  "turn_demo sy = the (actor_turn list_queue demo_turn sy)"

definition demo_waiting :: "(nat \<times> entry list) system" where
  "demo_waiting = turn_demo (turn_demo (send_demo (send_demo (system_new list_queue demo_config))))"

definition demo_closed :: "(nat \<times> entry list) system" where
  "demo_closed = turn_demo (client_shutdown 7 demo_waiting)"

lemma demo_request_ok: "request_error False False demo_request = None" "\<forall>q \<in> set (rq_quotas demo_request). qt_max_active q \<le> USIZE_MAX"
proof -
  show "request_error False False demo_request = None" by code_simp
  show "\<forall>q \<in> set (rq_quotas demo_request). qt_max_active q \<le> USIZE_MAX"
    by (simp add: demo_request_def demo_quota_def USIZE_MAX_def)
qed

lemma reachable_send:
  "reachable Q config sy \<Longrightarrow> length (sy_rx sy) < ADMISSION_CHANNEL_CAPACITY \<Longrightarrow> reachable Q config (send_demo sy)"
  by (rule reachable.step [OF _ system_step.send [OF demo_request_ok]])

lemma reachable_turn:
  "reachable list_queue config sy \<Longrightarrow> actor_turn list_queue demo_turn sy \<noteq> None \<Longrightarrow> reachable list_queue config (turn_demo sy)"
  unfolding turn_demo_def by (erule reachable.step, rule system_step.actor) auto

lemma demo_waiting_reachable: "reachable list_queue demo_config demo_waiting"
  unfolding demo_waiting_def
proof (intro reachable_turn reachable_send reachable.start)
  show "config_validate demo_config" by code_simp
  show "length (sy_rx (system_new list_queue demo_config)) < ADMISSION_CHANNEL_CAPACITY"
    "length (sy_rx (send_demo (system_new list_queue demo_config))) < ADMISSION_CHANNEL_CAPACITY"
    by (simp_all add: acquire_send_def post_message_def system_new_def ADMISSION_CHANNEL_CAPACITY_def)
  show "actor_turn list_queue demo_turn (send_demo (send_demo (system_new list_queue demo_config))) \<noteq> None" by code_simp
  show "actor_turn list_queue demo_turn (turn_demo (send_demo (send_demo (system_new list_queue demo_config)))) \<noteq> None"
    by code_simp
qed

definition demo_drained :: "(nat \<times> entry list) system" where
  "demo_drained = turn_demo (lease_drop 1 demo_closed)"

lemma demo_closing_reachable: "reachable list_queue demo_config (client_shutdown 7 demo_waiting)"
  by (rule reachable.step [OF demo_waiting_reachable system_step.request_shutdown])

lemma demo_closing_turn: "actor_turn list_queue demo_turn (client_shutdown 7 demo_waiting) = Some demo_closed"
proof -
  have "actor_turn list_queue demo_turn (client_shutdown 7 demo_waiting) \<noteq> None" by code_simp
  then show ?thesis by (auto simp: demo_closed_def turn_demo_def)
qed

lemma demo_closed_reachable: "reachable list_queue demo_config demo_closed"
  by (rule reachable.step [OF demo_closing_reachable system_step.actor [OF demo_closing_turn]])

lemma demo_drained_reachable: "reachable list_queue demo_config demo_drained"
  unfolding demo_drained_def
proof (rule reachable_turn [OF reachable.step [OF demo_closed_reachable system_step.drop_lease]])
  show "1 < sy_next_id demo_closed" by code_simp
  show "actor_turn list_queue demo_turn (lease_drop 1 demo_closed) \<noteq> None" by code_simp
qed

subsection \<open>Limits and accounts\<close>

text \<open>C14. In every reachable state the admitted requests that take a global slot are at most \<open>max_active\<close>,
  the waiting ones at most the bound of the queue, and the retained health records at most 64 and only of
  quotas that are not live.\<close>

theorem scheduler_stays_within_bounds:
  assumes "priority_queue Q I" "reachable Q config sy"
  shows "global_active_count (sy_actor sy) \<le> cfg_max_active config \<and>
    pq_len Q (sc_pending (sy_actor sy)) \<le> MAX_PENDING_ADMISSIONS \<and>
    length (sc_retained_quota_order (sy_actor sy)) \<le> TASK_SCHEDULER_QUOTA_HEALTH_RETENTION \<and>
    dom (sc_retained_quota_health (sy_actor sy)) = set (sc_retained_quota_order (sy_actor sy)) \<and>
    dom (sc_retained_quota_health (sy_actor sy)) \<inter> dom (sc_quotas (sy_actor sy)) = {}"
proof -
  have "shelf_ok (sy_actor sy)" by (rule reachable_books(3) [OF assms])
  then have "length (sc_retained_quota_order (sy_actor sy)) \<le> TASK_SCHEDULER_QUOTA_HEALTH_RETENTION"
    "dom (sc_retained_quota_health (sy_actor sy)) = set (sc_retained_quota_order (sy_actor sy))"
    "dom (sc_retained_quota_health (sy_actor sy)) \<inter> dom (sc_quotas (sy_actor sy)) = {}"
    by (auto simp: shelf_ok_def dom_def)
  with reachable_books(1,2) [OF assms] show ?thesis
    by (simp add: global_active_count_eq size_waiting books_ok_def)
qed

theorem scheduler_stays_within_bounds_witness:
  "global_active_count (sy_actor demo_waiting) = 1 \<and> global_active_count (sy_actor demo_waiting) \<le> 2"
proof -
  have "global_active_count (sy_actor demo_waiting) = 1" by code_simp
  with scheduler_stays_within_bounds [OF list_queue.priority_queue_axioms demo_waiting_reachable]
  show ?thesis by (simp add: demo_config_def)
qed

text \<open>C11. In every reachable state the account of every quota is exact: a live quota counts the admitted and
  the waiting requests that carry it, has at least one of them and admits no more than its limit; a quota
  that is not live is carried by nobody.  So no release, cancellation or rejection is counted twice or
  forgotten, in whatever order the messages of clients arrive.\<close>

theorem quota_accounts_are_exact:
  assumes "priority_queue Q I" "reachable Q config sy"
  shows "case sc_quotas (sy_actor sy) k of
      None \<Rightarrow> (\<forall>(i, a) \<in> set (sc_active (sy_actor sy)). k \<notin> set (aa_quota_identities a)) \<and>
        (\<forall>e \<in> set (pq_ordered Q (sc_pending (sy_actor sy))). k \<notin> set (map qt_key (adm_quotas (en_value e))))
    | Some s \<Rightarrow>
        qs_active s = length (filter (\<lambda>(i, a). k \<in> set (aa_quota_identities a)) (sc_active (sy_actor sy))) \<and>
        qs_pending s = length (filter (\<lambda>e. k \<in> set (map qt_key (adm_quotas (en_value e))))
          (pq_ordered Q (sc_pending (sy_actor sy)))) \<and>
        qs_active s \<le> qs_max_active s \<and> 0 < qs_active s + qs_pending s"
proof -
  have key: "key_ok (sc_active (sy_actor sy)) (waiting Q (sc_pending (sy_actor sy))) k (sc_quotas (sy_actor sy) k)"
    using reachable_books(1) [OF assms] by (simp add: books_ok_def)
  show ?thesis
  proof (cases "sc_quotas (sy_actor sy) k")
    case None
    with key have n: "n_active k (sc_active (sy_actor sy)) = 0" "n_pending k (waiting Q (sc_pending (sy_actor sy))) = 0"
      by (simp_all add: key_ok_def)
    from n(2) have "\<forall>e \<in> set (pq_ordered Q (sc_pending (sy_actor sy))). k \<notin> set (keys_for (en_value e))"
      unfolding n_pending_waiting by (simp only: length_0_conv filter_empty_conv)
    with n(1) None show ?thesis by (auto simp: n_active_def filter_empty_conv)
  next
    case (Some s)
    with key have s: "qs_active s = n_active k (sc_active (sy_actor sy))"
      "qs_pending s = n_pending k (waiting Q (sc_pending (sy_actor sy)))" "qs_active s \<le> qs_max_active s"
      "0 < qs_active s + qs_pending s" by (auto simp: key_ok_def idle_def)
    from s(1,2) s(3,4) show ?thesis unfolding Some option.case n_active_def n_pending_waiting by blast
  qed
qed

theorem quota_accounts_are_exact_witness:
  "\<exists>s. sc_quotas (sy_actor demo_waiting) (qt_key demo_quota) = Some s \<and> qs_active s = 1 \<and> qs_pending s = 1 \<and>
     qs_active s \<le> qs_max_active s"
proof -
  let ?k = "qt_key demo_quota"
  have n: "length (filter (\<lambda>(i, a). ?k \<in> set (aa_quota_identities a)) (sc_active (sy_actor demo_waiting))) = 1"
    "length (filter (\<lambda>e. ?k \<in> set (map qt_key (adm_quotas (en_value e))))
       (pq_ordered list_queue (sc_pending (sy_actor demo_waiting)))) = 1" by code_simp+
  have "sc_quotas (sy_actor demo_waiting) ?k \<noteq> None" by code_simp
  then obtain s where s: "sc_quotas (sy_actor demo_waiting) ?k = Some s" by blast
  show ?thesis
    using quota_accounts_are_exact [OF list_queue.priority_queue_axioms demo_waiting_reachable, of ?k]
    unfolding s option.case n by blast
qed

text \<open>
  The counter of rejections is documented as the requests turned away because the scheduler was closing;
  a request that arrives while it closes is not counted, and one with a conflicting quota is.
\<close>

lemma rejections_counted:
  "sc_closing st \<Longrightarrow> enqueue Q tn item st = (st, [Ready (adm_id item) (Some Closed)])"
  "\<not> sc_closing st \<Longrightarrow> \<not> queue_full Q (sc_pending st) \<Longrightarrow> q \<in> set (adm_quotas item) \<Longrightarrow> quota_conflicts st q \<Longrightarrow>
     enqueue Q tn item st = (count_rejected st, [Ready (adm_id item) (Some InvalidConfig)])"
  by (auto simp: enqueue_def register_pending_quotas_def list_ex_iff)

subsection \<open>Progress\<close>

text \<open>C12. The scheduler is work-conserving: in every reachable state in which it is not shutting down, a request
  that waits is blocked, either because it takes a global slot and all of them are taken, or because one
  of its own quotas is at its limit.\<close>

theorem waiting_requests_are_blocked:
  assumes "priority_queue Q I" "reachable Q config sy" "\<not> sc_closing (sy_actor sy)"
    and "e \<in> set (pq_ordered Q (sc_pending (sy_actor sy)))"
  shows "(adm_global_slot (en_value e) \<and> global_active_count (sy_actor sy) = cfg_max_active config) \<or>
    (\<exists>q \<in> set (adm_quotas (en_value e)). \<exists>s. sc_quotas (sy_actor sy) (qt_key q) = Some s \<and>
       qs_active s = qt_max_active q)"
proof -
  let ?st = "sy_actor sy" and ?d = "demand_of (en_value e)"
  note books = reachable_books(1) [OF assms(1,2)] and conf = reachable_books(5) [OF assms(1,2)]
  have d: "?d \<in># waiting Q (sc_pending ?st)" using assms(4) by (simp add: waiting_def)
  then have "\<not> admits ?st ?d" using reachable_books(4) [OF assms(1,2)] assms(3) by (simp add: orderly_def)
  then consider "adm_global_slot (en_value e)" "\<not> global_active_count ?st < cfg_max_active config"
    | "\<not> quota_allows ?st (adm_quotas (en_value e))" by (auto simp: admits_def conf)
  then show ?thesis
  proof cases
    case 1
    moreover have "global_active_count ?st \<le> cfg_max_active config"
      using books by (simp add: books_ok_def global_active_count_eq)
    ultimately show ?thesis by simp
  next
    case 2
    then obtain q where q: "q \<in> set (adm_quotas (en_value e))"
      "case sc_quotas ?st (qt_key q) of None \<Rightarrow> True | Some s \<Rightarrow> \<not> qs_active s < qs_max_active s"
      by (auto simp: quota_allows_def list_all_iff split: option.splits)
    have "demand_ok (sc_quotas ?st) ?d" using books d by (simp add: books_ok_def)
    then obtain s where s: "sc_quotas ?st (qt_key q) = Some s" "qs_max_active s = qt_max_active q"
      using q(1) by (auto simp: demand_ok_def)
    have "key_ok (sc_active ?st) (waiting Q (sc_pending ?st)) (qt_key q) (sc_quotas ?st (qt_key q))"
      using books by (simp add: books_ok_def)
    with s have "qs_active s \<le> qs_max_active s" by (simp add: key_ok_def)
    with s q show ?thesis by auto
  qed
qed

theorem waiting_requests_are_blocked_witness:
  "\<exists>e. pq_ordered list_queue (sc_pending (sy_actor demo_waiting)) = [e] \<and> adm_id (en_value e) = 2 \<and>
     (\<exists>q \<in> set (adm_quotas (en_value e)). \<exists>s. sc_quotas (sy_actor demo_waiting) (qt_key q) = Some s \<and>
        qs_active s = qt_max_active q)"
proof -
  have "map (adm_id \<circ> en_value) (pq_ordered list_queue (sc_pending (sy_actor demo_waiting))) = [2]" by code_simp
  then obtain e where e: "pq_ordered list_queue (sc_pending (sy_actor demo_waiting)) = [e]" "adm_id (en_value e) = 2"
    by (auto simp: map_eq_Cons_conv)
  have "global_active_count (sy_actor demo_waiting) = 1" "\<not> sc_closing (sy_actor demo_waiting)" by code_simp+
  with waiting_requests_are_blocked [OF list_queue.priority_queue_axioms demo_waiting_reachable, of e] e
  have "\<exists>q \<in> set (adm_quotas (en_value e)). \<exists>s. sc_quotas (sy_actor demo_waiting) (qt_key q) = Some s \<and>
        qs_active s = qt_max_active q" by (simp add: demo_config_def)
  with e show ?thesis by blast
qed

text \<open>C13. No request is forgotten: whatever message the actor takes up in a reachable state, a request that
  waited before the turn still waits after it, or was sent its answer in the turn, or belongs to a caller
  that no longer listens.\<close>

theorem no_request_is_forgotten:
  assumes "priority_queue Q I" "reachable Q config sy" "actor_turn Q tn sy = Some sy'"
    and "e \<in> set (pq_ordered Q (sc_pending (sy_actor sy)))"
  shows "(\<exists>e' \<in> set (pq_ordered Q (sc_pending (sy_actor sy'))). adm_id (en_value e') = adm_id (en_value e)) \<or>
    (\<exists>r out. Ready (adm_id (en_value e)) r \<in> set out \<and> sy_sent sy' = sy_sent sy @ out) \<or>
    tn_gone tn (adm_id (en_value e))"
proof -
  obtain X out where t: "turn_ok Q I tn X (sy_actor sy) (sy_actor sy') out" "sy_sent sy' = sy_sent sy @ out"
    using priority_queue.actor_turn_ok [OF assms(1) priority_queue.reachable_ok [OF assms(1,2)] assms(3)] by blast
  have "adm_id (en_value e) \<in> queued_ids Q (sy_actor sy)"
    using imageI [OF assms(4), of "\<lambda>e. adm_id (en_value e)"] by (simp add: queued_ids_def waiting_def image_image)
  then have "adm_id (en_value e) \<in> queued_ids Q (sy_actor sy') \<union> answered out \<union> {i. tn_gone tn i}"
    using t(1) unfolding turn_ok_def by blast
  moreover have "queued_ids Q (sy_actor sy') = (\<lambda>e. adm_id (en_value e)) ` set (pq_ordered Q (sc_pending (sy_actor sy')))"
    by (simp add: queued_ids_def waiting_def image_image)
  ultimately show ?thesis using t(2) by (auto simp: answered_def)
qed

theorem no_request_is_forgotten_witness:
  "\<exists>r. Ready 2 r \<in> set (sy_sent demo_closed)"
proof -
  let ?sy = "client_shutdown 7 demo_waiting"
  have reach: "reachable list_queue demo_config ?sy" by (rule demo_closing_reachable)
  have turn: "actor_turn list_queue demo_turn ?sy = Some demo_closed" by (rule demo_closing_turn)
  have "map (adm_id \<circ> en_value) (pq_ordered list_queue (sc_pending (sy_actor ?sy))) = [2]" by code_simp
  then obtain e where e: "pq_ordered list_queue (sc_pending (sy_actor ?sy)) = [e]" "adm_id (en_value e) = 2"
    by (auto simp: map_eq_Cons_conv)
  have "pq_ordered list_queue (sc_pending (sy_actor demo_closed)) = []" by code_simp
  moreover have "\<not> tn_gone demo_turn 2" by code_simp
  ultimately show ?thesis
    using no_request_is_forgotten [OF list_queue.priority_queue_axioms reach turn, of e] e by auto
qed

text \<open>C15. A shutdown ends: in every reachable state of a closing scheduler no request waits, and once the last
  admitted request is released no caller of the shutdown waits either and the actor stops.\<close>

theorem shutdown_completes:
  assumes "priority_queue Q I" "reachable Q config sy" "sc_closing (sy_actor sy)"
  shows "pq_ordered Q (sc_pending (sy_actor sy)) = [] \<and>
    (sc_active (sy_actor sy) = [] \<longrightarrow> actor_stops (sy_actor sy))"
  using reachable_books(4) [OF assms(1,2)] assms(3) by (auto simp: orderly_def actor_stops_def waiting_def)

theorem shutdown_completes_witness:
  "pq_ordered list_queue (sc_pending (sy_actor demo_closed)) = [] \<and> sc_active (sy_actor demo_closed) \<noteq> [] \<and>
     actor_stops (sy_actor demo_drained)"
proof -
  have c: "sc_closing (sy_actor demo_closed)" "sc_closing (sy_actor demo_drained)" "sc_active (sy_actor demo_drained) = []"
    "sc_active (sy_actor demo_closed) \<noteq> []" by code_simp+
  show ?thesis
    using c shutdown_completes [OF list_queue.priority_queue_axioms demo_closed_reachable c(1)]
      shutdown_completes [OF list_queue.priority_queue_axioms demo_drained_reachable c(2)] by blast
qed

subsection \<open>Order\<close>

text \<open>The order of admission: among the waiting requests the scheduler claims the first admissible one, first
  by effective priority and then by arrival; every request it passes over is blocked, and those that stay keep
  their order.\<close>

theorem admission_follows_priority:
  assumes "priority_queue Q I" "I (sc_pending st)" "pop_admissible Q available st = (Some item, st')"
  shows "\<exists>pre e post. pq_ordered Q (sc_pending st) = pre @ e # post \<and> en_value e = item \<and>
    admissible st available item \<and> (\<forall>x \<in> set pre. \<not> admissible st available (en_value x)) \<and>
    (\<forall>x \<in> set post. en_priority e < en_priority x \<or> en_priority e = en_priority x \<and> en_sequence e < en_sequence x) \<and>
    pq_ordered Q (sc_pending st') = pre @ post"
proof -
  from priority_queue.pop_admissible_Some [OF assms] obtain pre e post q where
    e: "pq_ordered Q (sc_pending st) = pre @ e # post" "en_value e = item" "admissible st available item"
      "\<forall>x \<in> set pre. \<not> admissible st available (en_value x)" "st' = st\<lparr>sc_pending := q\<rparr>" "pq_ordered Q q = pre @ post"
    by blast
  have "sorted_wrt (<) (map en_key (pre @ e # post))" using priority_queue.keys_sorted [OF assms(1,2)] e(1) by simp
  then have "\<forall>x \<in> set post. en_key e < en_key x" by (simp add: sorted_wrt_append)
  then have "\<forall>x \<in> set post. en_priority e < en_priority x \<or> en_priority e = en_priority x \<and> en_sequence e < en_sequence x"
    by (auto simp: en_key_def less_prod_def)
  with e show ?thesis by (intro exI [of _ pre] exI [of _ e] exI [of _ post]) simp
qed

definition demo_item :: "nat \<Rightarrow> task_priority \<Rightarrow> quota list \<Rightarrow> admission" where
  "demo_item i p qs = new_admission i 0 \<lparr>rq_priority = p, rq_label = ''task'', rq_quotas = qs,
     rq_identity = None, rq_global_slot = True\<rparr>"

definition demo_queue :: "(nat \<times> entry list) scheduler" where
  "demo_queue = (scheduler_new list_queue demo_config)\<lparr>sc_pending :=
     fold (\<lambda>v. pq_push list_queue (adm_effective_priority v) v)
       [demo_item 1 Maintenance [], demo_item 2 Background [], demo_item 3 Interactive [demo_quota]] (pq_new list_queue)\<rparr>"

theorem admission_follows_priority_witness:
  "\<exists>item st' pre e post. pop_admissible list_queue True demo_queue = (Some item, st') \<and> adm_id item = 2 \<and>
     pq_ordered list_queue (sc_pending demo_queue) = pre @ e # post \<and> en_value e = item \<and>
     pq_ordered list_queue (sc_pending st') = pre @ post"
proof -
  have inv: "list_queue_inv (sc_pending demo_queue)" by code_simp
  have "map_option adm_id (fst (pop_admissible list_queue True demo_queue)) = Some 2" by code_simp
  then obtain item where i: "fst (pop_admissible list_queue True demo_queue) = Some item" "adm_id item = 2" by auto
  then have p: "pop_admissible list_queue True demo_queue = (Some item, snd (pop_admissible list_queue True demo_queue))"
    by (metis prod.collapse)
  from admission_follows_priority [OF list_queue.priority_queue_axioms inv p] p i(2) show ?thesis by blast
qed

text \<open>Aging never starves and never overtakes: an urgent request keeps priority 0 and nothing else reaches it;
  any other request has an effective priority between 1 and its own, never worse as time passes, and has 1
  once it has waited three aging intervals.\<close>

theorem aging_is_bounded:
  assumes "0 < interval_ms" "adm_priority item \<noteq> Urgent"
  shows "1 \<le> aged_priority now interval_ms item \<and> aged_priority now interval_ms item \<le> priority_value (adm_priority item) \<and>
    (now \<le> later \<longrightarrow> aged_priority later interval_ms item \<le> aged_priority now interval_ms item) \<and>
    (adm_enqueued_at item + 3 * interval_ms * 1000 \<le> now \<longrightarrow> aged_priority now interval_ms item = 1) \<and>
    aged_priority now interval_ms (item\<lparr>adm_priority := Urgent\<rparr>) = 0"
proof -
  let ?l = "\<lambda>now. min ((now - adm_enqueued_at item) div 1000 div interval_ms) 255"
  have aged: "aged_priority now interval_ms item = max (priority_value (adm_priority item) - ?l now) 1" for now
    using assms(2) by (simp add: aged_priority_def)
  have "?l now \<le> ?l later" if "now \<le> later"
  proof -
    have "(now - adm_enqueued_at item) div 1000 div interval_ms \<le> (later - adm_enqueued_at item) div 1000 div interval_ms"
      using that by (intro div_le_mono diff_le_mono)
    then show ?thesis by (rule min.mono) simp
  qed
  then have mono: "now \<le> later \<longrightarrow> aged_priority later interval_ms item \<le> aged_priority now interval_ms item"
    unfolding aged by (intro impI max.mono diff_le_mono2 order_refl)
  have "aged_priority now interval_ms item = 1" if "adm_enqueued_at item + 3 * interval_ms * 1000 \<le> now"
  proof -
    have "3 * interval_ms \<le> (now - adm_enqueued_at item) div 1000" using that by (simp add: less_eq_div_iff_mult_less_eq)
    then have "3 \<le> (now - adm_enqueued_at item) div 1000 div interval_ms"
      using assms(1) by (simp add: less_eq_div_iff_mult_less_eq)
    moreover have "priority_value (adm_priority item) \<le> 4" by (cases "adm_priority item") simp_all
    ultimately have "priority_value (adm_priority item) - ?l now \<le> 1" by linarith
    then show ?thesis unfolding aged by simp
  qed
  moreover have "1 \<le> priority_value (adm_priority item)" using assms(2) by (cases "adm_priority item") simp_all
  then have "1 \<le> aged_priority now interval_ms item \<and> aged_priority now interval_ms item \<le> priority_value (adm_priority item)"
    unfolding aged by simp
  moreover have "aged_priority now interval_ms (item\<lparr>adm_priority := Urgent\<rparr>) = 0" by (simp add: aged_priority_def Let_def)
  ultimately show ?thesis using mono by blast
qed

theorem aging_is_bounded_witness:
  "aged_priority 179999999 60000 (demo_item 1 Maintenance []) \<in> {1..4} \<and>
   aged_priority 180000000 60000 (demo_item 1 Maintenance []) = 1"
proof -
  let ?v = "demo_item 1 Maintenance []"
  have v: "adm_priority ?v \<noteq> Urgent" "adm_enqueued_at ?v = 0" "priority_value (adm_priority ?v) = 4"
    by (simp_all add: demo_item_def new_admission_def)
  show ?thesis
    using aging_is_bounded [of 60000 ?v 179999999] aging_is_bounded [of 60000 ?v 180000000] v
    by simp
qed

end
