(* ===== verification/StateGraphs.thy ===== *)
theory StateGraphs
  imports PermissionRules "HOL-Library.Word" "HOL-Library.List_Lexorder" "HOL-Library.Char_ord"
begin

section \<open>The state graph and its replay\<close>

text \<open>
  \<^verbatim>\<open>core/src/state_graph/types.rs\<close>, \<^verbatim>\<open>event.rs\<close> and \<^verbatim>\<open>graph.rs\<close>: the graph of objects and relations that an
  append-only stream of events projects to, the structural hash of that graph, the difference of two
  graphs, and the strict replay of a stream.

  A \<^verbatim>\<open>BTreeMap\<close> is the list of its entries in the order of the keys.  Versions and sequence numbers are
  natural numbers: a version grows by one per event, and streams are bounded far below \<open>2 ^ 64\<close>.  SHA-256 and
  the JSON printer are parameters, collected in the record \<open>graph_env\<close> with the sources of ids and of
  time; printing these types does not fail, as all their map keys are strings.
\<close>

subsection \<open>Ordered maps\<close>

fun bt_insert :: "'k::linorder \<Rightarrow> 'v \<Rightarrow> ('k \<times> 'v) list \<Rightarrow> ('k \<times> 'v) list" where
  "bt_insert k v [] = [(k, v)]"
| "bt_insert k v ((l, w) # m) =
     (if k = l then (k, v) # m else if k < l then (k, v) # (l, w) # m else (l, w) # bt_insert k v m)"

definition bt_remove :: "'k \<Rightarrow> ('k \<times> 'v) list \<Rightarrow> ('k \<times> 'v) list" where
  "bt_remove k m = filter (\<lambda>(l, _). l \<noteq> k) m"

abbreviation bt_values :: "('k \<times> 'v) list \<Rightarrow> 'v list" where
  "bt_values m \<equiv> map snd m"

subsection \<open>Objects, relations, patches\<close>

record graph_object =
  ob_id :: str
  ob_type :: str
  ob_data :: json
  ob_version :: nat

record graph_relation =
  re_id :: str
  re_type :: str
  re_source :: str
  re_target :: str
  re_data :: json
  re_version :: nat

datatype patch_operation =
    AddObject str str json
  | UpdateObject str nat json
  | RemoveObject str nat
  | AddRelation str str str str json
  | UpdateRelation str nat json
  | RemoveRelation str nat

record graph_patch =
  pa_expected_graph_version :: nat
  pa_operations :: "patch_operation list"

subsection \<open>Events\<close>

datatype graph_event =
    GoalCreated str
  | ObjectCreated str str json
  | ObjectUpdated str nat json
  | ObjectRemoved str nat
  | RelationCreated str str str str json
  | RelationUpdated str nat json
  | RelationRemoved str nat
  | PatchProposed str graph_patch
  | PatchApplied str
  | PatchRejected str str
  | BehaviorStarted str
  | BehaviorCompleted str
  | BehaviorFailed str str
  | BranchForked str nat
  | ExternalEventObserved str str nat str str json
  | Custom str json

fun event_type :: "graph_event \<Rightarrow> str" where
  "event_type (GoalCreated _) = ''goal.created''"
| "event_type (ObjectCreated _ _ _) = ''object.created''"
| "event_type (ObjectUpdated _ _ _) = ''object.updated''"
| "event_type (ObjectRemoved _ _) = ''object.removed''"
| "event_type (RelationCreated _ _ _ _ _) = ''relation.created''"
| "event_type (RelationUpdated _ _ _) = ''relation.updated''"
| "event_type (RelationRemoved _ _) = ''relation.removed''"
| "event_type (PatchProposed _ _) = ''patch.proposed''"
| "event_type (PatchApplied _) = ''patch.applied''"
| "event_type (PatchRejected _ _) = ''patch.rejected''"
| "event_type (BehaviorStarted _) = ''behavior.started''"
| "event_type (BehaviorCompleted _) = ''behavior.completed''"
| "event_type (BehaviorFailed _ _) = ''behavior.failed''"
| "event_type (BranchForked _ _) = ''branch.forked''"
| "event_type (ExternalEventObserved _ _ _ _ name _) = name"
| "event_type (Custom name _) = name"

record event_record =
  er_schema_version :: nat
  er_id :: str
  er_sequence :: nat
  er_timestamp_ms :: nat
  er_branch_id :: str
  er_causation_id :: "str option"
  er_correlation_id :: "str option"
  er_state_version_before :: nat
  er_state_version_after :: nat
  er_state_hash_after :: str
  er_previous_record_hash :: "str option"
  er_record_hash :: str
  er_event :: graph_event

definition GRAPH_EVENT_SCHEMA_VERSION :: nat where "GRAPH_EVENT_SCHEMA_VERSION = 2"
definition MIN_GRAPH_EVENT_SCHEMA_VERSION :: nat where "MIN_GRAPH_EVENT_SCHEMA_VERSION = 1"

subsection \<open>Applying an event\<close>

record state_graph =
  sg_version :: nat
  sg_objects :: "(str \<times> graph_object) list"
  sg_relations :: "(str \<times> graph_relation) list"

definition graph_default :: state_graph where
  "graph_default = \<lparr>sg_version = 0, sg_objects = [], sg_relations = []\<rparr>"

datatype replay_error =
    UnsupportedSchema nat nat
  | SchemaDowngrade nat nat nat
  | SequenceDiverged nat nat
  | StateVersionDiverged nat nat nat
  | InvalidCausation str str
  | DuplicateEventId str
  | StateHashDiverged nat
  | RecordHashDiverged nat
  | InvalidMutation str
  | Serialization str

definition touches :: "str \<Rightarrow> graph_relation \<Rightarrow> bool" where
  "touches i r \<longleftrightarrow> re_source r = i \<or> re_target r = i"

text \<open>\<^verbatim>\<open>StateGraph::apply\<close>; the flag says whether the event mutates the graph.\<close>

definition bump_version :: "state_graph \<Rightarrow> replay_error + bool \<times> state_graph" where
  "bump_version g = Inr (True, g\<lparr>sg_version := sg_version g + 1\<rparr>)"

fun graph_apply :: "graph_event \<Rightarrow> state_graph \<Rightarrow> replay_error + bool \<times> state_graph" where
  "graph_apply (ObjectCreated i t d) g =
     (if map_of (sg_objects g) i \<noteq> None then Inl (InvalidMutation (''object `'' @ i @ ''` already exists''))
      else bump_version (g\<lparr>sg_objects :=
        bt_insert i \<lparr>ob_id = i, ob_type = t, ob_data = d, ob_version = 1\<rparr> (sg_objects g)\<rparr>))"
| "graph_apply (ObjectUpdated i v d) g =
     (case map_of (sg_objects g) i of
        None \<Rightarrow> Inl (InvalidMutation (''object `'' @ i @ ''` does not exist''))
      | Some ob \<Rightarrow>
          if v \<noteq> ob_version ob + 1 then
            Inl (InvalidMutation (''object `'' @ i @ ''` version jumped from '' @ show_nat (ob_version ob) @ '' to '' @ show_nat v))
          else bump_version (g\<lparr>sg_objects := bt_insert i (ob\<lparr>ob_version := v, ob_data := d\<rparr>) (sg_objects g)\<rparr>))"
| "graph_apply (ObjectRemoved i v) g =
     (case map_of (sg_objects g) i of
        None \<Rightarrow> Inl (InvalidMutation (''object `'' @ i @ ''` does not exist''))
      | Some ob \<Rightarrow>
          if v \<noteq> ob_version ob + 1 then Inl (InvalidMutation (''object `'' @ i @ ''` removal version is stale''))
          else if list_ex (touches i) (bt_values (sg_relations g)) then
            Inl (InvalidMutation (''object `'' @ i @ ''` still has relations''))
          else bump_version (g\<lparr>sg_objects := bt_remove i (sg_objects g)\<rparr>))"
| "graph_apply (RelationCreated i t s u d) g =
     (if map_of (sg_relations g) i \<noteq> None then Inl (InvalidMutation (''relation `'' @ i @ ''` already exists''))
      else if map_of (sg_objects g) s = None \<or> map_of (sg_objects g) u = None then
        Inl (InvalidMutation (''relation `'' @ i @ ''` has a missing endpoint''))
      else bump_version (g\<lparr>sg_relations := bt_insert i \<lparr>re_id = i, re_type = t, re_source = s, re_target = u,
        re_data = d, re_version = 1\<rparr> (sg_relations g)\<rparr>))"
| "graph_apply (RelationUpdated i v d) g =
     (case map_of (sg_relations g) i of
        None \<Rightarrow> Inl (InvalidMutation (''relation `'' @ i @ ''` does not exist''))
      | Some r \<Rightarrow>
          if v \<noteq> re_version r + 1 then Inl (InvalidMutation (''relation `'' @ i @ ''` version is stale''))
          else bump_version (g\<lparr>sg_relations := bt_insert i (r\<lparr>re_version := v, re_data := d\<rparr>) (sg_relations g)\<rparr>))"
| "graph_apply (RelationRemoved i v) g =
     (case map_of (sg_relations g) i of
        None \<Rightarrow> Inl (InvalidMutation (''relation `'' @ i @ ''` does not exist''))
      | Some r \<Rightarrow>
          if v \<noteq> re_version r + 1 then Inl (InvalidMutation (''relation `'' @ i @ ''` removal version is stale''))
          else bump_version (g\<lparr>sg_relations := bt_remove i (sg_relations g)\<rparr>))"
| "graph_apply _ g = Inr (False, g)"

definition relations_from :: "str \<Rightarrow> state_graph \<Rightarrow> graph_relation list" where
  "relations_from i g = filter (\<lambda>r. re_source r = i) (bt_values (sg_relations g))"

definition relations_to :: "str \<Rightarrow> state_graph \<Rightarrow> graph_relation list" where
  "relations_to i g = filter (\<lambda>r. re_target r = i) (bt_values (sg_relations g))"

subsection \<open>The structural hash\<close>

type_synonym byte = "8 word"

record graph_env =
  ge_sha256 :: "byte list \<Rightarrow> 256 word"
  ge_json_object :: "graph_object \<Rightarrow> byte list"
  ge_json_relation :: "graph_relation \<Rightarrow> byte list"
  ge_json_graph :: "state_graph \<Rightarrow> byte list"
  ge_json_record :: "event_record \<Rightarrow> byte list"
  ge_uuid :: "nat \<Rightarrow> str"
  ge_clock :: "nat \<Rightarrow> nat"

text \<open>\<^verbatim>\<open>sha256::digest\<close> gives the 32 bytes of the digest in lower-case hexadecimal.\<close>

definition digest_bytes :: "256 word \<Rightarrow> byte list" where
  "digest_bytes w = map (\<lambda>i. ucast (drop_bit (8 * (31 - i)) w)) [0..<32]"

definition hex_digit :: "nat \<Rightarrow> char" where
  "hex_digit n = ''0123456789abcdef'' ! n"

definition hex_of :: "byte list \<Rightarrow> str" where
  "hex_of bs = concat (map (\<lambda>b. [hex_digit (unat b div 16), hex_digit (unat b mod 16)]) bs)"

definition sha256_digest :: "graph_env \<Rightarrow> byte list \<Rightarrow> str" where
  "sha256_digest E bs = hex_of (digest_bytes (ge_sha256 E bs))"

definition hex_value :: "char \<Rightarrow> nat option" where
  "hex_value c = (let i = length (takeWhile (\<lambda>x. x \<noteq> ascii_lower c) ''0123456789abcdef'') in if i < 16 then Some i else None)"

text \<open>\<^verbatim>\<open>u8::from_str_radix(pair, 16)\<close> on a slice of two characters, which may start with a sign.\<close>

fun parse_pair :: "str \<Rightarrow> byte option" where
  "parse_pair [a, b] =
     (if a = CHR ''+'' then map_option of_nat (hex_value b)
      else (case (hex_value a, hex_value b) of (Some x, Some y) \<Rightarrow> Some (of_nat (16 * x + y)) | _ \<Rightarrow> None))"
| "parse_pair _ = None"

definition decode_digest :: "str \<Rightarrow> byte list option" where
  "decode_digest s = those (map (\<lambda>i. parse_pair (take 2 (drop (2 * i) s))) [0..<32])"

definition contribution :: "graph_env \<Rightarrow> str \<Rightarrow> byte list \<Rightarrow> replay_error + byte list" where
  "contribution E domain json =
     (case decode_digest (sha256_digest E (map of_char domain @ [0] @ json)) of
        None \<Rightarrow> Inl (Serialization ''invalid digit found in string'')
      | Some bs \<Rightarrow> Inr bs)"

definition object_contribution :: "graph_env \<Rightarrow> graph_object \<Rightarrow> replay_error + byte list" where
  "object_contribution E ob = contribution E ''object'' (ge_json_object E ob)"

definition relation_contribution :: "graph_env \<Rightarrow> graph_relation \<Rightarrow> replay_error + byte list" where
  "relation_contribution E r = contribution E ''relation'' (ge_json_relation E r)"

text \<open>Addition and subtraction on 32 bytes, the last byte first; sums fit \<^verbatim>\<open>u16\<close> and differences \<^verbatim>\<open>i16\<close>.\<close>

fun add_carry :: "byte list \<Rightarrow> byte list \<Rightarrow> byte list \<times> int" where
  "add_carry (a # as) (b # bs) =
     (let (rest, carry) = add_carry as bs; sum = uint a + uint b + carry
      in (word_of_int sum # rest, sum div 256))"
| "add_carry _ _ = ([], 0)"

fun sub_borrow :: "byte list \<Rightarrow> byte list \<Rightarrow> byte list \<times> int" where
  "sub_borrow (a # as) (b # bs) =
     (let (rest, borrow) = sub_borrow as bs; difference = uint a - uint b - borrow
      in if difference < 0 then (word_of_int (difference + 256) # rest, 1)
         else (word_of_int difference # rest, 0))"
| "sub_borrow _ _ = ([], 0)"

definition hash_add :: "byte list \<Rightarrow> byte list \<Rightarrow> byte list" where
  "hash_add h v = fst (add_carry h v)"

definition hash_subtract :: "byte list \<Rightarrow> byte list \<Rightarrow> byte list" where
  "hash_subtract h v = fst (sub_borrow h v)"

definition hash_default :: "byte list" where
  "hash_default = replicate 32 0"

fun add_all :: "('a \<Rightarrow> replay_error + byte list) \<Rightarrow> 'a list \<Rightarrow> byte list \<Rightarrow> replay_error + byte list" where
  "add_all c [] h = Inr h"
| "add_all c (x # xs) h = bind_e (c x) (\<lambda>v. add_all c xs (hash_add h v))"

definition hash_from_graph :: "graph_env \<Rightarrow> state_graph \<Rightarrow> replay_error + byte list" where
  "hash_from_graph E g =
     bind_e (add_all (object_contribution E) (bt_values (sg_objects g)) hash_default) (\<lambda>h.
     add_all (relation_contribution E) (bt_values (sg_relations g)) h)"

fun hash_apply :: "graph_env \<Rightarrow> graph_event \<Rightarrow> state_graph \<Rightarrow> byte list \<Rightarrow> replay_error + byte list" where
  "hash_apply E (ObjectCreated i t d) g h =
     bind_e (object_contribution E \<lparr>ob_id = i, ob_type = t, ob_data = d, ob_version = 1\<rparr>) (\<lambda>v. Inr (hash_add h v))"
| "hash_apply E (ObjectUpdated i n d) g h =
     (case map_of (sg_objects g) i of
        None \<Rightarrow> Inl (InvalidMutation (''object `'' @ i @ ''` does not exist''))
      | Some ob \<Rightarrow>
          bind_e (object_contribution E ob) (\<lambda>old.
          bind_e (object_contribution E \<lparr>ob_id = i, ob_type = ob_type ob, ob_data = d, ob_version = n\<rparr>) (\<lambda>new.
          Inr (hash_add (hash_subtract h old) new))))"
| "hash_apply E (ObjectRemoved i n) g h =
     (case map_of (sg_objects g) i of
        None \<Rightarrow> Inl (InvalidMutation (''object `'' @ i @ ''` does not exist''))
      | Some ob \<Rightarrow> bind_e (object_contribution E ob) (\<lambda>old. Inr (hash_subtract h old)))"
| "hash_apply E (RelationCreated i t s u d) g h =
     bind_e (relation_contribution E \<lparr>re_id = i, re_type = t, re_source = s, re_target = u, re_data = d, re_version = 1\<rparr>)
       (\<lambda>v. Inr (hash_add h v))"
| "hash_apply E (RelationUpdated i n d) g h =
     (case map_of (sg_relations g) i of
        None \<Rightarrow> Inl (InvalidMutation (''relation `'' @ i @ ''` does not exist''))
      | Some r \<Rightarrow>
          bind_e (relation_contribution E r) (\<lambda>old.
          bind_e (relation_contribution E \<lparr>re_id = i, re_type = re_type r, re_source = re_source r,
            re_target = re_target r, re_data = d, re_version = n\<rparr>) (\<lambda>new.
          Inr (hash_add (hash_subtract h old) new))))"
| "hash_apply E (RelationRemoved i n) g h =
     (case map_of (sg_relations g) i of
        None \<Rightarrow> Inl (InvalidMutation (''relation `'' @ i @ ''` does not exist''))
      | Some r \<Rightarrow> bind_e (relation_contribution E r) (\<lambda>old. Inr (hash_subtract h old)))"
| "hash_apply E _ g h = Inr h"

text \<open>\<^verbatim>\<open>u64::to_be_bytes\<close>\<close>

definition be_bytes :: "nat \<Rightarrow> byte list" where
  "be_bytes n = map (\<lambda>i. of_nat (n div 256 ^ (7 - i))) [0..<8]"

definition hash_digest :: "graph_env \<Rightarrow> nat \<Rightarrow> byte list \<Rightarrow> str" where
  "hash_digest E version h =
     sha256_digest E (map of_char ''a3s-state-graph-v2'' @ [0] @ be_bytes version @ h)"

definition state_hash :: "graph_env \<Rightarrow> state_graph \<Rightarrow> replay_error + str" where
  "state_hash E g = bind_e (hash_from_graph E g) (\<lambda>h. Inr (hash_digest E (sg_version g) h))"

definition legacy_state_hash :: "graph_env \<Rightarrow> state_graph \<Rightarrow> str" where
  "legacy_state_hash E g = sha256_digest E (ge_json_graph E g)"

subsection \<open>Differences\<close>

record graph_diff =
  df_objects_added :: "graph_object list"
  df_objects_removed :: "graph_object list"
  df_objects_changed :: "(graph_object \<times> graph_object) list"
  df_relations_added :: "graph_relation list"
  df_relations_removed :: "graph_relation list"
  df_relations_changed :: "(graph_relation \<times> graph_relation) list"

text \<open>The keys of two maps in order, and the three loops over them.\<close>

definition all_keys :: "('k::linorder \<times> 'v) list \<Rightarrow> ('k \<times> 'v) list \<Rightarrow> 'k list" where
  "all_keys l r = map fst (fold (\<lambda>(k, v). bt_insert k ()) (l @ r) [])"

definition diff_added :: "('k::linorder \<times> 'v) list \<Rightarrow> ('k \<times> 'v) list \<Rightarrow> 'v list" where
  "diff_added l r = List.map_filter (\<lambda>k. if map_of l k = None then map_of r k else None) (all_keys l r)"

definition diff_removed :: "('k::linorder \<times> 'v) list \<Rightarrow> ('k \<times> 'v) list \<Rightarrow> 'v list" where
  "diff_removed l r = List.map_filter (\<lambda>k. if map_of r k = None then map_of l k else None) (all_keys l r)"

definition diff_changed :: "('k::linorder \<times> 'v) list \<Rightarrow> ('k \<times> 'v) list \<Rightarrow> ('v \<times> 'v) list" where
  "diff_changed l r = List.map_filter (\<lambda>k. (case (map_of l k, map_of r k) of
     (Some a, Some b) \<Rightarrow> if a \<noteq> b then Some (a, b) else None | _ \<Rightarrow> None)) (all_keys l r)"

definition diff_between :: "state_graph \<Rightarrow> state_graph \<Rightarrow> graph_diff" where
  "diff_between l r =
     \<lparr>df_objects_added = diff_added (sg_objects l) (sg_objects r),
      df_objects_removed = diff_removed (sg_objects l) (sg_objects r),
      df_objects_changed = diff_changed (sg_objects l) (sg_objects r),
      df_relations_added = diff_added (sg_relations l) (sg_relations r),
      df_relations_removed = diff_removed (sg_relations l) (sg_relations r),
      df_relations_changed = diff_changed (sg_relations l) (sg_relations r)\<rparr>"

definition diff_is_empty :: "graph_diff \<Rightarrow> bool" where
  "diff_is_empty d \<longleftrightarrow> df_objects_added d = [] \<and> df_objects_removed d = [] \<and> df_objects_changed d = [] \<and>
     df_relations_added d = [] \<and> df_relations_removed d = [] \<and> df_relations_changed d = []"

subsection \<open>Strict replay\<close>

definition record_hash :: "graph_env \<Rightarrow> event_record \<Rightarrow> str" where
  "record_hash E r = sha256_digest E (ge_json_record E (r\<lparr>er_record_hash := []\<rparr>))"

text \<open>The state of the replay loop; the records it has accepted are kept with the last one first.\<close>

record replay_state =
  rp_graph :: state_graph
  rp_seen :: "str set"
  rp_hash :: "byte list"
  rp_legacy :: str
  rp_schema :: nat
  rp_done :: "event_record list"

definition replay_start :: "graph_env \<Rightarrow> replay_state" where
  "replay_start E =
     \<lparr>rp_graph = graph_default, rp_seen = {}, rp_hash = hash_default, rp_legacy = legacy_state_hash E graph_default,
      rp_schema = MIN_GRAPH_EVENT_SCHEMA_VERSION, rp_done = []\<rparr>"

definition last_hash :: "event_record list \<Rightarrow> str option" where
  "last_hash rs = (case rs of [] \<Rightarrow> None | r # _ \<Rightarrow> Some (er_record_hash r))"

text \<open>The checks before the event is applied, in the order of the source.\<close>

definition replay_check :: "graph_env \<Rightarrow> event_record \<Rightarrow> replay_state \<Rightarrow> replay_error option" where
  "replay_check E r st =
     (let expected = length (rp_done st) in
      if \<not> (MIN_GRAPH_EVENT_SCHEMA_VERSION \<le> er_schema_version r \<and> er_schema_version r \<le> GRAPH_EVENT_SCHEMA_VERSION)
        then Some (UnsupportedSchema GRAPH_EVENT_SCHEMA_VERSION (er_schema_version r))
      else if er_schema_version r < rp_schema st then Some (SchemaDowngrade expected (rp_schema st) (er_schema_version r))
      else if er_sequence r \<noteq> expected then Some (SequenceDiverged expected (er_sequence r))
      else if (case er_causation_id r of None \<Rightarrow> False | Some cause \<Rightarrow> cause \<notin> rp_seen st)
        then Some (InvalidCausation (er_id r) (the (er_causation_id r)))
      else if er_id r \<in> rp_seen st then Some (DuplicateEventId (er_id r))
      else if er_previous_record_hash r \<noteq> last_hash (rp_done st) \<or> er_record_hash r \<noteq> record_hash E r
        then Some (RecordHashDiverged (er_sequence r))
      else if er_state_version_before r \<noteq> sg_version (rp_graph st)
        then Some (StateVersionDiverged (er_sequence r) (sg_version (rp_graph st)) (er_state_version_before r))
      else None)"

definition replay_step :: "graph_env \<Rightarrow> event_record \<Rightarrow> replay_state \<Rightarrow> replay_error + replay_state" where
  "replay_step E r st =
     (case replay_check E r st of
        Some e \<Rightarrow> Inl e
      | None \<Rightarrow>
          bind_e (hash_apply E (er_event r) (rp_graph st) (rp_hash st)) (\<lambda>h.
          bind_e (graph_apply (er_event r) (rp_graph st)) (\<lambda>(mutated, g).
            if er_state_version_after r \<noteq> sg_version g
            then Inl (StateVersionDiverged (er_sequence r) (sg_version g) (er_state_version_after r))
            else
              let legacy = (if mutated \<and> er_schema_version r = 1 then legacy_state_hash E g else rp_legacy st);
                  (expected, legacy) = (if er_schema_version r = 1 then (legacy, legacy)
                                        else (hash_digest E (sg_version g) h, []))
              in if er_state_hash_after r \<noteq> expected then Inl (StateHashDiverged (er_sequence r))
                 else Inr \<lparr>rp_graph = g, rp_seen = insert (er_id r) (rp_seen st), rp_hash = h, rp_legacy = legacy,
                        rp_schema = er_schema_version r, rp_done = r # rp_done st\<rparr>)))"

fun replay_loop :: "graph_env \<Rightarrow> event_record list \<Rightarrow> replay_state \<Rightarrow> replay_error + replay_state" where
  "replay_loop E [] st = Inr st"
| "replay_loop E (r # rs) st = bind_e (replay_step E r st) (replay_loop E rs)"

definition replay_strict :: "graph_env \<Rightarrow> event_record list \<Rightarrow> replay_error + state_graph" where
  "replay_strict E rs = bind_e (replay_loop E rs (replay_start E)) (\<lambda>st. Inr (rp_graph st))"

end
