(* ===== verification/GraphHashing.thy ===== *)
theory GraphHashing
  imports StateGraphs
begin

section \<open>Well-formed graphs and their incremental hash\<close>

text \<open>
  The invariant of a graph that was built by applying events, and the structural hash as arithmetic:
  a hash is a number below \<open>256 ^ 32\<close>, adding and subtracting byte by byte is addition and subtraction
  modulo that number, so updating the hash with every event gives the hash of the resulting graph.
\<close>

subsection \<open>Ordered maps\<close>

abbreviation bt_ok :: "('k::linorder \<times> 'v) list \<Rightarrow> bool" where
  "bt_ok m \<equiv> sorted_wrt (<) (map fst m)"

lemma map_of_bt_insert [simp]: "map_of (bt_insert k v m) = (map_of m)(k \<mapsto> v)"
  by (induction k v m rule: bt_insert.induct) (auto simp: fun_eq_iff)

lemma map_of_bt_remove [simp]: "map_of (bt_remove k m) = (map_of m)(k := None)"
  by (induction m) (auto simp: bt_remove_def fun_eq_iff)

lemma set_bt_insert_keys: "fst ` set (bt_insert k v m) = insert k (fst ` set m)"
  by (induction k v m rule: bt_insert.induct) auto

lemma bt_insert_ok: "bt_ok m \<Longrightarrow> bt_ok (bt_insert k v m)"
proof (induction k v m rule: bt_insert.induct)
  case (2 k v l w m)
  have "fst ` set (bt_insert k v m) = insert k (fst ` set m)" by (rule set_bt_insert_keys)
  moreover have "bt_ok m" "\<forall>x \<in> fst ` set m. l < x" using "2.prems" by auto
  ultimately show ?case using "2.IH" "2.prems" by (auto simp: less_imp_not_less intro: less_trans)
qed simp

lemma bt_remove_ok: "bt_ok m \<Longrightarrow> bt_ok (bt_remove k m)"
  unfolding bt_remove_def by (induction m) auto

lemma bt_ok_distinct: "bt_ok m \<Longrightarrow> distinct (map fst m)"
  by (simp add: strict_sorted_iff)

lemma bt_ok_member: "bt_ok m \<Longrightarrow> (k, v) \<in> set m \<longleftrightarrow> map_of m k = Some v"
  by (simp add: bt_ok_distinct)

lemma bt_ok_values: "bt_ok m \<Longrightarrow> v \<in> set (bt_values m) \<longleftrightarrow> (\<exists>k. map_of m k = Some v)"
  by (force simp: bt_ok_member [symmetric])

lemma sum_bt_insert_new:
  "map_of m k = None \<Longrightarrow> sum_list (map f (bt_values (bt_insert k v m))) = f v + sum_list (map f (bt_values m))"
  for f :: "'v \<Rightarrow> int"
  by (induction k v m rule: bt_insert.induct) (auto split: if_splits)

lemma sum_bt_insert_old:
  "bt_ok m \<Longrightarrow> map_of m k = Some w \<Longrightarrow>
     sum_list (map f (bt_values (bt_insert k v m))) = f v - f w + sum_list (map f (bt_values m))"
  for f :: "'v \<Rightarrow> int"
proof (induction k v m rule: bt_insert.induct)
  case (2 k v l u m)
  then have "k < l \<Longrightarrow> k \<notin> fst ` set m" by auto
  with 2 show ?case by (auto simp: map_of_eq_None_iff [symmetric] split: if_splits)
qed simp

lemma sum_bt_remove:
  "bt_ok m \<Longrightarrow> map_of m k = Some w \<Longrightarrow>
     sum_list (map f (bt_values (bt_remove k m))) = sum_list (map f (bt_values m)) - f w"
  for f :: "'v \<Rightarrow> int"
proof (induction m)
  case (Cons e m)
  obtain l u where e: "e = (l, u)" by (cases e)
  show ?case
  proof (cases "l = k")
    case True
    with Cons.prems(1) e have "k \<notin> fst ` set m" by auto
    then have "bt_remove k m = m" unfolding bt_remove_def by (intro filter_True) force
    with True e Cons.prems(2) show ?thesis by (simp add: bt_remove_def)
  qed (use Cons e in \<open>simp add: bt_remove_def\<close>)
qed simp

subsection \<open>Well-formed graphs\<close>

definition graph_ok :: "state_graph \<Rightarrow> bool" where
  "graph_ok g \<longleftrightarrow> bt_ok (sg_objects g) \<and> bt_ok (sg_relations g) \<and>
     (\<forall>k ob. map_of (sg_objects g) k = Some ob \<longrightarrow> ob_id ob = k \<and> 1 \<le> ob_version ob) \<and>
     (\<forall>k r. map_of (sg_relations g) k = Some r \<longrightarrow> re_id r = k \<and> 1 \<le> re_version r \<and>
        map_of (sg_objects g) (re_source r) \<noteq> None \<and> map_of (sg_objects g) (re_target r) \<noteq> None)"

lemma graph_default_ok: "graph_ok graph_default"
  by (simp add: graph_ok_def graph_default_def)

lemma graph_apply_ok:
  assumes "graph_ok g" "graph_apply ev g = Inr (m, g')"
  shows "graph_ok g' \<and> sg_version g' = sg_version g + (if m then 1 else 0) \<and> (\<not> m \<longrightarrow> g' = g)"
proof (cases ev)
  case (ObjectRemoved i v)
  then obtain ob where ob: "map_of (sg_objects g) i = Some ob" "\<not> list_ex (touches i) (bt_values (sg_relations g))"
    "m" "g' = g\<lparr>sg_objects := bt_remove i (sg_objects g), sg_version := sg_version g + 1\<rparr>"
    using assms(2) by (auto simp: bump_version_def split: option.splits if_splits)
  have "re_source r \<noteq> i \<and> re_target r \<noteq> i" if "map_of (sg_relations g) k = Some r" for k r
    using ob(2) map_of_SomeD [OF that] by (force simp: list_ex_iff touches_def)
  with assms(1) ob show ?thesis by (auto simp: graph_ok_def bt_remove_ok)
qed (use assms in \<open>auto simp: graph_ok_def bump_version_def bt_insert_ok bt_remove_ok split: option.splits if_splits\<close>)

subsection \<open>Arithmetic on bytes\<close>

fun be_value :: "byte list \<Rightarrow> int" where
  "be_value [] = 0"
| "be_value (b # bs) = uint b * 256 ^ length bs + be_value bs"

lemma uint_byte: "0 \<le> uint (b :: byte)" "uint (b :: byte) < 256"
  using uint_lt2p [of b] by simp_all

lemma uint_of_byte: "uint (word_of_int n :: byte) = n mod 256"
  by (simp add: uint_word_of_int)

lemma be_value_bounds: "0 \<le> be_value bs \<and> be_value bs < 256 ^ length bs"
proof (induction bs)
  case (Cons b bs)
  have "uint b * 256 ^ length bs + be_value bs < (uint b + 1) * 256 ^ length bs" using Cons by (simp add: algebra_simps)
  also have "\<dots> \<le> 256 * 256 ^ length bs" using uint_byte [of b] by (intro mult_right_mono) simp_all
  finally show ?case using Cons uint_byte [of b] by simp
qed simp

lemma be_value_inject: "length xs = length ys \<Longrightarrow> be_value xs = be_value ys \<Longrightarrow> xs = ys"
proof (induction xs ys rule: list_induct2)
  case (Cons x xs y ys)
  let ?M = "256 ^ length xs :: int"
  have b: "0 \<le> be_value xs" "be_value xs < ?M" "0 \<le> be_value ys" "be_value ys < ?M"
    using be_value_bounds [of xs] be_value_bounds [of ys] Cons.hyps by simp_all
  have eq: "be_value xs + ?M * uint x = be_value ys + ?M * uint y"
    using Cons.prems Cons.hyps by (simp add: algebra_simps)
  have "(be_value xs + ?M * uint x) mod ?M = be_value xs" using b by (simp add: mod_pos_pos_trivial)
  moreover have "(be_value ys + ?M * uint y) mod ?M = be_value ys" using b by (simp add: mod_pos_pos_trivial)
  ultimately have "be_value xs = be_value ys" using eq by simp
  with eq have "uint x = uint y" by simp
  with \<open>be_value xs = be_value ys\<close> Cons.IH show ?case by (simp add: word_uint_eq_iff)
qed simp

lemma add_carry_value:
  "length as = length bs \<Longrightarrow> add_carry as bs = (r, c) \<Longrightarrow>
     length r = length as \<and> be_value r + c * 256 ^ length as = be_value as + be_value bs"
proof (induction as bs arbitrary: r c rule: list_induct2)
  case (Cons a as b bs)
  obtain r1 c1 where r1: "add_carry as bs = (r1, c1)" by fastforce
  let ?s = "uint a + uint b + c1"
  from Cons.IH [OF r1] have IH: "length r1 = length as" "be_value r1 + c1 * 256 ^ length as = be_value as + be_value bs" by auto
  define q m P where "q = ?s div 256" and "m = ?s mod 256" and "P = (256 :: int) ^ length as"
  define w :: byte where "w = word_of_int ?s"
  have w: "uint w = m" unfolding w_def m_def by (rule uint_of_byte)
  have r: "r = w # r1" "c = q" using Cons.prems r1 unfolding w_def q_def by (auto simp: Let_def)
  have s: "uint a + uint b + c1 = q * 256 + m" unfolding q_def m_def by (rule div_mult_mod_eq [symmetric])
  have IH': "be_value r1 + c1 * P = be_value as + be_value bs" using IH(2) by (simp only: P_def)
  have "be_value r + c * 256 ^ length (a # as) = m * P + be_value r1 + q * 256 * P"
    unfolding r by (simp add: w IH(1) P_def)
  also have "\<dots> = (q * 256 + m) * P + be_value r1" by (simp add: distrib_right)
  also have "\<dots> = (uint a + uint b) * P + (be_value r1 + c1 * P)" unfolding s [symmetric] by (simp add: distrib_right)
  also have "\<dots> = be_value (a # as) + be_value (b # bs)" unfolding IH' by (simp add: distrib_right P_def Cons.hyps)
  finally show ?case using r(1) IH(1) by simp
qed simp

lemma sub_borrow_value:
  "length as = length bs \<Longrightarrow> sub_borrow as bs = (r, c) \<Longrightarrow>
     length r = length as \<and> be_value r - c * 256 ^ length as = be_value as - be_value bs \<and> (c = 0 \<or> c = 1)"
proof (induction as bs arbitrary: r c rule: list_induct2)
  case (Cons a as b bs)
  obtain r1 c1 where r1: "sub_borrow as bs = (r1, c1)" by fastforce
  let ?d = "uint a - uint b - c1"
  from Cons.IH [OF r1] have IH: "length r1 = length as" "be_value r1 - c1 * 256 ^ length as = be_value as - be_value bs"
    "c1 = 0 \<or> c1 = 1" by auto
  have d: "- 256 \<le> ?d" "?d < 256" using IH(3) uint_byte [of a] uint_byte [of b] by linarith+
  show ?case
  proof (cases "?d < 0")
    case True
    define w :: byte where "w = word_of_int (?d + 256)"
    have w: "uint w = ?d + 256" unfolding w_def uint_of_byte using True d by (intro mod_pos_pos_trivial) linarith+
    have "r = w # r1" "c = 1" using True Cons.prems r1 unfolding w_def by (auto simp: Let_def)
    then show ?thesis using IH Cons.hyps by (simp add: w algebra_simps)
  next
    case False
    define w :: byte where "w = word_of_int ?d"
    have w: "uint w = ?d" unfolding w_def uint_of_byte using False d by (intro mod_pos_pos_trivial) linarith+
    have "r = w # r1" "c = 0" using False Cons.prems r1 unfolding w_def by (auto simp: Let_def)
    then show ?thesis using IH Cons.hyps by (simp add: w algebra_simps)
  qed
qed simp

subsection \<open>The structural hash as a sum\<close>

definition hash_modulus :: int where "hash_modulus = 256 ^ 32"

lemma be_value_mod: "length h = 32 \<Longrightarrow> be_value h mod hash_modulus = be_value h"
  using be_value_bounds [of h] by (intro mod_pos_pos_trivial) (simp_all add: hash_modulus_def)

lemma hash_add_value:
  assumes "length h = 32" "length v = 32"
  shows "length (hash_add h v) = 32" "be_value (hash_add h v) = (be_value h + be_value v) mod hash_modulus"
proof -
  obtain r c where r: "add_carry h v = (r, c)" by fastforce
  from add_carry_value [OF _ r] assms have v: "length r = 32" "be_value r + c * hash_modulus = be_value h + be_value v"
    by (simp_all add: hash_modulus_def)
  then show "length (hash_add h v) = 32" by (simp add: hash_add_def r)
  have "(be_value h + be_value v) mod hash_modulus = be_value r mod hash_modulus" unfolding v(2) [symmetric] by simp
  then show "be_value (hash_add h v) = (be_value h + be_value v) mod hash_modulus"
    using be_value_mod [OF v(1)] by (simp add: hash_add_def r)
qed

lemma hash_subtract_value:
  assumes "length h = 32" "length v = 32"
  shows "length (hash_subtract h v) = 32" "be_value (hash_subtract h v) = (be_value h - be_value v) mod hash_modulus"
proof -
  obtain r c where r: "sub_borrow h v = (r, c)" by fastforce
  from sub_borrow_value [OF _ r] assms have v: "length r = 32" "be_value r - c * hash_modulus = be_value h - be_value v"
    by (simp_all add: hash_modulus_def)
  then show "length (hash_subtract h v) = 32" by (simp add: hash_subtract_def r)
  have "be_value h - be_value v = be_value r + (- c) * hash_modulus" using v(2) by simp
  then have "(be_value h - be_value v) mod hash_modulus = be_value r mod hash_modulus" by (simp only: mod_mult_self1)
  then show "be_value (hash_subtract h v) = (be_value h - be_value v) mod hash_modulus"
    using be_value_mod [OF v(1)] by (simp add: hash_subtract_def r)
qed

subsection \<open>Digests\<close>

lemma length_takeWhile_nth:
  "distinct xs \<Longrightarrow> n < length xs \<Longrightarrow> length (takeWhile (\<lambda>x. x \<noteq> xs ! n) xs) = n"
proof (induction xs arbitrary: n)
  case (Cons x xs)
  then show ?case by (cases n) auto
qed simp

lemma hex_digit_cases: "n < 16 \<Longrightarrow> hex_value (hex_digit n) = Some n \<and> hex_digit n \<noteq> CHR ''+''"
proof -
  assume "n < 16"
  then have "n \<in> {0, 1, 2, 3, 4, 5, 6, 7, 8, 9, 10, 11, 12, 13, 14, 15}"
    by (simp only: insert_iff empty_iff) presburger
  moreover have "\<forall>n \<in> {0, 1, 2, 3, 4, 5, 6, 7, 8, 9, 10, 11, 12, 13, 14, 15}.
    hex_value (hex_digit n) = Some n \<and> hex_digit n \<noteq> CHR ''+''" by code_simp
  ultimately show ?thesis by blast
qed

lemma parse_pair_hex: "parse_pair [hex_digit (unat b div 16), hex_digit (unat b mod 16)] = Some (b :: byte)"
proof -
  have "unat b < 256" using unsigned_less [of b] by simp
  then have "unat b div 16 < 16" by simp
  moreover have "unat b mod 16 < 16" by simp
  moreover have n: "16 * (unat b div 16) + unat b mod 16 = unat b" by simp
  have "(of_nat (16 * (unat b div 16) + unat b mod 16) :: byte) = b" unfolding n by simp
  ultimately show ?thesis using hex_digit_cases by simp
qed

lemma hex_of_pair: "i < length bs \<Longrightarrow>
  take 2 (drop (2 * i) (hex_of bs)) = [hex_digit (unat (bs ! i) div 16), hex_digit (unat (bs ! i) mod 16)]"
proof (induction bs arbitrary: i)
  case (Cons b bs)
  show ?case
  proof (cases i)
    case (Suc j)
    with Cons show ?thesis by (simp add: hex_of_def)
  qed (simp add: hex_of_def)
qed simp

lemma decode_digest_hex: "length bs = 32 \<Longrightarrow> decode_digest (hex_of bs) = Some bs"
proof -
  assume l: "length bs = 32"
  have "map (\<lambda>i. parse_pair (take 2 (drop (2 * i) (hex_of bs)))) [0..<32] = map (\<lambda>i. Some (bs ! i)) [0..<32]"
    by (rule map_cong [OF refl]) (simp only: set_upt atLeastLessThan_iff l hex_of_pair parse_pair_hex)
  moreover have "map ((!) bs) [0..<32] = bs" using map_nth [of bs] l by simp
  ultimately show ?thesis unfolding decode_digest_def by (simp only: those_map_Some)
qed

lemma hex_of_inject: "length xs = 32 \<Longrightarrow> length ys = 32 \<Longrightarrow> hex_of xs = hex_of ys \<Longrightarrow> xs = ys"
  by (metis decode_digest_hex option.inject)

subsection \<open>The hash follows the graph\<close>

text \<open>What the hash relies on: a digest has 32 bytes.\<close>

locale graph_hashing =
  fixes E :: graph_env
  assumes digest_length: "length (digest_bytes (ge_sha256 E bs)) = 32"
begin

definition object_digest :: "graph_object \<Rightarrow> byte list" where
  "object_digest ob = digest_bytes (ge_sha256 E (map of_char ''object'' @ [0] @ ge_json_object E ob))"

definition relation_digest :: "graph_relation \<Rightarrow> byte list" where
  "relation_digest r = digest_bytes (ge_sha256 E (map of_char ''relation'' @ [0] @ ge_json_relation E r))"

lemma contributions [simp]:
  "object_contribution E ob = Inr (object_digest ob)" "relation_contribution E r = Inr (relation_digest r)"
  unfolding object_contribution_def relation_contribution_def contribution_def sha256_digest_def
    object_digest_def relation_digest_def decode_digest_hex [OF digest_length] by simp_all

lemma digests_length [simp]: "length (object_digest ob) = 32" "length (relation_digest r) = 32"
  unfolding object_digest_def relation_digest_def by (rule digest_length)+

definition graph_sum :: "state_graph \<Rightarrow> int" where
  "graph_sum g = sum_list (map (\<lambda>ob. be_value (object_digest ob)) (bt_values (sg_objects g))) +
     sum_list (map (\<lambda>r. be_value (relation_digest r)) (bt_values (sg_relations g)))"

lemma add_all_value:
  assumes "\<And>x. c x = Inr (d x)" "\<And>x. length (d x) = 32" "length h = 32"
  shows "\<exists>h'. add_all c xs h = Inr h' \<and> length h' = 32 \<and>
    be_value h' mod hash_modulus = (be_value h + sum_list (map (\<lambda>x. be_value (d x)) xs)) mod hash_modulus"
  using assms(3)
proof (induction xs arbitrary: h)
  case (Cons x xs)
  note add = hash_add_value [OF Cons.prems assms(2) [of x]]
  from Cons.IH [OF add(1)] obtain h' where h': "add_all c xs (hash_add h (d x)) = Inr h'" "length h' = 32"
    "be_value h' mod hash_modulus =
      (be_value (hash_add h (d x)) + sum_list (map (\<lambda>x. be_value (d x)) xs)) mod hash_modulus" by blast
  moreover have "(be_value (hash_add h (d x)) + sum_list (map (\<lambda>x. be_value (d x)) xs)) mod hash_modulus =
      (be_value h + sum_list (map (\<lambda>x. be_value (d x)) (x # xs))) mod hash_modulus"
    by (simp add: add(2) mod_add_left_eq add.assoc)
  moreover have "add_all c (x # xs) h = add_all c xs (hash_add h (d x))" using assms(1) [of x] by simp
  ultimately show ?case by metis
qed simp

definition tracks :: "byte list \<Rightarrow> state_graph \<Rightarrow> bool" where
  "tracks h g \<longleftrightarrow> length h = 32 \<and> be_value h mod hash_modulus = graph_sum g mod hash_modulus"

lemma tracks_unique: "tracks h g \<Longrightarrow> tracks h' g \<Longrightarrow> h = h'"
proof -
  assume "tracks h g" "tracks h' g"
  then have "be_value h = be_value h'" "length h = length h'"
    using be_value_mod [of h] be_value_mod [of h'] by (simp_all add: tracks_def)
  then show ?thesis by (rule be_value_inject [rotated])
qed

lemma hash_default_tracks: "tracks hash_default graph_default"
  by (simp add: tracks_def hash_default_def graph_sum_def graph_default_def numeral_eq_Suc)

lemma from_graph_tracks: "\<exists>h. hash_from_graph E g = Inr h \<and> tracks h g"
proof -
  have d: "length hash_default = 32" "be_value hash_default = 0" by (simp_all add: hash_default_def numeral_eq_Suc)
  obtain h1 where h1: "add_all (object_contribution E) (bt_values (sg_objects g)) hash_default = Inr h1" "length h1 = 32"
    "be_value h1 mod hash_modulus =
      (be_value hash_default + sum_list (map (\<lambda>x. be_value (object_digest x)) (bt_values (sg_objects g)))) mod hash_modulus"
    using add_all_value [of "object_contribution E" object_digest hash_default "bt_values (sg_objects g)"] d(1)
    by (simp del: map_map) blast
  obtain h2 where h2: "add_all (relation_contribution E) (bt_values (sg_relations g)) h1 = Inr h2" "length h2 = 32"
    "be_value h2 mod hash_modulus =
      (be_value h1 + sum_list (map (\<lambda>x. be_value (relation_digest x)) (bt_values (sg_relations g)))) mod hash_modulus"
    using add_all_value [of "relation_contribution E" relation_digest h1 "bt_values (sg_relations g)"] h1(2)
    by (simp del: map_map) blast
  have "be_value h2 mod hash_modulus = graph_sum g mod hash_modulus"
    unfolding h2(3) graph_sum_def using h1(3) d(2) by (metis add_0 mod_add_left_eq)
  with h1(1) h2 show ?thesis by (simp add: hash_from_graph_def tracks_def)
qed

lemma tracks_add:
  "tracks h g \<Longrightarrow> length v = 32 \<Longrightarrow> graph_sum g' = graph_sum g + be_value v \<Longrightarrow> tracks (hash_add h v) g'"
  using hash_add_value [of h v] by (simp add: tracks_def) (metis mod_add_left_eq)

lemma tracks_subtract:
  "tracks h g \<Longrightarrow> length v = 32 \<Longrightarrow> graph_sum g' = graph_sum g - be_value v \<Longrightarrow> tracks (hash_subtract h v) g'"
  using hash_subtract_value [of h v] by (simp add: tracks_def) (metis mod_diff_left_eq)

lemma tracks_replace:
  assumes "tracks h g" "length old = 32" "length new = 32" "graph_sum g' = be_value new - be_value old + graph_sum g"
  shows "tracks (hash_add (hash_subtract h old) new) g'"
proof -
  have s: "length (hash_subtract h old) = 32"
    "be_value (hash_subtract h old) = (be_value h - be_value old) mod hash_modulus"
    using hash_subtract_value [of h old] assms(1,2) by (simp_all add: tracks_def)
  note a = hash_add_value [OF s(1) assms(3)]
  have "be_value (hash_add (hash_subtract h old) new) mod hash_modulus
      = ((be_value h - be_value old) mod hash_modulus + be_value new) mod hash_modulus" by (simp add: a(2) s(2))
  also have "\<dots> = (be_value h - be_value old + be_value new) mod hash_modulus" by (rule mod_add_left_eq)
  also have "\<dots> = (graph_sum g - be_value old + be_value new) mod hash_modulus"
    using assms(1) by (intro mod_add_cong mod_diff_cong refl) (simp add: tracks_def)
  also have "\<dots> = (be_value new - be_value old + graph_sum g) mod hash_modulus" by (simp add: algebra_simps)
  finally show ?thesis using a(1) assms(4) by (simp add: tracks_def)
qed

lemma graph_sum_objects: "graph_sum (g\<lparr>sg_objects := m, sg_version := n\<rparr>) =
    graph_sum g - sum_list (map (\<lambda>ob. be_value (object_digest ob)) (bt_values (sg_objects g))) +
    sum_list (map (\<lambda>ob. be_value (object_digest ob)) (bt_values m))"
  by (simp add: graph_sum_def)

lemma graph_sum_relations: "graph_sum (g\<lparr>sg_relations := m, sg_version := n\<rparr>) =
    graph_sum g - sum_list (map (\<lambda>r. be_value (relation_digest r)) (bt_values (sg_relations g))) +
    sum_list (map (\<lambda>r. be_value (relation_digest r)) (bt_values m))"
  by (simp add: graph_sum_def)

lemmas graph_sum_changes = graph_sum_objects graph_sum_relations
lemmas bt_sums = sum_bt_insert_new sum_bt_insert_old sum_bt_remove

text \<open>An update of the hash by the contributions that an event changes follows the graph.\<close>

lemma hash_apply_tracks:
  assumes ok: "graph_ok g" "tracks h g" and step: "graph_apply ev g = Inr (m, g')"
  shows "\<exists>h'. hash_apply E ev g h = Inr h' \<and> tracks h' g'"
proof (cases ev)
  case (ObjectCreated i t d)
  let ?ob = "\<lparr>ob_id = i, ob_type = t, ob_data = d, ob_version = 1\<rparr>"
  have g': "map_of (sg_objects g) i = None" "g' = g\<lparr>sg_objects := bt_insert i ?ob (sg_objects g), sg_version := sg_version g + 1\<rparr>"
    using step ObjectCreated by (auto simp: bump_version_def split: if_splits)
  have "tracks (hash_add h (object_digest ?ob)) g'"
    by (rule tracks_add [OF ok(2)]) (simp_all add: g' graph_sum_changes bt_sums del: map_map)
  with ObjectCreated show ?thesis by simp
next
  case (ObjectUpdated i v d)
  then obtain ob where ob: "map_of (sg_objects g) i = Some ob" "v = ob_version ob + 1"
    "g' = g\<lparr>sg_objects := bt_insert i (ob\<lparr>ob_version := v, ob_data := d\<rparr>) (sg_objects g), sg_version := sg_version g + 1\<rparr>"
    using step by (auto simp: bump_version_def split: option.splits if_splits)
  let ?new = "\<lparr>ob_id = i, ob_type = ob_type ob, ob_data = d, ob_version = v\<rparr>"
  have "bt_ok (sg_objects g)" "ob_id ob = i" using ok(1) ob(1) by (simp_all add: graph_ok_def)
  then have new: "ob\<lparr>ob_version := v, ob_data := d\<rparr> = ?new" by (cases ob) simp
  have "tracks (hash_add (hash_subtract h (object_digest ob)) (object_digest ?new)) g'"
    by (rule tracks_replace [OF ok(2)])
      (simp_all add: ob(3) new graph_sum_changes sum_bt_insert_old [OF \<open>bt_ok (sg_objects g)\<close> ob(1)] del: map_map)
  with ObjectUpdated ob(1) show ?thesis by simp
next
  case (ObjectRemoved i v)
  then obtain ob where ob: "map_of (sg_objects g) i = Some ob"
    "g' = g\<lparr>sg_objects := bt_remove i (sg_objects g), sg_version := sg_version g + 1\<rparr>"
    using step by (auto simp: bump_version_def split: option.splits if_splits)
  have "bt_ok (sg_objects g)" using ok(1) by (simp add: graph_ok_def)
  then have "tracks (hash_subtract h (object_digest ob)) g'"
    by (intro tracks_subtract [OF ok(2)]) (simp_all add: ob graph_sum_changes bt_sums del: map_map)
  with ObjectRemoved ob(1) show ?thesis by simp
next
  case (RelationCreated i t s u d)
  let ?r = "\<lparr>re_id = i, re_type = t, re_source = s, re_target = u, re_data = d, re_version = 1\<rparr>"
  have g': "map_of (sg_relations g) i = None"
    "g' = g\<lparr>sg_relations := bt_insert i ?r (sg_relations g), sg_version := sg_version g + 1\<rparr>"
    using step RelationCreated by (auto simp: bump_version_def split: if_splits)
  have "tracks (hash_add h (relation_digest ?r)) g'"
    by (rule tracks_add [OF ok(2)]) (simp_all add: g' graph_sum_changes bt_sums del: map_map)
  with RelationCreated show ?thesis by simp
next
  case (RelationUpdated i v d)
  then obtain r where r: "map_of (sg_relations g) i = Some r" "v = re_version r + 1"
    "g' = g\<lparr>sg_relations := bt_insert i (r\<lparr>re_version := v, re_data := d\<rparr>) (sg_relations g), sg_version := sg_version g + 1\<rparr>"
    using step by (auto simp: bump_version_def split: option.splits if_splits)
  let ?new = "\<lparr>re_id = i, re_type = re_type r, re_source = re_source r, re_target = re_target r, re_data = d, re_version = v\<rparr>"
  have "bt_ok (sg_relations g)" "re_id r = i" using ok(1) r(1) by (simp_all add: graph_ok_def)
  then have new: "r\<lparr>re_version := v, re_data := d\<rparr> = ?new" by (cases r) simp
  have "tracks (hash_add (hash_subtract h (relation_digest r)) (relation_digest ?new)) g'"
    by (rule tracks_replace [OF ok(2)])
      (simp_all add: r(3) new graph_sum_changes sum_bt_insert_old [OF \<open>bt_ok (sg_relations g)\<close> r(1)] del: map_map)
  with RelationUpdated r(1) show ?thesis by simp
next
  case (RelationRemoved i v)
  then obtain r where r: "map_of (sg_relations g) i = Some r"
    "g' = g\<lparr>sg_relations := bt_remove i (sg_relations g), sg_version := sg_version g + 1\<rparr>"
    using step by (auto simp: bump_version_def split: option.splits if_splits)
  have "bt_ok (sg_relations g)" using ok(1) by (simp add: graph_ok_def)
  then have "tracks (hash_subtract h (relation_digest r)) g'"
    by (intro tracks_subtract [OF ok(2)]) (simp_all add: r graph_sum_changes bt_sums del: map_map)
  with RelationRemoved r(1) show ?thesis by simp
qed (use ok(2) step in simp_all)

lemma hash_apply_from_graph:
  assumes "graph_ok g" "hash_from_graph E g = Inr h" "graph_apply ev g = Inr (m, g')"
  shows "\<exists>h'. hash_apply E ev g h = Inr h' \<and> hash_from_graph E g' = Inr h'"
proof -
  have "tracks h g" using from_graph_tracks [of g] assms(2) by auto
  then obtain h' where h': "hash_apply E ev g h = Inr h'" "tracks h' g'" using hash_apply_tracks [OF assms(1) _ assms(3)] by blast
  moreover obtain h'' where "hash_from_graph E g' = Inr h''" "tracks h'' g'" using from_graph_tracks by blast
  ultimately show ?thesis using tracks_unique by blast
qed

end

interpretation gh: graph_hashing E for E
  by unfold_locales (simp add: digest_bytes_def)

end
