(* ===== verification/GraphRuntimes.thy ===== *)
theory GraphRuntimes
  imports GraphHashing
begin

section \<open>The graph runtime\<close>

text \<open>
  \<^verbatim>\<open>core/src/state_graph/runtime.rs\<close>, the filters and behaviors of \<^verbatim>\<open>behavior.rs\<close> and the in-memory store of
  \<^verbatim>\<open>store.rs\<close>: appending events, validating and applying patches, reacting behaviors, projections of
  external streams, forks and restores.

  A method that takes \<^verbatim>\<open>&mut self\<close> and may fail is a function from a runtime to an outcome and a runtime:
  an early return keeps what was already changed.  Ids are drawn from the parameter \<open>ge_uuid\<close>, the runtime
  counts its draws.  A behavior is a name, a filter and any function of graph and event.  The loop of
  \<^verbatim>\<open>drain_behaviors\<close> ends because every record it enqueues was appended to a stream of bounded length.
\<close>

subsection \<open>Behaviors\<close>

record event_filter =
  ef_event_types :: "str list"
  ef_object_types :: "str list"
  ef_relation_types :: "str list"
  ef_predicate :: "(event_record \<Rightarrow> state_graph \<Rightarrow> bool) option"

definition event_object_type :: "event_record \<Rightarrow> state_graph \<Rightarrow> str option" where
  "event_object_type r g =
     (case er_event r of
        ObjectCreated i t d \<Rightarrow> Some t
      | ObjectUpdated i v d \<Rightarrow> map_option ob_type (map_of (sg_objects g) i)
      | _ \<Rightarrow> None)"

definition event_relation_type :: "event_record \<Rightarrow> state_graph \<Rightarrow> str option" where
  "event_relation_type r g =
     (case er_event r of
        RelationCreated i t s u d \<Rightarrow> Some t
      | RelationUpdated i v d \<Rightarrow> map_option re_type (map_of (sg_relations g) i)
      | _ \<Rightarrow> None)"

definition filter_matches :: "event_filter \<Rightarrow> event_record \<Rightarrow> state_graph \<Rightarrow> bool" where
  "filter_matches f r g \<longleftrightarrow>
     (ef_event_types f = [] \<or> event_type (er_event r) \<in> set (ef_event_types f)) \<and>
     (ef_object_types f = [] \<or> (case event_object_type r g of None \<Rightarrow> False | Some t \<Rightarrow> t \<in> set (ef_object_types f))) \<and>
     (ef_relation_types f = [] \<or> (case event_relation_type r g of None \<Rightarrow> False | Some t \<Rightarrow> t \<in> set (ef_relation_types f))) \<and>
     (case ef_predicate f of None \<Rightarrow> True | Some p \<Rightarrow> p r g)"

record behavior =
  bh_name :: str
  bh_filter :: event_filter
  bh_evaluate :: "state_graph \<Rightarrow> event_record \<Rightarrow> str + graph_patch list"

subsection \<open>State\<close>

record external_cursor =
  cu_sequence :: nat
  cu_event_id :: str
  cu_observed :: "nat \<rightharpoonup> str"

type_synonym cursors = "str \<times> str \<rightharpoonup> external_cursor"

record external_event =
  ev_source :: str
  ev_stream_id :: str
  ev_sequence :: nat
  ev_event_id :: str
  ev_name :: str
  ev_payload :: json

datatype projection_outcome = Applied | Duplicate

datatype runtime_error =
    Replay replay_error
  | DuplicateBehavior str
  | EventLimitExceeded nat
  | BehaviorDepthExceeded nat
  | InvalidFork nat
  | ExternalSequenceDiverged str str nat nat
  | ExternalEventConflict str str nat
  | InvalidExternalProjection str

record runtime_limits =
  lm_max_events :: nat
  lm_max_behavior_depth :: nat

definition limits_default :: runtime_limits where
  "limits_default = \<lparr>lm_max_events = 10000, lm_max_behavior_depth = 64\<rparr>"

record graph_runtime =
  rt_branch_id :: str
  rt_correlation_id :: "str option"
  rt_graph :: state_graph
  rt_hash :: "byte list"
  rt_events :: "event_record list"
  rt_behaviors :: "behavior list"
  rt_pending :: "(nat \<times> event_record) list"
  rt_limits :: runtime_limits
  rt_cursors :: cursors
  rt_draws :: nat

type_synonym 'a run = "graph_runtime \<Rightarrow> (runtime_error + 'a) \<times> graph_runtime"

definition bind_r :: "'a run \<Rightarrow> ('a \<Rightarrow> 'b run) \<Rightarrow> 'b run" where
  "bind_r f k rt = (case f rt of (Inl e, rt') \<Rightarrow> (Inl e, rt') | (Inr x, rt') \<Rightarrow> k x rt')"

definition new_id :: "graph_env \<Rightarrow> str \<Rightarrow> nat \<Rightarrow> str" where
  "new_id E prefix n = prefix @ ''-'' @ ge_uuid E n"

definition with_limits :: "graph_env \<Rightarrow> runtime_limits \<Rightarrow> nat \<Rightarrow> graph_runtime" where
  "with_limits E limits draws =
     \<lparr>rt_branch_id = new_id E ''branch'' draws, rt_correlation_id = None, rt_graph = graph_default,
      rt_hash = hash_default, rt_events = [], rt_behaviors = [], rt_pending = [], rt_limits = limits,
      rt_cursors = Map.empty, rt_draws = draws + 1\<rparr>"

definition with_correlation_id :: "str \<Rightarrow> graph_runtime \<Rightarrow> graph_runtime" where
  "with_correlation_id c rt = rt\<lparr>rt_correlation_id := Some c\<rparr>"

definition register :: "behavior \<Rightarrow> unit run" where
  "register b rt =
     (if bh_name b \<in> set (map bh_name (rt_behaviors rt)) then (Inl (DuplicateBehavior (bh_name b)), rt)
      else (Inr (), rt\<lparr>rt_behaviors := rt_behaviors rt @ [b]\<rparr>))"

subsection \<open>Appending\<close>

text \<open>The digest is computed again only when the graph changed or the last record has the old schema.\<close>

definition next_state_hash :: "graph_env \<Rightarrow> graph_runtime \<Rightarrow> state_graph \<Rightarrow> byte list \<Rightarrow> str" where
  "next_state_hash E rt g h =
     (if sg_version g = sg_version (rt_graph rt) \<and> rt_events rt \<noteq> [] \<and>
         er_schema_version (last (rt_events rt)) = GRAPH_EVENT_SCHEMA_VERSION
      then er_state_hash_after (last (rt_events rt))
      else hash_digest E (sg_version g) h)"

definition new_record ::
    "graph_env \<Rightarrow> graph_runtime \<Rightarrow> graph_event \<Rightarrow> str option \<Rightarrow> state_graph \<Rightarrow> byte list \<Rightarrow> event_record" where
  "new_record E rt event cause g h =
     (let r = \<lparr>er_schema_version = GRAPH_EVENT_SCHEMA_VERSION, er_id = new_id E ''event'' (rt_draws rt),
         er_sequence = length (rt_events rt), er_timestamp_ms = ge_clock E (rt_draws rt),
         er_branch_id = rt_branch_id rt, er_causation_id = cause, er_correlation_id = rt_correlation_id rt,
         er_state_version_before = sg_version (rt_graph rt), er_state_version_after = sg_version g,
         er_state_hash_after = next_state_hash E rt g h,
         er_previous_record_hash = last_hash (rev (rt_events rt)), er_record_hash = [], er_event = event\<rparr>
      in r\<lparr>er_record_hash := record_hash E r\<rparr>)"

definition append_event :: "graph_env \<Rightarrow> graph_event \<Rightarrow> str option \<Rightarrow> event_record run" where
  "append_event E event cause rt =
     (if length (rt_events rt) \<ge> lm_max_events (rt_limits rt)
      then (Inl (EventLimitExceeded (lm_max_events (rt_limits rt))), rt)
      else (case hash_apply E event (rt_graph rt) (rt_hash rt) of
          Inl e \<Rightarrow> (Inl (Replay e), rt)
        | Inr h \<Rightarrow>
          (case graph_apply event (rt_graph rt) of
             Inl e \<Rightarrow> (Inl (Replay e), rt)
           | Inr (mutated, g) \<Rightarrow>
             let r = new_record E rt event cause g h
             in (Inr r, rt\<lparr>rt_graph := g, rt_hash := h, rt_events := rt_events rt @ [r], rt_draws := rt_draws rt + 1\<rparr>))))"

definition push_pending :: "nat \<Rightarrow> event_record \<Rightarrow> unit run" where
  "push_pending depth r rt = (Inr (), rt\<lparr>rt_pending := rt_pending rt @ [(depth, r)]\<rparr>)"

subsection \<open>Patches\<close>

record validation_view =
  pv_graph :: state_graph
  pv_objects :: "(str \<times> graph_object option) list"
  pv_relations :: "(str \<times> graph_relation option) list"

definition view_new :: "state_graph \<Rightarrow> validation_view" where
  "view_new g = \<lparr>pv_graph = g, pv_objects = [], pv_relations = []\<rparr>"

definition view_object :: "validation_view \<Rightarrow> str \<Rightarrow> graph_object option" where
  "view_object v i = (case map_of (pv_objects v) i of Some ob \<Rightarrow> ob | None \<Rightarrow> map_of (sg_objects (pv_graph v)) i)"

definition view_relation :: "validation_view \<Rightarrow> str \<Rightarrow> graph_relation option" where
  "view_relation v i = (case map_of (pv_relations v) i of Some r \<Rightarrow> r | None \<Rightarrow> map_of (sg_relations (pv_graph v)) i)"

definition object_has_relations :: "validation_view \<Rightarrow> str \<Rightarrow> bool" where
  "object_has_relations v i \<longleftrightarrow>
     list_ex (\<lambda>base. case view_relation v (re_id base) of None \<Rightarrow> False | Some r \<Rightarrow> touches i r)
       (bt_values (sg_relations (pv_graph v))) \<or>
     list_ex (\<lambda>r. case r of None \<Rightarrow> False | Some r \<Rightarrow> map_of (sg_relations (pv_graph v)) (re_id r) = None \<and> touches i r)
       (bt_values (pv_relations v))"

fun view_apply :: "patch_operation \<Rightarrow> validation_view \<Rightarrow> str + graph_event \<times> validation_view" where
  "view_apply (AddObject i t d) v =
     (if view_object v i \<noteq> None then Inl (''object `'' @ i @ ''` already exists'')
      else Inr (ObjectCreated i t d, v\<lparr>pv_objects :=
        bt_insert i (Some \<lparr>ob_id = i, ob_type = t, ob_data = d, ob_version = 1\<rparr>) (pv_objects v)\<rparr>))"
| "view_apply (UpdateObject i n d) v =
     (case view_object v i of
        None \<Rightarrow> Inl (''object `'' @ i @ ''` does not exist'')
      | Some ob \<Rightarrow>
          if ob_version ob \<noteq> n then
            Inl (''object `'' @ i @ ''` version conflict: expected '' @ show_nat n @ '', current '' @ show_nat (ob_version ob))
          else Inr (ObjectUpdated i (ob_version ob + 1) d, v\<lparr>pv_objects :=
            bt_insert i (Some (ob\<lparr>ob_data := d, ob_version := ob_version ob + 1\<rparr>)) (pv_objects v)\<rparr>))"
| "view_apply (RemoveObject i n) v =
     (case view_object v i of
        None \<Rightarrow> Inl (''object `'' @ i @ ''` does not exist'')
      | Some ob \<Rightarrow>
          if ob_version ob \<noteq> n then Inl (''object `'' @ i @ ''` version conflict'')
          else if object_has_relations v i then Inl (''object `'' @ i @ ''` still has relations'')
          else Inr (ObjectRemoved i (ob_version ob + 1), v\<lparr>pv_objects := bt_insert i None (pv_objects v)\<rparr>))"
| "view_apply (AddRelation i t s u d) v =
     (if view_relation v i \<noteq> None then Inl (''relation `'' @ i @ ''` already exists'')
      else if view_object v s = None \<or> view_object v u = None then Inl (''relation `'' @ i @ ''` has a missing endpoint'')
      else Inr (RelationCreated i t s u d, v\<lparr>pv_relations :=
        bt_insert i (Some \<lparr>re_id = i, re_type = t, re_source = s, re_target = u, re_data = d, re_version = 1\<rparr>) (pv_relations v)\<rparr>))"
| "view_apply (UpdateRelation i n d) v =
     (case view_relation v i of
        None \<Rightarrow> Inl (''relation `'' @ i @ ''` does not exist'')
      | Some r \<Rightarrow>
          if re_version r \<noteq> n then Inl (''relation `'' @ i @ ''` version conflict'')
          else Inr (RelationUpdated i (re_version r + 1) d, v\<lparr>pv_relations :=
            bt_insert i (Some (r\<lparr>re_data := d, re_version := re_version r + 1\<rparr>)) (pv_relations v)\<rparr>))"
| "view_apply (RemoveRelation i n) v =
     (case view_relation v i of
        None \<Rightarrow> Inl (''relation `'' @ i @ ''` does not exist'')
      | Some r \<Rightarrow>
          if re_version r \<noteq> n then Inl (''relation `'' @ i @ ''` version conflict'')
          else Inr (RelationRemoved i (re_version r + 1), v\<lparr>pv_relations := bt_insert i None (pv_relations v)\<rparr>))"

fun view_apply_all :: "patch_operation list \<Rightarrow> validation_view \<Rightarrow> str + graph_event list" where
  "view_apply_all [] v = Inr []"
| "view_apply_all (op # ops) v =
     bind_e (view_apply op v) (\<lambda>(e, v). bind_e (view_apply_all ops v) (\<lambda>es. Inr (e # es)))"

definition validate_patch :: "graph_patch \<Rightarrow> state_graph \<Rightarrow> str + graph_event list" where
  "validate_patch patch g =
     (if pa_expected_graph_version patch \<noteq> sg_version g then
        Inl (''graph version conflict: expected '' @ show_nat (pa_expected_graph_version patch) @
          '', current '' @ show_nat (sg_version g))
      else view_apply_all (pa_operations patch) (view_new g))"

text \<open>The loop that appends the mutations of a patch, each caused by the one before; \<open>depth\<close> is \<open>None\<close> in
  \<^verbatim>\<open>project_external\<close>, which does not react to them.\<close>

fun append_chain :: "graph_env \<Rightarrow> graph_event list \<Rightarrow> str \<Rightarrow> nat option \<Rightarrow> str run" where
  "append_chain E [] cause depth = (\<lambda>rt. (Inr cause, rt))"
| "append_chain E (e # es) cause depth =
     bind_r (append_event E e (Some cause)) (\<lambda>r.
     bind_r (case depth of None \<Rightarrow> (\<lambda>rt. (Inr (), rt)) | Some d \<Rightarrow> push_pending d r) (\<lambda>_.
     append_chain E es (er_id r) depth))"

text \<open>After the proposal: one rejection, or the mutations and the confirmation.\<close>

definition conclude_patch ::
    "graph_env \<Rightarrow> str \<Rightarrow> nat \<Rightarrow> str + graph_event list \<Rightarrow> str \<Rightarrow> bool run" where
  "conclude_patch E patch_id depth validation proposed =
     (case validation of
        Inl reason \<Rightarrow>
          bind_r (append_event E (PatchRejected patch_id reason) (Some proposed)) (\<lambda>rejected.
          bind_r (push_pending depth rejected) (\<lambda>_ rt. (Inr False, rt)))
      | Inr es \<Rightarrow>
          bind_r (append_chain E es proposed (Some depth)) (\<lambda>last_cause.
          bind_r (append_event E (PatchApplied patch_id) (Some last_cause)) (\<lambda>applied.
          bind_r (push_pending depth applied) (\<lambda>_ rt. (Inr True, rt)))))"

definition apply_patch :: "graph_env \<Rightarrow> graph_patch \<Rightarrow> str option \<Rightarrow> nat \<Rightarrow> bool run" where
  "apply_patch E patch cause depth rt =
     (let patch_id = new_id E ''patch'' (rt_draws rt);
          rt = rt\<lparr>rt_draws := rt_draws rt + 1\<rparr>;
          validation = validate_patch patch (rt_graph rt);
          required = (case validation of Inl _ \<Rightarrow> 2 | Inr es \<Rightarrow> length es + 2)
      in if length (rt_events rt) + required > lm_max_events (rt_limits rt)
         then (Inl (EventLimitExceeded (lm_max_events (rt_limits rt))), rt)
         else
           bind_r (append_event E (PatchProposed patch_id patch) cause) (\<lambda>proposed.
           bind_r (push_pending depth proposed) (\<lambda>_.
           conclude_patch E patch_id depth validation (er_id proposed))) rt)"

subsection \<open>Reactions\<close>

fun apply_patches :: "graph_env \<Rightarrow> graph_patch list \<Rightarrow> str option \<Rightarrow> nat \<Rightarrow> unit run" where
  "apply_patches E [] cause depth = (\<lambda>rt. (Inr (), rt))"
| "apply_patches E (p # ps) cause depth =
     bind_r (apply_patch E p cause depth) (\<lambda>_. apply_patches E ps cause depth)"

definition run_behavior :: "graph_env \<Rightarrow> nat \<Rightarrow> event_record \<Rightarrow> behavior \<Rightarrow> unit run" where
  "run_behavior E depth trigger b =
     bind_r (append_event E (BehaviorStarted (bh_name b)) (Some (er_id trigger))) (\<lambda>_ rt.
       case bh_evaluate b (rt_graph rt) trigger of
         Inr patches \<Rightarrow>
           bind_r (apply_patches E patches (Some (er_id trigger)) (depth + 1)) (\<lambda>_.
           bind_r (append_event E (BehaviorCompleted (bh_name b)) (Some (er_id trigger))) (\<lambda>_ rt. (Inr (), rt))) rt
       | Inl message \<Rightarrow>
           bind_r (append_event E (BehaviorFailed (bh_name b) message) (Some (er_id trigger))) (\<lambda>_ rt. (Inr (), rt)) rt)"

fun run_behaviors :: "graph_env \<Rightarrow> nat \<Rightarrow> event_record \<Rightarrow> behavior list \<Rightarrow> unit run" where
  "run_behaviors E depth trigger [] = (\<lambda>rt. (Inr (), rt))"
| "run_behaviors E depth trigger (b # bs) =
     bind_r (run_behavior E depth trigger b) (\<lambda>_. run_behaviors E depth trigger bs)"

text \<open>What is left to do: the records waiting for a reaction and the room for new ones.\<close>

definition room :: "graph_runtime \<Rightarrow> nat" where
  "room rt = length (rt_pending rt) + (lm_max_events (rt_limits rt) - length (rt_events rt))"

lemma bind_r_room:
  assumes "\<And>rt. room (snd (f rt)) \<le> room rt" "\<And>x rt. room (snd (k x rt)) \<le> room rt"
  shows "room (snd (bind_r f k rt)) \<le> room rt"
proof (cases "f rt")
  case (Pair x rt')
  with assms(1) [of rt] have "room rt' \<le> room rt" by simp
  with Pair le_trans [OF assms(2)] show ?thesis by (cases x) (simp_all add: bind_r_def)
qed

lemma append_event_room:
  "room (snd (append_event E e c rt)) \<le> room rt"
  "append_event E e c rt = (Inr r, rt') \<Longrightarrow> Suc (room rt') = room rt"
  by (auto simp: append_event_def room_def Let_def split: sum.split prod.split if_splits sum.splits)

lemma append_push_room:
  "room (snd (bind_r (append_event E e c) (\<lambda>r. bind_r (push_pending d r) (k r)) rt)) \<le> room rt"
  if "\<And>x y rt. room (snd (k x y rt)) \<le> room rt"
proof (cases "append_event E e c rt")
  case (Pair x rt1)
  show ?thesis
  proof (cases x)
    case (Inl err)
    with Pair append_event_room(1) [of E e c rt] show ?thesis by (simp add: bind_r_def)
  next
    case (Inr r)
    let ?rt2 = "rt1\<lparr>rt_pending := rt_pending rt1 @ [(d, r)]\<rparr>"
    have "room ?rt2 = room rt" using append_event_room(2) [of E e c rt r rt1] Pair Inr by (simp add: room_def)
    with that [of r "()" ?rt2] Pair Inr show ?thesis by (simp add: bind_r_def push_pending_def)
  qed
qed

lemma append_chain_room: "room (snd (append_chain E es c (Some d) rt)) \<le> room rt"
  by (induction es arbitrary: c rt) (auto intro!: append_push_room)

lemma conclude_patch_room: "room (snd (conclude_patch E i d v c rt)) \<le> room rt"
  unfolding conclude_patch_def
  by (auto intro!: append_push_room bind_r_room append_chain_room split: sum.split)

lemma apply_patch_room: "room (snd (apply_patch E p c d rt)) \<le> room rt"
proof -
  let ?rt = "rt\<lparr>rt_draws := rt_draws rt + 1\<rparr>"
  have "room ?rt = room rt" by (simp add: room_def)
  moreover have "room (snd (apply_patch E p c d rt)) \<le> room ?rt"
    unfolding apply_patch_def Let_def
    by (auto intro!: append_push_room conclude_patch_room)
  ultimately show ?thesis by simp
qed

lemma apply_patches_room: "room (snd (apply_patches E ps c d rt)) \<le> room rt"
  by (induction ps arbitrary: rt) (auto intro!: bind_r_room apply_patch_room)

lemma run_behavior_room: "room (snd (run_behavior E d t b rt)) \<le> room rt"
  unfolding run_behavior_def
  by (auto intro!: bind_r_room append_event_room(1) apply_patches_room split: sum.split)

lemma run_behaviors_room: "room (snd (run_behaviors E d t bs rt)) \<le> room rt"
  by (induction bs arbitrary: rt) (auto intro!: bind_r_room run_behavior_room)

function drain_behaviors :: "graph_env \<Rightarrow> unit run" where
  "drain_behaviors E rt =
     (case rt_pending rt of
        [] \<Rightarrow> (Inr (), rt)
      | (depth, trigger) # rest \<Rightarrow>
          let rt = rt\<lparr>rt_pending := rest\<rparr>; bound = lm_max_behavior_depth (rt_limits rt)
          in if depth \<ge> bound then (Inl (BehaviorDepthExceeded bound), rt)
             else (case run_behaviors E depth trigger
                     (filter (\<lambda>b. filter_matches (bh_filter b) trigger (rt_graph rt)) (rt_behaviors rt)) rt of
                 (Inl e, rt) \<Rightarrow> (Inl e, rt)
               | (Inr _, rt) \<Rightarrow> drain_behaviors E rt))"
  by pat_completeness auto

termination
proof (relation "measure (\<lambda>(E, rt). room rt)")
  fix E rt x rest depth trigger rt1 bound y y' u rt2
  assume "rt_pending rt = x # rest" "(depth, trigger) = x" and rt1: "rt1 = rt\<lparr>rt_pending := rest\<rparr>"
    and "(y, y') = run_behaviors E depth trigger
      (filter (\<lambda>b. filter_matches (bh_filter b) trigger (rt_graph rt1)) (rt_behaviors rt1)) rt1"
    and "y = Inr u"
  then have "room y' \<le> room rt1" using run_behaviors_room by (metis snd_conv)
  moreover have "Suc (room rt1) = room rt" using \<open>rt_pending rt = x # rest\<close> rt1 by (simp add: room_def)
  ultimately show "((E, y'), (E, rt)) \<in> measure (\<lambda>(E, rt). room rt)" by simp
qed simp

declare drain_behaviors.simps [simp del]

definition emit :: "graph_env \<Rightarrow> graph_event \<Rightarrow> event_record run" where
  "emit E event =
     bind_r (append_event E event None) (\<lambda>r.
     bind_r (push_pending 0 r) (\<lambda>_.
     bind_r (drain_behaviors E) (\<lambda>_ rt. (Inr r, rt))))"

definition run_goal :: "graph_env \<Rightarrow> str \<Rightarrow> event_record run" where
  "run_goal E goal = emit E (GoalCreated goal)"

definition propose_patch :: "graph_env \<Rightarrow> graph_patch \<Rightarrow> str option \<Rightarrow> bool run" where
  "propose_patch E patch cause =
     bind_r (apply_patch E patch cause 0) (\<lambda>applied.
     bind_r (drain_behaviors E) (\<lambda>_ rt. (Inr applied, rt)))"

subsection \<open>External streams\<close>

definition u64_succ :: "nat \<Rightarrow> nat" where
  "u64_succ n = (if n < 2 ^ 64 - 1 then n + 1 else 2 ^ 64 - 1)"

lemma u64_succ_code [code]: "u64_succ n = (if int n < 18446744073709551615 then Suc n else 2 ^ 64 - 1)"
  by (simp add: u64_succ_def)

definition expected_sequence :: "cursors \<Rightarrow> str \<times> str \<Rightarrow> nat" where
  "expected_sequence cs key = (case cs key of None \<Rightarrow> 1 | Some c \<Rightarrow> u64_succ (cu_sequence c))"

definition advance_cursor :: "str \<times> str \<Rightarrow> nat \<Rightarrow> str \<Rightarrow> cursors \<Rightarrow> cursors" where
  "advance_cursor key n event_id cs =
     (let observed = (case cs key of None \<Rightarrow> Map.empty | Some c \<Rightarrow> cu_observed c)
      in cs(key \<mapsto> \<lparr>cu_sequence = n, cu_event_id = event_id, cu_observed = observed(n \<mapsto> event_id)\<rparr>))"

definition cursor_step :: "event_record \<Rightarrow> cursors \<Rightarrow> replay_error + cursors" where
  "cursor_step r cs =
     (case er_event r of
        ExternalEventObserved source stream n event_id name payload \<Rightarrow>
          if n \<noteq> expected_sequence cs (source, stream) then
            Inl (InvalidMutation (''external stream `'' @ source @ ''/'' @ stream @ ''` sequence diverged: expected '' @
              show_nat (expected_sequence cs (source, stream)) @ '', got '' @ show_nat n))
          else Inr (advance_cursor (source, stream) n event_id cs)
      | _ \<Rightarrow> Inr cs)"

fun cursor_loop :: "event_record list \<Rightarrow> cursors \<Rightarrow> replay_error + cursors" where
  "cursor_loop [] cs = Inr cs"
| "cursor_loop (r # rs) cs = bind_e (cursor_step r cs) (cursor_loop rs)"

definition external_cursors :: "event_record list \<Rightarrow> replay_error + cursors" where
  "external_cursors rs = cursor_loop rs Map.empty"

definition strict_replay :: "graph_env \<Rightarrow> event_record list \<Rightarrow> replay_error + state_graph" where
  "strict_replay E rs = bind_e (external_cursors rs) (\<lambda>_. replay_strict E rs)"

definition check_external :: "external_event \<Rightarrow> graph_runtime \<Rightarrow> runtime_error + projection_outcome option" where
  "check_external ev rt =
     (let key = (ev_source ev, ev_stream_id ev);
          expected = expected_sequence (rt_cursors rt) key;
          diverged = (if ev_sequence ev \<noteq> expected
            then Inl (ExternalSequenceDiverged (ev_source ev) (ev_stream_id ev) expected (ev_sequence ev)) else Inr None)
      in (case rt_cursors rt key of
            None \<Rightarrow> diverged
          | Some c \<Rightarrow>
              if ev_sequence ev \<le> cu_sequence c then
                (if cu_observed c (ev_sequence ev) = Some (ev_event_id ev) then Inr (Some Duplicate)
                 else Inl (ExternalEventConflict (ev_source ev) (ev_stream_id ev) (ev_sequence ev)))
              else diverged))"

definition set_cursor :: "external_event \<Rightarrow> unit run" where
  "set_cursor ev rt =
     (Inr (), rt\<lparr>rt_cursors :=
        advance_cursor (ev_source ev, ev_stream_id ev) (ev_sequence ev) (ev_event_id ev) (rt_cursors rt)\<rparr>)"

text \<open>The end of a projection: the observation, its cursor, and the reactions to it.\<close>

definition observe_external :: "graph_env \<Rightarrow> external_event \<Rightarrow> event_record \<Rightarrow> projection_outcome run" where
  "observe_external E ev applied =
     bind_r (append_event E (ExternalEventObserved (ev_source ev) (ev_stream_id ev) (ev_sequence ev)
       (ev_event_id ev) (ev_name ev) (ev_payload ev)) (Some (er_id applied))) (\<lambda>observed.
     bind_r (set_cursor ev) (\<lambda>_.
     bind_r (push_pending 0 observed) (\<lambda>_.
     bind_r (drain_behaviors E) (\<lambda>_ rt. (Inr Applied, rt)))))"

definition project_external :: "graph_env \<Rightarrow> external_event \<Rightarrow> graph_patch \<Rightarrow> projection_outcome run" where
  "project_external E ev patch rt =
     (case check_external ev rt of
        Inl e \<Rightarrow> (Inl e, rt)
      | Inr (Some outcome) \<Rightarrow> (Inr outcome, rt)
      | Inr None \<Rightarrow>
        (case validate_patch patch (rt_graph rt) of
           Inl reason \<Rightarrow> (Inl (InvalidExternalProjection reason), rt)
         | Inr mutations \<Rightarrow>
             if length (rt_events rt) + (length mutations + 3) > lm_max_events (rt_limits rt)
             then (Inl (EventLimitExceeded (lm_max_events (rt_limits rt))), rt)
             else
               let patch_id = new_id E ''patch'' (rt_draws rt)
               in bind_r (append_event E (PatchProposed patch_id patch) None) (\<lambda>proposed.
                  bind_r (append_chain E mutations (er_id proposed) None) (\<lambda>last_cause.
                  bind_r (append_event E (PatchApplied patch_id) (Some last_cause)) (observe_external E ev)))
                  (rt\<lparr>rt_draws := rt_draws rt + 1\<rparr>)))"

subsection \<open>Restoring and forking\<close>

definition rebuild :: "graph_env \<Rightarrow> event_record list \<Rightarrow> replay_error + state_graph \<times> byte list \<times> cursors" where
  "rebuild E events =
     bind_e (replay_strict E events) (\<lambda>g.
     bind_e (hash_from_graph E g) (\<lambda>h.
     bind_e (external_cursors events) (\<lambda>cs. Inr (g, h, cs))))"

definition restore :: "graph_env \<Rightarrow> event_record list \<Rightarrow> nat \<Rightarrow> replay_error + graph_runtime" where
  "restore E events draws =
     bind_e (rebuild E events) (\<lambda>(g, h, cs). Inr
       \<lparr>rt_branch_id = (if events = [] then new_id E ''branch'' draws else er_branch_id (last events)),
        rt_correlation_id = (case List.find (\<lambda>r. er_correlation_id r \<noteq> None) (rev events) of
          None \<Rightarrow> None | Some r \<Rightarrow> er_correlation_id r),
        rt_graph = g, rt_hash = h, rt_events = events, rt_behaviors = [], rt_pending = [],
        rt_limits = limits_default, rt_cursors = cs, rt_draws = draws + 1\<rparr>)"

definition fork_at :: "graph_env \<Rightarrow> nat \<Rightarrow> graph_runtime \<Rightarrow> runtime_error + graph_runtime" where
  "fork_at E sequence_exclusive rt =
     (if sequence_exclusive > length (rt_events rt) then Inl (InvalidFork sequence_exclusive)
      else
        let events = take sequence_exclusive (rt_events rt)
        in (case rebuild E events of
              Inl e \<Rightarrow> Inl (Replay e)
            | Inr (g, h, cs) \<Rightarrow>
                let fork = \<lparr>rt_branch_id = new_id E ''branch'' (rt_draws rt), rt_correlation_id = rt_correlation_id rt,
                      rt_graph = g, rt_hash = h, rt_events = events, rt_behaviors = rt_behaviors rt, rt_pending = [],
                      rt_limits = rt_limits rt, rt_cursors = cs, rt_draws = rt_draws rt + 1\<rparr>;
                    cause = (if events = [] then None else Some (er_id (last events)))
                in (case append_event E (BranchForked (rt_branch_id rt) sequence_exclusive) cause fork of
                      (Inl e, _) \<Rightarrow> Inl e
                    | (Inr _, fork) \<Rightarrow> Inr fork)))"

subsection \<open>The in-memory store\<close>

datatype save_outcome = Saved | Conflict "str option"

datatype store_error = InvalidGeneration replay_error | DoesNotExtend

type_synonym memory_store = "str \<rightharpoonup> event_record list"

definition graph_event_head :: "event_record list \<Rightarrow> str option" where
  "graph_event_head events = last_hash (rev events)"

definition ensure_extends :: "event_record list option \<Rightarrow> event_record list \<Rightarrow> bool" where
  "ensure_extends current candidate \<longleftrightarrow>
     (case current of
        None \<Rightarrow> True
      | Some old \<Rightarrow> \<not> (length candidate < length old \<or> take (length old) candidate \<noteq> old))"

definition store_save :: "str \<Rightarrow> event_record list \<Rightarrow> memory_store \<Rightarrow> memory_store" where
  "store_save branch events st = st(branch \<mapsto> events)"

definition save_if_head ::
    "graph_env \<Rightarrow> str \<Rightarrow> str option \<Rightarrow> event_record list \<Rightarrow> memory_store \<Rightarrow> (store_error + save_outcome) \<times> memory_store" where
  "save_if_head E branch expected_head events st =
     (case strict_replay E events of
        Inl e \<Rightarrow> (Inl (InvalidGeneration e), st)
      | Inr _ \<Rightarrow>
          let current = st branch; actual_head = Option.bind current graph_event_head
          in if actual_head \<noteq> expected_head then (Inr (Conflict actual_head), st)
             else if \<not> ensure_extends current events then (Inl DoesNotExtend, st)
             else (Inr Saved, store_save branch events st))"

definition store_delete :: "str \<Rightarrow> memory_store \<Rightarrow> memory_store" where
  "store_delete branch st = st(branch := None)"

end
