(* ===== verification/GraphRuntimeLaws.thy ===== *)
theory GraphRuntimeLaws
  imports GraphRuntimes
begin

section \<open>The log is the source of truth\<close>

text \<open>
  The invariant of a runtime: its event stream replays to its graph, its hash and its cursors, and its next
  ids are fresh.  Appending one event keeps it; every operation only appends, so every operation keeps it,
  also when it fails halfway.
\<close>

subsection \<open>Replaying one more record\<close>

lemma replay_loop_append: "replay_loop E (xs @ ys) st = bind_e (replay_loop E xs st) (replay_loop E ys)"
  by (induction xs arbitrary: st) (auto simp: bind_e_def split: sum.split)

lemma cursor_loop_append: "cursor_loop (xs @ ys) cs = bind_e (cursor_loop xs cs) (cursor_loop ys)"
  by (induction xs arbitrary: cs) (auto simp: bind_e_def split: sum.split)

lemma replay_step_Inr:
  assumes "replay_step E r st = Inr st'"
  shows "replay_check E r st = None \<and>
    (\<exists>m. graph_apply (er_event r) (rp_graph st) = Inr (m, rp_graph st')) \<and>
    hash_apply E (er_event r) (rp_graph st) (rp_hash st) = Inr (rp_hash st') \<and>
    er_state_version_after r = sg_version (rp_graph st') \<and> rp_seen st' = insert (er_id r) (rp_seen st) \<and>
    rp_schema st' = er_schema_version r \<and> rp_done st' = r # rp_done st \<and>
    (er_schema_version r \<noteq> 1 \<longrightarrow> er_state_hash_after r = hash_digest E (sg_version (rp_graph st')) (rp_hash st'))"
  using assms
  by (auto simp: replay_step_def bind_e_Inr_iff Let_def split: option.splits if_splits prod.splits)

context graph_hashing begin

text \<open>What a successful replay has established.\<close>

definition replayed :: "event_record list \<Rightarrow> replay_state \<Rightarrow> bool" where
  "replayed rs st \<longleftrightarrow> rp_done st = rev rs \<and> rp_seen st = er_id ` set rs \<and> distinct (map er_id rs) \<and>
     graph_ok (rp_graph st) \<and> tracks (rp_hash st) (rp_graph st) \<and>
     MIN_GRAPH_EVENT_SCHEMA_VERSION \<le> rp_schema st \<and> rp_schema st \<le> GRAPH_EVENT_SCHEMA_VERSION \<and>
     sg_version (rp_graph st) \<le> length rs \<and>
     (rs \<noteq> [] \<longrightarrow> rp_schema st = er_schema_version (last rs)) \<and>
     (rs \<noteq> [] \<longrightarrow> er_schema_version (last rs) = GRAPH_EVENT_SCHEMA_VERSION \<longrightarrow>
        er_state_hash_after (last rs) = hash_digest E (sg_version (rp_graph st)) (rp_hash st))"

lemma replay_start_replayed: "replayed [] (replay_start E)"
  using hash_default_tracks
  by (simp add: replayed_def replay_start_def graph_default_ok MIN_GRAPH_EVENT_SCHEMA_VERSION_def
    GRAPH_EVENT_SCHEMA_VERSION_def) (simp add: graph_default_def)

lemma replay_step_replayed:
  assumes rs: "replayed rs st" and s: "replay_step E r st = Inr st'"
  shows "replayed (rs @ [r]) st'"
proof -
  note f = replay_step_Inr [OF s]
  then obtain m where a: "graph_apply (er_event r) (rp_graph st) = Inr (m, rp_graph st')" by blast
  have g: "graph_ok (rp_graph st)" "tracks (rp_hash st) (rp_graph st)" using rs by (simp_all add: replayed_def)
  have "sg_version (rp_graph st') \<le> Suc (sg_version (rp_graph st))" "graph_ok (rp_graph st')"
    using graph_apply_ok [OF g(1) a] by auto
  moreover have "tracks (rp_hash st') (rp_graph st')" using hash_apply_tracks [OF g a] f by auto
  moreover have "er_id r \<notin> er_id ` set rs" "MIN_GRAPH_EVENT_SCHEMA_VERSION \<le> er_schema_version r"
    "er_schema_version r \<le> GRAPH_EVENT_SCHEMA_VERSION"
    using f rs by (auto simp: replay_check_def replayed_def Let_def split: if_splits)
  ultimately show ?thesis using rs f
    by (simp add: replayed_def) (simp add: GRAPH_EVENT_SCHEMA_VERSION_def)
qed

lemma replay_loop_replayed:
  "replayed rs st \<Longrightarrow> replay_loop E rs' st = Inr st' \<Longrightarrow> replayed (rs @ rs') st'"
proof (induction rs' arbitrary: rs st)
  case (Cons r rs')
  then obtain st1 where s: "replay_step E r st = Inr st1" "replay_loop E rs' st1 = Inr st'" by (auto simp: bind_e_Inr_iff)
  from Cons.IH [OF replay_step_replayed [OF Cons.prems(1) s(1)] s(2)] show ?case by simp
qed simp

lemma replay_replayed: "replay_loop E rs (replay_start E) = Inr st \<Longrightarrow> replayed rs st"
  using replay_loop_replayed [OF replay_start_replayed] by simp

text \<open>A prefix of a stream that replays replays too.\<close>

lemma replay_prefix:
  assumes "replay_loop E (xs @ ys) st = Inr st'"
  shows "\<exists>st1. replay_loop E xs st = Inr st1"
  using assms by (auto simp: replay_loop_append bind_e_Inr_iff)

end

subsection \<open>The invariant of a runtime\<close>

definition event_ids :: "graph_runtime \<Rightarrow> str set" where
  "event_ids rt = er_id ` set (rt_events rt)"

definition cause_ok :: "graph_runtime \<Rightarrow> str option \<Rightarrow> bool" where
  "cause_ok rt c \<longleftrightarrow> (case c of None \<Rightarrow> True | Some i \<Rightarrow> i \<in> event_ids rt)"

definition log_ok :: "graph_env \<Rightarrow> graph_runtime \<Rightarrow> bool" where
  "log_ok E rt \<longleftrightarrow> (\<exists>st. replay_loop E (rt_events rt) (replay_start E) = Inr st \<and>
     rp_graph st = rt_graph rt \<and> rp_hash st = rt_hash rt) \<and>
     inj (ge_uuid E) \<and> (\<forall>n \<ge> rt_draws rt. new_id E ''event'' n \<notin> event_ids rt) \<and>
     (\<forall>(d, r) \<in> set (rt_pending rt). er_id r \<in> event_ids rt)"

definition runtime_ok :: "graph_env \<Rightarrow> graph_runtime \<Rightarrow> bool" where
  "runtime_ok E rt \<longleftrightarrow> log_ok E rt \<and> external_cursors (rt_events rt) = Inr (rt_cursors rt)"

fun is_external :: "graph_event \<Rightarrow> bool" where
  "is_external (ExternalEventObserved _ _ _ _ _ _) = True"
| "is_external _ = False"

lemma cursor_step_other: "\<not> is_external (er_event r) \<Longrightarrow> cursor_step r cs = Inr cs"
  by (cases "er_event r") (simp_all add: cursor_step_def)

lemma new_id_inject: "inj (ge_uuid E) \<Longrightarrow> new_id E p m = new_id E p n \<longleftrightarrow> m = n"
  by (auto simp: new_id_def inj_eq)

context graph_hashing begin

lemma append_event_Inr:
  assumes "append_event E e c rt = (Inr r, rt')"
  shows "\<exists>m g h. graph_apply e (rt_graph rt) = Inr (m, g) \<and> hash_apply E e (rt_graph rt) (rt_hash rt) = Inr h \<and>
    r = new_record E rt e c g h \<and>
    rt' = rt\<lparr>rt_graph := g, rt_hash := h, rt_events := rt_events rt @ [r], rt_draws := rt_draws rt + 1\<rparr>"
  using assms by (auto simp: append_event_def Let_def split: if_splits sum.splits prod.splits)

lemma append_event_Inl: "append_event E e c rt = (Inl err, rt') \<Longrightarrow> rt' = rt"
  by (auto simp: append_event_def Let_def split: if_splits sum.splits prod.splits)

lemma append_event_frame:
  assumes "append_event E e c rt = (Inr r, rt')"
  shows "rt_events rt' = rt_events rt @ [r]" "rt_pending rt' = rt_pending rt" "rt_cursors rt' = rt_cursors rt"
    "er_event r = e" "er_id r \<in> event_ids rt'" "event_ids rt' = insert (er_id r) (event_ids rt)"
    "rt_limits rt' = rt_limits rt" "er_causation_id r = c"
  using append_event_Inr [OF assms] by (auto simp: event_ids_def new_record_def Let_def)

text \<open>The record that \<open>append_event\<close> builds passes every check of the replay.\<close>

lemma new_record_replays:
  assumes st: "replay_loop E (rt_events rt) (replay_start E) = Inr st" "rp_graph st = rt_graph rt" "rp_hash st = rt_hash rt"
    and fresh: "new_id E ''event'' (rt_draws rt) \<notin> event_ids rt" and c: "cause_ok rt c"
    and a: "graph_apply e (rt_graph rt) = Inr (m, g)" and h: "hash_apply E e (rt_graph rt) (rt_hash rt) = Inr h"
  shows "\<exists>st'. replay_step E (new_record E rt e c g h) st = Inr st' \<and> rp_graph st' = g \<and> rp_hash st' = h"
proof -
  let ?r = "new_record E rt e c g h"
  have r: "er_schema_version ?r = 2" "er_id ?r = new_id E ''event'' (rt_draws rt)" "er_sequence ?r = length (rt_events rt)"
    "er_causation_id ?r = c" "er_previous_record_hash ?r = last_hash (rev (rt_events rt))"
    "er_state_version_before ?r = sg_version (rt_graph rt)" "er_state_version_after ?r = sg_version g"
    "er_state_hash_after ?r = next_state_hash E rt g h" "er_event ?r = e" "er_record_hash ?r = record_hash E ?r"
    by (simp_all add: new_record_def Let_def GRAPH_EVENT_SCHEMA_VERSION_def record_hash_def)
  from replay_replayed [OF st(1)] have p: "rp_done st = rev (rt_events rt)" "rp_seen st = event_ids rt" "rp_schema st \<le> 2"
    "graph_ok (rt_graph rt)"
    "rt_events rt \<noteq> [] \<longrightarrow> er_schema_version (last (rt_events rt)) = GRAPH_EVENT_SCHEMA_VERSION \<longrightarrow>
       er_state_hash_after (last (rt_events rt)) = hash_digest E (sg_version (rt_graph rt)) (rt_hash rt)"
    using st by (simp_all add: replayed_def event_ids_def GRAPH_EVENT_SCHEMA_VERSION_def)
  have "replay_check E ?r st = None"
    using r p(1-3) fresh c st(2)
    by (auto simp: replay_check_def Let_def MIN_GRAPH_EVENT_SCHEMA_VERSION_def GRAPH_EVENT_SCHEMA_VERSION_def
      cause_ok_def split: option.splits)
  moreover have "next_state_hash E rt g h = hash_digest E (sg_version g) h"
  proof (cases "sg_version g = sg_version (rt_graph rt)")
    case True
    then have "\<not> m" "g = rt_graph rt" using graph_apply_ok [OF p(4) a] by auto
    then have "h = rt_hash rt" using a h by (cases e) (auto simp: bump_version_def split: option.splits if_splits)
    with True p(5) \<open>g = rt_graph rt\<close> show ?thesis by (simp add: next_state_hash_def)
  qed (simp add: next_state_hash_def)
  ultimately show ?thesis using a h r st(2,3) by (simp add: replay_step_def)
qed

lemma append_event_log:
  assumes ok: "log_ok E rt" and c: "cause_ok rt c" and a: "append_event E e c rt = (Inr r, rt')"
  shows "log_ok E rt'"
proof -
  from append_event_Inr [OF a] obtain m g h where
    g: "graph_apply e (rt_graph rt) = Inr (m, g)" "hash_apply E e (rt_graph rt) (rt_hash rt) = Inr h"
      "r = new_record E rt e c g h"
      "rt' = rt\<lparr>rt_graph := g, rt_hash := h, rt_events := rt_events rt @ [r], rt_draws := rt_draws rt + 1\<rparr>" by blast
  obtain st where st: "replay_loop E (rt_events rt) (replay_start E) = Inr st" "rp_graph st = rt_graph rt" "rp_hash st = rt_hash rt"
    using ok by (auto simp: log_ok_def)
  have uuid: "inj (ge_uuid E)" using ok by (simp add: log_ok_def)
  have fresh: "new_id E ''event'' n \<notin> event_ids rt" if "n \<ge> rt_draws rt" for n using ok that by (auto simp: log_ok_def)
  obtain st' where st': "replay_step E r st = Inr st'" "rp_graph st' = g" "rp_hash st' = h"
    using new_record_replays [OF st fresh c g(1,2)] g(3) by auto
  have "replay_loop E (rt_events rt') (replay_start E) = Inr st'"
    using st(1) st'(1) g(4) by (simp add: replay_loop_append)
  moreover have "er_id r = new_id E ''event'' (rt_draws rt)" by (simp add: g(3) new_record_def Let_def)
  then have "new_id E ''event'' n \<notin> event_ids rt'" if "n \<ge> rt_draws rt'" for n
    using that fresh [of n] append_event_frame(6) [OF a] g(4) by (auto simp: new_id_inject [OF uuid])
  moreover have "\<forall>(d, x) \<in> set (rt_pending rt'). er_id x \<in> event_ids rt'"
    using ok append_event_frame(2,6) [OF a] by (auto simp: log_ok_def)
  ultimately show ?thesis using st' g(4) uuid by (auto simp: log_ok_def)
qed

lemma append_event_ok:
  assumes "runtime_ok E rt" "cause_ok rt c" "\<not> is_external e" "append_event E e c rt = (Inr r, rt')"
  shows "runtime_ok E rt'"
  using assms append_event_log [of rt c e r rt'] append_event_frame(1,3,4) [OF assms(4)]
  by (simp add: runtime_ok_def external_cursors_def cursor_loop_append cursor_step_other)

end

subsection \<open>Operations only append\<close>

definition steps :: "graph_env \<Rightarrow> graph_runtime \<Rightarrow> graph_runtime \<Rightarrow> bool" where
  "steps E rt rt' \<longleftrightarrow> runtime_ok E rt' \<and> (\<exists>new. rt_events rt' = rt_events rt @ new)"

lemma steps_refl: "runtime_ok E rt \<Longrightarrow> steps E rt rt"
  by (simp add: steps_def)

lemma steps_trans: "steps E a b \<Longrightarrow> steps E b c \<Longrightarrow> steps E a c"
  by (auto simp: steps_def)

lemma steps_ids: "steps E rt rt' \<Longrightarrow> event_ids rt \<subseteq> event_ids rt'"
  by (auto simp: steps_def event_ids_def)

lemma steps_cause: "steps E rt rt' \<Longrightarrow> cause_ok rt c \<Longrightarrow> cause_ok rt' c"
  using steps_ids [of E rt rt'] by (auto simp: cause_ok_def split: option.splits)

lemma bind_r_steps:
  assumes "steps E rt (snd (f rt))"
    and "\<And>x rt'. f rt = (Inr x, rt') \<Longrightarrow> steps E rt rt' \<Longrightarrow> steps E rt' (snd (k x rt'))"
  shows "steps E rt (snd (bind_r f k rt))"
proof (cases "f rt")
  case (Pair x rt')
  with assms show ?thesis by (cases x) (auto simp: bind_r_def intro: steps_trans)
qed

lemma push_pending_steps: "runtime_ok E rt \<Longrightarrow> er_id r \<in> event_ids rt \<Longrightarrow> steps E rt (snd (push_pending d r rt))"
  by (auto simp: push_pending_def steps_def runtime_ok_def log_ok_def event_ids_def)

lemma return_steps: "runtime_ok E rt \<Longrightarrow> steps E rt (snd (Inr x, rt))"
  by (simp add: steps_refl)

lemma steps_ok: "steps E rt rt' \<Longrightarrow> runtime_ok E rt'"
  by (simp add: steps_def)

lemma draw_ok: "runtime_ok E rt \<Longrightarrow> steps E rt (rt\<lparr>rt_draws := rt_draws rt + 1\<rparr>)"
  by (auto simp: steps_def runtime_ok_def log_ok_def event_ids_def)

context graph_hashing begin

lemma append_event_steps:
  "runtime_ok E rt \<Longrightarrow> cause_ok rt c \<Longrightarrow> \<not> is_external e \<Longrightarrow> steps E rt (snd (append_event E e c rt))"
proof (cases "append_event E e c rt")
  case (Pair x rt')
  assume ok: "runtime_ok E rt" "cause_ok rt c" "\<not> is_external e"
  show ?thesis
  proof (cases x)
    case (Inl err)
    with Pair append_event_Inl [of e c rt err rt'] ok(1) show ?thesis by (simp add: steps_refl)
  next
    case (Inr r)
    with append_event_ok [OF ok] append_event_frame(1) [of e c rt r rt'] Pair show ?thesis by (simp add: steps_def)
  qed
qed

lemma append_push_steps:
  assumes "runtime_ok E rt" "cause_ok rt c" "\<not> is_external e"
    and k: "\<And>r rt'. steps E rt rt' \<Longrightarrow> er_id r \<in> event_ids rt' \<Longrightarrow> steps E rt' (snd (k r rt'))"
  shows "steps E rt (snd (bind_r (append_event E e c) (\<lambda>r. bind_r (push_pending d r) (\<lambda>_. k r)) rt))"
proof (rule bind_r_steps)
  show "steps E rt (snd (append_event E e c rt))" by (rule append_event_steps [OF assms(1-3)])
  fix r rt1 assume a: "append_event E e c rt = (Inr r, rt1)" and s: "steps E rt rt1"
  have i: "er_id r \<in> event_ids rt1" by (rule append_event_frame(5) [OF a])
  show "steps E rt1 (snd (bind_r (push_pending d r) (\<lambda>_. k r) rt1))"
  proof (rule bind_r_steps)
    show p: "steps E rt1 (snd (push_pending d r rt1))" by (rule push_pending_steps [OF steps_ok [OF s] i])
    fix u rt2 assume "push_pending d r rt1 = (Inr u, rt2)" "steps E rt1 rt2"
    with k [of rt2 r] s i steps_trans steps_ids show "steps E rt2 (snd (k r rt2))" by blast
  qed
qed

lemma append_chain_steps:
  "runtime_ok E rt \<Longrightarrow> c \<in> event_ids rt \<Longrightarrow> list_all (\<lambda>e. \<not> is_external e) es \<Longrightarrow>
     steps E rt (snd (append_chain E es c d rt)) \<and>
     (\<forall>c' rt'. append_chain E es c d rt = (Inr c', rt') \<longrightarrow> c' \<in> event_ids rt')"
proof (induction es arbitrary: c rt)
  case (Cons e es)
  have e: "\<not> is_external e" "list_all (\<lambda>e. \<not> is_external e) es" "cause_ok rt (Some c)"
    using Cons.prems by (simp_all add: cause_ok_def)
  show ?case
  proof (cases "append_event E e (Some c) rt")
    case (Pair x rt1)
    have s: "steps E rt rt1" using append_event_steps [OF Cons.prems(1) e(3,1)] Pair by simp
    show ?thesis
    proof (cases x)
      case (Inl err)
      with Pair s show ?thesis by (simp add: bind_r_def)
    next
      case (Inr r)
      have i: "er_id r \<in> event_ids rt1" using append_event_frame(5) Pair Inr by blast
      let ?rt2 = "snd ((case d of None \<Rightarrow> (\<lambda>rt. (Inr (), rt)) | Some d \<Rightarrow> push_pending d r) rt1)"
      have s2: "steps E rt1 ?rt2"
        using push_pending_steps [OF steps_ok [OF s] i] steps_refl [OF steps_ok [OF s]] by (cases d) simp_all
      have i2: "er_id r \<in> event_ids ?rt2" using i steps_ids [OF s2] by blast
      have chain: "append_chain E (e # es) c d rt = append_chain E es (er_id r) d ?rt2"
        using Pair Inr by (cases d) (simp_all add: bind_r_def push_pending_def)
      show ?thesis unfolding chain
        using Cons.IH [OF steps_ok [OF s2] i2 e(2)] steps_trans [OF steps_trans [OF s s2]] by blast
    qed
  qed
qed (simp add: steps_refl)

lemma view_apply_internal: "view_apply op v = Inr (e, v') \<Longrightarrow> \<not> is_external e"
  by (cases op) (auto split: option.splits if_splits)

lemma validate_internal: "validate_patch p g = Inr es \<Longrightarrow> list_all (\<lambda>e. \<not> is_external e) es"
proof -
  have "view_apply_all ops v = Inr es \<Longrightarrow> list_all (\<lambda>e. \<not> is_external e) es" for ops v es
    by (induction ops arbitrary: v es) (auto simp: bind_e_Inr_iff dest: view_apply_internal)
  then show "validate_patch p g = Inr es \<Longrightarrow> list_all (\<lambda>e. \<not> is_external e) es"
    by (auto simp: validate_patch_def split: if_splits)
qed

lemma conclude_patch_steps:
  assumes ok: "runtime_ok E rt" and i: "c \<in> event_ids rt" and v: "\<And>es. v = Inr es \<Longrightarrow> list_all (\<lambda>e. \<not> is_external e) es"
  shows "steps E rt (snd (conclude_patch E pid d v c rt))"
proof (cases v)
  case (Inl reason)
  show ?thesis unfolding conclude_patch_def Inl sum.case
    by (rule append_push_steps [OF ok]) (use i in \<open>auto simp: cause_ok_def intro: steps_refl steps_ok\<close>)
next
  case (Inr es)
  have chain: "steps E rt (snd (append_chain E es c (Some d) rt))"
    "\<And>c' rt'. append_chain E es c (Some d) rt = (Inr c', rt') \<Longrightarrow> c' \<in> event_ids rt'"
    using append_chain_steps [OF ok i v [OF Inr]] by blast+
  show ?thesis unfolding conclude_patch_def Inr sum.case
  proof (rule bind_r_steps, rule chain(1))
    fix c' rt' assume "append_chain E es c (Some d) rt = (Inr c', rt')" and s: "steps E rt rt'"
    then have "c' \<in> event_ids rt'" by (blast dest: chain(2))
    then show "steps E rt' (snd (bind_r (append_event E (PatchApplied pid) (Some c')) (\<lambda>applied.
          bind_r (push_pending d applied) (\<lambda>_ rt. (Inr True, rt))) rt'))"
      by (intro append_push_steps [OF steps_ok [OF s]]) (auto simp: cause_ok_def intro: steps_refl steps_ok)
  qed
qed

lemma apply_patch_steps:
  assumes ok: "runtime_ok E rt" and c: "cause_ok rt c"
  shows "steps E rt (snd (apply_patch E p c d rt))"
proof -
  let ?rt = "rt\<lparr>rt_draws := rt_draws rt + 1\<rparr>"
  have s: "steps E rt ?rt" by (rule draw_ok [OF ok])
  have "steps E ?rt (snd (bind_r (append_event E (PatchProposed pid p) c) (\<lambda>proposed.
      bind_r (push_pending d proposed) (\<lambda>_. conclude_patch E pid d (validate_patch p (rt_graph ?rt)) (er_id proposed))) ?rt))" for pid
    by (rule append_push_steps [OF steps_ok [OF s] steps_cause [OF s c]])
      (auto intro: conclude_patch_steps steps_ok validate_internal)
  with s show ?thesis unfolding apply_patch_def Let_def by (auto intro: steps_trans)
qed

lemma apply_patches_steps:
  "runtime_ok E rt \<Longrightarrow> cause_ok rt c \<Longrightarrow> steps E rt (snd (apply_patches E ps c d rt))"
proof (induction ps arbitrary: rt)
  case (Cons p ps)
  show ?case unfolding apply_patches.simps
    by (rule bind_r_steps, rule apply_patch_steps [OF Cons.prems])
      (use Cons.IH Cons.prems(2) steps_ok steps_cause in blast)
qed (simp add: steps_refl)

lemma run_behavior_steps:
  assumes ok: "runtime_ok E rt" and i: "er_id t \<in> event_ids rt"
  shows "steps E rt (snd (run_behavior E d t b rt))"
  unfolding run_behavior_def
proof (rule bind_r_steps)
  have c: "cause_ok rt (Some (er_id t))" using i by (simp add: cause_ok_def)
  show "steps E rt (snd (append_event E (BehaviorStarted (bh_name b)) (Some (er_id t)) rt))"
    by (rule append_event_steps [OF ok c]) simp
  fix x rt1 assume s: "steps E rt rt1"
  note ok1 = steps_ok [OF s] and c1 = steps_cause [OF s c]
  have last: "steps E rt2 (snd (bind_r (append_event E e (Some (er_id t))) (\<lambda>_ rt. (Inr (), rt)) rt2))"
    if "steps E rt1 rt2" "\<not> is_external e" for e rt2
    by (rule bind_r_steps, rule append_event_steps [OF steps_ok [OF that(1)] steps_cause [OF that(1) c1] that(2)])
      (simp add: steps_refl steps_ok)
  show "steps E rt1 (snd (case bh_evaluate b (rt_graph rt1) t of
         Inr patches \<Rightarrow>
           bind_r (apply_patches E patches (Some (er_id t)) (d + 1)) (\<lambda>_.
           bind_r (append_event E (BehaviorCompleted (bh_name b)) (Some (er_id t))) (\<lambda>_ rt. (Inr (), rt))) rt1
       | Inl message \<Rightarrow>
           bind_r (append_event E (BehaviorFailed (bh_name b) message) (Some (er_id t))) (\<lambda>_ rt. (Inr (), rt)) rt1))"
  proof (cases "bh_evaluate b (rt_graph rt1) t")
    case (Inl message)
    with last [OF steps_refl [OF ok1]] show ?thesis by simp
  next
    case (Inr patches)
    have "steps E rt1 (snd (bind_r (apply_patches E patches (Some (er_id t)) (d + 1)) (\<lambda>_.
           bind_r (append_event E (BehaviorCompleted (bh_name b)) (Some (er_id t))) (\<lambda>_ rt. (Inr (), rt))) rt1))"
      by (rule bind_r_steps, rule apply_patches_steps [OF ok1 c1]) (rule last, simp_all)
    with Inr show ?thesis by simp
  qed
qed

lemma run_behaviors_steps:
  "runtime_ok E rt \<Longrightarrow> er_id t \<in> event_ids rt \<Longrightarrow> steps E rt (snd (run_behaviors E d t bs rt))"
proof (induction bs arbitrary: rt)
  case (Cons b bs)
  show ?case unfolding run_behaviors.simps
    by (rule bind_r_steps, rule run_behavior_steps [OF Cons.prems])
      (use Cons.IH Cons.prems(2) steps_ok steps_ids in blast)
qed (simp add: steps_refl)

lemma pop_pending_ok:
  "runtime_ok E rt \<Longrightarrow> rt_pending rt = (d, t) # rest \<Longrightarrow>
     steps E rt (rt\<lparr>rt_pending := rest\<rparr>) \<and> er_id t \<in> event_ids (rt\<lparr>rt_pending := rest\<rparr>)"
  by (auto simp: steps_def runtime_ok_def log_ok_def event_ids_def)

lemma drain_behaviors_steps: "runtime_ok E rt \<Longrightarrow> steps E rt (snd (drain_behaviors E rt))"
proof (induction rt rule: measure_induct_rule [of room])
  case (less rt)
  show ?case
  proof (cases "rt_pending rt")
    case Nil
    with less.prems show ?thesis by (simp add: drain_behaviors.simps steps_refl)
  next
    case (Cons x rest)
    obtain d t where x: "x = (d, t)" by (cases x)
    let ?rt = "rt\<lparr>rt_pending := rest\<rparr>"
    let ?run = "run_behaviors E d t (filter (\<lambda>b. filter_matches (bh_filter b) t (rt_graph ?rt)) (rt_behaviors ?rt)) ?rt"
    have s: "steps E rt ?rt" and i: "er_id t \<in> event_ids ?rt" using pop_pending_ok [OF less.prems] Cons x by simp_all
    have s': "steps E ?rt (snd ?run)" by (rule run_behaviors_steps [OF steps_ok [OF s] i])
    have "room ?rt < room rt" using Cons by (simp add: room_def)
    then have r: "room (snd ?run) < room rt" by (rule le_less_trans [OF run_behaviors_room])
    note IH = less.IH [OF r steps_ok [OF s']]
    obtain y rt' where y: "?run = (y, rt')" by fastforce
    from steps_trans [OF s s'] IH y Cons x s show ?thesis
      by (subst drain_behaviors.simps) (cases y; simp add: Let_def; blast intro: steps_trans)
  qed
qed

end

end
