(* ===== verification/GraphLifecycles.thy ===== *)
theory GraphLifecycles
  imports GraphRuntimeLaws
begin

section \<open>The life of a runtime\<close>

text \<open>
  Every public operation of \<^verbatim>\<open>GraphRuntime\<close> keeps the invariant of \<open>GraphRuntimeLaws\<close>: emitting, proposing
  patches, projecting external streams, registering, forking and restoring.  The relation
  \<open>runtime_reachable\<close> collects the runtimes a client can get with them.
\<close>

lemma cursor_step_observed:
  assumes "er_event r = ExternalEventObserved s t n i x p" "n = expected_sequence cs (s, t)"
  shows "cursor_step r cs = Inr (advance_cursor (s, t) n i cs)"
  using assms by (simp add: cursor_step_def)

lemma check_external_None:
  assumes "check_external ev rt = Inr None"
  shows "ev_sequence ev = expected_sequence (rt_cursors rt) (ev_source ev, ev_stream_id ev)"
  using assms by (auto simp: check_external_def Let_def split: option.splits if_splits)

lemma with_limits_ok: "inj (ge_uuid E) \<Longrightarrow> runtime_ok E (with_limits E limits n)"
  by (simp add: runtime_ok_def log_ok_def with_limits_def event_ids_def replay_start_def external_cursors_def)

lemma with_correlation_id_ok: "runtime_ok E rt \<Longrightarrow> runtime_ok E (with_correlation_id c rt)"
  by (simp add: runtime_ok_def log_ok_def with_correlation_id_def event_ids_def)

lemma register_steps: "runtime_ok E rt \<Longrightarrow> steps E rt (snd (register b rt))"
  by (simp add: register_def steps_def runtime_ok_def log_ok_def event_ids_def)

context graph_hashing begin

lemma append_event_cursors: "rt_cursors (snd (append_event E e c rt)) = rt_cursors rt"
  by (auto simp: append_event_def Let_def split: sum.split prod.split)

lemma append_chain_cursors: "rt_cursors (snd (append_chain E es c d rt)) = rt_cursors rt"
proof (induction es arbitrary: c rt)
  case (Cons e es)
  obtain x rt1 where x: "append_event E e (Some c) rt = (x, rt1)" by fastforce
  then have "rt_cursors rt1 = rt_cursors rt" using append_event_cursors [of e "Some c" rt] by simp
  with x Cons.IH show ?case by (cases x; cases d) (simp_all add: bind_r_def push_pending_def)
qed simp

lemma drain_then_steps:
  assumes "runtime_ok E rt"
  shows "steps E rt (snd (bind_r (drain_behaviors E) (\<lambda>_ rt. (Inr x, rt)) rt))"
  by (rule bind_r_steps, rule drain_behaviors_steps [OF assms]) (simp add: steps_refl steps_ok)

lemma emit_steps:
  assumes "runtime_ok E rt" "\<not> is_external e"
  shows "steps E rt (snd (emit E e rt))"
  unfolding emit_def
  by (rule append_push_steps [OF assms(1) _ assms(2)]) (auto simp: cause_ok_def intro: drain_then_steps steps_ok)

lemma propose_patch_steps:
  assumes "runtime_ok E rt" "cause_ok rt c"
  shows "steps E rt (snd (propose_patch E p c rt))"
  unfolding propose_patch_def
  by (rule bind_r_steps, rule apply_patch_steps [OF assms]) (auto intro: drain_then_steps steps_ok)

text \<open>The record of an observation and the cursor move together.\<close>

lemma observe_steps:
  assumes ok: "runtime_ok E rt" and c: "cause_ok rt c"
    and n: "ev_sequence ev = expected_sequence (rt_cursors rt) (ev_source ev, ev_stream_id ev)"
    and k: "\<And>r rt'. steps E rt rt' \<Longrightarrow> er_id r \<in> event_ids rt' \<Longrightarrow> steps E rt' (snd (k r rt'))"
  shows "steps E rt (snd (bind_r (append_event E (ExternalEventObserved (ev_source ev) (ev_stream_id ev) (ev_sequence ev)
      (ev_event_id ev) (ev_name ev) (ev_payload ev)) c) (\<lambda>r. bind_r (set_cursor ev) (\<lambda>_. k r)) rt))"
    (is "steps E rt (snd (bind_r (append_event E ?e c) _ rt))")
proof (cases "append_event E ?e c rt")
  case (Pair x rt1)
  show ?thesis
  proof (cases x)
    case (Inl err)
    with Pair append_event_Inl [of ?e c rt err rt1] ok show ?thesis by (simp add: bind_r_def steps_refl)
  next
    case (Inr r)
    note a = Pair [unfolded Inr]
    let ?rt2 = "snd (set_cursor ev rt1)"
    have "log_ok E rt1" using append_event_log [OF _ c a] ok by (simp add: runtime_ok_def)
    then have "log_ok E ?rt2" by (simp add: log_ok_def set_cursor_def event_ids_def)
    moreover have "external_cursors (rt_events ?rt2) = Inr (rt_cursors ?rt2)"
      using ok append_event_frame(1,3,4) [OF a] n
      by (simp add: runtime_ok_def external_cursors_def cursor_loop_append set_cursor_def cursor_step_observed)
    ultimately have s: "steps E rt ?rt2"
      using append_event_frame(1) [OF a] by (simp add: steps_def runtime_ok_def set_cursor_def)
    have "er_id r \<in> event_ids ?rt2" using append_event_frame(5) [OF a] by (simp add: set_cursor_def event_ids_def)
    from k [OF s this] s a show ?thesis by (simp add: bind_r_def set_cursor_def) (blast intro: steps_trans)
  qed
qed

lemma observe_external_steps:
  assumes ok: "runtime_ok E rt" and i: "er_id a \<in> event_ids rt"
    and n: "ev_sequence ev = expected_sequence (rt_cursors rt) (ev_source ev, ev_stream_id ev)"
  shows "steps E rt (snd (observe_external E ev a rt))"
  unfolding observe_external_def
proof (rule observe_steps [OF ok _ n])
  show "cause_ok rt (Some (er_id a))" using i by (simp add: cause_ok_def)
  fix r :: event_record and rt2 assume s: "steps E rt rt2" and i: "er_id r \<in> event_ids rt2"
  show "steps E rt2 (snd (bind_r (push_pending 0 r) (\<lambda>_. bind_r (drain_behaviors E) (\<lambda>_ rt. (Inr Applied, rt))) rt2))"
    by (rule bind_r_steps, rule push_pending_steps [OF steps_ok [OF s] i]) (blast intro: drain_then_steps steps_ok)
qed

lemma confirm_projection_steps:
  assumes ok: "runtime_ok E rt" and i: "c \<in> event_ids rt"
    and n: "ev_sequence ev = expected_sequence (rt_cursors rt) (ev_source ev, ev_stream_id ev)"
  shows "steps E rt (snd (bind_r (append_event E (PatchApplied pid) (Some c)) (observe_external E ev) rt))"
proof (rule bind_r_steps)
  show "steps E rt (snd (append_event E (PatchApplied pid) (Some c) rt))"
    using i by (intro append_event_steps [OF ok]) (simp_all add: cause_ok_def)
  fix r rt2 assume a: "append_event E (PatchApplied pid) (Some c) rt = (Inr r, rt2)" and s: "steps E rt rt2"
  show "steps E rt2 (snd (observe_external E ev r rt2))"
    using n append_event_frame(3,5) [OF a] by (intro observe_external_steps [OF steps_ok [OF s]]) simp_all
qed

lemma project_external_steps:
  assumes ok: "runtime_ok E rt"
  shows "steps E rt (snd (project_external E ev p rt))"
proof (cases "check_external ev rt = Inr None \<and> (\<exists>es. validate_patch p (rt_graph rt) = Inr es \<and>
    length (rt_events rt) + (length es + 3) \<le> lm_max_events (rt_limits rt))")
  case False
  then have "snd (project_external E ev p rt) = rt"
    by (auto simp: project_external_def split: sum.split option.split if_splits)
  with ok show ?thesis by (simp add: steps_refl)
next
  case True
  then obtain es where ce: "check_external ev rt = Inr None" and v: "validate_patch p (rt_graph rt) = Inr es"
    and l: "length (rt_events rt) + (length es + 3) \<le> lm_max_events (rt_limits rt)" by blast
  let ?rt = "rt\<lparr>rt_draws := rt_draws rt + 1\<rparr>" and ?id = "new_id E ''patch'' (rt_draws rt)"
  let ?rest = "\<lambda>c. bind_r (append_event E (PatchApplied ?id) (Some c)) (observe_external E ev)"
  let ?body = "bind_r (append_event E (PatchProposed ?id p) None) (\<lambda>r. bind_r (append_chain E es (er_id r) None) ?rest)"
  have s: "steps E rt ?rt" by (rule draw_ok [OF ok])
  have "steps E ?rt (snd (?body ?rt))"
  proof (rule bind_r_steps)
    show "steps E ?rt (snd (append_event E (PatchProposed ?id p) None ?rt))"
      by (rule append_event_steps [OF steps_ok [OF s]]) (simp_all add: cause_ok_def)
    fix r rt1 assume a: "append_event E (PatchProposed ?id p) None ?rt = (Inr r, rt1)" and s1: "steps E ?rt rt1"
    note chain = append_chain_steps [OF steps_ok [OF s1] append_event_frame(5) [OF a] validate_internal [OF v], of None]
    show "steps E rt1 (snd (bind_r (append_chain E es (er_id r) None) ?rest rt1))"
    proof (rule bind_r_steps, rule chain [THEN conjunct1])
      fix c rt2 assume c: "append_chain E es (er_id r) None rt1 = (Inr c, rt2)" and s2: "steps E rt1 rt2"
      have "rt_cursors rt2 = rt_cursors rt"
        using append_chain_cursors [of es "er_id r" None rt1] c append_event_frame(3) [OF a] by simp
      with check_external_None [OF ce] chain c show "steps E rt2 (snd (?rest c rt2))"
        by (intro confirm_projection_steps [OF steps_ok [OF s2]]) simp_all
    qed
  qed
  moreover have "project_external E ev p rt = ?body ?rt" using ce v l by (simp add: project_external_def Let_def)
  ultimately show ?thesis using s steps_trans by simp
qed

end

subsection \<open>Restoring and forking\<close>

definition fresh_from :: "graph_env \<Rightarrow> nat \<Rightarrow> event_record list \<Rightarrow> bool" where
  "fresh_from E n rs \<longleftrightarrow> (\<forall>m \<ge> n. new_id E ''event'' m \<notin> er_id ` set rs)"

lemma fresh_from_mono: "fresh_from E n rs \<Longrightarrow> n \<le> n' \<Longrightarrow> set rs' \<subseteq> set rs \<Longrightarrow> fresh_from E n' rs'"
  unfolding fresh_from_def by (meson image_mono le_trans subsetD)

context graph_hashing begin

lemma rebuild_Inr:
  "rebuild E rs = Inr (g, h, cs) \<longleftrightarrow>
     (\<exists>st. replay_loop E rs (replay_start E) = Inr st \<and> g = rp_graph st \<and> h = rp_hash st) \<and> external_cursors rs = Inr cs"
proof -
  have "hash_from_graph E (rp_graph st) = Inr (rp_hash st)" if r: "replay_loop E rs (replay_start E) = Inr st" for st
  proof -
    obtain h where h: "hash_from_graph E (rp_graph st) = Inr h" "tracks h (rp_graph st)" using from_graph_tracks by blast
    moreover have "tracks (rp_hash st) (rp_graph st)" using replay_replayed [OF r] by (simp add: replayed_def)
    ultimately show ?thesis using tracks_unique by auto
  qed
  then show ?thesis by (auto simp: rebuild_def replay_strict_def bind_e_Inr_iff)
qed

lemma rebuild_ok:
  assumes "rebuild E rs = Inr (g, h, cs)" "rt_graph rt = g" "rt_hash rt = h" "rt_events rt = rs" "rt_cursors rt = cs"
    "rt_pending rt = []" "fresh_from E (rt_draws rt) rs" "inj (ge_uuid E)"
  shows "runtime_ok E rt"
  using assms by (auto simp: rebuild_Inr runtime_ok_def log_ok_def event_ids_def fresh_from_def)

lemma restore_ok:
  assumes r: "restore E rs n = Inr rt" and f: "fresh_from E n rs" and uuid: "inj (ge_uuid E)"
  shows "runtime_ok E rt" "rt_events rt = rs"
proof -
  from r obtain g h cs where b: "rebuild E rs = Inr (g, h, cs)" and
    rt: "rt_graph rt = g" "rt_hash rt = h" "rt_events rt = rs" "rt_cursors rt = cs" "rt_pending rt = []" "rt_draws rt = n + 1"
    by (auto simp: restore_def bind_e_Inr_iff)
  have "fresh_from E (rt_draws rt) rs" using f rt(6) by (simp add: fresh_from_def)
  from rebuild_ok [OF b rt(1-5) this uuid] show "runtime_ok E rt" .
  show "rt_events rt = rs" by (rule rt(3))
qed

lemma rebuild_take:
  assumes "runtime_ok E rt"
  shows "\<exists>g h cs. rebuild E (take k (rt_events rt)) = Inr (g, h, cs)"
proof -
  have e: "rt_events rt = take k (rt_events rt) @ drop k (rt_events rt)" by simp
  obtain st where "replay_loop E (rt_events rt) (replay_start E) = Inr st" using assms by (auto simp: runtime_ok_def log_ok_def)
  then obtain st' where "replay_loop E (take k (rt_events rt)) (replay_start E) = Inr st'"
    using replay_prefix [of "take k (rt_events rt)" "drop k (rt_events rt)"] by auto
  moreover have "\<exists>cs. external_cursors (take k (rt_events rt)) = Inr cs"
    using assms e cursor_loop_append [of "take k (rt_events rt)" "drop k (rt_events rt)"]
    by (auto simp: runtime_ok_def external_cursors_def bind_e_Inr_iff)
  ultimately show ?thesis by (auto simp: rebuild_Inr)
qed

lemma append_other_Inr:
  assumes "\<not> is_external e" "graph_apply e (rt_graph rt) = Inr (m, g)" "hash_apply E e (rt_graph rt) (rt_hash rt) = Inr h"
    "length (rt_events rt) < lm_max_events (rt_limits rt)"
  shows "\<exists>r rt'. append_event E e c rt = (Inr r, rt') \<and> rt_graph rt' = g"
  using assms by (simp add: append_event_def Let_def)

text \<open>A fork succeeds when there is room for one more record; it starts with the prefix it was forked from.\<close>

lemma fork_at_ok:
  assumes ok: "runtime_ok E rt" and k: "k \<le> length (rt_events rt)"
  shows "if k < lm_max_events (rt_limits rt)
    then \<exists>f r. fork_at E k rt = Inr f \<and> runtime_ok E f \<and> rt_events f = take k (rt_events rt) @ [r] \<and>
      er_event r = BranchForked (rt_branch_id rt) k \<and> replay_strict E (take k (rt_events rt)) = Inr (rt_graph f)
    else fork_at E k rt = Inl (EventLimitExceeded (lm_max_events (rt_limits rt)))"
proof -
  let ?es = "take k (rt_events rt)"
  obtain g h cs where b: "rebuild E ?es = Inr (g, h, cs)" using rebuild_take [OF ok] by blast
  define f0 where "f0 = \<lparr>rt_branch_id = new_id E ''branch'' (rt_draws rt), rt_correlation_id = rt_correlation_id rt,
     rt_graph = g, rt_hash = h, rt_events = ?es, rt_behaviors = rt_behaviors rt, rt_pending = [],
     rt_limits = rt_limits rt, rt_cursors = cs, rt_draws = rt_draws rt + 1\<rparr>"
  define c where "c = (if ?es = [] then None else Some (er_id (last ?es)))"
  let ?e = "BranchForked (rt_branch_id rt) k"
  have fork: "fork_at E k rt = (case append_event E ?e c f0 of (Inl e, _) \<Rightarrow> Inl e | (Inr _, f) \<Rightarrow> Inr f)"
    using k b by (simp add: fork_at_def f0_def c_def Let_def)
  have f0: "rt_graph f0 = g" "rt_hash f0 = h" "rt_events f0 = ?es" "rt_cursors f0 = cs" "rt_pending f0 = []"
    "rt_limits f0 = rt_limits rt" by (simp_all add: f0_def)
  have "fresh_from E (rt_draws rt) (rt_events rt)"
    using ok by (simp add: runtime_ok_def log_ok_def event_ids_def fresh_from_def)
  then have "fresh_from E (rt_draws f0) ?es" unfolding f0_def by (auto intro: fresh_from_mono dest: in_set_takeD)
  moreover have "inj (ge_uuid E)" using ok by (simp add: runtime_ok_def log_ok_def)
  ultimately have ok0: "runtime_ok E f0" by (rule rebuild_ok [OF b f0(1-5)])
  have "cause_ok f0 c" by (auto simp: c_def cause_ok_def event_ids_def f0(3))
  note app = append_event_ok [OF ok0 this, of ?e]
  have "replay_strict E ?es = Inr g" using b by (auto simp: rebuild_Inr replay_strict_def)
  moreover have "append_event E ?e c f0 = (Inl (EventLimitExceeded (lm_max_events (rt_limits rt))), f0)"
    if "\<not> k < lm_max_events (rt_limits rt)"
    using that k by (simp add: append_event_def f0 min_def)
  moreover have "\<exists>r f. append_event E ?e c f0 = (Inr r, f) \<and> rt_graph f = g" if "k < lm_max_events (rt_limits rt)"
    using that k by (intro append_other_Inr [where m = False and h = h]) (simp_all add: f0 min_def)
  ultimately show ?thesis using fork app append_event_frame(1,4) [of ?e c f0] f0(3) by (auto split: prod.splits)
qed

end

subsection \<open>Reachable runtimes\<close>

text \<open>
  What a client can do.  It emits only events of its own kinds, names a recorded event as the cause of a
  patch, and restores logs whose ids are not drawn again.
\<close>

inductive runtime_reachable :: "graph_env \<Rightarrow> graph_runtime \<Rightarrow> bool" for E where
  reach_new: "runtime_reachable E (with_limits E limits n)"
| reach_correlate: "runtime_reachable E rt \<Longrightarrow> runtime_reachable E (with_correlation_id c rt)"
| reach_register: "runtime_reachable E rt \<Longrightarrow> runtime_reachable E (snd (register b rt))"
| reach_emit: "runtime_reachable E rt \<Longrightarrow> \<not> is_external e \<Longrightarrow> runtime_reachable E (snd (emit E e rt))"
| reach_propose: "runtime_reachable E rt \<Longrightarrow> cause_ok rt c \<Longrightarrow> runtime_reachable E (snd (propose_patch E p c rt))"
| reach_project: "runtime_reachable E rt \<Longrightarrow> runtime_reachable E (snd (project_external E ev p rt))"
| reach_fork: "runtime_reachable E rt \<Longrightarrow> fork_at E k rt = Inr f \<Longrightarrow> runtime_reachable E f"
| reach_restore: "restore E rs n = Inr rt \<Longrightarrow> fresh_from E n rs \<Longrightarrow> runtime_reachable E rt"

inductive_cases runtime_reachableE: "runtime_reachable E rt"

context graph_hashing begin

lemma runtime_reachable_ok: "runtime_reachable E rt \<Longrightarrow> inj (ge_uuid E) \<Longrightarrow> runtime_ok E rt"
proof (induction rule: runtime_reachable.induct)
  case (reach_fork rt k f)
  then have "k \<le> length (rt_events rt)" by (auto simp: fork_at_def split: if_splits)
  from fork_at_ok [OF reach_fork.IH [OF reach_fork.prems] this] reach_fork.hyps(2) show ?case by (auto split: if_splits)
qed (auto intro: with_limits_ok with_correlation_id_ok restore_ok steps_ok register_steps emit_steps propose_patch_steps
  project_external_steps)

lemma runtime_ok_replays: "runtime_ok E rt \<Longrightarrow> strict_replay E (rt_events rt) = Inr (rt_graph rt)"
  by (auto simp: runtime_ok_def log_ok_def strict_replay_def replay_strict_def)

lemma runtime_ok_graph: "runtime_ok E rt \<Longrightarrow> graph_ok (rt_graph rt) \<and> hash_from_graph E (rt_graph rt) = Inr (rt_hash rt)"
proof -
  assume "runtime_ok E rt"
  then obtain st where st: "replay_loop E (rt_events rt) (replay_start E) = Inr st" "rp_graph st = rt_graph rt" "rp_hash st = rt_hash rt"
    by (auto simp: runtime_ok_def log_ok_def)
  obtain h where h: "hash_from_graph E (rt_graph rt) = Inr h" "tracks h (rt_graph rt)" using from_graph_tracks by blast
  from replay_replayed [OF st(1)] have "graph_ok (rt_graph rt)" "tracks (rt_hash rt) (rt_graph rt)"
    using st by (simp_all add: replayed_def)
  with h tracks_unique show ?thesis by auto
qed

text \<open>A saved log gives the same projection back.\<close>

lemma runtime_ok_restores:
  assumes "runtime_ok E rt"
  shows "\<exists>rt'. restore E (rt_events rt) n = Inr rt' \<and> rt_graph rt' = rt_graph rt \<and> rt_hash rt' = rt_hash rt \<and>
    rt_events rt' = rt_events rt \<and> rt_cursors rt' = rt_cursors rt"
proof -
  have "rebuild E (rt_events rt) = Inr (rt_graph rt, rt_hash rt, rt_cursors rt)"
    using assms by (auto simp: rebuild_Inr runtime_ok_def log_ok_def)
  then show ?thesis by (simp add: restore_def)
qed

end

end
