(* ===== verification/GraphPatches.thy ===== *)
theory GraphPatches
  imports GraphLifecycles
begin

section \<open>Validating a patch\<close>

text \<open>
  \<^verbatim>\<open>PatchValidationView\<close> overlays the changes of a patch on a graph it does not copy.  Its reference is the
  plain reading of a patch: translate each operation into its event and apply the events one after
  another.  The overlay accepts exactly the patches for which that works, so a validated patch is applied
  as a whole.
\<close>

subsection \<open>The reference\<close>

fun op_event :: "patch_operation \<Rightarrow> graph_event" where
  "op_event (AddObject i t d) = ObjectCreated i t d"
| "op_event (UpdateObject i n d) = ObjectUpdated i (n + 1) d"
| "op_event (RemoveObject i n) = ObjectRemoved i (n + 1)"
| "op_event (AddRelation i t s u d) = RelationCreated i t s u d"
| "op_event (UpdateRelation i n d) = RelationUpdated i (n + 1) d"
| "op_event (RemoveRelation i n) = RelationRemoved i (n + 1)"

fun apply_events :: "graph_event list \<Rightarrow> state_graph \<Rightarrow> replay_error + state_graph" where
  "apply_events [] g = Inr g"
| "apply_events (e # es) g = bind_e (graph_apply e g) (\<lambda>(_, g). apply_events es g)"

subsection \<open>The overlay simulates the candidate graph\<close>

definition view_sim :: "validation_view \<Rightarrow> state_graph \<Rightarrow> bool" where
  "view_sim v g \<longleftrightarrow> graph_ok g \<and> graph_ok (pv_graph v) \<and> bt_ok (pv_relations v) \<and>
     (\<forall>k r. map_of (pv_relations v) k = Some (Some r) \<longrightarrow> re_id r = k) \<and>
     (\<forall>i. view_object v i = map_of (sg_objects g) i) \<and> (\<forall>i. view_relation v i = map_of (sg_relations g) i)"

lemma view_new_sim: "graph_ok g \<Longrightarrow> view_sim (view_new g) g"
  by (simp add: view_sim_def view_new_def view_object_def view_relation_def)

lemma view_sim_lookup:
  assumes "view_sim v g"
  shows "view_object v i = map_of (sg_objects g) i" "view_relation v i = map_of (sg_relations g) i"
  using assms by (simp_all add: view_sim_def)

lemma list_ex_values: "bt_ok m \<Longrightarrow> list_ex P (bt_values m) \<longleftrightarrow> (\<exists>k v. map_of m k = Some v \<and> P v)"
  unfolding list_ex_iff using bt_ok_values [of m] by blast

lemma object_has_relations_iff:
  assumes base: "graph_ok (pv_graph v)" and over: "bt_ok (pv_relations v)"
    and keyed: "\<And>k r. map_of (pv_relations v) k = Some (Some r) \<Longrightarrow> re_id r = k"
  shows "object_has_relations v i \<longleftrightarrow> (\<exists>k r. view_relation v k = Some r \<and> touches i r)"
proof -
  have b: "bt_ok (sg_relations (pv_graph v))"
    and bk: "\<And>k r. map_of (sg_relations (pv_graph v)) k = Some r \<Longrightarrow> re_id r = k" using base by (simp_all add: graph_ok_def)
  have new: "view_relation v (re_id r) = Some r" if "map_of (pv_relations v) k = Some (Some r)" for k r
    using that keyed [OF that] by (simp add: view_relation_def)
  show ?thesis
  proof
    assume "object_has_relations v i"
    then show "\<exists>k r. view_relation v k = Some r \<and> touches i r"
      unfolding object_has_relations_def list_ex_values [OF b] list_ex_values [OF over]
      by (auto split: option.splits dest: new)
  next
    assume "\<exists>k r. view_relation v k = Some r \<and> touches i r"
    then obtain k r where kr: "view_relation v k = Some r" "touches i r" by blast
    show "object_has_relations v i"
    proof (cases "map_of (sg_relations (pv_graph v)) k")
      case None
      with kr(1) have "map_of (pv_relations v) k = Some (Some r)" by (auto simp: view_relation_def split: option.splits)
      with None kr(2) keyed show ?thesis
        unfolding object_has_relations_def list_ex_values [OF b] list_ex_values [OF over] by fastforce
    next
      case (Some base)
      with bk [OF Some] kr show ?thesis
        unfolding object_has_relations_def list_ex_values [OF b] list_ex_values [OF over] by fastforce
    qed
  qed
qed

lemma view_sim_relations:
  assumes "view_sim v g"
  shows "object_has_relations v i \<longleftrightarrow> list_ex (touches i) (bt_values (sg_relations g))"
proof -
  have "bt_ok (sg_relations g)" using assms by (simp add: view_sim_def graph_ok_def)
  moreover have "object_has_relations v i \<longleftrightarrow> (\<exists>k r. view_relation v k = Some r \<and> touches i r)"
    using assms by (intro object_has_relations_iff) (auto simp: view_sim_def)
  ultimately show ?thesis using view_sim_lookup [OF assms] by (simp add: list_ex_values)
qed

lemma view_set_object:
  "view_object (v\<lparr>pv_objects := bt_insert i x (pv_objects v)\<rparr>) j = (if j = i then x else view_object v j)"
  "view_relation (v\<lparr>pv_objects := m\<rparr>) j = view_relation v j"
  by (simp_all add: view_object_def view_relation_def split: option.split)

lemma view_set_relation:
  "view_relation (v\<lparr>pv_relations := bt_insert i x (pv_relations v)\<rparr>) j = (if j = i then x else view_relation v j)"
  "view_object (v\<lparr>pv_relations := m\<rparr>) j = view_object v j"
  by (simp_all add: view_object_def view_relation_def split: option.split)

lemma view_sim_set_object:
  assumes "view_sim v g" "graph_ok g'" "sg_relations g' = sg_relations g" "map_of (sg_objects g') = (map_of (sg_objects g))(i := x)"
  shows "view_sim (v\<lparr>pv_objects := bt_insert i x (pv_objects v)\<rparr>) g'"
  using assms by (simp add: view_sim_def view_set_object)

lemma view_sim_set_relation:
  assumes "view_sim v g" "graph_ok g'" "sg_objects g' = sg_objects g" "map_of (sg_relations g') = (map_of (sg_relations g))(i := x)"
    "\<And>r. x = Some r \<Longrightarrow> re_id r = i"
  shows "view_sim (v\<lparr>pv_relations := bt_insert i x (pv_relations v)\<rparr>) g'"
  using assms by (simp add: view_sim_def view_set_relation bt_insert_ok)

text \<open>One operation succeeds on the overlay exactly when its event applies to the candidate graph.\<close>

lemma view_apply_rejects:
  assumes "view_sim v g" "graph_apply (op_event op) g = Inl e"
  shows "\<exists>reason. view_apply op v = Inl reason"
  using assms(2) view_sim_lookup [OF assms(1)] view_sim_relations [OF assms(1)]
  by (cases op) (auto simp: bump_version_def split: option.splits if_splits)

lemma view_apply_accepts:
  assumes s: "view_sim v g" and a: "graph_apply (op_event op) g = Inr (m, g')"
  shows "m \<and> (\<exists>v'. view_apply op v = Inr (op_event op, v') \<and> view_sim v' g')"
proof -
  have g: "graph_ok g" using s by (simp add: view_sim_def)
  have ok': "graph_ok g'" using graph_apply_ok [OF g a] by simp
  have keyed: "re_id r = k" if "map_of (sg_relations g) k = Some r" for k r using g that by (simp add: graph_ok_def)
  note look = view_sim_lookup [OF s] view_sim_relations [OF s]
  note so = view_sim_set_object [OF s ok'] and sr = view_sim_set_relation [OF s ok']
  show ?thesis
  proof (cases op)
    case (UpdateObject i n d)
    then obtain ob where ob: "map_of (sg_objects g) i = Some ob" "ob_version ob = n" "m"
      "g' = g\<lparr>sg_objects := bt_insert i (ob\<lparr>ob_version := n + 1, ob_data := d\<rparr>) (sg_objects g), sg_version := sg_version g + 1\<rparr>"
      using a by (auto simp: bump_version_def split: option.splits if_splits)
    with UpdateObject look so [of i "Some (ob\<lparr>ob_data := d, ob_version := n + 1\<rparr>)"] show ?thesis
      by (cases ob) simp
  next
    case (UpdateRelation i n d)
    then obtain r where r: "map_of (sg_relations g) i = Some r" "re_version r = n" "m"
      "g' = g\<lparr>sg_relations := bt_insert i (r\<lparr>re_version := n + 1, re_data := d\<rparr>) (sg_relations g), sg_version := sg_version g + 1\<rparr>"
      using a by (auto simp: bump_version_def split: option.splits if_splits)
    with UpdateRelation look keyed [OF r(1)] sr [of i "Some (r\<lparr>re_data := d, re_version := n + 1\<rparr>)"] show ?thesis
      by (cases r) simp
  next
    case (AddObject i t d)
    with a look so [of i "Some \<lparr>ob_id = i, ob_type = t, ob_data = d, ob_version = 1\<rparr>"] show ?thesis
      by (auto simp: bump_version_def split: if_splits)
  next
    case (RemoveObject i n)
    with a look so [of i None] show ?thesis by (auto simp: bump_version_def split: option.splits if_splits)
  next
    case (AddRelation i t s u d)
    with a look sr [of i "Some \<lparr>re_id = i, re_type = t, re_source = s, re_target = u, re_data = d, re_version = 1\<rparr>"]
    show ?thesis by (auto simp: bump_version_def split: if_splits)
  next
    case (RemoveRelation i n)
    with a look sr [of i None] show ?thesis by (auto simp: bump_version_def split: option.splits if_splits)
  qed
qed

lemma view_apply_all_iff:
  "view_sim v g \<Longrightarrow> view_apply_all ops v = Inr es \<longleftrightarrow> es = map op_event ops \<and> (\<exists>g'. apply_events es g = Inr g')"
proof (induction ops arbitrary: v g es)
  case (Cons op ops)
  show ?case
  proof (cases "graph_apply (op_event op) g")
    case (Inl e)
    with view_apply_rejects [OF Cons.prems Inl] show ?thesis by auto
  next
    case (Inr mg)
    obtain m g' where mg: "mg = (m, g')" by (cases mg)
    obtain v' where v': "view_apply op v = Inr (op_event op, v')" "view_sim v' g'"
      using view_apply_accepts [OF Cons.prems] Inr mg by blast
    then have "view_apply_all (op # ops) v = Inr es \<longleftrightarrow> (\<exists>es'. es = op_event op # es' \<and> view_apply_all ops v' = Inr es')"
      by (auto simp: bind_e_Inr_iff)
    also have "\<dots> \<longleftrightarrow> es = map op_event (op # ops) \<and> (\<exists>g''. apply_events es g = Inr g'')"
      using Cons.IH [OF v'(2)] Inr mg by auto
    finally show ?thesis .
  qed
qed auto

lemma validate_patch_iff:
  assumes "graph_ok g"
  shows "validate_patch p g = Inr es \<longleftrightarrow> pa_expected_graph_version p = sg_version g \<and>
    es = map op_event (pa_operations p) \<and> (\<exists>g'. apply_events es g = Inr g')"
  using view_apply_all_iff [OF view_new_sim [OF assms]] by (auto simp: validate_patch_def)

subsection \<open>A validated patch is applied as a whole\<close>

context graph_hashing begin

definition tracked :: "graph_runtime \<Rightarrow> bool" where
  "tracked rt \<longleftrightarrow> graph_ok (rt_graph rt) \<and> tracks (rt_hash rt) (rt_graph rt)"

lemma runtime_ok_tracked: "runtime_ok E rt \<Longrightarrow> tracked rt"
  using runtime_ok_graph [of rt] from_graph_tracks [of "rt_graph rt"] by (auto simp: tracked_def)

text \<open>What an operation added to the stream.\<close>

definition grown :: "graph_runtime \<Rightarrow> graph_event list \<Rightarrow> state_graph \<Rightarrow> graph_runtime \<Rightarrow> bool" where
  "grown rt es g rt' \<longleftrightarrow> tracked rt' \<and> rt_graph rt' = g \<and> rt_limits rt' = rt_limits rt \<and>
     (\<exists>rs. rt_events rt' = rt_events rt @ rs \<and> map er_event rs = es)"

lemma grown_trans: "grown rt es g rt1 \<Longrightarrow> grown rt1 es' g' rt2 \<Longrightarrow> grown rt (es @ es') g' rt2"
  by (auto simp: grown_def)

lemma grown_pending: "grown rt es g (rt'\<lparr>rt_pending := x\<rparr>) \<longleftrightarrow> grown rt es g rt'"
  by (simp add: grown_def tracked_def)

lemma append_event_grows:
  assumes t: "tracked rt" and a: "graph_apply e (rt_graph rt) = Inr (m, g)"
    and l: "length (rt_events rt) < lm_max_events (rt_limits rt)"
  shows "\<exists>r rt'. append_event E e c rt = (Inr r, rt') \<and> grown rt [e] g rt'"
proof -
  have ok: "graph_ok (rt_graph rt)" "tracks (rt_hash rt) (rt_graph rt)" using t by (simp_all add: tracked_def)
  obtain h where h: "hash_apply E e (rt_graph rt) (rt_hash rt) = Inr h" "tracks h g" using hash_apply_tracks [OF ok a] by blast
  have "graph_ok g" using graph_apply_ok [OF ok(1) a] by simp
  with h a l show ?thesis by (simp add: append_event_def Let_def grown_def tracked_def new_record_def)
qed

lemma append_push_grows:
  assumes "tracked rt" "graph_apply e (rt_graph rt) = Inr (m, g)" "length (rt_events rt) < lm_max_events (rt_limits rt)"
  shows "\<exists>r rt'. bind_r (append_event E e c) (\<lambda>r. bind_r (push_pending d r) (\<lambda>_. k r)) rt = k r rt' \<and> grown rt [e] g rt'"
proof -
  obtain r rt' where r: "append_event E e c rt = (Inr r, rt')" "grown rt [e] g rt'" using append_event_grows [OF assms] by blast
  let ?rt' = "rt'\<lparr>rt_pending := rt_pending rt' @ [(d, r)]\<rparr>"
  have "bind_r (append_event E e c) (\<lambda>r. bind_r (push_pending d r) (\<lambda>_. k r)) rt = k r ?rt'"
    using r(1) by (simp add: bind_r_def push_pending_def)
  moreover have "grown rt [e] g ?rt'" using r(2) by (simp add: grown_pending)
  ultimately show ?thesis by blast
qed

lemma append_chain_grows:
  "tracked rt \<Longrightarrow> apply_events es (rt_graph rt) = Inr g \<Longrightarrow>
     length (rt_events rt) + length es \<le> lm_max_events (rt_limits rt) \<Longrightarrow>
     \<exists>c' rt'. append_chain E es c (Some d) rt = (Inr c', rt') \<and> grown rt es g rt'"
proof (induction es arbitrary: rt c)
  case (Cons e es)
  from Cons.prems(2) obtain m g1 where a: "graph_apply e (rt_graph rt) = Inr (m, g1)" "apply_events es g1 = Inr g"
    by (auto simp: bind_e_Inr_iff)
  have l: "length (rt_events rt) < lm_max_events (rt_limits rt)" using Cons.prems(3) by simp
  obtain r :: event_record and rt1 where r: "append_chain E (e # es) c (Some d) rt = append_chain E es (er_id r) (Some d) rt1" "grown rt [e] g1 rt1"
    using append_push_grows [OF Cons.prems(1) a(1) l, of "Some c" d "\<lambda>r. append_chain E es (er_id r) (Some d)"] by auto
  have "tracked rt1" "apply_events es (rt_graph rt1) = Inr g" "length (rt_events rt1) + length es \<le> lm_max_events (rt_limits rt1)"
    using r(2) a(2) Cons.prems(3) by (auto simp: grown_def)
  then obtain c' rt' where "append_chain E es (er_id r) (Some d) rt1 = (Inr c', rt')" "grown rt1 es g rt'"
    using Cons.IH by blast
  with r grown_trans [OF r(2)] show ?case by auto
qed (auto simp: grown_def)

lemma conclude_accepted:
  assumes "tracked rt" "apply_events es (rt_graph rt) = Inr g" "length (rt_events rt) + length es < lm_max_events (rt_limits rt)"
  shows "\<exists>rt'. conclude_patch E pid d (Inr es) c rt = (Inr True, rt') \<and> grown rt (es @ [PatchApplied pid]) g rt'"
proof -
  obtain c' rt1 where r1: "append_chain E es c (Some d) rt = (Inr c', rt1)" "grown rt es g rt1"
    using append_chain_grows [OF assms(1,2), of c d] assms(3) by auto
  then have t: "tracked rt1" "graph_apply (PatchApplied pid) (rt_graph rt1) = Inr (False, g)"
    "length (rt_events rt1) < lm_max_events (rt_limits rt1)" using assms(3) by (auto simp: grown_def)
  obtain r rt' where "conclude_patch E pid d (Inr es) c rt = (Inr True, rt')" "grown rt1 [PatchApplied pid] g rt'"
    using append_push_grows [OF t, of "Some c'" d "\<lambda>_ rt. (Inr True, rt)"] r1(1) by (auto simp: conclude_patch_def bind_r_def)
  with grown_trans [OF r1(2)] show ?thesis by blast
qed

lemma conclude_rejected:
  assumes "tracked rt" "length (rt_events rt) < lm_max_events (rt_limits rt)"
  shows "\<exists>rt'. conclude_patch E pid d (Inl reason) c rt = (Inr False, rt') \<and> grown rt [PatchRejected pid reason] (rt_graph rt) rt'"
  using append_push_grows [OF assms(1) _ assms(2), of "PatchRejected pid reason" False "rt_graph rt" "Some c" d "\<lambda>_ rt. (Inr False, rt)"]
  by (auto simp: conclude_patch_def)

text \<open>The three outcomes of a patch.\<close>

lemma apply_patch_outcome:
  assumes ok: "tracked rt" and p: "apply_patch E p c d rt = (x, rt')"
  shows "case x of
      Inl e \<Rightarrow> e = EventLimitExceeded (lm_max_events (rt_limits rt)) \<and> grown rt [] (rt_graph rt) rt'
    | Inr False \<Rightarrow> \<exists>i reason. validate_patch p (rt_graph rt) = Inl reason \<and>
        grown rt [PatchProposed i p, PatchRejected i reason] (rt_graph rt) rt'
    | Inr True \<Rightarrow> \<exists>i g. apply_events (map op_event (pa_operations p)) (rt_graph rt) = Inr g \<and>
        grown rt (PatchProposed i p # map op_event (pa_operations p) @ [PatchApplied i]) g rt'"
proof -
  let ?rt = "rt\<lparr>rt_draws := rt_draws rt + 1\<rparr>" and ?id = "new_id E ''patch'' (rt_draws rt)" and ?v = "validate_patch p (rt_graph rt)"
  let ?n = "length (rt_events rt)" and ?m = "lm_max_events (rt_limits rt)"
  let ?need = "case ?v of Inl _ \<Rightarrow> 2 | Inr es \<Rightarrow> length es + 2"
  have t: "tracked ?rt" "grown rt [] (rt_graph rt) ?rt" using ok by (simp_all add: tracked_def grown_def)
  have ap: "apply_patch E p c d rt = (if ?n + ?need > ?m then (Inl (EventLimitExceeded ?m), ?rt)
      else bind_r (append_event E (PatchProposed ?id p) c) (\<lambda>r. bind_r (push_pending d r) (\<lambda>_. conclude_patch E ?id d ?v (er_id r))) ?rt)"
    by (simp add: apply_patch_def Let_def)
  show ?thesis
  proof (cases "?n + ?need > ?m")
    case True
    with ap p t(2) show ?thesis by auto
  next
    case False
    then have "?n < ?m" by (auto split: sum.splits)
    then obtain r :: event_record and rt1 where r: "apply_patch E p c d rt = conclude_patch E ?id d ?v (er_id r) rt1"
      and g1: "grown ?rt [PatchProposed ?id p] (rt_graph rt) rt1"
      using append_push_grows [OF t(1), of "PatchProposed ?id p" False "rt_graph rt" c d "\<lambda>r. conclude_patch E ?id d ?v (er_id r)"]
        ap False by auto
    then have g0: "grown rt [PatchProposed ?id p] (rt_graph rt) rt1" and t1: "tracked rt1" "rt_graph rt1 = rt_graph rt"
      and l1: "length (rt_events rt1) = Suc ?n" "rt_limits rt1 = rt_limits rt"
      by (auto simp: grown_def dest: arg_cong [where f = length])
    show ?thesis
    proof (cases ?v)
      case (Inl reason)
      then obtain rt2 where "conclude_patch E ?id d ?v (er_id r) rt1 = (Inr False, rt2)"
        "grown rt1 [PatchRejected ?id reason] (rt_graph rt) rt2"
        using conclude_rejected [OF t1(1), of ?id d reason "er_id r"] False l1 t1(2) by auto
      with r p grown_trans [OF g0] Inl show ?thesis by auto
    next
      case (Inr es)
      have "graph_ok (rt_graph rt)" using t(1) by (simp add: tracked_def)
      from validate_patch_iff [OF this] Inr obtain g where g: "es = map op_event (pa_operations p)" "apply_events es (rt_graph rt1) = Inr g"
        using t1(2) by auto
      then obtain rt2 where "conclude_patch E ?id d ?v (er_id r) rt1 = (Inr True, rt2)" "grown rt1 (es @ [PatchApplied ?id]) g rt2"
        using conclude_accepted [OF t1(1) g(2), of ?id d "er_id r"] False l1 Inr by auto
      with r p grown_trans [OF g0] g t1(2) show ?thesis by auto
    qed
  qed
qed

end

subsection \<open>Reactions end\<close>

context graph_hashing begin

text \<open>Inside a reaction nothing fails but for the length of the stream.\<close>

definition benign :: "graph_runtime \<Rightarrow> (runtime_error + 'a) \<times> graph_runtime \<Rightarrow> bool" where
  "benign rt y \<longleftrightarrow> tracked (snd y) \<and> rt_limits (snd y) = rt_limits rt \<and>
     (\<exists>new. rt_events (snd y) = rt_events rt @ new) \<and>
     (\<forall>e. fst y = Inl e \<longrightarrow> e = EventLimitExceeded (lm_max_events (rt_limits rt)))"

lemma bind_r_benign:
  assumes "benign rt (f rt)" "\<And>x rt'. tracked rt' \<Longrightarrow> benign rt' (k x rt')"
  shows "benign rt (bind_r f k rt)"
proof (cases "f rt")
  case (Pair x rt')
  with assms(1) have t: "tracked rt'" "rt_limits rt' = rt_limits rt" "\<exists>new. rt_events rt' = rt_events rt @ new"
    "\<And>e. x = Inl e \<Longrightarrow> e = EventLimitExceeded (lm_max_events (rt_limits rt))" by (auto simp: benign_def)
  show ?thesis
  proof (cases x)
    case (Inr y)
    from assms(2) [OF t(1), of y] Pair Inr t show ?thesis by (auto simp: bind_r_def benign_def)
  qed (use Pair t in \<open>simp add: bind_r_def benign_def\<close>)
qed

lemma append_meta_benign:
  assumes "tracked rt" "\<And>g. graph_apply e g = Inr (False, g)"
  shows "benign rt (append_event E e c rt)"
proof (cases "length (rt_events rt) < lm_max_events (rt_limits rt)")
  case True
  from append_event_grows [OF assms(1,2) True] obtain r rt' where "append_event E e c rt = (Inr r, rt')" "grown rt [e] (rt_graph rt) rt'"
    by blast
  then show ?thesis by (auto simp: benign_def grown_def)
qed (use assms(1) in \<open>simp add: append_event_def benign_def\<close>)

lemma apply_patch_benign: "tracked rt \<Longrightarrow> benign rt (apply_patch E p c d rt)"
  using apply_patch_outcome [of rt p c d] by (cases "apply_patch E p c d rt")
    (auto simp: benign_def grown_def split: sum.splits bool.splits)

lemma return_benign: "tracked rt \<Longrightarrow> benign rt (Inr x, rt)"
  by (simp add: benign_def)

lemma apply_patches_benign: "tracked rt \<Longrightarrow> benign rt (apply_patches E ps c d rt)"
proof (induction ps arbitrary: rt)
  case (Cons p ps)
  show ?case unfolding apply_patches.simps by (rule bind_r_benign, rule apply_patch_benign [OF Cons.prems]) (rule Cons.IH)
qed (simp add: return_benign)

lemma append_then_benign:
  assumes "tracked rt" "\<And>g. graph_apply e g = Inr (False, g)"
  shows "benign rt (bind_r (append_event E e c) (\<lambda>_ rt. (Inr (), rt)) rt)"
  by (rule bind_r_benign, rule append_meta_benign [OF assms]) (rule return_benign)

lemma run_behavior_benign:
  assumes "tracked rt"
  shows "benign rt (run_behavior E d t b rt)"
  unfolding run_behavior_def
proof (rule bind_r_benign, rule append_meta_benign [OF assms])
  fix x rt' assume t: "tracked rt'"
  have "benign rt' (bind_r (apply_patches E ps (Some (er_id t)) (d + 1)) (\<lambda>_.
      bind_r (append_event E (BehaviorCompleted (bh_name b)) (Some (er_id t))) (\<lambda>_ rt. (Inr (), rt))) rt')" for ps
    by (rule bind_r_benign, rule apply_patches_benign [OF t]) (rule append_then_benign, simp_all)
  moreover have "benign rt' (bind_r (append_event E (BehaviorFailed (bh_name b) m) (Some (er_id t))) (\<lambda>_ rt. (Inr (), rt)) rt')" for m
    by (rule append_then_benign [OF t]) simp
  ultimately show "benign rt' (case bh_evaluate b (rt_graph rt') t of
         Inr patches \<Rightarrow>
           bind_r (apply_patches E patches (Some (er_id t)) (d + 1)) (\<lambda>_.
           bind_r (append_event E (BehaviorCompleted (bh_name b)) (Some (er_id t))) (\<lambda>_ rt. (Inr (), rt))) rt'
       | Inl message \<Rightarrow>
           bind_r (append_event E (BehaviorFailed (bh_name b) message) (Some (er_id t))) (\<lambda>_ rt. (Inr (), rt)) rt')"
    by (cases "bh_evaluate b (rt_graph rt') t") simp_all
qed simp

lemma run_behaviors_benign: "tracked rt \<Longrightarrow> benign rt (run_behaviors E d t bs rt)"
proof (induction bs arbitrary: rt)
  case (Cons b bs)
  show ?case unfolding run_behaviors.simps by (rule bind_r_benign, rule run_behavior_benign [OF Cons.prems]) (rule Cons.IH)
qed (simp add: return_benign)

lemma drain_behaviors_outcome:
  "tracked rt \<Longrightarrow> drain_behaviors E rt = (x, rt') \<Longrightarrow>
     tracked rt' \<and> (\<exists>new. rt_events rt' = rt_events rt @ new) \<and> (case x of
       Inr _ \<Rightarrow> rt_pending rt' = []
     | Inl e \<Rightarrow> e = EventLimitExceeded (lm_max_events (rt_limits rt)) \<or>
         e = BehaviorDepthExceeded (lm_max_behavior_depth (rt_limits rt)))"
proof (induction rt rule: measure_induct_rule [of room])
  case (less rt)
  show ?case
  proof (cases "rt_pending rt")
    case Nil
    with less.prems show ?thesis by (auto simp: drain_behaviors.simps)
  next
    case (Cons y rest)
    obtain d t where y: "y = (d, t)" by (cases y)
    let ?rt = "rt\<lparr>rt_pending := rest\<rparr>"
    let ?run = "run_behaviors E d t (filter (\<lambda>b. filter_matches (bh_filter b) t (rt_graph ?rt)) (rt_behaviors ?rt)) ?rt"
    have t: "tracked ?rt" using less.prems(1) by (simp add: tracked_def)
    have b: "benign ?rt ?run" by (rule run_behaviors_benign [OF t])
    have "room ?rt < room rt" using Cons by (simp add: room_def)
    then have r: "room (snd ?run) < room rt" by (rule le_less_trans [OF run_behaviors_room])
    obtain z rt1 where z: "?run = (z, rt1)" by fastforce
    have unfold: "drain_behaviors E rt = (if d \<ge> lm_max_behavior_depth (rt_limits rt)
        then (Inl (BehaviorDepthExceeded (lm_max_behavior_depth (rt_limits rt))), ?rt)
        else (case ?run of (Inl e, rt) \<Rightarrow> (Inl e, rt) | (Inr _, rt) \<Rightarrow> drain_behaviors E rt))"
      by (subst drain_behaviors.simps) (simp add: Cons y Let_def)
    show ?thesis
    proof (cases "d \<ge> lm_max_behavior_depth (rt_limits rt)")
      case True
      with unfold less.prems(2) t show ?thesis by auto
    next
      case False
      with unfold z less.prems(2) b less.IH [of rt1] r show ?thesis by (cases z) (auto simp: benign_def split: sum.splits)
    qed
  qed
qed

lemma unknown_cause_rejected:
  assumes ok: "runtime_ok E rt" and c: "c \<notin> event_ids rt" and a: "append_event E e (Some c) rt = (Inr r, rt')"
  shows "replay_strict E (rt_events rt' @ later) = Inl (InvalidCausation (er_id r) c)"
proof -
  from ok obtain st where st: "replay_loop E (rt_events rt) (replay_start E) = Inr st" by (auto simp: runtime_ok_def log_ok_def)
  from append_event_Inr [OF a] obtain g h where r: "r = new_record E rt e (Some c) g h" by blast
  have "rp_done st = rev (rt_events rt)" "rp_seen st = event_ids rt" "rp_schema st \<le> 2"
    using replay_replayed [OF st] by (simp_all add: replayed_def event_ids_def GRAPH_EVENT_SCHEMA_VERSION_def)
  then have "replay_step E r st = Inl (InvalidCausation (er_id r) c)" using c
    by (simp add: r replay_step_def replay_check_def new_record_def Let_def MIN_GRAPH_EVENT_SCHEMA_VERSION_def
      GRAPH_EVENT_SCHEMA_VERSION_def)
  with st append_event_frame(1) [OF a] show ?thesis by (simp add: replay_strict_def replay_loop_append)
qed

lemma bind_r_extends:
  assumes "\<And>rt. \<exists>new. rt_events (snd (f rt)) = rt_events rt @ new" "\<And>x rt. \<exists>new. rt_events (snd (k x rt)) = rt_events rt @ new"
  shows "\<exists>new. rt_events (snd (bind_r f k rt)) = rt_events rt @ new"
proof (cases "f rt")
  case (Pair x rt')
  with assms(1) [of rt] obtain new where "rt_events rt' = rt_events rt @ new" by auto
  with Pair assms(2) [of _ rt'] show ?thesis by (cases x) (auto simp: bind_r_def)
qed

lemma append_push_extends:
  "\<exists>new. rt_events (snd (append_event E e c rt)) = rt_events rt @ new"
  "\<exists>new. rt_events (snd (push_pending d r rt)) = rt_events rt @ new"
  by (auto simp: append_event_def push_pending_def Let_def split: sum.split prod.split)

lemma append_chain_extends: "\<exists>new. rt_events (snd (append_chain E es c (Some d) rt)) = rt_events rt @ new"
  by (induction es arbitrary: c rt) (auto intro!: bind_r_extends append_push_extends)

lemma conclude_patch_extends: "\<exists>new. rt_events (snd (conclude_patch E pid d v c rt)) = rt_events rt @ new"
  by (cases v) (auto simp: conclude_patch_def intro!: bind_r_extends append_push_extends append_chain_extends)

lemma apply_patch_unknown_cause:
  assumes ok: "runtime_ok E rt" and c: "c \<notin> event_ids rt" and a: "apply_patch E p (Some c) d rt = (Inr b, rt')"
  shows "tracked rt' \<and> (\<exists>i. \<forall>later. replay_strict E (rt_events rt' @ later) = Inl (InvalidCausation i c))"
proof -
  let ?rt = "rt\<lparr>rt_draws := rt_draws rt + 1\<rparr>" and ?id = "new_id E ''patch'' (rt_draws rt)"
  let ?rest = "\<lambda>r. bind_r (push_pending d r) (\<lambda>_. conclude_patch E ?id d (validate_patch p (rt_graph rt)) (er_id r))"
  have "bind_r (append_event E (PatchProposed ?id p) (Some c)) ?rest ?rt = (Inr b, rt')"
    using a by (simp add: apply_patch_def Let_def split: if_splits)
  then obtain r rt1 where r: "append_event E (PatchProposed ?id p) (Some c) ?rt = (Inr r, rt1)" "?rest r rt1 = (Inr b, rt')"
    by (auto simp: bind_r_def split: prod.splits sum.splits)
  have "\<exists>new. rt_events (snd (?rest r rt1)) = rt_events rt1 @ new"
    by (rule bind_r_extends) (rule append_push_extends, rule conclude_patch_extends)
  with r(2) obtain new where new: "rt_events rt' = rt_events rt1 @ new" by auto
  have "runtime_ok E ?rt" by (rule steps_ok [OF draw_ok [OF ok]])
  from unknown_cause_rejected [OF this _ r(1)] c new have "replay_strict E (rt_events rt' @ later) = Inl (InvalidCausation (er_id r) c)" for later
    by (simp add: event_ids_def)
  moreover have "tracked rt'" using apply_patch_benign [OF runtime_ok_tracked [OF ok], of p "Some c" d] a by (simp add: benign_def)
  ultimately show ?thesis by blast
qed

end

end
