(* ===== verification/GraphStreams.thy ===== *)
theory GraphStreams
  imports GraphPatches
begin

section \<open>External streams, stored generations and the record chain\<close>

text \<open>
  What the cursors of a runtime say about its log: an external stream is observed without gaps and each
  event once.  What the chain of record hashes says about a log: two accepted logs with the same head are
  the same log, or the digest has a collision.  What \<^verbatim>\<open>save_if_head\<close> says about a store: a branch only
  grows.
\<close>

subsection \<open>Streams\<close>

definition observation :: "str \<times> str \<Rightarrow> event_record \<Rightarrow> (nat \<times> str) option" where
  "observation key r = (case er_event r of
     ExternalEventObserved s t n i x p \<Rightarrow> if (s, t) = key then Some (n, i) else None | _ \<Rightarrow> None)"

definition observations :: "str \<times> str \<Rightarrow> event_record list \<Rightarrow> (nat \<times> str) list" where
  "observations key rs = List.map_filter (observation key) rs"

lemma observations_simps [simp]:
  "observations key [] = []" "observations key (rs @ rs') = observations key rs @ observations key rs'"
  "observations key [r] = (case observation key r of None \<Rightarrow> [] | Some x \<Rightarrow> [x])"
  by (simp_all add: observations_def List.map_filter_def split: option.split)

lemma observations_length: "length (observations key rs) \<le> length rs"
  by (simp add: observations_def List.map_filter_def)

definition cursor_tells :: "external_cursor option \<Rightarrow> (nat \<times> str) list \<Rightarrow> bool" where
  "cursor_tells c os \<longleftrightarrow> map fst os = [1..<Suc (length os)] \<and>
     (case c of None \<Rightarrow> os = [] | Some c \<Rightarrow> os \<noteq> [] \<and> cu_sequence c = length os \<and> cu_observed c = map_of os)"

lemma expected_of_cursor:
  assumes "cursor_tells (cs key) os" "int (length os) < 18446744073709551615"
  shows "expected_sequence cs key = Suc (length os)"
  using assms by (cases "cs key") (simp_all add: cursor_tells_def expected_sequence_def u64_succ_code)

lemma cursor_tells_advance:
  assumes "cursor_tells (cs key) os" "n = Suc (length os)"
  shows "cursor_tells (advance_cursor key n i cs key) (os @ [(n, i)])"
proof -
  have "n \<notin> fst ` set os" using assms by (simp add: cursor_tells_def flip: set_map)
  then have "map_of os n = None" by (simp add: map_of_eq_None_iff)
  then have "(map_of os)(n \<mapsto> i) = map_of (os @ [(n, i)])" by (auto simp: map_add_def split: option.split)
  with assms show ?thesis by (cases "cs key") (simp_all add: cursor_tells_def advance_cursor_def Let_def)
qed

lemma external_cursors_tell:
  "external_cursors rs = Inr cs \<Longrightarrow> int (length rs) < 18446744073709551616 \<Longrightarrow> cursor_tells (cs key) (observations key rs)"
proof (induction rs arbitrary: cs rule: rev_induct)
  case Nil
  then show ?case by (auto simp: external_cursors_def cursor_tells_def)
next
  case (snoc r rs)
  then obtain cs1 where cs1: "external_cursors rs = Inr cs1" "cursor_step r cs1 = Inr cs"
    by (auto simp: external_cursors_def cursor_loop_append bind_e_Inr_iff)
  have l: "int (length (observations key rs)) < 18446744073709551615"
    using observations_length [of key rs] snoc.prems(2) by simp
  have IH: "cursor_tells (cs1 key) (observations key rs)"
    using snoc.IH [OF cs1(1)] snoc.prems(2) by simp
  show ?case
  proof (cases "\<exists>s t n i x p. er_event r = ExternalEventObserved s t n i x p \<and> (s, t) = key")
    case True
    then obtain s t n i x p where e: "er_event r = ExternalEventObserved s t n i x p" "(s, t) = key" by blast
    have n: "n = expected_sequence cs1 key" "cs = advance_cursor key n i cs1"
      using cs1(2) e by (auto simp: cursor_step_def split: if_splits)
    with expected_of_cursor [of cs1 key, OF IH l] have "n = Suc (length (observations key rs))" by simp
    from cursor_tells_advance [of cs1 key, OF IH this, of i] n e show ?thesis by (simp add: observation_def)
  next
    case False
    then have "observation key r = None" "cs key = cs1 key"
      using cs1(2) by (auto simp: observation_def cursor_step_def advance_cursor_def Let_def split: graph_event.splits if_splits)
    with IH show ?thesis by simp
  qed
qed

lemma check_observed:
  assumes t: "cursor_tells (rt_cursors rt (ev_source ev, ev_stream_id ev)) os" and i: "(ev_sequence ev, ev_event_id ev) \<in> set os"
  shows "check_external ev rt = Inr (Some Duplicate)"
proof -
  have m: "map fst os = [1..<Suc (length os)]" using t by (simp add: cursor_tells_def)
  then have "distinct (map fst os)" by simp
  then have "map_of os (ev_sequence ev) = Some (ev_event_id ev)" using i by simp
  moreover have "ev_sequence ev \<in> set (map fst os)" using i by force
  then have "ev_sequence ev \<le> length os" unfolding m by auto
  moreover have "os \<noteq> []" using i by auto
  ultimately show ?thesis using t by (auto simp: cursor_tells_def check_external_def Let_def split: option.splits)
qed

subsection \<open>The record chain\<close>

lemma replay_snoc:
  assumes "replay_loop E (rs @ [r]) (replay_start E) = Inr st'"
  shows "(\<exists>st. replay_loop E rs (replay_start E) = Inr st) \<and> er_sequence r = length rs \<and>
    er_record_hash r = record_hash E r \<and> er_previous_record_hash r = graph_event_head rs"
proof -
  from assms obtain st where st: "replay_loop E rs (replay_start E) = Inr st" "replay_step E r st = Inr st'"
    by (auto simp: replay_loop_append bind_e_Inr_iff)
  have "rp_done st = rev rs" using gh.replay_replayed [OF st(1)] by (simp add: gh.replayed_def)
  moreover have "replay_check E r st = None" using replay_step_Inr [OF st(2)] by blast
  ultimately show ?thesis using st(1) by (auto simp: replay_check_def graph_event_head_def Let_def split: if_splits)
qed

definition collision :: "graph_env \<Rightarrow> event_record set \<Rightarrow> bool" where
  "collision E R \<longleftrightarrow> (\<exists>r \<in> R. \<exists>r' \<in> R. r\<lparr>er_record_hash := []\<rparr> \<noteq> r'\<lparr>er_record_hash := []\<rparr> \<and> record_hash E r = record_hash E r')"

lemma collision_mono: "collision E R \<Longrightarrow> R \<subseteq> R' \<Longrightarrow> collision E R'"
  by (auto simp: collision_def)

lemma record_eqI:
  assumes "r\<lparr>er_record_hash := []\<rparr> = r'\<lparr>er_record_hash := []\<rparr>" "er_record_hash r = er_record_hash r'"
  shows "r = (r' :: event_record)"
  using assms by (cases r; cases r') simp

lemma head_snoc [simp]: "graph_event_head [] = None" "graph_event_head (rs @ [r]) = Some (er_record_hash r)"
  by (simp_all add: graph_event_head_def last_hash_def)

lemma accepted_same_head:
  "replay_loop E xs (replay_start E) = Inr st \<Longrightarrow> replay_loop E ys (replay_start E) = Inr st' \<Longrightarrow>
     graph_event_head xs = graph_event_head ys \<Longrightarrow> xs = ys \<or> collision E (set xs \<union> set ys)"
proof (induction xs arbitrary: ys st st' rule: rev_induct)
  case Nil
  then show ?case by (cases ys rule: rev_cases) simp_all
next
  case (snoc x xs)
  from snoc.prems(3) obtain y ys' where ys: "ys = ys' @ [y]" by (cases ys rule: rev_cases) simp_all
  from replay_snoc [OF snoc.prems(1)] obtain s where x: "replay_loop E xs (replay_start E) = Inr s"
    "er_record_hash x = record_hash E x" "er_previous_record_hash x = graph_event_head xs" by blast
  from replay_snoc [OF snoc.prems(2) [unfolded ys]] obtain s' where y: "replay_loop E ys' (replay_start E) = Inr s'"
    "er_record_hash y = record_hash E y" "er_previous_record_hash y = graph_event_head ys'" by blast
  have h: "er_record_hash x = er_record_hash y" using snoc.prems(3) ys by simp
  show ?case
  proof (cases "x\<lparr>er_record_hash := []\<rparr> = y\<lparr>er_record_hash := []\<rparr>")
    case True
    with h have "x = y" by (rule record_eqI [rotated])
    with x y snoc.IH [OF x(1) y(1)] have "xs = ys' \<or> collision E (set xs \<union> set ys')" by simp
    moreover have "collision E (set xs \<union> set ys') \<Longrightarrow> collision E (set (xs @ [x]) \<union> set ys)"
      by (rule collision_mono) (auto simp: ys)
    ultimately show ?thesis using \<open>x = y\<close> ys by auto
  next
    case False
    with h x(2) y(2) ys show ?thesis by (auto simp: collision_def)
  qed
qed

lemma accepted_sequences:
  "replay_loop E rs (replay_start E) = Inr st \<Longrightarrow> map er_sequence rs = [0..<length rs] \<and> (\<forall>r \<in> set rs. er_record_hash r = record_hash E r)"
proof (induction rs arbitrary: st rule: rev_induct)
  case (snoc r rs)
  from replay_snoc [OF snoc.prems] snoc.IH show ?case by auto
qed simp

lemma head_of_extension:
  assumes a: "replay_loop E (old @ new) (replay_start E) = Inr st" and n: "new \<noteq> []"
    and h: "graph_event_head (old @ new) = graph_event_head old"
  shows "collision E (set (old @ new))"
proof -
  obtain st' where "replay_loop E old (replay_start E) = Inr st'" using gh.replay_prefix [OF a] by blast
  from accepted_same_head [OF a this h] n show ?thesis by (auto intro: collision_mono)
qed

lemma accepted_head_moves:
  assumes "strict_replay E (old @ new) = Inr g" "old @ new \<noteq> old"
  shows "graph_event_head (old @ new) \<noteq> graph_event_head old \<or> collision E (set (old @ new))"
proof -
  obtain st where "replay_loop E (old @ new) (replay_start E) = Inr st"
    using assms(1) by (auto simp: strict_replay_def replay_strict_def bind_e_Inr_iff)
  from head_of_extension [OF this] assms(2) show ?thesis by auto
qed

subsection \<open>Stored generations\<close>

definition store_valid :: "graph_env \<Rightarrow> memory_store \<Rightarrow> bool" where
  "store_valid E st \<longleftrightarrow> (\<forall>b rs. st b = Some rs \<longrightarrow> (\<exists>g. strict_replay E rs = Inr g))"

lemma ensure_extends_iff: "ensure_extends (Some old) rs \<longleftrightarrow> (\<exists>new. rs = old @ new)"
proof
  assume "ensure_extends (Some old) rs"
  then have "rs = old @ drop (length old) rs"
    using append_take_drop_id [of "length old" rs] by (simp add: ensure_extends_def)
  then show "\<exists>new. rs = old @ new" ..
qed (auto simp: ensure_extends_def)

lemma save_if_head_cases:
  obtains (refused) e where "save_if_head E b h rs st = (Inl e, st)"
  | (conflict) "Option.bind (st b) graph_event_head \<noteq> h"
      "save_if_head E b h rs st = (Inr (Conflict (Option.bind (st b) graph_event_head)), st)"
  | (saved) g where "save_if_head E b h rs st = (Inr Saved, st(b \<mapsto> rs))" "strict_replay E rs = Inr g"
      "Option.bind (st b) graph_event_head = h" "\<And>old. st b = Some old \<Longrightarrow> \<exists>new. rs = old @ new"
proof (cases "strict_replay E rs")
  case (Inl e)
  then show ?thesis using refused by (simp add: save_if_head_def)
next
  case (Inr g)
  show ?thesis
  proof (cases "Option.bind (st b) graph_event_head = h")
    case True
    show ?thesis
    proof (cases "ensure_extends (st b) rs")
      case ext: True
      then have "\<exists>new. rs = old @ new" if "st b = Some old" for old using that by (simp add: ensure_extends_iff)
      with Inr True ext saved [of g] show ?thesis by (simp add: save_if_head_def Let_def store_save_def)
    next
      case False
      with Inr True refused show ?thesis by (simp add: save_if_head_def Let_def)
    qed
  next
    case False
    with Inr conflict show ?thesis by (simp add: save_if_head_def Let_def)
  qed
qed

text \<open>Writers that only use \<^verbatim>\<open>save_if_head\<close>.\<close>

fun save_all :: "graph_env \<Rightarrow> (str \<times> str option \<times> event_record list) list \<Rightarrow> memory_store \<Rightarrow> memory_store" where
  "save_all E [] st = st"
| "save_all E ((b, h, rs) # ws) st = save_all E ws (snd (save_if_head E b h rs st))"

lemma save_if_head_grows: "st b' = Some old \<Longrightarrow> \<exists>new. snd (save_if_head E b h rs st) b' = Some (old @ new)"
  by (cases rule: save_if_head_cases [of E b h rs st]) auto

lemma save_if_head_valid: "store_valid E st \<Longrightarrow> store_valid E (snd (save_if_head E b h rs st))"
  by (cases rule: save_if_head_cases [of E b h rs st]) (auto simp: store_valid_def)

lemma save_all_grows: "st b = Some old \<Longrightarrow> \<exists>new. save_all E ws st b = Some (old @ new)"
proof (induction ws arbitrary: st old)
  case (Cons w ws)
  obtain b' h rs where w: "w = (b', h, rs)" by (cases w)
  from save_if_head_grows [of st b old E b' h rs] Cons.prems obtain new where "snd (save_if_head E b' h rs st) b = Some (old @ new)" by blast
  with Cons.IH [of "snd (save_if_head E b' h rs st)" "old @ new"] w show ?case by auto
qed simp

lemma save_all_valid: "store_valid E st \<Longrightarrow> store_valid E (save_all E ws st)"
  by (induction E ws st rule: save_all.induct) (simp_all add: save_if_head_valid)

end
