(* ===== verification/GraphProperties.thy ===== *)
theory GraphProperties
  imports GraphStreams
begin

section \<open>Properties of the state graph\<close>

text \<open>
  The promises of the state graph, about every runtime that a client can reach.  The only hypothesis on
  the environment is that ids are not drawn twice.  The witnesses use a small environment with ids of
  growing length.
\<close>

subsection \<open>A small environment\<close>

definition demo_env :: graph_env where
  "demo_env = \<lparr>ge_sha256 = \<lambda>bs. of_nat (length bs), ge_json_object = \<lambda>ob. map of_char (ob_id ob),
     ge_json_relation = \<lambda>r. map of_char (re_id r), ge_json_graph = \<lambda>g. [], ge_json_record = \<lambda>r. map of_char (er_id r),
     ge_uuid = \<lambda>n. replicate n (CHR ''u''), ge_clock = \<lambda>n. n\<rparr>"

lemma demo_uuid: "inj (ge_uuid demo_env)"
  by (rule injI) (simp add: demo_env_def)

definition demo_patch :: graph_patch where
  "demo_patch = \<lparr>pa_expected_graph_version = 0, pa_operations =
     [AddObject ''a'' ''task'' JNull, AddObject ''b'' ''task'' JNull, AddRelation ''r'' ''needs'' ''a'' ''b'' JNull]\<rparr>"

definition demo_empty :: graph_patch where
  "demo_empty = \<lparr>pa_expected_graph_version = 0, pa_operations = []\<rparr>"

definition demo_start :: graph_runtime where
  "demo_start = with_limits demo_env \<lparr>lm_max_events = 8, lm_max_behavior_depth = 2\<rparr> 0"

definition demo_runtime :: graph_runtime where
  "demo_runtime = snd (propose_patch demo_env demo_patch None demo_start)"



lemma demo_start_reachable: "runtime_reachable demo_env demo_start"
  unfolding demo_start_def by (rule reach_new)

lemma demo_runtime_reachable: "runtime_reachable demo_env demo_runtime"
  unfolding demo_runtime_def by (rule reach_propose [OF demo_start_reachable]) (simp add: cause_ok_def)


lemma demo_start_tracked: "gh.tracked demo_env demo_start"
  by (rule gh.runtime_ok_tracked [OF gh.runtime_reachable_ok [OF demo_start_reachable demo_uuid]])

lemma demo_validates: "validate_patch demo_patch graph_default = Inr [ObjectCreated ''a'' ''task'' JNull,
    ObjectCreated ''b'' ''task'' JNull, RelationCreated ''r'' ''needs'' ''a'' ''b'' JNull]"
  by code_simp

text \<open>Without behaviors the queue is only emptied.\<close>

lemma drain_without_behaviors:
  "rt_behaviors rt = [] \<Longrightarrow> 0 < lm_max_behavior_depth (rt_limits rt) \<Longrightarrow> list_all (\<lambda>(d, r). d = 0) (rt_pending rt) \<Longrightarrow>
     drain_behaviors E rt = (Inr (), rt\<lparr>rt_pending := []\<rparr>)"
proof (induction "rt_pending rt" arbitrary: rt)
  case Nil
  then show ?case by (subst drain_behaviors.simps) simp
next
  case (Cons x xs)
  obtain d r where x: "x = (d, r)" by (cases x)
  from Cons.hyps(1) [of "rt\<lparr>rt_pending := xs\<rparr>"] Cons.hyps(2) [symmetric] Cons.prems x show ?case
    by (subst drain_behaviors.simps) (simp add: Let_def)
qed

lemmas demo_eval = demo_start_def demo_empty_def with_limits_def Let_def validate_patch_def bind_r_def append_event_def
  push_pending_def conclude_patch_def graph_default_def drain_without_behaviors

lemma demo_ghost: "fst (propose_patch demo_env demo_empty (Some ''ghost'') demo_start) = Inr True"
  by (simp add: propose_patch_def apply_patch_def demo_eval)



subsection \<open>The log\<close>



text \<open>The graph of every reachable runtime is well-formed: the keys are in strict order, every object and
  relation stands under its own id with a version of at least 1, and both ends of every relation exist.\<close>

theorem runtime_graph_is_well_formed:
  assumes "inj (ge_uuid E)" and "runtime_reachable E rt"
  shows "sorted_wrt (<) (map fst (sg_objects (rt_graph rt))) \<and> sorted_wrt (<) (map fst (sg_relations (rt_graph rt))) \<and>
    (\<forall>(k, ob) \<in> set (sg_objects (rt_graph rt)). ob_id ob = k \<and> 1 \<le> ob_version ob) \<and>
    (\<forall>(k, r) \<in> set (sg_relations (rt_graph rt)). re_id r = k \<and> 1 \<le> re_version r \<and>
       re_source r \<in> fst ` set (sg_objects (rt_graph rt)) \<and> re_target r \<in> fst ` set (sg_objects (rt_graph rt)))"
proof -
  have g: "graph_ok (rt_graph rt)" using gh.runtime_ok_graph [OF gh.runtime_reachable_ok [OF assms(2,1)]] by blast
  then have "bt_ok (sg_objects (rt_graph rt))" "bt_ok (sg_relations (rt_graph rt))" by (simp_all add: graph_ok_def)
  with g show ?thesis by (auto simp: graph_ok_def bt_ok_member map_of_eq_None_iff)
qed

theorem runtime_graph_is_well_formed_witness:
  "sorted_wrt (<) (map fst (sg_objects (rt_graph demo_runtime)))"
  using runtime_graph_is_well_formed [OF demo_uuid demo_runtime_reachable] by blast






text \<open>A patch that names a cause which is not in the log is accepted, but its log is then beyond repair: no replay
  accepts it any more, and it cannot be restored.\<close>

theorem unknown_cause_breaks_the_log:
  assumes "inj (ge_uuid E)" and "runtime_reachable E rt" and "c \<notin> er_id ` set (rt_events rt)"
    and "propose_patch E p (Some c) rt = (Inr b, rt')"
  shows "\<exists>i. replay_strict E (rt_events rt') = Inl (InvalidCausation i c) \<and> restore E (rt_events rt') n = Inl (InvalidCausation i c)"
proof -
  note ok = gh.runtime_reachable_ok [OF assms(2,1)]
  from assms(4) obtain rt1 where a: "apply_patch E p (Some c) 0 rt = (Inr b, rt1)" and d: "snd (drain_behaviors E rt1) = rt'"
    by (auto simp: propose_patch_def bind_r_def split: prod.splits sum.splits)
  from gh.apply_patch_unknown_cause [OF ok _ a] assms(3) obtain i where t: "gh.tracked E rt1" and
    i: "\<And>later. replay_strict E (rt_events rt1 @ later) = Inl (InvalidCausation i c)" by (auto simp: event_ids_def)
  obtain x where "drain_behaviors E rt1 = (x, rt')" using d by (metis prod.collapse)
  with gh.drain_behaviors_outcome [OF t] obtain new where "rt_events rt' = rt_events rt1 @ new" by blast
  with i [of new] show ?thesis by (auto simp: restore_def rebuild_def)
qed

theorem unknown_cause_breaks_the_log_witness:
  "\<exists>i. restore demo_env (rt_events (snd (propose_patch demo_env demo_empty (Some ''ghost'') demo_start))) 0 =
     Inl (InvalidCausation i ''ghost'')"
proof -
  have "''ghost'' \<notin> er_id ` set (rt_events demo_start)" by (simp add: demo_start_def with_limits_def)
  moreover have "propose_patch demo_env demo_empty (Some ''ghost'') demo_start =
    (Inr True, snd (propose_patch demo_env demo_empty (Some ''ghost'') demo_start))" using demo_ghost by (metis prod.collapse)
  ultimately show ?thesis using unknown_cause_breaks_the_log [OF demo_uuid demo_start_reachable, of "''ghost''" demo_empty True _ 0]
    by blast
qed

text \<open>An observation that is emitted as a plain event does not pass the check of its sequence number, and the log
  is not accepted any more.\<close>

lemma emitted_observation_breaks_the_log:
  "\<exists>r rt reason. emit demo_env (ExternalEventObserved ''ci'' ''main'' 7 ''e7'' ''build.done'' JNull) demo_start = (Inr r, rt) \<and>
     strict_replay demo_env (rt_events rt) = Inl (InvalidMutation reason)"
  by (simp add: emit_def demo_eval strict_replay_def external_cursors_def cursor_step_def new_record_def expected_sequence_def)

subsection \<open>The graph and its hash\<close>

text \<open>C19. The incremental structural hash is the hash of the graph: after every event that applies, updating the hash by
  the contributions of the changed entry gives what hashing the new graph from scratch gives.\<close>

theorem incremental_hash_is_structural:
  assumes "graph_ok g" and "hash_from_graph E g = Inr h" and "graph_apply ev g = Inr (mutated, g')"
  shows "hash_apply E ev g h = hash_from_graph E g' \<and> (\<exists>h'. hash_from_graph E g' = Inr h' \<and> length h' = 32)"
proof -
  obtain h' where h': "hash_from_graph E g' = Inr h'" "gh.tracks E h' g'" using gh.from_graph_tracks by blast
  then have "length h' = 32" by (simp add: gh.tracks_def)
  moreover from gh.hash_apply_from_graph [OF assms] h' have "hash_apply E ev g h = Inr h'" by auto
  ultimately show ?thesis using h' by simp
qed

theorem incremental_hash_is_structural_witness:
  "hash_apply demo_env (ObjectCreated ''a'' ''task'' JNull) graph_default hash_default = hash_from_graph demo_env
     \<lparr>sg_version = 1, sg_objects = [(''a'', \<lparr>ob_id = ''a'', ob_type = ''task'', ob_data = JNull, ob_version = 1\<rparr>)], sg_relations = []\<rparr>"
proof -
  have "hash_from_graph demo_env graph_default = Inr hash_default" by (simp add: hash_from_graph_def graph_default_def)
  moreover have "graph_apply (ObjectCreated ''a'' ''task'' JNull) graph_default = Inr (True,
     \<lparr>sg_version = 1, sg_objects = [(''a'', \<lparr>ob_id = ''a'', ob_type = ''task'', ob_data = JNull, ob_version = 1\<rparr>)], sg_relations = []\<rparr>)"
    by (simp add: graph_default_def bump_version_def)
  ultimately show ?thesis using incremental_hash_is_structural [OF graph_default_ok] by blast
qed

subsection \<open>Patches\<close>

text \<open>C18. Validating a patch on the overlay refines applying it: on a well-formed graph the validation succeeds
  exactly if the patch expects the version of the graph and the events of its operations, applied one after
  another to a copy of the graph, all succeed; and it returns these events.\<close>

theorem overlay_validation_is_sequential:
  assumes "graph_ok g"
  shows "validate_patch p g = Inr es \<longleftrightarrow> pa_expected_graph_version p = sg_version g \<and>
    es = map op_event (pa_operations p) \<and> (\<exists>g'. apply_events es g = Inr g')"
  by (rule validate_patch_iff [OF assms])

theorem overlay_validation_is_sequential_witness:
  "\<exists>g'. apply_events [ObjectCreated ''a'' ''task'' JNull, ObjectCreated ''b'' ''task'' JNull,
     RelationCreated ''r'' ''needs'' ''a'' ''b'' JNull] graph_default = Inr g'"
  using overlay_validation_is_sequential [OF graph_default_ok] demo_validates by blast

text \<open>C17. A patch is applied as a whole or not at all.  It is refused for want of room and nothing is recorded; or it
  is recorded with the reason of its rejection and the graph stays; or its proposal, one event per operation and its
  confirmation are recorded, and the graph is the one that all its operations give.\<close>

theorem patch_is_all_or_nothing:
  assumes "inj (ge_uuid E)" and "runtime_reachable E rt" and "apply_patch E p c d rt = (x, rt')"
  shows "case x of
      Inl e \<Rightarrow> e = EventLimitExceeded (lm_max_events (rt_limits rt)) \<and> rt_events rt' = rt_events rt \<and> rt_graph rt' = rt_graph rt
    | Inr False \<Rightarrow> rt_graph rt' = rt_graph rt \<and> (\<exists>i reason. validate_patch p (rt_graph rt) = Inl reason \<and>
        map er_event (rt_events rt') = map er_event (rt_events rt) @ [PatchProposed i p, PatchRejected i reason])
    | Inr True \<Rightarrow> apply_events (map op_event (pa_operations p)) (rt_graph rt) = Inr (rt_graph rt') \<and>
        (\<exists>i. map er_event (rt_events rt') =
          map er_event (rt_events rt) @ PatchProposed i p # map op_event (pa_operations p) @ [PatchApplied i])"
proof -
  have "gh.tracked E rt" by (rule gh.runtime_ok_tracked [OF gh.runtime_reachable_ok [OF assms(2,1)]])
  from gh.apply_patch_outcome [OF this assms(3)] show ?thesis
    by (cases x; cases "projr x") (auto simp: gh.grown_def)
qed

theorem patch_is_all_or_nothing_witness:
  "apply_events (map op_event (pa_operations demo_patch)) graph_default =
     Inr (rt_graph (snd (apply_patch demo_env demo_patch None 0 demo_start)))"
proof -
  obtain x rt' where a: "apply_patch demo_env demo_patch None 0 demo_start = (x, rt')" by fastforce
  have "x = Inr True" using a
    by (simp add: apply_patch_def demo_patch_def demo_eval bump_version_def view_new_def view_object_def view_relation_def)
  moreover have "rt_graph demo_start = graph_default" by (simp add: demo_start_def with_limits_def)
  ultimately show ?thesis using patch_is_all_or_nothing [OF demo_uuid demo_start_reachable a] a by simp
qed



subsection \<open>External streams and stores\<close>



text \<open>Compare-and-swap keeps history.  A generation that \<^verbatim>\<open>save_if_head\<close> stores replays and extends the stored one;
  other branches stay; later writers can only extend it; and when it added records, a writer that still has
  the old head is refused with the new head, unless two records of the generation have the same digest.\<close>

theorem compare_and_swap_keeps_history:
  assumes "save_if_head E b h rs st = (Inr Saved, st')"
  shows "st' = st(b \<mapsto> rs) \<and> (\<exists>g. strict_replay E rs = Inr g) \<and> (\<forall>old. st b = Some old \<longrightarrow> (\<exists>new. rs = old @ new)) \<and>
    (\<exists>new. save_all E ws st' b = Some (rs @ new)) \<and>
    (rs \<noteq> (case st b of None \<Rightarrow> [] | Some old \<Rightarrow> old) \<and> strict_replay E rs2 = Inr g2 \<longrightarrow>
       save_if_head E b h rs2 st' = (Inr (Conflict (graph_event_head rs)), st') \<or> collision E (set rs))"
proof (cases rule: save_if_head_cases [of E b h rs st])
  case (saved g)
  have st': "st' = st(b \<mapsto> rs)" using saved(1) assms by simp
  have moves: "graph_event_head rs \<noteq> graph_event_head old \<or> collision E (set rs)" if "rs = old @ new" "rs \<noteq> old" for old new
    using accepted_head_moves [of E old new g] saved(2) that by simp
  have empty: "graph_event_head rs \<noteq> None" if "rs \<noteq> []" using that by (cases rs rule: rev_cases) simp_all
  have "graph_event_head rs \<noteq> h \<or> collision E (set rs)" if "rs \<noteq> (case st b of None \<Rightarrow> [] | Some old \<Rightarrow> old)"
    using that moves empty saved(3,4) by (cases "st b") auto
  moreover have "save_if_head E b h rs2 st' = (Inr (Conflict (graph_event_head rs)), st')"
    if "graph_event_head rs \<noteq> h" "strict_replay E rs2 = Inr g2"
    using that st' by (simp add: save_if_head_def Let_def)
  moreover have "\<exists>new. save_all E ws st' b = Some (rs @ new)" by (rule save_all_grows) (simp add: st')
  ultimately show ?thesis using st' saved(2,4) by blast
qed (use assms in simp_all)

theorem compare_and_swap_keeps_history_witness:
  "\<exists>new. save_all demo_env [(''main'', None, [])] [''main'' \<mapsto> rt_events demo_runtime] ''main'' = Some (rt_events demo_runtime @ new)"
proof -
  have "strict_replay demo_env (rt_events demo_runtime) = Inr (rt_graph demo_runtime)"
    by (rule gh.runtime_ok_replays [OF gh.runtime_reachable_ok [OF demo_runtime_reachable demo_uuid]])
  then have "save_if_head demo_env ''main'' None (rt_events demo_runtime) Map.empty =
      (Inr Saved, [''main'' \<mapsto> rt_events demo_runtime])"
    by (simp add: save_if_head_def ensure_extends_def store_save_def)
  from compare_and_swap_keeps_history [OF this] show ?thesis by blast
qed

end
