(* ===== verification/UnifiedDiffs.thy ===== *)
theory UnifiedDiffs
  imports Prelude
begin

section \<open>The patch tool: unified diffs\<close>

text \<open>
  \<^verbatim>\<open>core/src/tools/builtin/patch.rs\<close>: parsing a unified diff into hunks, reading a file into lines, and
  applying the hunks from top to bottom against exact source lines.

  An error is a value of \<open>diff_error\<close> with the values the message of the source shows.  A cursor into the
  lines of the diff is the number of lines before it together with the lines that are left.
\<close>

subsection \<open>Hunks\<close>

datatype hunk_operation = Context str | Remove str | Add str

record hunk =
  hk_old_start :: nat
  hk_old_count :: nat
  hk_new_start :: nat
  hk_new_count :: nat
  hk_operations :: "hunk_operation list"
  hk_old_no_newline :: bool
  hk_new_no_newline :: bool

datatype diff_error =
    OutsideHunk nat str
  | NoHunks
  | MarkerWithoutLine nat
  | BadPrefix nat str
  | CountMismatch str nat nat nat nat
  | BadHeader str
  | BadRange str
  | BadRangeStart str
  | BadRangeCount str
  | MixedEndings
  | CarriageReturns
  | OldRangeOutside nat
  | NewRangeElsewhere nat nat
  | FileEnded str nat str
  | LineMismatch str nat str str
  | FinalNewline

subsection \<open>Parsing a diff\<close>

definition parse_hunk_range :: "str \<Rightarrow> char \<Rightarrow> str \<Rightarrow> diff_error + nat \<times> nat" where
  "parse_hunk_range value prefix header =
     (case strip_prefix [prefix] value of
        None \<Rightarrow> Inl (BadRange header)
      | Some value \<Rightarrow>
          let (start, count) = (case split_once (CHR '','') value of Some (s, c) \<Rightarrow> (s, Some c) | None \<Rightarrow> (value, None))
          in (case parse_usize start of
                None \<Rightarrow> Inl (BadRangeStart header)
              | Some start \<Rightarrow>
                  (case parse_usize (case count of Some c \<Rightarrow> c | None \<Rightarrow> ''1'') of
                     None \<Rightarrow> Inl (BadRangeCount header)
                   | Some count \<Rightarrow> Inr (start, count))))"

definition parse_hunk_header :: "str \<Rightarrow> diff_error + nat \<times> nat \<times> nat \<times> nat" where
  "parse_hunk_header header =
     (case Option.bind (strip_prefix ''@@'' header) (text_before ''@@'') of
        None \<Rightarrow> Inl (BadHeader header)
      | Some stripped \<Rightarrow>
          (case split_whitespace (trim stripped) of
             old # new # _ \<Rightarrow>
               bind_e (parse_hunk_range old (CHR ''-'') header) (\<lambda>(old_start, old_count).
               bind_e (parse_hunk_range new (CHR ''+'') header) (\<lambda>(new_start, new_count).
               Inr (old_start, old_count, new_start, new_count)))
           | _ \<Rightarrow> Inl (BadHeader header)))"

definition NO_NEWLINE :: str where
  "NO_NEWLINE = CHR 0x5C # '' No newline at end of file''"

text \<open>What the loop over the lines of a hunk carries.\<close>

record hunk_body =
  hb_operations :: "hunk_operation list"
  hb_old_no_newline :: bool
  hb_new_no_newline :: bool
  hb_previous_kind :: "char option"

definition body_empty :: hunk_body where
  "body_empty = \<lparr>hb_operations = [], hb_old_no_newline = False, hb_new_no_newline = False, hb_previous_kind = None\<rparr>"

definition push_operation :: "hunk_operation \<Rightarrow> char \<Rightarrow> hunk_body \<Rightarrow> hunk_body" where
  "push_operation op kind b = b\<lparr>hb_operations := hb_operations b @ [op], hb_previous_kind := Some kind\<rparr>"

definition mark_no_newline :: "hunk_body \<Rightarrow> hunk_body option" where
  "mark_no_newline b =
     (case hb_previous_kind b of
        None \<Rightarrow> None
      | Some k \<Rightarrow>
          if k = CHR ''-'' then Some (b\<lparr>hb_old_no_newline := True\<rparr>)
          else if k = CHR ''+'' then Some (b\<lparr>hb_new_no_newline := True\<rparr>)
          else if k = CHR '' '' then Some (b\<lparr>hb_old_no_newline := True, hb_new_no_newline := True\<rparr>)
          else None)"

fun read_body :: "nat \<Rightarrow> str list \<Rightarrow> hunk_body \<Rightarrow> diff_error + hunk_body \<times> nat \<times> str list" where
  "read_body i [] b = Inr (b, i, [])"
| "read_body i (line # rest) b =
     (if starts_with ''@@'' line then Inr (b, i, line # rest)
      else if line = NO_NEWLINE then
        (case mark_no_newline b of None \<Rightarrow> Inl (MarkerWithoutLine (i + 1)) | Some b \<Rightarrow> read_body (i + 1) rest b)
      else (case line of
          [] \<Rightarrow> if rest = [] then Inr (b, i, line # rest) else Inl (BadPrefix (i + 1) line)
        | k # content \<Rightarrow>
            if k = CHR '' '' then read_body (i + 1) rest (push_operation (Context content) k b)
            else if k = CHR ''-'' then read_body (i + 1) rest (push_operation (Remove content) k b)
            else if k = CHR ''+'' then read_body (i + 1) rest (push_operation (Add content) k b)
            else Inl (BadPrefix (i + 1) line)))"

fun is_add :: "hunk_operation \<Rightarrow> bool" where
  "is_add (Add _) = True"
| "is_add _ = False"

fun is_remove :: "hunk_operation \<Rightarrow> bool" where
  "is_remove (Remove _) = True"
| "is_remove _ = False"

definition parse_single_hunk :: "nat \<Rightarrow> str \<Rightarrow> str list \<Rightarrow> diff_error + hunk \<times> nat \<times> str list" where
  "parse_single_hunk i header rest =
     bind_e (parse_hunk_header header) (\<lambda>(old_start, old_count, new_start, new_count).
     bind_e (read_body (i + 1) rest body_empty) (\<lambda>(b, j, rest).
       let ops = hb_operations b;
           actual_old_count = length (filter (\<lambda>op. \<not> is_add op) ops);
           actual_new_count = length (filter (\<lambda>op. \<not> is_remove op) ops)
       in if actual_old_count \<noteq> old_count \<or> actual_new_count \<noteq> new_count
          then Inl (CountMismatch header old_count new_count actual_old_count actual_new_count)
          else Inr (\<lparr>hk_old_start = old_start, hk_old_count = old_count, hk_new_start = new_start,
            hk_new_count = new_count, hk_operations = ops, hk_old_no_newline = hb_old_no_newline b,
            hk_new_no_newline = hb_new_no_newline b\<rparr>, j, rest)))"

lemma read_body_length: "read_body i ls b = Inr (b', j, rest) \<Longrightarrow> length rest \<le> length ls"
proof (induction i ls b rule: read_body.induct)
  case (2 i line rest' b)
  then show ?case
    by (cases line) (auto split: if_splits option.splits intro: le_SucI)
qed simp

lemma parse_single_hunk_length: "parse_single_hunk i header ls = Inr (h, j, rest) \<Longrightarrow> length rest \<le> length ls"
  by (auto simp: parse_single_hunk_def bind_e_Inr_iff Let_def split: if_splits dest: read_body_length)

function parse_loop :: "nat \<Rightarrow> str list \<Rightarrow> hunk list \<Rightarrow> diff_error + hunk list" where
  "parse_loop i [] hunks = Inr hunks"
| "parse_loop i (line # rest) hunks =
     (if starts_with ''@@'' line then
        (case parse_single_hunk i line rest of
           Inl e \<Rightarrow> Inl e
         | Inr (h, j, rest) \<Rightarrow> parse_loop j rest (hunks @ [h]))
      else if hunks \<noteq> [] \<and> line \<noteq> [] then Inl (OutsideHunk (i + 1) line)
      else parse_loop (i + 1) rest hunks)"
  by pat_completeness auto

termination
  by (relation "measure (\<lambda>(i, ls, hs). length ls)") (auto simp: less_Suc_eq_le dest: parse_single_hunk_length)

definition strip_cr :: "str \<Rightarrow> str" where
  "strip_cr line = (case strip_suffix [CR] line of Some l \<Rightarrow> l | None \<Rightarrow> line)"

definition parse_hunks :: "str \<Rightarrow> diff_error + hunk list" where
  "parse_hunks diff =
     bind_e (parse_loop 0 (map strip_cr (split_on LF diff)) []) (\<lambda>hunks.
     if hunks = [] then Inl NoHunks else Inr hunks)"

subsection \<open>Reading a file\<close>

record text_document =
  td_lines :: "str list"
  td_line_ending :: str
  td_trailing_newline :: bool

definition has_bare_lf :: "str \<Rightarrow> bool" where
  "has_bare_lf content \<longleftrightarrow>
     list_ex (\<lambda>i. content ! i = LF \<and> (i = 0 \<or> content ! (i - 1) \<noteq> CR)) [0..<length content]"

definition parse_document :: "str \<Rightarrow> diff_error + text_document" where
  "parse_document content =
     (let has_crlf = contains_str [CR, LF] content
      in if has_crlf \<and> has_bare_lf content then Inl MixedEndings
         else if CR \<in> set content \<and> \<not> has_crlf then Inl CarriageReturns
         else
           let trailing = ends_with [LF] content;
               lines = (if content = [] then [] else map strip_cr (split_on LF content))
           in Inr \<lparr>td_lines = (if trailing then butlast lines else lines),
                td_line_ending = (if has_crlf then [CR, LF] else [LF]), td_trailing_newline = trailing\<rparr>)"

subsection \<open>Applying hunks\<close>

definition require_exact_line :: "str list \<Rightarrow> nat \<Rightarrow> str \<Rightarrow> str \<Rightarrow> diff_error + unit" where
  "require_exact_line lines i expected kind =
     (case get_at lines i of
        None \<Rightarrow> Inl (FileEnded kind (i + 1) expected)
      | Some actual \<Rightarrow> if actual \<noteq> expected then Inl (LineMismatch kind (i + 1) expected actual) else Inr ())"

fun apply_operations :: "str list \<Rightarrow> hunk_operation list \<Rightarrow> nat \<Rightarrow> str list \<Rightarrow> diff_error + nat \<times> str list" where
  "apply_operations lines [] i out = Inr (i, out)"
| "apply_operations lines (Context l # ops) i out =
     bind_e (require_exact_line lines i l ''context'') (\<lambda>_. apply_operations lines ops (i + 1) (out @ [l]))"
| "apply_operations lines (Remove l # ops) i out =
     bind_e (require_exact_line lines i l ''removal'') (\<lambda>_. apply_operations lines ops (i + 1) out)"
| "apply_operations lines (Add l # ops) i out = apply_operations lines ops i (out @ [l])"

record patch_state =
  ps_output :: "str list"
  ps_old_cursor :: nat
  ps_trailing_newline :: bool

definition old_target :: "hunk \<Rightarrow> nat" where
  "old_target h = (if hk_old_count h = 0 then hk_old_start h else hk_old_start h - 1)"

definition new_target :: "hunk \<Rightarrow> nat" where
  "new_target h = (if hk_new_count h = 0 then hk_new_start h else hk_new_start h - 1)"

definition apply_hunk :: "text_document \<Rightarrow> hunk \<Rightarrow> patch_state \<Rightarrow> diff_error + patch_state" where
  "apply_hunk d h st =
     (if old_target h < ps_old_cursor st \<or> old_target h > length (td_lines d)
      then Inl (OldRangeOutside (hk_old_start h))
      else
        let out = ps_output st @ slice (ps_old_cursor st) (old_target h) (td_lines d)
        in if length out \<noteq> new_target h then Inl (NewRangeElsewhere (hk_new_start h) (length out + 1))
           else bind_e (apply_operations (td_lines d) (hk_operations h) (old_target h) out) (\<lambda>(cursor, out).
             let eof = (cursor = length (td_lines d));
                 trailing = (if eof then (if hk_new_no_newline h then False
                   else if hk_old_no_newline h then True else ps_trailing_newline st) else ps_trailing_newline st)
             in if hk_old_no_newline h \<and> td_trailing_newline d \<and> eof then Inl FinalNewline
                else Inr \<lparr>ps_output = out, ps_old_cursor = cursor, ps_trailing_newline = trailing\<rparr>))"

fun apply_all :: "text_document \<Rightarrow> hunk list \<Rightarrow> patch_state \<Rightarrow> diff_error + patch_state" where
  "apply_all d [] st = Inr st"
| "apply_all d (h # hs) st = bind_e (apply_hunk d h st) (apply_all d hs)"

definition render_lines :: "str \<Rightarrow> str list \<Rightarrow> bool \<Rightarrow> str" where
  "render_lines ending lines trailing = join ending lines @ (if trailing then ending else [])"

definition apply_hunks :: "str \<Rightarrow> hunk list \<Rightarrow> diff_error + str" where
  "apply_hunks content hunks =
     bind_e (parse_document content) (\<lambda>d.
     bind_e (apply_all d hunks \<lparr>ps_output = [], ps_old_cursor = 0, ps_trailing_newline = td_trailing_newline d\<rparr>) (\<lambda>st.
     Inr (render_lines (td_line_ending d) (ps_output st @ drop (ps_old_cursor st) (td_lines d)) (ps_trailing_newline st))))"

end
