(* ===== verification/DiffLaws.thy ===== *)
theory DiffLaws
  imports UnifiedDiffs
begin

section \<open>What applying a diff means\<close>

text \<open>
  The declarative reading of a diff: a hunk has an old side and a new side, and a list of hunks replaces
  old sides by new sides at the places it names and keeps everything between them.  The relation
  \<open>splices\<close> says so; it is symmetric in the two sides, so reversing the hunks undoes them.
\<close>

subsection \<open>The two sides of a hunk\<close>

fun old_line :: "hunk_operation \<Rightarrow> str list" where
  "old_line (Context l) = [l]"
| "old_line (Remove l) = [l]"
| "old_line (Add l) = []"

fun new_line :: "hunk_operation \<Rightarrow> str list" where
  "new_line (Context l) = [l]"
| "new_line (Remove l) = []"
| "new_line (Add l) = [l]"

definition old_side :: "hunk_operation list \<Rightarrow> str list" where
  "old_side ops = concat (map old_line ops)"

definition new_side :: "hunk_operation list \<Rightarrow> str list" where
  "new_side ops = concat (map new_line ops)"

lemma sides_simps [simp]:
  "old_side [] = []" "old_side (op # ops) = old_line op @ old_side ops"
  "new_side [] = []" "new_side (op # ops) = new_line op @ new_side ops"
  by (simp_all add: old_side_def new_side_def)

lemma side_counts:
  "length (filter (\<lambda>op. \<not> is_add op) ops) = length (old_side ops)"
  "length (filter (\<lambda>op. \<not> is_remove op) ops) = length (new_side ops)"
proof (induction ops)
  case (Cons op ops)
  { case 1 from Cons show ?case by (cases op) simp_all }
  { case 2 from Cons show ?case by (cases op) simp_all }
qed simp_all

fun reverse_operation :: "hunk_operation \<Rightarrow> hunk_operation" where
  "reverse_operation (Context l) = Context l"
| "reverse_operation (Remove l) = Add l"
| "reverse_operation (Add l) = Remove l"

definition reverse_hunk :: "hunk \<Rightarrow> hunk" where
  "reverse_hunk h = \<lparr>hk_old_start = hk_new_start h, hk_old_count = hk_new_count h, hk_new_start = hk_old_start h,
     hk_new_count = hk_old_count h, hk_operations = map reverse_operation (hk_operations h),
     hk_old_no_newline = hk_new_no_newline h, hk_new_no_newline = hk_old_no_newline h\<rparr>"

lemma reverse_sides [simp]:
  "old_side (map reverse_operation ops) = new_side ops" "new_side (map reverse_operation ops) = old_side ops"
proof (induction ops)
  case (Cons op ops)
  { case 1 from Cons show ?case by (cases op) simp_all }
  { case 2 from Cons show ?case by (cases op) simp_all }
qed simp_all

lemma reverse_targets [simp]:
  "old_target (reverse_hunk h) = new_target h" "new_target (reverse_hunk h) = old_target h"
  "hk_operations (reverse_hunk h) = map reverse_operation (hk_operations h)"
  "hk_old_no_newline (reverse_hunk h) = hk_new_no_newline h" "hk_new_no_newline (reverse_hunk h) = hk_old_no_newline h"
  by (simp_all add: reverse_hunk_def old_target_def new_target_def)

subsection \<open>Splices\<close>

inductive splices :: "nat \<Rightarrow> nat \<Rightarrow> hunk list \<Rightarrow> str list \<Rightarrow> str list \<Rightarrow> bool" where
  splices_end: "splices i j [] rest rest"
| splices_hunk: "old_target h = i + length gap \<Longrightarrow> new_target h = j + length gap \<Longrightarrow>
    splices (i + length gap + length (old_side (hk_operations h))) (j + length gap + length (new_side (hk_operations h))) hs old new \<Longrightarrow>
    splices i j (h # hs) (gap @ old_side (hk_operations h) @ old) (gap @ new_side (hk_operations h) @ new)"

inductive_cases splices_NilE: "splices i j [] old new"
inductive_cases splices_ConsE: "splices i j (h # hs) old new"

lemma splices_reverse: "splices i j hs old new \<Longrightarrow> splices j i (map reverse_hunk hs) new old"
proof (induction rule: splices.induct)
  case (splices_hunk h i gap j hs old new)
  then have "splices j i (reverse_hunk h # map reverse_hunk hs)
    (gap @ old_side (hk_operations (reverse_hunk h)) @ new) (gap @ new_side (hk_operations (reverse_hunk h)) @ old)"
    by (intro splices.splices_hunk) simp_all
  then show ?case by simp
qed (simp add: splices_end)

lemma splices_unique: "splices i j hs old new \<Longrightarrow> splices i j hs old new' \<Longrightarrow> new' = new"
proof (induction arbitrary: new' rule: splices.induct)
  case (splices_end i j rest)
  then show ?case by (auto elim: splices_NilE)
next
  case (splices_hunk h i gap j hs old new)
  from splices_hunk.prems obtain gap' old' new'' where
    g: "old_target h = i + length gap'" "gap @ old_side (hk_operations h) @ old = gap' @ old_side (hk_operations h) @ old'"
      "new' = gap' @ new_side (hk_operations h) @ new''"
      "splices (i + length gap' + length (old_side (hk_operations h))) (j + length gap' + length (new_side (hk_operations h))) hs old' new''"
    by (rule splices_ConsE) blast
  have "length gap = length gap'" using g(1) splices_hunk.hyps(1) by simp
  with g(2) have "gap = gap'" "old = old'" by simp_all
  with g splices_hunk.IH show ?case by simp
qed

subsection \<open>Operations of one hunk\<close>

lemma require_exact_line_iff: "require_exact_line ls i l k = Inr () \<longleftrightarrow> i < length ls \<and> ls ! i = l"
  by (auto simp: require_exact_line_def get_at_def)

lemma drop_Cons_iff: "drop i ls = l # r \<longleftrightarrow> i < length ls \<and> ls ! i = l \<and> drop (Suc i) ls = r"
proof
  assume d: "drop i ls = l # r"
  then have i: "i < length ls" using drop_all [of ls i] by (cases "i < length ls") simp_all
  from d Cons_nth_drop_Suc [OF i] i show "i < length ls \<and> ls ! i = l \<and> drop (Suc i) ls = r" by simp
qed (use Cons_nth_drop_Suc in fastforce)

lemma apply_operations_iff:
  "apply_operations ls ops i out = Inr (j, out') \<longleftrightarrow>
     (\<exists>r. drop i ls = old_side ops @ r) \<and> j = i + length (old_side ops) \<and> out' = out @ new_side ops"
proof (induction ls ops i out rule: apply_operations.induct)
  case (2 ls l ops i out)
  then show ?case by (auto simp: bind_e_Inr_iff require_exact_line_iff drop_Cons_iff)
next
  case (3 ls l ops i out)
  then show ?case by (auto simp: bind_e_Inr_iff require_exact_line_iff drop_Cons_iff)
qed auto

subsection \<open>Applying all hunks\<close>

text \<open>A hunk that says nothing about the final newline.\<close>

definition quiet :: "hunk \<Rightarrow> bool" where
  "quiet h \<longleftrightarrow> \<not> hk_old_no_newline h \<and> \<not> hk_new_no_newline h"

lemma quiet_reverse [simp]: "quiet (reverse_hunk h) \<longleftrightarrow> quiet h"
  by (auto simp: quiet_def)

lemma apply_hunk_sound:
  assumes "apply_hunk d h st = Inr st'"
  shows "\<exists>gap r. drop (ps_old_cursor st) (td_lines d) = gap @ old_side (hk_operations h) @ r \<and>
    old_target h = ps_old_cursor st + length gap \<and> new_target h = length (ps_output st) + length gap \<and>
    ps_output st' = ps_output st @ gap @ new_side (hk_operations h) \<and>
    ps_old_cursor st' = old_target h + length (old_side (hk_operations h))"
proof -
  let ?c = "ps_old_cursor st" and ?ls = "td_lines d"
  let ?gap = "slice ?c (old_target h) ?ls"
  from assms have t: "?c \<le> old_target h" "old_target h \<le> length ?ls" "length (ps_output st @ ?gap) = new_target h"
    by (auto simp: apply_hunk_def Let_def split: if_splits)
  with assms obtain j out where o: "apply_operations ?ls (hk_operations h) (old_target h) (ps_output st @ ?gap) = Inr (j, out)"
    "ps_output st' = out" "ps_old_cursor st' = j"
    by (auto simp: apply_hunk_def Let_def bind_e_Inr_iff split: if_splits)
  then obtain r where r: "drop (old_target h) ?ls = old_side (hk_operations h) @ r"
    "j = old_target h + length (old_side (hk_operations h))" "out = (ps_output st @ ?gap) @ new_side (hk_operations h)"
    using apply_operations_iff by blast
  have "drop ?c ?ls = ?gap @ drop (old_target h - ?c) (drop ?c ?ls)" by (simp only: slice_def append_take_drop_id)
  also have "drop (old_target h - ?c) (drop ?c ?ls) = drop (old_target h) ?ls" using t(1) by simp
  finally have "drop ?c ?ls = ?gap @ old_side (hk_operations h) @ r" using r(1) by simp
  moreover have "length ?gap = old_target h - ?c" using t(1,2) by (simp add: slice_def)
  ultimately show ?thesis using t r o by (intro exI [of _ ?gap] exI [of _ r]) simp
qed

lemma apply_hunk_complete:
  assumes "quiet h" and g: "drop (ps_old_cursor st) (td_lines d) = gap @ old_side (hk_operations h) @ r"
    "old_target h = ps_old_cursor st + length gap" "new_target h = length (ps_output st) + length gap"
    and c: "ps_old_cursor st \<le> length (td_lines d)"
  shows "apply_hunk d h st = Inr \<lparr>ps_output = ps_output st @ gap @ new_side (hk_operations h),
    ps_old_cursor = old_target h + length (old_side (hk_operations h)), ps_trailing_newline = ps_trailing_newline st\<rparr>"
proof -
  let ?c = "ps_old_cursor st" and ?ls = "td_lines d"
  have "length (drop ?c ?ls) = length gap + length (old_side (hk_operations h)) + length r" using g(1) by simp
  with c g(2) have t: "old_target h \<le> length ?ls" by simp
  have s: "slice ?c (old_target h) ?ls = gap" using g by (simp add: slice_def)
  have "drop (old_target h) ?ls = drop (length gap) (drop ?c ?ls)" using g(2) by (simp add: add.commute)
  then have "drop (old_target h) ?ls = old_side (hk_operations h) @ r" using g(1) by simp
  then have "apply_operations ?ls (hk_operations h) (old_target h) (ps_output st @ gap) =
    Inr (old_target h + length (old_side (hk_operations h)), ps_output st @ gap @ new_side (hk_operations h))"
    by (subst apply_operations_iff) auto
  with s t g assms(1) show ?thesis by (simp add: apply_hunk_def quiet_def)
qed

definition patched_lines :: "text_document \<Rightarrow> patch_state \<Rightarrow> str list" where
  "patched_lines d st = ps_output st @ drop (ps_old_cursor st) (td_lines d)"

lemma apply_all_sound:
  "apply_all d hs st = Inr st' \<Longrightarrow> ps_old_cursor st \<le> length (td_lines d) \<Longrightarrow>
     \<exists>new. splices (ps_old_cursor st) (length (ps_output st)) hs (drop (ps_old_cursor st) (td_lines d)) new \<and>
       patched_lines d st' = ps_output st @ new"
proof (induction hs arbitrary: st)
  case Nil
  then show ?case by (auto simp: patched_lines_def intro: splices_end)
next
  case (Cons h hs)
  then obtain st1 where st1: "apply_hunk d h st = Inr st1" "apply_all d hs st1 = Inr st'" by (auto simp: bind_e_Inr_iff)
  from apply_hunk_sound [OF st1(1)] obtain gap r where
    g: "drop (ps_old_cursor st) (td_lines d) = gap @ old_side (hk_operations h) @ r"
      "old_target h = ps_old_cursor st + length gap" "new_target h = length (ps_output st) + length gap"
      "ps_output st1 = ps_output st @ gap @ new_side (hk_operations h)"
      "ps_old_cursor st1 = old_target h + length (old_side (hk_operations h))" by blast
  have "length (drop (ps_old_cursor st) (td_lines d)) = length (gap @ old_side (hk_operations h) @ r)" using g(1) by simp
  with Cons.prems(2) g(2,5) have c1: "ps_old_cursor st1 \<le> length (td_lines d)" by simp
  have "drop (ps_old_cursor st1) (td_lines d) = drop (length gap + length (old_side (hk_operations h))) (drop (ps_old_cursor st) (td_lines d))"
    using g(2,5) by (simp add: add.commute add.left_commute)
  then have r: "drop (ps_old_cursor st1) (td_lines d) = r" using g(1) by simp
  from Cons.IH [OF st1(2) c1] obtain new where
    n: "splices (ps_old_cursor st1) (length (ps_output st1)) hs r new" "patched_lines d st' = ps_output st1 @ new"
    unfolding r by blast
  have "splices (ps_old_cursor st) (length (ps_output st)) (h # hs) (gap @ old_side (hk_operations h) @ r)
    (gap @ new_side (hk_operations h) @ new)"
    by (rule splices_hunk [OF g(2,3)]) (use n(1) g in \<open>simp add: add.assoc\<close>)
  then show ?case unfolding g(1) using n(2) g(4) by auto
qed

lemma apply_all_complete:
  "splices (ps_old_cursor st) (length (ps_output st)) hs (drop (ps_old_cursor st) (td_lines d)) new \<Longrightarrow>
     list_all quiet hs \<Longrightarrow> ps_old_cursor st \<le> length (td_lines d) \<Longrightarrow>
     \<exists>st'. apply_all d hs st = Inr st' \<and> ps_trailing_newline st' = ps_trailing_newline st"
proof (induction hs arbitrary: st new)
  case (Cons h hs)
  from Cons.prems(1) obtain gap r new' where
    g: "drop (ps_old_cursor st) (td_lines d) = gap @ old_side (hk_operations h) @ r"
      "old_target h = ps_old_cursor st + length gap" "new_target h = length (ps_output st) + length gap"
    and s: "splices (ps_old_cursor st + length gap + length (old_side (hk_operations h)))
      (length (ps_output st) + length gap + length (new_side (hk_operations h))) hs r new'"
    by (rule splices_ConsE) blast
  let ?st1 = "\<lparr>ps_output = ps_output st @ gap @ new_side (hk_operations h),
    ps_old_cursor = old_target h + length (old_side (hk_operations h)), ps_trailing_newline = ps_trailing_newline st\<rparr>"
  have q: "quiet h" "list_all quiet hs" using Cons.prems(2) by simp_all
  have a: "apply_hunk d h st = Inr ?st1" by (rule apply_hunk_complete [OF q(1) g Cons.prems(3)])
  have "length (drop (ps_old_cursor st) (td_lines d)) = length (gap @ old_side (hk_operations h) @ r)" using g(1) by simp
  with Cons.prems(3) g(2) have c1: "ps_old_cursor ?st1 \<le> length (td_lines d)" by simp
  have "drop (ps_old_cursor ?st1) (td_lines d) = drop (length gap + length (old_side (hk_operations h))) (drop (ps_old_cursor st) (td_lines d))"
    using g(2) by (simp add: add.commute add.left_commute)
  then have r: "drop (ps_old_cursor ?st1) (td_lines d) = r" using g(1) by simp
  have "splices (ps_old_cursor ?st1) (length (ps_output ?st1)) hs (drop (ps_old_cursor ?st1) (td_lines d)) new'"
    unfolding r using s g(2) by (simp add: add.assoc)
  from Cons.IH [OF this q(2) c1] a show ?case by auto
qed simp

text \<open>For hunks that say nothing about the final newline, applying is exactly splicing.\<close>

lemma apply_all_iff:
  assumes q: "list_all quiet hs"
  shows "(\<exists>st. apply_all d hs \<lparr>ps_output = [], ps_old_cursor = 0, ps_trailing_newline = t\<rparr> = Inr st \<and>
      patched_lines d st = new \<and> ps_trailing_newline st = t) \<longleftrightarrow> splices 0 0 hs (td_lines d) new"
proof
  let ?st = "\<lparr>ps_output = [], ps_old_cursor = 0, ps_trailing_newline = t\<rparr>"
  assume "\<exists>st. apply_all d hs ?st = Inr st \<and> patched_lines d st = new \<and> ps_trailing_newline st = t"
  then obtain st where "apply_all d hs ?st = Inr st" "patched_lines d st = new" by blast
  with apply_all_sound [of d hs ?st st] show "splices 0 0 hs (td_lines d) new" by auto
next
  let ?st = "\<lparr>ps_output = [], ps_old_cursor = 0, ps_trailing_newline = t\<rparr>"
  assume s: "splices 0 0 hs (td_lines d) new"
  with apply_all_complete [of ?st hs d new] q obtain st where st: "apply_all d hs ?st = Inr st" "ps_trailing_newline st = t" by auto
  with apply_all_sound [of d hs ?st st] obtain new' where "splices 0 0 hs (td_lines d) new'" "patched_lines d st = new'" by auto
  with splices_unique [OF s] st show "\<exists>st. apply_all d hs ?st = Inr st \<and> patched_lines d st = new \<and> ps_trailing_newline st = t" by auto
qed

lemma apply_hunks_iff:
  assumes q: "list_all quiet hs"
  shows "apply_hunks content hs = Inr out \<longleftrightarrow> (\<exists>d new. parse_document content = Inr d \<and> splices 0 0 hs (td_lines d) new \<and>
    out = render_lines (td_line_ending d) new (td_trailing_newline d))"
proof -
  have "(\<exists>st. apply_all d hs \<lparr>ps_output = [], ps_old_cursor = 0, ps_trailing_newline = t\<rparr> = Inr st \<and>
      render_lines e (patched_lines d st) (ps_trailing_newline st) = out) \<longleftrightarrow>
    (\<exists>new. splices 0 0 hs (td_lines d) new \<and> out = render_lines e new t)" for d t e
  proof -
    let ?st = "\<lparr>ps_output = [], ps_old_cursor = 0, ps_trailing_newline = t\<rparr>"
    have keep: "ps_trailing_newline st = t \<and> splices 0 0 hs (td_lines d) (patched_lines d st)" if a: "apply_all d hs ?st = Inr st" for st
    proof -
      obtain new where "splices 0 0 hs (td_lines d) new" "patched_lines d st = new" using apply_all_sound [OF a] by auto
      with apply_all_iff [OF q, of d t new] a show ?thesis by auto
    qed
    show ?thesis (is "?L \<longleftrightarrow> ?R")
    proof
      assume ?L
      then show ?R using keep by auto
    next
      assume ?R
      then obtain new where "splices 0 0 hs (td_lines d) new" and o: "out = render_lines e new t" by blast
      then obtain st where "apply_all d hs ?st = Inr st" "patched_lines d st = new" "ps_trailing_newline st = t"
        using apply_all_iff [OF q, of d t new] by auto
      with o show ?L by blast
    qed
  qed
  then show ?thesis by (simp add: apply_hunks_def bind_e_Inr_iff patched_lines_def)
qed

subsection \<open>Reading what was written\<close>

definition clean :: "str \<Rightarrow> bool" where
  "clean l \<longleftrightarrow> CR \<notin> set l \<and> LF \<notin> set l"

lemma contains_str_set: "contains_str p s \<Longrightarrow> set p \<subseteq> set s"
proof (induction p s rule: contains_str.induct)
  case (2 p c s)
  have "set p \<subseteq> set (c # s)" if "starts_with p (c # s)"
  proof -
    from that obtain r where "c # s = p @ r" by (auto simp: starts_with_iff)
    then show ?thesis by (simp only: set_append Un_upper1)
  qed
  with 2 show ?case by auto
qed simp

lemma strip_cr_id: "\<not> ends_with [CR] l \<Longrightarrow> strip_cr l = l"
  by (auto simp: strip_cr_def ends_with_iff split: option.split)

lemma strip_cr_clean: "CR \<notin> set l \<Longrightarrow> strip_cr l = l"
  by (rule strip_cr_id) (auto simp: ends_with_iff)

lemma set_join: "set (join d ls) \<subseteq> set d \<union> (\<Union>l \<in> set ls. set l)"
  by (induction d ls rule: join.induct) auto

lemma join_snoc: "ls \<noteq> [] \<Longrightarrow> join d (ls @ [l]) = join d ls @ d @ l"
  by (induction d ls rule: join.induct) auto

lemma parse_document_lf:
  assumes "CR \<notin> set content"
  shows "parse_document content = Inr \<lparr>td_lines = (let ls = (if content = [] then [] else split_on LF content)
      in if ends_with [LF] content then butlast ls else ls), td_line_ending = [LF], td_trailing_newline = ends_with [LF] content\<rparr>"
proof -
  have "\<not> contains_str [CR, LF] content" using assms contains_str_set by force
  moreover have "map strip_cr (split_on LF content) = split_on LF content"
  proof (rule map_idI)
    fix l assume "l \<in> set (split_on LF content)"
    then have "set l \<subseteq> set (join [LF] (split_on LF content))" by (rule join_part)
    then have "CR \<notin> set l" using assms by (auto simp: join_split_on)
    then show "strip_cr l = l" by (rule strip_cr_clean)
  qed
  ultimately show ?thesis using assms by (simp add: parse_document_def Let_def)
qed

lemma parse_render_lf:
  assumes "list_all clean ls" "ls \<noteq> []"
  shows "parse_document (render_lines [LF] ls True) = Inr \<lparr>td_lines = ls, td_line_ending = [LF], td_trailing_newline = True\<rparr>"
proof -
  have r: "render_lines [LF] ls True = join [LF] (ls @ [[]])" using assms(2) by (simp add: render_lines_def join_snoc)
  have "CR \<notin> set (join [LF] (ls @ [[]]))" using assms(1) set_join [of "[LF]" "ls @ [[]]"] by (auto simp: list_all_iff clean_def)
  moreover have "split_on LF (join [LF] (ls @ [[]])) = ls @ [[]]"
    using assms(1) by (intro split_on_join) (auto simp: list_all_iff clean_def)
  moreover have "ends_with [LF] (join [LF] (ls @ [[]]))" using assms(2) by (simp add: join_snoc ends_with_iff)
  moreover have "join [LF] (ls @ [[]]) \<noteq> []" using assms(2) by (simp add: join_snoc)
  ultimately show ?thesis unfolding r by (subst parse_document_lf) simp_all
qed

text \<open>A text with LF line ends that ends with one is what its lines render to.\<close>

lemma lf_text_lines:
  assumes "CR \<notin> set content" "ends_with [LF] content"
  shows "\<exists>ls. list_all clean ls \<and> ls \<noteq> [] \<and> content = render_lines [LF] ls True \<and>
    parse_document content = Inr \<lparr>td_lines = ls, td_line_ending = [LF], td_trailing_newline = True\<rparr>"
proof -
  let ?ls = "split_on LF content"
  have j: "join [LF] ?ls = content" by (rule join_split_on)
  obtain r where r: "content = r @ [LF]" using assms(2) by (auto simp: ends_with_iff)
  have s: "?ls = split_on LF r @ [[]]" unfolding r by (rule split_on_snoc)
  have "list_all clean (split_on LF r)"
    unfolding list_all_iff clean_def
  proof
    fix l assume l: "l \<in> set (split_on LF r)"
    have "set l \<subseteq> set (join [LF] (split_on LF r))" by (rule join_part [OF l])
    then show "CR \<notin> set l \<and> LF \<notin> set l" using assms(1) split_on_parts [OF l] by (auto simp: join_split_on r)
  qed
  moreover have "content = render_lines [LF] (split_on LF r) True" by (simp add: render_lines_def join_split_on r)
  ultimately show ?thesis using parse_render_lf [of "split_on LF r"] by (intro exI [of _ "split_on LF r"]) simp
qed

lemma splices_lines:
  "splices i j hs old new \<Longrightarrow> l \<in> set new \<Longrightarrow> l \<in> set old \<or> (\<exists>h \<in> set hs. Add l \<in> set (hk_operations h))"
proof (induction rule: splices.induct)
  case (splices_hunk h i gap j hs old new)
  have "l \<in> set (new_side ops) \<Longrightarrow> l \<in> set (old_side ops) \<or> Add l \<in> set ops" for ops
  proof (induction ops)
    case (Cons op ops)
    then show ?case by (cases op) auto
  qed simp
  with splices_hunk show ?case by auto
qed simp

lemma apply_reverse:
  assumes q: "list_all quiet hs" and c: "CR \<notin> set content" "ends_with [LF] content"
    and a: "apply_hunks content hs = Inr out" and n: "out \<noteq> [LF]"
    and added: "\<And>h l. h \<in> set hs \<Longrightarrow> Add l \<in> set (hk_operations h) \<Longrightarrow> clean l"
  shows "apply_hunks out (map reverse_hunk hs) = Inr content"
proof -
  obtain ls where ls: "list_all clean ls" "ls \<noteq> []" "content = render_lines [LF] ls True"
    "parse_document content = Inr \<lparr>td_lines = ls, td_line_ending = [LF], td_trailing_newline = True\<rparr>"
    using lf_text_lines [OF c] by blast
  from a [unfolded apply_hunks_iff [OF q]] ls(4) obtain new where new: "splices 0 0 hs ls new" "out = render_lines [LF] new True" by auto
  have "new \<noteq> []" using n new(2) by (auto simp: render_lines_def)
  moreover have "list_all clean new" using splices_lines [OF new(1)] ls(1) added by (fastforce simp: list_all_iff)
  ultimately have p: "parse_document out = Inr \<lparr>td_lines = new, td_line_ending = [LF], td_trailing_newline = True\<rparr>"
    unfolding new(2) by (intro parse_render_lf)
  have "list_all quiet (map reverse_hunk hs)" using q by (simp add: list_all_iff)
  from apply_hunks_iff [OF this] p splices_reverse [OF new(1)] ls(3) show ?thesis by auto
qed

end
