(* ===== verification/DiffProperties.thy ===== *)
theory DiffProperties
  imports DiffLaws
begin

section \<open>Properties of the patch tool\<close>

text \<open>
  Printing a diff and parsing it back, and the promises of applying one: exact splicing, and that the
  reversed diff undoes it.
\<close>

subsection \<open>Printing\<close>

fun print_operation :: "hunk_operation \<Rightarrow> str" where
  "print_operation (Context l) = CHR '' '' # l"
| "print_operation (Remove l) = CHR ''-'' # l"
| "print_operation (Add l) = CHR ''+'' # l"

definition print_range :: "nat \<Rightarrow> nat \<Rightarrow> str" where
  "print_range start count = show_nat start @ CHR '','' # show_nat count"

definition print_header :: "hunk \<Rightarrow> str" where
  "print_header h = ''@@ -'' @ print_range (hk_old_start h) (hk_old_count h) @ '' +'' @
     print_range (hk_new_start h) (hk_new_count h) @ '' @@''"

definition print_hunk :: "hunk \<Rightarrow> str list" where
  "print_hunk h = print_header h # map print_operation (hk_operations h)"

definition print_diff :: "hunk list \<Rightarrow> str" where
  "print_diff hs = join [LF] (concat (map print_hunk hs))"

fun operation_text :: "hunk_operation \<Rightarrow> str" where
  "operation_text (Context l) = l"
| "operation_text (Remove l) = l"
| "operation_text (Add l) = l"

abbreviation small :: "nat \<Rightarrow> bool" where
  "small n \<equiv> int n \<le> 18446744073709551615"

definition well_counted :: "hunk \<Rightarrow> bool" where
  "well_counted h \<longleftrightarrow> quiet h \<and> hk_old_count h = length (old_side (hk_operations h)) \<and>
     hk_new_count h = length (new_side (hk_operations h)) \<and>
     small (hk_old_start h) \<and> small (hk_old_count h) \<and> small (hk_new_start h) \<and> small (hk_new_count h) \<and>
     list_all (\<lambda>op. LF \<notin> set (operation_text op) \<and> \<not> ends_with [CR] (operation_text op)) (hk_operations h)"

subsection \<open>Parsing a printed header\<close>

lemma digit_facts:
  assumes "is_ascii_digit c"
  shows "c \<noteq> CHR '',''" "c \<noteq> CHR ''@''" "c \<noteq> LF" "c \<noteq> CR" "\<not> is_whitespace c"
  using assms by (auto simp: is_ascii_digit_def is_whitespace_def code_def)

lemma show_nat_set: "c \<in> set (show_nat n) \<Longrightarrow> is_ascii_digit c"
  using show_nat_digits [of n] by (simp add: list_all_iff)

lemma print_range_chars: "c \<in> set (print_range a b) \<Longrightarrow> is_ascii_digit c \<or> c = CHR '',''"
  by (auto simp: print_range_def dest: show_nat_set)

lemma print_range_facts:
  assumes "c \<in> set (print_range a b)"
  shows "c \<noteq> CHR ''@''" "c \<noteq> LF" "c \<noteq> CR" "\<not> is_whitespace c"
proof -
  have "\<not> is_whitespace (CHR '','')" by code_simp
  then show "c \<noteq> CHR ''@''" "c \<noteq> LF" "c \<noteq> CR" "\<not> is_whitespace c"
    using print_range_chars [OF assms] digit_facts by auto
qed

lemma parse_printed_range:
  assumes "small a" "small b"
  shows "parse_hunk_range (p # print_range a b) p header = Inr (a, b)"
proof -
  have "CHR '','' \<notin> set (show_nat a)" using digit_facts(1) show_nat_set by blast
  then have "split_once (CHR '','') (print_range a b) = Some (show_nat a, show_nat b)"
    unfolding print_range_def by (rule split_once_append)
  then show ?thesis using parse_usize_show [OF assms(1)] parse_usize_show [OF assms(2)]
    by (simp add: parse_hunk_range_def)
qed

lemma text_before_append: "CHR ''@'' \<notin> set x \<Longrightarrow> text_before ''@@'' (x @ ''@@'') = Some x"
  by (induction x) auto

lemma trim_bare:
  assumes "\<not> is_whitespace a" "\<not> is_whitespace b"
  shows "trim (CHR '' '' # (a # x) @ b # '' '') = (a # x) @ [b]"
proof -
  have "is_whitespace (CHR '' '')" by code_simp
  with assms show ?thesis by (simp add: trim_def)
qed

lemma parse_printed_header:
  assumes "small (hk_old_start h)" "small (hk_old_count h)" "small (hk_new_start h)" "small (hk_new_count h)"
  shows "parse_hunk_header (print_header h) = Inr (hk_old_start h, hk_old_count h, hk_new_start h, hk_new_count h)"
proof -
  let ?old = "print_range (hk_old_start h) (hk_old_count h)" and ?new = "print_range (hk_new_start h) (hk_new_count h)"
  let ?body = "CHR ''-'' # ?old @ CHR '' '' # CHR ''+'' # ?new"
  have n: "?new \<noteq> []" "\<not> is_whitespace (last ?new)" using print_range_facts(4) [OF last_in_set] by (auto simp: print_range_def)
  have head: "print_header h = ''@@'' @ (CHR '' '' # ?body @ '' '') @ ''@@''" by (simp add: print_header_def)
  have "CHR ''@'' \<notin> set (CHR '' '' # ?body @ '' '')" using print_range_facts(1) by fastforce
  then have before: "text_before ''@@'' ((CHR '' '' # ?body @ '' '') @ ''@@'') = Some (CHR '' '' # ?body @ '' '')"
    by (rule text_before_append)
  have minus: "\<not> is_whitespace (CHR ''-'')" and plus: "\<not> is_whitespace (CHR ''+'')" by code_simp+
  have b: "?body = (CHR ''-'' # ?old @ CHR '' '' # CHR ''+'' # butlast ?new) @ [last ?new]" using n(1) by simp
  have t: "trim (CHR '' '' # ?body @ '' '') = ?body"
    using trim_bare [OF minus n(2), of "?old @ CHR '' '' # CHR ''+'' # butlast ?new"] b by (metis append.assoc append_Cons append_Nil)
  have "split_whitespace ((CHR ''-'' # ?old) @ CHR '' '' # (CHR ''+'' # ?new)) = [CHR ''-'' # ?old, CHR ''+'' # ?new]"
    by (rule split_whitespace_two) (use minus plus print_range_facts(4) in \<open>auto simp: list_all_iff\<close>)
  then have w: "split_whitespace (trim (CHR '' '' # ?body @ '' '')) = [CHR ''-'' # ?old, CHR ''+'' # ?new]"
    unfolding t by simp
  have p: "Option.bind (strip_prefix ''@@'' (print_header h)) (text_before ''@@'') = Some (CHR '' '' # ?body @ '' '')"
    unfolding head using before by (simp del: text_before.simps)
  show ?thesis
    unfolding parse_hunk_header_def p option.case w
    using parse_printed_range [OF assms(1,2)] parse_printed_range [OF assms(3,4)] by simp
qed

subsection \<open>Parsing printed hunks\<close>

lemma read_printed_body:
  assumes "rest = [] \<or> starts_with ''@@'' (hd rest)"
  shows "\<exists>k j. read_body i (map print_operation ops @ rest) b =
    Inr (b\<lparr>hb_operations := hb_operations b @ ops, hb_previous_kind := k\<rparr>, j, rest)"
proof (induction ops arbitrary: i b)
  case Nil
  have "b = b\<lparr>hb_operations := hb_operations b @ [], hb_previous_kind := hb_previous_kind b\<rparr>" by simp
  with assms show ?case by (cases rest) (auto intro!: exI [of _ "hb_previous_kind b"])
next
  case (Cons op ops)
  show ?case
  proof (cases op)
    case (Context l)
    with Cons.IH [of "i + 1" "push_operation op (CHR '' '') b"] show ?thesis by (auto simp: push_operation_def NO_NEWLINE_def)
  next
    case (Remove l)
    with Cons.IH [of "i + 1" "push_operation op (CHR ''-'') b"] show ?thesis by (auto simp: push_operation_def NO_NEWLINE_def)
  next
    case (Add l)
    with Cons.IH [of "i + 1" "push_operation op (CHR ''+'') b"] show ?thesis by (auto simp: push_operation_def NO_NEWLINE_def)
  qed
qed

lemma parse_printed_hunk:
  assumes h: "well_counted h" and rest: "rest = [] \<or> starts_with ''@@'' (hd rest)"
  shows "\<exists>j. parse_single_hunk i (print_header h) (map print_operation (hk_operations h) @ rest) = Inr (h, j, rest)"
proof -
  obtain k j where r: "read_body (i + 1) (map print_operation (hk_operations h) @ rest) body_empty =
      Inr (body_empty\<lparr>hb_operations := hk_operations h, hb_previous_kind := k\<rparr>, j, rest)"
    using read_printed_body [OF rest, of "i + 1" "hk_operations h" body_empty] by (auto simp: body_empty_def)
  have head: "parse_hunk_header (print_header h) = Inr (hk_old_start h, hk_old_count h, hk_new_start h, hk_new_count h)"
    using h by (intro parse_printed_header) (simp_all add: well_counted_def)
  from h head r show ?thesis
    by (cases h) (simp add: parse_single_hunk_def side_counts well_counted_def quiet_def body_empty_def)
qed

lemma parse_printed_hunks:
  "list_all well_counted hs \<Longrightarrow> parse_loop i (concat (map print_hunk hs)) acc = Inr (acc @ hs)"
proof (induction hs arbitrary: i acc)
  case (Cons h hs)
  have at: "starts_with ''@@'' (print_header x)" for x by (simp add: print_header_def)
  have "concat (map print_hunk hs) = [] \<or> starts_with ''@@'' (hd (concat (map print_hunk hs)))"
    using at by (cases hs) (simp_all add: print_hunk_def)
  moreover have "well_counted h" using Cons.prems by simp
  ultimately obtain j where j: "parse_single_hunk i (print_header h)
      (map print_operation (hk_operations h) @ concat (map print_hunk hs)) = Inr (h, j, concat (map print_hunk hs))"
    using parse_printed_hunk by blast
  have "parse_loop j (concat (map print_hunk hs)) (acc @ [h]) = Inr ((acc @ [h]) @ hs)" using Cons by simp
  with j at [of h] show ?case by (simp add: print_hunk_def [of h])
qed simp

lemma printed_line_facts:
  assumes h: "well_counted h" and l: "l \<in> set (print_hunk h)"
  shows "LF \<notin> set l" "\<not> ends_with [CR] l"
proof -
  have r: "LF \<notin> set (print_range a b)" for a b using print_range_facts(2) by blast
  have o: "LF \<notin> set (print_operation op) \<and> \<not> ends_with [CR] (print_operation op)" if "op \<in> set (hk_operations h)" for op
  proof -
    have "LF \<notin> set (operation_text op)" "\<not> ends_with [CR] (operation_text op)" using h that by (auto simp: well_counted_def list_all_iff)
    moreover have "ends_with [CR] (k # t) \<Longrightarrow> k \<noteq> CR \<Longrightarrow> ends_with [CR] t" for k t
      by (auto simp: ends_with_iff Cons_eq_append_conv)
    ultimately show ?thesis by (cases op) auto
  qed
  from l consider "l = print_header h" | op where "op \<in> set (hk_operations h)" "l = print_operation op" by (auto simp: print_hunk_def)
  then have "LF \<notin> set l \<and> \<not> ends_with [CR] l"
  proof cases
    case 1
    then show ?thesis using r by (auto simp: print_header_def ends_with_def)
  qed (use o in blast)
  then show "LF \<notin> set l" "\<not> ends_with [CR] l" by simp_all
qed

subsection \<open>The claims\<close>

definition demo_hunk :: hunk where
  "demo_hunk = \<lparr>hk_old_start = 1, hk_old_count = 2, hk_new_start = 1, hk_new_count = 2,
     hk_operations = [Context ''a'', Remove ''b'', Add ''c''], hk_old_no_newline = False, hk_new_no_newline = False\<rparr>"

abbreviation demo_before :: str where "demo_before \<equiv> ''a'' @ [LF] @ ''b'' @ [LF]"
abbreviation demo_after :: str where "demo_after \<equiv> ''a'' @ [LF] @ ''c'' @ [LF]"

lemma demo_hunk_quiet: "list_all quiet [demo_hunk]"
  by (simp add: demo_hunk_def quiet_def)

lemma demo_applies: "apply_hunks demo_before [demo_hunk] = Inr demo_after"
  by code_simp

text \<open>Parsing inverts printing: a printed diff of hunks whose counts are right and whose lines fit in one line is
  parsed back to exactly these hunks.\<close>

theorem diff_round_trip:
  assumes "hs \<noteq> []" and "list_all well_counted hs"
  shows "parse_hunks (print_diff hs) = Inr hs"
proof -
  let ?ls = "concat (map print_hunk hs)"
  have f: "LF \<notin> set l \<and> \<not> ends_with [CR] l" if "l \<in> set ?ls" for l
    using that assms(2) printed_line_facts by (fastforce simp: list_all_iff)
  have "?ls \<noteq> []" using assms(1) by (cases hs) (simp_all add: print_hunk_def)
  then have "split_on LF (print_diff hs) = ?ls"
    unfolding print_diff_def using f by (intro split_on_join) (simp_all add: list_all_iff del: set_concat)
  moreover have "map strip_cr ?ls = ?ls" using f by (intro map_idI strip_cr_id) blast
  ultimately show ?thesis using parse_printed_hunks [OF assms(2), of 0 "[]"] assms(1) by (simp add: parse_hunks_def)
qed

theorem diff_round_trip_witness: "parse_hunks (''@@ -1,2 +1,2 @@'' @ [LF] @ '' a'' @ [LF] @ ''-b'' @ [LF] @ ''+c'') = Inr [demo_hunk]"
proof -
  have "print_diff [demo_hunk] = ''@@ -1,2 +1,2 @@'' @ [LF] @ '' a'' @ [LF] @ ''-b'' @ [LF] @ ''+c''" by code_simp
  moreover have "list_all well_counted [demo_hunk]" by code_simp
  ultimately show ?thesis using diff_round_trip [of "[demo_hunk]"] by simp
qed

text \<open>C36. Applying hunks is exact splicing: for hunks without a marker about the final newline, applying succeeds
  exactly if the file is accepted and is made of gaps and the old sides of the hunks at the places they name,
  and it gives the same gaps with the new sides, with the line ends of the file.\<close>

theorem applying_is_splicing:
  assumes "list_all quiet hs"
  shows "apply_hunks content hs = Inr out \<longleftrightarrow> (\<exists>d new. parse_document content = Inr d \<and> splices 0 0 hs (td_lines d) new \<and>
    out = render_lines (td_line_ending d) new (td_trailing_newline d))"
  by (rule apply_hunks_iff [OF assms])

theorem applying_is_splicing_witness:
  "\<exists>d new. parse_document demo_before = Inr d \<and> splices 0 0 [demo_hunk] (td_lines d) new \<and>
    demo_after = render_lines (td_line_ending d) new (td_trailing_newline d)"
  using applying_is_splicing [OF demo_hunk_quiet, of demo_before demo_after] demo_applies by blast

text \<open>The reversed diff undoes the diff: on a text with LF line ends that ends with one, when the result is not a lone
  line end and the added lines fit in one line, applying the reversed hunks to the result gives back the text.\<close>

theorem reversed_diff_undoes:
  assumes "list_all quiet hs" and "CR \<notin> set content" and "ends_with [LF] content"
    and "\<forall>h \<in> set hs. \<forall>l. Add l \<in> set (hk_operations h) \<longrightarrow> CR \<notin> set l \<and> LF \<notin> set l"
    and "apply_hunks content hs = Inr out" and "out \<noteq> [LF]"
  shows "apply_hunks out (map reverse_hunk hs) = Inr content"
  by (rule apply_reverse [OF assms(1,2,3,5,6)]) (use assms(4) in \<open>auto simp: clean_def\<close>)

theorem reversed_diff_undoes_witness: "apply_hunks demo_after [reverse_hunk demo_hunk] = Inr demo_before"
proof -
  have "\<forall>h \<in> set [demo_hunk]. \<forall>l. Add l \<in> set (hk_operations h) \<longrightarrow> CR \<notin> set l \<and> LF \<notin> set l" by (simp add: demo_hunk_def)
  moreover have "CR \<notin> set demo_before" "ends_with [LF] demo_before" "demo_after \<noteq> [LF]" by code_simp+
  ultimately show ?thesis using reversed_diff_undoes [OF demo_hunk_quiet, of demo_before demo_after] demo_applies by simp
qed

text \<open>A diff that removes every line does not empty the file: on a text with LF line ends that ends with one, it leaves
  a single line end, which the reversed diff cannot be applied to.\<close>

theorem emptied_file_keeps_a_line:
  assumes "list_all quiet hs" and "CR \<notin> set content" and "ends_with [LF] content"
    and "splices 0 0 hs (butlast (split_on LF content)) []"
  shows "apply_hunks content hs = Inr [LF]"
proof -
  have "content \<noteq> []" using assms(3) by (auto simp: ends_with_iff)
  then have "parse_document content = Inr \<lparr>td_lines = butlast (split_on LF content), td_line_ending = [LF], td_trailing_newline = True\<rparr>"
    using assms(2,3) by (simp add: parse_document_lf)
  with assms(4) show ?thesis unfolding apply_hunks_iff [OF assms(1)] by (auto simp: render_lines_def)
qed

definition demo_removal :: hunk where
  "demo_removal = \<lparr>hk_old_start = 1, hk_old_count = 1, hk_new_start = 0, hk_new_count = 0,
     hk_operations = [Remove ''a''], hk_old_no_newline = False, hk_new_no_newline = False\<rparr>"

theorem emptied_file_keeps_a_line_witness: "apply_hunks (''a'' @ [LF]) [demo_removal] = Inr [LF]"
proof (rule emptied_file_keeps_a_line)
  show "list_all quiet [demo_removal]" "CR \<notin> set (''a'' @ [LF])" "ends_with [LF] (''a'' @ [LF])" by code_simp+
  have "splices 0 0 [demo_removal] ([] @ old_side (hk_operations demo_removal) @ []) ([] @ new_side (hk_operations demo_removal) @ [])"
    by (rule splices_hunk) (simp_all add: demo_removal_def old_target_def new_target_def splices_end)
  then show "splices 0 0 [demo_removal] (butlast (split_on LF (''a'' @ [LF]))) []" by (simp add: demo_removal_def)
qed

text \<open>Two more edges of a file: adding the first line to an empty file writes no final newline although the diff has no
  marker, and a lone carriage return at the end of a file with CRLF line ends is dropped by any patch.\<close>

lemma first_line_has_no_newline:
  "bind_e (parse_hunks (''@@ -0,0 +1 @@'' @ [LF] @ ''+a'' @ [LF])) (apply_hunks []) = Inr ''a''"
  by code_simp

lemma final_carriage_return_is_lost:
  "bind_e (parse_hunks (''@@ -1 +1 @@'' @ [LF] @ ''-a'' @ [LF] @ ''+c'')) (apply_hunks (''a'' @ [CR, LF] @ ''b'' @ [CR])) =
     Inr (''c'' @ [CR, LF] @ ''b'')"
  by code_simp

end
