(* ===== verification/TextEdits.thy ===== *)
theory TextEdits
  imports UnifiedDiffs
begin

section \<open>The edit tool: replacing text under two line ends\<close>

text \<open>
  \<^verbatim>\<open>core/src/text.rs\<close>: cutting a text at a byte bound, classifying its line ends, and the replacement that the
  edit tool applies, which treats LF and CRLF as the same break.

  Offsets of matches are counted in characters here and in bytes in the source; a match starts and ends at a
  character boundary, so the two count the same places.  The patterns that are replaced are not empty.
\<close>

subsection \<open>Cutting at a byte bound\<close>

fun char_boundary_below :: "str \<Rightarrow> nat \<Rightarrow> nat" where
  "char_boundary_below s 0 = 0"
| "char_boundary_below s (Suc n) = (if byte_split (Suc n) s = None then char_boundary_below s n else Suc n)"

definition truncate_utf8 :: "str \<Rightarrow> nat \<Rightarrow> str option" where
  "truncate_utf8 s max_bytes =
     (if utf8_len s \<le> max_bytes then Some s
      else map_option fst (byte_split (char_boundary_below s max_bytes) s))"

subsection \<open>Line ends\<close>

datatype newline_style = Lf | Crlf

datatype newline_class = NoNewline | Uniform newline_style | Unsafe

fun classify_go :: "bool \<Rightarrow> bool \<Rightarrow> str \<Rightarrow> newline_class" where
  "classify_go saw_lf saw_crlf [] =
     (if saw_lf then (if saw_crlf then Unsafe else Uniform Lf) else if saw_crlf then Uniform Crlf else NoNewline)"
| "classify_go saw_lf saw_crlf (c # s) =
     (if c = CR then (case s of d # t \<Rightarrow> if d = LF then classify_go saw_lf True t else Unsafe | [] \<Rightarrow> Unsafe)
      else classify_go (saw_lf \<or> c = LF) saw_crlf s)"

definition classify_newlines :: "str \<Rightarrow> newline_class" where
  "classify_newlines text = classify_go False False text"

subsection \<open>Searching and replacing\<close>

fun find_str :: "str \<Rightarrow> str \<Rightarrow> nat option" where
  "find_str p s =
     (if starts_with p s then Some 0 else (case s of [] \<Rightarrow> None | c # t \<Rightarrow> map_option Suc (find_str p t)))"

declare find_str.simps [simp del]

lemma find_str_Some: "find_str p s = Some i \<Longrightarrow> \<exists>b. s = take i s @ p @ b \<and> i + length p \<le> length s"
proof (induction p s arbitrary: i rule: find_str.induct)
  case (1 p s)
  show ?case
  proof (cases "starts_with p s")
    case True
    with 1(2) have "i = 0" by (subst (asm) find_str.simps) simp
    with True show ?thesis by (auto simp: starts_with_iff)
  next
    case False
    with 1(2) obtain c t j where s: "s = c # t" "find_str p t = Some j" "i = Suc j"
      by (subst (asm) find_str.simps) (auto split: list.splits)
    from 1(1) [OF False s(1) s(2)] s show ?thesis by auto
  qed
qed

lemma find_str_shorter [dest]:
  assumes "find_str p s = Some i" "p \<noteq> []"
  shows "length (drop (i + length p) s) < length s"
  using find_str_Some [OF assms(1)] assms(2) by (cases p) auto

text \<open>\<^verbatim>\<open>str::replace\<close> and \<^verbatim>\<open>str::replacen\<close> with the bound 1, for a non-empty pattern.\<close>

function replace_str :: "str \<Rightarrow> str \<Rightarrow> str \<Rightarrow> str" where
  "replace_str old new s =
     (case (if old = [] then None else find_str old s) of
        None \<Rightarrow> s
      | Some i \<Rightarrow> take i s @ new @ replace_str old new (drop (i + length old) s))"
  by pat_completeness auto

termination
  by (relation "measure (\<lambda>(old, new, s). length s)") (auto split: if_splits dest!: find_str_shorter)

declare replace_str.simps [simp del]

definition replacen_once :: "str \<Rightarrow> str \<Rightarrow> str \<Rightarrow> str" where
  "replacen_once old new s =
     (case find_str old s of None \<Rightarrow> s | Some i \<Rightarrow> take i s @ new @ drop (i + length old) s)"

definition transcode_newlines :: "str \<Rightarrow> newline_style \<Rightarrow> str" where
  "transcode_newlines text style =
     (case (style, classify_newlines text) of
        (Crlf, Uniform Lf) \<Rightarrow> replace_str [LF] [CR, LF] text
      | (Crlf, NoNewline) \<Rightarrow> replace_str [LF] [CR, LF] text
      | (Lf, Uniform Crlf) \<Rightarrow> replace_str [CR, LF] [LF] text
      | _ \<Rightarrow> text)"

definition preserve_newline_style :: "str \<Rightarrow> str \<Rightarrow> str" where
  "preserve_newline_style existing incoming =
     (case (classify_newlines existing, classify_newlines incoming) of
        (Uniform target, Uniform source) \<Rightarrow> if target \<noteq> source then transcode_newlines incoming target else incoming
      | _ \<Rightarrow> incoming)"

definition to_lf :: "str \<Rightarrow> str" where
  "to_lf text = (if classify_newlines text = Uniform Crlf then replace_str [CR, LF] [LF] text else text)"

definition cr_stripped_contains :: "str \<Rightarrow> str \<Rightarrow> bool" where
  "cr_stripped_contains haystack needle =
     (let needle = filter (\<lambda>c. c \<noteq> CR) needle in needle \<noteq> [] \<and> contains_str needle (filter (\<lambda>c. c \<noteq> CR) haystack))"

subsection \<open>Spans\<close>

function spans_from :: "str \<Rightarrow> nat \<Rightarrow> str \<Rightarrow> (nat \<times> nat) list" where
  "spans_from needle start rest =
     (case (if needle = [] then None else find_str needle rest) of
        None \<Rightarrow> []
      | Some found \<Rightarrow>
          let abs = start + found
          in (abs, abs + length needle) # spans_from needle (abs + length needle) (drop (found + length needle) rest))"
  by pat_completeness auto

termination
  by (relation "measure (\<lambda>(needle, start, rest). length rest)") (auto split: if_splits dest!: find_str_shorter)

declare spans_from.simps [simp del]

definition exact_spans :: "str \<Rightarrow> str \<Rightarrow> (nat \<times> nat) list" where
  "exact_spans haystack needle = (if needle = [] then [] else spans_from needle 0 haystack)"

definition span_splits_crlf :: "str \<Rightarrow> nat \<times> nat \<Rightarrow> bool" where
  "span_splits_crlf haystack span =
     (case span of (start, end_at) \<Rightarrow>
        (start > 0 \<and> get_at haystack start = Some LF \<and> haystack ! (start - 1) = CR) \<or>
        (end_at > start \<and> end_at < length haystack \<and> haystack ! (end_at - 1) = CR \<and> haystack ! end_at = LF))"

text \<open>The table that the loop of \<^verbatim>\<open>map_lf_spans_to_crlf\<close> builds from the needed offsets in order.\<close>

fun map_offsets :: "str \<Rightarrow> nat \<Rightarrow> nat \<Rightarrow> nat list \<Rightarrow> (nat \<times> nat) list" where
  "map_offsets [] index extra needed = map (\<lambda>n. (n, index + extra)) (takeWhile (\<lambda>n. n = index) needed)"
| "map_offsets (c # s) index extra needed =
     map (\<lambda>n. (n, index + extra)) (takeWhile (\<lambda>n. n = index) needed) @
     map_offsets s (index + 1) (if c = LF then extra + 1 else extra) (dropWhile (\<lambda>n. n = index) needed)"

definition map_lf_spans_to_crlf :: "str \<Rightarrow> (nat \<times> nat) list \<Rightarrow> (nat \<times> nat) list option" where
  "map_lf_spans_to_crlf lf spans =
     (let needed = remdups_adj (sort (concat (map (\<lambda>(s, e). [s, e]) spans)));
          mapped = map_of (map_offsets lf 0 0 needed)
      in those (map (\<lambda>(s, e). case (mapped s, mapped e) of (Some s', Some e') \<Rightarrow> Some (s', e') | _ \<Rightarrow> None) spans))"

fun splice_from :: "nat \<Rightarrow> str \<Rightarrow> (nat \<times> nat) list \<Rightarrow> str \<Rightarrow> str" where
  "splice_from cursor haystack [] replacement = drop cursor haystack"
| "splice_from cursor haystack ((s, e) # spans) replacement =
     slice cursor s haystack @ replacement @ splice_from e haystack spans replacement"

definition splice :: "str \<Rightarrow> (nat \<times> nat) list \<Rightarrow> str \<Rightarrow> str" where
  "splice haystack spans replacement = splice_from 0 haystack spans replacement"

subsection \<open>The edit\<close>

datatype edit_error = NotFound | Ambiguous nat | UnsafeEdit

record line_ending_edit =
  le_content :: str
  le_count :: nat

text \<open>The second half: a match that treats LF and CRLF alike.\<close>

definition logical_edit :: "str \<Rightarrow> str \<Rightarrow> str \<Rightarrow> bool \<Rightarrow> edit_error + line_ending_edit" where
  "logical_edit content old new replace_all =
     (if classify_newlines content = Unsafe \<or> classify_newlines old = Unsafe then
        Inl (if cr_stripped_contains content old then UnsafeEdit else NotFound)
      else
        let lf_content = to_lf content; lf_old = to_lf old
        in if lf_old = [] then Inl NotFound
           else
             let logical = exact_spans lf_content lf_old; count = length logical
             in if logical = [] then Inl NotFound
                else if count > 1 \<and> \<not> replace_all then Inl (Ambiguous count)
                else if classify_newlines new = Unsafe then Inl UnsafeEdit
                else
                  let file_style = (case classify_newlines content of Uniform style \<Rightarrow> style | _ \<Rightarrow> Lf);
                      replacement = transcode_newlines new file_style
                  in (case (if classify_newlines content = Uniform Crlf then map_lf_spans_to_crlf lf_content logical
                            else Some logical) of
                        None \<Rightarrow> Inl UnsafeEdit
                      | Some spans \<Rightarrow>
                          Inr \<lparr>le_content = splice content (if replace_all then spans else take 1 spans) replacement,
                            le_count = (if replace_all then count else 1)\<rparr>))"

definition apply_line_ending_edit :: "str \<Rightarrow> str \<Rightarrow> str \<Rightarrow> bool \<Rightarrow> edit_error + line_ending_edit" where
  "apply_line_ending_edit content old new replace_all =
     (if old = [] then Inl NotFound
      else
        let exact = exact_spans content old;
            splitting = length (filter (span_splits_crlf content) exact);
            count = length exact
        in if exact \<noteq> [] \<and> splitting = 0 then
             (if count > 1 \<and> \<not> replace_all then Inl (Ambiguous count)
              else Inr \<lparr>le_content = (if replace_all then replace_str old new content else replacen_once old new content),
                     le_count = (if replace_all then count else 1)\<rparr>)
           else if splitting > 0 \<and> splitting \<noteq> count then Inl UnsafeEdit
           else logical_edit content old new replace_all)"

end
