(* ===== verification/EditLaws.thy ===== *)
theory EditLaws
  imports TextEdits
begin

section \<open>Laws of searching, replacing and line ends\<close>

text \<open>
  What a replacement does character by character, the same replacement as a splice over the spans of the matches,
  and the correspondence between a text with LF line ends and the same text with CRLF line ends: lengths, offsets
  and splices carry over.
\<close>

subsection \<open>Replacing is splicing\<close>

lemma find_str_start: "starts_with p s \<Longrightarrow> find_str p s = Some 0"
  by (simp add: find_str.simps)

lemma find_str_step: "\<not> starts_with p (c # t) \<Longrightarrow> find_str p (c # t) = map_option Suc (find_str p t)"
  by (subst find_str.simps) simp

lemma find_str_Nil: "p \<noteq> [] \<Longrightarrow> find_str p [] = None"
  by (cases p) (simp_all add: find_str.simps)

lemma replace_str_Nil [simp]: "replace_str old new [] = []"
  by (subst replace_str.simps) (simp add: find_str_Nil)

lemma replace_str_start:
  "old \<noteq> [] \<Longrightarrow> starts_with old s \<Longrightarrow> replace_str old new s = new @ replace_str old new (drop (length old) s)"
  by (subst replace_str.simps) (simp add: find_str_start)

lemma replace_str_step:
  "\<not> starts_with old (c # t) \<Longrightarrow> replace_str old new (c # t) = c # replace_str old new t"
  by (subst (1 2) replace_str.simps) (simp add: find_str_step split: option.split)

lemma spans_from_Nil [simp]: "spans_from needle start [] = []"
  by (subst spans_from.simps) (simp add: find_str_Nil)

lemma spans_from_start:
  "needle \<noteq> [] \<Longrightarrow> starts_with needle s \<Longrightarrow>
     spans_from needle start s =
       (start, start + length needle) # spans_from needle (start + length needle) (drop (length needle) s)"
  by (subst spans_from.simps) (simp add: find_str_start Let_def)

lemma spans_from_step:
  "\<not> starts_with needle (c # t) \<Longrightarrow> spans_from needle start (c # t) = spans_from needle (Suc start) t"
  by (subst (1 2) spans_from.simps) (simp add: find_str_step Let_def split: option.split)

text \<open>The spans of a list lie in order between a start and an end.\<close>

fun ordered_spans :: "nat \<Rightarrow> (nat \<times> nat) list \<Rightarrow> nat \<Rightarrow> bool" where
  "ordered_spans cursor [] bound = (cursor \<le> bound)"
| "ordered_spans cursor ((s, e) # spans) bound = (cursor \<le> s \<and> s \<le> e \<and> ordered_spans e spans bound)"

lemma ordered_spans_bound: "ordered_spans cursor spans bound \<Longrightarrow> cursor \<le> bound"
  by (induction cursor spans bound rule: ordered_spans.induct) auto

lemma ordered_spans_weaken: "ordered_spans c spans bound \<Longrightarrow> c' \<le> c \<Longrightarrow> ordered_spans c' spans bound"
  by (cases spans) auto

lemma ordered_spans_in: "ordered_spans c spans bound \<Longrightarrow> (s, e) \<in> set spans \<Longrightarrow> s \<le> e \<and> e \<le> bound"
  by (induction c spans bound rule: ordered_spans.induct) (auto dest: ordered_spans_bound)

lemma ordered_spans_take: "ordered_spans c spans bound \<Longrightarrow> ordered_spans c (take n spans) bound"
proof (induction c spans bound arbitrary: n rule: ordered_spans.induct)
  case (2 cursor s e spans bound)
  then show ?case
    by (cases n) (auto dest: ordered_spans_bound)
qed simp

text \<open>Induction along the matches of a needle.\<close>

lemma match_induct [consumes 1, case_names Nil Match Skip]:
  assumes "needle \<noteq> []"
    and "P []"
    and "\<And>r. P r \<Longrightarrow> P (needle @ r)"
    and "\<And>c t. \<not> starts_with needle (c # t) \<Longrightarrow> P t \<Longrightarrow> P (c # t)"
  shows "P (s :: str)"
proof (induction s rule: length_induct)
  case (1 s)
  show ?case
  proof (cases "starts_with needle s")
    case True
    then obtain r where r: "s = needle @ r" by (auto simp: starts_with_iff)
    from assms(1) have "length r < length s" by (cases needle) (auto simp: r)
    with 1 assms(3) show ?thesis by (auto simp: r)
  next
    case False
    with 1 assms(2,4) show ?thesis by (cases s) auto
  qed
qed

lemma spans_from_ordered:
  assumes "needle \<noteq> []"
  shows "ordered_spans start (spans_from needle start rest) (start + length rest)"
  using assms
proof (induction rest arbitrary: start rule: match_induct)
  case (Match r)
  from Match.IH [of "start + length needle"] show ?case
    by (simp add: spans_from_start [OF assms] add.assoc)
next
  case (Skip c t)
  from Skip.IH [of "Suc start"] Skip.hyps show ?case
    by (auto simp: spans_from_step intro: ordered_spans_weaken [of "Suc start"])
qed simp

lemma spans_from_match:
  assumes "needle \<noteq> []" "(s, e) \<in> set (spans_from needle start rest)"
  shows "\<exists>a b. rest = a @ needle @ b \<and> s = start + length a \<and> e = s + length needle"
  using assms
proof (induction rest arbitrary: start rule: match_induct)
  case (Match r)
  then consider "s = start" "e = start + length needle" | "(s, e) \<in> set (spans_from needle (start + length needle) r)"
    by (auto simp: spans_from_start [OF assms(1)])
  then show ?case
  proof cases
    case 1
    then show ?thesis by (intro exI [of _ "[]"] exI [of _ r]) simp
  next
    case 2
    with Match obtain a b where "r = a @ needle @ b" "s = start + length needle + length a" "e = s + length needle"
      by blast
    then show ?thesis by (intro exI [of _ "needle @ a"] exI [of _ b]) simp
  qed
next
  case (Skip c t)
  then obtain a b where "t = a @ needle @ b" "s = Suc start + length a" "e = s + length needle"
    by (fastforce simp: spans_from_step)
  then show ?case by (intro exI [of _ "c # a"] exI [of _ b]) simp
qed simp

lemma splice_spans_from:
  assumes "needle \<noteq> []" "c \<le> length pre"
  shows "splice_from c (pre @ rest) (spans_from needle (length pre) rest) r = drop c pre @ replace_str needle r rest"
  using assms
proof (induction rest arbitrary: pre c rule: match_induct)
  case (Match u)
  from Match.IH [of "length (pre @ needle)" "pre @ needle"] Match.prems show ?case
    by (simp add: spans_from_start [OF assms(1)] replace_str_start [OF assms(1)] slice_def)
next
  case (Skip x t)
  from Skip.IH [of c "pre @ [x]"] Skip.hyps Skip.prems show ?case
    by (simp add: spans_from_step replace_str_step)
qed simp

lemma replace_is_splice: "old \<noteq> [] \<Longrightarrow> replace_str old new s = splice s (exact_spans s old) new"
  using splice_spans_from [of old 0 "[]" s new] by (simp add: splice_def exact_spans_def)

lemma replacen_is_splice:
  assumes "old \<noteq> []"
  shows "replacen_once old new s = splice s (take 1 (exact_spans s old)) new"
proof -
  have "exact_spans s old = (case find_str old s of
      None \<Rightarrow> []
    | Some i \<Rightarrow> (i, i + length old) # spans_from old (i + length old) (drop (i + length old) s))"
    unfolding exact_spans_def using assms by (subst spans_from.simps) (simp add: Let_def cong: option.case_cong)
  then show ?thesis
    by (simp add: splice_def replacen_once_def slice_def split: option.split)
qed

subsection \<open>The same text with either line end\<close>

fun to_crlf :: "str \<Rightarrow> str" where
  "to_crlf [] = []"
| "to_crlf (c # s) = (if c = LF then CR # LF # to_crlf s else c # to_crlf s)"

text \<open>Where an offset of the LF text lies in the CRLF text.\<close>

definition crlf_offset :: "str \<Rightarrow> nat \<Rightarrow> nat" where
  "crlf_offset l n = n + count_list (take n l) LF"

lemma to_crlf_append: "to_crlf (a @ b) = to_crlf a @ to_crlf b"
  by (induction a) auto

lemma to_crlf_length: "length (to_crlf l) = length l + count_list l LF"
  by (induction l) auto

lemma crlf_offset_length: "n \<le> length l \<Longrightarrow> crlf_offset l n = length (to_crlf (take n l))"
  by (simp add: crlf_offset_def to_crlf_length)

lemma take_crlf_offset: "n \<le> length l \<Longrightarrow> take (crlf_offset l n) (to_crlf l) = to_crlf (take n l)"
  using to_crlf_append [of "take n l" "drop n l"] by (simp add: crlf_offset_length)

lemma drop_crlf_offset: "n \<le> length l \<Longrightarrow> drop (crlf_offset l n) (to_crlf l) = to_crlf (drop n l)"
  using to_crlf_append [of "take n l" "drop n l"] by (simp add: crlf_offset_length)

lemma slice_crlf_offset:
  assumes "i \<le> j" "j \<le> length l"
  shows "slice (crlf_offset l i) (crlf_offset l j) (to_crlf l) = to_crlf (slice i j l)"
proof -
  have "slice a b xs = drop a (take b xs)" for a b and xs :: str
    by (simp add: slice_def drop_take)
  moreover have "crlf_offset l i = crlf_offset (take j l) i"
    using assms by (simp add: crlf_offset_def min_def)
  ultimately show ?thesis
    using assms drop_crlf_offset [of i "take j l"] by (simp add: take_crlf_offset)
qed

lemma splice_from_to_crlf:
  assumes "ordered_spans cursor spans (length l)"
  shows "splice_from (crlf_offset l cursor) (to_crlf l)
      (map (\<lambda>(s, e). (crlf_offset l s, crlf_offset l e)) spans) (to_crlf r) =
    to_crlf (splice_from cursor l spans r)"
  using assms
proof (induction cursor spans "length l" rule: ordered_spans.induct)
  case (1 cursor)
  then show ?case by (simp add: drop_crlf_offset)
next
  case (2 cursor s e spans)
  from 2(2) have "cursor \<le> s" "s \<le> length l" by (auto dest: ordered_spans_bound)
  with 2 show ?case by (simp add: slice_crlf_offset to_crlf_append)
qed

lemma splice_to_crlf:
  assumes "ordered_spans 0 spans (length l)"
  shows "splice (to_crlf l) (map (\<lambda>(s, e). (crlf_offset l s, crlf_offset l e)) spans) (to_crlf r) =
    to_crlf (splice l spans r)"
  using splice_from_to_crlf [OF assms, of r] by (simp add: splice_def crlf_offset_def)

subsection \<open>The table of offsets\<close>

lemma split_needed:
  assumes "sorted_wrt (<) (needed :: nat list)" "\<forall>n \<in> set needed. k \<le> n"
  obtains (Here) rest where "needed = k # rest" "takeWhile (\<lambda>n. n = k) needed = [k]"
      "dropWhile (\<lambda>n. n = k) needed = rest" "sorted_wrt (<) rest" "\<forall>n \<in> set rest. k < n"
  | (Later) "takeWhile (\<lambda>n. n = k) needed = []" "dropWhile (\<lambda>n. n = k) needed = needed" "\<forall>n \<in> set needed. k < n"
proof (cases needed)
  case Nil
  then show ?thesis using Later by simp
next
  case (Cons a rest)
  show ?thesis
  proof (cases "a = k")
    case True
    with assms Cons have "\<forall>n \<in> set rest. k < n" by simp
    then have "takeWhile (\<lambda>n. n = k) rest = []" "dropWhile (\<lambda>n. n = k) rest = rest"
      by (cases rest; simp)+
    with True Cons assms Here show ?thesis by simp
  next
    case False
    with assms Cons have "\<forall>n \<in> set needed. k < n" by force
    with False Cons Later show ?thesis by simp
  qed
qed

lemma map_offsets_lookup:
  assumes "sorted_wrt (<) needed" "\<forall>n \<in> set needed. index \<le> n \<and> n \<le> index + length s" "n \<in> set needed"
  shows "map_of (map_offsets s index extra needed) n = Some (n + extra + count_list (take (n - index) s) LF)"
  using assms
proof (induction s index extra needed rule: map_offsets.induct)
  case (1 index extra needed)
  from 1(2) have all: "\<forall>n \<in> set needed. n = index" by force
  with 1(3) have "n = index" by blast
  moreover have "takeWhile (\<lambda>n. n = index) needed = needed" using all by (simp add: takeWhile_eq_all_conv)
  ultimately show ?case using 1(3) by (cases needed) (use all in \<open>auto simp: map_of_eq_Some_iff\<close>)
next
  case (2 c s index extra needed)
  from 2(3) have low: "\<forall>n \<in> set needed. index \<le> n" by blast
  from 2(2) low show ?case
  proof (cases rule: split_needed)
    case (Here rest)
    show ?thesis
    proof (cases "n = index")
      case True
      with Here show ?thesis by simp
    next
      case False
      with Here 2(4) have "n \<in> set rest" "index < n" by auto
      moreover from Here 2(3) have "\<forall>n \<in> set rest. index + 1 \<le> n \<and> n \<le> index + 1 + length s" by auto
      moreover from \<open>index < n\<close> have "n - index = Suc (n - Suc index)" by simp
      ultimately show ?thesis
        using 2(1) Here False by auto
    qed
  next
    case Later
    with 2(4) have "index < n" by blast
    moreover from Later 2(3) have "\<forall>n \<in> set needed. index + 1 \<le> n \<and> n \<le> index + 1 + length s" by auto
    moreover from \<open>index < n\<close> have "n - index = Suc (n - Suc index)" by simp
    ultimately show ?thesis
      using 2(1,2,4) Later by auto
  qed
qed

lemma sorted_remdups_adj_strict: "sorted xs \<Longrightarrow> sorted_wrt (<) (remdups_adj (xs :: nat list))"
proof (induction xs rule: remdups_adj.induct)
  case (3 x y xs)
  then show ?case
    by (cases "x = y") force+
qed auto

lemma map_lf_spans_to_crlf_total:
  assumes "\<And>s e. (s, e) \<in> set spans \<Longrightarrow> s \<le> length lf \<and> e \<le> length lf"
  shows "map_lf_spans_to_crlf lf spans = Some (map (\<lambda>(s, e). (crlf_offset lf s, crlf_offset lf e)) spans)"
proof -
  let ?needed = "remdups_adj (sort (concat (map (\<lambda>(s, e). [s, e]) spans)))"
  have strict: "sorted_wrt (<) ?needed" by (simp add: sorted_remdups_adj_strict)
  have bound: "\<forall>n \<in> set ?needed. 0 \<le> n \<and> n \<le> 0 + length lf" using assms by auto
  have lookup: "map_of (map_offsets lf 0 0 ?needed) n = Some (crlf_offset lf n)" if "n \<in> set ?needed" for n
    using map_offsets_lookup [OF strict bound that] by (simp add: crlf_offset_def)
  have "s \<in> set ?needed" "e \<in> set ?needed" if "(s, e) \<in> set spans" for s e
    using that by auto
  then show ?thesis
    unfolding map_lf_spans_to_crlf_def Let_def
    by (intro those_map_in) (clarsimp simp del: set_sort set_concat simp: lookup)
qed

subsection \<open>Classes of line ends\<close>

lemma classify_go_plain:
  "CR \<notin> set s \<Longrightarrow> classify_go a b s =
     (if a \<or> LF \<in> set s then (if b then Unsafe else Uniform Lf) else if b then Uniform Crlf else NoNewline)"
  by (induction a b s rule: classify_go.induct) (auto split: if_splits)

lemma classify_go_no_cr:
  "classify_go a b s = Uniform Lf \<or> classify_go a b s = NoNewline \<Longrightarrow> CR \<notin> set s \<and> \<not> b"
  by (induction a b s rule: classify_go.induct) (auto split: if_splits list.splits)

lemma classify_go_crlf:
  "classify_go a b s = Uniform Crlf \<Longrightarrow> \<not> a \<and> (\<exists>l. s = to_crlf l \<and> CR \<notin> set l)"
proof (induction a b s rule: classify_go.induct)
  case (1 a b)
  then show ?case by (auto split: if_splits intro: exI [of _ "[]"])
next
  case (2 a b c s)
  show ?case
  proof (cases "c = CR")
    case True
    with 2(3) obtain t where s: "s = LF # t" "classify_go a True t = Uniform Crlf"
      by (auto split: list.splits if_splits)
    with 2(1) [OF True s(1)] obtain l where "t = to_crlf l" "CR \<notin> set l" "\<not> a" by auto
    with True s show ?thesis by (auto intro!: exI [of _ "LF # l"])
  next
    case False
    with 2(3) have "classify_go (a \<or> c = LF) b s = Uniform Crlf" by simp
    with 2(2) [OF False] obtain l where "s = to_crlf l" "CR \<notin> set l" "\<not> a" "c \<noteq> LF" by auto
    with False show ?thesis by (auto intro!: exI [of _ "c # l"])
  qed
qed

lemma replace_lf_crlf: "replace_str [LF] [CR, LF] l = to_crlf l"
  by (induction l) (auto simp: replace_str_start replace_str_step)

lemma replace_crlf_lf: "CR \<notin> set l \<Longrightarrow> replace_str [CR, LF] [LF] (to_crlf l) = l"
  by (induction l) (auto simp: replace_str_start replace_str_step)

lemma to_lf_plain: "CR \<notin> set s \<Longrightarrow> to_lf s = s"
  by (simp add: to_lf_def classify_newlines_def classify_go_plain)

lemma no_cr: "classify_newlines s = NoNewline \<or> classify_newlines s = Uniform Lf \<Longrightarrow> CR \<notin> set s"
  unfolding classify_newlines_def using classify_go_no_cr [of False False s] by blast

lemma classify_plain:
  "CR \<notin> set s \<Longrightarrow> classify_newlines s = (if LF \<in> set s then Uniform Lf else NoNewline)"
  by (simp add: classify_newlines_def classify_go_plain)

lemma crlf_text:
  assumes "classify_newlines s = Uniform Crlf"
  obtains l where "s = to_crlf l" "to_lf s = l" "CR \<notin> set l"
proof -
  from assms obtain l where "s = to_crlf l" "CR \<notin> set l"
    using classify_go_crlf [of False False s] by (auto simp: classify_newlines_def)
  with assms that show ?thesis by (simp add: to_lf_def replace_crlf_lf)
qed

lemma newline_class_cases:
  assumes "classify_newlines s \<noteq> Unsafe"
  obtains (Plain) "CR \<notin> set s" "to_lf s = s" "classify_newlines s \<noteq> Uniform Crlf"
  | (Windows) l where "classify_newlines s = Uniform Crlf" "s = to_crlf l" "to_lf s = l" "CR \<notin> set l"
proof (cases "classify_newlines s = Uniform Crlf")
  case True
  then show ?thesis by (metis crlf_text Windows)
next
  case False
  with assms have "CR \<notin> set s" by (metis newline_class.exhaust newline_style.exhaust no_cr)
  with False Plain show ?thesis by (simp add: to_lf_plain)
qed

lemma transcode_crlf:
  assumes "classify_newlines s \<noteq> Unsafe"
  shows "transcode_newlines s Crlf = to_crlf (to_lf s)"
  using assms
proof (cases rule: newline_class_cases)
  case Plain
  then show ?thesis by (simp add: transcode_newlines_def classify_plain replace_lf_crlf)
next
  case (Windows l)
  then show ?thesis by (simp add: transcode_newlines_def)
qed

subsection \<open>Matches against line ends\<close>

lemma no_cr_no_split:
  assumes "CR \<notin> set l" "e \<le> length l"
  shows "\<not> span_splits_crlf l (s, e)"
proof -
  have "l ! i \<noteq> CR" if "i < length l" for i using assms(1) that by (metis nth_mem)
  with assms(2) show ?thesis by (auto simp: span_splits_crlf_def get_at_Some_iff)
qed

lemma exact_spans_match:
  assumes "(s, e) \<in> set (exact_spans h needle)"
  shows "\<exists>a b. h = a @ needle @ b \<and> s = length a \<and> e = s + length needle"
  using assms spans_from_match [of needle s e 0 h] by (auto simp: exact_spans_def split: if_splits)

lemma exact_spans_ordered: "ordered_spans 0 (exact_spans h needle) (length h)"
  using spans_from_ordered [of needle 0 h] by (simp add: exact_spans_def)

lemma to_crlf_before_lf:
  assumes "to_crlf l = a @ LF # b"
  shows "a \<noteq> [] \<and> last a = CR"
  using assms
proof (induction l arbitrary: a)
  case (Cons c l)
  show ?case
  proof (cases "c = LF")
    case True
    with Cons.prems show ?thesis
      using Cons.IH by (auto simp: Cons_eq_append_conv)
  next
    case False
    with Cons.prems obtain a' where "a = c # a'" "to_crlf l = a' @ LF # b"
      by (auto simp: Cons_eq_append_conv)
    with Cons.IH show ?thesis by fastforce
  qed
qed simp

text \<open>A needle with an LF and no CR can only match a CRLF text at the second half of a line end.\<close>

lemma lf_match_splits:
  assumes "CR \<notin> set needle" "LF \<in> set needle" "(s, e) \<in> set (exact_spans (to_crlf l) needle)"
  shows "span_splits_crlf (to_crlf l) (s, e)"
proof -
  obtain a b where m: "to_crlf l = a @ needle @ b" "s = length a" using exact_spans_match [OF assms(3)] by blast
  obtain u v where needle: "needle = u @ LF # v" using assms(2) by (meson split_list)
  from m needle have "to_crlf l = (a @ u) @ LF # v @ b" by simp
  from to_crlf_before_lf [OF this] have before: "a @ u \<noteq> []" "last (a @ u) = CR" by auto
  have "u = []"
    using before assms(1) needle by (metis UnCI last_appendR last_in_set set_append)
  with before m needle show ?thesis
    by (auto simp: span_splits_crlf_def get_at_def nth_append last_conv_nth)
qed

end
