(* ===== verification/EditProperties.thy ===== *)
theory EditProperties
  imports EditLaws "HOL-Library.Sublist"
begin

section \<open>Properties of the edit tool\<close>

text \<open>
  A text edit of a file with CRLF line ends is the edit of the same file with LF line ends, up to the line ends; a
  cut at a byte bound is a prefix within the bound.
\<close>

subsection \<open>Both routes of an edit\<close>

lemma plain_edit:
  assumes "CR \<notin> set content" "CR \<notin> set old" "old \<noteq> []"
  shows "apply_line_ending_edit content old new replace_all =
    (let spans = exact_spans content old
     in if spans = [] then Inl NotFound
        else if length spans > 1 \<and> \<not> replace_all then Inl (Ambiguous (length spans))
        else Inr \<lparr>le_content = splice content (if replace_all then spans else take 1 spans) new,
               le_count = (if replace_all then length spans else 1)\<rparr>)"
proof -
  have "filter (span_splits_crlf content) (exact_spans content old) = []"
    using no_cr_no_split [OF assms(1)] ordered_spans_in [OF exact_spans_ordered, of _ _ content old]
    by (auto simp: filter_empty_conv)
  then show ?thesis
    using assms
    by (simp add: apply_line_ending_edit_def logical_edit_def Let_def to_lf_plain classify_plain
      replace_is_splice replacen_is_splice)
qed

lemma windows_edit:
  assumes "content = to_crlf l" "classify_newlines content = Uniform Crlf" "to_lf content = l"
    and "classify_newlines old = Uniform Lf" "classify_newlines new \<noteq> Unsafe"
  shows "apply_line_ending_edit content old new replace_all =
    (let spans = exact_spans l old
     in if spans = [] then Inl NotFound
        else if length spans > 1 \<and> \<not> replace_all then Inl (Ambiguous (length spans))
        else Inr \<lparr>le_content = to_crlf (splice l (if replace_all then spans else take 1 spans) (to_lf new)),
               le_count = (if replace_all then length spans else 1)\<rparr>)"
proof -
  have old: "CR \<notin> set old" using assms(4) no_cr by blast
  have lf: "LF \<in> set old" using assms(4) classify_plain [OF old] by (auto split: if_splits)
  have split: "filter (span_splits_crlf content) (exact_spans content old) = exact_spans content old"
    using lf_match_splits [OF old lf] by (auto simp: filter_id_conv assms(1))
  have route: "apply_line_ending_edit content old new replace_all = logical_edit content old new replace_all"
    using lf by (auto simp: apply_line_ending_edit_def Let_def split)
  have table: "map_lf_spans_to_crlf l (exact_spans l old) =
      Some (map (\<lambda>(s, e). (crlf_offset l s, crlf_offset l e)) (exact_spans l old))"
    by (rule map_lf_spans_to_crlf_total)
      (use ordered_spans_in [OF exact_spans_ordered, of _ _ l old] in \<open>meson order_trans\<close>)
  have glue: "splice content (if replace_all then map (\<lambda>(s, e). (crlf_offset l s, crlf_offset l e)) (exact_spans l old)
        else take 1 (map (\<lambda>(s, e). (crlf_offset l s, crlf_offset l e)) (exact_spans l old))) (to_crlf (to_lf new)) =
      to_crlf (splice l (if replace_all then exact_spans l old else take 1 (exact_spans l old)) (to_lf new))"
    unfolding assms(1) using exact_spans_ordered [of l old] splice_to_crlf [OF ordered_spans_take]
    by (simp add: splice_to_crlf take_map)
  show ?thesis
    unfolding route logical_edit_def using lf old glue
    by (auto simp: assms(2-5) to_lf_plain table transcode_crlf Let_def)
qed

subsection \<open>Writing over a file, cutting a text\<close>

lemma classify_go_to_crlf:
  "CR \<notin> set l \<Longrightarrow> classify_go False b (to_crlf l) = (if b \<or> LF \<in> set l then Uniform Crlf else NoNewline)"
  by (induction l arbitrary: b) auto

text \<open>A uniform text that is written over a uniform file takes the line ends of the file and changes in nothing
  else.\<close>

lemma written_text_takes_the_file_style:
  assumes "classify_newlines existing = Uniform target" "classify_newlines incoming = Uniform source"
  shows "classify_newlines (preserve_newline_style existing incoming) = Uniform target"
    and "to_lf (preserve_newline_style existing incoming) = to_lf incoming"
proof -
  have "classify_newlines (preserve_newline_style existing incoming) = Uniform target \<and>
    to_lf (preserve_newline_style existing incoming) = to_lf incoming"
  proof (cases "target = source")
    case True
    with assms show ?thesis by (simp add: preserve_newline_style_def)
  next
    case differ: False
    show ?thesis
    proof (cases source)
      case Lf
      with assms(2) have "CR \<notin> set incoming" using no_cr by blast
      moreover have "LF \<in> set incoming"
        using assms(2) Lf classify_plain [OF calculation] by (auto split: if_splits)
      moreover from Lf differ have "target = Crlf" by (cases target) auto
      ultimately show ?thesis
        using assms Lf
        by (simp add: preserve_newline_style_def transcode_newlines_def replace_lf_crlf to_lf_plain)
          (simp add: to_lf_def classify_newlines_def classify_go_to_crlf replace_crlf_lf)
    next
      case Crlf
      with assms(2) obtain l where l: "incoming = to_crlf l" "to_lf incoming = l" "CR \<notin> set l"
        using crlf_text by blast
      moreover have "LF \<in> set l"
        using assms(2) Crlf l by (auto simp: classify_newlines_def classify_go_to_crlf split: if_splits)
      moreover from Crlf differ have "target = Lf" by (cases target) auto
      ultimately show ?thesis
        using assms Crlf
        by (simp add: preserve_newline_style_def transcode_newlines_def to_lf_plain classify_plain replace_crlf_lf)
    qed
  qed
  then show "classify_newlines (preserve_newline_style existing incoming) = Uniform target"
    and "to_lf (preserve_newline_style existing incoming) = to_lf incoming" by blast+
qed

text \<open>A cut never panics and never exceeds its bound, and no longer prefix fits.\<close>

lemma char_boundary_below_props:
  "char_boundary_below s n \<le> n \<and> byte_split (char_boundary_below s n) s \<noteq> None \<and>
     (\<forall>m. byte_split m s \<noteq> None \<longrightarrow> m \<le> n \<longrightarrow> m \<le> char_boundary_below s n)"
proof (induction n)
  case 0
  have "byte_split 0 s \<noteq> None" by (cases s) auto
  then show ?case by simp
next
  case (Suc n)
  then show ?case by (auto simp: le_Suc_eq)
qed

lemma truncation_is_the_longest_prefix:
  obtains p where "truncate_utf8 s n = Some p" "prefix p s" "utf8_len p \<le> n"
    "\<And>q. prefix q s \<Longrightarrow> utf8_len q \<le> n \<Longrightarrow> prefix q p"
proof (cases "utf8_len s \<le> n")
  case True
  then show ?thesis using that [of s] by (simp add: truncate_utf8_def)
next
  case False
  let ?e = "char_boundary_below s n"
  note cb = char_boundary_below_props [of s n]
  then obtain p b where split: "byte_split ?e s = Some (p, b)" by (cases "byte_split ?e s") auto
  from byte_split_Some [OF split] have s: "s = p @ b" and len: "utf8_len p = ?e" by auto
  show ?thesis
  proof (rule that [of p])
    show "truncate_utf8 s n = Some p" using False split by (simp add: truncate_utf8_def)
    show "prefix p s" using s by simp
    show "utf8_len p \<le> n" using len cb by simp
    fix q assume q: "prefix q s" "utf8_len q \<le> n"
    then obtain r where "s = q @ r" by (auto elim: prefixE)
    then have "byte_split (utf8_len q) s \<noteq> None" by (simp add: byte_split_front)
    with cb q(2) have shorter: "utf8_len q \<le> utf8_len p" by (simp add: len)
    show "prefix q p"
    proof (rule ccontr)
      assume "\<not> prefix q p"
      with q(1) s have "strict_prefix p q" by (metis prefixI prefix_order.le_less prefix_same_cases)
      then obtain c t where "q = p @ c # t" by (auto elim: strict_prefixE')
      then have "utf8_len p < utf8_len q" by (simp add: utf8_len_def utf8_width_def)
      with shorter show False by simp
    qed
  qed
qed

text \<open>An exact match without a line end wins before the line ends are looked at: a replacement that brings LF line
  ends into a file with CRLF line ends leaves it with both.\<close>

lemma lf_replacement_mixes_line_ends:
  "map_sum id (\<lambda>e. classify_newlines (le_content e))
     (apply_line_ending_edit (''a'' @ [CR, LF] @ ''b'') ''b'' (''b'' @ [LF] @ ''c'') False) = Inr Unsafe"
  by code_simp

subsection \<open>The properties\<close>

text \<open>An edit of a Windows file is the edit of its Unix form: when every line of the file ends in CRLF, the
  text to replace is given with LF line ends and the new text has no mixed line ends, the edit fails exactly as the
  edit of the LF form of the file fails, with the same count of matches, and otherwise its result is the LF result
  with every line end written as CRLF.\<close>

theorem windows_edit_is_unix_edit:
  assumes "classify_newlines content = Uniform Crlf"
    and "classify_newlines old = Uniform Lf"
    and "classify_newlines new \<noteq> Unsafe"
  shows "apply_line_ending_edit content old new replace_all =
    map_sum id (\<lambda>e. e\<lparr>le_content := to_crlf (le_content e)\<rparr>)
      (apply_line_ending_edit (to_lf content) old (to_lf new) replace_all)"
proof -
  obtain l where l: "content = to_crlf l" "to_lf content = l" "CR \<notin> set l" using assms(1) by (rule crlf_text)
  have "CR \<notin> set old" using assms(2) no_cr by blast
  moreover have "old \<noteq> []" using assms(2) by (auto simp: classify_newlines_def)
  ultimately show ?thesis
    unfolding windows_edit [OF l(1) assms(1) l(2) assms(2,3)] l(2)
    by (simp add: plain_edit l(3) Let_def)
qed

theorem windows_edit_is_unix_edit_witness:
  "apply_line_ending_edit (''a'' @ [CR, LF] @ ''b'' @ [CR, LF] @ ''c'') (''a'' @ [LF] @ ''b'') (''x'' @ [LF] @ ''y'' @ [LF]) False =
   Inr \<lparr>le_content = ''x'' @ [CR, LF] @ ''y'' @ [CR, LF, CR, LF] @ ''c'', le_count = 1\<rparr>"
proof -
  have "apply_line_ending_edit (''a'' @ [CR, LF] @ ''b'' @ [CR, LF] @ ''c'') (''a'' @ [LF] @ ''b'') (''x'' @ [LF] @ ''y'' @ [LF]) False =
    map_sum id (\<lambda>e. e\<lparr>le_content := to_crlf (le_content e)\<rparr>)
      (apply_line_ending_edit (to_lf (''a'' @ [CR, LF] @ ''b'' @ [CR, LF] @ ''c'')) (''a'' @ [LF] @ ''b'')
        (to_lf (''x'' @ [LF] @ ''y'' @ [LF])) False)"
    by (rule windows_edit_is_unix_edit) (simp_all add: classify_newlines_def)
  also have "\<dots> = Inr \<lparr>le_content = ''x'' @ [CR, LF] @ ''y'' @ [CR, LF, CR, LF] @ ''c'', le_count = 1\<rparr>"
    by code_simp
  finally show ?thesis .
qed

end
