(* ===== verification/ExecutionPlans.thy ===== *)
theory ExecutionPlans
  imports Prelude
begin

section \<open>Execution plans\<close>

text \<open>
  \<^verbatim>\<open>core/src/planning/mod.rs\<close>: tasks, their status and priority, and the execution plan with its merge of
  replayed notifications, its ready steps and its test for a deadlock.  Left out are the texts for prompts and
  products, the identity digest, and the progress and the goal tracker, which are floating-point numbers and
  timestamps.
\<close>

subsection \<open>Status and priority\<close>

datatype task_status = Pending | InProgress | Completed | Failed | Skipped | Cancelled

fun print_status :: "task_status \<Rightarrow> str" where
  "print_status Pending = ''pending''"
| "print_status InProgress = ''in_progress''"
| "print_status Completed = ''completed''"
| "print_status Failed = ''failed''"
| "print_status Skipped = ''skipped''"
| "print_status Cancelled = ''cancelled''"

definition status_from_str :: "str \<Rightarrow> str + task_status" where
  "status_from_str s =
     (let l = to_lowercase s in
      if l = ''pending'' then Inr Pending
      else if l = ''in_progress'' \<or> l = ''inprogress'' then Inr InProgress
      else if l = ''completed'' \<or> l = ''done'' then Inr Completed
      else if l = ''failed'' then Inr Failed
      else if l = ''skipped'' then Inr Skipped
      else if l = ''cancelled'' \<or> l = ''canceled'' then Inr Cancelled
      else Inl l)"

definition is_active :: "task_status \<Rightarrow> bool" where
  "is_active s \<longleftrightarrow> s = Pending \<or> s = InProgress"

datatype step_priority = High | Medium | Low

fun print_step_priority :: "step_priority \<Rightarrow> str" where
  "print_step_priority High = ''high''"
| "print_step_priority Medium = ''medium''"
| "print_step_priority Low = ''low''"

definition step_priority_from_str :: "str \<Rightarrow> str + step_priority" where
  "step_priority_from_str s =
     (let l = to_lowercase s in
      if l \<in> set [''high'', ''h'', ''1''] then Inr High
      else if l \<in> set [''medium'', ''med'', ''m'', ''2''] then Inr Medium
      else if l \<in> set [''low'', ''l'', ''3''] then Inr Low
      else Inl l)"

subsection \<open>Tasks and plans\<close>

record task =
  tk_id :: str
  tk_content :: str
  tk_status :: task_status
  tk_priority :: step_priority
  tk_tool :: "str option"
  tk_dependencies :: "str list"
  tk_success_criteria :: "str option"

definition new_task :: "str \<Rightarrow> str \<Rightarrow> task" where
  "new_task i content =
     \<lparr>tk_id = i, tk_content = content, tk_status = Pending, tk_priority = Medium, tk_tool = None,
      tk_dependencies = [], tk_success_criteria = None\<rparr>"

datatype complexity = Simple | MediumComplexity | Complex | VeryComplex

record execution_plan =
  pl_goal :: str
  pl_execution_context :: "str option"
  pl_steps :: "task list"
  pl_complexity :: complexity
  pl_required_tools :: "str list"
  pl_estimated_steps :: nat

definition plan_new :: "str \<Rightarrow> complexity \<Rightarrow> execution_plan" where
  "plan_new goal c =
     \<lparr>pl_goal = goal, pl_execution_context = None, pl_steps = [], pl_complexity = c, pl_required_tools = [],
      pl_estimated_steps = 0\<rparr>"

definition wire_goal :: "execution_plan \<Rightarrow> str" where
  "wire_goal p =
     (case pl_execution_context p of
        None \<Rightarrow> pl_goal p
      | Some text \<Rightarrow> if trim text = [] then pl_goal p else trim text)"

definition add_step :: "task \<Rightarrow> execution_plan \<Rightarrow> execution_plan" where
  "add_step step p =
     (let steps = pl_steps p @ [step] in p\<lparr>pl_steps := steps, pl_estimated_steps := length steps\<rparr>)"

definition add_required_tool :: "str \<Rightarrow> execution_plan \<Rightarrow> execution_plan" where
  "add_required_tool tool p =
     (if tool \<in> set (pl_required_tools p) then p else p\<lparr>pl_required_tools := pl_required_tools p @ [tool]\<rparr>)"

definition merge_status :: "task_status \<Rightarrow> task_status \<Rightarrow> task_status" where
  "merge_status current incoming =
     (if \<not> is_active current then current
      else if current = InProgress \<and> incoming = Pending then current
      else incoming)"

text \<open>The first step with an id is changed in place, as \<^verbatim>\<open>iter_mut().find\<close> does.\<close>

fun update_first :: "(task \<Rightarrow> bool) \<Rightarrow> (task \<Rightarrow> task) \<Rightarrow> task list \<Rightarrow> task list" where
  "update_first P f [] = []"
| "update_first P f (t # ts) = (if P t then f t # ts else t # update_first P f ts)"

definition merge_task :: "task \<Rightarrow> task \<Rightarrow> task" where
  "merge_task step existing =
     existing\<lparr>tk_status := merge_status (tk_status existing) (tk_status step), tk_content := tk_content step,
       tk_priority := tk_priority step, tk_tool := tk_tool step, tk_dependencies := tk_dependencies step,
       tk_success_criteria := tk_success_criteria step\<rparr>"

definition upsert_step :: "task \<Rightarrow> execution_plan \<Rightarrow> execution_plan" where
  "upsert_step step p =
     (let steps = (if list_ex (\<lambda>t. tk_id t = tk_id step) (pl_steps p)
                   then update_first (\<lambda>t. tk_id t = tk_id step) (merge_task step) (pl_steps p)
                   else pl_steps p @ [step]);
          p = p\<lparr>pl_steps := steps, pl_estimated_steps := length steps\<rparr>
      in (case tk_tool step of None \<Rightarrow> p | Some tool \<Rightarrow> add_required_tool tool p))"

definition dependency_met :: "task list \<Rightarrow> str \<Rightarrow> bool" where
  "dependency_met steps i =
     (case find (\<lambda>t. tk_id t = i) steps of None \<Rightarrow> False | Some t \<Rightarrow> tk_status t = Completed)"

definition get_ready_steps :: "execution_plan \<Rightarrow> task list" where
  "get_ready_steps p =
     filter (\<lambda>t. tk_status t = Pending \<and> list_all (dependency_met (pl_steps p)) (tk_dependencies t)) (pl_steps p)"

definition mark_status :: "str \<Rightarrow> task_status \<Rightarrow> execution_plan \<Rightarrow> execution_plan" where
  "mark_status i s p =
     p\<lparr>pl_steps := update_first (\<lambda>t. tk_id t = i) (\<lambda>t. t\<lparr>tk_status := merge_status (tk_status t) s\<rparr>) (pl_steps p)\<rparr>"

definition pending_count :: "execution_plan \<Rightarrow> nat" where
  "pending_count p = length (filter (\<lambda>t. tk_status t = Pending) (pl_steps p))"

definition has_deadlock :: "execution_plan \<Rightarrow> bool" where
  "has_deadlock p \<longleftrightarrow> pending_count p > 0 \<and> get_ready_steps p = []"

end
