(* ===== verification/PlanProperties.thy ===== *)
theory PlanProperties
  imports ExecutionPlans
begin

section \<open>Properties of execution plans\<close>

text \<open>
  Notifications about a plan may be delivered more than once and out of order.  What they change is
  monotone in the life of a step.  A plan without a ready step is stuck for a reason that can be named.
\<close>

subsection \<open>The life of a step\<close>

datatype notification = Upsert task | Mark str task_status

fun notify :: "notification \<Rightarrow> execution_plan \<Rightarrow> execution_plan" where
  "notify (Upsert step) p = upsert_step step p"
| "notify (Mark i s) p = mark_status i s p"

text \<open>The status that a lookup of an id sees.\<close>

definition step_status :: "execution_plan \<Rightarrow> str \<Rightarrow> task_status option" where
  "step_status p i = map_option tk_status (find (\<lambda>t. tk_id t = i) (pl_steps p))"

fun stage :: "task_status \<Rightarrow> nat" where
  "stage Pending = 0"
| "stage InProgress = 1"
| "stage _ = 2"

lemma merge_status_stage: "stage current \<le> stage (merge_status current incoming)"
  by (cases current; cases incoming) (simp_all add: merge_status_def is_active_def)

lemma merge_status_final: "\<not> is_active current \<Longrightarrow> merge_status current incoming = current"
  by (simp add: merge_status_def)

lemma merge_status_idem: "merge_status (merge_status current incoming) incoming = merge_status current incoming"
  by (cases current; cases incoming) (simp_all add: merge_status_def is_active_def)

lemma find_update_first:
  assumes "\<And>t. tk_id (f t) = tk_id t"
  shows "find (\<lambda>t. tk_id t = i) (update_first (\<lambda>t. tk_id t = j) f ts) =
    (if i = j then map_option f (find (\<lambda>t. tk_id t = i) ts) else find (\<lambda>t. tk_id t = i) ts)"
  by (induction ts) (use assms in auto)

lemma find_append: "find P (xs @ ys) = (case find P xs of None \<Rightarrow> find P ys | Some x \<Rightarrow> Some x)"
  by (induction xs) auto

lemma list_ex_find: "list_ex P xs \<longleftrightarrow> find P xs \<noteq> None"
  by (auto simp: find_None_iff list_ex_iff)

lemma add_required_tool_steps [simp]: "pl_steps (add_required_tool tool p) = pl_steps p"
  by (simp add: add_required_tool_def)

lemma merge_task_simps [simp]:
  "tk_id (merge_task s t) = tk_id t" "tk_status (merge_task s t) = merge_status (tk_status t) (tk_status s)"
  by (simp_all add: merge_task_def)

lemma upsert_steps:
  "pl_steps (upsert_step s p) = (if list_ex (\<lambda>t. tk_id t = tk_id s) (pl_steps p)
     then update_first (\<lambda>t. tk_id t = tk_id s) (merge_task s) (pl_steps p) else pl_steps p @ [s])"
  by (simp add: upsert_step_def Let_def split: option.split)

lemma upsert_status:
  "step_status (upsert_step s p) i = (if i = tk_id s
     then Some (case step_status p i of None \<Rightarrow> tk_status s | Some c \<Rightarrow> merge_status c (tk_status s)) else step_status p i)"
proof (cases "find (\<lambda>t. tk_id t = tk_id s) (pl_steps p)")
  case None
  then show ?thesis by (auto simp: step_status_def upsert_steps list_ex_find find_append split: option.split)
next
  case (Some t)
  then show ?thesis by (simp add: step_status_def upsert_steps list_ex_find find_update_first)
qed

lemma mark_status_status:
  "step_status (mark_status j s p) i = (if i = j then map_option (\<lambda>c. merge_status c s) (step_status p i) else step_status p i)"
proof -
  have "find (\<lambda>t. tk_id t = i) (update_first (\<lambda>t. tk_id t = j) (\<lambda>t. t\<lparr>tk_status := merge_status (tk_status t) s\<rparr>) (pl_steps p)) =
    (if i = j then map_option (\<lambda>t. t\<lparr>tk_status := merge_status (tk_status t) s\<rparr>) (find (\<lambda>t. tk_id t = i) (pl_steps p))
     else find (\<lambda>t. tk_id t = i) (pl_steps p))" by (rule find_update_first) simp
  then show ?thesis by (simp add: step_status_def mark_status_def option.map_comp comp_def)
qed

lemma notify_status:
  assumes "step_status p i = Some c"
  shows "\<exists>c'. step_status (notify n p) i = Some c' \<and> stage c \<le> stage c' \<and> (\<not> is_active c \<longrightarrow> c' = c)"
  using assms by (cases n) (auto simp: upsert_status mark_status_status merge_status_stage merge_status_final)

text \<open>Whatever notifications arrive, in whatever order and however often, a step never moves back in its life, and a
  step that completed, failed, was skipped or was cancelled keeps that status for good.\<close>

theorem step_never_moves_back:
  assumes "step_status p i = Some c"
  shows "\<exists>c'. step_status (fold notify ns p) i = Some c' \<and> stage c \<le> stage c' \<and> (\<not> is_active c \<longrightarrow> c' = c)"
  using assms
proof (induction ns arbitrary: p c)
  case (Cons n ns)
  from notify_status [OF Cons.prems] obtain c1 where c1: "step_status (notify n p) i = Some c1" "stage c \<le> stage c1"
    "\<not> is_active c \<longrightarrow> c1 = c" by blast
  from Cons.IH [OF c1(1)] obtain c2 where "step_status (fold notify ns (notify n p)) i = Some c2" "stage c1 \<le> stage c2"
    "\<not> is_active c1 \<longrightarrow> c2 = c1" by blast
  with c1(2,3) show ?case by auto
qed simp

definition demo_plan :: execution_plan where
  "demo_plan = (plan_new ''ship'' Simple)\<lparr>pl_steps := [(new_task ''a'' ''build'')\<lparr>tk_status := Completed\<rparr>,
     (new_task ''b'' ''test'')\<lparr>tk_dependencies := [''a'']\<rparr>], pl_estimated_steps := 2\<rparr>"

theorem step_never_moves_back_witness:
  "step_status (fold notify [Mark ''a'' InProgress, Upsert (new_task ''a'' ''build'')] demo_plan) ''a'' = Some Completed"
proof -
  have "step_status demo_plan ''a'' = Some Completed" by code_simp
  from step_never_moves_back [OF this, of "[Mark ''a'' InProgress, Upsert (new_task ''a'' ''build'')]"] show ?thesis
    by (auto simp: is_active_def simp del: fold_simps notify.simps)
qed

text \<open>A notification that is delivered twice in a row changes nothing the second time.\<close>

lemma update_first_idem:
  assumes "\<And>t. f (f t) = f t" "\<And>t. tk_id (f t) = tk_id t"
  shows "update_first (\<lambda>t. tk_id t = i) f (update_first (\<lambda>t. tk_id t = i) f ts) = update_first (\<lambda>t. tk_id t = i) f ts"
  by (induction ts) (use assms in auto)

lemma merge_task_idem: "merge_task s (merge_task s t) = merge_task s t"
  by (simp add: merge_task_def merge_status_idem)

lemma merge_task_self: "merge_task s s = s"
  by (cases s) (simp add: merge_task_def merge_status_def)

lemma list_ex_update_first:
  "(\<And>t. tk_id (f t) = tk_id t) \<Longrightarrow> list_ex (\<lambda>t. tk_id t = i) (update_first P f ts) = list_ex (\<lambda>t. tk_id t = i) ts"
  by (induction ts) auto

lemma update_first_append: "\<not> list_ex P xs \<Longrightarrow> P y \<Longrightarrow> update_first P f (xs @ [y]) = xs @ [f y]"
  by (induction xs) auto

lemma upsert_twice_steps: "pl_steps (upsert_step s (upsert_step s p)) = pl_steps (upsert_step s p)"
proof (cases "list_ex (\<lambda>t. tk_id t = tk_id s) (pl_steps p)")
  case True
  then show ?thesis by (simp add: upsert_steps list_ex_update_first update_first_idem merge_task_idem)
next
  case False
  then show ?thesis by (simp add: upsert_steps update_first_append merge_task_self)
qed

subsection \<open>Deadlocks\<close>

lemma ready_iff:
  "t \<in> set (get_ready_steps p) \<longleftrightarrow> t \<in> set (pl_steps p) \<and> tk_status t = Pending \<and>
     (\<forall>d \<in> set (tk_dependencies t). step_status p d = Some Completed)"
proof -
  have "dependency_met (pl_steps p) d \<longleftrightarrow> step_status p d = Some Completed" for d
    by (auto simp: dependency_met_def step_status_def split: option.splits)
  then show ?thesis by (auto simp: get_ready_steps_def list_all_iff)
qed

lemma find_distinct: "distinct (map tk_id ts) \<Longrightarrow> t \<in> set ts \<Longrightarrow> find (\<lambda>x. tk_id x = tk_id t) ts = Some t"
  by (induction ts) force+

text \<open>The deadlock test is right: it holds exactly if some step is pending and each pending step has a dependency that
  is not completed; and in a plan with distinct ids whose dependencies are not circular, a deadlock has a
  nameable cause: some pending step depends on a step that is missing or in progress, failed, skipped or cancelled.\<close>

theorem deadlock_has_a_cause:
  assumes "distinct (map tk_id (pl_steps p))"
    and "\<forall>t \<in> set (pl_steps p). \<forall>d \<in> set (tk_dependencies t). (rank :: str \<Rightarrow> nat) d < rank (tk_id t)"
  shows "(has_deadlock p \<longleftrightarrow> (\<exists>t \<in> set (pl_steps p). tk_status t = Pending) \<and>
      (\<forall>t \<in> set (pl_steps p). tk_status t = Pending \<longrightarrow> (\<exists>d \<in> set (tk_dependencies t). step_status p d \<noteq> Some Completed))) \<and>
    (has_deadlock p \<longrightarrow> (\<exists>t \<in> set (pl_steps p). tk_status t = Pending \<and>
      (\<exists>d \<in> set (tk_dependencies t). step_status p d \<notin> {Some Pending, Some Completed})))"
proof -
  have pend: "pending_count p > 0 \<longleftrightarrow> (\<exists>t \<in> set (pl_steps p). tk_status t = Pending)"
    by (auto simp: pending_count_def filter_empty_conv)
  have ready: "get_ready_steps p = [] \<longleftrightarrow> (\<forall>t. t \<notin> set (get_ready_steps p))" by (cases "get_ready_steps p") auto
  have iff: "has_deadlock p \<longleftrightarrow> (\<exists>t \<in> set (pl_steps p). tk_status t = Pending) \<and>
      (\<forall>t \<in> set (pl_steps p). tk_status t = Pending \<longrightarrow> (\<exists>d \<in> set (tk_dependencies t). step_status p d \<noteq> Some Completed))"
    unfolding has_deadlock_def pend ready ready_iff by blast
  moreover have "\<exists>t \<in> set (pl_steps p). tk_status t = Pending \<and>
      (\<exists>d \<in> set (tk_dependencies t). step_status p d \<notin> {Some Pending, Some Completed})" if "has_deadlock p"
  proof -
    let ?P = "\<lambda>t. t \<in> set (pl_steps p) \<and> tk_status t = Pending"
    from that iff have "\<exists>t. ?P t" by blast
    then obtain t where t: "?P t" and least: "\<And>u. ?P u \<Longrightarrow> rank (tk_id t) \<le> rank (tk_id u)"
      using ex_has_least_nat [of ?P _ "\<lambda>t. rank (tk_id t)"] by blast
    from that iff t obtain d where d: "d \<in> set (tk_dependencies t)" "step_status p d \<noteq> Some Completed" by blast
    have "step_status p d \<noteq> Some Pending"
    proof
      assume "step_status p d = Some Pending"
      then obtain u where u: "find (\<lambda>x. tk_id x = d) (pl_steps p) = Some u" "tk_status u = Pending" by (auto simp: step_status_def)
      then have "u \<in> set (pl_steps p)" "tk_id u = d" by (auto simp: find_Some_iff)
      with least [of u] u assms(2) t d(1) show False by fastforce
    qed
    with d t show ?thesis by blast
  qed
  ultimately show ?thesis by blast
qed

definition demo_stuck :: execution_plan where
  "demo_stuck = (plan_new ''ship'' Simple)\<lparr>pl_steps := [(new_task ''a'' ''build'')\<lparr>tk_status := Failed\<rparr>,
     (new_task ''b'' ''test'')\<lparr>tk_dependencies := [''a'']\<rparr>], pl_estimated_steps := 2\<rparr>"

theorem deadlock_has_a_cause_witness:
  "has_deadlock demo_stuck \<and> (\<exists>t \<in> set (pl_steps demo_stuck). tk_status t = Pending \<and>
     (\<exists>d \<in> set (tk_dependencies t). step_status demo_stuck d \<notin> {Some Pending, Some Completed}))"
proof -
  let ?rank = "\<lambda>i. if i = ''b'' then 1 else 0 :: nat"
  have "distinct (map tk_id (pl_steps demo_stuck))" by code_simp
  moreover have "\<forall>t \<in> set (pl_steps demo_stuck). \<forall>d \<in> set (tk_dependencies t). ?rank d < ?rank (tk_id t)"
    by (simp add: demo_stuck_def new_task_def)
  moreover have "has_deadlock demo_stuck" by code_simp
  ultimately show ?thesis using deadlock_has_a_cause [of demo_stuck ?rank] by blast
qed

end
