(* ===== verification/WriteClaims.thy ===== *)
theory WriteClaims
  imports WorkspacePaths "HOL-Library.AList"
begin

section \<open>External observations and write claims\<close>

text \<open>
  \<^verbatim>\<open>core/src/external_observation.rs\<close> on a Unix host.  The process-wide table of dirty paths is an association
  list with distinct keys, whose order stands for the unspecified order of the hash map; the mutex around it
  makes every operation one step.  A \<^verbatim>\<open>PathBuf\<close> is the list of its components and the file system is the
  parameter of \<open>WorkspacePaths\<close>.
\<close>

subsection \<open>Observations\<close>

datatype required_action = NoAction | WorkspaceChange | Address

record external_observation =
  eo_schema :: str
  eo_kind :: str
  eo_subject :: str
  eo_digest :: str
  eo_payload :: str
  eo_source_revision :: "str option"
  eo_required_action :: required_action

definition EXTERNAL_OBSERVATION_SCHEMA :: str where
  "EXTERNAL_OBSERVATION_SCHEMA = ''a3s.code.external-observation.v1''"

definition observation_new :: "str \<Rightarrow> str \<Rightarrow> str \<Rightarrow> str \<Rightarrow> required_action \<Rightarrow> external_observation option" where
  "observation_new kind subject digest payload action =
     (if trim digest = [] \<or> utf8_len payload > 8192 then None
      else Some \<lparr>eo_schema = EXTERNAL_OBSERVATION_SCHEMA, eo_kind = kind, eo_subject = subject, eo_digest = digest,
        eo_payload = payload, eo_source_revision = None, eo_required_action = action\<rparr>)"

text \<open>A waiver is the digest of the effect it waives, the only field that is read.\<close>

definition still_open :: "external_observation list \<Rightarrow> str list \<Rightarrow> str \<Rightarrow> external_observation list" where
  "still_open observations waivers effect_digest =
     (let newest = fold (\<lambda>ob m. AList.update (eo_subject ob) ob m) observations []
      in filter (\<lambda>ob. \<not> list_ex (\<lambda>w. w = eo_digest ob \<or> (effect_digest \<noteq> [] \<and> w = effect_digest)) waivers)
           (filter (\<lambda>ob. eo_required_action ob \<noteq> NoAction) (map snd newest)))"

definition blocks_success :: "external_observation list \<Rightarrow> bool" where
  "blocks_success obs = list_ex (\<lambda>ob. eo_required_action ob = WorkspaceChange) obs"

subsection \<open>The identity of a claimed path\<close>

datatype claim_error = NoSession | OutsideWorkspace | NamesNoFile | OwnedBy path str

type_synonym claims = "(path \<times> str) list"

definition canonical_root :: "file_system \<Rightarrow> path \<Rightarrow> path" where
  "canonical_root fs workspace = (case fs_canonicalize fs workspace of Some c \<Rightarrow> c | None \<Rightarrow> workspace)"

fun lexical_prefix :: "path \<Rightarrow> path \<Rightarrow> path" where
  "lexical_prefix [] out = out"
| "lexical_prefix (RootDir # cs) out = lexical_prefix cs [RootDir]"
| "lexical_prefix (CurDir # cs) out = lexical_prefix cs out"
| "lexical_prefix (Normal s # cs) out = lexical_prefix cs (out @ [Normal s])"
| "lexical_prefix (ParentDir # cs) out = lexical_prefix cs (case parent out of None \<Rightarrow> out | Some p \<Rightarrow> p)"

text \<open>The search of the deepest existing ancestor is the loop of \<open>deepest_existing\<close>.\<close>

definition normalize_existing_prefix :: "file_system \<Rightarrow> path \<Rightarrow> path" where
  "normalize_existing_prefix fs p =
     (let lexical = lexical_prefix p [] in
      case fs_canonicalize fs lexical of
        Some canonical \<Rightarrow> canonical
      | None \<Rightarrow>
          (case deepest_existing fs lexical [] of
             None \<Rightarrow> lexical
           | Some (current, suffix) \<Rightarrow>
               (case fs_canonicalize fs current of Some c \<Rightarrow> c | None \<Rightarrow> current) @ map Normal (rev suffix)))"

definition absolute_inside_root :: "file_system \<Rightarrow> path \<Rightarrow> path \<Rightarrow> path \<Rightarrow> claim_error + path" where
  "absolute_inside_root fs root workspace raw =
     (case path_strip_prefix raw root of
        Some relative \<Rightarrow> Inr relative
      | None \<Rightarrow>
          (case path_strip_prefix raw workspace of
             Some relative \<Rightarrow> Inr relative
           | None \<Rightarrow>
               (case path_strip_prefix (normalize_existing_prefix fs raw) root of
                  Some relative \<Rightarrow> Inr relative
                | None \<Rightarrow> Inl OutsideWorkspace)))"

fun claim_parts :: "path \<Rightarrow> str list \<Rightarrow> claim_error + str list" where
  "claim_parts [] parts = Inr parts"
| "claim_parts (Normal s # cs) parts = claim_parts cs (parts @ [s])"
| "claim_parts (CurDir # cs) parts = claim_parts cs parts"
| "claim_parts (ParentDir # cs) parts = (if parts = [] then Inl OutsideWorkspace else claim_parts cs (butlast parts))"
| "claim_parts (RootDir # cs) parts = Inl OutsideWorkspace"

definition claim_identity :: "file_system \<Rightarrow> path \<Rightarrow> str \<Rightarrow> claim_error + path" where
  "claim_identity fs workspace relative =
     (let root = canonical_root fs workspace; raw = path_components relative
      in bind_e (if is_absolute raw then absolute_inside_root fs root workspace raw else Inr raw) (\<lambda>under_root.
         bind_e (claim_parts under_root []) (\<lambda>parts.
         if parts = [] then Inl NamesNoFile else Inr (root @ map Normal parts))))"

text \<open>\<^verbatim>\<open>Path::extension\<close>: what follows the last dot of the file name, unless the dot starts the name.\<close>

definition extension :: "path \<Rightarrow> str option" where
  "extension p =
     (case file_name p of
        None \<Rightarrow> None
      | Some n \<Rightarrow>
          (let parts = split_on CHR ''.'' n
           in if length parts < 2 \<or> butlast parts = [[]] then None else Some (last parts)))"

definition is_interpreter_build_artifact :: "str \<Rightarrow> bool" where
  "is_interpreter_build_artifact relative =
     (let p = path_components relative
      in extension p \<in> {Some ''pyc'', Some ''pyo''} \<or> list_ex (\<lambda>c. c = Normal ''__pycache__'') p)"

subsection \<open>Claims\<close>

definition bound_session :: "str option \<Rightarrow> str option" where
  "bound_session session_id = (case session_id of None \<Rightarrow> None | Some i \<Rightarrow> if trim i = [] then None else Some i)"

definition claim_write :: "file_system \<Rightarrow> path \<Rightarrow> str \<Rightarrow> str \<Rightarrow> claims \<Rightarrow> (claim_error + unit) \<times> claims" where
  "claim_write fs workspace session_id relative dirty =
     (if is_interpreter_build_artifact relative then (Inr (), dirty)
      else (case claim_identity fs workspace relative of
          Inl e \<Rightarrow> (Inl e, dirty)
        | Inr p \<Rightarrow>
            (case map_of dirty p of
               Some owner \<Rightarrow> (if owner \<noteq> session_id then Inl (OwnedBy p owner) else Inr (), dirty)
             | None \<Rightarrow> (Inr (), AList.update p session_id dirty))))"

definition claim_bound_write :: "file_system \<Rightarrow> path \<Rightarrow> str option \<Rightarrow> str \<Rightarrow> claims \<Rightarrow> (claim_error + unit) \<times> claims" where
  "claim_bound_write fs workspace session_id relative dirty =
     (case bound_session session_id of
        None \<Rightarrow> (Inl NoSession, dirty)
      | Some session_id \<Rightarrow> claim_write fs workspace session_id relative dirty)"

definition foreign_in :: "path \<Rightarrow> str \<Rightarrow> path \<times> str \<Rightarrow> bool" where
  "foreign_in workspace session_id entry =
     (case entry of (p, owner) \<Rightarrow> owner \<noteq> [] \<and> owner \<noteq> session_id \<and> path_starts_with p workspace)"

definition refuse_foreign_workspace_owner ::
  "file_system \<Rightarrow> path \<Rightarrow> str option \<Rightarrow> claims \<Rightarrow> (claim_error + unit) \<times> claims" where
  "refuse_foreign_workspace_owner fs workspace session_id dirty =
     (let session_id = trim (case session_id of None \<Rightarrow> [] | Some i \<Rightarrow> i);
          workspace = canonical_root fs workspace;
          gone = map fst (filter (\<lambda>e. foreign_in workspace session_id e \<and> \<not> fs_exists fs (fst e)) dirty);
          dirty = fold AList.delete gone dirty
      in (case find (foreign_in workspace session_id) dirty of
            Some (p, owner) \<Rightarrow> (Inl (OwnedBy p owner), dirty)
          | None \<Rightarrow> (Inr (), dirty)))"

definition foreign_workspace_claim ::
  "file_system \<Rightarrow> path \<Rightarrow> str option \<Rightarrow> claims \<Rightarrow> (claim_error + unit) \<times> claims" where
  "foreign_workspace_claim fs workspace session_id dirty =
     (case bound_session session_id of
        None \<Rightarrow> (Inl NoSession, dirty)
      | Some session_id \<Rightarrow> refuse_foreign_workspace_owner fs workspace (Some session_id) dirty)"

definition session_owns_write :: "file_system \<Rightarrow> path \<Rightarrow> str \<Rightarrow> str \<Rightarrow> claims \<Rightarrow> bool" where
  "session_owns_write fs workspace session_id relative dirty =
     (case claim_identity fs workspace relative of Inl _ \<Rightarrow> False | Inr p \<Rightarrow> map_of dirty p = Some session_id)"

definition adopt_write_claim ::
  "file_system \<Rightarrow> path \<Rightarrow> str \<Rightarrow> str \<Rightarrow> str \<Rightarrow> claims \<Rightarrow> (claim_error + unit) \<times> claims" where
  "adopt_write_claim fs workspace from_session to_session relative dirty =
     (let to_session = trim to_session in
      if to_session = [] then (Inl NoSession, dirty)
      else (case claim_identity fs workspace relative of
          Inl e \<Rightarrow> (Inl e, dirty)
        | Inr p \<Rightarrow>
            (case map_of dirty p of
               Some owner \<Rightarrow>
                 if owner = to_session \<or> owner = from_session then (Inr (), AList.update p to_session dirty)
                 else (Inl (OwnedBy p owner), dirty)
             | None \<Rightarrow> (Inr (), AList.update p to_session dirty))))"

definition release_write_claim :: "file_system \<Rightarrow> path \<Rightarrow> str \<Rightarrow> str \<Rightarrow> claims \<Rightarrow> claims" where
  "release_write_claim fs workspace session_id relative dirty =
     (case claim_identity fs workspace relative of
        Inl _ \<Rightarrow> dirty
      | Inr p \<Rightarrow> if map_of dirty p = Some session_id then AList.delete p dirty else dirty)"

definition release_session :: "str \<Rightarrow> claims \<Rightarrow> claims" where
  "release_session session_id dirty = filter (\<lambda>(p, owner). owner \<noteq> session_id) dirty"

definition settle_child_write_claims :: "file_system \<Rightarrow> path \<Rightarrow> str option \<Rightarrow> str \<Rightarrow> str list \<Rightarrow> claims \<Rightarrow> claims" where
  "settle_child_write_claims fs workspace parent_session child_session paths dirty =
     (case Option.bind parent_session (\<lambda>p. if trim p = [] then None else Some (trim p)) of
        None \<Rightarrow> release_session child_session dirty
      | Some parent_id \<Rightarrow>
          release_session child_session
            (fold (\<lambda>p d. snd (adopt_write_claim fs workspace child_session parent_id p d)) paths dirty))"

end
