(* ===== verification/WorkspaceBackends.thy ===== *)
theory WorkspaceBackends
  imports WorkspacePaths "HOL-Library.AList"
begin

section \<open>Workspaces\<close>

text \<open>
  What the file tools see of a workspace: the virtual path resolver of \<^verbatim>\<open>core/src/workspace/path.rs\<close>, the errors
  of \<^verbatim>\<open>error.rs\<close>, the traits \<^verbatim>\<open>WorkspaceFileSystem\<close> and \<^verbatim>\<open>WorkspaceFileSystemExt\<close> of \<^verbatim>\<open>mod.rs\<close> as a record of
  operations on a state, \<^verbatim>\<open>read_for_edit\<close> and \<^verbatim>\<open>write_for_edit\<close> of \<^verbatim>\<open>services.rs\<close>, and the in-memory backend of
  \<^verbatim>\<open>conformance.rs\<close>, the reference against which the contract of a backend is tested.  A timeout of an operation is one of the errors a backend may answer.
\<close>

subsection \<open>Paths\<close>

definition from_normalized :: "str \<Rightarrow> str" where
  "from_normalized p =
     (let p = trim_matches (\<lambda>c. c = CHR ''/'') p
      in if p = [] \<or> p = ''.'' then ''.'' else replace_char CHR 0x5C CHR ''/'' p)"

definition is_root :: "str \<Rightarrow> bool" where
  "is_root p \<longleftrightarrow> p = ''.''"

definition default_path_input :: "str \<Rightarrow> str" where
  "default_path_input input = (if trim input = [] then ''.'' else trim input)"

definition has_windows_path_prefix :: "str \<Rightarrow> bool" where
  "has_windows_path_prefix input \<longleftrightarrow>
     (case input of a # b # _ \<Rightarrow> is_ascii_alphabetic a \<and> b = CHR '':'' | _ \<Rightarrow> False) \<or>
     starts_with [CHR 0x5C, CHR 0x5C] input \<or> starts_with ''//'' input"

datatype path_error = AbsolutePath | EscapesWorkspace

fun normalize_relative_path :: "path \<Rightarrow> path \<Rightarrow> path_error + path" where
  "normalize_relative_path [] out = Inr out"
| "normalize_relative_path (CurDir # cs) out = normalize_relative_path cs out"
| "normalize_relative_path (Normal s # cs) out = normalize_relative_path cs (out @ [Normal s])"
| "normalize_relative_path (ParentDir # cs) out =
     (case parent out of None \<Rightarrow> Inl EscapesWorkspace | Some p \<Rightarrow> normalize_relative_path cs p)"
| "normalize_relative_path (RootDir # cs) out = Inl AbsolutePath"

definition pathbuf_to_workspace_path :: "path \<Rightarrow> str" where
  "pathbuf_to_workspace_path p = from_normalized (replace_char CHR 0x5C CHR ''/'' (path_text p))"

definition normalize_virtual_path :: "str \<Rightarrow> path_error + str" where
  "normalize_virtual_path input =
     (let input = default_path_input input in
      if has_windows_path_prefix input then Inl AbsolutePath
      else
        let p = path_components (replace_char CHR 0x5C CHR ''/'' input)
        in if is_absolute p then Inl AbsolutePath
           else map_sum id pathbuf_to_workspace_path (normalize_relative_path p []))"

subsection \<open>Errors\<close>

record version_conflict =
  vc_path :: str
  vc_expected :: str
  vc_actual :: "str option"

text \<open>A duration counts nanoseconds.\<close>

datatype workspace_error =
    PathNotFound str
  | VersionConflict version_conflict
  | RemoteGitConflict str str
  | InvalidArgument str
  | TooLarge str int int
  | Timeout str int
  | Unsupported str
  | Backend str

datatype tool_error_kind =
    KVersionConflict str str "str option"
  | KRemoteGitConflict str str
  | KNotFound str
  | KInvalidArgument str
  | KHookDenied str bool "int option"
  | KUnsupported str
  | KTimeout str int
  | KTransport str
  | KCancelled str
  | KPartialFailure nat nat
  | KRateLimited "int option"
  | KTooLarge str int int

fun from_workspace_error :: "workspace_error \<Rightarrow> tool_error_kind option" where
  "from_workspace_error (PathNotFound p) = Some (KNotFound p)"
| "from_workspace_error (VersionConflict c) = Some (KVersionConflict (vc_path c) (vc_expected c) (vc_actual c))"
| "from_workspace_error (RemoteGitConflict c message) = Some (KRemoteGitConflict c message)"
| "from_workspace_error (InvalidArgument message) = Some (KInvalidArgument message)"
| "from_workspace_error (TooLarge p size_bytes max_bytes) = Some (KTooLarge p size_bytes max_bytes)"
| "from_workspace_error (Unsupported message) = Some (KUnsupported message)"
| "from_workspace_error (Timeout op nanos) = Some (KTimeout op (nanos div 1000000 mod 2 ^ 64))"
| "from_workspace_error (Backend _) = None"

subsection \<open>Backends\<close>

record write_outcome =
  wo_bytes :: nat
  wo_lines :: nat

text \<open>A backend works on a state \<open>'w\<close>; \<open>wb_versioned\<close> tells whether it has the compare-and-swap extension.\<close>

record 'w backend =
  wb_normalize :: "str \<Rightarrow> path_error + str"
  wb_read_text :: "'w \<Rightarrow> str \<Rightarrow> workspace_error + str"
  wb_write_text :: "str \<Rightarrow> str \<Rightarrow> 'w \<Rightarrow> (workspace_error + write_outcome) \<times> 'w"
  wb_versioned :: bool
  wb_read_text_with_version :: "'w \<Rightarrow> str \<Rightarrow> workspace_error + str \<times> str"
  wb_write_text_if_version :: "str \<Rightarrow> str \<Rightarrow> str \<Rightarrow> 'w \<Rightarrow> (workspace_error + write_outcome) \<times> 'w"

definition read_for_edit :: "'w backend \<Rightarrow> 'w \<Rightarrow> str \<Rightarrow> workspace_error + str \<times> str option" where
  "read_for_edit B w p =
     (if wb_versioned B then map_sum id (\<lambda>(content, version). (content, Some version)) (wb_read_text_with_version B w p)
      else map_sum id (\<lambda>content. (content, None)) (wb_read_text B w p))"

definition write_for_edit ::
  "'w backend \<Rightarrow> str \<Rightarrow> str \<Rightarrow> str option \<Rightarrow> 'w \<Rightarrow> (workspace_error + write_outcome) \<times> 'w" where
  "write_for_edit B p content expected_version w =
     (case (wb_versioned B, expected_version) of
        (True, Some version) \<Rightarrow> wb_write_text_if_version B p content version w
      | _ \<Rightarrow> wb_write_text B p content w)"

subsection \<open>The in-memory backend\<close>

record memory =
  mem_files :: "(str \<times> str \<times> str) list"
  mem_counter :: nat

definition memory_new :: memory where
  "memory_new = \<lparr>mem_files = [], mem_counter = 0\<rparr>"

definition version_of :: "nat \<Rightarrow> str" where
  "version_of n = ''v'' @ show_nat n"

definition mem_store :: "str \<Rightarrow> str \<Rightarrow> memory \<Rightarrow> memory" where
  "mem_store p content w =
     (let counter = mem_counter w + 1
      in w\<lparr>mem_counter := counter, mem_files := AList.update p (content, version_of counter) (mem_files w)\<rparr>)"

definition mem_read_text :: "memory \<Rightarrow> str \<Rightarrow> workspace_error + str" where
  "mem_read_text w p = (case map_of (mem_files w) p of None \<Rightarrow> Inl (PathNotFound p) | Some (c, v) \<Rightarrow> Inr c)"

definition mem_write_text :: "str \<Rightarrow> str \<Rightarrow> memory \<Rightarrow> (workspace_error + write_outcome) \<times> memory" where
  "mem_write_text p content w =
     (Inr \<lparr>wo_bytes = utf8_len content, wo_lines = lines_count content\<rparr>, mem_store p content w)"

definition mem_read_text_with_version :: "memory \<Rightarrow> str \<Rightarrow> workspace_error + str \<times> str" where
  "mem_read_text_with_version w p =
     (case map_of (mem_files w) p of None \<Rightarrow> Inl (PathNotFound p) | Some e \<Rightarrow> Inr e)"

definition mem_write_text_if_version ::
  "str \<Rightarrow> str \<Rightarrow> str \<Rightarrow> memory \<Rightarrow> (workspace_error + write_outcome) \<times> memory" where
  "mem_write_text_if_version p content expected w =
     (if expected = [] then (Inl (InvalidArgument ''expected_version must not be empty''), w)
      else (case map_of (mem_files w) p of
          None \<Rightarrow> (Inl (PathNotFound p), w)
        | Some (_, actual) \<Rightarrow>
            if actual = expected
            then (Inr \<lparr>wo_bytes = utf8_len content, wo_lines = lines_count content\<rparr>, mem_store p content w)
            else (Inl (VersionConflict \<lparr>vc_path = p, vc_expected = expected, vc_actual = Some actual\<rparr>), w)))"

definition in_memory :: "bool \<Rightarrow> memory backend" where
  "in_memory versioned =
     \<lparr>wb_normalize = normalize_virtual_path, wb_read_text = mem_read_text, wb_write_text = mem_write_text,
      wb_versioned = versioned, wb_read_text_with_version = mem_read_text_with_version,
      wb_write_text_if_version = mem_write_text_if_version\<rparr>"

end
