(* ===== verification/FileTools.thy ===== *)
theory FileTools
  imports WriteClaims WorkspaceBackends UnifiedDiffs TextEdits
begin

section \<open>The tools that write files\<close>

text \<open>
  \<^verbatim>\<open>write\<close>, \<^verbatim>\<open>edit\<close> and \<^verbatim>\<open>patch\<close> of \<^verbatim>\<open>core/src/tools/builtin\<close>.  A call first reads the workspace and works out what
  to write (\<open>edit_prepare\<close>, \<open>patch_prepare\<close>, \<open>append_prepare\<close>, \<open>stage_all\<close>), then claims the path and writes
  (\<open>commit_write\<close>, \<open>commit_overwrite\<close>, \<open>claim_all\<close> and \<open>write_all\<close>): two steps, between which other sessions may
  work.  A claim and the write after it are one step.  An output carries what its message and its metadata are made
  from, not the text.
\<close>

datatype tool_failure =
    MissingParameter str
  | EmptyOldString
  | NotPositive str
  | BadMode str
  | BadOffset
  | OffsetRequired
  | OffsetInOverwrite
  | ResolveFailed path_error
  | ReadFailed workspace_error
  | OldNotFound
  | OldAmbiguous nat
  | UnsafeLineEnds
  | ReplacementMismatch nat nat
  | TooManyReplacements nat nat
  | DiffParseFailed diff_error
  | DiffApplyFailed diff_error
  | AppendTooLarge
  | OffsetMismatch nat nat
  | ClaimRefused claim_error
  | ConcurrentModification
  | WriteFailed workspace_error
  | NoEntries
  | TooManyEntries nat
  | BatchTooLarge nat
  | StoppedAt str workspace_error "str list" "str list"

datatype tool_success =
    Edited nat
  | WouldEdit nat
  | Patched nat
  | PatchedBatch nat
  | Wrote write_outcome bool
  | Appended nat nat nat bool

datatype tool_output = Failed tool_failure "tool_error_kind option" | Succeeded tool_success

text \<open>What a tool sees of its context: the session, the workspace and the host file system.\<close>

record tool_context =
  tc_session_id :: "str option"
  tc_workspace :: path
  tc_fs :: file_system

definition MAX_PATCH_ENTRIES :: nat where
  "MAX_PATCH_ENTRIES = 64"

definition MAX_PATCH_BATCH_BYTES :: int where
  "MAX_PATCH_BATCH_BYTES = 16 * 1024 * 1024"

subsection \<open>Claiming a path for a write\<close>

definition begin_write_claim :: "tool_context \<Rightarrow> str \<Rightarrow> claims \<Rightarrow> (tool_output + bool) \<times> claims" where
  "begin_write_claim ctx file_path dirty =
     (let newly_acquired =
            (case bound_session (tc_session_id ctx) of
               None \<Rightarrow> False
             | Some i \<Rightarrow> \<not> session_owns_write (tc_fs ctx) (tc_workspace ctx) i file_path dirty)
      in (case claim_bound_write (tc_fs ctx) (tc_workspace ctx) (tc_session_id ctx) file_path dirty of
            (Inl e, dirty) \<Rightarrow> (Inl (Failed (ClaimRefused e) None), dirty)
          | (Inr _, dirty) \<Rightarrow> (Inr newly_acquired, dirty)))"

definition release_new_write_claim :: "tool_context \<Rightarrow> str \<Rightarrow> bool \<Rightarrow> claims \<Rightarrow> claims" where
  "release_new_write_claim ctx file_path newly_acquired dirty =
     (if \<not> newly_acquired then dirty
      else (case bound_session (tc_session_id ctx) of
          None \<Rightarrow> dirty
        | Some i \<Rightarrow> release_write_claim (tc_fs ctx) (tc_workspace ctx) i file_path dirty))"

text \<open>What is left to write after the reading half of a call.\<close>

record pending_write =
  pw_file_path :: str
  pw_path :: str
  pw_before :: str
  pw_content :: str
  pw_version :: "str option"
  pw_success :: tool_success

definition write_failure :: "workspace_error \<Rightarrow> tool_output" where
  "write_failure e =
     Failed (case e of VersionConflict _ \<Rightarrow> ConcurrentModification | _ \<Rightarrow> WriteFailed e) (from_workspace_error e)"

definition commit_write ::
  "'w backend \<Rightarrow> tool_context \<Rightarrow> pending_write \<Rightarrow> 'w \<Rightarrow> claims \<Rightarrow> tool_output \<times> 'w \<times> claims" where
  "commit_write B ctx pw w dirty =
     (case begin_write_claim ctx (pw_file_path pw) dirty of
        (Inl out, dirty) \<Rightarrow> (out, w, dirty)
      | (Inr newly, dirty) \<Rightarrow>
          (case write_for_edit B (pw_path pw) (pw_content pw) (pw_version pw) w of
             (Inr _, w) \<Rightarrow> (Succeeded (pw_success pw), w, dirty)
           | (Inl e, w) \<Rightarrow> (write_failure e, w, release_new_write_claim ctx (pw_file_path pw) newly dirty)))"

subsection \<open>Arguments\<close>

definition require_str :: "json \<Rightarrow> str \<Rightarrow> tool_failure + str" where
  "require_str args name = (case get_str args name of None \<Rightarrow> Inl (MissingParameter name) | Some s \<Rightarrow> Inr s)"

definition flag_arg :: "json \<Rightarrow> str \<Rightarrow> bool" where
  "flag_arg args name = (Option.bind (json_get args name) as_bool = Some True)"

definition positive_usize_arg :: "json \<Rightarrow> str \<Rightarrow> tool_failure + nat option" where
  "positive_usize_arg args name =
     (case json_get args name of
        None \<Rightarrow> Inr None
      | Some v \<Rightarrow>
          (case as_u64 v of
             Some n \<Rightarrow> if n > 0 then Inr (Some (nat n)) else Inl (NotPositive name)
           | None \<Rightarrow> Inl (NotPositive name)))"

definition resolve_and_read :: "'w backend \<Rightarrow> 'w \<Rightarrow> str \<Rightarrow> tool_failure + str \<times> str \<times> str option" where
  "resolve_and_read B w file_path =
     (case wb_normalize B file_path of
        Inl e \<Rightarrow> Inl (ResolveFailed e)
      | Inr p \<Rightarrow>
          (case read_for_edit B w p of
             Inl e \<Rightarrow> Inl (ReadFailed e)
           | Inr (content, version) \<Rightarrow> Inr (p, content, version)))"

subsection \<open>The edit tool\<close>

fun edit_failure :: "edit_error \<Rightarrow> tool_failure" where
  "edit_failure edit_error.NotFound = OldNotFound"
| "edit_failure (Ambiguous n) = OldAmbiguous n"
| "edit_failure UnsafeEdit = UnsafeLineEnds"

definition edit_apply ::
  "json \<Rightarrow> nat option \<Rightarrow> nat option \<Rightarrow> str \<Rightarrow> str \<Rightarrow> str \<Rightarrow> str \<times> str \<times> str option \<Rightarrow> tool_output + pending_write" where
  "edit_apply args max_replacements expected_replacements file_path old new found =
     (case found of (p, content, version) \<Rightarrow>
        (case apply_line_ending_edit content old new (flag_arg args ''replace_all'') of
           Inl e \<Rightarrow> Inl (Failed (edit_failure e) None)
         | Inr applied \<Rightarrow>
             let count = le_count applied
             in if (case expected_replacements of None \<Rightarrow> False | Some expected \<Rightarrow> count \<noteq> expected)
                then Inl (Failed (ReplacementMismatch (the expected_replacements) count) None)
                else if (case max_replacements of None \<Rightarrow> False | Some maximum \<Rightarrow> count > maximum)
                then Inl (Failed (TooManyReplacements count (the max_replacements)) None)
                else if flag_arg args ''dry_run'' then Inl (Succeeded (WouldEdit count))
                else Inr \<lparr>pw_file_path = file_path, pw_path = p, pw_before = content, pw_content = le_content applied,
                  pw_version = version, pw_success = Edited count\<rparr>))"

definition answer :: "tool_failure + 'a \<Rightarrow> tool_output + 'a" where
  "answer r = map_sum (\<lambda>e. Failed e None) id r"

definition edit_prepare :: "'w backend \<Rightarrow> json \<Rightarrow> 'w \<Rightarrow> tool_output + pending_write" where
  "edit_prepare B args w =
     bind_e (answer (require_str args ''file_path'')) (\<lambda>file_path.
     bind_e (answer (require_str args ''old_string'')) (\<lambda>old.
     bind_e (answer (require_str args ''new_string'')) (\<lambda>new.
     if old = [] then Inl (Failed EmptyOldString None)
     else
       bind_e (answer (positive_usize_arg args ''max_replacements'')) (\<lambda>max_replacements.
       bind_e (answer (positive_usize_arg args ''expected_replacements'')) (\<lambda>expected_replacements.
       bind_e (answer (resolve_and_read B w file_path)) (\<lambda>found.
       edit_apply args max_replacements expected_replacements file_path old new found))))))"

definition edit_execute :: "'w backend \<Rightarrow> tool_context \<Rightarrow> json \<Rightarrow> 'w \<Rightarrow> claims \<Rightarrow> tool_output \<times> 'w \<times> claims" where
  "edit_execute B ctx args w dirty =
     (case edit_prepare B args w of
        Inl out \<Rightarrow> (out, w, dirty)
      | Inr pw \<Rightarrow> commit_write B ctx pw w dirty)"

subsection \<open>The patch tool\<close>

definition apply_diff :: "str \<Rightarrow> str \<Rightarrow> tool_failure + str \<times> nat" where
  "apply_diff diff content =
     (case parse_hunks diff of
        Inl e \<Rightarrow> Inl (DiffParseFailed e)
      | Inr hunks \<Rightarrow>
          (case apply_hunks content hunks of
             Inl e \<Rightarrow> Inl (DiffApplyFailed e)
           | Inr new_content \<Rightarrow> Inr (new_content, length hunks)))"

definition stage_entry :: "'w backend \<Rightarrow> 'w \<Rightarrow> json \<Rightarrow> tool_failure + pending_write" where
  "stage_entry B w args =
     bind_e (require_str args ''file_path'') (\<lambda>file_path.
     bind_e (require_str args ''diff'') (\<lambda>diff.
     bind_e (resolve_and_read B w file_path) (\<lambda>(p, content, version).
     bind_e (apply_diff diff content) (\<lambda>(new_content, hunks).
     Inr \<lparr>pw_file_path = file_path, pw_path = p, pw_before = content, pw_content = new_content, pw_version = version,
       pw_success = Patched hunks\<rparr>))))"

fun stage_all :: "'w backend \<Rightarrow> 'w \<Rightarrow> json list \<Rightarrow> nat \<Rightarrow> tool_failure + pending_write list" where
  "stage_all B w [] staged_bytes = Inr []"
| "stage_all B w (entry # entries) staged_bytes =
     bind_e (stage_entry B w entry) (\<lambda>pw.
       let staged_bytes = staged_bytes + utf8_len (pw_before pw)
       in if int staged_bytes > MAX_PATCH_BATCH_BYTES then Inl (BatchTooLarge staged_bytes)
          else map_sum id ((#) pw) (stage_all B w entries staged_bytes))"

fun claim_all :: "tool_context \<Rightarrow> pending_write list \<Rightarrow> claims \<Rightarrow> (claim_error + unit) \<times> claims" where
  "claim_all ctx [] dirty = (Inr (), dirty)"
| "claim_all ctx (pw # pws) dirty =
     (case claim_bound_write (tc_fs ctx) (tc_workspace ctx) (tc_session_id ctx) (pw_file_path pw) dirty of
        (Inl e, dirty) \<Rightarrow> (Inl e, dirty)
      | (Inr _, dirty) \<Rightarrow> claim_all ctx pws dirty)"

fun write_all :: "'w backend \<Rightarrow> pending_write list \<Rightarrow> str list \<Rightarrow> 'w \<Rightarrow> (tool_output + unit) \<times> 'w" where
  "write_all B [] written w = (Inr (), w)"
| "write_all B (pw # pws) written w =
     (case write_for_edit B (pw_path pw) (pw_content pw) (pw_version pw) w of
        (Inr _, w) \<Rightarrow> write_all B pws (written @ [pw_file_path pw]) w
      | (Inl e, w) \<Rightarrow>
          (Inl (Failed (StoppedAt (pw_file_path pw) e written (map pw_file_path pws)) (from_workspace_error e)), w))"

definition batch_prepare :: "'w backend \<Rightarrow> json list \<Rightarrow> 'w \<Rightarrow> tool_output + pending_write list" where
  "batch_prepare B entries w =
     (if entries = [] then Inl (Failed NoEntries None)
      else if length entries > MAX_PATCH_ENTRIES then Inl (Failed (TooManyEntries (length entries)) None)
      else answer (stage_all B w entries 0))"

definition batch_commit ::
  "'w backend \<Rightarrow> tool_context \<Rightarrow> pending_write list \<Rightarrow> 'w \<Rightarrow> claims \<Rightarrow> tool_output \<times> 'w \<times> claims" where
  "batch_commit B ctx staged w dirty =
     (case claim_all ctx staged dirty of
        (Inl e, dirty) \<Rightarrow> (Failed (ClaimRefused e) None, w, dirty)
      | (Inr _, dirty) \<Rightarrow>
          (case write_all B staged [] w of
             (Inl out, w) \<Rightarrow> (out, w, dirty)
           | (Inr _, w) \<Rightarrow> (Succeeded (PatchedBatch (length staged)), w, dirty)))"

definition execute_patches :: "'w backend \<Rightarrow> tool_context \<Rightarrow> json list \<Rightarrow> 'w \<Rightarrow> claims \<Rightarrow> tool_output \<times> 'w \<times> claims" where
  "execute_patches B ctx entries w dirty =
     (case batch_prepare B entries w of
        Inl out \<Rightarrow> (out, w, dirty)
      | Inr staged \<Rightarrow> batch_commit B ctx staged w dirty)"

definition patch_execute :: "'w backend \<Rightarrow> tool_context \<Rightarrow> json \<Rightarrow> 'w \<Rightarrow> claims \<Rightarrow> tool_output \<times> 'w \<times> claims" where
  "patch_execute B ctx args w dirty =
     (case get_array args ''patches'' of
        Some entries \<Rightarrow> execute_patches B ctx entries w dirty
      | None \<Rightarrow>
          (case answer (stage_entry B w args) of
             Inl out \<Rightarrow> (out, w, dirty)
           | Inr pw \<Rightarrow> commit_write B ctx pw w dirty))"

subsection \<open>The write tool\<close>

definition write_mode :: "json \<Rightarrow> tool_failure + bool" where
  "write_mode args =
     (case get_str args ''mode'' of
        None \<Rightarrow> Inr False
      | Some mode \<Rightarrow> if mode = ''overwrite'' then Inr False else if mode = ''append'' then Inr True else Inl (BadMode mode))"

definition expected_offset :: "json \<Rightarrow> bool \<Rightarrow> tool_failure + nat option" where
  "expected_offset args append_mode =
     (case (append_mode, json_get args ''expected_offset'') of
        (True, Some v) \<Rightarrow> (case as_u64 v of Some n \<Rightarrow> Inr (Some (nat n)) | None \<Rightarrow> Inl BadOffset)
      | (True, None) \<Rightarrow> Inl OffsetRequired
      | (False, Some v) \<Rightarrow> if as_u64 v = Some 0 then Inr None else Inl OffsetInOverwrite
      | (False, None) \<Rightarrow> Inr None)"

text \<open>The bytes of the file from the offset on are those of the chunk exactly if the offset is a character boundary
  and the characters after it are those of the chunk, which is not empty when this is asked.\<close>

definition already_applied :: "str \<Rightarrow> nat \<Rightarrow> str \<Rightarrow> bool" where
  "already_applied current offset content \<longleftrightarrow>
     utf8_len current = offset + utf8_len content \<and> map_option snd (byte_split offset current) = Some content"

definition append_prepare :: "'w backend \<Rightarrow> str \<Rightarrow> str \<Rightarrow> nat \<Rightarrow> str \<Rightarrow> 'w \<Rightarrow> tool_output + pending_write" where
  "append_prepare B file_path content offset p w =
     (case read_for_edit B w p of
        Inl e \<Rightarrow> Inl (Failed (ReadFailed e) None)
      | Inr (current, version) \<Rightarrow>
          let resulting_size = offset + utf8_len content
          in if int resulting_size \<ge> 2 ^ 64 then Inl (Failed AppendTooLarge None)
             else if utf8_len current \<noteq> offset then
               Inl (if already_applied current offset content
                    then Succeeded (Appended offset (utf8_len content) resulting_size True)
                    else Failed (OffsetMismatch offset (utf8_len current)) None)
             else Inr \<lparr>pw_file_path = file_path, pw_path = p, pw_before = current, pw_content = current @ content,
               pw_version = version, pw_success = Appended offset (utf8_len content) resulting_size False\<rparr>)"

definition commit_overwrite ::
  "'w backend \<Rightarrow> tool_context \<Rightarrow> str \<Rightarrow> str \<Rightarrow> str \<Rightarrow> str option \<Rightarrow> 'w \<Rightarrow> claims \<Rightarrow> tool_output \<times> 'w \<times> claims" where
  "commit_overwrite B ctx file_path p content before_content w dirty =
     (let content_for_write =
            (case before_content of None \<Rightarrow> content | Some existing \<Rightarrow> preserve_newline_style existing content)
      in (case begin_write_claim ctx file_path dirty of
            (Inl out, dirty) \<Rightarrow> (out, w, dirty)
          | (Inr newly, dirty) \<Rightarrow>
              (case wb_write_text B p content_for_write w of
                 (Inr outcome, w) \<Rightarrow> (Succeeded (Wrote outcome (before_content = None)), w, dirty)
               | (Inl e, w) \<Rightarrow> (Failed (WriteFailed e) None, w, release_new_write_claim ctx file_path newly dirty))))"

definition write_target :: "'w backend \<Rightarrow> json \<Rightarrow> tool_failure + str \<times> str \<times> nat option \<times> str" where
  "write_target B args =
     bind_e (require_str args ''file_path'') (\<lambda>file_path.
     bind_e (require_str args ''content'') (\<lambda>content.
     bind_e (write_mode args) (\<lambda>append_mode.
     bind_e (expected_offset args append_mode) (\<lambda>offset.
     (case wb_normalize B file_path of
        Inl e \<Rightarrow> Inl (ResolveFailed e)
      | Inr p \<Rightarrow> Inr (file_path, content, offset, p))))))"

definition write_execute :: "'w backend \<Rightarrow> tool_context \<Rightarrow> json \<Rightarrow> 'w \<Rightarrow> claims \<Rightarrow> tool_output \<times> 'w \<times> claims" where
  "write_execute B ctx args w dirty =
     (case write_target B args of
        Inl e \<Rightarrow> (Failed e None, w, dirty)
      | Inr (file_path, content, Some offset, p) \<Rightarrow>
          (case append_prepare B file_path content offset p w of
             Inl out \<Rightarrow> (out, w, dirty)
           | Inr pw \<Rightarrow> commit_write B ctx pw w dirty)
      | Inr (file_path, content, None, p) \<Rightarrow>
          commit_overwrite B ctx file_path p content
            (case wb_read_text B w p of Inr existing \<Rightarrow> Some existing | Inl _ \<Rightarrow> None) w dirty)"

end
