(* ===== verification/WriteClaimProperties.thy ===== *)
theory WriteClaimProperties
  imports WriteClaims WorkspaceBackends
begin

section \<open>Properties of write claims\<close>

text \<open>
  The operations on the table of claims as steps of any sessions in any order; what a step does to the owner of a
  path; the identity of a claimed path against the resolver of the workspace.
\<close>

subsection \<open>Steps\<close>





definition claims_ok :: "claims \<Rightarrow> bool" where
  "claims_ok d \<longleftrightarrow> distinct (map fst d)"

lemma claims_ok_update [simp]: "claims_ok d \<Longrightarrow> claims_ok (AList.update p s d)"
  by (simp add: claims_ok_def distinct_update)

lemma claims_ok_delete [simp]: "claims_ok d \<Longrightarrow> claims_ok (AList.delete p d)"
  by (simp add: claims_ok_def distinct_delete)

lemma claims_ok_deletes [simp]: "claims_ok d \<Longrightarrow> claims_ok (fold AList.delete ps d)"
  by (induction ps arbitrary: d) simp_all

lemma claims_ok_filter [simp]: "claims_ok d \<Longrightarrow> claims_ok (filter P d)"
  by (auto simp: claims_ok_def distinct_map_filter)

lemma map_of_update [simp]: "map_of (AList.update k v d) = (map_of d)(k \<mapsto> v)"
  by (simp add: update_conv')

lemma map_of_delete [simp]: "map_of (AList.delete k d) = (map_of d)(k := None)"
  by (simp add: delete_conv')











subsection \<open>Claims and the resolver of the workspace\<close>

text \<open>A plain spelling: relative, without white space around it and without back slashes.\<close>

definition plain_spelling :: "str \<Rightarrow> bool" where
  "plain_spelling rel \<longleftrightarrow>
     trim rel = rel \<and> CHR 0x5C \<notin> set rel \<and> \<not> has_windows_path_prefix rel \<and> \<not> starts_with ''/'' rel"

definition file_part :: "str \<Rightarrow> bool" where
  "file_part s \<longleftrightarrow> s \<noteq> [] \<and> s \<noteq> ''.'' \<and> s \<noteq> ''..'' \<and> CHR ''/'' \<notin> set s"

fun inner_component :: "str \<Rightarrow> component \<Rightarrow> bool" where
  "inner_component rel RootDir = False"
| "inner_component rel (Normal s) = (file_part s \<and> set s \<subseteq> set rel)"
| "inner_component rel _ = True"

lemma split_on_sep_free: "p \<in> set (split_on c s) \<Longrightarrow> c \<notin> set p \<and> set p \<subseteq> set s"
  using split_on_parts join_part [of p "split_on c s" "[c]"] by (auto simp: join_split_on)

lemma plain_components:
  assumes "\<not> starts_with ''/'' rel"
  shows "list_all (inner_component rel) (path_components rel)"
proof -
  have part: "inner_component rel (component_of p)" if "p \<in> set (split_on CHR ''/'' rel)" "p \<noteq> []" "p \<noteq> ''.''" for p
    using split_on_sep_free [OF that(1)] that(2,3) by (auto simp: component_of_def file_part_def)
  let ?parts = "filter (\<lambda>p. p \<noteq> []) (split_on CHR ''/'' rel)"
  have tail: "list_all (inner_component rel) (map component_of (filter (\<lambda>p. p \<noteq> ''.'') ps))"
    if "set ps \<subseteq> set ?parts" for ps
    using that part by (auto simp: list_all_iff)
  show ?thesis
  proof (cases ?parts)
    case Nil
    with assms show ?thesis by (simp add: path_components_def Let_def)
  next
    case (Cons p ps)
    have "p \<in> set ?parts" "set ps \<subseteq> set ?parts" unfolding Cons by auto
    then have "p \<noteq> ''.'' \<longrightarrow> inner_component rel (component_of p)"
      "list_all (inner_component rel) (map component_of (filter (\<lambda>p. p \<noteq> ''.'') ps))" using part tail by auto
    with assms Cons show ?thesis by (simp add: path_components_def Let_def)
  qed
qed

lemma relative_by_parts:
  assumes "list_all (inner_component rel) cs"
  shows "normalize_relative_path cs (map Normal parts) = map_sum (\<lambda>_. EscapesWorkspace) (map Normal) (claim_parts cs parts)"
  using assms
proof (induction cs parts rule: claim_parts.induct)
  case (2 s cs parts)
  then have "normalize_relative_path cs (map Normal (parts @ [s])) =
      map_sum (\<lambda>_. EscapesWorkspace) (map Normal) (claim_parts cs (parts @ [s]))" by simp
  then show ?case by simp
next
  case (4 cs parts)
  then show ?case by (auto simp: parent_def last_map map_butlast)
qed simp_all

lemma claim_parts_plain:
  assumes "list_all (inner_component rel) cs" "claim_parts cs parts = Inr ps" "\<forall>s \<in> set parts. file_part s \<and> set s \<subseteq> set rel"
  shows "\<forall>s \<in> set ps. file_part s \<and> set s \<subseteq> set rel"
  using assms
proof (induction cs parts rule: claim_parts.induct)
  case (4 cs parts)
  from 4(3) have ne: "parts \<noteq> []" and rec: "claim_parts cs (butlast parts) = Inr ps" by (auto split: if_splits)
  show ?case by (rule 4(1) [OF ne _ rec]) (use 4(2,4) in \<open>auto dest: in_set_butlastD\<close>)
qed simp_all

lemma trim_matches_id: "s \<noteq> [] \<Longrightarrow> \<not> P (hd s) \<Longrightarrow> \<not> P (last s) \<Longrightarrow> trim_matches P s = s"
proof -
  assume s: "s \<noteq> []" "\<not> P (hd s)" "\<not> P (last s)"
  then have "dropWhile P s = s" "dropWhile P (rev s) = rev s"
    by (simp_all add: dropWhile_eq_self_iff hd_rev)
  then show ?thesis by (simp add: trim_matches_def)
qed

lemma join_ends:
  assumes "ps \<noteq> []" "\<forall>p \<in> set ps. p \<noteq> []"
  shows "join d ps \<noteq> [] \<and> hd (join d ps) = hd (hd ps) \<and> last (join d ps) = last (last ps)"
  using assms by (induction d ps rule: join.induct) auto

lemma path_of_parts:
  assumes "ps \<noteq> []" "\<forall>s \<in> set ps. file_part s \<and> CHR 0x5C \<notin> set s"
  shows "pathbuf_to_workspace_path (map Normal ps) = join ''/'' ps" "join ''/'' ps \<noteq> ''.''"
    and "path_components (join ''/'' ps) = map Normal ps"
proof -
  have shown: "path_text (map Normal ps) = join ''/'' ps" by (simp add: path_text_def comp_def)
  have bsl: "CHR 0x5C \<notin> set (join ''/'' ps)"
    using assms(2) by (induction "''/''" ps rule: join.induct) auto
  then have same: "replace_char CHR 0x5C CHR ''/'' (join ''/'' ps) = join ''/'' ps"
    by (auto simp: replace_char_def intro!: map_idI)
  have ne: "\<forall>p \<in> set ps. p \<noteq> []" and sep: "list_all (\<lambda>x. CHR ''/'' \<notin> set x) ps"
    using assms(2) by (auto simp: file_part_def list_all_iff)
  have "hd ps \<in> set ps" "last ps \<in> set ps" using assms(1) by simp_all
  then have part: "file_part (hd ps)" "file_part (last ps)" using assms(2) by auto
  then have "hd (hd ps) \<noteq> CHR ''/''" "last (last ps) \<noteq> CHR ''/''"
    unfolding file_part_def by (metis hd_in_set, metis last_in_set)
  with join_ends [OF assms(1) ne, of "''/''"]
  have ends: "join ''/'' ps \<noteq> []" "hd (join ''/'' ps) \<noteq> CHR ''/''" "last (join ''/'' ps) \<noteq> CHR ''/''" by auto
  show dot: "join ''/'' ps \<noteq> ''.''"
  proof
    assume "join ''/'' ps = ''.''"
    then have "split_on CHR ''/'' ''.'' = ps" using split_on_join [OF assms(1) sep] by metis
    then have "ps = [''.'']" by simp
    with assms(2) show False by (simp add: file_part_def)
  qed
  show "pathbuf_to_workspace_path (map Normal ps) = join ''/'' ps"
    using ends dot same by (simp add: pathbuf_to_workspace_path_def from_normalized_def shown trim_matches_id Let_def)
  have start: "\<not> starts_with ''/'' (join ''/'' ps)" using ends by (cases "join ''/'' ps") auto
  have "filter (\<lambda>p. p \<noteq> []) ps = ps" "filter (\<lambda>p. p \<noteq> ''.'') ps = ps" "map component_of ps = map Normal ps"
    using assms(2) by (auto simp: filter_id_conv file_part_def component_of_def)
  moreover obtain p rest where "ps = p # rest" "p \<noteq> ''.''" using assms by (cases ps) (auto simp: file_part_def)
  ultimately show "path_components (join ''/'' ps) = map Normal ps"
    using start split_on_join [OF assms(1) sep] by (auto simp: path_components_def Let_def split: if_splits)
qed

lemma no_path_of_parts: "pathbuf_to_workspace_path (map Normal []) = ''.''"
  by code_simp

lemma plain_components_dot:
  "normalize_relative_path (path_components (default_path_input rel)) [] = normalize_relative_path (path_components rel) []"
  if "trim rel = rel"
  using that by (auto simp: default_path_input_def path_components_def)

lemma plain_relative: "plain_spelling rel \<Longrightarrow> \<not> is_absolute (path_components rel)"
  using plain_components [of rel] by (cases "path_components rel") (auto simp: plain_spelling_def is_absolute_def)

lemma virtual_plain:
  assumes "plain_spelling rel"
  shows "normalize_virtual_path rel = map_sum id pathbuf_to_workspace_path (normalize_relative_path (path_components rel) [])"
proof -
  have plain: "trim rel = rel" "CHR 0x5C \<notin> set rel" "\<not> has_windows_path_prefix rel"
    using assms by (auto simp: plain_spelling_def)
  have same: "replace_char CHR 0x5C CHR ''/'' (default_path_input rel) = default_path_input rel"
    using plain(1,2) by (auto simp: replace_char_def default_path_input_def intro!: map_idI)
  have "\<not> is_absolute (path_components (default_path_input rel))"
    using plain_relative [OF assms] plain(1) by (auto simp: default_path_input_def path_components_def is_absolute_def)
  moreover have "\<not> has_windows_path_prefix (default_path_input rel)"
    using plain(1,3) by (auto simp: default_path_input_def has_windows_path_prefix_def)
  ultimately show ?thesis
    using plain_components_dot [OF plain(1)] by (simp add: normalize_virtual_path_def same Let_def)
qed

lemma virtual_by_parts:
  assumes "plain_spelling rel"
  shows "normalize_virtual_path rel =
    map_sum (\<lambda>_. EscapesWorkspace) (\<lambda>ps. pathbuf_to_workspace_path (map Normal ps)) (claim_parts (path_components rel) [])"
    and "claim_parts (path_components rel) [] = Inr ps \<Longrightarrow> \<forall>s \<in> set ps. file_part s \<and> CHR 0x5C \<notin> set s"
proof -
  let ?cs = "path_components rel"
  have cs: "list_all (inner_component rel) ?cs" using plain_components assms by (simp add: plain_spelling_def)
  then show "normalize_virtual_path rel =
      map_sum (\<lambda>_. EscapesWorkspace) (\<lambda>ps. pathbuf_to_workspace_path (map Normal ps)) (claim_parts ?cs [])"
    using relative_by_parts [OF cs, of "[]"] virtual_plain [OF assms] by (cases "claim_parts ?cs []") simp_all
  show "\<forall>s \<in> set ps. file_part s \<and> CHR 0x5C \<notin> set s" if "claim_parts ?cs [] = Inr ps"
    using claim_parts_plain [OF cs that] assms by (auto simp: plain_spelling_def)
qed

lemma identity_of_plain:
  assumes "plain_spelling rel" "normalize_virtual_path rel = Inr wp" "\<not> is_root wp"
  obtains ps where "claim_identity fs ws rel = Inr (canonical_root fs ws @ map Normal ps)"
    "path_components wp = map Normal ps" "wp = join ''/'' ps"
proof -
  note parts = virtual_by_parts [OF assms(1)]
  from assms(2) parts(1) obtain ps where ps: "claim_parts (path_components rel) [] = Inr ps"
    and wp: "wp = pathbuf_to_workspace_path (map Normal ps)"
    by (cases "claim_parts (path_components rel) []") auto
  have ne: "ps \<noteq> []" using assms(3) wp no_path_of_parts by (auto simp: is_root_def)
  note of_parts = path_of_parts [OF ne parts(2) [OF ps]]
  show ?thesis
    by (rule that [of ps]) (use ps ne wp of_parts plain_relative [OF assms(1)] in \<open>simp_all add: claim_identity_def\<close>)
qed

lemma cache_components:
  "path_components (''__pycache__/../'' @ rel) =
     [Normal ''__pycache__'', ParentDir] @ map component_of (filter (\<lambda>p. p \<noteq> ''.'') (filter (\<lambda>p. p \<noteq> []) (split_on CHR ''/'' rel)))"
  by (simp add: path_components_def component_of_def)

lemma cache_relative:
  assumes "\<not> starts_with ''/'' rel"
  shows "normalize_relative_path (path_components (''__pycache__/../'' @ rel)) [] = normalize_relative_path (path_components rel) []"
proof -
  let ?ps = "filter (\<lambda>p. p \<noteq> []) (split_on CHR ''/'' rel)"
  have "normalize_relative_path (path_components (''__pycache__/../'' @ rel)) [] =
      normalize_relative_path (map component_of (filter (\<lambda>p. p \<noteq> ''.'') ?ps)) []"
    unfolding cache_components by (simp add: parent_def del: filter_filter)
  also have "\<dots> = normalize_relative_path (path_components rel) []"
    using assms by (cases ?ps) (auto simp: path_components_def Let_def simp del: filter_filter)
  finally show ?thesis .
qed

lemma trimmed_end: "trim s = s \<Longrightarrow> s \<noteq> [] \<Longrightarrow> \<not> is_whitespace (last s)"
proof -
  assume s: "trim s = s" "s \<noteq> []"
  let ?d = "dropWhile is_whitespace (rev (dropWhile is_whitespace s))"
  have "s = rev ?d" using s(1) by (simp add: trim_def)
  then have "last s = hd ?d" "?d \<noteq> []" using s(2) by (metis last_rev, metis rev.simps(1))
  then show ?thesis using hd_dropWhile [of is_whitespace] by metis
qed

lemma cache_plain:
  assumes "plain_spelling rel" "rel \<noteq> []"
  shows "plain_spelling (''__pycache__/../'' @ rel)"
proof -
  let ?r = "''__pycache__/../'' @ rel"
  have "\<not> is_whitespace (last ?r)" using trimmed_end [of rel] assms by (simp add: plain_spelling_def)
  moreover have "\<not> is_whitespace (hd ?r)" by (simp add: is_whitespace_def code_def)
  ultimately have "trim_matches is_whitespace ?r = ?r" by (intro trim_matches_id) auto
  then have "trim ?r = ?r" by (simp add: trim_def trim_matches_def)
  moreover have "CHR 0x5C \<notin> set ?r" using assms(1) by (auto simp: plain_spelling_def)
  ultimately show ?thesis
    by (simp add: plain_spelling_def has_windows_path_prefix_def is_ascii_alphabetic_def)
qed

subsection \<open>The properties\<close>


definition demo_fs :: file_system where
  "demo_fs = \<lparr>fs_canonicalize = (\<lambda>p. Some p), fs_exists = (\<lambda>p. True), fs_symlink_metadata = (\<lambda>p. NotSymlink)\<rparr>"

definition demo_root :: path where
  "demo_root = [RootDir, Normal ''w'']"


text \<open>One claim for one file: two plain spellings (relative, with no white space around them, no back slash and no
  drive letter) of files in the workspace have the same claim exactly if the resolver of the workspace gives them
  the same path, however they use single and double dots and repeated slashes.\<close>

theorem claims_follow_files:
  assumes "plain_spelling a" and "plain_spelling b"
    and "normalize_virtual_path a = Inr x" and "normalize_virtual_path b = Inr y"
    and "\<not> is_root x" and "\<not> is_root y"
  shows "\<exists>p q. claim_identity fs ws a = Inr p \<and> claim_identity fs ws b = Inr q \<and> (p = q \<longleftrightarrow> x = y)"
proof -
  obtain ps where ps: "claim_identity fs ws a = Inr (canonical_root fs ws @ map Normal ps)"
    "path_components x = map Normal ps" "x = join ''/'' ps"
    using identity_of_plain [OF assms(1,3,5)] .
  obtain qs where qs: "claim_identity fs ws b = Inr (canonical_root fs ws @ map Normal qs)"
    "path_components y = map Normal qs" "y = join ''/'' qs"
    using identity_of_plain [OF assms(2,4,6)] .
  have "map Normal ps = map Normal qs \<longleftrightarrow> x = y" using ps qs by (metis component.inject inj_map_eq_map injI)
  with ps(1) qs(1) show ?thesis by simp
qed

theorem claims_follow_files_witness:
  "\<exists>p q. claim_identity demo_fs demo_root ''./src//lib.rs'' = Inr p \<and> claim_identity demo_fs demo_root ''src/x/../lib.rs'' = Inr q \<and>
     (p = q \<longleftrightarrow> ''src/lib.rs'' = ''src/lib.rs'')"
  by (rule claims_follow_files) code_simp+

text \<open>The test for interpreter caches opens a way around the claims: a detour through a cache directory in the spelling
  of a path resolves to the same file, but its claim is granted to every session without looking at the owner, and is not
  recorded.\<close>

theorem cache_detour_evades_the_claim:
  assumes "plain_spelling rel" and "rel \<noteq> []" and "trim t \<noteq> []"
  shows "normalize_virtual_path (''__pycache__/../'' @ rel) = normalize_virtual_path rel \<and>
    claim_bound_write fs ws (Some t) (''__pycache__/../'' @ rel) dirty = (Inr (), dirty)"
proof
  let ?r = "''__pycache__/../'' @ rel"
  show "claim_bound_write fs ws (Some t) ?r dirty = (Inr (), dirty)"
    using assms(3)
    by (simp add: claim_bound_write_def bound_session_def claim_write_def is_interpreter_build_artifact_def
      cache_components Let_def del: append_Cons)
  have "plain_spelling ?r" by (rule cache_plain [OF assms(1,2)])
  with assms(1) show "normalize_virtual_path ?r = normalize_virtual_path rel"
    using cache_relative [of rel] by (simp add: virtual_plain plain_spelling_def del: append_Cons)
qed

theorem cache_detour_evades_the_claim_witness:
  "normalize_virtual_path (''__pycache__/../'' @ ''src/lib.rs'') = normalize_virtual_path ''src/lib.rs'' \<and>
   claim_bound_write demo_fs demo_root (Some ''two'') (''__pycache__/../'' @ ''src/lib.rs'')
     [([RootDir, Normal ''w'', Normal ''src'', Normal ''lib.rs''], ''one'')] =
   (Inr (), [([RootDir, Normal ''w'', Normal ''src'', Normal ''lib.rs''], ''one'')])"
  by (rule cache_detour_evades_the_claim) code_simp+

text \<open>The resolver drops white space around a path, the claim keeps it.\<close>

lemma spaced_spelling_has_its_own_claim:
  "normalize_virtual_path '' lib.rs'' = normalize_virtual_path ''lib.rs''"
  "claim_identity demo_fs demo_root '' lib.rs'' \<noteq> claim_identity demo_fs demo_root ''lib.rs''"
  by code_simp+

text \<open>A claim is recorded under the session id as it is, and the check of a workspace compares with the trimmed id.\<close>

lemma spaced_session_is_foreign_to_itself:
  "fst (refuse_foreign_workspace_owner demo_fs demo_root (Some ''one '')
     (snd (claim_bound_write demo_fs demo_root (Some ''one '') ''a.rs'' []))) =
   Inl (OwnedBy [RootDir, Normal ''w'', Normal ''a.rs''] ''one '')"
  by code_simp

end
