(* ===== verification/FileToolLaws.thy ===== *)
theory FileToolLaws
  imports FileTools WriteClaimProperties
begin

section \<open>Laws of workspaces and of the file tools\<close>

text \<open>
  The contract of a workspace backend as the locale \<open>workspace_contract\<close>: what a read gives after a write, what a write
  leaves alone, and that a write under a version succeeds only while the file still holds what was read with that version.
  The in-memory backend, with and without versions, satisfies it.
\<close>

subsection \<open>Histories of a workspace\<close>

inductive history :: "'w backend \<Rightarrow> 'w \<Rightarrow> 'w \<Rightarrow> bool" for B where
  history_refl: "history B w w"
| history_write: "history B w w' \<Longrightarrow> wb_write_text B p c w' = (r, w'') \<Longrightarrow> history B w w''"
| history_cas: "history B w w' \<Longrightarrow> wb_write_text_if_version B p c v w' = (r, w'') \<Longrightarrow> history B w w''"

locale workspace_contract =
  fixes B :: "'w backend" and ok :: "'w \<Rightarrow> bool"
  assumes ok_write: "ok w \<Longrightarrow> wb_write_text B p c w = (r, w') \<Longrightarrow> ok w'"
    and ok_cas: "ok w \<Longrightarrow> wb_write_text_if_version B p c v w = (r, w') \<Longrightarrow> ok w'"
    and read_write: "ok w \<Longrightarrow> wb_write_text B p c w = (Inr out, w') \<Longrightarrow>
      wb_read_text B w' q = (if q = p then Inr c else wb_read_text B w q)"
    and read_cas: "ok w \<Longrightarrow> wb_write_text_if_version B p c v w = (Inr out, w') \<Longrightarrow>
      wb_read_text B w' q = (if q = p then Inr c else wb_read_text B w q)"
    and read_failed_write: "ok w \<Longrightarrow> wb_write_text B p c w = (Inl e, w') \<Longrightarrow> q \<noteq> p \<Longrightarrow>
      wb_read_text B w' q = wb_read_text B w q"
    and read_failed_cas: "ok w \<Longrightarrow> wb_write_text_if_version B p c v w = (Inl e, w') \<Longrightarrow> q \<noteq> p \<Longrightarrow>
      wb_read_text B w' q = wb_read_text B w q"
    and versioned_read: "ok w \<Longrightarrow> wb_versioned B \<Longrightarrow>
      wb_read_text B w p = Inr c \<longleftrightarrow> (\<exists>v. wb_read_text_with_version B w p = Inr (c, v))"
    and cas_current: "ok w \<Longrightarrow> wb_versioned B \<Longrightarrow> history B w w' \<Longrightarrow>
      wb_read_text_with_version B w p = Inr (c, v) \<Longrightarrow> wb_write_text_if_version B p c' v w' = (Inr out, w'') \<Longrightarrow>
      wb_read_text B w' p = Inr c"
begin

lemma ok_history: "history B w w' \<Longrightarrow> ok w \<Longrightarrow> ok w'"
  by (induction rule: history.induct) (auto intro: ok_write ok_cas)

lemma write_for_edit_ok: "ok w \<Longrightarrow> write_for_edit B p c v w = (r, w') \<Longrightarrow> ok w'"
  by (auto simp: write_for_edit_def intro: ok_write ok_cas split: bool.splits option.splits)

lemma read_back:
  "ok w \<Longrightarrow> write_for_edit B p c v w = (Inr out, w') \<Longrightarrow>
     wb_read_text B w' q = (if q = p then Inr c else wb_read_text B w q)"
  using read_write [where w = w and w' = w' and p = p and c = c] read_cas [where w = w and w' = w' and p = p and c = c]
  by (simp add: write_for_edit_def split: bool.splits option.splits)

lemma read_back_failed:
  "ok w \<Longrightarrow> write_for_edit B p c v w = (Inl e, w') \<Longrightarrow> q \<noteq> p \<Longrightarrow> wb_read_text B w' q = wb_read_text B w q"
  by (auto simp: write_for_edit_def dest: read_failed_write read_failed_cas split: bool.splits option.splits)

lemma read_for_edit_iff:
  assumes "ok w"
  shows "(\<exists>v. read_for_edit B w p = Inr (c, v)) \<longleftrightarrow> wb_read_text B w p = Inr c"
proof (cases "wb_versioned B")
  case True
  then have "(\<exists>v. read_for_edit B w p = Inr (c, v)) \<longleftrightarrow> (\<exists>v. wb_read_text_with_version B w p = Inr (c, v))"
    by (cases "wb_read_text_with_version B w p") (auto simp: read_for_edit_def)
  with versioned_read [OF assms True] show ?thesis by simp
next
  case False
  then show ?thesis by (cases "wb_read_text B w p") (auto simp: read_for_edit_def)
qed

lemma read_for_edit_read: "ok w \<Longrightarrow> read_for_edit B w p = Inr (c, v) \<Longrightarrow> wb_read_text B w p = Inr c"
  using read_for_edit_iff by blast

lemma write_sees_current:
  assumes "ok w" "wb_versioned B" "read_for_edit B w p = Inr (c, v)" "history B w w'"
    and "write_for_edit B p c' v w' = (Inr out, w'')"
  shows "wb_read_text B w' p = Inr c"
proof -
  from assms(2,3) obtain u where "v = Some u" "wb_read_text_with_version B w p = Inr (c, u)"
    by (cases "wb_read_text_with_version B w p") (auto simp: read_for_edit_def)
  with assms cas_current show ?thesis by (simp add: write_for_edit_def)
qed

text \<open>A sequence of writes: what was written before the end, and where it stopped.\<close>

lemma write_all_stored:
  assumes "ok w" "write_all B pws written w = (Inr (), w')"
  shows "\<forall>q. q \<notin> pw_path ` set pws \<longrightarrow> wb_read_text B w' q = wb_read_text B w q"
    and "distinct (map pw_path pws) \<Longrightarrow> \<forall>pw \<in> set pws. wb_read_text B w' (pw_path pw) = Inr (pw_content pw)"
    and "pws \<noteq> [] \<Longrightarrow> wb_read_text B w' (pw_path (last pws)) = Inr (pw_content (last pws))"
proof -
  have "(\<forall>q. q \<notin> pw_path ` set pws \<longrightarrow> wb_read_text B w' q = wb_read_text B w q) \<and>
    (distinct (map pw_path pws) \<longrightarrow> (\<forall>pw \<in> set pws. wb_read_text B w' (pw_path pw) = Inr (pw_content pw))) \<and>
    (pws \<noteq> [] \<longrightarrow> wb_read_text B w' (pw_path (last pws)) = Inr (pw_content (last pws)))"
    using assms
  proof (induction pws arbitrary: written w)
    case (Cons pw pws)
    from Cons.prems(2) obtain out w1 where step: "write_for_edit B (pw_path pw) (pw_content pw) (pw_version pw) w = (Inr out, w1)"
      and rest: "write_all B pws (written @ [pw_file_path pw]) w1 = (Inr (), w')"
      by (auto split: prod.splits sum.splits)
    note ok1 = write_for_edit_ok [OF Cons.prems(1) step] and stored = read_back [OF Cons.prems(1) step]
    show ?case using Cons.IH [OF ok1 rest] rest by (auto simp: stored)
  qed simp
  then show "\<forall>q. q \<notin> pw_path ` set pws \<longrightarrow> wb_read_text B w' q = wb_read_text B w q"
    and "distinct (map pw_path pws) \<Longrightarrow> \<forall>pw \<in> set pws. wb_read_text B w' (pw_path pw) = Inr (pw_content pw)"
    and "pws \<noteq> [] \<Longrightarrow> wb_read_text B w' (pw_path (last pws)) = Inr (pw_content (last pws))"
    by blast+
qed

lemma write_all_stopped:
  assumes "ok w" "write_all B pws written w = (Inl out, w')"
  shows "\<exists>pre pw post e w1. pws = pre @ pw # post \<and> write_all B pre written w = (Inr (), w1) \<and> ok w1 \<and>
    write_for_edit B (pw_path pw) (pw_content pw) (pw_version pw) w1 = (Inl e, w') \<and>
    out = Failed (StoppedAt (pw_file_path pw) e (written @ map pw_file_path pre) (map pw_file_path post)) (from_workspace_error e)"
  using assms
proof (induction pws arbitrary: written w)
  case (Cons pw pws)
  obtain r w1 where step: "write_for_edit B (pw_path pw) (pw_content pw) (pw_version pw) w = (r, w1)" by fastforce
  note ok1 = write_for_edit_ok [OF Cons.prems(1) step]
  show ?case
  proof (cases r)
    case (Inl e)
    with step Cons.prems show ?thesis
      by (intro exI [of _ "[]"] exI [of _ pw] exI [of _ pws] exI [of _ e] exI [of _ w]) auto
  next
    case (Inr x)
    with step Cons.prems have "write_all B pws (written @ [pw_file_path pw]) w1 = (Inl out, w')" by simp
    from Cons.IH [OF ok1 this] obtain pre pw' post e w2 where
      "pws = pre @ pw' # post" "write_all B pre (written @ [pw_file_path pw]) w1 = (Inr (), w2)" "ok w2"
      "write_for_edit B (pw_path pw') (pw_content pw') (pw_version pw') w2 = (Inl e, w')"
      "out = Failed (StoppedAt (pw_file_path pw') e ((written @ [pw_file_path pw]) @ map pw_file_path pre) (map pw_file_path post))
        (from_workspace_error e)" by blast
    with step Inr show ?thesis
      by (intro exI [of _ "pw # pre"] exI [of _ pw'] exI [of _ post] exI [of _ e] exI [of _ w2]) simp
  qed
qed simp

end

subsection \<open>The in-memory backend keeps the contract\<close>

definition mem_ok :: "memory \<Rightarrow> bool" where
  "mem_ok w \<longleftrightarrow> (\<forall>p c v. map_of (mem_files w) p = Some (c, v) \<longrightarrow> (\<exists>k \<le> mem_counter w. v = version_of k))"

lemma show_nat_inject: "show_nat m = show_nat n \<Longrightarrow> m = n"
proof (induction m arbitrary: n rule: show_nat.induct)
  case (1 m)
  have last_digit: "last (show_nat k) = char_of (48 + k mod 10)" "butlast (show_nat k) = (if k < 10 then [] else show_nat (k div 10))" for k
    by (subst show_nat.simps, simp add: Let_def)+
  have d: "m mod 10 = n mod 10"
    using last_digit(1) [of m] last_digit(1) [of n] "1.prems" digit_char [of "m mod 10"] digit_char [of "n mod 10"] by simp
  have b: "(if m < 10 then [] else show_nat (m div 10)) = (if n < 10 then [] else show_nat (n div 10))"
    using last_digit(2) [of m] last_digit(2) [of n] "1.prems" by simp
  show ?case
  proof (cases "m < 10")
    case True
    then have "n < 10" using b show_nat_digits [of "n div 10"] by (auto split: if_splits)
    with True d show ?thesis by simp
  next
    case False
    then have "\<not> n < 10" using b show_nat_digits [of "m div 10"] by (auto split: if_splits)
    with b False have "show_nat (m div 10) = show_nat (n div 10)" by simp
    with "1.IH" False have "m div 10 = n div 10" by blast
    with d show ?thesis by (metis div_mult_mod_eq)
  qed
qed

lemma version_of_inject: "version_of a = version_of b \<longleftrightarrow> a = b"
  using show_nat_inject by (auto simp: version_of_def)

lemma in_memory_ops [simp]:
  "wb_normalize (in_memory b) = normalize_virtual_path" "wb_read_text (in_memory b) = mem_read_text"
  "wb_write_text (in_memory b) = mem_write_text" "wb_versioned (in_memory b) = b"
  "wb_read_text_with_version (in_memory b) = mem_read_text_with_version"
  "wb_write_text_if_version (in_memory b) = mem_write_text_if_version"
  by (simp_all add: in_memory_def)

lemma mem_store_simps [simp]:
  "map_of (mem_files (mem_store p c w)) = (map_of (mem_files w))(p \<mapsto> (c, version_of (mem_counter w + 1)))"
  "mem_counter (mem_store p c w) = mem_counter w + 1"
  by (simp_all add: mem_store_def Let_def)

lemma mem_store_ok: "mem_ok w \<Longrightarrow> mem_ok (mem_store p c w)"
  by (auto simp: mem_ok_def) (metis le_SucI)

lemma mem_read_store: "mem_read_text (mem_store p c w) q = (if q = p then Inr c else mem_read_text w q)"
  by (simp add: mem_read_text_def)

lemma mem_write_cases:
  "mem_write_text p c w = (r, w') \<Longrightarrow> w' = mem_store p c w \<and> isl r = False"
  "mem_write_text_if_version p c v w = (r, w') \<Longrightarrow>
     (isl r \<and> w' = w) \<or> (\<not> isl r \<and> w' = mem_store p c w \<and> (\<exists>c0. map_of (mem_files w) p = Some (c0, v)))"
  by (auto simp: mem_write_text_def mem_write_text_if_version_def split: if_splits option.splits)

text \<open>Along a history a file keeps its entry, or has a version younger than the start of the history.\<close>

definition mem_tracks :: "memory \<Rightarrow> str \<Rightarrow> str \<times> str \<Rightarrow> memory \<Rightarrow> bool" where
  "mem_tracks w p e w' \<longleftrightarrow> mem_counter w \<le> mem_counter w' \<and>
     (map_of (mem_files w') p = Some e \<or> (\<exists>c' k. mem_counter w < k \<and> map_of (mem_files w') p = Some (c', version_of k)))"

lemma mem_tracks_store: "mem_tracks w p e w' \<Longrightarrow> mem_tracks w p e (mem_store q d w')"
proof (cases "p = q")
  case True
  assume "mem_tracks w p e w'"
  then have "mem_counter w < Suc (mem_counter w')" by (simp add: mem_tracks_def)
  with True show ?thesis by (auto simp: mem_tracks_def)
qed (auto simp: mem_tracks_def)

lemma mem_history:
  assumes "history (in_memory b) w w'" "map_of (mem_files w) p = Some (c, v)"
  shows "mem_tracks w p (c, v) w'"
  using assms
proof (induction rule: history.induct)
  case (history_write w w' q d r w'')
  then have "w'' = mem_store q d w'" using mem_write_cases(1) by auto
  with history_write show ?case by (simp add: mem_tracks_store)
next
  case (history_cas w w' q d u r w'')
  then have "w'' = w' \<or> w'' = mem_store q d w'" using mem_write_cases(2) [of q d u w' r w''] by auto
  with history_cas show ?case by (auto intro: mem_tracks_store)
qed (simp add: mem_tracks_def)

lemma mem_cas_current:
  assumes "mem_ok w" "history (in_memory b) w w'" "map_of (mem_files w) p = Some (c, v)" "map_of (mem_files w') p = Some (c', v)"
  shows "c' = c"
proof -
  from assms(1,3) obtain k where "k \<le> mem_counter w" "v = version_of k" unfolding mem_ok_def by blast
  with mem_history [OF assms(2,3)] assms(4) show ?thesis by (auto simp: mem_tracks_def version_of_inject)
qed

interpretation mem: workspace_contract "in_memory b" mem_ok for b
proof
  fix w p c v r w'
  assume "mem_ok w"
  then show "wb_write_text (in_memory b) p c w = (r, w') \<Longrightarrow> mem_ok w'"
    and "wb_write_text_if_version (in_memory b) p c v w = (r, w') \<Longrightarrow> mem_ok w'"
    using mem_store_ok mem_write_cases by fastforce+
next
  fix w p c v out w' q
  show "wb_write_text (in_memory b) p c w = (Inr out, w') \<Longrightarrow>
      wb_read_text (in_memory b) w' q = (if q = p then Inr c else wb_read_text (in_memory b) w q)"
    and "wb_write_text_if_version (in_memory b) p c v w = (Inr out, w') \<Longrightarrow>
      wb_read_text (in_memory b) w' q = (if q = p then Inr c else wb_read_text (in_memory b) w q)"
    using mem_write_cases(1) [of p c w "Inr out" w'] mem_write_cases(2) [of p c v w "Inr out" w'] by (simp_all add: mem_read_store)
next
  fix w p c v e w' q
  show "wb_write_text (in_memory b) p c w = (Inl e, w') \<Longrightarrow> wb_read_text (in_memory b) w' q = wb_read_text (in_memory b) w q"
    and "wb_write_text_if_version (in_memory b) p c v w = (Inl e, w') \<Longrightarrow> wb_read_text (in_memory b) w' q = wb_read_text (in_memory b) w q"
    using mem_write_cases(1) [of p c w "Inl e" w'] mem_write_cases(2) [of p c v w "Inl e" w'] by simp_all
next
  fix w p c
  show "wb_read_text (in_memory b) w p = Inr c \<longleftrightarrow> (\<exists>v. wb_read_text_with_version (in_memory b) w p = Inr (c, v))"
    by (auto simp: mem_read_text_def mem_read_text_with_version_def split: option.splits)
next
  fix w w' p c v c' out w''
  assume a: "mem_ok w" "history (in_memory b) w w'" "wb_read_text_with_version (in_memory b) w p = Inr (c, v)"
    "wb_write_text_if_version (in_memory b) p c' v w' = (Inr out, w'')"
  then obtain c0 where "map_of (mem_files w) p = Some (c, v)" "map_of (mem_files w') p = Some (c0, v)"
    using mem_write_cases(2) [of p c' v w' "Inr out" w''] by (auto simp: mem_read_text_with_version_def split: option.splits)
  with mem_cas_current [OF a(1,2)] show "wb_read_text (in_memory b) w' p = Inr c"
    by (auto simp: mem_read_text_def)
qed

end
