(* ===== verification/FileToolProperties.thy ===== *)
theory FileToolProperties
  imports FileToolLaws
begin

section \<open>Properties of the file tools\<close>

text \<open>
  The tools over every backend that keeps the contract: a claim of another session stops them, a versioned write loses no
  update, a batch of patches is validated before anything is written, an append can be retried; and what goes wrong when
  a batch names a file twice.
\<close>

subsection \<open>The reading half of a call\<close>

lemma answer_Inr [simp]: "answer r = Inr x \<longleftrightarrow> r = Inr x"
  by (cases r) (simp_all add: answer_def)

lemma answer_Inl: "answer r = Inl out \<Longrightarrow> \<exists>e. r = Inl e \<and> out = Failed e None"
  by (cases r) (simp_all add: answer_def)

lemma require_str_Inr [simp]: "require_str args k = Inr s \<longleftrightarrow> get_str args k = Some s"
  by (auto simp: require_str_def split: option.splits)

lemma resolve_and_read_Inr:
  "resolve_and_read B w f = Inr (p, c, v) \<longleftrightarrow> wb_normalize B f = Inr p \<and> read_for_edit B w p = Inr (c, v)"
  by (auto simp: resolve_and_read_def split: sum.splits)



lemma apply_diff_Inr:
  "apply_diff diff c = Inr (new, n) \<longleftrightarrow>
     (\<exists>hunks. parse_hunks diff = Inr hunks \<and> apply_hunks c hunks = Inr new \<and> n = length hunks)"
  by (auto simp: apply_diff_def split: sum.splits)

lemma stage_entry_Inr:
  assumes "stage_entry B w args = Inr pw"
  shows "get_str args ''file_path'' = Some (pw_file_path pw)"
    and "wb_normalize B (pw_file_path pw) = Inr (pw_path pw)"
    and "read_for_edit B w (pw_path pw) = Inr (pw_before pw, pw_version pw)"
    and "\<exists>diff hunks. get_str args ''diff'' = Some diff \<and> parse_hunks diff = Inr hunks \<and>
      apply_hunks (pw_before pw) hunks = Inr (pw_content pw)"
  using assms
  by (auto simp: stage_entry_def bind_e_Inr_iff resolve_and_read_Inr apply_diff_Inr)


lemma append_prepare_Inr:
  assumes "append_prepare B f c off p w = Inr pw"
  shows "pw_file_path pw = f" "pw_path pw = p" "read_for_edit B w p = Inr (pw_before pw, pw_version pw)"
    "utf8_len (pw_before pw) = off" "pw_content pw = pw_before pw @ c" "int (off + utf8_len c) < 2 ^ 64"
    "pw_success pw = Appended off (utf8_len c) (off + utf8_len c) False"
  using assms by (auto simp: append_prepare_def Let_def split: sum.splits if_splits)

subsection \<open>The writing half of a call\<close>


lemma commit_write_success:
  assumes "commit_write B ctx pw w dirty = (Succeeded s, w', dirty')"
  shows "\<exists>out. write_for_edit B (pw_path pw) (pw_content pw) (pw_version pw) w = (Inr out, w') \<and> s = pw_success pw"
  using assms
  by (auto simp: commit_write_def begin_write_claim_def write_failure_def Let_def split: prod.splits sum.splits)






lemma stage_all_Inr:
  assumes "stage_all B w entries n = Inr staged"
  shows "list_all2 (\<lambda>entry pw. stage_entry B w entry = Inr pw) entries staged"
  using assms
proof (induction entries arbitrary: n staged)
  case (Cons entry entries)
  from Cons.prems obtain pw rest m where "stage_entry B w entry = Inr pw" "staged = pw # rest" "stage_all B w entries m = Inr rest"
    by (cases "stage_all B w entries (n + utf8_len (pw_before (projr (stage_entry B w entry))))")
      (auto simp: bind_e_Inr_iff Let_def split: if_splits)
  with Cons.IH show ?case by simp
qed simp


lemma batch_prepare_Inr:
  "batch_prepare B entries w = Inr staged \<Longrightarrow>
     entries \<noteq> [] \<and> list_all2 (\<lambda>entry pw. stage_entry B w entry = Inr pw) entries staged"
  by (auto simp: batch_prepare_def split: if_splits dest: stage_all_Inr)

lemma batch_failure: "write_all B pws written w = (Inl out, w') \<Longrightarrow> \<exists>f k. out = Failed f k"
  by (induction pws arbitrary: written w) (auto split: prod.splits sum.splits)

lemma overwrite_no_append:
  assumes "commit_overwrite B ctx f p c before w dirty = (Succeeded (Appended a b d e), w', dirty')"
  shows False
  using assms by (auto simp: commit_overwrite_def begin_write_claim_def Let_def split: prod.splits sum.splits)

lemma append_run:
  assumes "write_execute B ctx args w dirty = (Succeeded (Appended off n full False), w', dirty')"
  shows "\<exists>f c p pw. write_target B args = Inr (f, c, Some off, p) \<and> append_prepare B f c off p w = Inr pw \<and>
    commit_write B ctx pw w dirty = (Succeeded (Appended off n full False), w', dirty')"
proof (cases "write_target B args")
  case (Inl e)
  with assms show ?thesis by (simp add: write_execute_def)
next
  case (Inr t)
  obtain f c offset p where t: "t = (f, c, offset, p)" by (cases t) auto
  show ?thesis
  proof (cases offset)
    case None
    with Inr t assms overwrite_no_append show ?thesis by (auto simp: write_execute_def)
  next
    case (Some o1)
    show ?thesis
    proof (cases "append_prepare B f c o1 p w")
      case prep: (Inl out)
      have "out \<noteq> Succeeded (Appended off n full False)"
        using prep by (auto simp: append_prepare_def Let_def split: sum.splits if_splits)
      with prep Inr t Some assms show ?thesis by (simp add: write_execute_def)
    next
      case prep: (Inr pw)
      then have commit: "commit_write B ctx pw w dirty = (Succeeded (Appended off n full False), w', dirty')"
        using Inr t Some assms by (simp add: write_execute_def)
      with commit_write_success [OF commit] append_prepare_Inr(7) [OF prep] have "o1 = off" by auto
      with prep commit Inr t Some show ?thesis by auto
    qed
  qed
qed

text \<open>Claiming a path and giving the claim up again if it is new changes no owner.\<close>

lemma claim_and_release:
  assumes "begin_write_claim ctx f dirty = (Inr newly, d)"
  shows "map_of (release_new_write_claim ctx f newly d) = map_of dirty"
proof -
  obtain s where s: "bound_session (tc_session_id ctx) = Some s"
    using assms by (auto simp: begin_write_claim_def claim_bound_write_def Let_def split: option.splits)
  have newly: "newly = (\<not> session_owns_write (tc_fs ctx) (tc_workspace ctx) s f dirty)"
    and d: "claim_write (tc_fs ctx) (tc_workspace ctx) s f dirty = (Inr (), d)"
    using assms s by (auto simp: begin_write_claim_def claim_bound_write_def Let_def split: prod.splits sum.splits)
  show ?thesis
    using d unfolding release_new_write_claim_def s newly
    by (cases "claim_identity (tc_fs ctx) (tc_workspace ctx) f")
      (auto simp: claim_write_def session_owns_write_def release_write_claim_def fun_eq_iff split: if_splits option.splits)
qed

lemma begin_write_claim_failure: "begin_write_claim ctx f dirty = (Inl out, d) \<Longrightarrow> d = dirty"
  by (auto simp: begin_write_claim_def claim_bound_write_def claim_write_def Let_def
    split: prod.splits sum.splits option.splits if_splits)

lemma commit_write_failure:
  assumes "commit_write B ctx pw w dirty = (Failed e k, w', dirty')"
  shows "map_of dirty' = map_of dirty"
  using assms claim_and_release begin_write_claim_failure
  by (fastforce simp: commit_write_def split: prod.splits sum.splits)

lemma overwrite_failure:
  assumes "commit_overwrite B ctx f p c before w dirty = (Failed e k, w', dirty')"
  shows "map_of dirty' = map_of dirty"
  using assms claim_and_release begin_write_claim_failure
  by (fastforce simp: commit_overwrite_def Let_def split: prod.splits sum.splits)

lemma staged_before:
  assumes "workspace_contract B ok" "ok w"
    and "list_all2 (\<lambda>entry pw. stage_entry B w entry = Inr pw) entries staged" "pw \<in> set staged"
  shows "wb_read_text B w (pw_path pw) = Inr (pw_before pw)"
proof -
  from assms(3,4) obtain entry where "stage_entry B w entry = Inr pw"
    by (induction rule: list_all2_induct) auto
  with workspace_contract.read_for_edit_read [OF assms(1,2) stage_entry_Inr(3)] show ?thesis .
qed

lemma stopped_batch:
  assumes "workspace_contract B ok" "ok w" "write_all B staged [] w = (Inl out, w')"
  shows "(\<forall>q. q \<notin> pw_path ` set staged \<longrightarrow> wb_read_text B w' q = wb_read_text B w q) \<and>
    (\<exists>pre pw post e. staged = pre @ pw # post \<and>
      out = Failed (StoppedAt (pw_file_path pw) e (map pw_file_path pre) (map pw_file_path post)) (from_workspace_error e) \<and>
      (distinct (map pw_path staged) \<longrightarrow> (\<forall>x \<in> set pre. wb_read_text B w' (pw_path x) = Inr (pw_content x))))"
proof -
  note contract = assms(1)
  obtain pre pw post e w1 where split: "staged = pre @ pw # post" "write_all B pre [] w = (Inr (), w1)" "ok w1"
    and failed: "write_for_edit B (pw_path pw) (pw_content pw) (pw_version pw) w1 = (Inl e, w')"
    and out: "out = Failed (StoppedAt (pw_file_path pw) e (map pw_file_path pre) (map pw_file_path post)) (from_workspace_error e)"
    using workspace_contract.write_all_stopped [OF assms] by auto
  note stored = workspace_contract.write_all_stored [OF contract assms(2) split(2)]
  have kept: "wb_read_text B w' q = wb_read_text B w1 q" if "q \<noteq> pw_path pw" for q
    by (rule workspace_contract.read_back_failed [OF contract split(3) failed that])
  have "\<forall>q. q \<notin> pw_path ` set staged \<longrightarrow> wb_read_text B w' q = wb_read_text B w q"
    using stored(1) kept unfolding split(1) by auto
  moreover have "\<forall>x \<in> set pre. wb_read_text B w' (pw_path x) = Inr (pw_content x)" if "distinct (map pw_path staged)"
  proof
    fix x assume x: "x \<in> set pre"
    with that have "pw_path x \<noteq> pw_path pw" "distinct (map pw_path pre)" by (auto simp: split(1) image_iff)
    with stored(2) kept x show "wb_read_text B w' (pw_path x) = Inr (pw_content x)" by simp
  qed
  ultimately show ?thesis using split(1) out by blast
qed

subsection \<open>The properties\<close>


definition demo_ctx :: tool_context where
  "demo_ctx = \<lparr>tc_session_id = Some ''two'', tc_workspace = demo_root, tc_fs = demo_fs\<rparr>"

definition demo_edit :: json where
  "demo_edit = JObject [(''file_path'', JString ''./a''), (''old_string'', JString ''x''), (''new_string'', JString ''y'')]"

definition demo_memory :: memory where
  "demo_memory = mem_store ''a'' (''x'' @ [LF]) memory_new"



lemma demo_memory_ok: "mem_ok demo_memory"
  by (auto simp: demo_memory_def mem_ok_def memory_new_def)


text \<open>A batch of patches is validated before anything is written and reports exactly what it wrote.  A batch with an entry
  that cannot be read, parsed or applied, or that is too large, changes neither workspace nor claims.  When it succeeds on
  files that are all different, every file held the text its patch was worked out from and now holds the patched text.
  When it stops, the report splits the batch: the files before the failure hold their patched text.  No file that the batch
  does not name changes.\<close>

theorem patch_batch_outcome:
  assumes "workspace_contract B ok" and "ok w"
    and "execute_patches B ctx entries w dirty = (out, w', dirty')"
  shows "(\<exists>e. batch_prepare B entries w = Inl e \<and> out = e \<and> w' = w \<and> dirty' = dirty) \<or>
    (\<exists>staged. batch_prepare B entries w = Inr staged \<and> list_all2 (\<lambda>entry pw. stage_entry B w entry = Inr pw) entries staged \<and>
      (\<forall>q. q \<notin> pw_path ` set staged \<longrightarrow> wb_read_text B w' q = wb_read_text B w q) \<and>
      ((\<exists>e. out = Failed (ClaimRefused e) None) \<and> w' = w \<or>
       out = Succeeded (PatchedBatch (length staged)) \<and>
         (distinct (map pw_path staged) \<longrightarrow> (\<forall>pw \<in> set staged.
           wb_read_text B w (pw_path pw) = Inr (pw_before pw) \<and> wb_read_text B w' (pw_path pw) = Inr (pw_content pw))) \<or>
       (\<exists>pre pw post e. staged = pre @ pw # post \<and>
         out = Failed (StoppedAt (pw_file_path pw) e (map pw_file_path pre) (map pw_file_path post)) (from_workspace_error e) \<and>
         (distinct (map pw_path staged) \<longrightarrow> (\<forall>x \<in> set pre. wb_read_text B w' (pw_path x) = Inr (pw_content x)))))) "
proof (cases "batch_prepare B entries w")
  case (Inl e)
  with assms(3) show ?thesis by (simp add: execute_patches_def)
next
  case prepared: (Inr staged)
  note contract = assms(1)
  have entries: "list_all2 (\<lambda>entry pw. stage_entry B w entry = Inr pw) entries staged"
    using batch_prepare_Inr [OF prepared] by blast
  have before: "wb_read_text B w (pw_path pw) = Inr (pw_before pw)" if "pw \<in> set staged" for pw
    using staged_before [OF contract assms(2) entries that] .
  obtain r d where claims: "claim_all ctx staged dirty = (r, d)" by fastforce
  show ?thesis
  proof (cases r)
    case (Inl e)
    with prepared claims assms(3) have "out = Failed (ClaimRefused e) None" "w' = w"
      by (simp_all add: execute_patches_def batch_commit_def)
    with prepared entries show ?thesis by simp
  next
    case (Inr u)
    obtain res w1 where res: "write_all B staged [] w = (res, w1)" by fastforce
    with prepared claims Inr assms(3) have w1: "w' = w1"
      by (auto simp: execute_patches_def batch_commit_def split: sum.splits)
    show ?thesis
    proof (cases res)
      case (Inl f)
      with prepared claims Inr res assms(3) have "out = f" by (simp add: execute_patches_def batch_commit_def)
      with stopped_batch [OF contract assms(2) res [unfolded Inl]] prepared entries w1 show ?thesis by auto
    next
      case (Inr v)
      with prepared claims \<open>r = Inr u\<close> res assms(3) have "out = Succeeded (PatchedBatch (length staged))"
        by (simp add: execute_patches_def batch_commit_def)
      moreover have "write_all B staged [] w = (Inr (), w')" using res Inr w1 by simp
      note stored = workspace_contract.write_all_stored [OF contract assms(2) this]
      ultimately show ?thesis using prepared entries before stored(1,2) by simp
    qed
  qed
qed

definition demo_entry :: "str \<Rightarrow> str \<Rightarrow> str \<Rightarrow> json" where
  "demo_entry f old new =
     JObject [(''file_path'', JString f), (''diff'', JString (''@@ -1,2 +1,2 @@'' @ [LF] @ old @ [LF] @ new))]"

definition demo_two :: memory where
  "demo_two = mem_store ''b'' (''x'' @ [LF] @ ''z'' @ [LF]) (mem_store ''a'' (''x'' @ [LF] @ ''z'' @ [LF]) memory_new)"

definition first_patch :: "str \<Rightarrow> json" where
  "first_patch f = demo_entry f (''-x'' @ [LF] @ ''+y'') '' z''"

definition second_patch :: "str \<Rightarrow> json" where
  "second_patch f = demo_entry f '' x'' (''-z'' @ [LF] @ ''+w'')"

lemma demo_two_ok: "mem_ok demo_two"
  unfolding demo_two_def by (intro mem_store_ok) (simp add: mem_ok_def memory_new_def)

theorem patch_batch_outcome_witness:
  "\<exists>w' dirty'. execute_patches (in_memory True) demo_ctx [first_patch ''a'', second_patch ''b''] demo_two [] =
     (Succeeded (PatchedBatch 2), w', dirty') \<and>
     (\<forall>q. q \<notin> {''a'', ''b''} \<longrightarrow> mem_read_text w' q = mem_read_text demo_two q) \<and>
     mem_read_text w' ''a'' = Inr (''y'' @ [LF] @ ''z'' @ [LF]) \<and> mem_read_text w' ''b'' = Inr (''x'' @ [LF] @ ''w'' @ [LF])"
proof -
  let ?B = "in_memory True" and ?es = "[first_patch ''a'', second_patch ''b'']"
  let ?s = "\<lambda>f c v. \<lparr>pw_file_path = f, pw_path = f, pw_before = ''x'' @ [LF] @ ''z'' @ [LF], pw_content = c,
    pw_version = Some v, pw_success = Patched 1\<rparr>"
  let ?st = "[?s ''a'' (''y'' @ [LF] @ ''z'' @ [LF]) ''v1'', ?s ''b'' (''x'' @ [LF] @ ''w'' @ [LF]) ''v2'']"
  have prep: "batch_prepare ?B ?es demo_two = Inr ?st" by code_simp
  have out: "fst (execute_patches ?B demo_ctx ?es demo_two []) = Succeeded (PatchedBatch 2)" by code_simp
  obtain w' dirty' where run: "execute_patches ?B demo_ctx ?es demo_two [] = (Succeeded (PatchedBatch 2), w', dirty')"
    using out by (cases "execute_patches ?B demo_ctx ?es demo_two []") auto
  have contract: "workspace_contract ?B mem_ok" by (rule mem.workspace_contract_axioms)
  from patch_batch_outcome [OF contract demo_two_ok run] prep run show ?thesis
    by (intro exI [of _ w'] exI [of _ dirty']) auto
qed

text \<open>A batch that names a file twice loses a patch: on a backend without versions, such as a local workspace, both patches are
  worked out from the text the file had before the batch, the second write replaces the first, and the batch reports
  success for both.\<close>

theorem repeated_file_loses_the_first_patch:
  assumes "workspace_contract B ok" and "ok w" and "\<not> wb_versioned B"
    and "stage_entry B w e1 = Inr a" and "stage_entry B w e2 = Inr b" and "pw_path a = pw_path b"
    and "execute_patches B ctx [e1, e2] w dirty = (Succeeded s, w', dirty')"
  shows "s = PatchedBatch 2 \<and> pw_before b = pw_before a \<and> wb_read_text B w (pw_path b) = Inr (pw_before b) \<and>
    wb_read_text B w' (pw_path b) = Inr (pw_content b)"
proof -
  note contract = assms(1)
  have "batch_prepare B [e1, e2] w = Inr [a, b]"
    using assms(4,5,7)
    by (auto simp: execute_patches_def batch_prepare_def answer_def Let_def MAX_PATCH_ENTRIES_def split: if_splits)
  with assms(7) have "write_all B [a, b] [] w = (Inr (), w')" and s: "s = PatchedBatch 2"
    by (auto simp: execute_patches_def batch_commit_def simp del: write_all.simps claim_all.simps split: prod.splits sum.splits
      dest: batch_failure)
  from workspace_contract.write_all_stored(3) [OF contract assms(2) this(1)]
  have "wb_read_text B w' (pw_path b) = Inr (pw_content b)" by simp
  moreover have "wb_read_text B w (pw_path a) = Inr (pw_before a)" "wb_read_text B w (pw_path b) = Inr (pw_before b)"
    using workspace_contract.read_for_edit_read [OF contract assms(2) stage_entry_Inr(3)] assms(4,5) by auto
  ultimately show ?thesis using s assms(6) by simp
qed

theorem repeated_file_loses_the_first_patch_witness:
  "\<exists>w' dirty'. execute_patches (in_memory False) demo_ctx [first_patch ''a'', second_patch ''./a''] demo_two [] =
     (Succeeded (PatchedBatch 2), w', dirty') \<and> mem_read_text w' ''a'' = Inr (''x'' @ [LF] @ ''w'' @ [LF])"
proof -
  let ?B = "in_memory False" and ?es = "[first_patch ''a'', second_patch ''./a'']"
  let ?s = "\<lambda>f c. \<lparr>pw_file_path = f, pw_path = ''a'', pw_before = ''x'' @ [LF] @ ''z'' @ [LF], pw_content = c,
    pw_version = None, pw_success = Patched 1\<rparr>"
  have a: "stage_entry ?B demo_two (first_patch ''a'') = Inr (?s ''a'' (''y'' @ [LF] @ ''z'' @ [LF]))" by code_simp
  have b: "stage_entry ?B demo_two (second_patch ''./a'') = Inr (?s ''./a'' (''x'' @ [LF] @ ''w'' @ [LF]))" by code_simp
  have out: "fst (execute_patches ?B demo_ctx ?es demo_two []) = Succeeded (PatchedBatch 2)" by code_simp
  obtain w' dirty' where run: "execute_patches ?B demo_ctx ?es demo_two [] = (Succeeded (PatchedBatch 2), w', dirty')"
    using out by (cases "execute_patches ?B demo_ctx ?es demo_two []") auto
  have contract: "workspace_contract ?B mem_ok" by (rule mem.workspace_contract_axioms)
  from repeated_file_loses_the_first_patch [OF contract demo_two_ok _ a b _ run] run show ?thesis by auto
qed

text \<open>An append can be retried: once a call has appended a chunk that is not empty, the same call, by whatever session,
  reports the chunk as already applied and changes neither the workspace nor the claims.\<close>

theorem append_can_be_retried:
  assumes "workspace_contract B ok" and "ok w"
    and "write_execute B ctx args w dirty = (Succeeded (Appended off n full False), w', dirty')" and "n > 0"
  shows "write_execute B ctx2 args w' dirty2 = (Succeeded (Appended off n full True), w', dirty2)"
proof -
  note contract = assms(1)
  obtain f c p pw where target: "write_target B args = Inr (f, c, Some off, p)"
    and prep: "append_prepare B f c off p w = Inr pw" and commit: "commit_write B ctx pw w dirty = (Succeeded (Appended off n full False), w', dirty')"
    using append_run [OF assms(3)] by blast
  note pw = append_prepare_Inr [OF prep]
  obtain out where stored: "write_for_edit B p (pw_before pw @ c) (pw_version pw) w = (Inr out, w')"
    and "Appended off n full False = pw_success pw"
    using commit_write_success [OF commit] pw by auto
  with pw(7) have n: "n = utf8_len c" "full = off + n" by auto
  have ok': "ok w'" by (rule workspace_contract.write_for_edit_ok [OF contract assms(2) stored])
  have "wb_read_text B w' p = Inr (pw_before pw @ c)"
    using workspace_contract.read_back [OF contract assms(2) stored, of p] by simp
  then obtain v where reread: "read_for_edit B w' p = Inr (pw_before pw @ c, v)"
    using workspace_contract.read_for_edit_iff [OF contract ok', of p "pw_before pw @ c"] by blast
  have "utf8_len (pw_before pw @ c) = off + n" using pw(4) n by (simp add: utf8_len_def)
  moreover have "already_applied (pw_before pw @ c) off c"
    using pw(4) byte_split_front [of "pw_before pw" c] by (auto simp: already_applied_def utf8_len_def)
  ultimately have "append_prepare B f c off p w' = Inl (Succeeded (Appended off n full True))"
    using reread pw(6) assms(4) n by (simp add: append_prepare_def)
  with target show ?thesis by (simp add: write_execute_def)
qed

theorem append_can_be_retried_witness:
  "let args = JObject [(''file_path'', JString ''a''), (''content'', JString ''y''), (''mode'', JString ''append''), (''expected_offset'', JNumber 2)];
       w' = mem_store ''a'' (''x'' @ [LF] @ ''y'') demo_memory
   in write_execute (in_memory True) demo_ctx args demo_memory [] =
        (Succeeded (Appended 2 1 3 False), w', [(demo_root @ [Normal ''a''], ''two'')]) \<and>
      write_execute (in_memory True) demo_ctx args w' [] = (Succeeded (Appended 2 1 3 True), w', [])"
proof -
  let ?args = "JObject [(''file_path'', JString ''a''), (''content'', JString ''y''), (''mode'', JString ''append''), (''expected_offset'', JNumber 2)]"
  let ?w = "mem_store ''a'' (''x'' @ [LF] @ ''y'') demo_memory"
  have contract: "workspace_contract (in_memory True) mem_ok" by (rule mem.workspace_contract_axioms)
  have run: "write_execute (in_memory True) demo_ctx ?args demo_memory [] =
      (Succeeded (Appended 2 1 3 False), ?w, [(demo_root @ [Normal ''a''], ''two'')])" by code_simp
  show ?thesis
    unfolding Let_def using run append_can_be_retried [OF contract demo_memory_ok run, of demo_ctx "[]"] by simp
qed

text \<open>A call that fails leaves no claim behind: after a failed edit, write, append or patch of one file every path has the
  owner it had before, whatever the reason of the failure.\<close>

theorem failed_call_leaves_no_claim:
  assumes "edit_execute B ctx args w dirty = (Failed e k, w', dirty') \<or> write_execute B ctx args w dirty = (Failed e k, w', dirty') \<or>
    get_array args ''patches'' = None \<and> patch_execute B ctx args w dirty = (Failed e k, w', dirty')"
  shows "map_of dirty' = map_of dirty"
proof -
  note commit = commit_write_failure overwrite_failure
  consider "edit_execute B ctx args w dirty = (Failed e k, w', dirty')" | "write_execute B ctx args w dirty = (Failed e k, w', dirty')" |
    "get_array args ''patches'' = None" "patch_execute B ctx args w dirty = (Failed e k, w', dirty')"
    using assms by (elim disjE conjE)
  then show ?thesis
  proof cases
    case 1
    then show ?thesis by (auto simp: edit_execute_def split: sum.splits dest: commit)
  next
    case 2
    then show ?thesis by (auto simp: write_execute_def split: sum.splits prod.splits option.splits dest: commit)
  next
    case 3
    then show ?thesis by (auto simp: patch_execute_def split: sum.splits dest: commit)
  qed
qed

theorem failed_call_leaves_no_claim_witness:
  "\<exists>dirty'. edit_execute (in_memory True \<lparr>wb_write_text_if_version := (\<lambda>p c v w. (Inl (Timeout ''write'' 5), w))\<rparr>) demo_ctx demo_edit demo_memory [] =
     (Failed (WriteFailed (Timeout ''write'' 5)) (Some (KTimeout ''write'' 0)), demo_memory, dirty') \<and> map_of dirty' = map_of []"
proof -
  let ?B = "in_memory True \<lparr>wb_write_text_if_version := (\<lambda>p c v w. (Inl (Timeout ''write'' 5), w))\<rparr>"
  have run: "edit_execute ?B demo_ctx demo_edit demo_memory [] =
      (Failed (WriteFailed (Timeout ''write'' 5)) (Some (KTimeout ''write'' 0)), demo_memory, [])" by code_simp
  from failed_call_leaves_no_claim [OF disjI1 [OF run]] run show ?thesis by blast
qed

text \<open>A batch whose second claim is refused has written nothing, but keeps the claim of its first file.\<close>

lemma refused_batch_keeps_its_claims:
  "execute_patches (in_memory True) demo_ctx [first_patch ''a'', second_patch ''b''] demo_two [(demo_root @ [Normal ''b''], ''one'')] =
     (Failed (ClaimRefused (OwnedBy (demo_root @ [Normal ''b'']) ''one'')) None, demo_two,
      [(demo_root @ [Normal ''b''], ''one''), (demo_root @ [Normal ''a''], ''two'')])"
  by code_simp

end
