(* ===== verification/RunControls.thy ===== *)
theory RunControls
  imports Prelude "HOL-Library.Word" "HOL-Library.AList" "HOL-Library.List_Lexorder" "HOL-Library.Char_ord"
    "HOL-Library.Product_Lexorder"
begin

section \<open>The run-control inbox\<close>

text \<open>
  \<^verbatim>\<open>core/src/run_control.rs\<close>: the inbox through which a host steers or interrupts a run.  A \<^verbatim>\<open>u64\<close> is a
  64 bit word; a \<^verbatim>\<open>HashMap\<close> is an association list with distinct keys whose order stands for the unspecified
  order of the map; the cancellation token is the flag \<open>ib_cancelled\<close>.

  Code outside the repository, or injected into the inbox, is a parameter: \<open>encode\<close> is the SHA-256 digest of the
  JSON encoding of a request (or the text of the encoder's error), \<open>before\<close> is the answer of the hook executor to
  \<^verbatim>\<open>before_run_control\<close>, and \<open>appends\<close> is the closure that retains a steering message; it may keep state, so it is
  a function of the items it was called with before.  What the executor is told by \<^verbatim>\<open>record_run_control\<close> is the
  list \<open>ib_observed\<close>.

  Every operation holds the admission lock from its first to its last access to the state and is one step.  The
  exception is \<open>submit_with_hooks\<close>: while it awaits the hook, \<^verbatim>\<open>seal_new_requests\<close>, which does not take that lock,
  and the shared cancellation token can change the inbox.  Its argument \<open>during\<close> lists these events.
\<close>

type_synonym u64 = "64 word"

definition saturating_succ :: "u64 \<Rightarrow> u64" where
  "saturating_succ n = (if n = - 1 then n else n + 1)"

subsection \<open>Requests\<close>

definition RUN_CONTROL_REQUEST_SCHEMA_V1 :: str where
  "RUN_CONTROL_REQUEST_SCHEMA_V1 = ''a3s.code.run-control-request.v1''"

definition RUN_CONTROL_RECEIPT_SCHEMA_V1 :: str where
  "RUN_CONTROL_RECEIPT_SCHEMA_V1 = ''a3s.code.run-control-receipt.v1''"

definition RUN_CONTROL_MAX_INPUT_BYTES :: int where
  "RUN_CONTROL_MAX_INPUT_BYTES = 128 * 1024"

definition RUN_CONTROL_MAX_REASON_BYTES :: int where
  "RUN_CONTROL_MAX_REASON_BYTES = 4 * 1024"

definition RUN_CONTROL_MAX_QUEUE :: nat where
  "RUN_CONTROL_MAX_QUEUE = 64"

definition RUN_CONTROL_MAX_SEEN_REQUESTS :: nat where
  "RUN_CONTROL_MAX_SEEN_REQUESTS = 256"

definition RUN_CONTROL_MAX_ID_BYTES :: int where
  "RUN_CONTROL_MAX_ID_BYTES = 512"

datatype run_control_operation = SteerOp | InterruptOp

datatype run_control_command = Steer str | Interrupt "str option" bool

definition operation :: "run_control_command \<Rightarrow> run_control_operation" where
  "operation c = (case c of Steer _ \<Rightarrow> SteerOp | Interrupt _ _ \<Rightarrow> InterruptOp)"

record run_control_request =
  rcq_schema :: str
  rcq_request_id :: str
  rcq_session_id :: "str option"
  rcq_run_id :: str
  rcq_expected_turn_id :: "str option"
  rcq_expected_turn_revision :: "u64 option"
  rcq_command :: run_control_command
  rcq_deadline_ms :: "u64 option"

datatype run_control_error =
    InvalidRequest str
  | SessionMismatch
  | RunMismatch str
  | NoActiveRun
  | StaleTurn "str option" "u64 option" "str option" u64
  | DeadlineExceeded
  | QueueFull
  | Closed
  | DuplicateRequest str
  | HookDenied str
  | HookRetry str u64

fun run_control_error_code :: "run_control_error \<Rightarrow> str" where
  "run_control_error_code (InvalidRequest _) = ''INVALID_REQUEST''"
| "run_control_error_code SessionMismatch = ''SESSION_MISMATCH''"
| "run_control_error_code (RunMismatch _) = ''RUN_MISMATCH''"
| "run_control_error_code NoActiveRun = ''NO_ACTIVE_RUN''"
| "run_control_error_code (StaleTurn _ _ _ _) = ''STALE_TURN''"
| "run_control_error_code DeadlineExceeded = ''DEADLINE_EXCEEDED''"
| "run_control_error_code QueueFull = ''QUEUE_FULL''"
| "run_control_error_code Closed = ''CLOSED''"
| "run_control_error_code (DuplicateRequest _) = ''DUPLICATE_REQUEST''"
| "run_control_error_code (HookDenied _) = ''HOOK_DENIED''"
| "run_control_error_code (HookRetry _ _) = ''HOOK_RETRY''"

text \<open>The identifier \<open>uuid\<close> is the fresh id the source draws.\<close>

definition run_control_request_new :: "str \<Rightarrow> str \<Rightarrow> run_control_command \<Rightarrow> run_control_request" where
  "run_control_request_new uuid run_id command =
     \<lparr>rcq_schema = RUN_CONTROL_REQUEST_SCHEMA_V1, rcq_request_id = uuid, rcq_session_id = None, rcq_run_id = run_id,
      rcq_expected_turn_id = None, rcq_expected_turn_revision = None, rcq_command = command, rcq_deadline_ms = None\<rparr>"

definition run_control_request_steer :: "str \<Rightarrow> str \<Rightarrow> str \<Rightarrow> run_control_request" where
  "run_control_request_steer uuid run_id input = run_control_request_new uuid run_id (Steer input)"

definition run_control_request_interrupt :: "str \<Rightarrow> str \<Rightarrow> run_control_request" where
  "run_control_request_interrupt uuid run_id = run_control_request_new uuid run_id (Interrupt None False)"

definition validate_id :: "str \<Rightarrow> str \<Rightarrow> run_control_error + unit" where
  "validate_id name value =
     (if trim value = [] then Inl (InvalidRequest (name @ '' must not be empty''))
      else if int (utf8_len value) > RUN_CONTROL_MAX_ID_BYTES
        then Inl (InvalidRequest (name @ '' exceeds '' @ ''512'' @ '' bytes''))
      else if list_ex (\<lambda>c. c = CHR 0x00 \<or> c = CR \<or> c = LF) value
        then Inl (InvalidRequest (name @ '' contains a control character''))
      else Inr ())"

definition validate_command :: "run_control_command \<Rightarrow> run_control_error + unit" where
  "validate_command c =
     (case c of
        Steer input \<Rightarrow>
          (if trim input = [] then Inl (InvalidRequest ''steer input must not be empty'')
           else if int (utf8_len input) > RUN_CONTROL_MAX_INPUT_BYTES
             then Inl (InvalidRequest ''steer input exceeds 131072 bytes'')
           else Inr ())
      | Interrupt (Some reason) _ \<Rightarrow>
          (if int (utf8_len reason) > RUN_CONTROL_MAX_REASON_BYTES
           then Inl (InvalidRequest ''interrupt reason exceeds 4096 bytes'') else Inr ())
      | Interrupt None _ \<Rightarrow> Inr ())"

definition validate_optional_id :: "str \<Rightarrow> str option \<Rightarrow> run_control_error + unit" where
  "validate_optional_id name value = (case value of None \<Rightarrow> Inr () | Some v \<Rightarrow> validate_id name v)"

definition validate_request :: "run_control_request \<Rightarrow> run_control_error + unit" where
  "validate_request r =
     (if rcq_schema r \<noteq> RUN_CONTROL_REQUEST_SCHEMA_V1
      then Inl (InvalidRequest (''unsupported schema `'' @ rcq_schema r @ ''`''))
      else bind_e (validate_id ''request_id'' (rcq_request_id r)) (\<lambda>_.
           bind_e (validate_id ''run_id'' (rcq_run_id r)) (\<lambda>_.
           bind_e (validate_optional_id ''session_id'' (rcq_session_id r)) (\<lambda>_.
           bind_e (validate_optional_id ''expected_turn_id'' (rcq_expected_turn_id r)) (\<lambda>_.
           validate_command (rcq_command r))))))"

text \<open>The host's convenience inputs and what they become.\<close>

record steer_request =
  st_input :: str
  st_request_id :: "str option"
  st_run_id :: "str option"
  st_expected_turn_id :: "str option"
  st_expected_turn_revision :: "u64 option"
  st_deadline_ms :: "u64 option"

record interrupt_request =
  in_reason :: "str option"
  in_force :: bool
  in_request_id :: "str option"
  in_run_id :: "str option"
  in_expected_turn_id :: "str option"
  in_expected_turn_revision :: "u64 option"
  in_deadline_ms :: "u64 option"

definition steer_request_new :: "str \<Rightarrow> steer_request" where
  "steer_request_new input =
     \<lparr>st_input = input, st_request_id = None, st_run_id = None, st_expected_turn_id = None,
      st_expected_turn_revision = None, st_deadline_ms = None\<rparr>"

definition interrupt_request_new :: interrupt_request where
  "interrupt_request_new =
     \<lparr>in_reason = None, in_force = False, in_request_id = None, in_run_id = None, in_expected_turn_id = None,
      in_expected_turn_revision = None, in_deadline_ms = None\<rparr>"

definition unwrap_or :: "'a option \<Rightarrow> 'a \<Rightarrow> 'a" where
  "unwrap_or x d = (case x of None \<Rightarrow> d | Some y \<Rightarrow> y)"

definition steer_into_protocol :: "str \<Rightarrow> steer_request \<Rightarrow> str \<Rightarrow> str \<Rightarrow> run_control_request" where
  "steer_into_protocol uuid r session_id active_run_id =
     \<lparr>rcq_schema = RUN_CONTROL_REQUEST_SCHEMA_V1, rcq_request_id = unwrap_or (st_request_id r) uuid,
      rcq_session_id = Some session_id, rcq_run_id = unwrap_or (st_run_id r) active_run_id,
      rcq_expected_turn_id = st_expected_turn_id r, rcq_expected_turn_revision = st_expected_turn_revision r,
      rcq_command = Steer (st_input r), rcq_deadline_ms = st_deadline_ms r\<rparr>"

definition interrupt_into_protocol :: "str \<Rightarrow> interrupt_request \<Rightarrow> str \<Rightarrow> str \<Rightarrow> run_control_request" where
  "interrupt_into_protocol uuid r session_id active_run_id =
     \<lparr>rcq_schema = RUN_CONTROL_REQUEST_SCHEMA_V1, rcq_request_id = unwrap_or (in_request_id r) uuid,
      rcq_session_id = Some session_id, rcq_run_id = unwrap_or (in_run_id r) active_run_id,
      rcq_expected_turn_id = in_expected_turn_id r, rcq_expected_turn_revision = in_expected_turn_revision r,
      rcq_command = Interrupt (in_reason r) (in_force r), rcq_deadline_ms = in_deadline_ms r\<rparr>"

subsection \<open>Receipts and the state of the inbox\<close>

datatype run_control_receipt_state = Accepted | Applied | Rejected | Settled

record run_control_error_info =
  ei_code :: str
  ei_message :: str

record run_control_receipt =
  rcp_schema :: str
  rcp_request_id :: str
  rcp_session_id :: str
  rcp_run_id :: str
  rcp_operation :: run_control_operation
  rcp_state :: run_control_receipt_state
  rcp_sequence :: u64
  rcp_turn_id :: "str option"
  rcp_turn_revision :: u64
  rcp_accepted_at_ms :: u64
  rcp_applied_at_ms :: "u64 option"
  rcp_error :: "run_control_error_info option"

record run_control_snapshot =
  snap_session_id :: str
  snap_run_id :: str
  snap_active :: bool
  snap_turn_id :: "str option"
  snap_turn_revision :: u64
  snap_queued_controls :: nat
  snap_interrupt_requested :: bool
  snap_last_sequence :: u64

record pending_run_control =
  pend_request :: run_control_request
  pend_receipt :: run_control_receipt

record seen_request =
  sq_fingerprint :: str
  sq_request :: run_control_request
  sq_receipt :: run_control_receipt

record inbox =
  ib_session_id :: str
  ib_run_id :: str
  ib_active :: bool
  ib_closed :: bool
  ib_turn_id :: "str option"
  ib_turn_revision :: u64
  ib_queue :: "pending_run_control list"
  ib_in_flight :: "(str \<times> pending_run_control) list"
  ib_seen :: "(str \<times> seen_request) list"
  ib_seen_order :: "str list"
  ib_last_sequence :: u64
  ib_interrupt_requested :: bool
  ib_cancelled :: bool
  ib_hooked :: bool
  ib_observed :: "(run_control_request \<times> run_control_receipt) list"

abbreviation pend_id :: "pending_run_control \<Rightarrow> str" where
  "pend_id p \<equiv> rcp_request_id (pend_receipt p)"

definition new_with_hook_executor :: "str \<Rightarrow> str \<Rightarrow> bool \<Rightarrow> bool \<Rightarrow> inbox" where
  "new_with_hook_executor session_id run_id cancelled hooked =
     \<lparr>ib_session_id = session_id, ib_run_id = run_id, ib_active = True, ib_closed = False, ib_turn_id = None,
      ib_turn_revision = 0, ib_queue = [], ib_in_flight = [], ib_seen = [], ib_seen_order = [], ib_last_sequence = 0,
      ib_interrupt_requested = False, ib_cancelled = cancelled, ib_hooked = hooked, ib_observed = []\<rparr>"

definition inbox_snapshot :: "inbox \<Rightarrow> run_control_snapshot" where
  "inbox_snapshot s =
     \<lparr>snap_session_id = ib_session_id s, snap_run_id = ib_run_id s, snap_active = (ib_active s \<and> \<not> ib_closed s),
      snap_turn_id = ib_turn_id s, snap_turn_revision = ib_turn_revision s, snap_queued_controls = length (ib_queue s),
      snap_interrupt_requested = ib_interrupt_requested s, snap_last_sequence = ib_last_sequence s\<rparr>"

text \<open>A receipt is pending when it is \<open>Accepted\<close>.\<close>

definition is_accepted :: "run_control_receipt \<Rightarrow> bool" where
  "is_accepted r \<longleftrightarrow> rcp_state r = Accepted"

record original_pending_observation =
  queued_accepted :: nat
  in_flight_accepted :: nat
  retained_accepted :: nat

definition has_accepted :: "original_pending_observation \<Rightarrow> bool" where
  "has_accepted ob \<longleftrightarrow> queued_accepted ob \<noteq> 0 \<or> in_flight_accepted ob \<noteq> 0 \<or> retained_accepted ob \<noteq> 0"

definition pending_observation :: "inbox \<Rightarrow> original_pending_observation" where
  "pending_observation s =
     \<lparr>queued_accepted = length (filter (\<lambda>p. is_accepted (pend_receipt p)) (ib_queue s)),
      in_flight_accepted = length (filter (\<lambda>p. is_accepted (pend_receipt p)) (map snd (ib_in_flight s))),
      retained_accepted = length (filter (\<lambda>q. is_accepted (sq_receipt q)) (map snd (ib_seen s)))\<rparr>"

definition note_live :: "pending_run_control \<Rightarrow> (str \<times> pending_run_control) list \<Rightarrow> (str \<times> pending_run_control) list" where
  "note_live p m = (if is_accepted (pend_receipt p) then AList.update (pend_id p) p m else m)"

definition note_seen :: "str \<times> seen_request \<Rightarrow> (str \<times> pending_run_control) list \<Rightarrow> (str \<times> pending_run_control) list" where
  "note_seen entry m =
     (case entry of (request_id, q) \<Rightarrow>
        if is_accepted (sq_receipt q)
        then AList.update request_id \<lparr>pend_request = sq_request q, pend_receipt = sq_receipt q\<rparr> m
        else AList.delete request_id m)"

definition pending_map :: "inbox \<Rightarrow> (str \<times> pending_run_control) list" where
  "pending_map s = fold note_seen (ib_seen s) (fold note_live (ib_queue s @ map snd (ib_in_flight s)) [])"

definition accepted_controls :: "inbox \<Rightarrow> pending_run_control list" where
  "accepted_controls s =
     sort_key (\<lambda>p. (rcp_sequence (pend_receipt p), pend_id p)) (map snd (pending_map s))"

definition trim_candidate :: "inbox \<Rightarrow> str option" where
  "trim_candidate s =
     find (\<lambda>k. case map_of (ib_seen s) k of None \<Rightarrow> True | Some q \<Rightarrow> \<not> is_accepted (sq_receipt q)) (ib_seen_order s)"

function trim_terminal_receipts :: "inbox \<Rightarrow> inbox" where
  "trim_terminal_receipts s =
     (if length (ib_seen s) > RUN_CONTROL_MAX_SEEN_REQUESTS
      then (case trim_candidate s of
          None \<Rightarrow> s
        | Some expired \<Rightarrow>
            trim_terminal_receipts
              (s\<lparr>ib_seen_order := remove1 expired (ib_seen_order s), ib_seen := AList.delete expired (ib_seen s)\<rparr>))
      else s)"
  by pat_completeness auto

termination trim_terminal_receipts
proof (relation "measure (\<lambda>s. length (ib_seen_order s))")
  fix s x assume "trim_candidate s = Some x"
  then have "x \<in> set (ib_seen_order s)" by (auto simp: trim_candidate_def find_Some_iff)
  then show "(s\<lparr>ib_seen_order := remove1 x (ib_seen_order s), ib_seen := AList.delete x (ib_seen s)\<rparr>, s)
      \<in> measure (\<lambda>s. length (ib_seen_order s))"
    using length_pos_if_in_set [of x "ib_seen_order s"] by (simp add: length_remove1)
qed simp

declare trim_terminal_receipts.simps [simp del]

subsection \<open>Admission\<close>

definition request_fingerprint :: "(run_control_request \<Rightarrow> str + str) \<Rightarrow> run_control_request \<Rightarrow> run_control_error + str" where
  "request_fingerprint encode r =
     (case encode r of
        Inl e \<Rightarrow> Inl (InvalidRequest (''could not encode request: '' @ e))
      | Inr digest \<Rightarrow> Inr (''sha256:'' @ digest))"

definition stale_turn :: "run_control_request \<Rightarrow> inbox \<Rightarrow> bool" where
  "stale_turn r s \<longleftrightarrow>
     (rcq_expected_turn_id r \<noteq> None \<and> rcq_expected_turn_id r \<noteq> ib_turn_id s)
     \<or> (case rcq_expected_turn_revision r of None \<Rightarrow> False | Some revision \<Rightarrow> revision \<noteq> ib_turn_revision s)"

text \<open>The checks of a request that has no receipt yet, in the order of the source.\<close>

definition admission_error :: "run_control_request \<Rightarrow> u64 \<Rightarrow> inbox \<Rightarrow> run_control_error option" where
  "admission_error r now_ms s =
     (if (case rcq_session_id r of None \<Rightarrow> False | Some i \<Rightarrow> i \<noteq> ib_session_id s) then Some SessionMismatch
      else if rcq_run_id r \<noteq> ib_run_id s then Some (RunMismatch (rcq_run_id r))
      else if ib_closed s \<or> \<not> ib_active s \<or> ib_cancelled s then Some (if ib_closed s then Closed else NoActiveRun)
      else if (case rcq_deadline_ms r of None \<Rightarrow> False | Some deadline \<Rightarrow> now_ms > deadline) then Some DeadlineExceeded
      else if stale_turn r s
        then Some (StaleTurn (rcq_expected_turn_id r) (rcq_expected_turn_revision r) (ib_turn_id s) (ib_turn_revision s))
      else if length (accepted_controls s) \<ge> RUN_CONTROL_MAX_QUEUE then Some QueueFull
      else None)"

definition accepted_receipt :: "run_control_request \<Rightarrow> u64 \<Rightarrow> inbox \<Rightarrow> run_control_receipt" where
  "accepted_receipt r now_ms s =
     \<lparr>rcp_schema = RUN_CONTROL_RECEIPT_SCHEMA_V1, rcp_request_id = rcq_request_id r, rcp_session_id = ib_session_id s,
      rcp_run_id = ib_run_id s, rcp_operation = operation (rcq_command r), rcp_state = Accepted,
      rcp_sequence = saturating_succ (ib_last_sequence s), rcp_turn_id = ib_turn_id s,
      rcp_turn_revision = ib_turn_revision s, rcp_accepted_at_ms = now_ms, rcp_applied_at_ms = None, rcp_error = None\<rparr>"

definition seal_state :: "inbox \<Rightarrow> inbox" where
  "seal_state s = s\<lparr>ib_active := False, ib_closed := True\<rparr>"

definition admit_request :: "str \<Rightarrow> run_control_request \<Rightarrow> run_control_receipt \<Rightarrow> inbox \<Rightarrow> inbox" where
  "admit_request fingerprint r receipt s =
     (let s = s\<lparr>ib_last_sequence := rcp_sequence receipt\<rparr>;
          s = (if operation (rcq_command r) = InterruptOp
               then seal_state (s\<lparr>ib_interrupt_requested := True\<rparr>) else s);
          id = rcp_request_id receipt
      in trim_terminal_receipts
           (s\<lparr>ib_queue := ib_queue s @ [\<lparr>pend_request = r, pend_receipt = receipt\<rparr>],
              ib_seen := AList.update id \<lparr>sq_fingerprint = fingerprint, sq_request = r, sq_receipt = receipt\<rparr> (ib_seen s),
              ib_seen_order := ib_seen_order s @ [id]\<rparr>))"

definition submit_locked ::
    "(run_control_request \<Rightarrow> str + str) \<Rightarrow> run_control_request \<Rightarrow> u64 \<Rightarrow> inbox
     \<Rightarrow> (run_control_error + run_control_receipt \<times> bool) \<times> inbox" where
  "submit_locked encode r now_ms s =
     (case request_fingerprint encode r of
        Inl e \<Rightarrow> (Inl e, s)
      | Inr fingerprint \<Rightarrow>
          (case map_of (ib_seen s) (rcq_request_id r) of
             Some previous \<Rightarrow>
               (if sq_fingerprint previous = fingerprint then Inr (sq_receipt previous, False)
                else Inl (DuplicateRequest (rcq_request_id r)), s)
           | None \<Rightarrow>
               (case admission_error r now_ms s of
                  Some e \<Rightarrow> (Inl e, s)
                | None \<Rightarrow>
                    (let receipt = accepted_receipt r now_ms s
                     in (Inr (receipt, operation (rcq_command r) = InterruptOp), admit_request fingerprint r receipt s)))))"

definition known_receipt ::
    "(run_control_request \<Rightarrow> str + str) \<Rightarrow> run_control_request \<Rightarrow> inbox \<Rightarrow> run_control_error + run_control_receipt option" where
  "known_receipt encode r s =
     bind_e (request_fingerprint encode r) (\<lambda>fingerprint.
       case map_of (ib_seen s) (rcq_request_id r) of
         None \<Rightarrow> Inr None
       | Some previous \<Rightarrow>
           (if sq_fingerprint previous = fingerprint then Inr (Some (sq_receipt previous))
            else Inl (DuplicateRequest (rcq_request_id r))))"

definition record_receipt :: "run_control_request \<Rightarrow> run_control_receipt \<Rightarrow> inbox \<Rightarrow> inbox" where
  "record_receipt r receipt s = (if ib_hooked s then s\<lparr>ib_observed := ib_observed s @ [(r, receipt)]\<rparr> else s)"

definition seal_new_requests :: "inbox \<Rightarrow> inbox" where
  "seal_new_requests s = seal_state s"

definition seal_and_observe_pending :: "inbox \<Rightarrow> original_pending_observation \<times> inbox" where
  "seal_and_observe_pending s = (let s = seal_state s in (pending_observation s, s))"

text \<open>The cancellation token is shared with the rest of the session, which may fire it at any time.\<close>

definition cancel_token :: "inbox \<Rightarrow> inbox" where
  "cancel_token s = s\<lparr>ib_cancelled := True\<rparr>"

text \<open>The JSON value a hook may continue with is kept as its text; a run control ignores it.\<close>

datatype hook_outcome =
  OutcomeContinue "str option" | OutcomeBlock str | OutcomeRetry str u64 | OutcomeSkip | OutcomeEscalate str "str option"

definition hook_outcome_error :: "hook_outcome \<Rightarrow> run_control_error" where
  "hook_outcome_error outcome =
     (case outcome of
        OutcomeBlock reason \<Rightarrow> HookDenied reason
      | OutcomeRetry reason retry_after_ms \<Rightarrow> HookRetry reason retry_after_ms
      | OutcomeEscalate reason target \<Rightarrow>
          HookDenied (case target of None \<Rightarrow> reason | Some t \<Rightarrow> reason @ '' (escalate to '' @ t @ '')'')
      | _ \<Rightarrow> InvalidRequest ''unexpected non-terminal run-control hook outcome'')"

text \<open>
  The text of an error as \<^verbatim>\<open>to_string\<close> renders it.  \<^verbatim>\<open>Debug\<close> of a string quotes it and escapes quotes, backslashes
  and what is not printable: controls, the no-break space and the soft hyphen in the range of the model.
\<close>

definition hex_digits :: "nat \<Rightarrow> str" where
  "hex_digits n = (let d = (\<lambda>k. ''0123456789abcdef'' ! k) in if n < 16 then [d n] else [d (n div 16), d (n mod 16)])"

definition debug_char :: "char \<Rightarrow> str" where
  "debug_char c =
     (if c = CHR 0x00 then [CHR 0x5C, CHR ''0'']
      else if c = CHR 0x09 then [CHR 0x5C, CHR ''t'']
      else if c = LF then [CHR 0x5C, CHR ''n'']
      else if c = CR then [CHR 0x5C, CHR ''r'']
      else if c = CHR 0x22 \<or> c = CHR 0x5C then [CHR 0x5C, c]
      else if code c < 32 \<or> (127 \<le> code c \<and> code c \<le> 160) \<or> code c = 173
        then CHR 0x5C # ''u{'' @ hex_digits (nat (code c)) @ ''}''
      else [c])"

definition debug_option :: "('a \<Rightarrow> str) \<Rightarrow> 'a option \<Rightarrow> str" where
  "debug_option f x = (case x of None \<Rightarrow> ''None'' | Some y \<Rightarrow> ''Some('' @ f y @ '')'')"

definition debug_str :: "str \<Rightarrow> str" where
  "debug_str t = CHR 0x22 # concat (map debug_char t) @ [CHR 0x22]"

definition show_u64 :: "u64 \<Rightarrow> str" where
  "show_u64 n = show_nat (unat n)"

fun run_control_error_text :: "run_control_error \<Rightarrow> str" where
  "run_control_error_text (InvalidRequest m) = ''invalid run-control request: '' @ m"
| "run_control_error_text SessionMismatch = ''run-control target session does not match the active session''"
| "run_control_error_text (RunMismatch r) = ''run-control target run `'' @ r @ ''` is not the active run''"
| "run_control_error_text NoActiveRun = ''there is no active run to control''"
| "run_control_error_text (StaleTurn expected_turn_id expected_revision actual_turn_id actual_revision) =
     ''stale run-control request: expected turn='' @ debug_option debug_str expected_turn_id @ '', revision=''
     @ debug_option show_u64 expected_revision @ ''; current turn='' @ debug_option debug_str actual_turn_id
     @ '', revision='' @ show_u64 actual_revision"
| "run_control_error_text DeadlineExceeded = ''run-control request deadline has expired''"
| "run_control_error_text QueueFull = ''run-control inbox is full''"
| "run_control_error_text Closed = ''run-control inbox is closed''"
| "run_control_error_text (DuplicateRequest i) = ''request id `'' @ i @ ''` was already used for a different command''"
| "run_control_error_text (HookDenied reason) = ''run-control request was denied by a hook: '' @ reason"
| "run_control_error_text (HookRetry reason ms) =
     ''run-control request must be retried after '' @ show_u64 ms @ '' ms: '' @ reason"

definition rejected_receipt ::
    "run_control_request \<Rightarrow> run_control_snapshot \<Rightarrow> u64 \<Rightarrow> run_control_error \<Rightarrow> run_control_receipt" where
  "rejected_receipt r sn now_ms e =
     \<lparr>rcp_schema = RUN_CONTROL_RECEIPT_SCHEMA_V1, rcp_request_id = rcq_request_id r, rcp_session_id = snap_session_id sn,
      rcp_run_id = rcq_run_id r, rcp_operation = operation (rcq_command r), rcp_state = Rejected, rcp_sequence = 0,
      rcp_turn_id = snap_turn_id sn, rcp_turn_revision = snap_turn_revision sn, rcp_accepted_at_ms = now_ms,
      rcp_applied_at_ms = Some now_ms,
      rcp_error = Some \<lparr>ei_code = run_control_error_code e, ei_message = run_control_error_text e\<rparr>\<rparr>"

text \<open>What can happen to the inbox while the hook of a request is awaited.\<close>

datatype outside_event = OutsideSeal | OutsideCancel

definition outside :: "outside_event \<Rightarrow> inbox \<Rightarrow> inbox" where
  "outside e s = (case e of OutsideSeal \<Rightarrow> seal_new_requests s | OutsideCancel \<Rightarrow> cancel_token s)"

definition hook_continues :: "hook_outcome \<Rightarrow> bool" where
  "hook_continues outcome = (case outcome of OutcomeContinue _ \<Rightarrow> True | OutcomeSkip \<Rightarrow> True | _ \<Rightarrow> False)"

definition admit_with_receipt ::
    "(run_control_request \<Rightarrow> str + str) \<Rightarrow> run_control_request \<Rightarrow> u64 \<Rightarrow> inbox
     \<Rightarrow> (run_control_error + run_control_receipt) \<times> inbox" where
  "admit_with_receipt encode r now_ms s =
     (case submit_locked encode r now_ms s of
        (Inl e, s) \<Rightarrow> (Inl e, s)
      | (Inr (receipt, cancel), s) \<Rightarrow>
          (Inr receipt, record_receipt r receipt (if cancel then cancel_token s else s)))"

definition submit_with_hooks ::
    "(run_control_request \<Rightarrow> str + str) \<Rightarrow> (run_control_request \<Rightarrow> hook_outcome) \<Rightarrow> outside_event list
     \<Rightarrow> run_control_request \<Rightarrow> u64 \<Rightarrow> inbox \<Rightarrow> (run_control_error + run_control_receipt) \<times> inbox" where
  "submit_with_hooks encode before during r now_ms s =
     (case validate_request r of
        Inl e \<Rightarrow> (Inl e, s)
      | Inr _ \<Rightarrow>
          (case known_receipt encode r s of
             Inl e \<Rightarrow> (Inl e, s)
           | Inr (Some receipt) \<Rightarrow> (Inr receipt, s)
           | Inr None \<Rightarrow>
               (let s = fold outside during s
                in if ib_hooked s \<and> \<not> hook_continues (before r)
                   then (let e = hook_outcome_error (before r)
                         in (Inl e, record_receipt r (rejected_receipt r (inbox_snapshot s) now_ms e) s))
                   else admit_with_receipt encode r now_ms s)))"

subsection \<open>Turns, safe points and the end of a run\<close>

definition update_turn_id :: "str \<Rightarrow> inbox \<Rightarrow> run_control_snapshot \<times> inbox" where
  "update_turn_id turn_id s =
     (let s = (if ib_turn_id s \<noteq> Some turn_id
               then s\<lparr>ib_turn_id := Some turn_id, ib_turn_revision := saturating_succ (ib_turn_revision s)\<rparr> else s)
      in (inbox_snapshot s, s))"

definition update_turn :: "nat \<Rightarrow> inbox \<Rightarrow> run_control_snapshot \<times> inbox" where
  "update_turn turn s = update_turn_id (''turn-'' @ show_nat turn) s"

definition drain_inbox :: "inbox \<Rightarrow> pending_run_control list \<times> inbox" where
  "drain_inbox s =
     (let pending = ib_queue s
      in (pending, s\<lparr>ib_queue := [], ib_in_flight := fold (\<lambda>p m. AList.update (pend_id p) p m) pending (ib_in_flight s)\<rparr>))"

definition applied_receipt :: "str option \<Rightarrow> u64 \<Rightarrow> u64 \<Rightarrow> run_control_receipt \<Rightarrow> run_control_receipt" where
  "applied_receipt turn_id turn_revision now_ms receipt =
     receipt\<lparr>rcp_state := Applied, rcp_turn_id := turn_id, rcp_turn_revision := turn_revision,
             rcp_applied_at_ms := Some now_ms\<rparr>"

definition set_receipt :: "str \<Rightarrow> run_control_receipt \<Rightarrow> (str \<times> seen_request) list \<Rightarrow> (str \<times> seen_request) list" where
  "set_receipt request_id receipt = AList.map_entry request_id (\<lambda>q. q\<lparr>sq_receipt := receipt\<rparr>)"

definition mark_applied ::
    "pending_run_control \<Rightarrow> str option \<Rightarrow> u64 \<Rightarrow> u64 \<Rightarrow> inbox \<Rightarrow> run_control_receipt \<times> inbox" where
  "mark_applied pending turn_id turn_revision now_ms s =
     (case map_of (ib_seen s) (pend_id pending) of
        None \<Rightarrow> (pend_receipt pending, s)
      | Some q \<Rightarrow>
          (if \<not> is_accepted (sq_receipt q) then (sq_receipt q, s)
           else (let receipt = applied_receipt turn_id turn_revision now_ms (sq_receipt q)
                 in (receipt, record_receipt (pend_request pending) receipt
                       (s\<lparr>ib_seen := set_receipt (pend_id pending) receipt (ib_seen s),
                          ib_in_flight := AList.delete (rcp_request_id receipt) (ib_in_flight s)\<rparr>)))))"

definition settled_receipt :: "u64 \<Rightarrow> run_control_receipt \<Rightarrow> run_control_receipt" where
  "settled_receipt now_ms receipt =
     receipt\<lparr>rcp_state := Settled, rcp_applied_at_ms := Some now_ms,
             rcp_error := Some \<lparr>ei_code = ''RUN_ENDED'', ei_message = ''run ended before the control reached a safe point''\<rparr>\<rparr>"

definition settle_seen :: "u64 \<Rightarrow> seen_request \<Rightarrow> seen_request" where
  "settle_seen now_ms q = (if is_accepted (sq_receipt q) then q\<lparr>sq_receipt := settled_receipt now_ms (sq_receipt q)\<rparr> else q)"

definition close_inbox :: "u64 \<Rightarrow> inbox \<Rightarrow> inbox" where
  "close_inbox now_ms s =
     (let settled = map (\<lambda>(_, q). (sq_request q, settled_receipt now_ms (sq_receipt q)))
                      (filter (\<lambda>(_, q). is_accepted (sq_receipt q)) (ib_seen s));
          s = (seal_state s)\<lparr>ib_queue := [], ib_in_flight := [], ib_seen := map (\<lambda>(k, q). (k, settle_seen now_ms q)) (ib_seen s)\<rparr>
      in fold (\<lambda>(r, receipt). record_receipt r receipt) settled s)"

definition deactivate :: "u64 \<Rightarrow> inbox \<Rightarrow> inbox" where
  "deactivate now_ms s = close_inbox now_ms s"

subsection \<open>Persist and acknowledge\<close>

text \<open>
  The error type \<open>'e\<close> of the append is that of the effect library; \<open>schema_error\<close> is its constructor
  \<^verbatim>\<open>ActorError::Schema\<close>.  The state of the loop is the inbox, the failure, the decisions and the items \<open>appends\<close> was
  called with.
\<close>

type_synonym 'e appender = "pending_run_control list \<Rightarrow> pending_run_control \<Rightarrow> 'e option"

record 'e persisting =
  ps_inbox :: inbox
  ps_failure :: "'e option"
  ps_decisions :: "pending_run_control list"
  ps_appended :: "pending_run_control list"

definition persistence_failure :: run_control_error_info where
  "persistence_failure =
     \<lparr>ei_code = ''STEER_PERSISTENCE_FAILED'',
      ei_message = ''input retention failed; this input was not acknowledged as persisted''\<rparr>"

definition decided_receipt :: "bool \<Rightarrow> u64 \<Rightarrow> inbox \<Rightarrow> run_control_receipt \<Rightarrow> run_control_receipt" where
  "decided_receipt failed now_ms s receipt =
     receipt\<lparr>rcp_turn_id := ib_turn_id s, rcp_turn_revision := ib_turn_revision s, rcp_applied_at_ms := Some now_ms,
             rcp_state := (if failed then Settled else Applied),
             rcp_error := (if failed then Some persistence_failure else None)\<rparr>"

definition file_decision :: "run_control_error + str \<Rightarrow> pending_run_control \<Rightarrow> inbox \<Rightarrow> inbox" where
  "file_decision fingerprint item s =
     (let id = pend_id item;
          s = (case map_of (ib_seen s) id of
                 Some _ \<Rightarrow> s\<lparr>ib_seen := set_receipt id (pend_receipt item) (ib_seen s)\<rparr>
               | None \<Rightarrow>
                   (case fingerprint of
                      Inl _ \<Rightarrow> s
                    | Inr f \<Rightarrow>
                        s\<lparr>ib_seen_order := ib_seen_order s @ [id],
                          ib_seen := AList.update id \<lparr>sq_fingerprint = f, sq_request = pend_request item,
                            sq_receipt = pend_receipt item\<rparr> (ib_seen s)\<rparr>))
      in s\<lparr>ib_queue := filter (\<lambda>p. pend_id p \<noteq> id) (ib_queue s), ib_in_flight := AList.delete id (ib_in_flight s)\<rparr>)"

definition is_steer :: "run_control_command \<Rightarrow> bool" where
  "is_steer c = (case c of Steer _ \<Rightarrow> True | Interrupt _ _ \<Rightarrow> False)"

definition persist_item ::
    "(run_control_request \<Rightarrow> str + str) \<Rightarrow> (str \<Rightarrow> 'e) \<Rightarrow> 'e appender \<Rightarrow> u64 \<Rightarrow> pending_run_control \<Rightarrow> 'e persisting \<Rightarrow> 'e persisting" where
  "persist_item encode schema_error appends now_ms item ps =
     (let fingerprint = request_fingerprint encode (pend_request item);
          failure = (case (ps_failure ps, fingerprint) of
                       (None, Inl e) \<Rightarrow> Some (schema_error (run_control_error_text e))
                     | (f, _) \<Rightarrow> f);
          steer = is_steer (rcq_command (pend_request item));
          calls = steer \<and> failure = None;
          failure = (if calls then appends (ps_appended ps) item else failure);
          item' = item\<lparr>pend_receipt := decided_receipt (steer \<and> failure \<noteq> None) now_ms (ps_inbox ps) (pend_receipt item)\<rparr>
      in \<lparr>ps_inbox = file_decision fingerprint item' (ps_inbox ps), ps_failure = failure,
          ps_decisions = ps_decisions ps @ [item'],
          ps_appended = ps_appended ps @ (if calls then [item] else [])\<rparr>)"

definition retire_terminal :: "inbox \<Rightarrow> inbox" where
  "retire_terminal s =
     (let terminal_ids = map fst (filter (\<lambda>(_, q). \<not> is_accepted (sq_receipt q)) (ib_seen s))
      in s\<lparr>ib_queue := filter (\<lambda>p. pend_id p \<notin> set terminal_ids) (ib_queue s),
           ib_in_flight := filter (\<lambda>(k, _). k \<notin> set terminal_ids) (ib_in_flight s)\<rparr>)"

definition persist_pending ::
    "(run_control_request \<Rightarrow> str + str) \<Rightarrow> (str \<Rightarrow> 'e) \<Rightarrow> 'e appender \<Rightarrow> bool \<Rightarrow> u64 \<Rightarrow> inbox
     \<Rightarrow> 'e persisting \<times> original_pending_observation" where
  "persist_pending encode schema_error appends terminal now_ms s =
     (let s = retire_terminal (if terminal then seal_state s else s);
          ps = fold (persist_item encode schema_error appends now_ms) (accepted_controls s)
                 \<lparr>ps_inbox = s, ps_failure = None, ps_decisions = [], ps_appended = []\<rparr>;
          s = trim_terminal_receipts (ps_inbox ps)
      in (ps\<lparr>ps_inbox := s\<rparr>, pending_observation s))"

definition observe_decisions :: "pending_run_control list \<Rightarrow> inbox \<Rightarrow> inbox" where
  "observe_decisions decisions s = fold (\<lambda>p. record_receipt (pend_request p) (pend_receipt p)) decisions s"

subsection \<open>The loop's safe point and the session's entry points\<close>

record run_control_applied =
  ra_request_id :: str
  ra_operation :: run_control_operation
  ra_turn_id :: "str option"
  ra_turn_revision :: u64
  ra_input :: "str option"
  ra_reason :: "str option"

definition applied_event :: "pending_run_control \<Rightarrow> run_control_receipt \<Rightarrow> run_control_applied" where
  "applied_event p receipt =
     \<lparr>ra_request_id = rcp_request_id receipt, ra_operation = rcp_operation receipt, ra_turn_id = rcp_turn_id receipt,
      ra_turn_revision = rcp_turn_revision receipt,
      ra_input = (case rcq_command (pend_request p) of Steer input \<Rightarrow> Some input | Interrupt _ _ \<Rightarrow> None),
      ra_reason = (case rcq_command (pend_request p) of Steer _ \<Rightarrow> None | Interrupt reason _ \<Rightarrow> reason)\<rparr>"

definition apply_control ::
    "bool \<Rightarrow> run_control_snapshot \<Rightarrow> u64 \<Rightarrow> pending_run_control \<Rightarrow> run_control_applied list \<times> inbox
     \<Rightarrow> run_control_applied list \<times> inbox" where
  "apply_control sending sn now_ms p acc =
     (case mark_applied p (snap_turn_id sn) (snap_turn_revision sn) now_ms (snd acc) of
        (receipt, s) \<Rightarrow>
          (if rcp_state receipt = Applied \<and> sending then fst acc @ [applied_event p receipt] else fst acc, s))"

definition apply_pending_run_controls ::
    "bool \<Rightarrow> run_control_snapshot \<Rightarrow> u64 \<Rightarrow> inbox \<Rightarrow> run_control_applied list \<times> inbox" where
  "apply_pending_run_controls sending sn now_ms s =
     (case drain_inbox s of (pending, s) \<Rightarrow> fold (apply_control sending sn now_ms) pending ([], s))"

text \<open>The facade of a session; the inbox of the active run is absent when no run is active.\<close>

definition session_steer ::
    "(run_control_request \<Rightarrow> str + str) \<Rightarrow> (run_control_request \<Rightarrow> hook_outcome) \<Rightarrow> outside_event list \<Rightarrow> str \<Rightarrow> str
     \<Rightarrow> steer_request \<Rightarrow> u64 \<Rightarrow> inbox option \<Rightarrow> (run_control_error + run_control_receipt) \<times> inbox option" where
  "session_steer encode before during uuid session_id request now_ms control =
     (case control of
        None \<Rightarrow> (Inl NoActiveRun, None)
      | Some s \<Rightarrow>
          map_prod (\<lambda>x. x) Some
            (submit_with_hooks encode before during (steer_into_protocol uuid request session_id (ib_run_id s)) now_ms s))"

definition session_interrupt ::
    "(run_control_request \<Rightarrow> str + str) \<Rightarrow> (run_control_request \<Rightarrow> hook_outcome) \<Rightarrow> outside_event list \<Rightarrow> str \<Rightarrow> str
     \<Rightarrow> interrupt_request \<Rightarrow> u64 \<Rightarrow> inbox option \<Rightarrow> (run_control_error + run_control_receipt) \<times> inbox option" where
  "session_interrupt encode before during uuid session_id request now_ms control =
     (case control of
        None \<Rightarrow> (Inl NoActiveRun, None)
      | Some s \<Rightarrow>
          map_prod (\<lambda>x. x) Some
            (submit_with_hooks encode before during (interrupt_into_protocol uuid request session_id (ib_run_id s)) now_ms s))"

definition session_run_control_snapshot :: "inbox option \<Rightarrow> run_control_snapshot option" where
  "session_run_control_snapshot control = map_option inbox_snapshot control"

end
