(* ===== verification/RunControlLaws.thy ===== *)
theory RunControlLaws
  imports RunControls
begin

section \<open>Laws of the run-control inbox\<close>

text \<open>
  The receipt of a request (\<open>receipt_of\<close>), the effect of every operation on the receipts, the invariant
  \<open>inbox_ok\<close> and that every step of a run keeps it.
\<close>

subsection \<open>Receipts\<close>

definition receipt_of :: "inbox \<Rightarrow> str \<Rightarrow> run_control_receipt option" where
  "receipt_of s k = map_option sq_receipt (map_of (ib_seen s) k)"

definition pending_ids :: "inbox \<Rightarrow> str set" where
  "pending_ids s = {k. \<exists>r. receipt_of s k = Some r \<and> is_accepted r}"

lemma pending_ids_keys: "pending_ids s \<subseteq> fst ` set (ib_seen s)"
  by (force simp: pending_ids_def receipt_of_def dest: map_of_SomeD)

lemma finite_pending_ids [simp]: "finite (pending_ids s)"
  using finite_subset [OF pending_ids_keys] by simp

lemma receipt_of_None_iff: "receipt_of s k = None \<longleftrightarrow> k \<notin> fst ` set (ib_seen s)"
  by (simp add: receipt_of_def map_of_eq_None_iff)

lemma decided_not_pending: "receipt_of s k = Some r \<Longrightarrow> \<not> is_accepted r \<Longrightarrow> k \<notin> pending_ids s"
  by (simp add: pending_ids_def)

subsection \<open>Accepted controls\<close>

lemma note_live_keys: "distinct (map fst m) \<Longrightarrow> distinct (map fst (fold note_live ps m))"
  by (induction ps arbitrary: m) (auto simp: note_live_def distinct_update)

lemma note_seen_keys: "distinct (map fst m) \<Longrightarrow> distinct (map fst (fold note_seen xs m))"
  by (induction xs arbitrary: m) (auto simp: note_seen_def distinct_update distinct_delete split: prod.splits)

lemma note_seen_lookup:
  "distinct (map fst xs) \<Longrightarrow>
     map_of (fold note_seen xs m) k =
       (case map_of xs k of
          None \<Rightarrow> map_of m k
        | Some q \<Rightarrow>
            if is_accepted (sq_receipt q) then Some \<lparr>pend_request = sq_request q, pend_receipt = sq_receipt q\<rparr> else None)"
proof (induction xs arbitrary: m)
  case Nil
  then show ?case by simp
next
  case (Cons x xs)
  obtain j q where x: "x = (j, q)" by (cases x)
  have "map_of xs j = None" using Cons.prems x by (auto simp: map_of_eq_None_iff)
  then show ?case
    using Cons.IH [of "note_seen x m"] Cons.prems x
    by (auto simp: note_seen_def update_conv' delete_conv' split: option.splits)
qed

lemma pending_map_distinct: "distinct (map fst (pending_map s))"
  unfolding pending_map_def by (intro note_seen_keys note_live_keys) simp

lemma set_accepted_controls: "set (accepted_controls s) = snd ` set (pending_map s)"
  by (simp add: accepted_controls_def)

lemma length_accepted_controls: "length (accepted_controls s) = card (fst ` set (pending_map s))"
  using distinct_card [OF pending_map_distinct, of s] by (simp add: accepted_controls_def)

lemma pending_map_lookup:
  assumes "distinct (map fst (ib_seen s))" and "map_of (ib_seen s) k = Some q"
  shows "map_of (pending_map s) k =
    (if is_accepted (sq_receipt q) then Some \<lparr>pend_request = sq_request q, pend_receipt = sq_receipt q\<rparr> else None)"
  unfolding pending_map_def using note_seen_lookup [OF assms(1)] assms(2) by simp

lemma pending_ids_in_map: "distinct (map fst (ib_seen s)) \<Longrightarrow> pending_ids s \<subseteq> fst ` set (pending_map s)"
proof
  fix k assume ok: "distinct (map fst (ib_seen s))" and "k \<in> pending_ids s"
  then obtain q where "map_of (ib_seen s) k = Some q" "is_accepted (sq_receipt q)"
    by (auto simp: pending_ids_def receipt_of_def)
  then have "map_of (pending_map s) k = Some \<lparr>pend_request = sq_request q, pend_receipt = sq_receipt q\<rparr>"
    using pending_map_lookup [OF ok] by simp
  then show "k \<in> fst ` set (pending_map s)" by (force dest: map_of_SomeD)
qed

lemma pending_below_queue_limit:
  "distinct (map fst (ib_seen s)) \<Longrightarrow> length (accepted_controls s) < n \<Longrightarrow> card (pending_ids s) < n"
  using card_mono [OF _ pending_ids_in_map, of s] by (simp add: length_accepted_controls)

subsection \<open>Trimming\<close>

lemma trim_frame [simp]:
  "ib_session_id (trim_terminal_receipts s) = ib_session_id s"
  "ib_run_id (trim_terminal_receipts s) = ib_run_id s"
  "ib_active (trim_terminal_receipts s) = ib_active s"
  "ib_closed (trim_terminal_receipts s) = ib_closed s"
  "ib_turn_id (trim_terminal_receipts s) = ib_turn_id s"
  "ib_turn_revision (trim_terminal_receipts s) = ib_turn_revision s"
  "ib_queue (trim_terminal_receipts s) = ib_queue s"
  "ib_in_flight (trim_terminal_receipts s) = ib_in_flight s"
  "ib_last_sequence (trim_terminal_receipts s) = ib_last_sequence s"
  "ib_interrupt_requested (trim_terminal_receipts s) = ib_interrupt_requested s"
  "ib_cancelled (trim_terminal_receipts s) = ib_cancelled s"
  "ib_hooked (trim_terminal_receipts s) = ib_hooked s"
  "ib_observed (trim_terminal_receipts s) = ib_observed s"
proof (induction s rule: trim_terminal_receipts.induct)
  case (1 s)
  show
    "ib_session_id (trim_terminal_receipts s) = ib_session_id s"
    "ib_run_id (trim_terminal_receipts s) = ib_run_id s"
    "ib_active (trim_terminal_receipts s) = ib_active s"
    "ib_closed (trim_terminal_receipts s) = ib_closed s"
    "ib_turn_id (trim_terminal_receipts s) = ib_turn_id s"
    "ib_turn_revision (trim_terminal_receipts s) = ib_turn_revision s"
    "ib_queue (trim_terminal_receipts s) = ib_queue s"
    "ib_in_flight (trim_terminal_receipts s) = ib_in_flight s"
    "ib_last_sequence (trim_terminal_receipts s) = ib_last_sequence s"
    "ib_interrupt_requested (trim_terminal_receipts s) = ib_interrupt_requested s"
    "ib_cancelled (trim_terminal_receipts s) = ib_cancelled s"
    "ib_hooked (trim_terminal_receipts s) = ib_hooked s"
    "ib_observed (trim_terminal_receipts s) = ib_observed s"
    using 1 by (subst trim_terminal_receipts.simps, simp split: option.split)+
qed

text \<open>The book of receipts: distinct keys, and the order of admission lists exactly the keys.\<close>

definition book_ok :: "inbox \<Rightarrow> bool" where
  "book_ok s \<longleftrightarrow>
     distinct (map fst (ib_seen s)) \<and> distinct (ib_seen_order s) \<and> set (ib_seen_order s) = fst ` set (ib_seen s)"

lemma book_length: "book_ok s \<Longrightarrow> length (ib_seen s) = length (ib_seen_order s)"
  unfolding book_ok_def by (metis distinct_card length_map list.set_map)

definition drop_receipt :: "str \<Rightarrow> inbox \<Rightarrow> inbox" where
  "drop_receipt k s = s\<lparr>ib_seen_order := remove1 k (ib_seen_order s), ib_seen := AList.delete k (ib_seen s)\<rparr>"

lemma trim_unfold:
  "trim_terminal_receipts s =
     (if length (ib_seen s) > RUN_CONTROL_MAX_SEEN_REQUESTS
      then (case trim_candidate s of None \<Rightarrow> s | Some k \<Rightarrow> trim_terminal_receipts (drop_receipt k s)) else s)"
  unfolding drop_receipt_def by (rule trim_terminal_receipts.simps)

lemma trim_induct [case_names trim]:
  assumes "\<And>s. (\<And>k. length (ib_seen s) > RUN_CONTROL_MAX_SEEN_REQUESTS \<Longrightarrow> trim_candidate s = Some k \<Longrightarrow> P (drop_receipt k s)) \<Longrightarrow> P s"
  shows "P s"
  using assms unfolding drop_receipt_def by (induction s rule: trim_terminal_receipts.induct) blast

lemma receipt_of_drop: "receipt_of (drop_receipt k s) j = (if j = k then None else receipt_of s j)"
  by (simp add: receipt_of_def drop_receipt_def delete_conv')

lemma delete_key_set: "fst ` set (AList.delete k m) = fst ` set m - {k}"
  by (metis delete_keys list.set_map set_removeAll)

lemma book_drop: "book_ok s \<Longrightarrow> book_ok (drop_receipt k s)"
  by (simp add: book_ok_def drop_receipt_def distinct_delete delete_key_set)

lemma trim_candidate_decided:
  "trim_candidate s = Some k \<Longrightarrow> k \<in> set (ib_seen_order s) \<and> k \<notin> pending_ids s"
  by (auto simp: trim_candidate_def find_Some_iff pending_ids_def receipt_of_def split: option.splits)

lemma trim_candidate_None: "trim_candidate s = None \<Longrightarrow> set (ib_seen_order s) \<subseteq> pending_ids s"
  by (auto simp: trim_candidate_def find_None_iff pending_ids_def receipt_of_def split: option.splits)

lemma pending_drop: "trim_candidate s = Some k \<Longrightarrow> pending_ids (drop_receipt k s) = pending_ids s"
  using trim_candidate_decided [of s k] by (auto simp: pending_ids_def receipt_of_drop)

lemma book_trim: "book_ok s \<Longrightarrow> book_ok (trim_terminal_receipts s)"
  by (induction s rule: trim_induct) (subst trim_unfold, auto simp: book_drop split: option.split)

lemma pending_trim [simp]: "pending_ids (trim_terminal_receipts s) = pending_ids s"
  by (induction s rule: trim_induct) (subst trim_unfold, auto simp: pending_drop split: option.split)

lemma seen_trim:
  "map_of (ib_seen (trim_terminal_receipts s)) k = map_of (ib_seen s) k
   \<or> (map_of (ib_seen (trim_terminal_receipts s)) k = None \<and> k \<notin> pending_ids s)"
proof (induction s rule: trim_induct)
  case (trim s)
  show ?case
  proof (cases "length (ib_seen s) > RUN_CONTROL_MAX_SEEN_REQUESTS \<and> trim_candidate s \<noteq> None")
    case True
    then obtain x where big: "length (ib_seen s) > RUN_CONTROL_MAX_SEEN_REQUESTS" and x: "trim_candidate s = Some x" by auto
    have "trim_terminal_receipts s = trim_terminal_receipts (drop_receipt x s)"
      using big x by (subst trim_unfold) simp
    moreover note trim [OF big x] pending_drop [OF x] trim_candidate_decided [OF x]
    ultimately show ?thesis by (auto simp: drop_receipt_def delete_conv' split: if_splits)
  next
    case False
    then have "trim_terminal_receipts s = s" by (subst trim_unfold) auto
    then show ?thesis by simp
  qed
qed

lemma seen_trim_pending: "k \<in> pending_ids s \<Longrightarrow> map_of (ib_seen (trim_terminal_receipts s)) k = map_of (ib_seen s) k"
  using seen_trim [of s k] by blast

lemma receipt_of_trim:
  "receipt_of (trim_terminal_receipts s) k = receipt_of s k
   \<or> (receipt_of (trim_terminal_receipts s) k = None \<and> k \<notin> pending_ids s)"
  using seen_trim [of s k] by (auto simp: receipt_of_def)

lemma receipt_of_trim_pending: "k \<in> pending_ids s \<Longrightarrow> receipt_of (trim_terminal_receipts s) k = receipt_of s k"
  using receipt_of_trim [of s k] by blast

lemma trim_within_limit:
  assumes "book_ok s" and "card (pending_ids s) \<le> RUN_CONTROL_MAX_SEEN_REQUESTS"
  shows "length (ib_seen (trim_terminal_receipts s)) \<le> RUN_CONTROL_MAX_SEEN_REQUESTS"
  using assms
proof (induction s rule: trim_induct)
  case (trim s)
  show ?case
  proof (cases "length (ib_seen s) > RUN_CONTROL_MAX_SEEN_REQUESTS")
    case True
    have "trim_candidate s \<noteq> None"
    proof
      assume "trim_candidate s = None"
      then have "card (set (ib_seen_order s)) \<le> card (pending_ids s)"
        by (intro card_mono trim_candidate_None) simp_all
      moreover have "card (set (ib_seen_order s)) = length (ib_seen s)"
        using trim.prems(1) book_length [OF trim.prems(1)] distinct_card [of "ib_seen_order s"]
        unfolding book_ok_def by metis
      ultimately show False using trim.prems(2) True by linarith
    qed
    then obtain x where x: "trim_candidate s = Some x" by auto
    have "trim_terminal_receipts s = trim_terminal_receipts (drop_receipt x s)"
      using True x by (subst trim_unfold) simp
    then show ?thesis using trim.IH [OF True x book_drop [OF trim.prems(1)]] trim.prems(2) pending_drop [OF x] by simp
  next
    case False
    then show ?thesis by (subst trim_unfold) simp
  qed
qed

subsection \<open>The invariant\<close>

text \<open>A pending control as the book of receipts knows it.\<close>

definition held :: "inbox \<Rightarrow> pending_run_control \<Rightarrow> bool" where
  "held s p \<longleftrightarrow>
     (\<exists>q. map_of (ib_seen s) (pend_id p) = Some q \<and> sq_request q = pend_request p \<and> sq_receipt q = pend_receipt p)
     \<and> is_accepted (pend_receipt p)"

definition live_ids :: "inbox \<Rightarrow> str list" where
  "live_ids s = map pend_id (ib_queue s) @ map fst (ib_in_flight s)"

text \<open>Every accepted receipt belongs to exactly one control, which is queued or in flight.\<close>

definition owned :: "inbox \<Rightarrow> bool" where
  "owned s \<longleftrightarrow>
     distinct (live_ids s) \<and> set (live_ids s) = pending_ids s \<and> (\<forall>p\<in>set (ib_queue s). held s p)
     \<and> (\<forall>(k, p)\<in>set (ib_in_flight s). k = pend_id p \<and> held s p)"

definition receipts_ok :: "inbox \<Rightarrow> bool" where
  "receipts_ok s \<longleftrightarrow> (\<forall>k r. receipt_of s k = Some r \<longrightarrow> rcp_request_id r = k \<and> rcp_state r \<noteq> Rejected)"

definition within_limits :: "inbox \<Rightarrow> bool" where
  "within_limits s \<longleftrightarrow>
     card (pending_ids s) \<le> RUN_CONTROL_MAX_QUEUE \<and> length (ib_seen s) \<le> RUN_CONTROL_MAX_SEEN_REQUESTS"

definition interrupt_seals :: "inbox \<Rightarrow> bool" where
  "interrupt_seals s \<longleftrightarrow> (ib_interrupt_requested s \<longrightarrow> ib_closed s \<and> \<not> ib_active s \<and> ib_cancelled s)"

definition inbox_ok :: "inbox \<Rightarrow> bool" where
  "inbox_ok s \<longleftrightarrow> book_ok s \<and> owned s \<and> receipts_ok s \<and> within_limits s \<and> interrupt_seals s"

lemma inbox_okI: "book_ok s \<Longrightarrow> owned s \<Longrightarrow> receipts_ok s \<Longrightarrow> within_limits s \<Longrightarrow> interrupt_seals s \<Longrightarrow> inbox_ok s"
  by (simp add: inbox_ok_def)

lemma inbox_okD:
  assumes "inbox_ok s"
  shows "book_ok s" "owned s" "receipts_ok s" "within_limits s" "interrupt_seals s"
  using assms by (simp_all add: inbox_ok_def)

lemma new_inbox_ok: "inbox_ok (new_with_hook_executor session_id run_id cancelled hooked)"
  by (auto simp: inbox_ok_def book_ok_def owned_def live_ids_def receipts_ok_def within_limits_def interrupt_seals_def
      new_with_hook_executor_def pending_ids_def receipt_of_def)

lemma held_pending: "held s p \<Longrightarrow> pend_id p \<in> pending_ids s"
  by (auto simp: held_def pending_ids_def receipt_of_def)

lemma in_flight_held: "inbox_ok s \<Longrightarrow> (k, p) \<in> set (ib_in_flight s) \<Longrightarrow> k = pend_id p \<and> held s p"
  using inbox_okD(2) [of s] unfolding owned_def by auto

lemma queue_held: "inbox_ok s \<Longrightarrow> p \<in> set (ib_queue s) \<Longrightarrow> held s p"
  using inbox_okD(2) [of s] unfolding owned_def by auto

text \<open>Operations that leave the book and the controls alone.\<close>

definition same_controls :: "inbox \<Rightarrow> inbox \<Rightarrow> bool" where
  "same_controls s t \<longleftrightarrow>
     ib_queue t = ib_queue s \<and> ib_in_flight t = ib_in_flight s \<and> ib_seen t = ib_seen s \<and> ib_seen_order t = ib_seen_order s
     \<and> ib_session_id t = ib_session_id s \<and> ib_run_id t = ib_run_id s
     \<and> ib_interrupt_requested t = ib_interrupt_requested s \<and> (ib_closed s \<longrightarrow> ib_closed t) \<and> (\<not> ib_active s \<longrightarrow> \<not> ib_active t)
     \<and> (ib_cancelled s \<longrightarrow> ib_cancelled t) \<and> ib_hooked t = ib_hooked s"

lemma same_controls_trans: "same_controls s t \<Longrightarrow> same_controls t u \<Longrightarrow> same_controls s u"
  by (auto simp: same_controls_def)

lemma same_controls_refl [simp]: "same_controls s s"
  by (simp add: same_controls_def)

lemma same_controls_receipts: "same_controls s t \<Longrightarrow> receipt_of t = receipt_of s"
  by (auto simp: same_controls_def receipt_of_def)

lemma same_controls_pending: "same_controls s t \<Longrightarrow> pending_ids t = pending_ids s"
  by (simp add: pending_ids_def same_controls_receipts)

lemma same_controls_ok:
  assumes "same_controls s t" and "inbox_ok s"
  shows "inbox_ok t"
proof -
  have "held t = held s" using assms(1) by (auto simp: same_controls_def held_def fun_eq_iff)
  moreover have "live_ids t = live_ids s" using assms(1) by (simp add: same_controls_def live_ids_def)
  ultimately show ?thesis
    using assms same_controls_receipts [OF assms(1)] same_controls_pending [OF assms(1)]
    by (auto simp: inbox_ok_def book_ok_def owned_def receipts_ok_def within_limits_def interrupt_seals_def same_controls_def)
qed

lemma same_controls_record: "same_controls s (record_receipt r receipt s)"
  by (simp add: same_controls_def record_receipt_def)

lemma same_controls_seal: "same_controls s (seal_state s)"
  by (simp add: same_controls_def seal_state_def)

lemma same_controls_cancel: "same_controls s (cancel_token s)"
  by (simp add: same_controls_def cancel_token_def)

lemma same_controls_turn: "same_controls s (snd (update_turn_id turn_id s))"
  by (simp add: same_controls_def update_turn_id_def Let_def)

lemma same_controls_outside: "same_controls s (fold outside during s)"
proof (induction during arbitrary: s)
  case (Cons e during)
  have "same_controls s (outside e s)"
    by (cases e) (simp_all add: outside_def seal_new_requests_def same_controls_seal same_controls_cancel)
  then show ?case using Cons.IH [of "outside e s"] same_controls_trans by fastforce
qed simp

lemma same_controls_observe: "same_controls s (observe_decisions ds s)"
  unfolding observe_decisions_def
proof (induction ds arbitrary: s)
  case (Cons d ds)
  then show ?case using same_controls_record same_controls_trans by fastforce
qed simp

subsection \<open>Deciding a pending control\<close>

definition decide :: "str \<Rightarrow> run_control_receipt \<Rightarrow> inbox \<Rightarrow> inbox" where
  "decide k r s =
     s\<lparr>ib_seen := set_receipt k r (ib_seen s), ib_queue := filter (\<lambda>p. pend_id p \<noteq> k) (ib_queue s),
       ib_in_flight := AList.delete k (ib_in_flight s)\<rparr>"

definition terminal_receipt :: "str \<Rightarrow> run_control_receipt \<Rightarrow> bool" where
  "terminal_receipt k r \<longleftrightarrow> rcp_request_id r = k \<and> rcp_state r \<in> {Applied, Settled}"

lemma terminal_not_accepted: "terminal_receipt k r \<Longrightarrow> \<not> is_accepted r"
  by (auto simp: terminal_receipt_def is_accepted_def)

lemma set_receipt_lookup:
  "map_of (set_receipt k r m) j = (if j = k then map_option (\<lambda>q. q\<lparr>sq_receipt := r\<rparr>) (map_of m j) else map_of m j)"
  by (simp add: set_receipt_def map_of_map_entry split: option.split)

lemma set_receipt_keys [simp]: "map fst (set_receipt k r m) = map fst m"
  by (induction m) (auto simp: set_receipt_def)

lemma set_receipt_key_set [simp]: "fst ` set (set_receipt k r m) = fst ` set m"
  by (metis list.set_map set_receipt_keys)

lemma set_receipt_length [simp]: "length (set_receipt k r m) = length m"
  by (metis length_map set_receipt_keys)

lemma receipt_of_decide:
  "k \<in> pending_ids s \<Longrightarrow> receipt_of (decide k r s) = (receipt_of s)(k := Some r)"
  by (auto simp: receipt_of_def decide_def set_receipt_lookup pending_ids_def fun_eq_iff split: option.split)

lemma pending_decide:
  "k \<in> pending_ids s \<Longrightarrow> terminal_receipt k r \<Longrightarrow> pending_ids (decide k r s) = pending_ids s - {k}"
  using terminal_not_accepted by (auto simp: pending_ids_def receipt_of_decide split: if_splits)

lemma held_decide: "pend_id p \<noteq> k \<Longrightarrow> held (decide k r s) p = held s p"
  by (simp add: held_def decide_def set_receipt_lookup)

lemma live_decide: "live_ids (decide k r s) = removeAll k (live_ids s)"
  by (simp add: live_ids_def decide_def delete_keys filter_map comp_def removeAll_filter_not_eq eq_commute [of k])

lemma owned_decide:
  assumes "inbox_ok s" and "k \<in> pending_ids s" and "terminal_receipt k r"
  shows "owned (decide k r s)"
proof -
  have "owned s" by (rule inbox_okD(2) [OF assms(1)])
  moreover have "ib_queue (decide k r s) = filter (\<lambda>p. pend_id p \<noteq> k) (ib_queue s)"
    "ib_in_flight (decide k r s) = AList.delete k (ib_in_flight s)"
    by (simp_all add: decide_def)
  ultimately show ?thesis
    unfolding owned_def live_decide pending_decide [OF assms(2,3)]
    by (auto simp: held_decide distinct_removeAll AList.delete_eq)
qed

lemma inbox_ok_decide:
  assumes "inbox_ok s" and "k \<in> pending_ids s" and "terminal_receipt k r"
  shows "inbox_ok (decide k r s)"
proof (rule inbox_okI)
  show "book_ok (decide k r s)"
    using inbox_okD(1) [OF assms(1)] by (simp add: book_ok_def decide_def)
  show "owned (decide k r s)" by (rule owned_decide [OF assms])
  show "receipts_ok (decide k r s)"
    using inbox_okD(3) [OF assms(1)] assms(3) unfolding receipts_ok_def receipt_of_decide [OF assms(2)]
    by (auto simp: terminal_receipt_def)
  show "within_limits (decide k r s)"
    using inbox_okD(4) [OF assms(1)] card_Diff1_le [of "pending_ids s" k]
    unfolding within_limits_def pending_decide [OF assms(2,3)] by (simp add: decide_def)
  show "interrupt_seals (decide k r s)"
    using inbox_okD(5) [OF assms(1)] by (simp add: interrupt_seals_def decide_def)
qed

subsection \<open>Acknowledging, draining, closing\<close>

lemma applied_receipt_terminal: "rcp_request_id r = k \<Longrightarrow> terminal_receipt k (applied_receipt turn_id revision now_ms r)"
  by (simp add: applied_receipt_def terminal_receipt_def)

lemma mark_applied_in_flight:
  fixes turn_id :: "str option" and revision now_ms :: u64
  assumes "inbox_ok s" and "(pend_id p, p) \<in> set (ib_in_flight s)"
  defines "receipt \<equiv> applied_receipt turn_id revision now_ms (pend_receipt p)"
  shows "mark_applied p turn_id revision now_ms s
    = (receipt, record_receipt (pend_request p) receipt (decide (pend_id p) receipt s))"
proof -
  have p: "held s p" using in_flight_held [OF assms(1,2)] by simp
  have "pend_id p \<in> fst ` set (ib_in_flight s)" using assms(2) by force
  then have "pend_id p \<notin> pend_id ` set (ib_queue s)"
    using inbox_okD(2) [OF assms(1)] by (auto simp: owned_def live_ids_def)
  then have "filter (\<lambda>x. pend_id x \<noteq> pend_id p) (ib_queue s) = ib_queue s"
    by (metis (mono_tags, lifting) filter_True image_eqI)
  moreover have "rcp_request_id receipt = pend_id p" by (simp add: receipt_def applied_receipt_def)
  ultimately show ?thesis
    using p by (auto simp: held_def mark_applied_def decide_def receipt_def Let_def)
qed

lemma mark_applied_decided: "pend_id p \<notin> pending_ids s \<Longrightarrow> snd (mark_applied p turn_id revision now_ms s) = s"
  by (auto simp: mark_applied_def pending_ids_def receipt_of_def split: option.splits)

lemma mark_applied_in_flight_ok:
  assumes "inbox_ok s" and "(pend_id p, p) \<in> set (ib_in_flight s)"
  shows "inbox_ok (snd (mark_applied p turn_id revision now_ms s))"
proof -
  have "pend_id p \<in> pending_ids s" using in_flight_held [OF assms] held_pending by simp
  then show ?thesis
    unfolding mark_applied_in_flight [OF assms]
    using same_controls_ok [OF same_controls_record inbox_ok_decide [OF assms(1) _ applied_receipt_terminal]] by simp
qed

lemma fold_update_fresh:
  "distinct (map f ps) \<Longrightarrow> f ` set ps \<inter> fst ` set m = {}
   \<Longrightarrow> fold (\<lambda>p m. AList.update (f p) p m) ps m = m @ map (\<lambda>p. (f p, p)) ps"
proof (induction ps arbitrary: m)
  case (Cons p ps)
  have "f p \<notin> fst ` set m" using Cons.prems(2) by auto
  then have "AList.update (f p) p m = m @ [(f p, p)]" by (induction m) auto
  then show ?case using Cons.IH [of "m @ [(f p, p)]"] Cons.prems by auto
qed simp

lemma drain_eq:
  assumes "inbox_ok s"
  shows "drain_inbox s = (ib_queue s, s\<lparr>ib_queue := [], ib_in_flight := ib_in_flight s @ map (\<lambda>p. (pend_id p, p)) (ib_queue s)\<rparr>)"
proof -
  have "distinct (map pend_id (ib_queue s))" "pend_id ` set (ib_queue s) \<inter> fst ` set (ib_in_flight s) = {}"
    using inbox_okD(2) [OF assms] by (auto simp: owned_def live_ids_def)
  then show ?thesis by (simp add: drain_inbox_def fold_update_fresh Let_def)
qed

lemma drain_frame [simp]:
  "ib_seen (snd (drain_inbox s)) = ib_seen s" "ib_seen_order (snd (drain_inbox s)) = ib_seen_order s"
  "ib_closed (snd (drain_inbox s)) = ib_closed s" "ib_active (snd (drain_inbox s)) = ib_active s"
  "ib_cancelled (snd (drain_inbox s)) = ib_cancelled s" "ib_interrupt_requested (snd (drain_inbox s)) = ib_interrupt_requested s"
  by (simp_all add: drain_inbox_def Let_def)

lemma drain_receipts: "receipt_of (snd (drain_inbox s)) = receipt_of s" "pending_ids (snd (drain_inbox s)) = pending_ids s"
  by (auto simp: receipt_of_def pending_ids_def)

lemma drain_ok:
  assumes "inbox_ok s"
  shows "inbox_ok (snd (drain_inbox s))"
proof -
  let ?t = "snd (drain_inbox s)"
  have held: "held ?t = held s" by (simp add: held_def fun_eq_iff)
  have "owned ?t"
    using inbox_okD(2) [OF assms] unfolding owned_def held drain_receipts
    by (auto simp: drain_eq [OF assms] live_ids_def comp_def)
  then show ?thesis
    using assms unfolding inbox_ok_def
    by (auto simp: book_ok_def receipts_ok_def drain_receipts within_limits_def interrupt_seals_def)
qed

definition settled_book :: "u64 \<Rightarrow> inbox \<Rightarrow> inbox" where
  "settled_book now_ms s =
     (seal_state s)\<lparr>ib_queue := [], ib_in_flight := [], ib_seen := map (\<lambda>(k, q). (k, settle_seen now_ms q)) (ib_seen s)\<rparr>"

lemma same_controls_records: "same_controls s (fold (\<lambda>(r, receipt). record_receipt r receipt) rs s)"
proof (induction rs arbitrary: s)
  case (Cons x rs)
  then show ?case using same_controls_record same_controls_trans by (cases x) fastforce
qed simp

lemma close_same_controls: "same_controls (settled_book now_ms s) (close_inbox now_ms s)"
  unfolding close_inbox_def settled_book_def Let_def by (rule same_controls_records)

lemma receipt_of_settled_book:
  "receipt_of (settled_book now_ms s) k =
     map_option (\<lambda>r. if is_accepted r then settled_receipt now_ms r else r) (receipt_of s k)"
  by (simp add: receipt_of_def settled_book_def map_of_map option.map_comp)
     (auto simp: settle_seen_def intro!: option.map_cong0)

lemma receipt_of_close:
  "receipt_of (close_inbox now_ms s) k =
     map_option (\<lambda>r. if is_accepted r then settled_receipt now_ms r else r) (receipt_of s k)"
  by (simp add: same_controls_receipts [OF close_same_controls] receipt_of_settled_book)

lemma settled_not_accepted [simp]: "\<not> is_accepted (settled_receipt now_ms r)"
  by (simp add: settled_receipt_def is_accepted_def)

lemma pending_close: "pending_ids (close_inbox now_ms s) = {}"
  by (auto simp: pending_ids_def receipt_of_close)

lemma settled_book_ok:
  assumes "inbox_ok s"
  shows "inbox_ok (settled_book now_ms s)"
proof (rule inbox_okI)
  let ?t = "settled_book now_ms s"
  have none: "pending_ids ?t = {}" by (auto simp: pending_ids_def receipt_of_settled_book)
  have "map fst (ib_seen ?t) = map fst (ib_seen s)" by (simp add: settled_book_def comp_def case_prod_beta)
  moreover from this have "fst ` set (ib_seen ?t) = fst ` set (ib_seen s)" by (metis list.set_map)
  moreover have "ib_seen_order ?t = ib_seen_order s" by (simp add: settled_book_def seal_state_def)
  ultimately show "book_ok ?t" using inbox_okD(1) [OF assms] by (simp add: book_ok_def)
  show "owned ?t" unfolding owned_def none by (simp add: settled_book_def live_ids_def)
  show "receipts_ok ?t"
    using inbox_okD(3) [OF assms] by (auto simp: receipts_ok_def receipt_of_settled_book settled_receipt_def)
  show "within_limits ?t" using inbox_okD(4) [OF assms] unfolding within_limits_def none by (simp add: settled_book_def)
  show "interrupt_seals ?t" using inbox_okD(5) [OF assms] by (simp add: interrupt_seals_def settled_book_def seal_state_def)
qed

lemma close_ok: "inbox_ok s \<Longrightarrow> inbox_ok (close_inbox now_ms s)"
  by (rule same_controls_ok [OF close_same_controls settled_book_ok])

lemma close_sealed: "ib_closed (close_inbox now_ms s)"
  using close_same_controls [of now_ms s] by (simp add: same_controls_def settled_book_def seal_state_def)

subsection \<open>Admitting a request\<close>

definition enter :: "str \<Rightarrow> run_control_request \<Rightarrow> run_control_receipt \<Rightarrow> inbox \<Rightarrow> inbox" where
  "enter fingerprint r receipt s =
     s\<lparr>ib_queue := ib_queue s @ [\<lparr>pend_request = r, pend_receipt = receipt\<rparr>],
       ib_seen := AList.update (rcp_request_id receipt)
         \<lparr>sq_fingerprint = fingerprint, sq_request = r, sq_receipt = receipt\<rparr> (ib_seen s),
       ib_seen_order := ib_seen_order s @ [rcp_request_id receipt]\<rparr>"

definition advance :: "run_control_request \<Rightarrow> run_control_receipt \<Rightarrow> inbox \<Rightarrow> inbox" where
  "advance r receipt s =
     (let s = s\<lparr>ib_last_sequence := rcp_sequence receipt\<rparr>
      in if operation (rcq_command r) = InterruptOp then seal_state (s\<lparr>ib_interrupt_requested := True\<rparr>) else s)"

lemma admit_request_eq:
  "admit_request fingerprint r receipt s = trim_terminal_receipts (enter fingerprint r receipt (advance r receipt s))"
  by (simp add: admit_request_def advance_def enter_def Let_def)

lemma advance_frame [simp]:
  "ib_queue (advance r receipt s) = ib_queue s" "ib_in_flight (advance r receipt s) = ib_in_flight s"
  "ib_seen (advance r receipt s) = ib_seen s" "ib_seen_order (advance r receipt s) = ib_seen_order s"
  "ib_hooked (advance r receipt s) = ib_hooked s" "ib_cancelled (advance r receipt s) = ib_cancelled s"
  "ib_closed (advance r receipt s) \<longleftrightarrow> ib_closed s \<or> operation (rcq_command r) = InterruptOp"
  "ib_active (advance r receipt s) \<longleftrightarrow> ib_active s \<and> operation (rcq_command r) \<noteq> InterruptOp"
  "ib_interrupt_requested (advance r receipt s) \<longleftrightarrow> ib_interrupt_requested s \<or> operation (rcq_command r) = InterruptOp"
  by (simp_all add: advance_def seal_state_def Let_def)

lemma enter_frame [simp]:
  "ib_queue (enter f r receipt s) = ib_queue s @ [\<lparr>pend_request = r, pend_receipt = receipt\<rparr>]"
  "ib_in_flight (enter f r receipt s) = ib_in_flight s"
  "ib_seen_order (enter f r receipt s) = ib_seen_order s @ [rcp_request_id receipt]"
  "ib_hooked (enter f r receipt s) = ib_hooked s" "ib_cancelled (enter f r receipt s) = ib_cancelled s"
  "ib_closed (enter f r receipt s) = ib_closed s" "ib_active (enter f r receipt s) = ib_active s"
  "ib_interrupt_requested (enter f r receipt s) = ib_interrupt_requested s"
  by (simp_all add: enter_def)

lemma enter_lookup:
  "map_of (ib_seen (enter f r receipt s)) k =
     (if k = rcp_request_id receipt then Some \<lparr>sq_fingerprint = f, sq_request = r, sq_receipt = receipt\<rparr>
      else map_of (ib_seen s) k)"
  by (simp add: enter_def update_conv')

lemma receipt_of_enter: "receipt_of (enter f r receipt s) = (receipt_of s)(rcp_request_id receipt := Some receipt)"
  by (auto simp: receipt_of_def enter_lookup fun_eq_iff)

lemma pending_enter:
  "is_accepted receipt \<Longrightarrow> pending_ids (enter f r receipt s) = insert (rcp_request_id receipt) (pending_ids s)"
  by (auto simp: pending_ids_def receipt_of_enter)

lemma book_enter:
  assumes "book_ok s" and "receipt_of s (rcp_request_id receipt) = None"
  shows "book_ok (enter f r receipt s)"
proof -
  have "fst ` set (ib_seen (enter f r receipt s)) = insert (rcp_request_id receipt) (fst ` set (ib_seen s))"
    by (auto simp: enter_def dom_update)
  moreover have "distinct (map fst (ib_seen (enter f r receipt s)))"
    using assms(1) by (simp add: enter_def distinct_update book_ok_def)
  ultimately show ?thesis using assms by (auto simp: book_ok_def receipt_of_None_iff)
qed

lemma held_enter:
  "receipt_of s (rcp_request_id receipt) = None \<Longrightarrow> held s p \<Longrightarrow> held (enter f r receipt s) p"
  by (auto simp: held_def enter_lookup receipt_of_def)

lemma owned_enter:
  assumes "owned s" and "receipt_of s (rcp_request_id receipt) = None" and "is_accepted receipt"
  shows "owned (enter f r receipt s)"
proof -
  have fresh: "rcp_request_id receipt \<notin> pending_ids s" using assms(2) by (simp add: pending_ids_def)
  have new: "held (enter f r receipt s) \<lparr>pend_request = r, pend_receipt = receipt\<rparr>"
    using assms(3) by (simp add: held_def enter_lookup)
  have live: "distinct (live_ids s)" "set (live_ids s) = pending_ids s" using assms(1) by (simp_all add: owned_def)
  have flying: "\<forall>(k, p)\<in>set (ib_in_flight s). k = pend_id p \<and> held (enter f r receipt s) p"
    using assms(1) held_enter [OF assms(2)] by (fastforce simp only: owned_def)
  have "distinct (live_ids (enter f r receipt s))" using live fresh by (auto simp: live_ids_def)
  moreover have "set (live_ids (enter f r receipt s)) = insert (rcp_request_id receipt) (pending_ids s)"
    unfolding live(2) [symmetric] by (auto simp: live_ids_def)
  ultimately show ?thesis
    using assms(1) new flying held_enter [OF assms(2)] unfolding owned_def pending_enter [OF assms(3)] by simp
qed

lemma held_trim: "held s p \<Longrightarrow> held (trim_terminal_receipts s) p"
  using seen_trim_pending [OF held_pending [of s p]] by (auto simp: held_def)

lemma owned_trim:
  assumes "owned s"
  shows "owned (trim_terminal_receipts s)"
proof -
  have "live_ids (trim_terminal_receipts s) = live_ids s" by (simp add: live_ids_def)
  moreover have "\<forall>(k, p)\<in>set (ib_in_flight s). k = pend_id p \<and> held (trim_terminal_receipts s) p"
    using assms held_trim by (fastforce simp only: owned_def)
  ultimately show ?thesis using assms held_trim by (simp add: owned_def)
qed

lemma receipts_ok_trim: "receipts_ok s \<Longrightarrow> receipts_ok (trim_terminal_receipts s)"
  using receipt_of_trim [of s] unfolding receipts_ok_def by (metis option.distinct(1))

lemma inbox_ok_trim:
  assumes "book_ok s" "owned s" "receipts_ok s" "card (pending_ids s) \<le> RUN_CONTROL_MAX_QUEUE" "interrupt_seals s"
  shows "inbox_ok (trim_terminal_receipts s)"
proof (rule inbox_okI)
  show "within_limits (trim_terminal_receipts s)"
    using assms(4) trim_within_limit [OF assms(1)]
    by (simp add: within_limits_def RUN_CONTROL_MAX_QUEUE_def RUN_CONTROL_MAX_SEEN_REQUESTS_def)
  show "interrupt_seals (trim_terminal_receipts s)" using assms(5) by (simp add: interrupt_seals_def)
qed (intro book_trim owned_trim receipts_ok_trim assms)+

lemma cancel_trim: "cancel_token (trim_terminal_receipts s) = trim_terminal_receipts (cancel_token s)"
proof (induction s rule: trim_induct)
  case (trim s)
  have "trim_candidate (cancel_token s) = trim_candidate s" "ib_seen (cancel_token s) = ib_seen s"
    "drop_receipt k (cancel_token s) = cancel_token (drop_receipt k s)" for k
    by (simp_all add: cancel_token_def trim_candidate_def drop_receipt_def)
  then show ?case using trim by (subst (1 2) trim_unfold) (auto split: option.split)
qed

text \<open>The inbox before the new control enters it: the sequence number, and the seal of an interrupt.\<close>

definition prepared :: "run_control_request \<Rightarrow> run_control_receipt \<Rightarrow> inbox \<Rightarrow> inbox" where
  "prepared r receipt s =
     (if operation (rcq_command r) = InterruptOp then cancel_token (advance r receipt s) else advance r receipt s)"

definition admitted :: "str \<Rightarrow> run_control_request \<Rightarrow> run_control_receipt \<Rightarrow> inbox \<Rightarrow> inbox" where
  "admitted f r receipt s = trim_terminal_receipts (enter f r receipt (prepared r receipt s))"

lemma prepared_frame [simp]:
  "ib_queue (prepared r receipt s) = ib_queue s" "ib_in_flight (prepared r receipt s) = ib_in_flight s"
  "ib_seen (prepared r receipt s) = ib_seen s" "ib_seen_order (prepared r receipt s) = ib_seen_order s"
  "ib_hooked (prepared r receipt s) = ib_hooked s"
  "ib_cancelled (prepared r receipt s) \<longleftrightarrow> ib_cancelled s \<or> operation (rcq_command r) = InterruptOp"
  "ib_closed (prepared r receipt s) \<longleftrightarrow> ib_closed s \<or> operation (rcq_command r) = InterruptOp"
  "ib_active (prepared r receipt s) \<longleftrightarrow> ib_active s \<and> operation (rcq_command r) \<noteq> InterruptOp"
  "ib_interrupt_requested (prepared r receipt s) \<longleftrightarrow> ib_interrupt_requested s \<or> operation (rcq_command r) = InterruptOp"
  by (simp_all add: prepared_def cancel_token_def)

lemma prepared_receipts [simp]:
  "receipt_of (prepared r receipt s) = receipt_of s" "pending_ids (prepared r receipt s) = pending_ids s"
  by (simp_all add: receipt_of_def pending_ids_def fun_eq_iff)

lemma admitted_eq:
  "admitted f r receipt s =
     (if operation (rcq_command r) = InterruptOp then cancel_token (admit_request f r receipt s) else admit_request f r receipt s)"
proof -
  have "enter f r receipt (cancel_token x) = cancel_token (enter f r receipt x)" for x
    by (simp add: enter_def cancel_token_def)
  then show ?thesis by (simp add: admitted_def prepared_def admit_request_eq cancel_trim)
qed

lemma accepted_receipt_simps [simp]:
  "rcp_request_id (accepted_receipt r now_ms s) = rcq_request_id r"
  "is_accepted (accepted_receipt r now_ms s)"
  "rcp_state (accepted_receipt r now_ms s) = Accepted"
  by (simp_all add: accepted_receipt_def is_accepted_def)

text \<open>A submission either leaves the controls alone or admits a fresh request to an inbox that is open.\<close>

lemma admission_open:
  "admission_error r now_ms s = None \<Longrightarrow>
     \<not> ib_closed s \<and> ib_active s \<and> \<not> ib_cancelled s \<and> length (accepted_controls s) < RUN_CONTROL_MAX_QUEUE"
  by (auto simp: admission_error_def split: if_splits)

lemma admit_with_receipt_cases:
  obtains (refused) e where "admit_with_receipt encode r now_ms s = (Inl e, s)"
  | (known) q where "map_of (ib_seen s) (rcq_request_id r) = Some q"
      "admit_with_receipt encode r now_ms s = (Inr (sq_receipt q), record_receipt r (sq_receipt q) s)"
  | (fresh) f where "request_fingerprint encode r = Inr f" "receipt_of s (rcq_request_id r) = None"
      "admission_error r now_ms s = None"
      "admit_with_receipt encode r now_ms s =
         (Inr (accepted_receipt r now_ms s),
          record_receipt r (accepted_receipt r now_ms s) (admitted f r (accepted_receipt r now_ms s) s))"
proof (cases "request_fingerprint encode r")
  case (Inl e)
  then have "admit_with_receipt encode r now_ms s = (Inl e, s)" by (simp add: admit_with_receipt_def submit_locked_def)
  then show thesis by (rule refused)
next
  case f: (Inr f)
  show thesis
  proof (cases "map_of (ib_seen s) (rcq_request_id r)")
    case (Some q)
    then show thesis
      using f refused known [OF Some]
      by (cases "sq_fingerprint q = f") (simp_all add: admit_with_receipt_def submit_locked_def)
  next
    case None
    show thesis
    proof (cases "admission_error r now_ms s")
      case (Some e)
      then show thesis using f None refused by (simp add: admit_with_receipt_def submit_locked_def)
    next
      case ok: None
      show thesis
        by (rule fresh [of f])
          (use f None ok in \<open>simp_all add: receipt_of_def admit_with_receipt_def submit_locked_def admitted_eq Let_def\<close>)
    qed
  qed
qed

lemma submit_with_hooks_cases:
  obtains (quiet) res t where "submit_with_hooks encode before during r now_ms s = (res, t)" "same_controls s t"
      "\<And>receipt. res = Inr receipt \<Longrightarrow> receipt_of s (rcq_request_id r) = Some receipt"
  | (fresh) f u where "u = fold outside during s" "request_fingerprint encode r = Inr f"
      "receipt_of s (rcq_request_id r) = None" "admission_error r now_ms u = None"
      "submit_with_hooks encode before during r now_ms s =
         (Inr (accepted_receipt r now_ms u),
          record_receipt r (accepted_receipt r now_ms u) (admitted f r (accepted_receipt r now_ms u) u))"
proof (cases "validate_request r")
  case (Inl e)
  then show thesis using quiet [of "Inl e" s] by (simp add: submit_with_hooks_def)
next
  case valid: (Inr x)
  define u where "u = fold outside during s"
  have u: "same_controls s u" unfolding u_def by (rule same_controls_outside)
  have receipts: "receipt_of u = receipt_of s" by (rule same_controls_receipts [OF u])
  show thesis
  proof (cases "known_receipt encode r s")
    case (Inl e)
    then show thesis using valid quiet [of "Inl e" s] by (simp add: submit_with_hooks_def)
  next
    case known: (Inr k)
    show thesis
    proof (cases k)
      case (Some receipt)
      then have "receipt_of s (rcq_request_id r) = Some receipt"
        using known by (auto simp: known_receipt_def bind_e_Inr_iff receipt_of_def split: option.splits if_splits)
      then show thesis using Some valid known quiet [of "Inr receipt" s] by (simp add: submit_with_hooks_def)
    next
      case None
      then have absent: "receipt_of s (rcq_request_id r) = None"
        using known
        by (cases "map_of (ib_seen s) (rcq_request_id r)")
          (auto simp: known_receipt_def bind_e_Inr_iff receipt_of_def split: if_splits)
      show thesis
      proof (cases "ib_hooked u \<and> \<not> hook_continues (before r)")
        case True
        then show thesis
          using None valid known quiet same_controls_trans [OF u same_controls_record]
          by (simp add: submit_with_hooks_def u_def Let_def)
      next
        case False
        then have eq: "submit_with_hooks encode before during r now_ms s = admit_with_receipt encode r now_ms u"
          using None valid known by (auto simp: submit_with_hooks_def u_def Let_def)
        show thesis
        proof (cases rule: admit_with_receipt_cases [of encode r now_ms u])
          case (refused e)
          then show thesis using quiet [OF _ u] eq by simp
        next
          case (known q)
          then have "receipt_of u (rcq_request_id r) = Some (sq_receipt q)" by (simp add: receipt_of_def)
          then show thesis using absent by (simp add: receipts)
        next
          case (fresh f)
          then show thesis using that(2) [OF u_def] eq absent by simp
        qed
      qed
    qed
  qed
qed

end
