(* ===== verification/RunControlRuns.thy ===== *)
theory RunControlRuns
  imports RunControlLaws
begin

section \<open>Runs of the run-control inbox\<close>

text \<open>
  The remaining operations keep the invariant: admission, and the persist-and-acknowledge transaction, whose
  decisions are characterised by the longest prefix of the steering messages that could be retained.  Then the
  step relation of a run, in which the host, the loop and the session act in any order.
\<close>

subsection \<open>Admission keeps the invariant\<close>

lemma owned_prepared: "owned s \<Longrightarrow> owned (prepared r receipt s)"
proof -
  have "held (prepared r receipt s) = held s" by (simp add: held_def fun_eq_iff)
  then show "owned s \<Longrightarrow> owned (prepared r receipt s)" by (simp add: owned_def live_ids_def)
qed

lemma admitted_ok:
  assumes "inbox_ok s" and "receipt_of s (rcq_request_id r) = None" and "admission_error r now_ms s = None"
  shows "inbox_ok (admitted f r (accepted_receipt r now_ms s) s)"
  unfolding admitted_def
proof (rule inbox_ok_trim)
  let ?receipt = "accepted_receipt r now_ms s"
  let ?p = "prepared r ?receipt s"
  let ?t = "enter f r ?receipt ?p"
  have absent: "receipt_of ?p (rcp_request_id ?receipt) = None" using assms(2) by simp
  have "book_ok ?p" using inbox_okD(1) [OF assms(1)] by (simp add: book_ok_def)
  then show "book_ok ?t" by (rule book_enter [OF _ absent])
  show "owned ?t" by (rule owned_enter [OF owned_prepared [OF inbox_okD(2) [OF assms(1)]] absent]) simp
  show "receipts_ok ?t" using inbox_okD(3) [OF assms(1)] by (simp add: receipts_ok_def receipt_of_enter)
  have "card (pending_ids s) < RUN_CONTROL_MAX_QUEUE"
    using inbox_okD(1) [OF assms(1)] admission_open [OF assms(3)] pending_below_queue_limit by (simp add: book_ok_def)
  then show "card (pending_ids ?t) \<le> RUN_CONTROL_MAX_QUEUE"
    using card_insert_le_m1 by (simp add: pending_enter card_insert_if)
  show "interrupt_seals ?t" using inbox_okD(5) [OF assms(1)] by (auto simp: interrupt_seals_def)
qed

lemma admitted_receipts:
  assumes "is_accepted receipt"
  shows "receipt_of (admitted f r receipt s) k = ((receipt_of s)(rcp_request_id receipt := Some receipt)) k
    \<or> (receipt_of (admitted f r receipt s) k = None \<and> k \<notin> insert (rcp_request_id receipt) (pending_ids s))"
  using receipt_of_trim [of "enter f r receipt (prepared r receipt s)" k]
  unfolding admitted_def receipt_of_enter pending_enter [OF assms] prepared_receipts .

lemma submit_ok:
  assumes "inbox_ok s"
  shows "inbox_ok (snd (submit_with_hooks encode before during r now_ms s))"
proof (cases rule: submit_with_hooks_cases [of encode before during r now_ms s])
  case (quiet res t)
  then show ?thesis using same_controls_ok [OF _ assms] by simp
next
  case (fresh f u)
  have u: "same_controls s u" unfolding fresh(1) by (rule same_controls_outside)
  have "inbox_ok (admitted f r (accepted_receipt r now_ms u) u)"
    using same_controls_ok [OF u assms] fresh(3,4) same_controls_receipts [OF u] by (intro admitted_ok) simp_all
  then show ?thesis unfolding fresh(5) snd_conv by (rule same_controls_ok [OF same_controls_record])
qed

subsection \<open>Accepted controls are those the inbox owns\<close>

lemma live_map_keys: "fst ` set (fold note_live ps m) \<subseteq> fst ` set m \<union> pend_id ` set ps"
proof (induction ps arbitrary: m)
  case (Cons p ps)
  have "fst ` set (note_live p m) \<subseteq> insert (pend_id p) (fst ` set m)" by (auto simp: note_live_def dom_update)
  then have "fst ` set (note_live p m) \<union> pend_id ` set ps \<subseteq> fst ` set m \<union> pend_id ` set (p # ps)" by auto
  then show ?case unfolding fold_simps by (rule subset_trans [OF Cons.IH])
qed simp

lemma live_pending:
  assumes "inbox_ok s"
  shows "pend_id ` set (ib_queue s @ map snd (ib_in_flight s)) \<subseteq> pending_ids s"
proof -
  have "pend_id p \<in> pending_ids s" if "p \<in> set (ib_queue s)" for p
    using queue_held [OF assms that] by (rule held_pending)
  moreover have "pend_id (snd x) \<in> pending_ids s" if "x \<in> set (ib_in_flight s)" for x
    using in_flight_held [OF assms, of "fst x" "snd x"] that held_pending by simp
  ultimately show ?thesis by auto
qed

lemma pending_map_held:
  assumes "inbox_ok s" and "(k, p) \<in> set (pending_map s)"
  shows "pend_id p = k \<and> held s p"
proof -
  have keys: "distinct (map fst (ib_seen s))" using inbox_okD(1) [OF assms(1)] by (simp add: book_ok_def)
  have p: "map_of (pending_map s) k = Some p" by (rule map_of_is_SomeI [OF pending_map_distinct assms(2)])
  show ?thesis
  proof (cases "map_of (ib_seen s) k")
    case None
    then have "map_of (fold note_live (ib_queue s @ map snd (ib_in_flight s)) []) k = Some p"
      using p note_seen_lookup [OF keys] by (simp add: pending_map_def)
    then have "k \<in> fst ` set (fold note_live (ib_queue s @ map snd (ib_in_flight s)) [])" by (force dest: map_of_SomeD)
    then have "k \<in> pend_id ` set (ib_queue s @ map snd (ib_in_flight s))"
      using live_map_keys [of "ib_queue s @ map snd (ib_in_flight s)" "[]"] by auto
    then have "k \<in> pending_ids s" using live_pending [OF assms(1)] by blast
    then show ?thesis using None by (simp add: pending_ids_def receipt_of_def)
  next
    case (Some q)
    then have q: "p = \<lparr>pend_request = sq_request q, pend_receipt = sq_receipt q\<rparr>" "is_accepted (sq_receipt q)"
      using p pending_map_lookup [OF keys Some] by (simp_all split: if_splits)
    moreover have "rcp_request_id (sq_receipt q) = k"
      using inbox_okD(3) [OF assms(1)] Some by (simp add: receipts_ok_def receipt_of_def)
    ultimately show ?thesis using Some by (simp add: held_def)
  qed
qed

lemma accepted_controls_held: "inbox_ok s \<Longrightarrow> p \<in> set (accepted_controls s) \<Longrightarrow> held s p"
  using pending_map_held by (auto simp: set_accepted_controls)

lemma accepted_controls_ids:
  assumes "inbox_ok s"
  shows "pend_id ` set (accepted_controls s) = pending_ids s"
proof -
  have ids: "pend_id ` snd ` set (pending_map s) = fst ` set (pending_map s)"
    using pending_map_held [OF assms] by (force simp: image_iff)
  have "fst ` set (pending_map s) \<subseteq> pending_ids s"
    using pending_map_held [OF assms] held_pending by fastforce
  then show ?thesis
    using ids pending_ids_in_map [of s] inbox_okD(1) [OF assms] by (auto simp: set_accepted_controls book_ok_def)
qed

lemma accepted_controls_distinct:
  assumes "inbox_ok s"
  shows "distinct (map pend_id (accepted_controls s))"
proof -
  have "map pend_id (map snd (pending_map s)) = map fst (pending_map s)"
    using pending_map_held [OF assms] by auto
  then have "distinct (map pend_id (map snd (pending_map s)))" using pending_map_distinct [of s] by metis
  then have "distinct (map snd (pending_map s))" "inj_on pend_id (set (map snd (pending_map s)))"
    unfolding distinct_map by simp_all
  then show ?thesis by (simp add: distinct_map accepted_controls_def)
qed

lemma retire_terminal_id:
  assumes "inbox_ok s"
  shows "retire_terminal s = s"
proof -
  have "k \<notin> pending_ids s" if "(k, q) \<in> set (ib_seen s)" "\<not> is_accepted (sq_receipt q)" for k q
  proof -
    have "map_of (ib_seen s) k = Some q"
      using inbox_okD(1) [OF assms] that(1) by (intro map_of_is_SomeI) (simp_all add: book_ok_def)
    then have "receipt_of s k = Some (sq_receipt q)" by (simp add: receipt_of_def)
    then show ?thesis using that(2) by (rule decided_not_pending)
  qed
  then have away: "set (map fst (filter (\<lambda>(_, q). \<not> is_accepted (sq_receipt q)) (ib_seen s))) \<inter> pending_ids s = {}" by auto
  have "pend_id p \<in> pending_ids s" if "p \<in> set (ib_queue s)" for p using queue_held [OF assms that] by (rule held_pending)
  then have queue: "filter (\<lambda>p. pend_id p \<notin> set (map fst (filter (\<lambda>(_, q). \<not> is_accepted (sq_receipt q)) (ib_seen s)))) (ib_queue s) = ib_queue s"
    using away by (intro filter_True) blast
  have "k \<in> pending_ids s" if "(k, p) \<in> set (ib_in_flight s)" for k p
    using in_flight_held [OF assms that] held_pending by auto
  then have flight: "filter (\<lambda>(k, _). k \<notin> set (map fst (filter (\<lambda>(_, q). \<not> is_accepted (sq_receipt q)) (ib_seen s)))) (ib_in_flight s) = ib_in_flight s"
    using away by (intro filter_True) blast
  show ?thesis unfolding retire_terminal_def Let_def queue flight by simp
qed

subsection \<open>Persist and acknowledge\<close>

lemma file_decision_held:
  "held s p \<Longrightarrow> rcp_request_id r = pend_id p \<Longrightarrow> file_decision f (p\<lparr>pend_receipt := r\<rparr>) s = decide (pend_id p) r s"
  by (auto simp: file_decision_def decide_def held_def Let_def)

lemma decided_receipt_simps [simp]:
  "rcp_request_id (decided_receipt failed now_ms s r) = rcp_request_id r"
  "rcp_sequence (decided_receipt failed now_ms s r) = rcp_sequence r"
  "rcp_state (decided_receipt failed now_ms s r) = (if failed then Settled else Applied)"
  by (simp_all add: decided_receipt_def)

lemma decided_receipt_terminal: "terminal_receipt (rcp_request_id r) (decided_receipt failed now_ms s r)"
  by (simp add: terminal_receipt_def)

text \<open>One item: the control is decided, everything else of the inbox stays.\<close>

definition failure_before ::
    "(run_control_request \<Rightarrow> str + str) \<Rightarrow> (str \<Rightarrow> 'e) \<Rightarrow> pending_run_control \<Rightarrow> 'e persisting \<Rightarrow> 'e option" where
  "failure_before encode schema_error p ps =
     (case (ps_failure ps, request_fingerprint encode (pend_request p)) of
        (None, Inl e) \<Rightarrow> Some (schema_error (run_control_error_text e))
      | (f, _) \<Rightarrow> f)"

abbreviation steering :: "pending_run_control \<Rightarrow> bool" where
  "steering p \<equiv> is_steer (rcq_command (pend_request p))"

definition failure_after ::
    "(run_control_request \<Rightarrow> str + str) \<Rightarrow> (str \<Rightarrow> 'e) \<Rightarrow> 'e appender \<Rightarrow> pending_run_control \<Rightarrow> 'e persisting \<Rightarrow> 'e option" where
  "failure_after encode schema_error appends p ps =
     (if steering p \<and> failure_before encode schema_error p ps = None then appends (ps_appended ps) p
      else failure_before encode schema_error p ps)"

definition item_decision :: "bool \<Rightarrow> u64 \<Rightarrow> inbox \<Rightarrow> pending_run_control \<Rightarrow> pending_run_control" where
  "item_decision failed now_ms s p = p\<lparr>pend_receipt := decided_receipt failed now_ms s (pend_receipt p)\<rparr>"

lemma persist_item_eq:
  fixes ps :: "'e persisting" and encode :: "run_control_request \<Rightarrow> str + str" and schema_error :: "str \<Rightarrow> 'e"
    and appends :: "'e appender" and now_ms :: u64
  assumes "held (ps_inbox ps) p"
  defines "fl \<equiv> failure_after encode schema_error appends p ps"
  defines "d \<equiv> item_decision (steering p \<and> fl \<noteq> None) now_ms (ps_inbox ps) p"
  shows "persist_item encode schema_error appends now_ms p ps =
    \<lparr>ps_inbox = decide (pend_id p) (pend_receipt d) (ps_inbox ps), ps_failure = fl, ps_decisions = ps_decisions ps @ [d],
     ps_appended = ps_appended ps @ (if steering p \<and> failure_before encode schema_error p ps = None then [p] else [])\<rparr>"
proof -
  have "file_decision f d (ps_inbox ps) = decide (pend_id p) (pend_receipt d) (ps_inbox ps)" for f
    unfolding d_def item_decision_def using file_decision_held [OF assms(1)] by simp
  then show ?thesis
    unfolding persist_item_def failure_before_def [symmetric] Let_def
    by (simp add: fl_def d_def failure_after_def item_decision_def)
qed

lemma item_decision_decide [simp]: "item_decision failed now_ms (decide k r s) p = item_decision failed now_ms s p"
  by (simp add: item_decision_def decided_receipt_def decide_def)

lemma item_decision_id [simp]: "pend_id (item_decision failed now_ms s p) = pend_id p"
  by (simp add: item_decision_def)

lemma item_decision_terminal: "terminal_receipt (pend_id p) (pend_receipt (item_decision failed now_ms s p))"
  by (simp add: item_decision_def decided_receipt_terminal)

text \<open>What the loop over the items keeps.\<close>

lemma persist_item_ready:
  fixes ps :: "'e persisting" and encode :: "run_control_request \<Rightarrow> str + str" and schema_error :: "str \<Rightarrow> 'e"
    and appends :: "'e appender" and now_ms :: u64
  assumes "inbox_ok (ps_inbox ps)" and "\<forall>q\<in>set (p # items). held (ps_inbox ps) q" and "distinct (map pend_id (p # items))"
  defines "ps' \<equiv> persist_item encode schema_error appends now_ms p ps"
  shows "inbox_ok (ps_inbox ps')" "\<forall>q\<in>set items. held (ps_inbox ps') q"
    "pending_ids (ps_inbox ps') = pending_ids (ps_inbox ps) - {pend_id p}"
    "length (ib_seen (ps_inbox ps')) = length (ib_seen (ps_inbox ps))" "ib_closed (ps_inbox ps') = ib_closed (ps_inbox ps)"
proof -
  have p: "held (ps_inbox ps) p" using assms(2) by simp
  define d where "d = pend_receipt (item_decision (steering p \<and> failure_after encode schema_error appends p ps \<noteq> None)
    now_ms (ps_inbox ps) p)"
  have d: "terminal_receipt (pend_id p) d" "ps_inbox ps' = decide (pend_id p) d (ps_inbox ps)"
    by (simp_all add: d_def item_decision_terminal ps'_def persist_item_eq [OF p])
  show "inbox_ok (ps_inbox ps')" unfolding d(2) by (rule inbox_ok_decide [OF assms(1) held_pending [OF p] d(1)])
  show "\<forall>q\<in>set items. held (ps_inbox ps') q" 
  proof
    fix q assume q: "q \<in> set items"
    then have "pend_id q \<noteq> pend_id p" using assms(3) by (simp add: image_iff) metis
    then show "held (ps_inbox ps') q" unfolding d(2) using q assms(2) by (simp add: held_decide)
  qed
  show "pending_ids (ps_inbox ps') = pending_ids (ps_inbox ps) - {pend_id p}"
    unfolding d(2) by (rule pending_decide [OF held_pending [OF p] d(1)])
  show "length (ib_seen (ps_inbox ps')) = length (ib_seen (ps_inbox ps))" "ib_closed (ps_inbox ps') = ib_closed (ps_inbox ps)"
    unfolding d(2) by (simp_all add: decide_def)
qed

lemma persist_fold_inbox:
  fixes ps :: "'e persisting" and encode :: "run_control_request \<Rightarrow> str + str" and schema_error :: "str \<Rightarrow> 'e"
    and appends :: "'e appender" and now_ms :: u64
  assumes "inbox_ok (ps_inbox ps)" and "\<forall>q\<in>set items. held (ps_inbox ps) q" and "distinct (map pend_id items)"
  defines "ps' \<equiv> fold (persist_item encode schema_error appends now_ms) items ps"
  shows "inbox_ok (ps_inbox ps') \<and> pending_ids (ps_inbox ps') = pending_ids (ps_inbox ps) - pend_id ` set items
    \<and> length (ib_seen (ps_inbox ps')) = length (ib_seen (ps_inbox ps)) \<and> ib_closed (ps_inbox ps') = ib_closed (ps_inbox ps)"
  unfolding ps'_def using assms(1-3)
proof (induction items arbitrary: ps)
  case (Cons p items)
  note ready = persist_item_ready [OF Cons.prems, of encode schema_error appends now_ms]
  have tail: "distinct (map pend_id items)" using Cons.prems(3) by simp
  show ?case using Cons.IH [OF ready(1,2) tail] ready(3-5) by (auto simp: Diff_insert2 [symmetric])
qed simp

fun retained_prefix :: "'e appender \<Rightarrow> pending_run_control list \<Rightarrow> pending_run_control list \<Rightarrow> pending_run_control list \<times> 'e option" where
  "retained_prefix appends before [] = ([], None)"
| "retained_prefix appends before (p # ps) =
     (case appends before p of
        Some e \<Rightarrow> ([], Some e)
      | None \<Rightarrow> (case retained_prefix appends (before @ [p]) ps of (kept, f) \<Rightarrow> (p # kept, f)))"

lemma retained_prefix_subset: "set (fst (retained_prefix appends before ps)) \<subseteq> set ps"
  by (induction appends before ps rule: retained_prefix.induct) (auto split: option.splits prod.splits)

lemma failure_stays:
  "ps_failure ps \<noteq> None \<Longrightarrow> failure_before encode schema_error p ps = ps_failure ps"
  by (auto simp: failure_before_def)

lemma persist_fold_failed:
  fixes ps :: "'e persisting" and encode :: "run_control_request \<Rightarrow> str + str" and schema_error :: "str \<Rightarrow> 'e"
    and appends :: "'e appender" and now_ms :: u64
  assumes "inbox_ok (ps_inbox ps)" and "\<forall>q\<in>set items. held (ps_inbox ps) q" and "distinct (map pend_id items)"
    and "ps_failure ps \<noteq> None"
  defines "ps' \<equiv> fold (persist_item encode schema_error appends now_ms) items ps"
  shows "ps_decisions ps' = ps_decisions ps @ map (\<lambda>p. item_decision (steering p) now_ms (ps_inbox ps) p) items
    \<and> ps_failure ps' = ps_failure ps \<and> ps_appended ps' = ps_appended ps"
  unfolding ps'_def using assms(1-4)
proof (induction items arbitrary: ps)
  case (Cons p items)
  note ready = persist_item_ready [OF Cons.prems(1-3), of encode schema_error appends now_ms]
  have tail: "distinct (map pend_id items)" using Cons.prems(3) by simp
  have "held (ps_inbox ps) p" using Cons.prems(2) by simp
  note eq = persist_item_eq [OF this, of encode schema_error appends now_ms]
  obtain e where e: "ps_failure ps = Some e" using Cons.prems(4) by auto
  then have "failure_after encode schema_error appends p ps = Some e" "failure_before encode schema_error p ps = Some e"
    by (simp_all add: failure_after_def failure_stays)
  then show ?case using Cons.IH [OF ready(1,2) tail] e unfolding fold_simps eq by simp
qed simp

lemma persist_fold_outcome:
  fixes ps :: "'e persisting" and encode :: "run_control_request \<Rightarrow> str + str" and schema_error :: "str \<Rightarrow> 'e"
    and appends :: "'e appender" and now_ms :: u64
  assumes "inbox_ok (ps_inbox ps)" and "\<forall>q\<in>set items. held (ps_inbox ps) q" and "distinct (map pend_id items)"
    and "\<forall>q\<in>set items. \<not> isl (encode (pend_request q))" and "ps_failure ps = None"
  defines "ps' \<equiv> fold (persist_item encode schema_error appends now_ms) items ps"
    and "kept \<equiv> fst (retained_prefix appends (ps_appended ps) (filter steering items))"
  shows "ps_decisions ps'
      = ps_decisions ps @ map (\<lambda>p. item_decision (steering p \<and> p \<notin> set kept) now_ms (ps_inbox ps) p) items
    \<and> ps_failure ps' = snd (retained_prefix appends (ps_appended ps) (filter steering items))
    \<and> ps_appended ps' = ps_appended ps @ take (length kept + of_bool (ps_failure ps' \<noteq> None)) (filter steering items)"
  unfolding ps'_def kept_def using assms(1-5)
proof (induction items arbitrary: ps)
  case (Cons p items)
  let ?ps = "persist_item encode schema_error appends now_ms p ps"
  note ready = persist_item_ready [OF Cons.prems(1-3), of encode schema_error appends now_ms]
  have tail: "distinct (map pend_id items)" using Cons.prems(3) by simp
  have "held (ps_inbox ps) p" using Cons.prems(2) by simp
  note eq = persist_item_eq [OF this, of encode schema_error appends now_ms]
  have before: "failure_before encode schema_error p ps = None"
    using Cons.prems(4,5) by (auto simp: failure_before_def request_fingerprint_def split: sum.splits)
  have p: "p \<notin> set items" using Cons.prems(3) by auto
  show ?case
  proof (cases "steering p \<and> appends (ps_appended ps) p \<noteq> None")
    case True
    then obtain e where e: "appends (ps_appended ps) p = Some e" "steering p" by auto
    then have "failure_after encode schema_error appends p ps = Some e" by (simp add: failure_after_def before)
    then show ?thesis
      using persist_fold_failed [OF ready(1,2) tail, of encode schema_error appends now_ms] e before
      unfolding fold_simps eq by simp
  next
    case False
    then have after: "failure_after encode schema_error appends p ps = None" by (auto simp: failure_after_def before)
    have ih: "ps_decisions (fold (persist_item encode schema_error appends now_ms) items ?ps)
        = ps_decisions ?ps @ map (\<lambda>p. item_decision (steering p \<and> p \<notin> set (fst (retained_prefix appends (ps_appended ?ps)
            (filter steering items)))) now_ms (ps_inbox ?ps) p) items
      \<and> ps_failure (fold (persist_item encode schema_error appends now_ms) items ?ps)
        = snd (retained_prefix appends (ps_appended ?ps) (filter steering items))
      \<and> ps_appended (fold (persist_item encode schema_error appends now_ms) items ?ps)
        = ps_appended ?ps @ take (length (fst (retained_prefix appends (ps_appended ?ps) (filter steering items)))
            + of_bool (ps_failure (fold (persist_item encode schema_error appends now_ms) items ?ps) \<noteq> None)) (filter steering items)"
      using Cons.IH [OF ready(1,2) tail] Cons.prems(4) after by (simp add: eq)
    show ?thesis
    proof (cases "steering p")
      case True
      then have "appends (ps_appended ps) p = None" using False by simp
      moreover have "map (\<lambda>x. item_decision (steering x \<and> x \<noteq> p \<and> x \<notin> set kept) now_ms (ps_inbox ps) x) items
          = map (\<lambda>x. item_decision (steering x \<and> x \<notin> set kept) now_ms (ps_inbox ps) x) items" for kept
      proof (rule map_cong [OF refl])
        fix x assume "x \<in> set items"
        then have "x \<noteq> p" using p by auto
        then show "item_decision (steering x \<and> x \<noteq> p \<and> x \<notin> set kept) now_ms (ps_inbox ps) x
            = item_decision (steering x \<and> x \<notin> set kept) now_ms (ps_inbox ps) x" by simp
      qed
      ultimately show ?thesis
        using ih True after before unfolding fold_simps eq by (simp split: prod.split)
    next
      case nosteer: False
      then show ?thesis using ih after before unfolding fold_simps eq by simp
    qed
  qed
qed simp

lemma trim_small: "length (ib_seen s) \<le> RUN_CONTROL_MAX_SEEN_REQUESTS \<Longrightarrow> trim_terminal_receipts s = s"
  by (subst trim_unfold) simp

definition persist_start :: "bool \<Rightarrow> inbox \<Rightarrow> inbox" where
  "persist_start terminal s = (if terminal then seal_state s else s)"

lemma persist_start_same: "same_controls s (persist_start terminal s)"
  by (simp add: persist_start_def same_controls_seal)

text \<open>On an inbox of the invariant nothing is retired, reconstructed or trimmed.\<close>

lemma persist_pending_eq:
  fixes encode :: "run_control_request \<Rightarrow> str + str" and schema_error :: "str \<Rightarrow> 'e"
    and appends :: "'e appender" and terminal :: bool and now_ms :: u64
  assumes "inbox_ok s"
  defines "u \<equiv> persist_start terminal s"
  shows "persist_pending encode schema_error appends terminal now_ms s =
    (let ps = fold (persist_item encode schema_error appends now_ms) (accepted_controls u)
        \<lparr>ps_inbox = u, ps_failure = None, ps_decisions = [], ps_appended = []\<rparr>
     in (ps, pending_observation (ps_inbox ps)))"
    (is "_ = (let ps = ?ps in _)")
proof -
  have u: "inbox_ok u" unfolding u_def by (rule same_controls_ok [OF persist_start_same assms(1)])
  have "length (ib_seen (ps_inbox ?ps)) = length (ib_seen u)"
    using persist_fold_inbox [of "\<lparr>ps_inbox = u, ps_failure = None, ps_decisions = [], ps_appended = []\<rparr>"
        "accepted_controls u" encode schema_error appends now_ms]
      u accepted_controls_held [OF u] accepted_controls_distinct [OF u] by simp
  then have "trim_terminal_receipts (ps_inbox ?ps) = ps_inbox ?ps"
    using inbox_okD(4) [OF u] by (intro trim_small) (simp add: within_limits_def)
  then show ?thesis
    unfolding persist_pending_def persist_start_def [symmetric] u_def [symmetric] retire_terminal_id [OF u] Let_def by simp
qed

lemma persist_inbox:
  fixes encode :: "run_control_request \<Rightarrow> str + str" and schema_error :: "str \<Rightarrow> 'e"
    and appends :: "'e appender" and terminal :: bool and now_ms :: u64
  assumes "inbox_ok s"
  defines "t \<equiv> ps_inbox (fst (persist_pending encode schema_error appends terminal now_ms s))"
  shows "inbox_ok t \<and> pending_ids t = {} \<and> (ib_closed t \<longleftrightarrow> ib_closed s \<or> terminal)"
proof -
  let ?u = "persist_start terminal s"
  have u: "inbox_ok ?u" by (rule same_controls_ok [OF persist_start_same assms(1)])
  show ?thesis
    using persist_fold_inbox [of "\<lparr>ps_inbox = ?u, ps_failure = None, ps_decisions = [], ps_appended = []\<rparr>"
        "accepted_controls ?u" encode schema_error appends now_ms]
      u accepted_controls_held [OF u] accepted_controls_distinct [OF u] accepted_controls_ids [OF u]
    unfolding t_def persist_pending_eq [OF assms(1)] Let_def
    by (simp add: persist_start_def seal_state_def)
qed

text \<open>No observation of an inbox without pending receipts counts an accepted control.\<close>

lemma nothing_pending_observed:
  assumes "inbox_ok s" and "pending_ids s = {}"
  shows "\<not> has_accepted (pending_observation s)"
proof -
  have "live_ids s = []" using inbox_okD(2) [OF assms(1)] assms(2) by (simp add: owned_def)
  then have "ib_queue s = []" "ib_in_flight s = []" by (simp_all add: live_ids_def)
  moreover have "\<not> is_accepted (sq_receipt q)" if "(k, q) \<in> set (ib_seen s)" for k q
  proof -
    have "map_of (ib_seen s) k = Some q"
      using inbox_okD(1) [OF assms(1)] that by (intro map_of_is_SomeI) (simp_all add: book_ok_def)
    then show ?thesis using assms(2) by (auto simp: pending_ids_def receipt_of_def)
  qed
  then have "filter (\<lambda>q. is_accepted (sq_receipt q)) (map snd (ib_seen s)) = []" by (auto simp: filter_empty_conv)
  ultimately show ?thesis by (simp add: has_accepted_def pending_observation_def)
qed

subsection \<open>The ledger of receipts\<close>

text \<open>
  What the inbox promises about a receipt, without queues: it is created accepted while the inbox is open, it is
  decided at most once and keeps its identity, and only a decided receipt is forgotten.
\<close>

definition decides :: "run_control_receipt \<Rightarrow> run_control_receipt \<Rightarrow> bool" where
  "decides r d \<longleftrightarrow>
     rcp_state d \<in> {Applied, Settled} \<and> rcp_request_id d = rcp_request_id r \<and> rcp_session_id d = rcp_session_id r
     \<and> rcp_run_id d = rcp_run_id r \<and> rcp_operation d = rcp_operation r \<and> rcp_sequence d = rcp_sequence r
     \<and> rcp_accepted_at_ms d = rcp_accepted_at_ms r"

inductive receipt_move :: "bool \<Rightarrow> run_control_receipt option \<Rightarrow> run_control_receipt option \<Rightarrow> bool"
  for sealed :: bool where
  move_stay: "receipt_move sealed x x"
| move_admit: "\<not> sealed \<Longrightarrow> is_accepted r \<Longrightarrow> receipt_move sealed None (Some r)"
| move_decide: "is_accepted r \<Longrightarrow> decides r d \<Longrightarrow> receipt_move sealed (Some r) (Some d)"
| move_forget: "\<not> is_accepted r \<Longrightarrow> receipt_move sealed (Some r) None"

inductive_cases receipt_move_NoneE: "receipt_move sealed None y"
inductive_cases receipt_move_SomeE: "receipt_move sealed (Some r) y"

lemma decides_not_accepted: "decides r d \<Longrightarrow> \<not> is_accepted d"
  by (auto simp: decides_def is_accepted_def)

locale receipt_ledger =
  fixes step :: "'s \<Rightarrow> 's \<Rightarrow> bool"
    and good :: "'s \<Rightarrow> bool"
    and sealed :: "'s \<Rightarrow> bool"
    and book :: "'s \<Rightarrow> str \<Rightarrow> run_control_receipt option"
  assumes good_step: "good s \<Longrightarrow> step s t \<Longrightarrow> good t"
    and sealed_step: "good s \<Longrightarrow> step s t \<Longrightarrow> sealed s \<Longrightarrow> sealed t"
    and book_step: "good s \<Longrightarrow> step s t \<Longrightarrow> receipt_move (sealed s) (book s k) (book t k)"
begin

lemma good_run: "step\<^sup>*\<^sup>* s t \<Longrightarrow> good s \<Longrightarrow> good t"
  by (induction rule: rtranclp_induct) (auto intro: good_step)

lemma sealed_run: "step\<^sup>*\<^sup>* s t \<Longrightarrow> good s \<Longrightarrow> sealed s \<Longrightarrow> sealed t"
  by (induction rule: rtranclp_induct) (auto intro: sealed_step good_run)

lemma no_admission_when_sealed:
  assumes "step\<^sup>*\<^sup>* s t" and "good s" and "sealed s" and "book s k = None"
  shows "book t k = None"
  using assms
proof (induction rule: rtranclp_induct)
  case (step t u)
  have "receipt_move True None (book u k)"
    using book_step [OF good_run [OF step.hyps(1) step.prems(1)] step.hyps(2), of k]
      sealed_run [OF step.hyps(1) step.prems(1,2)] step.IH [OF step.prems] by simp
  then show ?case by (cases rule: receipt_move.cases) auto
qed

lemma decided_is_final:
  assumes "step\<^sup>*\<^sup>* s t" and "good s" and "sealed s" and "book s k = Some r" and "\<not> is_accepted r"
  shows "book t k = Some r \<or> book t k = None"
  using assms
proof (induction rule: rtranclp_induct)
  case (step t u)
  have sealed: "sealed t" by (rule sealed_run [OF step.hyps(1) step.prems(1,2)])
  have move: "receipt_move (sealed t) (book t k) (book u k)"
    by (rule book_step [OF good_run [OF step.hyps(1) step.prems(1)] step.hyps(2)])
  from step.IH [OF step.prems] show ?case
  proof
    assume "book t k = Some r"
    then show ?case using move step.prems(4) by (auto elim: receipt_move_SomeE)
  next
    assume "book t k = None"
    then show ?case using move sealed by (auto elim: receipt_move_NoneE)
  qed
qed simp

lemma nothing_pending_again:
  assumes "step\<^sup>*\<^sup>* s t" and "good s" and "sealed s" and "\<forall>r. book s k = Some r \<longrightarrow> \<not> is_accepted r"
  shows "\<forall>r. book t k = Some r \<longrightarrow> \<not> is_accepted r"
proof (cases "book s k")
  case None
  then show ?thesis using no_admission_when_sealed [OF assms(1-3)] by simp
next
  case (Some r)
  then show ?thesis using decided_is_final [OF assms(1-3) Some] assms(4) by auto
qed

end

subsection \<open>Every operation moves receipts as the ledger does\<close>

lemma persist_fold_receipts:
  fixes ps :: "'e persisting" and encode :: "run_control_request \<Rightarrow> str + str" and schema_error :: "str \<Rightarrow> 'e"
    and appends :: "'e appender" and now_ms :: u64
  assumes "inbox_ok (ps_inbox ps)" and "\<forall>q\<in>set items. held (ps_inbox ps) q" and "distinct (map pend_id items)"
  defines "ps' \<equiv> fold (persist_item encode schema_error appends now_ms) items ps"
  shows "if k \<in> pend_id ` set items
    then \<exists>r d. receipt_of (ps_inbox ps) k = Some r \<and> is_accepted r \<and> receipt_of (ps_inbox ps') k = Some d \<and> decides r d
    else receipt_of (ps_inbox ps') k = receipt_of (ps_inbox ps) k"
  unfolding ps'_def using assms(1-3)
proof (induction items arbitrary: ps)
  case (Cons p items)
  let ?ps = "persist_item encode schema_error appends now_ms p ps"
  note ready = persist_item_ready [OF Cons.prems, of encode schema_error appends now_ms]
  have tail: "distinct (map pend_id items)" "pend_id p \<notin> pend_id ` set items" using Cons.prems(3) by simp_all
  have p: "held (ps_inbox ps) p" using Cons.prems(2) by simp
  define d where "d = pend_receipt (item_decision (steering p \<and> failure_after encode schema_error appends p ps \<noteq> None)
    now_ms (ps_inbox ps) p)"
  have ps: "receipt_of (ps_inbox ?ps) = (receipt_of (ps_inbox ps))(pend_id p := Some d)"
    unfolding persist_item_eq [OF p] d_def by (simp add: receipt_of_decide [OF held_pending [OF p]])
  have "receipt_of (ps_inbox ps) (pend_id p) = Some (pend_receipt p)" "is_accepted (pend_receipt p)"
    using p by (auto simp: held_def receipt_of_def)
  moreover have "decides (pend_receipt p) d"
    by (simp add: d_def item_decision_def decided_receipt_def decides_def)
  ultimately show ?case
    using Cons.IH [OF ready(1,2) tail(1)] tail(2) ps by (cases "k = pend_id p") auto
qed simp

lemma persist_fold_filed:
  fixes ps :: "'e persisting" and encode :: "run_control_request \<Rightarrow> str + str" and schema_error :: "str \<Rightarrow> 'e"
    and appends :: "'e appender" and now_ms :: u64
  assumes "inbox_ok (ps_inbox ps)" and "\<forall>q\<in>set items. held (ps_inbox ps) q" and "distinct (map pend_id items)"
    and "\<forall>d\<in>set (ps_decisions ps). pend_id d \<notin> pend_id ` set items \<and> receipt_of (ps_inbox ps) (pend_id d) = Some (pend_receipt d)"
  defines "ps' \<equiv> fold (persist_item encode schema_error appends now_ms) items ps"
  shows "\<forall>d\<in>set (ps_decisions ps'). receipt_of (ps_inbox ps') (pend_id d) = Some (pend_receipt d)"
  unfolding ps'_def using assms(1-4)
proof (induction items arbitrary: ps)
  case (Cons p items)
  let ?ps = "persist_item encode schema_error appends now_ms p ps"
  note ready = persist_item_ready [OF Cons.prems(1-3), of encode schema_error appends now_ms]
  have tail: "distinct (map pend_id items)" "pend_id p \<notin> pend_id ` set items" using Cons.prems(3) by simp_all
  have p: "held (ps_inbox ps) p" using Cons.prems(2) by simp
  have "\<forall>d\<in>set (ps_decisions ?ps). pend_id d \<notin> pend_id ` set items \<and> receipt_of (ps_inbox ?ps) (pend_id d) = Some (pend_receipt d)"
    unfolding persist_item_eq [OF p] using Cons.prems(4) tail(2) by (simp add: receipt_of_decide [OF held_pending [OF p]])
  then show ?case using Cons.IH [OF ready(1,2) tail(1)] by simp
qed simp

lemma persist_receipts:
  assumes "inbox_ok s"
  shows "receipt_move sealed (receipt_of s k)
    (receipt_of (ps_inbox (fst (persist_pending encode schema_error appends terminal now_ms s))) k)"
proof -
  let ?u = "persist_start terminal s"
  have u: "inbox_ok ?u" by (rule same_controls_ok [OF persist_start_same assms])
  have r: "receipt_of ?u = receipt_of s" by (rule same_controls_receipts [OF persist_start_same])
  show ?thesis
    using persist_fold_receipts [of "\<lparr>ps_inbox = ?u, ps_failure = None, ps_decisions = [], ps_appended = []\<rparr>"
        "accepted_controls ?u" k encode schema_error appends now_ms]
      u accepted_controls_held [OF u] accepted_controls_distinct [OF u]
    unfolding persist_pending_eq [OF assms] Let_def
    by (auto simp: r intro: move_stay move_decide split: if_splits)
qed

lemma submit_receipts:
  assumes "inbox_ok s"
  shows "receipt_move (ib_closed s) (receipt_of s k) (receipt_of (snd (submit_with_hooks encode before during r now_ms s)) k)"
proof (cases rule: submit_with_hooks_cases [of encode before during r now_ms s])
  case (quiet res t)
  then show ?thesis using same_controls_receipts [of s t] by (simp add: move_stay)
next
  case (fresh f u)
  have u: "same_controls s u" unfolding fresh(1) by (rule same_controls_outside)
  have "\<not> ib_closed s" using admission_open [OF fresh(4)] u by (auto simp: same_controls_def)
  moreover have "receipt_of u = receipt_of s" "pending_ids u = pending_ids s"
    using same_controls_receipts [OF u] same_controls_pending [OF u] by simp_all
  moreover have "receipt_of (snd (submit_with_hooks encode before during r now_ms s))
      = receipt_of (admitted f r (accepted_receipt r now_ms u) u)"
    unfolding fresh(5) snd_conv by (rule same_controls_receipts [OF same_controls_record])
  ultimately show ?thesis
    using admitted_receipts [of "accepted_receipt r now_ms u" f r u k] fresh(3)
    by (cases "receipt_of s k")
      (auto simp: pending_ids_def split: if_splits intro: move_stay move_admit move_forget)
qed

lemma mark_applied_receipts:
  assumes "inbox_ok s" and "(pend_id p, p) \<in> set (ib_in_flight s)"
  shows "receipt_move sealed (receipt_of s k) (receipt_of (snd (mark_applied p turn_id revision now_ms s)) k)"
proof -
  let ?d = "applied_receipt turn_id revision now_ms (pend_receipt p)"
  have p: "held s p" using in_flight_held [OF assms] by simp
  have "receipt_of (snd (mark_applied p turn_id revision now_ms s)) = (receipt_of s)(pend_id p := Some ?d)"
    unfolding mark_applied_in_flight [OF assms] snd_conv same_controls_receipts [OF same_controls_record]
    by (rule receipt_of_decide [OF held_pending [OF p]])
  moreover have "receipt_of s (pend_id p) = Some (pend_receipt p)" "is_accepted (pend_receipt p)"
    using p by (auto simp: held_def receipt_of_def)
  moreover have "decides (pend_receipt p) ?d" by (simp add: applied_receipt_def decides_def)
  ultimately show ?thesis by (auto intro: move_stay move_decide)
qed

lemma close_receipts: "receipt_move sealed (receipt_of s k) (receipt_of (close_inbox now_ms s) k)"
proof (cases "receipt_of s k")
  case (Some r)
  have "decides r (settled_receipt now_ms r)" by (simp add: settled_receipt_def decides_def)
  then show ?thesis using Some by (auto simp: receipt_of_close intro: move_stay move_decide)
qed (simp add: receipt_of_close move_stay)

subsection \<open>Steps of a run\<close>

text \<open>
  The host submits and seals, the loop opens turns, drains and acknowledges, the fact runtime persists, the
  session closes, and the token fires, in any order.  The flag of a step tells whether it admitted a request.  The
  loop acknowledges a control it drained: the control is still in flight, or it was decided in between.
\<close>

inductive run_control_step ::
    "(run_control_request \<Rightarrow> str + str) \<Rightarrow> (str \<Rightarrow> 'e) \<Rightarrow> inbox \<Rightarrow> bool \<Rightarrow> inbox \<Rightarrow> bool"
  for encode :: "run_control_request \<Rightarrow> str + str" and schema_error :: "str \<Rightarrow> 'e" where
  step_submit: "submit_with_hooks encode before during r now_ms s = (res, t) \<Longrightarrow>
     run_control_step encode schema_error s (receipt_of s (rcq_request_id r) = None \<and> \<not> isl res) t"
| step_turn: "run_control_step encode schema_error s False (snd (update_turn_id turn_id s))"
| step_drain: "run_control_step encode schema_error s False (snd (drain_inbox s))"
| step_acknowledge: "(pend_id p, p) \<in> set (ib_in_flight s) \<Longrightarrow>
     run_control_step encode schema_error s False (snd (mark_applied p turn_id revision now_ms s))"
| step_late_acknowledge: "pend_id p \<notin> pending_ids s \<Longrightarrow>
     run_control_step encode schema_error s False (snd (mark_applied p turn_id revision now_ms s))"
| step_persist: "run_control_step encode schema_error s False
     (ps_inbox (fst (persist_pending encode schema_error appends terminal now_ms s)))"
| step_observe: "run_control_step encode schema_error s False (observe_decisions decisions s)"
| step_outside: "run_control_step encode schema_error s False (outside e s)"
| step_seal: "run_control_step encode schema_error s False (snd (seal_and_observe_pending s))"
| step_close: "run_control_step encode schema_error s False (close_inbox now_ms s)"

inductive control_run ::
    "(run_control_request \<Rightarrow> str + str) \<Rightarrow> (str \<Rightarrow> 'e) \<Rightarrow> inbox \<Rightarrow> nat \<Rightarrow> inbox \<Rightarrow> bool"
  for encode :: "run_control_request \<Rightarrow> str + str" and schema_error :: "str \<Rightarrow> 'e" and s :: inbox where
  run_start: "control_run encode schema_error s 0 s"
| run_step: "control_run encode schema_error s n t \<Longrightarrow> run_control_step encode schema_error t a u
     \<Longrightarrow> control_run encode schema_error s (n + of_bool a) u"

lemma same_controls_seal_observe: "same_controls s (snd (seal_and_observe_pending s))"
  by (simp add: seal_and_observe_pending_def same_controls_seal Let_def)

lemma same_controls_outside1: "same_controls s (outside e s)"
  using same_controls_outside [of s "[e]"] by simp

lemmas quiet_steps =
  same_controls_turn same_controls_observe same_controls_outside1 same_controls_seal_observe same_controls_refl

lemma step_ok:
  assumes "run_control_step encode schema_error s a t" and "inbox_ok s"
  shows "inbox_ok t"
  using assms
proof (cases rule: run_control_step.cases)
  case (step_submit before during r now_ms res)
  then show ?thesis using submit_ok [OF assms(2), of encode before during r now_ms] by simp
next
  case (step_late_acknowledge p turn_id revision now_ms)
  then show ?thesis using assms(2) mark_applied_decided by simp
qed (use assms(2) in \<open>auto intro: same_controls_ok quiet_steps drain_ok mark_applied_in_flight_ok close_ok
       dest: persist_inbox\<close>)

lemma step_receipts:
  assumes "run_control_step encode schema_error s a t" and "inbox_ok s"
  shows "receipt_move (ib_closed s) (receipt_of s k) (receipt_of t k)"
  using assms
proof (cases rule: run_control_step.cases)
  case (step_submit before during r now_ms res)
  then show ?thesis using submit_receipts [OF assms(2), of k encode before during r now_ms] by simp
next
  case (step_late_acknowledge p turn_id revision now_ms)
  then show ?thesis using mark_applied_decided by (simp add: move_stay)
next
  case (step_acknowledge p turn_id revision now_ms)
  then show ?thesis using mark_applied_receipts [OF assms(2)] by simp
next
  case step_persist
  then show ?thesis using persist_receipts [OF assms(2)] by simp
next
  case step_close
  then show ?thesis using close_receipts by simp
qed (simp_all add: drain_receipts same_controls_receipts [OF same_controls_turn] same_controls_receipts [OF same_controls_observe]
       same_controls_receipts [OF same_controls_outside1] same_controls_receipts [OF same_controls_seal_observe] move_stay)

lemma same_controls_closed: "same_controls s t \<Longrightarrow> ib_closed s \<Longrightarrow> ib_closed t"
  by (simp add: same_controls_def)

lemma submit_closed:
  "ib_closed s \<Longrightarrow> ib_closed (snd (submit_with_hooks encode before during r now_ms s))"
proof (cases rule: submit_with_hooks_cases [of encode before during r now_ms s])
  case (quiet res t)
  then show "ib_closed s \<Longrightarrow> ?thesis" using same_controls_closed by simp
next
  case (fresh f u)
  have "ib_closed s \<Longrightarrow> ib_closed u" unfolding fresh(1) by (rule same_controls_closed [OF same_controls_outside])
  then show "ib_closed s \<Longrightarrow> ?thesis" using admission_open [OF fresh(4)] by simp
qed

lemma mark_applied_closed: "ib_closed (snd (mark_applied p turn_id revision now_ms s)) = ib_closed s"
  by (auto simp: mark_applied_def record_receipt_def Let_def split: option.split)

lemma step_sealed:
  assumes "run_control_step encode schema_error s a t" and "inbox_ok s" and "ib_closed s"
  shows "ib_closed t"
  using assms
proof (cases rule: run_control_step.cases)
  case (step_submit before during r now_ms res)
  then show ?thesis using submit_closed [OF assms(3), of encode before during r now_ms] by simp
next
  case (step_persist appends terminal now_ms)
  then show ?thesis using persist_inbox [OF assms(2), of encode schema_error appends terminal now_ms] assms(3) by simp
qed (use assms(3) in \<open>auto intro: same_controls_closed quiet_steps close_sealed simp: mark_applied_closed\<close>)

interpretation ib: receipt_ledger "\<lambda>s t. \<exists>a. run_control_step encode schema_error s a t" inbox_ok ib_closed receipt_of
  for encode and schema_error :: "str \<Rightarrow> 'e"
  by unfold_locales (auto intro: step_ok step_sealed step_receipts)

lemma control_run_steps:
  "control_run encode schema_error s n t \<Longrightarrow> (\<lambda>s t. \<exists>a. run_control_step encode schema_error s a t)\<^sup>*\<^sup>* s t"
  by (induction rule: control_run.induct) (auto intro: rtranclp.rtrancl_into_rtrancl)

lemma control_run_ok: "control_run encode schema_error s n t \<Longrightarrow> inbox_ok s \<Longrightarrow> inbox_ok t"
  by (rule ib.good_run [OF control_run_steps])

end
