(* ===== verification/RunControlProperties.thy ===== *)
theory RunControlProperties
  imports RunControlRuns
begin

section \<open>Properties of the run-control inbox\<close>

text \<open>
  The retry window, the bounds of the inbox, the ledger it refines, the end of a run, and the outcome of the
  persist-and-acknowledge transaction and of the loop's safe point.
\<close>

subsection \<open>The retry window\<close>

definition print_of :: "inbox \<Rightarrow> str \<Rightarrow> str option" where
  "print_of s k = map_option sq_fingerprint (map_of (ib_seen s) k)"

text \<open>The number of requests admitted after \<open>k\<close> whose receipts are still kept.\<close>

definition later :: "str \<Rightarrow> str list \<Rightarrow> nat" where
  "later k order = length (dropWhile (\<lambda>x. x \<noteq> k) order) - 1"

lemma later_remove1: "later k (remove1 x order) \<le> later k order"
proof -
  have "length (dropWhile (\<lambda>x. x \<noteq> k) (remove1 x order)) \<le> length (dropWhile (\<lambda>x. x \<noteq> k) order)"
  proof (induction order)
    case (Cons y order)
    have "length (dropWhile (\<lambda>x. x \<noteq> k) order) \<le> length order" by (rule length_dropWhile_le)
    then show ?case using Cons by (auto simp: length_remove1)
  qed simp
  then show ?thesis by (simp add: later_def diff_le_mono)
qed

lemma later_append: "k \<in> set order \<Longrightarrow> later k (order @ [x]) = Suc (later k order)"
proof -
  assume "k \<in> set order"
  moreover from this have "dropWhile (\<lambda>x. x \<noteq> k) order \<noteq> []" by (auto simp: dropWhile_eq_Nil_conv)
  ultimately show ?thesis
    by (simp add: later_def dropWhile_append1 [where x = k] Suc_diff_1 [OF length_greater_0_conv [THEN iffD2]])
qed

lemma later_split: "k \<notin> set ys \<Longrightarrow> later k (ys @ k # zs) = length zs"
  unfolding later_def by (subst dropWhile_append2) auto

lemma find_split: "find P xs = Some x \<Longrightarrow> \<exists>ys zs. xs = ys @ x # zs \<and> (\<forall>y\<in>set ys. \<not> P y)"
proof (induction xs)
  case (Cons y xs)
  show ?case
  proof (cases "P y")
    case True
    then show ?thesis using Cons.prems by (intro exI [of _ "[]"] exI [of _ xs]) simp
  next
    case False
    then obtain ys zs where "xs = ys @ x # zs" "\<forall>y\<in>set ys. \<not> P y" using Cons by auto
    then show ?thesis using False by (intro exI [of _ "y # ys"] exI [of _ zs]) simp
  qed
qed simp

text \<open>A receipt that is trimmed was followed by almost a full book: all before it are pending.\<close>

lemma trimmed_is_old:
  assumes "book_ok s" and "card (pending_ids s) \<le> RUN_CONTROL_MAX_QUEUE" and "trim_candidate s = Some k"
    and "length (ib_seen s) > RUN_CONTROL_MAX_SEEN_REQUESTS"
  shows "later k (ib_seen_order s) \<ge> 192"
proof -
  obtain ys zs where order: "ib_seen_order s = ys @ k # zs"
    and ys: "\<forall>y\<in>set ys. \<not> (case map_of (ib_seen s) y of None \<Rightarrow> True | Some q \<Rightarrow> \<not> is_accepted (sq_receipt q))"
    using find_split assms(3) unfolding trim_candidate_def by fastforce
  have d: "distinct (ys @ k # zs)" using assms(1) order by (simp add: book_ok_def)
  have "set ys \<subseteq> pending_ids s" using ys by (auto simp: pending_ids_def receipt_of_def split: option.splits)
  then have "card (set ys) \<le> card (pending_ids s)" by (intro card_mono) simp_all
  then have "length ys \<le> 64" using d assms(2) by (simp add: distinct_card RUN_CONTROL_MAX_QUEUE_def)
  moreover have "length ys + 1 + length zs > 256"
    using assms(4) book_length [OF assms(1)] order by (simp add: RUN_CONTROL_MAX_SEEN_REQUESTS_def)
  ultimately have "length zs \<ge> 192" by simp
  then show ?thesis using d order by (simp add: later_split)
qed

lemma trim_keeps_recent:
  assumes "book_ok s" and "card (pending_ids s) \<le> RUN_CONTROL_MAX_QUEUE" and "later k (ib_seen_order s) < 192"
  shows "map_of (ib_seen (trim_terminal_receipts s)) k = map_of (ib_seen s) k
    \<and> later k (ib_seen_order (trim_terminal_receipts s)) \<le> later k (ib_seen_order s)"
  using assms
proof (induction s rule: trim_induct)
  case (trim s)
  show ?case
  proof (cases "length (ib_seen s) > RUN_CONTROL_MAX_SEEN_REQUESTS \<and> trim_candidate s \<noteq> None")
    case True
    then obtain x where big: "length (ib_seen s) > RUN_CONTROL_MAX_SEEN_REQUESTS" and x: "trim_candidate s = Some x" by auto
    have eq: "trim_terminal_receipts s = trim_terminal_receipts (drop_receipt x s)"
      using big x by (subst trim_unfold) simp
    have "later k (ib_seen_order (drop_receipt x s)) \<le> later k (ib_seen_order s)"
      by (simp add: drop_receipt_def later_remove1)
    moreover have "x \<noteq> k" using trimmed_is_old [OF trim.prems(1,2) x big] trim.prems(3) by auto
    ultimately show ?thesis
      using trim.IH [OF big x book_drop [OF trim.prems(1)]] trim.prems(2,3) pending_drop [OF x] eq
      by (simp add: drop_receipt_def)
  next
    case False
    then have "trim_terminal_receipts s = s" by (subst trim_unfold) auto
    then show ?thesis by simp
  qed
qed

definition same_prints :: "inbox \<Rightarrow> inbox \<Rightarrow> bool" where
  "same_prints s t \<longleftrightarrow> ib_seen_order t = ib_seen_order s \<and> print_of t = print_of s"

lemma same_controls_prints: "same_controls s t \<Longrightarrow> same_prints s t"
  by (auto simp: same_controls_def same_prints_def print_of_def)

lemma same_prints_trans: "same_prints s t \<Longrightarrow> same_prints t u \<Longrightarrow> same_prints s u"
  by (simp add: same_prints_def)

lemma decide_prints: "same_prints s (decide k r s)"
  by (auto simp: same_prints_def print_of_def decide_def set_receipt_lookup fun_eq_iff option.map_comp comp_def
      intro!: option.map_cong)

lemma mark_applied_prints:
  assumes "inbox_ok s" and "(pend_id p, p) \<in> set (ib_in_flight s)"
  shows "same_prints s (snd (mark_applied p turn_id revision now_ms s))"
  unfolding mark_applied_in_flight [OF assms] snd_conv
  by (rule same_prints_trans [OF decide_prints same_controls_prints [OF same_controls_record]])

lemma settled_book_prints: "same_prints s (settled_book now_ms s)"
proof -
  have "sq_fingerprint (settle_seen now_ms q) = sq_fingerprint q" for q by (simp add: settle_seen_def)
  then show ?thesis
    by (simp add: same_prints_def print_of_def settled_book_def seal_state_def map_of_map fun_eq_iff option.map_comp comp_def)
qed

lemma close_prints: "same_prints s (close_inbox now_ms s)"
  by (rule same_prints_trans [OF settled_book_prints same_controls_prints [OF close_same_controls]])

lemma persist_fold_prints:
  fixes ps :: "'e persisting" and encode :: "run_control_request \<Rightarrow> str + str" and schema_error :: "str \<Rightarrow> 'e"
    and appends :: "'e appender" and now_ms :: u64
  assumes "inbox_ok (ps_inbox ps)" and "\<forall>q\<in>set items. held (ps_inbox ps) q" and "distinct (map pend_id items)"
  shows "same_prints (ps_inbox ps) (ps_inbox (fold (persist_item encode schema_error appends now_ms) items ps))"
  using assms
proof (induction items arbitrary: ps)
  case (Cons p items)
  note ready = persist_item_ready [OF Cons.prems, of encode schema_error appends now_ms]
  have tail: "distinct (map pend_id items)" using Cons.prems(3) by simp
  have "held (ps_inbox ps) p" using Cons.prems(2) by simp
  note eq = persist_item_eq [OF this, of encode schema_error appends now_ms]
  have "same_prints (ps_inbox ps) (ps_inbox (persist_item encode schema_error appends now_ms p ps))"
    by (simp add: eq decide_prints)
  then show ?case using Cons.IH [OF ready(1,2) tail] same_prints_trans by fastforce
qed (simp add: same_prints_def)

lemma persist_prints:
  assumes "inbox_ok s"
  shows "same_prints s (ps_inbox (fst (persist_pending encode schema_error appends terminal now_ms s)))"
proof -
  let ?u = "persist_start terminal s"
  have u: "inbox_ok ?u" by (rule same_controls_ok [OF persist_start_same assms])
  have "same_prints ?u (ps_inbox (fst (persist_pending encode schema_error appends terminal now_ms s)))"
    using persist_fold_prints [of "\<lparr>ps_inbox = ?u, ps_failure = None, ps_decisions = [], ps_appended = []\<rparr>"
        "accepted_controls ?u" encode schema_error appends now_ms]
      u accepted_controls_held [OF u] accepted_controls_distinct [OF u]
    unfolding persist_pending_eq [OF assms] Let_def by simp
  then show ?thesis by (rule same_prints_trans [OF same_controls_prints [OF persist_start_same]])
qed

text \<open>A submission that is not a fresh admission leaves the book alone; a fresh one adds one entry.\<close>

lemma submit_window:
  assumes "inbox_ok s" and "submit_with_hooks encode before during r now_ms s = (res, t)"
    and "k \<in> set (ib_seen_order s)"
    and "later k (ib_seen_order s) + of_bool (receipt_of s (rcq_request_id r) = None \<and> \<not> isl res) < 192"
  shows "print_of t k = print_of s k
    \<and> later k (ib_seen_order t) \<le> later k (ib_seen_order s) + of_bool (receipt_of s (rcq_request_id r) = None \<and> \<not> isl res)"
proof (cases rule: submit_with_hooks_cases [of encode before during r now_ms s])
  case (quiet res' t')
  then have "same_prints s t" using assms(2) same_controls_prints by simp
  then show ?thesis by (simp add: same_prints_def)
next
  case (fresh f u)
  let ?receipt = "accepted_receipt r now_ms u"
  let ?v = "enter f r ?receipt (prepared r ?receipt u)"
  have u: "same_controls s u" unfolding fresh(1) by (rule same_controls_outside)
  have ok: "inbox_ok u" by (rule same_controls_ok [OF u assms(1)])
  have absent: "receipt_of u (rcq_request_id r) = None" using fresh(3) same_controls_receipts [OF u] by simp
  have res: "res = Inr ?receipt" and t: "t = record_receipt r ?receipt (trim_terminal_receipts ?v)"
    using assms(2) fresh(5) by (simp_all add: admitted_def)
  have order: "ib_seen_order u = ib_seen_order s" "print_of u = print_of s"
    using same_controls_prints [OF u] by (simp_all add: same_prints_def)
  have v: "later k (ib_seen_order ?v) = Suc (later k (ib_seen_order s))"
    using assms(3) order by (simp add: later_append)
  have k: "k \<noteq> rcq_request_id r"
    using assms(3) inbox_okD(1) [OF assms(1)] fresh(3) unfolding book_ok_def by (metis receipt_of_None_iff)
  have "book_ok ?v"
    using inbox_okD(1) [OF ok] absent by (intro book_enter) (simp_all add: book_ok_def)
  moreover have "card (pending_ids ?v) \<le> RUN_CONTROL_MAX_QUEUE"
    using inbox_okD(4) [OF admitted_ok [OF ok absent fresh(4), of f]] by (simp add: within_limits_def admitted_def)
  moreover have "later k (ib_seen_order ?v) < 192" using v assms(4) res fresh(3) by simp
  ultimately have "map_of (ib_seen (trim_terminal_receipts ?v)) k = map_of (ib_seen ?v) k
      \<and> later k (ib_seen_order (trim_terminal_receipts ?v)) \<le> later k (ib_seen_order ?v)"
    by (rule trim_keeps_recent)
  then show ?thesis
    using v res fresh(3) k order unfolding t
    by (auto simp: record_receipt_def print_of_def enter_lookup fun_eq_iff)
qed

lemma step_window:
  assumes "run_control_step encode schema_error s a t" and "inbox_ok s" and "k \<in> set (ib_seen_order s)"
    and "later k (ib_seen_order s) + of_bool a < 192"
  shows "print_of t k = print_of s k \<and> later k (ib_seen_order t) \<le> later k (ib_seen_order s) + of_bool a"
  using assms
proof (cases rule: run_control_step.cases)
  case (step_submit before during r now_ms res)
  then show ?thesis using submit_window [OF assms(2) _ assms(3)] assms(4) by simp
next
  case (step_late_acknowledge p turn_id revision now_ms)
  then show ?thesis using mark_applied_decided by simp
next
  case (step_acknowledge p turn_id revision now_ms)
  then show ?thesis using mark_applied_prints [OF assms(2)] by (simp add: same_prints_def)
next
  case (step_persist appends terminal now_ms)
  then show ?thesis
    using persist_prints [OF assms(2), of encode schema_error appends terminal now_ms] by (simp add: same_prints_def)
next
  case (step_close now_ms)
  then show ?thesis using close_prints [of s now_ms] by (simp add: same_prints_def)
next
  case step_drain
  then show ?thesis by (simp add: print_of_def)
qed (use same_controls_prints [OF same_controls_turn] same_controls_prints [OF same_controls_observe]
      same_controls_prints [OF same_controls_outside1] same_controls_prints [OF same_controls_seal_observe]
     in \<open>simp_all add: same_prints_def\<close>)

lemma print_in_order: "book_ok s \<Longrightarrow> k \<in> set (ib_seen_order s) \<longleftrightarrow> print_of s k \<noteq> None"
  by (simp add: book_ok_def print_of_def map_of_eq_None_iff)

lemma run_window:
  assumes "control_run encode schema_error s n t" and "inbox_ok s" and "k \<in> set (ib_seen_order s)"
    and "receipt_of s k = Some r" and "later k (ib_seen_order s) + n < 192"
  shows "print_of t k = print_of s k \<and> later k (ib_seen_order t) \<le> later k (ib_seen_order s) + n
    \<and> (\<exists>d. receipt_of t k = Some d \<and> (d = r \<or> decides r d))"
  using assms
proof (induction rule: control_run.induct)
  case run_start
  then show ?case by simp
next
  case (run_step n t a u)
  have t: "inbox_ok t" by (rule control_run_ok [OF run_step.hyps(1) run_step.prems(1)])
  have ih: "print_of t k = print_of s k" "later k (ib_seen_order t) \<le> later k (ib_seen_order s) + n"
    "\<exists>d. receipt_of t k = Some d \<and> (d = r \<or> decides r d)"
    using run_step.IH run_step.prems by auto
  have "k \<in> set (ib_seen_order t)"
    using run_step.prems(2) ih(1) print_in_order [OF inbox_okD(1) [OF t]] print_in_order [OF inbox_okD(1) [OF run_step.prems(1)]]
    by simp
  then have w: "print_of u k = print_of t k \<and> later k (ib_seen_order u) \<le> later k (ib_seen_order t) + of_bool a"
    using run_step.prems(4) ih(2) by (intro step_window [OF run_step.hyps(2) t]) simp_all
  obtain d where d: "receipt_of t k = Some d" "d = r \<or> decides r d" using ih(3) by auto
  have "receipt_of u k \<noteq> None" using w d(1) by (auto simp: print_of_def receipt_of_def)
  then have "\<exists>e. receipt_of u k = Some e \<and> (e = d \<or> (is_accepted d \<and> decides d e))"
    using step_receipts [OF run_step.hyps(2) t, of k] d(1) by (auto elim: receipt_move_SomeE)
  then show ?case using d(2) w ih decides_not_accepted by auto
qed

lemma fresh_admission:
  assumes "inbox_ok s" and "receipt_of s (rcq_request_id r) = None"
    and "submit_with_hooks encode before during r now_ms s = (Inr receipt, t)"
  shows "validate_request r = Inr ()" "request_fingerprint encode r = Inr (the (print_of t (rcq_request_id r)))"
    "print_of t (rcq_request_id r) \<noteq> None" "receipt_of t (rcq_request_id r) = Some receipt"
    "later (rcq_request_id r) (ib_seen_order t) = 0" "rcp_operation receipt = operation (rcq_command r)"
    "rcp_state receipt = Accepted"
proof -
  show "validate_request r = Inr ()" using assms(3) by (cases "validate_request r") (simp_all add: submit_with_hooks_def)
  obtain f u where u: "u = fold outside during s" and f: "request_fingerprint encode r = Inr f"
    and accepting: "admission_error r now_ms u = None"
    and eq: "submit_with_hooks encode before during r now_ms s =
         (Inr (accepted_receipt r now_ms u),
          record_receipt r (accepted_receipt r now_ms u) (admitted f r (accepted_receipt r now_ms u) u))"
    using assms(2,3) by (cases rule: submit_with_hooks_cases [of encode before during r now_ms s]) auto
  let ?v = "enter f r receipt (prepared r receipt u)"
  have receipt: "receipt = accepted_receipt r now_ms u" and t: "t = record_receipt r receipt (trim_terminal_receipts ?v)"
    using assms(3) eq by (auto simp: admitted_def)
  have su: "same_controls s u" unfolding u by (rule same_controls_outside)
  have ok: "inbox_ok u" by (rule same_controls_ok [OF su assms(1)])
  have absent: "receipt_of u (rcq_request_id r) = None" using assms(2) same_controls_receipts [OF su] by simp
  have "rcq_request_id r \<in> pending_ids ?v" by (simp add: receipt pending_enter)
  then have seen: "map_of (ib_seen t) (rcq_request_id r) = Some \<lparr>sq_fingerprint = f, sq_request = r, sq_receipt = receipt\<rparr>"
    using seen_trim_pending [of "rcq_request_id r" ?v] by (simp add: t record_receipt_def enter_lookup receipt)
  then show "request_fingerprint encode r = Inr (the (print_of t (rcq_request_id r)))"
    "print_of t (rcq_request_id r) \<noteq> None" "receipt_of t (rcq_request_id r) = Some receipt"
    using f by (simp_all add: print_of_def receipt_of_def)
  have new: "rcq_request_id r \<notin> set (ib_seen_order u)"
    using inbox_okD(1) [OF ok] absent unfolding book_ok_def by (metis receipt_of_None_iff)
  have "book_ok ?v" using inbox_okD(1) [OF ok] absent by (intro book_enter) (simp_all add: book_ok_def receipt)
  moreover have "card (pending_ids ?v) \<le> RUN_CONTROL_MAX_QUEUE"
    using inbox_okD(4) [OF admitted_ok [OF ok absent accepting, of f]] by (simp add: within_limits_def admitted_def receipt)
  moreover have "later (rcq_request_id r) (ib_seen_order ?v) = 0" using later_split [OF new, of "[]"] by (simp add: receipt)
  ultimately have "later (rcq_request_id r) (ib_seen_order (trim_terminal_receipts ?v)) = 0"
    using trim_keeps_recent [of ?v "rcq_request_id r"] by simp
  then show "later (rcq_request_id r) (ib_seen_order t) = 0" by (simp add: t record_receipt_def)
  show "rcp_operation receipt = operation (rcq_command r)" "rcp_state receipt = Accepted"
    by (simp_all add: receipt accepted_receipt_def)
qed

text \<open>C24. A request that was accepted can be retried: whatever the host, the loop and the session do afterwards, as long as
  fewer than 192 further requests are admitted, submitting the same request again returns the receipt of the first
  submission, in its present state and with its sequence number, consults no hook and leaves the inbox as it is.
  The number is what the 256 kept receipts leave beside the 64 controls that may be pending.
\<close>

theorem retry_returns_the_first_receipt:
  assumes "control_run encode schema_error (new_with_hook_executor session_id run_id cancelled hooked) m s"
    and "receipt_of s (rcq_request_id r) = None"
    and "submit_with_hooks encode before during r now_ms s = (Inr receipt, t)"
    and "control_run encode schema_error t n u" and "n < 192"
  shows "\<exists>receipt'. (receipt' = receipt \<or> decides receipt receipt')
    \<and> submit_with_hooks encode before' during' r now_ms' u = (Inr receipt', u)"
proof -
  have s: "inbox_ok s" by (rule control_run_ok [OF assms(1) new_inbox_ok])
  then have t: "inbox_ok t" using submit_ok [of s encode before during r now_ms] assms(3) by simp
  note admitted = fresh_admission [OF s assms(2,3)]
  have "rcq_request_id r \<in> set (ib_seen_order t)" using admitted(3) print_in_order [OF inbox_okD(1) [OF t]] by simp
  then obtain d where "print_of u (rcq_request_id r) = print_of t (rcq_request_id r)"
    "receipt_of u (rcq_request_id r) = Some d" "d = receipt \<or> decides receipt d"
    using run_window [OF assms(4) t _ admitted(4)] admitted(5) assms(5) by auto
  moreover from this obtain q where "map_of (ib_seen u) (rcq_request_id r) = Some q" "sq_receipt q = d"
    by (auto simp: receipt_of_def)
  ultimately show ?thesis
    using admitted(1,2,3) by (auto simp: submit_with_hooks_def known_receipt_def print_of_def)
qed

definition sample_encode :: "run_control_request \<Rightarrow> str + str" where
  "sample_encode r = Inr (rcq_request_id r @ (case rcq_command r of Steer t \<Rightarrow> t | Interrupt _ _ \<Rightarrow> ''!''))"

definition sample_inbox :: inbox where
  "sample_inbox = new_with_hook_executor ''s'' ''run-1'' False True"

definition sample_steer :: run_control_request where
  "sample_steer = run_control_request_steer ''q1'' ''run-1'' ''look at the tests first''"

definition sample_submit :: "run_control_request \<Rightarrow> u64 \<Rightarrow> inbox \<Rightarrow> (run_control_error + run_control_receipt) \<times> inbox" where
  "sample_submit = submit_with_hooks sample_encode (\<lambda>_. OutcomeSkip) []"

definition sample_pending :: inbox where
  "sample_pending = snd (sample_submit sample_steer 5 sample_inbox)"

lemma sample_submitted: "sample_submit sample_steer 5 sample_inbox = (Inr (accepted_receipt sample_steer 5 sample_inbox), sample_pending)"
  by code_simp

lemma sample_run: "control_run sample_encode (\<lambda>m. m) sample_inbox 1 sample_pending"
proof -
  have "run_control_step sample_encode (\<lambda>m. m) sample_inbox
      (receipt_of sample_inbox (rcq_request_id sample_steer) = None
       \<and> \<not> isl (Inr (accepted_receipt sample_steer 5 sample_inbox) :: run_control_error + run_control_receipt)) sample_pending"
    by (rule step_submit [OF sample_submitted [unfolded sample_submit_def]])
  moreover have "receipt_of sample_inbox (rcq_request_id sample_steer) = None" by code_simp
  ultimately have "run_control_step sample_encode (\<lambda>m. m) sample_inbox True sample_pending" by simp
  from run_step [OF run_start this] show ?thesis by simp
qed

theorem retry_returns_the_first_receipt_witness:
  "\<exists>receipt'. (receipt' = accepted_receipt sample_steer 5 sample_inbox \<or> decides (accepted_receipt sample_steer 5 sample_inbox) receipt')
    \<and> submit_with_hooks sample_encode (\<lambda>_. OutcomeBlock ''no'') [OutsideCancel] sample_steer 9 (close_inbox 7 sample_pending)
      = (Inr receipt', close_inbox 7 sample_pending)"
proof (rule retry_returns_the_first_receipt [OF run_start [of sample_encode "\<lambda>m. m", unfolded sample_inbox_def]])
  show "receipt_of (new_with_hook_executor ''s'' ''run-1'' False True) (rcq_request_id sample_steer) = None" by code_simp
  show "submit_with_hooks sample_encode (\<lambda>_. OutcomeSkip) [] sample_steer 5 (new_with_hook_executor ''s'' ''run-1'' False True)
      = (Inr (accepted_receipt sample_steer 5 sample_inbox), sample_pending)"
    using sample_submitted by (simp add: sample_submit_def sample_inbox_def)
  show "control_run sample_encode (\<lambda>m. m) sample_pending (0 + of_bool False) (close_inbox 7 sample_pending)"
    by (rule run_step [OF run_start step_close])
qed simp

subsection \<open>Bounds and ownership\<close>

text \<open>C29. At every moment of a run at most 64 controls are queued or in flight and at most 256 receipts are kept; no request is
  queued or in flight twice, and the requests that are queued or in flight are exactly those whose receipt is accepted.
\<close>

theorem inbox_stays_within_bounds:
  assumes "control_run encode schema_error (new_with_hook_executor session_id run_id cancelled hooked) n s"
  shows "length (ib_queue s) + length (ib_in_flight s) \<le> 64 \<and> length (ib_seen s) \<le> 256
    \<and> distinct (map pend_id (ib_queue s) @ map fst (ib_in_flight s))
    \<and> (k \<in> set (map pend_id (ib_queue s) @ map fst (ib_in_flight s))
        \<longleftrightarrow> (\<exists>r. receipt_of s k = Some r \<and> rcp_state r = Accepted))"
proof -
  have s: "inbox_ok s" by (rule control_run_ok [OF assms new_inbox_ok])
  have live: "distinct (live_ids s)" "set (live_ids s) = pending_ids s" using inbox_okD(2) [OF s] by (simp_all add: owned_def)
  have "length (live_ids s) = card (pending_ids s)" using distinct_card [OF live(1)] live(2) by simp
  then have "length (ib_queue s) + length (ib_in_flight s) \<le> 64" "length (ib_seen s) \<le> 256"
    using inbox_okD(4) [OF s]
    by (simp_all add: live_ids_def within_limits_def RUN_CONTROL_MAX_QUEUE_def RUN_CONTROL_MAX_SEEN_REQUESTS_def)
  then show ?thesis using live unfolding live_ids_def pending_ids_def is_accepted_def by blast
qed

theorem inbox_stays_within_bounds_witness:
  "length (ib_queue sample_pending) + length (ib_in_flight sample_pending) \<le> 64
    \<and> (''q1'' \<in> set (map pend_id (ib_queue sample_pending) @ map fst (ib_in_flight sample_pending))
        \<longleftrightarrow> (\<exists>r. receipt_of sample_pending ''q1'' = Some r \<and> rcp_state r = Accepted))"
  using inbox_stays_within_bounds [OF sample_run [unfolded sample_inbox_def], of "''q1''"] by blast

subsection \<open>The ledger\<close>

text \<open>C25. Every operation of the inbox is a move of the receipt ledger: a receipt appears only as accepted and only while the
  inbox is open, an accepted receipt is never lost and is decided at most once, as applied or settled, keeping its
  sequence number and its identity, a decided receipt never changes again and may only be forgotten, and a sealed
  inbox stays sealed.
\<close>

theorem inbox_refines_the_ledger:
  assumes "control_run encode schema_error (new_with_hook_executor session_id run_id cancelled hooked) n s"
    and "run_control_step encode schema_error s a t"
  shows "receipt_move (ib_closed s) (receipt_of s k) (receipt_of t k) \<and> (ib_closed s \<longrightarrow> ib_closed t)"
proof -
  have s: "inbox_ok s" by (rule control_run_ok [OF assms(1) new_inbox_ok])
  have "\<exists>a. run_control_step encode schema_error s a t" using assms(2) by blast
  then show ?thesis using ib.book_step [OF s] ib.sealed_step [OF s] by blast
qed

theorem inbox_refines_the_ledger_witness:
  "receipt_move (ib_closed sample_pending) (receipt_of sample_pending ''q1'') (receipt_of (close_inbox 7 sample_pending) ''q1'')
    \<and> receipt_of sample_pending ''q1'' \<noteq> receipt_of (close_inbox 7 sample_pending) ''q1''"
proof
  show "receipt_move (ib_closed sample_pending) (receipt_of sample_pending ''q1'') (receipt_of (close_inbox 7 sample_pending) ''q1'')"
    using inbox_refines_the_ledger [OF sample_run [unfolded sample_inbox_def] step_close [of sample_encode "\<lambda>m. m" sample_pending 7], of "''q1''"]
    by blast
  show "receipt_of sample_pending ''q1'' \<noteq> receipt_of (close_inbox 7 sample_pending) ''q1''" by code_simp
qed

subsection \<open>The end of a run\<close>

lemma sealed_submit_quiet:
  assumes "ib_closed s"
  shows "same_controls s (snd (submit_with_hooks encode before during r now_ms s))"
proof (cases rule: submit_with_hooks_cases [of encode before during r now_ms s])
  case (quiet res t)
  then show ?thesis by simp
next
  case (fresh f u)
  have "ib_closed u" unfolding fresh(1) by (rule same_controls_closed [OF same_controls_outside assms])
  then show ?thesis using admission_open [OF fresh(4)] by simp
qed

lemma sealed_step_prints:
  assumes "run_control_step encode schema_error s a t" and "inbox_ok s" and "ib_closed s"
  shows "same_prints s t"
  using assms
proof (cases rule: run_control_step.cases)
  case (step_submit before during r now_ms res)
  then show ?thesis using sealed_submit_quiet [OF assms(3), of encode before during r now_ms] same_controls_prints by simp
next
  case (step_late_acknowledge p turn_id revision now_ms)
  then show ?thesis using mark_applied_decided by (simp add: same_prints_def)
next
  case (step_acknowledge p turn_id revision now_ms)
  then show ?thesis using mark_applied_prints [OF assms(2)] by simp
next
  case (step_persist appends terminal now_ms)
  then show ?thesis using persist_prints [OF assms(2), of encode schema_error appends terminal now_ms] by simp
next
  case (step_close now_ms)
  then show ?thesis using close_prints by simp
next
  case step_drain
  then show ?thesis by (simp add: print_of_def same_prints_def fun_eq_iff)
qed (simp_all add: same_controls_prints quiet_steps)

lemma settled_run_receipts:
  assumes "control_run encode schema_error s n t" and "inbox_ok s" and "ib_closed s" and "pending_ids s = {}"
  shows "receipt_of t = receipt_of s \<and> inbox_ok t \<and> ib_closed t \<and> pending_ids t = {}"
  using assms
proof (induction rule: control_run.induct)
  case (run_step n t a u)
  then have t: "receipt_of t = receipt_of s" "inbox_ok t" "ib_closed t" "pending_ids t = {}" by auto
  have "receipt_of u k = receipt_of t k" for k
  proof -
    have "print_of u k = print_of t k"
      using sealed_step_prints [OF run_step.hyps(2) t(2,3)] by (simp add: same_prints_def)
    then have "receipt_of u k = None \<longleftrightarrow> receipt_of t k = None"
      unfolding print_of_def receipt_of_def by (metis option.map_disc_iff)
    moreover have "receipt_move (ib_closed t) (receipt_of t k) (receipt_of u k)" by (rule step_receipts [OF run_step.hyps(2) t(2)])
    ultimately show ?thesis using t(4) by (cases "receipt_of t k") (auto simp: pending_ids_def elim: receipt_move_SomeE)
  qed
  then have "receipt_of u = receipt_of t" by (rule ext)
  moreover from this have "pending_ids u = {}" using t(4) by (simp add: pending_ids_def)
  ultimately show ?case using t(1) step_ok [OF run_step.hyps(2) t(2)] step_sealed [OF run_step.hyps(2) t(2,3)] by simp
qed simp

text \<open>C26. Closing the inbox at the end of a run settles every control that is still accepted, wherever it is, and that is
  final: whatever happens afterwards, nothing is accepted any more, every receipt stays exactly as the close left it, and
  no observation of pending controls finds one.
\<close>

theorem closing_settles_for_ever:
  assumes "control_run encode schema_error (new_with_hook_executor session_id run_id cancelled hooked) m s"
    and "control_run encode schema_error (close_inbox now_ms s) n u"
  shows "receipt_of u k = map_option (\<lambda>r. if rcp_state r = Accepted then settled_receipt now_ms r else r) (receipt_of s k)
    \<and> ib_queue u = [] \<and> ib_in_flight u = [] \<and> \<not> has_accepted (pending_observation u)"
proof -
  have s: "inbox_ok s" by (rule control_run_ok [OF assms(1) new_inbox_ok])
  have u: "receipt_of u = receipt_of (close_inbox now_ms s)" "inbox_ok u" "pending_ids u = {}"
    using settled_run_receipts [OF assms(2) close_ok [OF s] close_sealed pending_close] by simp_all
  have "live_ids u = []" using inbox_okD(2) [OF u(2)] u(3) by (simp add: owned_def)
  then have "ib_queue u = []" "ib_in_flight u = []" by (simp_all add: live_ids_def)
  then show ?thesis using nothing_pending_observed [OF u(2,3)] by (simp add: u(1) receipt_of_close is_accepted_def)
qed

theorem closing_settles_for_ever_witness:
  "receipt_of (snd (sample_submit sample_steer 9 (close_inbox 7 sample_pending))) ''q1''
     = map_option (\<lambda>r. if rcp_state r = Accepted then settled_receipt 7 r else r) (receipt_of sample_pending ''q1'')"
proof -
  have "run_control_step sample_encode (\<lambda>m. m) (close_inbox 7 sample_pending)
      (receipt_of (close_inbox 7 sample_pending) (rcq_request_id sample_steer) = None
       \<and> \<not> isl (fst (sample_submit sample_steer 9 (close_inbox 7 sample_pending))))
      (snd (sample_submit sample_steer 9 (close_inbox 7 sample_pending)))"
    by (rule step_submit [of _ "\<lambda>_. OutcomeSkip" "[]"]) (simp add: sample_submit_def)
  from closing_settles_for_ever [OF sample_run [unfolded sample_inbox_def] run_step [OF run_start this], of "''q1''"]
  show ?thesis by blast
qed

lemma step_interrupt:
  assumes "run_control_step encode schema_error s a t" and "inbox_ok s" and "ib_interrupt_requested s"
  shows "ib_interrupt_requested t"
  using assms
proof (cases rule: run_control_step.cases)
  case (step_submit before during r now_ms res)
  have "ib_closed s" using inbox_okD(5) [OF assms(2)] assms(3) by (simp add: interrupt_seals_def)
  then have "same_controls s t"
    using sealed_submit_quiet [of s encode before during r now_ms] step_submit by simp
  then show ?thesis using assms(3) by (simp add: same_controls_def)
next
  case (step_persist appends terminal now_ms)
  have "ib_interrupt_requested (ps_inbox (fold (persist_item encode schema_error appends now_ms) items ps))
      = ib_interrupt_requested (ps_inbox ps)" for items ps
    by (induction items arbitrary: ps)
      (simp_all add: persist_item_def file_decision_def Let_def split: option.split sum.split)
  then show ?thesis
    using step_persist assms(3) by (simp add: persist_pending_def retire_terminal_def seal_state_def Let_def)
next
  case (step_close now_ms)
  then show ?thesis
    using assms(3) close_same_controls [of now_ms s] by (simp add: same_controls_def settled_book_def seal_state_def)
qed (use assms(3) same_controls_turn same_controls_observe same_controls_outside1 same_controls_seal_observe
     in \<open>auto simp: same_controls_def mark_applied_def record_receipt_def Let_def split: option.split\<close>)

lemma run_interrupt:
  "control_run encode schema_error s n t \<Longrightarrow> inbox_ok s \<Longrightarrow> ib_interrupt_requested s \<Longrightarrow> ib_interrupt_requested t"
  by (induction rule: control_run.induct) (auto intro: step_interrupt control_run_ok)

text \<open>C27. An accepted interrupt takes effect at once and for ever: the cancellation token has fired, the inbox is sealed, and
  from then on every request that has no receipt yet is refused, while the interrupt itself can still be retried.
\<close>

theorem accepted_interrupt_is_the_last_request:
  assumes "control_run encode schema_error (new_with_hook_executor session_id run_id cancelled hooked) m s"
    and "receipt_of s (rcq_request_id r) = None" and "operation (rcq_command r) = InterruptOp"
    and "submit_with_hooks encode before during r now_ms s = (Inr receipt, t)"
    and "control_run encode schema_error t n u"
    and "receipt_of u (rcq_request_id r') = None"
  shows "ib_cancelled u \<and> snap_interrupt_requested (inbox_snapshot u) \<and> \<not> snap_active (inbox_snapshot u)
    \<and> isl (fst (submit_with_hooks encode before' during' r' now_ms' u))"
proof -
  have s: "inbox_ok s" by (rule control_run_ok [OF assms(1) new_inbox_ok])
  then have t: "inbox_ok t" using submit_ok [of s encode before during r now_ms] assms(4) by simp
  have "ib_interrupt_requested t"
    using assms(2,3,4)
    by (cases rule: submit_with_hooks_cases [of encode before during r now_ms s]) (auto simp: record_receipt_def admitted_def)
  then have "ib_interrupt_requested u" by (rule run_interrupt [OF assms(5) t])
  moreover from this have u: "ib_closed u" "\<not> ib_active u" "ib_cancelled u"
    using inbox_okD(5) [OF control_run_ok [OF assms(5) t]] by (simp_all add: interrupt_seals_def)
  moreover have "isl (fst (submit_with_hooks encode before' during' r' now_ms' u))"
  proof (cases rule: submit_with_hooks_cases [of encode before' during' r' now_ms' u])
    case (quiet res v)
    then show ?thesis using assms(6) by (cases res) auto
  next
    case (fresh f v)
    have "ib_closed v" unfolding fresh(1) by (rule same_controls_closed [OF same_controls_outside u(1)])
    then show ?thesis using admission_open [OF fresh(4)] by simp
  qed
  ultimately show ?thesis by (simp add: inbox_snapshot_def)
qed

definition sample_stop :: run_control_request where
  "sample_stop = run_control_request_interrupt ''q2'' ''run-1''"

theorem accepted_interrupt_is_the_last_request_witness:
  "isl (fst (submit_with_hooks sample_encode (\<lambda>_. OutcomeSkip) [] (sample_steer\<lparr>rcq_request_id := ''q3''\<rparr>) 9
      (snd (sample_submit sample_stop 6 sample_pending))))"
proof -
  have "submit_with_hooks sample_encode (\<lambda>_. OutcomeSkip) [] sample_stop 6 sample_pending
      = (Inr (accepted_receipt sample_stop 6 sample_pending), snd (sample_submit sample_stop 6 sample_pending))"
    by code_simp
  moreover have "receipt_of sample_pending (rcq_request_id sample_stop) = None"
    "operation (rcq_command sample_stop) = InterruptOp"
    "receipt_of (snd (sample_submit sample_stop 6 sample_pending)) (rcq_request_id (sample_steer\<lparr>rcq_request_id := ''q3''\<rparr>)) = None"
    by code_simp+
  ultimately show ?thesis
    using accepted_interrupt_is_the_last_request [OF sample_run [unfolded sample_inbox_def], where r = sample_stop] run_start
    by blast
qed

subsection \<open>Persist and acknowledge\<close>

lemma persist_start_accepted: "accepted_controls (persist_start terminal s) = accepted_controls s"
  by (simp add: persist_start_def seal_state_def accepted_controls_def pending_map_def)

lemma accepted_controls_in_order: "sorted (map (\<lambda>p. rcp_sequence (pend_receipt p)) (accepted_controls s))"
proof -
  have "sorted (map (\<lambda>p. (rcp_sequence (pend_receipt p), pend_id p)) (accepted_controls s))"
    by (simp add: accepted_controls_def)
  then show ?thesis unfolding sorted_wrt_map by (rule sorted_wrt_mono_rel [rotated]) (auto simp: less_eq_prod_def)
qed

lemma item_decision_start: "item_decision failed now_ms (persist_start terminal s) p = item_decision failed now_ms s p"
  by (simp add: item_decision_def decided_receipt_def persist_start_def seal_state_def)

text \<open>C28. The persist-and-acknowledge transaction decides every accepted control exactly once, in the order of admission.  When
  requests can be encoded, a steering message is acknowledged as applied precisely when it lies in the longest
  prefix of the pending steering messages that the append retained; from the first failure on every message is settled
  with a persistence error and no further append is attempted, while an interrupt is applied in any case.  Each decision
  is the receipt a retry will see, and nothing stays accepted.
\<close>

theorem persist_decides_every_control:
  assumes "control_run encode schema_error (new_with_hook_executor session_id run_id cancelled hooked) n s"
    and "\<forall>p\<in>set (accepted_controls s). \<not> isl (encode (pend_request p))"
    and "persist_pending encode schema_error appends terminal now_ms s = (ps, ob)"
    and "retained_prefix appends [] (filter steering (accepted_controls s)) = (kept, failure)"
  shows "ps_decisions ps = map (\<lambda>p. item_decision (steering p \<and> p \<notin> set kept) now_ms s p) (accepted_controls s)
    \<and> sorted (map (\<lambda>p. rcp_sequence (pend_receipt p)) (accepted_controls s))
    \<and> ps_failure ps = failure \<and> \<not> has_accepted ob
    \<and> ps_appended ps = take (length kept + of_bool (failure \<noteq> None)) (filter steering (accepted_controls s))
    \<and> (\<forall>d\<in>set (ps_decisions ps). receipt_of (ps_inbox ps) (pend_id d) = Some (pend_receipt d))"
proof -
  have s: "inbox_ok s" by (rule control_run_ok [OF assms(1) new_inbox_ok])
  let ?u = "persist_start terminal s"
  let ?ps = "\<lparr>ps_inbox = ?u, ps_failure = None, ps_decisions = [], ps_appended = []\<rparr>"
  have u: "inbox_ok ?u" by (rule same_controls_ok [OF persist_start_same s])
  have items: "\<forall>q\<in>set (accepted_controls s). held ?u q" "distinct (map pend_id (accepted_controls s))"
    using accepted_controls_held [OF u] accepted_controls_distinct [OF u] by (simp_all add: persist_start_accepted)
  have ps: "ps = fold (persist_item encode schema_error appends now_ms) (accepted_controls s) ?ps"
    and ob: "ob = pending_observation (ps_inbox ps)"
    using assms(3) unfolding persist_pending_eq [OF s] Let_def persist_start_accepted by auto
  have "ps_decisions ps = map (\<lambda>p. item_decision (steering p \<and> p \<notin> set kept) now_ms s p) (accepted_controls s)"
    "ps_failure ps = failure"
    "ps_appended ps = take (length kept + of_bool (failure \<noteq> None)) (filter steering (accepted_controls s))"
    using persist_fold_outcome [of ?ps "accepted_controls s" encode schema_error appends now_ms] u items assms(2,4)
    unfolding ps by (simp_all add: item_decision_start)
  moreover have "\<not> has_accepted ob"
    using persist_inbox [OF s, of encode schema_error appends terminal now_ms] assms(3) ob nothing_pending_observed by simp
  moreover have "\<forall>d\<in>set (ps_decisions ps). receipt_of (ps_inbox ps) (pend_id d) = Some (pend_receipt d)"
    using persist_fold_filed [of ?ps "accepted_controls s" encode schema_error appends now_ms] u items unfolding ps by simp
  moreover note accepted_controls_in_order
  ultimately show ?thesis by blast
qed

theorem persist_decides_every_control_witness:
  "ps_decisions (fst (persist_pending sample_encode (\<lambda>m. m) (\<lambda>_ _. Some ''disk full'') False 8 sample_pending))
    = map (\<lambda>p. item_decision (steering p \<and> p \<notin> set []) 8 sample_pending p) (accepted_controls sample_pending)
   \<and> \<not> has_accepted (snd (persist_pending sample_encode (\<lambda>m. m) (\<lambda>_ _. Some ''disk full'') False 8 sample_pending))
   \<and> length (accepted_controls sample_pending) = 1"
proof -
  have encodes: "\<forall>p\<in>set (accepted_controls sample_pending). \<not> isl (sample_encode (pend_request p))"
    by (simp add: sample_encode_def)
  have prefix: "retained_prefix (\<lambda>_ _. Some ''disk full'') [] (filter steering (accepted_controls sample_pending)) = ([], Some ''disk full'')"
    by code_simp
  have "length (accepted_controls sample_pending) = 1" by code_simp
  then show ?thesis
    using persist_decides_every_control [OF sample_run [unfolded sample_inbox_def] encodes surjective_pairing prefix] by blast
qed

subsection \<open>The loop's safe point\<close>

lemma apply_control_eq:
  fixes sn :: run_control_snapshot and now_ms :: u64
  assumes "inbox_ok s" and "(pend_id p, p) \<in> set (ib_in_flight s)"
  defines "receipt \<equiv> applied_receipt (snap_turn_id sn) (snap_turn_revision sn) now_ms (pend_receipt p)"
  shows "apply_control True sn now_ms p (events, s)
    = (events @ [applied_event p receipt], record_receipt (pend_request p) receipt (decide (pend_id p) receipt s))"
proof -
  have "rcp_state receipt = Applied" by (simp add: receipt_def applied_receipt_def)
  then show ?thesis using mark_applied_in_flight [OF assms(1,2)] by (simp add: apply_control_def receipt_def)
qed

lemma safe_point_fold:
  assumes "inbox_ok s" and "\<forall>p\<in>set items. (pend_id p, p) \<in> set (ib_in_flight s)" and "distinct (map pend_id items)"
    and "fold (apply_control True sn now_ms) items (events, s) = (events', t)"
  shows "events' = events @ map (\<lambda>p. applied_event p (applied_receipt (snap_turn_id sn) (snap_turn_revision sn) now_ms (pend_receipt p))) items
    \<and> inbox_ok t \<and> pending_ids t = pending_ids s - pend_id ` set items
    \<and> (\<forall>k. k \<notin> pend_id ` set items \<longrightarrow> receipt_of t k = receipt_of s k)
    \<and> (\<forall>p\<in>set items. receipt_of t (pend_id p)
          = Some (applied_receipt (snap_turn_id sn) (snap_turn_revision sn) now_ms (pend_receipt p)))"
  using assms
proof (induction items arbitrary: events s)
  case (Cons p items)
  define r where "r = applied_receipt (snap_turn_id sn) (snap_turn_revision sn) now_ms (pend_receipt p)"
  define u where "u = record_receipt (pend_request p) r (decide (pend_id p) r s)"
  have p: "(pend_id p, p) \<in> set (ib_in_flight s)" using Cons.prems(2) by simp
  have pending: "pend_id p \<in> pending_ids s" using in_flight_held [OF Cons.prems(1) p] held_pending by simp
  have terminal: "terminal_receipt (pend_id p) r" unfolding r_def by (rule applied_receipt_terminal) simp
  have same: "same_controls (decide (pend_id p) r s) u" unfolding u_def by (rule same_controls_record)
  have ok: "inbox_ok u" by (rule same_controls_ok [OF same inbox_ok_decide [OF Cons.prems(1) pending terminal]])
  have receipts: "receipt_of u = (receipt_of s)(pend_id p := Some r)"
    using same_controls_receipts [OF same] receipt_of_decide [OF pending] by simp
  have left: "pending_ids u = pending_ids s - {pend_id p}"
    using same_controls_pending [OF same] pending_decide [OF pending terminal] by simp
  have "ib_in_flight u = AList.delete (pend_id p) (ib_in_flight s)" using same by (simp add: same_controls_def decide_def)
  then have flight: "\<forall>q\<in>set items. (pend_id q, q) \<in> set (ib_in_flight u)"
    using Cons.prems(2,3) by (auto simp: AList.delete_eq)
  have rest: "fold (apply_control True sn now_ms) items (events @ [applied_event p r], u) = (events', t)"
    using Cons.prems(4) apply_control_eq [OF Cons.prems(1) p] by (simp add: r_def u_def)
  have tail: "distinct (map pend_id items)" "pend_id p \<notin> pend_id ` set items" using Cons.prems(3) by simp_all
  note ih = Cons.IH [OF ok flight tail(1) rest]
  then have "receipt_of t (pend_id p) = Some r" using tail(2) receipts by simp
  then show ?case using ih left receipts tail(2) by (auto simp: r_def)
qed simp

text \<open>The safe point of the loop, when the loop holds nothing yet: every queued control is applied under the turn of
  the snapshot, one event is sent for each of them in queue order with the text of its steering message or the reason of
  its interrupt, and afterwards nothing is accepted.
\<close>

theorem safe_point_applies_the_queue:
  assumes "control_run encode schema_error (new_with_hook_executor session_id run_id cancelled hooked) n s"
    and "ib_in_flight s = []" and "apply_pending_run_controls True sn now_ms s = (events, t)"
  shows "events = map (\<lambda>p. applied_event p (applied_receipt (snap_turn_id sn) (snap_turn_revision sn) now_ms (pend_receipt p))) (ib_queue s)
    \<and> (\<forall>p\<in>set (ib_queue s). receipt_of t (pend_id p)
          = Some (applied_receipt (snap_turn_id sn) (snap_turn_revision sn) now_ms (pend_receipt p)))
    \<and> \<not> has_accepted (pending_observation t)"
proof -
  have s: "inbox_ok s" by (rule control_run_ok [OF assms(1) new_inbox_ok])
  let ?d = "snd (drain_inbox s)"
  have eq: "?d = s\<lparr>ib_queue := [], ib_in_flight := map (\<lambda>p. (pend_id p, p)) (ib_queue s)\<rparr>"
    using drain_eq [OF s] assms(2) by simp
  have flight: "\<forall>p\<in>set (ib_queue s). (pend_id p, p) \<in> set (ib_in_flight ?d)" unfolding eq by auto
  have ids: "distinct (map pend_id (ib_queue s))" "pend_id ` set (ib_queue s) = pending_ids s"
    using inbox_okD(2) [OF s] assms(2) by (simp_all add: owned_def live_ids_def)
  have "fold (apply_control True sn now_ms) (ib_queue s) ([], ?d) = (events, t)"
    using assms(3) drain_eq [OF s] by (simp add: apply_pending_run_controls_def)
  note finished = safe_point_fold [OF drain_ok [OF s] flight ids(1) this]
  then have "pending_ids t = {}" using ids(2) drain_receipts(2) by simp
  then show ?thesis using finished nothing_pending_observed by simp
qed

theorem safe_point_applies_the_queue_witness:
  "fst (apply_pending_run_controls True (fst (update_turn 2 sample_pending)) 8 (snd (update_turn 2 sample_pending)))
    = map (\<lambda>p. applied_event p (applied_receipt (Some ''turn-2'') 1 8 (pend_receipt p))) (ib_queue sample_pending)
   \<and> length (ib_queue sample_pending) = 1"
proof -
  let ?s = "snd (update_turn 2 sample_pending)"
  have run: "control_run sample_encode (\<lambda>m. m) (new_with_hook_executor ''s'' ''run-1'' False True) (1 + of_bool False) ?s"
    unfolding update_turn_def by (rule run_step [OF sample_run [unfolded sample_inbox_def] step_turn])
  have "ib_in_flight ?s = []" "snap_turn_id (fst (update_turn 2 sample_pending)) = Some ''turn-2''"
    "snap_turn_revision (fst (update_turn 2 sample_pending)) = 1" "ib_queue ?s = ib_queue sample_pending"
    "length (ib_queue sample_pending) = 1"
    by code_simp+
  then show ?thesis using safe_point_applies_the_queue [OF run _ surjective_pairing] by simp
qed

subsection \<open>Divergences\<close>

text \<open>A request that cannot be admitted any more is still put to the hook, and leaves no receipt that would spare its retry.\<close>

lemma sealed_inbox_consults_the_hook:
  "fst (submit_with_hooks sample_encode (\<lambda>_. OutcomeBlock ''no'') [] sample_steer 9 (seal_new_requests sample_inbox)) = Inl (HookDenied ''no'')
   \<and> fst (submit_with_hooks sample_encode (\<lambda>_. OutcomeSkip) [] sample_steer 9 (seal_new_requests sample_inbox)) = Inl Closed
   \<and> receipt_of (snd (submit_with_hooks sample_encode (\<lambda>_. OutcomeSkip) [] sample_steer 9 (seal_new_requests sample_inbox))) ''q1'' = None"
  by code_simp

text \<open>A control that was drained and then decided by the persist transaction is announced by the loop as well.\<close>

lemma decided_control_is_announced_again:
  "(let (drained, s) = drain_inbox sample_pending;
        t = ps_inbox (fst (persist_pending sample_encode (\<lambda>m. m) (\<lambda>_ _. None) False 8 s))
    in map ra_request_id (fst (fold (apply_control True (inbox_snapshot t) 9) drained ([], t)))) = [''q1'']"
  by code_simp

end
