(* ===== verification/RunStores.thy ===== *)
theory RunStores
  imports Prelude "HOL-Library.AList"
begin

section \<open>The store of runs\<close>

text \<open>
  \<^verbatim>\<open>core/src/run.rs\<close>: the runs of a session with their status, and the retained window of their events.  A \<^verbatim>\<open>HashMap\<close> is an
  association list with distinct keys.  The three locks are taken together or in one fixed order, so every method
  is one step.  Counters are natural numbers, byte counts integers, both with the bounds of \<^verbatim>\<open>usize\<close> written out.

  Parameters: \<open>encoded\<close> is the length of the JSON encoding of an event record (\<open>None\<close> when it cannot be encoded), \<open>now\<close> is
  the wall clock, \<open>invalid\<close> the error text of a binding's validation.  The bindings and the change set of a run are kept
  as texts: the store compares them and nothing else.  Of the many kinds of \<^verbatim>\<open>AgentEvent\<close> those are told apart
  that move the status of a run.
\<close>

subsection \<open>Runs and their events\<close>

datatype run_status = RunCreated | RunPlanning | RunExecuting | RunVerifying | RunCompleted | RunFailed | RunCancelled

definition run_is_terminal :: "run_status \<Rightarrow> bool" where
  "run_is_terminal st = (case st of RunCompleted \<Rightarrow> True | RunFailed \<Rightarrow> True | RunCancelled \<Rightarrow> True | _ \<Rightarrow> False)"

datatype agent_event =
    EvStart str | EvPlanningStart | EvStepStart | EvToolStart | EvToolExecutionStart | EvTurnStart
  | EvEnd str | EvError str | EvOther str

record run_event_record =
  er_sequence :: nat
  er_timestamp_ms :: int
  er_event :: agent_event

record run_snapshot =
  rs_id :: str
  rs_session_id :: str
  rs_status :: run_status
  rs_prompt :: str
  rs_cognitive_package_binding :: "str option"
  rs_capability_binding :: "str option"
  rs_created_at_ms :: int
  rs_updated_at_ms :: int
  rs_result_text :: "str option"
  rs_error :: "str option"
  rs_event_count :: nat
  rs_workspace_change_set :: "str option"

record run_record =
  rr_snapshot :: run_snapshot
  rr_events :: "run_event_record list"

datatype run_reservation = ReservedCreated run_snapshot | ReservedExisting run_snapshot

definition reservation_snapshot :: "run_reservation \<Rightarrow> run_snapshot" where
  "reservation_snapshot r = (case r of ReservedCreated s \<Rightarrow> s | ReservedExisting s \<Rightarrow> s)"

definition reservation_replayed :: "run_reservation \<Rightarrow> bool" where
  "reservation_replayed r = (case r of ReservedCreated _ \<Rightarrow> False | ReservedExisting _ \<Rightarrow> True)"

datatype run_terminal_transition = SettleCompleted | SettleCancelled | SettleFailed str

datatype run_binding_error = BindRunNotFound | InvalidBinding str | AlreadyObserved | BindConflict

datatype run_workspace_change_set_error = ChangeRunNotFound | RunNotTerminal | ChangeConflict

record run_event_page =
  pg_events :: "run_event_record list"
  pg_first_available_sequence :: "nat option"
  pg_latest_sequence_exclusive :: nat
  pg_next_after_sequence :: "nat option"
  pg_retention_gap :: bool
  pg_has_more :: bool

record retained_run_events =
  re_records :: "run_event_record list"
  re_serialized_bytes :: int

record run_store =
  sto_runs :: "(str \<times> run_snapshot) list"
  sto_events :: "(str \<times> retained_run_events) list"
  sto_insertion_order :: "str list"
  sto_max_runs :: "nat option"
  sto_max_events_per_run :: "nat option"
  sto_max_event_bytes_per_run :: "int option"

definition run_snapshot_new :: "int \<Rightarrow> str \<Rightarrow> str \<Rightarrow> str \<Rightarrow> run_snapshot" where
  "run_snapshot_new now run_id session_id prompt =
     \<lparr>rs_id = run_id, rs_session_id = session_id, rs_status = RunCreated, rs_prompt = prompt,
      rs_cognitive_package_binding = None, rs_capability_binding = None, rs_created_at_ms = now, rs_updated_at_ms = now,
      rs_result_text = None, rs_error = None, rs_event_count = 0, rs_workspace_change_set = None\<rparr>"

definition retained_default :: retained_run_events where
  "retained_default = \<lparr>re_records = [], re_serialized_bytes = 0\<rparr>"

definition with_retention_limits :: "nat option \<Rightarrow> nat option \<Rightarrow> int option \<Rightarrow> run_store" where
  "with_retention_limits max_runs max_events max_bytes =
     \<lparr>sto_runs = [], sto_events = [], sto_insertion_order = [], sto_max_runs = max_runs,
      sto_max_events_per_run = max_events, sto_max_event_bytes_per_run = max_bytes\<rparr>"

definition with_retention :: "nat option \<Rightarrow> nat option \<Rightarrow> run_store" where
  "with_retention max_runs max_events = with_retention_limits max_runs max_events None"

subsection \<open>Retention\<close>

definition USIZE_LIMIT :: int where
  "USIZE_LIMIT = 18446744073709551615"

definition usize_add :: "int \<Rightarrow> int \<Rightarrow> int" where
  "usize_add a b = min (a + b) USIZE_LIMIT"

definition usize_sub :: "int \<Rightarrow> int \<Rightarrow> int" where
  "usize_sub a b = max (a - b) 0"

definition serialized_event_record_len :: "(run_event_record \<Rightarrow> int option) \<Rightarrow> run_event_record \<Rightarrow> int" where
  "serialized_event_record_len encoded r = (case encoded r of None \<Rightarrow> USIZE_LIMIT | Some n \<Rightarrow> n)"

text \<open>How many more records go until the remaining bytes fit.\<close>

fun bytes_excess :: "(run_event_record \<Rightarrow> int) \<Rightarrow> int option \<Rightarrow> int \<Rightarrow> run_event_record list \<Rightarrow> nat" where
  "bytes_excess len max_bytes remaining [] = 0"
| "bytes_excess len max_bytes remaining (r # rs) =
     (if (case max_bytes of None \<Rightarrow> False | Some cap \<Rightarrow> remaining > cap)
      then Suc (bytes_excess len max_bytes (usize_sub remaining (len r)) rs) else 0)"

definition without_bytes :: "(run_event_record \<Rightarrow> int) \<Rightarrow> run_event_record list \<Rightarrow> int \<Rightarrow> int" where
  "without_bytes len rs bytes = fold (\<lambda>r b. usize_sub b (len r)) rs bytes"

definition trim_retained_events ::
    "(run_event_record \<Rightarrow> int option) \<Rightarrow> nat option \<Rightarrow> int option \<Rightarrow> retained_run_events \<Rightarrow> retained_run_events" where
  "trim_retained_events encoded max_events max_bytes ev =
     (let len = serialized_event_record_len encoded; records = re_records ev;
          count_excess = (case max_events of None \<Rightarrow> 0 | Some cap \<Rightarrow> length records - cap);
          remaining = without_bytes len (take count_excess records) (re_serialized_bytes ev);
          remove_count = count_excess + bytes_excess len max_bytes remaining (drop count_excess records)
      in \<lparr>re_records = drop remove_count records,
          re_serialized_bytes = without_bytes len (take remove_count records) (re_serialized_bytes ev)\<rparr>)"

definition retained_event_page :: "retained_run_events \<Rightarrow> run_snapshot \<Rightarrow> nat option \<Rightarrow> nat \<Rightarrow> run_event_page" where
  "retained_event_page retained run after_sequence limit =
     (let first = (case re_records retained of [] \<Rightarrow> None | r # _ \<Rightarrow> Some (er_sequence r));
          requested_start = (case after_sequence of None \<Rightarrow> 0 | Some n \<Rightarrow> Suc n);
          gap = (if requested_start \<ge> rs_event_count run then False
                 else (case first of None \<Rightarrow> True | Some f \<Rightarrow> requested_start < f));
          matching = filter (\<lambda>r. case after_sequence of None \<Rightarrow> True | Some cursor \<Rightarrow> er_sequence r > cursor) (re_records retained);
          page_events = take limit matching
      in \<lparr>pg_events = page_events, pg_first_available_sequence = first,
          pg_latest_sequence_exclusive = rs_event_count run,
          pg_next_after_sequence = (if page_events = [] then after_sequence else Some (er_sequence (last page_events))),
          pg_retention_gap = gap, pg_has_more = (drop limit matching \<noteq> [])\<rparr>)"

subsection \<open>Creating and reserving\<close>

text \<open>Drop the oldest runs beyond the cap.\<close>

definition evict_runs :: "run_store \<Rightarrow> run_store" where
  "evict_runs s =
     (case sto_max_runs s of
        None \<Rightarrow> s
      | Some cap \<Rightarrow>
          (let victims = take (length (sto_insertion_order s) - cap) (sto_insertion_order s)
           in s\<lparr>sto_insertion_order := drop (length (sto_insertion_order s) - cap) (sto_insertion_order s),
                sto_runs := fold AList.delete victims (sto_runs s),
                sto_events := fold AList.delete victims (sto_events s)\<rparr>))"

definition insert_run :: "run_snapshot \<Rightarrow> run_store \<Rightarrow> run_store" where
  "insert_run snap s =
     s\<lparr>sto_runs := AList.update (rs_id snap) snap (sto_runs s),
       sto_events := AList.update (rs_id snap) retained_default (sto_events s)\<rparr>"

definition create_run_with_id :: "int \<Rightarrow> str \<Rightarrow> str \<Rightarrow> str \<Rightarrow> run_store \<Rightarrow> run_snapshot \<times> run_store" where
  "create_run_with_id now run_id session_id prompt s =
     (let snap = run_snapshot_new now run_id session_id prompt;
          s = insert_run snap s
      in (snap, evict_runs (s\<lparr>sto_insertion_order := filter (\<lambda>k. k \<noteq> run_id) (sto_insertion_order s) @ [run_id]\<rparr>)))"

definition create_run :: "str \<Rightarrow> int \<Rightarrow> str \<Rightarrow> str \<Rightarrow> run_store \<Rightarrow> run_snapshot \<times> run_store" where
  "create_run uuid now session_id prompt s = create_run_with_id now (''run-'' @ uuid) session_id prompt s"

definition reserve_run_with_id :: "int \<Rightarrow> str \<Rightarrow> str \<Rightarrow> str \<Rightarrow> run_store \<Rightarrow> run_reservation \<times> run_store" where
  "reserve_run_with_id now run_id session_id prompt s =
     (case map_of (sto_runs s) run_id of
        Some existing \<Rightarrow> (ReservedExisting existing, s)
      | None \<Rightarrow>
          (let snap = run_snapshot_new now run_id session_id prompt;
               s = insert_run snap s
           in (ReservedCreated snap, evict_runs (s\<lparr>sto_insertion_order := sto_insertion_order s @ [run_id]\<rparr>))))"

subsection \<open>Events and terminal states\<close>

definition apply_event_to_snapshot :: "agent_event \<Rightarrow> run_snapshot \<Rightarrow> run_snapshot" where
  "apply_event_to_snapshot event run =
     (if run_is_terminal (rs_status run) then run
      else (case event of
          EvStart prompt \<Rightarrow> run\<lparr>rs_status := RunExecuting, rs_prompt := (if rs_prompt run = [] then prompt else rs_prompt run)\<rparr>
        | EvPlanningStart \<Rightarrow> run\<lparr>rs_status := RunPlanning\<rparr>
        | EvEnd txt \<Rightarrow> run\<lparr>rs_status := RunCompleted, rs_result_text := Some txt, rs_error := None\<rparr>
        | EvError message \<Rightarrow> run\<lparr>rs_status := RunFailed, rs_error := Some message\<rparr>
        | EvOther _ \<Rightarrow> run
        | _ \<Rightarrow> (if rs_status run \<noteq> RunPlanning then run\<lparr>rs_status := RunExecuting\<rparr> else run)))"

definition record_event ::
    "(run_event_record \<Rightarrow> int option) \<Rightarrow> int \<Rightarrow> str \<Rightarrow> agent_event \<Rightarrow> run_store \<Rightarrow> run_snapshot option \<times> run_store" where
  "record_event encoded now run_id event s =
     (case (map_of (sto_events s) run_id, map_of (sto_runs s) run_id) of
        (Some ev, Some run) \<Rightarrow>
          (if int (rs_event_count run) = USIZE_LIMIT then (None, s)
           else (let timestamp_ms = max now (rs_updated_at_ms run);
                     record = \<lparr>er_sequence = rs_event_count run, er_timestamp_ms = timestamp_ms, er_event = event\<rparr>;
                     ev' = trim_retained_events encoded (sto_max_events_per_run s) (sto_max_event_bytes_per_run s)
                       \<lparr>re_records = re_records ev @ [record],
                        re_serialized_bytes = usize_add (re_serialized_bytes ev) (serialized_event_record_len encoded record)\<rparr>;
                     run' = (apply_event_to_snapshot event run)\<lparr>rs_event_count := Suc (rs_event_count run), rs_updated_at_ms := timestamp_ms\<rparr>
                 in (Some run', s\<lparr>sto_events := AList.update run_id ev' (sto_events s), sto_runs := AList.update run_id run' (sto_runs s)\<rparr>)))
      | _ \<Rightarrow> (None, s))"

text \<open>Every method that rewrites one snapshot, if the run is known.\<close>

definition modify_run :: "str \<Rightarrow> (run_snapshot \<Rightarrow> run_snapshot) \<Rightarrow> run_store \<Rightarrow> run_snapshot option \<times> run_store" where
  "modify_run run_id f s =
     (case map_of (sto_runs s) run_id of
        None \<Rightarrow> (None, s)
      | Some run \<Rightarrow> (Some (f run), s\<lparr>sto_runs := AList.update run_id (f run) (sto_runs s)\<rparr>))"

definition mark_failed :: "int \<Rightarrow> str \<Rightarrow> str \<Rightarrow> run_store \<Rightarrow> run_snapshot option \<times> run_store" where
  "mark_failed now run_id e s =
     modify_run run_id (\<lambda>run.
       if run_is_terminal (rs_status run) then run
       else run\<lparr>rs_status := RunFailed, rs_error := Some e, rs_updated_at_ms := max now (rs_updated_at_ms run)\<rparr>) s"

definition mark_cancelled :: "int \<Rightarrow> str \<Rightarrow> run_store \<Rightarrow> run_snapshot option \<times> run_store" where
  "mark_cancelled now run_id s =
     modify_run run_id (\<lambda>run.
       if run_is_terminal (rs_status run) then run
       else run\<lparr>rs_status := RunCancelled, rs_updated_at_ms := max now (rs_updated_at_ms run)\<rparr>) s"

definition run_snapshot_of :: "run_store \<Rightarrow> str \<Rightarrow> run_snapshot option" where
  "run_snapshot_of s run_id = map_of (sto_runs s) run_id"

definition settle_terminal :: "int \<Rightarrow> str \<Rightarrow> run_terminal_transition \<Rightarrow> run_store \<Rightarrow> run_snapshot option \<times> run_store" where
  "settle_terminal now run_id transition s =
     (case transition of
        SettleCompleted \<Rightarrow> (run_snapshot_of s run_id, s)
      | SettleCancelled \<Rightarrow> mark_cancelled now run_id s
      | SettleFailed e \<Rightarrow> mark_failed now run_id e s)"

subsection \<open>Bindings and evidence\<close>

definition admission_binding ::
    "str option \<Rightarrow> str \<Rightarrow> run_snapshot \<Rightarrow> run_snapshot \<Rightarrow> run_binding_error + run_snapshot" where
  "admission_binding existing binding bound run =
     (case existing of
        Some b \<Rightarrow> (if b = binding then Inr run else Inl BindConflict)
      | None \<Rightarrow>
          (if rs_event_count run \<noteq> 0 \<or> rs_status run \<noteq> RunCreated then Inl AlreadyObserved else Inr bound))"

definition bind_cognitive_package ::
    "(str \<Rightarrow> str option) \<Rightarrow> int \<Rightarrow> str \<Rightarrow> str \<Rightarrow> run_store \<Rightarrow> (run_binding_error + run_snapshot) \<times> run_store" where
  "bind_cognitive_package invalid now run_id binding s =
     (case invalid binding of
        Some e \<Rightarrow> (Inl (InvalidBinding e), s)
      | None \<Rightarrow>
          (case map_of (sto_runs s) run_id of
             None \<Rightarrow> (Inl BindRunNotFound, s)
           | Some run \<Rightarrow>
               (case admission_binding (rs_cognitive_package_binding run) binding
                       (run\<lparr>rs_cognitive_package_binding := Some binding, rs_updated_at_ms := max now (rs_updated_at_ms run)\<rparr>) run of
                  Inl e \<Rightarrow> (Inl e, s)
                | Inr run' \<Rightarrow> (Inr run', s\<lparr>sto_runs := AList.update run_id run' (sto_runs s)\<rparr>))))"

definition bind_capability_generation ::
    "(str \<Rightarrow> str option) \<Rightarrow> int \<Rightarrow> str \<Rightarrow> str \<Rightarrow> run_store \<Rightarrow> (run_binding_error + run_snapshot) \<times> run_store" where
  "bind_capability_generation invalid now run_id binding s =
     (case invalid binding of
        Some e \<Rightarrow> (Inl (InvalidBinding e), s)
      | None \<Rightarrow>
          (case map_of (sto_runs s) run_id of
             None \<Rightarrow> (Inl BindRunNotFound, s)
           | Some run \<Rightarrow>
               (case admission_binding (rs_capability_binding run) binding
                       (run\<lparr>rs_capability_binding := Some binding, rs_updated_at_ms := max now (rs_updated_at_ms run)\<rparr>) run of
                  Inl e \<Rightarrow> (Inl e, s)
                | Inr run' \<Rightarrow> (Inr run', s\<lparr>sto_runs := AList.update run_id run' (sto_runs s)\<rparr>))))"

definition record_workspace_change_set ::
    "str \<Rightarrow> str \<Rightarrow> run_store \<Rightarrow> (run_workspace_change_set_error + run_snapshot) \<times> run_store" where
  "record_workspace_change_set run_id change_set s =
     (case map_of (sto_runs s) run_id of
        None \<Rightarrow> (Inl ChangeRunNotFound, s)
      | Some run \<Rightarrow>
          (if \<not> run_is_terminal (rs_status run) then (Inl RunNotTerminal, s)
           else (case rs_workspace_change_set run of
               Some existing \<Rightarrow> (if existing = change_set then Inr run else Inl ChangeConflict, s)
             | None \<Rightarrow>
                 (let run' = run\<lparr>rs_workspace_change_set := Some change_set\<rparr>
                  in (Inr run', s\<lparr>sto_runs := AList.update run_id run' (sto_runs s)\<rparr>)))))"

subsection \<open>Reading, saving and restoring\<close>

definition run_events :: "run_store \<Rightarrow> str \<Rightarrow> run_event_record list" where
  "run_events s run_id = (case map_of (sto_events s) run_id of None \<Rightarrow> [] | Some ev \<Rightarrow> re_records ev)"

definition event_observation :: "run_store \<Rightarrow> str \<Rightarrow> nat option \<Rightarrow> nat \<Rightarrow> (run_snapshot \<times> run_event_page) option" where
  "event_observation s run_id after_sequence limit =
     (case (map_of (sto_events s) run_id, map_of (sto_runs s) run_id) of
        (Some retained, Some run) \<Rightarrow> Some (run, retained_event_page retained run after_sequence limit)
      | _ \<Rightarrow> None)"

definition event_page :: "run_store \<Rightarrow> str \<Rightarrow> nat option \<Rightarrow> nat \<Rightarrow> run_event_page option" where
  "event_page s run_id after_sequence limit = map_option snd (event_observation s run_id after_sequence limit)"

definition list_runs :: "run_store \<Rightarrow> run_snapshot list" where
  "list_runs s = List.map_filter (\<lambda>k. map_of (sto_runs s) k) (sto_insertion_order s)"

definition store_records :: "run_store \<Rightarrow> run_record list" where
  "store_records s =
     List.map_filter (\<lambda>k. map_option (\<lambda>snap. \<lparr>rr_snapshot = snap, rr_events = run_events s k\<rparr>) (map_of (sto_runs s) k))
       (sto_insertion_order s)"

definition restored_events :: "(run_event_record \<Rightarrow> int option) \<Rightarrow> run_store \<Rightarrow> run_record \<Rightarrow> retained_run_events" where
  "restored_events encoded s r =
     trim_retained_events encoded (sto_max_events_per_run s) (sto_max_event_bytes_per_run s)
       \<lparr>re_records = rr_events r,
        re_serialized_bytes = fold (\<lambda>e b. usize_add b (serialized_event_record_len encoded e)) (rr_events r) 0\<rparr>"

definition replace_records :: "(run_event_record \<Rightarrow> int option) \<Rightarrow> run_record list \<Rightarrow> run_store \<Rightarrow> run_store" where
  "replace_records encoded records s =
     (let sorted = sort_key (\<lambda>r. rs_created_at_ms (rr_snapshot r)) records;
          kept = (case sto_max_runs s of None \<Rightarrow> sorted | Some cap \<Rightarrow> drop (length sorted - cap) sorted)
      in s\<lparr>sto_runs := fold (\<lambda>r. AList.update (rs_id (rr_snapshot r)) (rr_snapshot r)) kept [],
           sto_events := fold (\<lambda>r. AList.update (rs_id (rr_snapshot r)) (restored_events encoded s r)) kept [],
           sto_insertion_order := map (\<lambda>r. rs_id (rr_snapshot r)) kept\<rparr>)"

end
