(* ===== verification/RunStoreLaws.thy ===== *)
theory RunStoreLaws
  imports RunStores
begin

section \<open>Laws of the store of runs\<close>

text \<open>
  Trimming keeps the last events and fits the byte bound; the stores a session can reach (\<open>store_reachable\<close>) and
  the invariant that every operation and every restore keeps.
\<close>

subsection \<open>The window of retained events\<close>

definition window_ok :: "run_snapshot \<Rightarrow> run_event_record list \<Rightarrow> bool" where
  "window_ok run records \<longleftrightarrow>
     map er_sequence records = [rs_event_count run - length records..<rs_event_count run]
     \<and> sorted (map er_timestamp_ms records) \<and> (\<forall>r\<in>set records. er_timestamp_ms r \<le> rs_updated_at_ms run)"

lemma window_length: "window_ok run records \<Longrightarrow> length records \<le> rs_event_count run"
  unfolding window_ok_def by (metis diff_le_self length_map length_upt diff_diff_cancel nat_le_linear diff_is_0_eq)

lemma window_empty [simp]: "window_ok run []"
  by (simp add: window_ok_def)

lemma window_drop:
  assumes "window_ok run records"
  shows "window_ok run (drop n records)"
proof (cases "n \<le> length records")
  case True
  have len: "length records \<le> rs_event_count run" by (rule window_length [OF assms])
  have "map er_sequence (drop n records) = drop n [rs_event_count run - length records..<rs_event_count run]"
    using assms by (simp add: window_ok_def drop_map [symmetric])
  also have "\<dots> = [rs_event_count run - length (drop n records)..<rs_event_count run]"
    using True len by (simp add: algebra_simps)
  finally show ?thesis
    using assms by (auto simp: window_ok_def drop_map [symmetric] sorted_wrt_drop dest: in_set_dropD)
qed simp

lemma window_append:
  assumes "window_ok run records" and "rs_updated_at_ms run \<le> t" and "rs_event_count run' = Suc (rs_event_count run)"
    and "rs_updated_at_ms run' = t"
  shows "window_ok run' (records @ [\<lparr>er_sequence = rs_event_count run, er_timestamp_ms = t, er_event = event\<rparr>])"
  using assms window_length [OF assms(1)] by (auto simp: window_ok_def sorted_append Suc_diff_le)

lemma window_update:
  "window_ok run records \<Longrightarrow> rs_event_count run' = rs_event_count run \<Longrightarrow> rs_updated_at_ms run \<le> rs_updated_at_ms run'
   \<Longrightarrow> window_ok run' records"
  by (auto simp: window_ok_def)

lemma trim_is_drop:
  obtains n where "re_records (trim_retained_events encoded max_events max_bytes ev) = drop n (re_records ev)"
  by (rule that) (simp add: trim_retained_events_def Let_def)

lemma trim_within_count:
  "max_events = Some cap \<Longrightarrow> length (re_records (trim_retained_events encoded max_events max_bytes ev)) \<le> cap"
  by (simp add: trim_retained_events_def Let_def)

lemma trim_unlimited:
  "(\<forall>cap. max_events = Some cap \<longrightarrow> length (re_records ev) \<le> cap)
   \<Longrightarrow> re_records (trim_retained_events encoded max_events None ev) = re_records ev"
proof -
  have "bytes_excess len None b rs = 0" for len b rs by (cases rs) simp_all
  then show "(\<forall>cap. max_events = Some cap \<longrightarrow> length (re_records ev) \<le> cap) \<Longrightarrow> ?thesis"
    by (simp add: trim_retained_events_def Let_def split: option.split)
qed

text \<open>As long as byte counts do not saturate, they are exact and a trimmed window fits its byte cap.\<close>

definition total_bytes :: "(run_event_record \<Rightarrow> int) \<Rightarrow> run_event_record list \<Rightarrow> int" where
  "total_bytes len rs = sum_list (map len rs)"

lemma total_bytes_nonneg: "\<forall>r. 0 \<le> len r \<Longrightarrow> 0 \<le> total_bytes len rs"
  by (induction rs) (simp_all add: total_bytes_def)

lemma without_bytes_exact:
  "(\<forall>r. 0 \<le> len r) \<Longrightarrow> 0 \<le> rest \<Longrightarrow> without_bytes len rs (total_bytes len rs + rest) = rest"
proof (induction rs)
  case (Cons r rs)
  have "0 \<le> total_bytes len rs" using total_bytes_nonneg [OF Cons.prems(1)] .
  then show ?case using Cons by (simp add: without_bytes_def total_bytes_def usize_sub_def)
qed (simp add: without_bytes_def total_bytes_def)

lemma bytes_excess_fits:
  "(\<forall>r. 0 \<le> len r) \<Longrightarrow> 0 \<le> cap \<Longrightarrow> total_bytes len (drop (bytes_excess len (Some cap) (total_bytes len rs) rs) rs) \<le> cap"
proof (induction rs)
  case (Cons r rs)
  have "0 \<le> total_bytes len rs" using total_bytes_nonneg [OF Cons.prems(1)] .
  then have "usize_sub (total_bytes len (r # rs)) (len r) = total_bytes len rs" by (simp add: total_bytes_def usize_sub_def)
  then show ?case using Cons by simp
qed (simp add: total_bytes_def)

lemma total_bytes_split: "total_bytes len rs = total_bytes len (take n rs) + total_bytes len (drop n rs)"
  by (metis append_take_drop_id map_append sum_list_append total_bytes_def)

theorem trimmed_window_fits_its_bytes:
  fixes encoded :: "run_event_record \<Rightarrow> int option" and max_events :: "nat option" and cap :: int and ev :: retained_run_events
  defines "len \<equiv> serialized_event_record_len encoded"
  assumes "\<forall>r. 0 \<le> len r" and "0 \<le> cap" and "re_serialized_bytes ev = total_bytes len (re_records ev)"
  defines "ev' \<equiv> trim_retained_events encoded max_events (Some cap) ev"
  shows "re_serialized_bytes ev' = total_bytes len (re_records ev') \<and> re_serialized_bytes ev' \<le> cap"
proof -
  define rs where "rs = re_records ev"
  define c where "c = (case max_events of None \<Rightarrow> 0 | Some cap \<Rightarrow> length rs - cap)"
  have count: "(case max_events of None \<Rightarrow> 0 | Some cap \<Rightarrow> length (re_records ev) - cap) = c"
    unfolding c_def rs_def by (rule refl)
  have nonneg: "0 \<le> total_bytes len xs" for xs by (rule total_bytes_nonneg [OF assms(2)])
  have exact: "without_bytes len (take n rs) (re_serialized_bytes ev) = total_bytes len (drop n rs)" for n
    using without_bytes_exact [OF assms(2) nonneg] total_bytes_split [of len rs n] assms(4) by (simp add: rs_def)
  define m where "m = c + bytes_excess len (Some cap) (total_bytes len (drop c rs)) (drop c rs)"
  have "re_records ev' = drop m rs" "re_serialized_bytes ev' = total_bytes len (drop m rs)"
    unfolding ev'_def trim_retained_events_def Let_def count
    unfolding len_def [symmetric] rs_def [symmetric] exact m_def by simp_all
  moreover have "total_bytes len (drop m rs) \<le> cap"
    using bytes_excess_fits [OF assms(2,3), of "drop c rs"] by (simp add: m_def add.commute)
  ultimately show ?thesis by simp
qed

subsection \<open>Operations and the stores they reach\<close>

datatype store_op =
    CreateRun int str str str
  | ReserveRun int str str str
  | RecordEvent int str agent_event
  | MarkFailed int str str
  | MarkCancelled int str
  | Settle int str run_terminal_transition
  | BindCognitive int str str
  | BindCapability int str str
  | RecordChangeSet str str

fun store_step :: "(run_event_record \<Rightarrow> int option) \<Rightarrow> (str \<Rightarrow> str option) \<Rightarrow> store_op \<Rightarrow> run_store \<Rightarrow> run_store" where
  "store_step encoded invalid (CreateRun now k session_id prompt) s = snd (create_run_with_id now k session_id prompt s)"
| "store_step encoded invalid (ReserveRun now k session_id prompt) s = snd (reserve_run_with_id now k session_id prompt s)"
| "store_step encoded invalid (RecordEvent now k event) s = snd (record_event encoded now k event s)"
| "store_step encoded invalid (MarkFailed now k e) s = snd (mark_failed now k e s)"
| "store_step encoded invalid (MarkCancelled now k) s = snd (mark_cancelled now k s)"
| "store_step encoded invalid (Settle now k transition) s = snd (settle_terminal now k transition s)"
| "store_step encoded invalid (BindCognitive now k binding) s = snd (bind_cognitive_package invalid now k binding s)"
| "store_step encoded invalid (BindCapability now k binding) s = snd (bind_capability_generation invalid now k binding s)"
| "store_step encoded invalid (RecordChangeSet k change_set) s = snd (record_workspace_change_set k change_set s)"

inductive store_reachable :: "(run_event_record \<Rightarrow> int option) \<Rightarrow> (str \<Rightarrow> str option) \<Rightarrow> run_store \<Rightarrow> bool"
  for encoded :: "run_event_record \<Rightarrow> int option" and invalid :: "str \<Rightarrow> str option" where
  store_fresh: "store_reachable encoded invalid (with_retention_limits max_runs max_events max_bytes)"
| store_operation: "store_reachable encoded invalid s \<Longrightarrow> store_reachable encoded invalid (store_step encoded invalid op s)"
| store_restore: "store_reachable encoded invalid s \<Longrightarrow> store_reachable encoded invalid t
     \<Longrightarrow> store_reachable encoded invalid (replace_records encoded (store_records s) t)"

definition keys_ok :: "run_store \<Rightarrow> bool" where
  "keys_ok s \<longleftrightarrow>
     distinct (sto_insertion_order s) \<and> distinct (map fst (sto_runs s)) \<and> distinct (map fst (sto_events s))
     \<and> fst ` set (sto_runs s) = set (sto_insertion_order s) \<and> fst ` set (sto_events s) = set (sto_insertion_order s)"

definition windows_ok :: "run_store \<Rightarrow> bool" where
  "windows_ok s \<longleftrightarrow>
     (\<forall>k run ev. map_of (sto_runs s) k = Some run \<longrightarrow> map_of (sto_events s) k = Some ev \<longrightarrow>
        rs_id run = k \<and> window_ok run (re_records ev)
        \<and> (\<forall>cap. sto_max_events_per_run s = Some cap \<longrightarrow> length (re_records ev) \<le> cap))"

definition runs_bounded :: "run_store \<Rightarrow> bool" where
  "runs_bounded s \<longleftrightarrow> (\<forall>cap. sto_max_runs s = Some cap \<longrightarrow> length (sto_insertion_order s) \<le> cap)"

definition store_ok :: "run_store \<Rightarrow> bool" where
  "store_ok s \<longleftrightarrow> keys_ok s \<and> windows_ok s \<and> runs_bounded s"

lemma fold_delete_lookup: "map_of (fold AList.delete ks m) k = (if k \<in> set ks then None else map_of m k)"
  by (induction ks arbitrary: m) (auto simp: delete_conv')

lemma fold_delete_keys: "fst ` set (fold AList.delete ks m) = fst ` set m - set ks"
proof (induction ks arbitrary: m)
  case (Cons k ks)
  have "fst ` set (AList.delete k m) = fst ` set m - {k}" by (metis delete_keys list.set_map set_removeAll)
  then show ?case using Cons.IH [of "AList.delete k m"] by auto
qed simp

lemma fold_delete_distinct: "distinct (map fst m) \<Longrightarrow> distinct (map fst (fold AList.delete ks m))"
  by (induction ks arbitrary: m) (simp_all add: distinct_delete)

lemma evict_caps [simp]:
  "sto_max_runs (evict_runs s) = sto_max_runs s" "sto_max_events_per_run (evict_runs s) = sto_max_events_per_run s"
  "sto_max_event_bytes_per_run (evict_runs s) = sto_max_event_bytes_per_run s"
  by (simp_all add: evict_runs_def Let_def split: option.split)

lemma evict_lookup:
  obtains victims where "map_of (sto_runs (evict_runs s)) = (\<lambda>k. if k \<in> victims then None else map_of (sto_runs s) k)"
    "map_of (sto_events (evict_runs s)) = (\<lambda>k. if k \<in> victims then None else map_of (sto_events s) k)"
proof (cases "sto_max_runs s")
  case None
  then show ?thesis by (intro that [of "{}"]) (simp_all add: evict_runs_def)
next
  case (Some cap)
  then show ?thesis
    by (intro that [of "set (take (length (sto_insertion_order s) - cap) (sto_insertion_order s))"])
      (simp_all add: evict_runs_def Let_def fold_delete_lookup fun_eq_iff)
qed

lemma evict_keys: "keys_ok s \<Longrightarrow> keys_ok (evict_runs s)"
proof (cases "sto_max_runs s")
  case (Some cap)
  define n where "n = length (sto_insertion_order s) - cap"
  have evicted: "sto_insertion_order (evict_runs s) = drop n (sto_insertion_order s)"
    "sto_runs (evict_runs s) = fold AList.delete (take n (sto_insertion_order s)) (sto_runs s)"
    "sto_events (evict_runs s) = fold AList.delete (take n (sto_insertion_order s)) (sto_events s)"
    using Some by (simp_all add: evict_runs_def n_def Let_def)
  assume ok: "keys_ok s"
  then have "set (take n (sto_insertion_order s)) \<inter> set (drop n (sto_insertion_order s)) = {}"
    by (simp add: keys_ok_def set_take_disj_set_drop_if_distinct)
  moreover have "set (sto_insertion_order s) = set (take n (sto_insertion_order s)) \<union> set (drop n (sto_insertion_order s))"
    by (metis append_take_drop_id set_append)
  ultimately have "set (sto_insertion_order s) - set (take n (sto_insertion_order s)) = set (drop n (sto_insertion_order s))" by blast
  then show ?thesis using ok unfolding keys_ok_def evicted by (simp add: fold_delete_keys fold_delete_distinct)
qed (simp add: evict_runs_def)

lemma evict_windows:
  assumes "windows_ok s"
  shows "windows_ok (evict_runs s)"
proof (rule evict_lookup [of s])
  fix victims
  assume "map_of (sto_runs (evict_runs s)) = (\<lambda>k. if k \<in> victims then None else map_of (sto_runs s) k)"
    and "map_of (sto_events (evict_runs s)) = (\<lambda>k. if k \<in> victims then None else map_of (sto_events s) k)"
  then show ?thesis using assms unfolding windows_ok_def by (auto split: if_splits)
qed

lemma evict_bounded: "runs_bounded (evict_runs s)"
  by (auto simp: runs_bounded_def evict_runs_def Let_def split: option.splits)

text \<open>A new run.\<close>

lemma insert_run_windows:
  assumes "windows_ok s"
  shows "windows_ok (insert_run (run_snapshot_new now k session_id prompt) s\<lparr>sto_insertion_order := order\<rparr>)"
  using assms by (simp add: windows_ok_def insert_run_def update_conv' run_snapshot_new_def retained_default_def)

lemma insert_run_keys:
  assumes "keys_ok s"
  shows "keys_ok (insert_run (run_snapshot_new now k session_id prompt) s
    \<lparr>sto_insertion_order := filter (\<lambda>j. j \<noteq> k) (sto_insertion_order s) @ [k]\<rparr>)"
  using assms by (auto simp: keys_ok_def insert_run_def run_snapshot_new_def dom_update distinct_update)

lemma create_ok:
  assumes "store_ok s"
  shows "store_ok (snd (create_run_with_id now k session_id prompt s))"
proof -
  have "sto_insertion_order (insert_run (run_snapshot_new now k session_id prompt) s) = sto_insertion_order s"
    by (simp add: insert_run_def)
  then show ?thesis
    using assms evict_keys [OF insert_run_keys] evict_windows [OF insert_run_windows] evict_bounded
    by (simp add: store_ok_def create_run_with_id_def Let_def)
qed

lemma reserve_ok:
  assumes "store_ok s"
  shows "store_ok (snd (reserve_run_with_id now k session_id prompt s))"
proof (cases "map_of (sto_runs s) k")
  case None
  then have "k \<notin> set (sto_insertion_order s)" using assms by (auto simp: store_ok_def keys_ok_def map_of_eq_None_iff)
  then have "filter (\<lambda>j. j \<noteq> k) (sto_insertion_order s) = sto_insertion_order s" by (metis (mono_tags, lifting) filter_True)
  then have "snd (reserve_run_with_id now k session_id prompt s) = snd (create_run_with_id now k session_id prompt s)"
    using None by (simp add: reserve_run_with_id_def create_run_with_id_def insert_run_def Let_def)
  then show ?thesis using create_ok [OF assms] by simp
next
  case (Some run)
  then show ?thesis using assms by (simp add: reserve_run_with_id_def)
qed

text \<open>Rewriting a snapshot under its key.\<close>

definition keeps_window :: "run_snapshot \<Rightarrow> run_snapshot \<Rightarrow> bool" where
  "keeps_window run run' \<longleftrightarrow>
     rs_id run' = rs_id run \<and> rs_event_count run' = rs_event_count run \<and> rs_updated_at_ms run \<le> rs_updated_at_ms run'"

lemma update_run_ok:
  assumes "store_ok s" and "map_of (sto_runs s) k = Some run" and "keeps_window run run'"
  shows "store_ok (s\<lparr>sto_runs := AList.update k run' (sto_runs s)\<rparr>)"
proof -
  have "k \<in> fst ` set (sto_runs s)" using map_of_SomeD [OF assms(2)] by force
  then have "keys_ok (s\<lparr>sto_runs := AList.update k run' (sto_runs s)\<rparr>)"
    using assms(1) by (auto simp: store_ok_def keys_ok_def dom_update distinct_update)
  moreover have "windows_ok (s\<lparr>sto_runs := AList.update k run' (sto_runs s)\<rparr>)"
    using assms window_update [of run _ run'] by (auto simp: store_ok_def windows_ok_def update_conv' keeps_window_def)
  ultimately show ?thesis using assms(1) by (simp add: store_ok_def runs_bounded_def)
qed

lemma modify_run_ok:
  assumes "store_ok s" and "\<And>run. keeps_window run (f run)"
  shows "store_ok (snd (modify_run k f s))"
  using assms update_run_ok [OF assms(1) _ assms(2)] by (cases "map_of (sto_runs s) k") (simp_all add: modify_run_def)

lemma mark_failed_ok: "store_ok s \<Longrightarrow> store_ok (snd (mark_failed now k e s))"
  unfolding mark_failed_def by (rule modify_run_ok) (simp_all add: keeps_window_def)

lemma mark_cancelled_ok: "store_ok s \<Longrightarrow> store_ok (snd (mark_cancelled now k s))"
  unfolding mark_cancelled_def by (rule modify_run_ok) (simp_all add: keeps_window_def)

lemma settle_ok: "store_ok s \<Longrightarrow> store_ok (snd (settle_terminal now k transition s))"
  by (cases transition) (simp_all add: settle_terminal_def mark_failed_ok mark_cancelled_ok)

lemma admission_binding_cases:
  assumes "admission_binding existing binding bound run = Inr run'"
  shows "run' = run \<or> (run' = bound \<and> existing = None \<and> rs_event_count run = 0 \<and> rs_status run = RunCreated)"
  using assms by (auto simp: admission_binding_def split: option.splits if_splits)

lemma bind_cognitive_ok:
  assumes "store_ok s"
  shows "store_ok (snd (bind_cognitive_package invalid now k binding s))"
  using assms update_run_ok [OF assms]
  by (auto simp: bind_cognitive_package_def keeps_window_def split: option.split sum.split dest!: admission_binding_cases)

lemma bind_capability_ok:
  assumes "store_ok s"
  shows "store_ok (snd (bind_capability_generation invalid now k binding s))"
  using assms update_run_ok [OF assms]
  by (auto simp: bind_capability_generation_def keeps_window_def split: option.split sum.split dest!: admission_binding_cases)

lemma record_change_set_ok:
  assumes "store_ok s"
  shows "store_ok (snd (record_workspace_change_set k change_set s))"
  using assms update_run_ok [OF assms]
  by (auto simp: record_workspace_change_set_def keeps_window_def Let_def split: option.split)

text \<open>Recording an event.\<close>

lemma apply_event_frame [simp]:
  "rs_id (apply_event_to_snapshot event run) = rs_id run"
  "rs_event_count (apply_event_to_snapshot event run) = rs_event_count run"
  "rs_updated_at_ms (apply_event_to_snapshot event run) = rs_updated_at_ms run"
  by (simp_all add: apply_event_to_snapshot_def split: agent_event.split)

lemma record_event_ok:
  assumes "store_ok s"
  shows "store_ok (snd (record_event encoded now k event s))"
proof (cases "map_of (sto_events s) k")
  case None
  then show ?thesis using assms by (simp add: record_event_def)
next
  case ev: (Some ev)
  show ?thesis
  proof (cases "map_of (sto_runs s) k")
    case None
    then show ?thesis using assms ev by (simp add: record_event_def)
  next
    case run: (Some run)
    show ?thesis
    proof (cases "int (rs_event_count run) = USIZE_LIMIT")
      case True
      then show ?thesis using assms ev run by (simp add: record_event_def)
    next
      case False
      define t where "t = max now (rs_updated_at_ms run)"
      define rec where "rec = \<lparr>er_sequence = rs_event_count run, er_timestamp_ms = t, er_event = event\<rparr>"
      define ev' where "ev' = trim_retained_events encoded (sto_max_events_per_run s) (sto_max_event_bytes_per_run s)
        \<lparr>re_records = re_records ev @ [rec], re_serialized_bytes = usize_add (re_serialized_bytes ev) (serialized_event_record_len encoded rec)\<rparr>"
      define run' where "run' = (apply_event_to_snapshot event run)\<lparr>rs_event_count := Suc (rs_event_count run), rs_updated_at_ms := t\<rparr>"
      define s' where "s' = s\<lparr>sto_events := AList.update k ev' (sto_events s), sto_runs := AList.update k run' (sto_runs s)\<rparr>"
      have eq: "snd (record_event encoded now k event s) = s'"
        using ev run False by (simp add: record_event_def s'_def ev'_def run'_def rec_def t_def Let_def)
      have old: "rs_id run = k" "window_ok run (re_records ev)"
        using assms ev run by (auto simp: store_ok_def windows_ok_def)
      have "window_ok run' (re_records ev @ [rec])"
        unfolding rec_def by (rule window_append [OF old(2)]) (simp_all add: run'_def t_def)
      moreover obtain n where "re_records ev' = drop n (re_records ev @ [rec])"
        using trim_is_drop [of encoded "sto_max_events_per_run s" "sto_max_event_bytes_per_run s"
            "\<lparr>re_records = re_records ev @ [rec], re_serialized_bytes = usize_add (re_serialized_bytes ev) (serialized_event_record_len encoded rec)\<rparr>"]
        unfolding ev'_def by auto
      ultimately have new: "window_ok run' (re_records ev')" by (simp only: window_drop)
      have "k \<in> fst ` set (sto_runs s)" "k \<in> fst ` set (sto_events s)"
        using map_of_SomeD [OF run] map_of_SomeD [OF ev] by force+
      then have "keys_ok s'" using assms by (auto simp: s'_def store_ok_def keys_ok_def dom_update distinct_update)
      moreover have "windows_ok s'"
        using assms new old(1) trim_within_count unfolding s'_def ev'_def
        by (auto simp: store_ok_def windows_ok_def update_conv' run'_def)
      ultimately show ?thesis using assms unfolding eq by (simp add: store_ok_def runs_bounded_def s'_def)
    qed
  qed
qed

lemma store_step_ok: "store_ok s \<Longrightarrow> store_ok (store_step encoded invalid op s)"
  by (cases op)
    (simp_all add: create_ok reserve_ok record_event_ok mark_failed_ok mark_cancelled_ok settle_ok bind_cognitive_ok
      bind_capability_ok record_change_set_ok)

subsection \<open>Saving and restoring\<close>

lemma known_run:
  assumes "store_ok s" and "k \<in> set (sto_insertion_order s)"
  obtains run ev where "map_of (sto_runs s) k = Some run" "map_of (sto_events s) k = Some ev" "rs_id run = k"
    "window_ok run (re_records ev)" "run_events s k = re_records ev"
proof -
  have "map_of (sto_runs s) k \<noteq> None" "map_of (sto_events s) k \<noteq> None"
    using assms by (auto simp: store_ok_def keys_ok_def map_of_eq_None_iff)
  then obtain run ev where r: "map_of (sto_runs s) k = Some run" "map_of (sto_events s) k = Some ev" by auto
  then have "rs_id run = k \<and> window_ok run (re_records ev)" using assms(1) by (auto simp: store_ok_def windows_ok_def)
  then show thesis using that r by (simp add: run_events_def)
qed

lemma store_records_map:
  assumes "store_ok s"
  shows "store_records s = map (\<lambda>k. \<lparr>rr_snapshot = the (map_of (sto_runs s) k), rr_events = run_events s k\<rparr>) (sto_insertion_order s)"
proof -
  have "List.map_filter (\<lambda>k. map_option (\<lambda>snap. \<lparr>rr_snapshot = snap, rr_events = run_events s k\<rparr>) (map_of (sto_runs s) k)) ks
      = map (\<lambda>k. \<lparr>rr_snapshot = the (map_of (sto_runs s) k), rr_events = run_events s k\<rparr>) ks"
    if "set ks \<subseteq> set (sto_insertion_order s)" for ks
    using that
  proof (induction ks)
    case (Cons k ks)
    then obtain run where "map_of (sto_runs s) k = Some run" using known_run [OF assms, of k] by auto
    then show ?case using Cons by (simp add: List.map_filter_simps)
  qed (simp add: List.map_filter_simps)
  then show ?thesis by (simp add: store_records_def)
qed

definition records_ok :: "run_record list \<Rightarrow> bool" where
  "records_ok rs \<longleftrightarrow>
     distinct (map (\<lambda>r. rs_id (rr_snapshot r)) rs) \<and> (\<forall>r\<in>set rs. window_ok (rr_snapshot r) (rr_events r))"

lemma store_records_ids:
  assumes "store_ok s"
  shows "map (\<lambda>r. rs_id (rr_snapshot r)) (store_records s) = sto_insertion_order s"
proof -
  have "rs_id (the (map_of (sto_runs s) k)) = k" if k: "k \<in> set (sto_insertion_order s)" for k
    by (rule known_run [OF assms k]) simp
  then show ?thesis by (simp add: store_records_map [OF assms] comp_def map_idI)
qed

lemma store_records_ok:
  assumes "store_ok s"
  shows "records_ok (store_records s)"
proof -
  have "window_ok (rr_snapshot r) (rr_events r)" if r_in: "r \<in> set (store_records s)" for r
  proof -
    obtain k where k: "k \<in> set (sto_insertion_order s)"
      and r: "r = \<lparr>rr_snapshot = the (map_of (sto_runs s) k), rr_events = run_events s k\<rparr>"
      using r_in by (auto simp: store_records_map [OF assms])
    show ?thesis by (rule known_run [OF assms k]) (simp add: r)
  qed
  then show ?thesis using assms by (simp add: records_ok_def store_records_ids [OF assms]) (simp add: store_ok_def keys_ok_def)
qed

lemma fold_update_map:
  "distinct (map f rs) \<Longrightarrow> f ` set rs \<inter> fst ` set m = {}
   \<Longrightarrow> fold (\<lambda>r. AList.update (f r) (g r)) rs m = m @ map (\<lambda>r. (f r, g r)) rs"
proof (induction rs arbitrary: m)
  case (Cons r rs)
  have "f r \<notin> fst ` set m" using Cons.prems(2) by auto
  then have "AList.update (f r) (g r) m = m @ [(f r, g r)]" by (induction m) auto
  then show ?case using Cons.IH [of "m @ [(f r, g r)]"] Cons.prems by auto
qed simp

lemma replace_records_eq:
  fixes rs :: "run_record list" and s :: run_store
  assumes "distinct (map (\<lambda>r. rs_id (rr_snapshot r)) rs)"
  defines "ordered \<equiv> sort_key (\<lambda>r. rs_created_at_ms (rr_snapshot r)) rs"
  defines "kept \<equiv> (case sto_max_runs s of None \<Rightarrow> ordered | Some cap \<Rightarrow> drop (length ordered - cap) ordered)"
  shows "replace_records encoded rs s =
      s\<lparr>sto_runs := map (\<lambda>r. (rs_id (rr_snapshot r), rr_snapshot r)) kept,
        sto_events := map (\<lambda>r. (rs_id (rr_snapshot r), restored_events encoded s r)) kept,
        sto_insertion_order := map (\<lambda>r. rs_id (rr_snapshot r)) kept\<rparr>"
    and "distinct (map (\<lambda>r. rs_id (rr_snapshot r)) kept)" and "set kept \<subseteq> set rs"
proof -
  have "distinct (map (\<lambda>r. rs_id (rr_snapshot r)) ordered)" using assms(1) by (simp add: ordered_def distinct_map)
  then show d: "distinct (map (\<lambda>r. rs_id (rr_snapshot r)) kept)"
    by (simp add: kept_def drop_map [symmetric] split: option.split)
  show "set kept \<subseteq> set rs" by (auto simp: kept_def ordered_def split: option.splits dest: in_set_dropD)
  show "replace_records encoded rs s = s\<lparr>sto_runs := map (\<lambda>r. (rs_id (rr_snapshot r), rr_snapshot r)) kept,
        sto_events := map (\<lambda>r. (rs_id (rr_snapshot r), restored_events encoded s r)) kept,
        sto_insertion_order := map (\<lambda>r. rs_id (rr_snapshot r)) kept\<rparr>"
    unfolding replace_records_def Let_def ordered_def [symmetric] kept_def [symmetric]
    using fold_update_map [OF d, of "[]" rr_snapshot] fold_update_map [OF d, of "[]" "restored_events encoded s"] by simp
qed

lemma map_of_keyed:
  "distinct (map f rs) \<Longrightarrow> map_of (map (\<lambda>r. (f r, g r)) rs) k = Some v \<longleftrightarrow> (\<exists>r\<in>set rs. f r = k \<and> g r = v)"
  by (induction rs) (auto simp: image_iff)

lemma replace_ok:
  assumes "records_ok rs"
  shows "store_ok (replace_records encoded rs s)"
proof -
  define kept where "kept = (let ordered = sort_key (\<lambda>r. rs_created_at_ms (rr_snapshot r)) rs
     in case sto_max_runs s of None \<Rightarrow> ordered | Some cap \<Rightarrow> drop (length ordered - cap) ordered)"
  have ids: "distinct (map (\<lambda>r. rs_id (rr_snapshot r)) rs)" using assms by (simp add: records_ok_def)
  note eq = replace_records_eq(1) [OF ids, of encoded s, folded kept_def [unfolded Let_def]]
    replace_records_eq(2,3) [OF ids, of s, folded kept_def [unfolded Let_def]]
  have keys: "keys_ok (replace_records encoded rs s)"
    unfolding eq(1) keys_ok_def using eq(2) by (simp add: comp_def image_image)
  have "windows_ok (replace_records encoded rs s)"
    unfolding windows_ok_def
  proof (intro allI impI)
    fix k run ev
    assume run: "map_of (sto_runs (replace_records encoded rs s)) k = Some run"
      and ev: "map_of (sto_events (replace_records encoded rs s)) k = Some ev"
    obtain r where r: "r \<in> set kept" "rs_id (rr_snapshot r) = k" "rr_snapshot r = run"
      using run unfolding eq(1) by (auto simp: map_of_keyed [OF eq(2)])
    obtain r' where r': "r' \<in> set kept" "rs_id (rr_snapshot r') = k" "restored_events encoded s r' = ev"
      using ev unfolding eq(1) by (auto simp: map_of_keyed [OF eq(2)])
    have "r' = r" using eq(2) r(1,2) r'(1,2) by (auto simp: distinct_map inj_on_def)
    obtain n where n: "re_records ev = drop n (rr_events r)"
      using r'(3) trim_is_drop [of encoded "sto_max_events_per_run s" "sto_max_event_bytes_per_run s"
          "\<lparr>re_records = rr_events r, re_serialized_bytes = fold (\<lambda>e b. usize_add b (serialized_event_record_len encoded e)) (rr_events r) 0\<rparr>"]
      unfolding \<open>r' = r\<close> restored_events_def by auto
    have "window_ok run (rr_events r)" using assms r(1,3) eq(3) by (auto simp: records_ok_def)
    then have "window_ok run (re_records ev)" unfolding n by (rule window_drop)
    moreover have "length (re_records ev) \<le> cap" if "sto_max_events_per_run (replace_records encoded rs s) = Some cap" for cap
      using that trim_within_count r'(3) unfolding eq(1) restored_events_def by auto
    ultimately show "rs_id run = k \<and> window_ok run (re_records ev)
        \<and> (\<forall>cap. sto_max_events_per_run (replace_records encoded rs s) = Some cap \<longrightarrow> length (re_records ev) \<le> cap)"
      using r(2,3) by auto
  qed
  moreover have "runs_bounded (replace_records encoded rs s)"
    unfolding eq(1) by (auto simp: runs_bounded_def kept_def Let_def)
  ultimately show ?thesis using keys by (simp add: store_ok_def)
qed

lemma reachable_store_ok: "store_reachable encoded invalid s \<Longrightarrow> store_ok s"
proof (induction rule: store_reachable.induct)
  case (store_fresh max_runs max_events max_bytes)
  show ?case
    by (simp add: with_retention_limits_def store_ok_def keys_ok_def windows_ok_def runs_bounded_def)
next
  case (store_restore s t)
  then show ?case using replace_ok [OF store_records_ok] by simp
qed (rule store_step_ok)

end
