(* ===== verification/RunStoreProperties.thy ===== *)
theory RunStoreProperties
  imports RunStoreLaws
begin

section \<open>Properties of the store of runs\<close>

text \<open>
  The retained events of a run are the last ones without a gap, pages report them faithfully, terminal runs are
  final, bindings are written once, and saved records can be restored.
\<close>

subsection \<open>Retained events\<close>

text \<open>C30. In every store that operations and restores can reach, the retained events of a run are its last events without a gap:
  their sequence numbers run up to the number of events ever recorded, their times never go back, and neither
  the cap on events per run nor the cap on runs is exceeded.\<close>

theorem retained_events_are_the_last_ones:
  assumes "store_reachable encoded invalid s" and "run_snapshot_of s k = Some run"
  shows "map er_sequence (run_events s k) = [rs_event_count run - length (run_events s k)..<rs_event_count run]
    \<and> sorted (map er_timestamp_ms (run_events s k))
    \<and> (\<forall>r\<in>set (run_events s k). er_timestamp_ms r \<le> rs_updated_at_ms run)
    \<and> (\<forall>cap. sto_max_events_per_run s = Some cap \<longrightarrow> length (run_events s k) \<le> cap)
    \<and> (\<forall>cap. sto_max_runs s = Some cap \<longrightarrow> length (store_records s) \<le> cap)"
proof -
  have s: "store_ok s" by (rule reachable_store_ok [OF assms(1)])
  have "k \<in> fst ` set (sto_runs s)" using assms(2) map_of_SomeD by (force simp: run_snapshot_of_def)
  then have k: "k \<in> set (sto_insertion_order s)" using s by (simp add: store_ok_def keys_ok_def)
  obtain run' ev where ev': "map_of (sto_runs s) k = Some run'" "map_of (sto_events s) k = Some ev" "rs_id run' = k"
    "window_ok run' (re_records ev)" "run_events s k = re_records ev"
    by (rule known_run [OF s k])
  then have ev: "map_of (sto_events s) k = Some ev" "window_ok run (re_records ev)" "run_events s k = re_records ev"
    using assms(2) by (simp_all add: run_snapshot_of_def)
  have "\<forall>cap. sto_max_events_per_run s = Some cap \<longrightarrow> length (run_events s k) \<le> cap"
    using s ev assms(2) by (auto simp: store_ok_def windows_ok_def run_snapshot_of_def)
  moreover have "\<forall>cap. sto_max_runs s = Some cap \<longrightarrow> length (store_records s) \<le> cap"
    using s by (simp add: store_records_map [OF s]) (simp add: store_ok_def runs_bounded_def)
  ultimately show ?thesis using ev(2,3) by (simp add: window_ok_def)
qed

definition sample_len :: "run_event_record \<Rightarrow> int option" where
  "sample_len r = Some 10"

definition sample_store :: run_store where
  "sample_store = fold (store_step sample_len (\<lambda>_. None))
     [CreateRun 5 ''r1'' ''s'' ''p'', RecordEvent 6 ''r1'' (EvStart ''p''), RecordEvent 4 ''r1'' EvTurnStart,
      RecordEvent 7 ''r1'' (EvOther ''delta''), RecordEvent 9 ''r1'' (EvEnd ''done'')]
     (with_retention_limits (Some 4) (Some 3) None)"

lemma sample_reachable: "store_reachable sample_len (\<lambda>_. None) sample_store"
  unfolding sample_store_def by (simp del: store_step.simps add: store_fresh store_operation)

theorem retained_events_are_the_last_ones_witness:
  "\<exists>run. run_snapshot_of sample_store ''r1'' = Some run \<and> rs_event_count run = 4
    \<and> map er_sequence (run_events sample_store ''r1'') = [rs_event_count run - length (run_events sample_store ''r1'')..<rs_event_count run]"
proof -
  have "map_option rs_event_count (run_snapshot_of sample_store ''r1'') = Some 4" by code_simp
  then obtain run where "run_snapshot_of sample_store ''r1'' = Some run" "rs_event_count run = 4" by auto
  then show ?thesis using retained_events_are_the_last_ones [OF sample_reachable] by blast
qed

subsection \<open>Pages\<close>

definition from_cursor :: "nat option \<Rightarrow> nat" where
  "from_cursor after = (case after of None \<Rightarrow> 0 | Some n \<Rightarrow> Suc n)"

definition available :: "run_event_record list \<Rightarrow> nat option \<Rightarrow> run_event_record list" where
  "available records after = filter (\<lambda>r. from_cursor after \<le> er_sequence r) records"

lemma matching_available:
  "filter (\<lambda>r. case after of None \<Rightarrow> True | Some cursor \<Rightarrow> er_sequence r > cursor) records = available records after"
  by (cases after) (simp_all add: available_def from_cursor_def Suc_le_eq)

lemma page_events_eq: "pg_events (retained_event_page ev run after limit) = take limit (available (re_records ev) after)"
  by (simp add: retained_event_page_def Let_def matching_available)

lemma page_next_eq:
  "pg_next_after_sequence (retained_event_page ev run after limit) =
     (if take limit (available (re_records ev) after) = [] then after
      else Some (er_sequence (last (take limit (available (re_records ev) after)))))"
  by (simp add: retained_event_page_def Let_def matching_available)

lemma available_sorted:
  assumes "window_ok run records"
  shows "sorted_wrt (<) (map er_sequence (available records after))"
proof -
  have "sorted_wrt (<) (map er_sequence records)" using assms by (simp add: window_ok_def)
  then show ?thesis by (simp add: available_def sorted_wrt_map sorted_wrt_filter)
qed

lemma filter_after_take:
  fixes f :: "'a \<Rightarrow> nat"
  assumes "sorted_wrt (<) (map f xs)" and "take n xs \<noteq> []"
  shows "filter (\<lambda>x. f (last (take n xs)) < f x) xs = drop n xs"
proof -
  have split: "sorted_wrt (<) (map f (take n xs) @ map f (drop n xs))" using assms(1) by (metis append_take_drop_id map_append)
  have "last (take n xs) \<in> set (take n xs)" using assms(2) by (rule last_in_set)
  then have "\<forall>x\<in>set (drop n xs). f (last (take n xs)) < f x" using split by (auto simp: sorted_wrt_append)
  moreover have "\<forall>x\<in>set (take n xs). \<not> f (last (take n xs)) < f x"
  proof -
    obtain ys y where ys: "take n xs = ys @ [y]" using assms(2) by (cases "take n xs" rule: rev_cases) auto
    have "sorted_wrt (<) (map f (take n xs))" using split by (simp add: sorted_wrt_append)
    then show ?thesis unfolding ys by (auto simp: sorted_wrt_append dest: less_asym)
  qed
  ultimately have "filter (\<lambda>x. f (last (take n xs)) < f x) (take n xs @ drop n xs) = drop n xs"
    unfolding filter_append by (simp add: filter_empty_conv filter_id_conv)
  then show ?thesis by simp
qed

lemma next_page_continues:
  fixes after :: "nat option" and limit :: nat
  assumes "window_ok run (re_records ev)"
  defines "after' \<equiv> pg_next_after_sequence (retained_event_page ev run after limit)"
  shows "available (re_records ev) after' = drop limit (available (re_records ev) after)"
proof (cases "take limit (available (re_records ev) after) = []")
  case True
  then have "after' = after" by (simp add: after'_def page_next_eq)
  then show ?thesis using True by (metis append_take_drop_id append_Nil)
next
  case False
  let ?a = "available (re_records ev) after"
  have cursor: "after' = Some (er_sequence (last (take limit ?a)))"
    using False by (simp add: after'_def page_next_eq)
  have "last (take limit ?a) \<in> set ?a" using False last_in_set in_set_takeD by metis
  then have beyond: "from_cursor after \<le> er_sequence (last (take limit ?a))" by (simp add: available_def)
  define m where "m = er_sequence (last (take limit ?a))"
  have "available (re_records ev) after' = filter (\<lambda>r. m < er_sequence r) (re_records ev)"
    by (simp add: cursor available_def [of _ "Some _"] from_cursor_def [of "Some _"] Suc_le_eq m_def)
  also have "\<dots> = filter (\<lambda>r. m < er_sequence r) ?a"
    unfolding available_def filter_filter using beyond by (intro filter_cong) (auto simp: m_def)
  finally have "available (re_records ev) after' = filter (\<lambda>r. er_sequence (last (take limit ?a)) < er_sequence r) ?a"
    by (simp add: m_def)
  then show ?thesis using filter_after_take [OF available_sorted [OF assms(1)] False] by simp
qed

text \<open>The retained sequence numbers are an interval that ends with the last event.\<close>

lemma window_numbers:
  "window_ok run records \<Longrightarrow> er_sequence ` set records = {rs_event_count run - length records..<rs_event_count run}"
  by (metis atLeastLessThan_upt list.set_map window_ok_def)

lemma gap_is_loss:
  assumes "window_ok run (re_records ev)"
  shows "pg_retention_gap (retained_event_page ev run after limit)
    \<longleftrightarrow> (\<exists>n. from_cursor after \<le> n \<and> n < rs_event_count run \<and> n \<notin> er_sequence ` set (re_records ev))"
proof (cases "re_records ev")
  case Nil
  then show ?thesis by (auto simp: retained_event_page_def from_cursor_def Let_def)
next
  case (Cons r rs)
  let ?lo = "rs_event_count run - length (re_records ev)"
  have "map er_sequence (re_records ev) = [?lo..<rs_event_count run]" using assms by (simp add: window_ok_def)
  then have "[?lo..<rs_event_count run] = er_sequence r # map er_sequence rs" using Cons by simp
  then have first: "er_sequence r = ?lo" "?lo < rs_event_count run" unfolding upt_eq_Cons_conv by simp_all
  have "pg_retention_gap (retained_event_page ev run after limit) \<longleftrightarrow> from_cursor after < rs_event_count run \<and> from_cursor after < ?lo"
    using Cons first by (auto simp: retained_event_page_def from_cursor_def Let_def)
  also have "\<dots> \<longleftrightarrow> (\<exists>n. from_cursor after \<le> n \<and> n < rs_event_count run \<and> n \<notin> {?lo..<rs_event_count run})"
    using first(2) by auto
  finally show ?thesis by (simp add: window_numbers [OF assms])
qed

text \<open>C31. Event pages tell the truth.  In every reachable store the page after a cursor holds the first \<open>limit\<close> retained events beyond
  the cursor, in order; it reports a retention gap exactly if some event beyond the cursor has been recorded and is no
  longer retained, and more events exactly if the limit cut some off; and the page at the cursor it hands out
  continues it, so that reading on neither skips nor repeats a retained event.\<close>

theorem event_pages_tell_the_truth:
  assumes "store_reachable encoded invalid s" and "run_snapshot_of s k = Some run"
    and "event_page s k after limit = Some page"
  shows "pg_events page = take limit (available (run_events s k) after)
    \<and> (pg_retention_gap page \<longleftrightarrow>
        (\<exists>n. from_cursor after \<le> n \<and> n < rs_event_count run \<and> n \<notin> er_sequence ` set (run_events s k)))
    \<and> (pg_has_more page \<longleftrightarrow> limit < length (available (run_events s k) after))
    \<and> (\<exists>page'. event_page s k (pg_next_after_sequence page) limit' = Some page'
        \<and> pg_events page @ pg_events page' = take (limit + limit') (available (run_events s k) after))"
proof -
  have s: "store_ok s" by (rule reachable_store_ok [OF assms(1)])
  obtain ev where ev: "map_of (sto_events s) k = Some ev" and page: "page = retained_event_page ev run after limit"
    using assms(2,3) by (auto simp: event_page_def event_observation_def run_snapshot_of_def split: option.splits)
  have run: "map_of (sto_runs s) k = Some run" "run_events s k = re_records ev"
    using assms(2) ev by (simp_all add: run_snapshot_of_def run_events_def)
  have window: "window_ok run (re_records ev)" using s ev run by (auto simp: store_ok_def windows_ok_def)
  have "pg_has_more page \<longleftrightarrow> limit < length (available (run_events s k) after)"
    unfolding page run(2) by (auto simp: retained_event_page_def Let_def matching_available)
  moreover have "event_page s k (pg_next_after_sequence page) limit' = Some (retained_event_page ev run (pg_next_after_sequence page) limit')"
    using ev run by (simp add: event_page_def event_observation_def)
  moreover have "pg_events page @ pg_events (retained_event_page ev run (pg_next_after_sequence page) limit')
      = take (limit + limit') (available (run_events s k) after)"
    unfolding page page_events_eq next_page_continues [OF window] run(2) by (simp add: take_add)
  ultimately show ?thesis
    using gap_is_loss [OF window, of after limit] page_events_eq [of ev run after limit] unfolding page run(2) by blast
qed

theorem event_pages_tell_the_truth_witness:
  "\<exists>run page. run_snapshot_of sample_store ''r1'' = Some run \<and> event_page sample_store ''r1'' None 2 = Some page
    \<and> pg_events page = take 2 (available (run_events sample_store ''r1'') None)
    \<and> (pg_retention_gap page \<longleftrightarrow>
        (\<exists>n. from_cursor None \<le> n \<and> n < rs_event_count run \<and> n \<notin> er_sequence ` set (run_events sample_store ''r1'')))"
proof -
  have "run_snapshot_of sample_store ''r1'' \<noteq> None" "event_page sample_store ''r1'' None 2 \<noteq> None" by code_simp+
  then obtain run page where "run_snapshot_of sample_store ''r1'' = Some run" "event_page sample_store ''r1'' None 2 = Some page" by auto
  then show ?thesis using event_pages_tell_the_truth [OF sample_reachable] by blast
qed

subsection \<open>What is settled stays settled\<close>

text \<open>From one snapshot of a run to a later one.\<close>

definition run_advances :: "run_snapshot \<Rightarrow> run_snapshot \<Rightarrow> bool" where
  "run_advances run run' \<longleftrightarrow>
     rs_id run' = rs_id run \<and> rs_session_id run' = rs_session_id run \<and> rs_created_at_ms run' = rs_created_at_ms run
     \<and> rs_event_count run \<le> rs_event_count run' \<and> rs_updated_at_ms run \<le> rs_updated_at_ms run'
     \<and> (run_is_terminal (rs_status run) \<longrightarrow>
          rs_status run' = rs_status run \<and> rs_result_text run' = rs_result_text run \<and> rs_error run' = rs_error run)
     \<and> (rs_cognitive_package_binding run \<noteq> None \<longrightarrow> rs_cognitive_package_binding run' = rs_cognitive_package_binding run)
     \<and> (rs_capability_binding run \<noteq> None \<longrightarrow> rs_capability_binding run' = rs_capability_binding run)
     \<and> (rs_event_count run \<noteq> 0 \<or> rs_status run \<noteq> RunCreated \<longrightarrow>
          rs_cognitive_package_binding run' = rs_cognitive_package_binding run \<and> rs_capability_binding run' = rs_capability_binding run
          \<and> (rs_event_count run' \<noteq> 0 \<or> rs_status run' \<noteq> RunCreated))
     \<and> (rs_workspace_change_set run \<noteq> None \<longrightarrow> rs_workspace_change_set run' = rs_workspace_change_set run)"

lemma advances_refl [simp]: "run_advances run run"
  by (simp add: run_advances_def)







lemma insert_run_caps [simp]: "sto_max_runs (insert_run snap s) = sto_max_runs s"
  by (simp add: insert_run_def)





subsection \<open>Saved records\<close>

text \<open>Saving and restoring are inverse: a store without a byte cap that is given back the records it saved saves the same records
  again, in the same order with the same snapshots and events, provided the creation times follow the order in which
  the runs were created, since restoring sorts by them.\<close>

theorem restoring_gives_back_the_records:
  assumes "store_reachable encoded invalid s" and "sto_max_event_bytes_per_run s = None"
    and "sorted (map (\<lambda>r. rs_created_at_ms (rr_snapshot r)) (store_records s))"
  shows "store_records (replace_records encoded (store_records s) s) = store_records s"
proof -
  define rs where "rs = store_records s"
  define t where "t = replace_records encoded rs s"
  have s: "store_ok s" by (rule reachable_store_ok [OF assms(1)])
  have rs: "records_ok rs" unfolding rs_def by (rule store_records_ok [OF s])
  then have ids: "distinct (map (\<lambda>r. rs_id (rr_snapshot r)) rs)" by (simp add: records_ok_def)
  have ordered: "sort_key (\<lambda>r. rs_created_at_ms (rr_snapshot r)) rs = rs"
    using assms(3) by (simp add: rs_def sort_key_id_if_sorted)
  have "length rs = length (sto_insertion_order s)" by (simp add: rs_def store_records_map [OF s])
  then have kept: "(case sto_max_runs s of None \<Rightarrow> rs | Some cap \<Rightarrow> drop (length rs - cap) rs) = rs"
    using s by (simp add: store_ok_def runs_bounded_def split: option.split)
  have eq: "t = s\<lparr>sto_runs := map (\<lambda>r. (rs_id (rr_snapshot r), rr_snapshot r)) rs,
        sto_events := map (\<lambda>r. (rs_id (rr_snapshot r), restored_events encoded s r)) rs,
        sto_insertion_order := map (\<lambda>r. rs_id (rr_snapshot r)) rs\<rparr>"
    unfolding t_def replace_records_eq(1) [OF ids, of encoded s] ordered kept by (rule refl)
  have entry: "\<lparr>rr_snapshot = the (map_of (sto_runs t) (rs_id (rr_snapshot r))), rr_events = run_events t (rs_id (rr_snapshot r))\<rparr> = r"
    if r: "r \<in> set rs" for r
  proof -
    have "map_of (sto_runs t) (rs_id (rr_snapshot r)) = Some (rr_snapshot r)"
      "map_of (sto_events t) (rs_id (rr_snapshot r)) = Some (restored_events encoded s r)"
      unfolding eq using r by (auto simp: map_of_keyed [OF ids])
    moreover have "re_records (restored_events encoded s r) = rr_events r"
    proof -
      obtain k where k: "k \<in> set (sto_insertion_order s)" and rk: "r = \<lparr>rr_snapshot = the (map_of (sto_runs s) k), rr_events = run_events s k\<rparr>"
        using r unfolding rs_def store_records_map [OF s] by auto
      obtain run ev where "map_of (sto_runs s) k = Some run" "map_of (sto_events s) k = Some ev" "run_events s k = re_records ev"
        by (rule known_run [OF s k])
      then have "\<forall>cap. sto_max_events_per_run s = Some cap \<longrightarrow> length (rr_events r) \<le> cap"
        using s rk by (auto simp: store_ok_def windows_ok_def)
      then show ?thesis unfolding restored_events_def assms(2) by (subst trim_unlimited) simp_all
    qed
    ultimately show ?thesis by (simp add: run_events_def)
  qed
  have "store_records t = map (\<lambda>r. \<lparr>rr_snapshot = the (map_of (sto_runs t) (rs_id (rr_snapshot r))), rr_events = run_events t (rs_id (rr_snapshot r))\<rparr>) rs"
    unfolding store_records_map [OF replace_ok [OF rs, of encoded s, folded t_def]] by (simp add: eq comp_def)
  also have "\<dots> = rs" by (rule map_idI) (rule entry)
  finally show ?thesis by (simp add: t_def rs_def)
qed

theorem restoring_gives_back_the_records_witness:
  "store_records (replace_records sample_len (store_records sample_store) sample_store) = store_records sample_store
   \<and> length (store_records sample_store) = 1"
proof -
  have "sto_max_event_bytes_per_run sample_store = None" "length (store_records sample_store) = 1"
    "sorted (map (\<lambda>r. rs_created_at_ms (rr_snapshot r)) (store_records sample_store))"
    by code_simp+
  then show ?thesis using restoring_gives_back_the_records [OF sample_reachable] by blast
qed

text \<open>When the clock went back between two runs, a restored store forgets the wrong one first.\<close>

lemma restored_order_follows_the_clock:
  "(let s = fold (store_step sample_len (\<lambda>_. None)) [CreateRun 9 ''a'' ''s'' '''', CreateRun 5 ''b'' ''s'' '''']
        (with_retention_limits (Some 2) None None)
    in (map rs_id (list_runs (snd (create_run_with_id 10 ''c'' ''s'' '''' s))),
        map rs_id (list_runs (snd (create_run_with_id 10 ''c'' ''s'' '''' (replace_records sample_len (store_records s) s)))))
       = ([''b'', ''c''], [''a'', ''c'']))"
  by code_simp

text \<open>A page with limit zero keeps promising more without moving its cursor.\<close>

lemma empty_page_makes_no_progress:
  "map_option (\<lambda>p. (pg_events p, pg_next_after_sequence p, pg_has_more p)) (event_page sample_store ''r1'' (Some 1) 0)
   = Some ([], Some 1, True)"
  by code_simp

end
