(* ===== verification/Confirmations.thy ===== *)
theory Confirmations
  imports PermissionPolicies "HOL-Library.AList" "HOL-Library.Char_ord" "HOL-Library.List_Lexorder"
begin

section \<open>Confirmations by the host\<close>

text \<open>
  \<^verbatim>\<open>core/src/hitl.rs\<close>, the delegated provider of \<^verbatim>\<open>core/src/child_run.rs\<close> and the protocol of \<^verbatim>\<open>core/src/tool_confirmation.rs\<close>: a
  tool call that needs confirmation is parked under its id until the host answers.

  A provider is a tree that never changes after it is built, its nodes carry the address of their \<^verbatim>\<open>Arc\<close>, so
  \<^verbatim>\<open>Arc::ptr_eq\<close> is equality of addresses.  What the nodes mutate lies in the record \<open>desk\<close>: the managers by address, the
  ids a delegated provider has forwarded, by address, and the answers of the one-shot channels, by channel.  A call of a
  provider is one step.  A permission checker is its \<^verbatim>\<open>check\<close>.  Times are in milliseconds of a monotone clock.
\<close>

subsection \<open>Policies, requests and answers\<close>

datatype timeout_action = RejectOnTimeout | AutoApproveOnTimeout

record confirmation_policy =
  cp_enabled :: bool
  cp_default_timeout_ms :: int
  cp_timeout_action :: timeout_action
  cp_yolo_lanes :: "session_lane list"

definition confirmation_policy_default :: confirmation_policy where
  "confirmation_policy_default =
     \<lparr>cp_enabled = False, cp_default_timeout_ms = 30000, cp_timeout_action = RejectOnTimeout, cp_yolo_lanes = []\<rparr>"

definition confirmation_policy_enabled :: confirmation_policy where
  "confirmation_policy_enabled = confirmation_policy_default\<lparr>cp_enabled := True\<rparr>"

definition with_yolo_lanes :: "session_lane list \<Rightarrow> confirmation_policy \<Rightarrow> confirmation_policy" where
  "with_yolo_lanes lanes p = p\<lparr>cp_yolo_lanes := remdups lanes\<rparr>"

definition with_timeout :: "int \<Rightarrow> timeout_action \<Rightarrow> confirmation_policy \<Rightarrow> confirmation_policy" where
  "with_timeout timeout_ms action p = p\<lparr>cp_default_timeout_ms := timeout_ms, cp_timeout_action := action\<rparr>"

definition is_yolo :: "confirmation_policy \<Rightarrow> str \<Rightarrow> bool" where
  "is_yolo p tool_name = False"

definition policy_requires_confirmation :: "confirmation_policy \<Rightarrow> str \<Rightarrow> bool" where
  "policy_requires_confirmation p tool_name = cp_enabled p"

record confirmation_response =
  cr_approved :: bool
  cr_reason :: "str option"

record pending_confirmation =
  pc_tool_id :: str
  pc_tool_name :: str
  pc_args :: json
  pc_created_at :: int
  pc_timeout_ms :: int
  pc_response_tx :: nat

record pending_confirmation_info =
  pi_tool_id :: str
  pi_tool_name :: str
  pi_args :: json
  pi_remaining_ms :: int

definition is_timed_out :: "int \<Rightarrow> pending_confirmation \<Rightarrow> bool" where
  "is_timed_out now p = (now - pc_created_at p > pc_timeout_ms p)"

definition remaining_ms :: "int \<Rightarrow> pending_confirmation \<Rightarrow> int" where
  "remaining_ms now p = max (pc_timeout_ms p - (now - pc_created_at p)) 0"

datatype host_event =
    ConfirmationRequired str str json int
  | ConfirmationReceived str bool "str option"
  | ConfirmationTimeout str str
  | PermissionDenied str str json str
  | ToolExecutionStart str str json
  | ToolRequestBound str str json
  | BudgetThresholdHit str str
  | ToolEnd str str json str

record confirmation_manager =
  cm_policy :: confirmation_policy
  cm_pending :: "(str \<times> pending_confirmation) list"
  cm_events :: "host_event list"

text \<open>What a receiver finds in its channel: an answer, or that the sender is gone.\<close>

datatype channel_reply = Replied confirmation_response | SenderDropped

record desk =
  dk_managers :: "nat \<Rightarrow> confirmation_manager"
  dk_forwarded :: "nat \<Rightarrow> str list"
  dk_replies :: "nat \<Rightarrow> channel_reply option"
  dk_next_channel :: nat

datatype receiver = FromChannel nat | Immediate confirmation_response | AllOf "receiver list"

definition confirmation_manager_new :: "confirmation_policy \<Rightarrow> confirmation_manager" where
  "confirmation_manager_new policy = \<lparr>cm_policy = policy, cm_pending = [], cm_events = []\<rparr>"

definition update_manager :: "nat \<Rightarrow> (confirmation_manager \<Rightarrow> confirmation_manager) \<Rightarrow> desk \<Rightarrow> desk" where
  "update_manager a f d = d\<lparr>dk_managers := (dk_managers d)(a := f (dk_managers d a))\<rparr>"

definition send_reply :: "nat \<Rightarrow> confirmation_response \<Rightarrow> desk \<Rightarrow> desk" where
  "send_reply c r d = d\<lparr>dk_replies := (dk_replies d)(c \<mapsto> Replied r)\<rparr>"

definition emit_to_host :: "host_event \<Rightarrow> confirmation_manager \<Rightarrow> confirmation_manager" where
  "emit_to_host e m = m\<lparr>cm_events := cm_events m @ [e]\<rparr>"

subsection \<open>The manager of a session\<close>

definition duplicate_reason :: "str \<Rightarrow> str" where
  "duplicate_reason tool_id = ''Duplicate confirmation tool id '' @ [CHR 0x27] @ tool_id @ [CHR 0x27] @ ''; both requests were rejected''"

definition manager_request :: "int \<Rightarrow> nat \<Rightarrow> str \<Rightarrow> str \<Rightarrow> json \<Rightarrow> desk \<Rightarrow> receiver \<times> desk" where
  "manager_request now a tool_id tool_name args d =
     (let c = dk_next_channel d;
          timeout_ms = cp_default_timeout_ms (cm_policy (dk_managers d a));
          pending = \<lparr>pc_tool_id = tool_id, pc_tool_name = tool_name, pc_args = args, pc_created_at = now,
            pc_timeout_ms = timeout_ms, pc_response_tx = c\<rparr>;
          d = d\<lparr>dk_next_channel := Suc c\<rparr>
      in (FromChannel c,
          (case map_of (cm_pending (dk_managers d a)) tool_id of
             None \<Rightarrow>
               update_manager a (\<lambda>m. emit_to_host (ConfirmationRequired tool_id tool_name args timeout_ms)
                 (m\<lparr>cm_pending := AList.update tool_id pending (cm_pending m)\<rparr>)) d
           | Some existing \<Rightarrow>
               (let reason = Some (duplicate_reason tool_id);
                    response = \<lparr>cr_approved = False, cr_reason = reason\<rparr>;
                    d = update_manager a (\<lambda>m. m\<lparr>cm_pending := AList.delete tool_id (cm_pending m)\<rparr>) d
                in update_manager a (emit_to_host (ConfirmationReceived tool_id False reason))
                     (send_reply (pc_response_tx pending) response (send_reply (pc_response_tx existing) response d))))))"

definition manager_confirm :: "nat \<Rightarrow> str \<Rightarrow> bool \<Rightarrow> str option \<Rightarrow> desk \<Rightarrow> bool \<times> desk" where
  "manager_confirm a tool_id approved reason d =
     (case map_of (cm_pending (dk_managers d a)) tool_id of
        None \<Rightarrow> (False, d)
      | Some confirmation \<Rightarrow>
          (True, send_reply (pc_response_tx confirmation) \<lparr>cr_approved = approved, cr_reason = reason\<rparr>
             (update_manager a (\<lambda>m. emit_to_host (ConfirmationReceived tool_id approved reason)
               (m\<lparr>cm_pending := AList.delete tool_id (cm_pending m)\<rparr>)) d)))"

definition cancelled_response :: confirmation_response where
  "cancelled_response = \<lparr>cr_approved = False, cr_reason = Some ''Confirmation cancelled''\<rparr>"

definition manager_cancel :: "nat \<Rightarrow> str \<Rightarrow> desk \<Rightarrow> bool \<times> desk" where
  "manager_cancel a tool_id d =
     (case map_of (cm_pending (dk_managers d a)) tool_id of
        None \<Rightarrow> (False, d)
      | Some confirmation \<Rightarrow>
          (True, send_reply (pc_response_tx confirmation) cancelled_response
             (update_manager a (\<lambda>m. m\<lparr>cm_pending := AList.delete tool_id (cm_pending m)\<rparr>) d)))"

definition manager_cancel_all :: "nat \<Rightarrow> desk \<Rightarrow> nat \<times> desk" where
  "manager_cancel_all a d =
     (let pending_list = cm_pending (dk_managers d a)
      in (length pending_list,
          fold (\<lambda>(_, confirmation). send_reply (pc_response_tx confirmation) cancelled_response) pending_list
            (update_manager a (\<lambda>m. m\<lparr>cm_pending := []\<rparr>) d)))"

definition manager_pending_count :: "nat \<Rightarrow> desk \<Rightarrow> nat" where
  "manager_pending_count a d = length (cm_pending (dk_managers d a))"

definition manager_pending_confirmations :: "int \<Rightarrow> nat \<Rightarrow> desk \<Rightarrow> (str \<times> str \<times> int) list" where
  "manager_pending_confirmations now a d =
     map (\<lambda>(_, p). (pc_tool_id p, pc_tool_name p, remaining_ms now p)) (cm_pending (dk_managers d a))"

definition pending_confirmation_details :: "int \<Rightarrow> nat \<Rightarrow> desk \<Rightarrow> pending_confirmation_info list" where
  "pending_confirmation_details now a d =
     map (\<lambda>(_, p). \<lparr>pi_tool_id = pc_tool_id p, pi_tool_name = pc_tool_name p, pi_args = pc_args p,
            pi_remaining_ms = remaining_ms now p\<rparr>) (cm_pending (dk_managers d a))"

subsection \<open>Providers\<close>

type_synonym checker = "str \<Rightarrow> json \<Rightarrow> decision"

text \<open>The fields of the delegated node: its own checker and provider, then those of the parent.\<close>

datatype provider =
    Manager nat
  | AutoApprove nat
  | Delegated nat "checker option" "provider option" "checker option" "provider option"

fun provider_addr :: "provider \<Rightarrow> nat" where
  "provider_addr (Manager a) = a"
| "provider_addr (AutoApprove a) = a"
| "provider_addr (Delegated a _ _ _ _) = a"

definition ptr_eq :: "provider \<Rightarrow> provider \<Rightarrow> bool" where
  "ptr_eq p q = (provider_addr p = provider_addr q)"

record confirmation_targets =
  ct_providers :: "provider list"
  ct_missing_scopes :: "str list"
  ct_permission_denied :: bool

definition targets_default :: confirmation_targets where
  "targets_default = \<lparr>ct_providers = [], ct_missing_scopes = [], ct_permission_denied = False\<rparr>"

definition add_provider :: "provider \<Rightarrow> provider list \<Rightarrow> provider list" where
  "add_provider p ps = (if list_ex (\<lambda>q. ptr_eq q p) ps then ps else ps @ [p])"

definition targets_add :: "str \<Rightarrow> provider option \<Rightarrow> confirmation_targets \<Rightarrow> confirmation_targets" where
  "targets_add scope provider t =
     (case provider of
        None \<Rightarrow> (if scope \<in> set (ct_missing_scopes t) then t else t\<lparr>ct_missing_scopes := ct_missing_scopes t @ [scope]\<rparr>)
      | Some p \<Rightarrow> t\<lparr>ct_providers := add_provider p (ct_providers t)\<rparr>)"

definition is_available :: "confirmation_targets \<Rightarrow> bool" where
  "is_available t = (\<not> ct_permission_denied t \<and> ct_missing_scopes t = [])"

definition delegated_targets ::
    "checker option \<Rightarrow> provider option \<Rightarrow> checker option \<Rightarrow> provider option \<Rightarrow> str \<Rightarrow> json \<Rightarrow> confirmation_targets" where
  "delegated_targets child_checker child parent_checker parent tool_name args =
     (let child_decision = map_option (\<lambda>check. check tool_name args) child_checker;
          parent_decision = map_option (\<lambda>check. check tool_name args) parent_checker
      in if child_decision = Some Deny \<or> parent_decision = Some Deny
         then targets_default\<lparr>ct_permission_denied := True\<rparr>
         else (let child_asks = (child_decision = Some Ask); parent_asks = (parent_decision = Some Ask);
                   t = targets_default;
                   t = (if child_asks then targets_add ''child'' child t else t);
                   t = (if parent_asks then targets_add ''parent'' parent t else t)
               in if \<not> child_asks \<and> \<not> parent_asks
                  then (if child_decision = None \<and> parent_decision = None then targets_add ''child'' child t
                        else targets_add ''parent'' parent t)
                  else t))"

definition all_providers :: "provider option \<Rightarrow> provider option \<Rightarrow> provider list" where
  "all_providers child parent = fold add_provider (List.map_filter id [child, parent]) []"

definition same_as_child :: "provider option \<Rightarrow> provider \<Rightarrow> bool" where
  "same_as_child child parent = (case child of None \<Rightarrow> False | Some c \<Rightarrow> ptr_eq c parent)"

lemma targets_add_providers:
  "p \<in> set (ct_providers (targets_add scope q t)) \<Longrightarrow> p \<in> set (ct_providers t) \<or> q = Some p"
  by (auto simp: targets_add_def add_provider_def split: option.splits if_splits)

lemma delegated_targets_providers:
  "p \<in> set (ct_providers (delegated_targets cc child pc parent tool_name args)) \<Longrightarrow> child = Some p \<or> parent = Some p"
  by (auto simp: delegated_targets_def Let_def targets_default_def split: if_splits dest!: targets_add_providers)

lemma all_providers_members: "p \<in> set (all_providers child parent) \<Longrightarrow> child = Some p \<or> parent = Some p"
  by (auto simp: all_providers_def add_provider_def List.map_filter_def split: if_splits option.splits)

lemma size_child [termination_simp]:
  "p \<in> set (ct_providers (delegated_targets cc child pc parent tool_name args))
    \<Longrightarrow> size p < Suc (size_option size child + size_option size parent)"
  "p \<in> set (all_providers child parent) \<Longrightarrow> size p < Suc (size_option size child + size_option size parent)"
  by (auto dest!: delegated_targets_providers all_providers_members)

subsection \<open>Questions to a provider\<close>

fun provider_requires_confirmation :: "desk \<Rightarrow> provider \<Rightarrow> str \<Rightarrow> bool" where
  "provider_requires_confirmation d (Manager a) tool_name = policy_requires_confirmation (cm_policy (dk_managers d a)) tool_name"
| "provider_requires_confirmation d (AutoApprove a) tool_name = False"
| "provider_requires_confirmation d (Delegated a cc child pc parent) tool_name =
     (list_ex (\<lambda>p. provider_requires_confirmation d p tool_name) (all_providers child parent) \<or> all_providers child parent = [])"

fun requires_confirmation_for :: "desk \<Rightarrow> provider \<Rightarrow> str \<Rightarrow> json \<Rightarrow> bool" where
  "requires_confirmation_for d (Manager a) tool_name args = provider_requires_confirmation d (Manager a) tool_name"
| "requires_confirmation_for d (AutoApprove a) tool_name args = provider_requires_confirmation d (AutoApprove a) tool_name"
| "requires_confirmation_for d (Delegated a cc child pc parent) tool_name args =
     (\<not> is_available (delegated_targets cc child pc parent tool_name args)
      \<or> list_ex (\<lambda>p. requires_confirmation_for d p tool_name args)
           (ct_providers (delegated_targets cc child pc parent tool_name args)))"

definition active_providers ::
    "desk \<Rightarrow> checker option \<Rightarrow> provider option \<Rightarrow> checker option \<Rightarrow> provider option \<Rightarrow> str \<Rightarrow> json \<Rightarrow> confirmation_targets" where
  "active_providers d cc child pc parent tool_name args =
     (let t = delegated_targets cc child pc parent tool_name args
      in if \<not> is_available t then t
         else t\<lparr>ct_providers := filter (\<lambda>p. requires_confirmation_for d p tool_name args) (ct_providers t)\<rparr>)"

definition confirmation_available_for :: "provider \<Rightarrow> str \<Rightarrow> json \<Rightarrow> bool" where
  "confirmation_available_for p tool_name args =
     (case p of Delegated a cc child pc parent \<Rightarrow> is_available (delegated_targets cc child pc parent tool_name args) | _ \<Rightarrow> True)"

definition stricter_policy :: "confirmation_policy \<Rightarrow> confirmation_policy \<Rightarrow> confirmation_policy" where
  "stricter_policy policy combined =
     combined\<lparr>cp_enabled := cp_enabled combined \<or> cp_enabled policy,
       cp_default_timeout_ms := min (cp_default_timeout_ms combined) (cp_default_timeout_ms policy),
       cp_timeout_action := (if cp_timeout_action policy = RejectOnTimeout then RejectOnTimeout else cp_timeout_action combined),
       cp_yolo_lanes := filter (\<lambda>lane. lane \<in> set (cp_yolo_lanes policy)) (cp_yolo_lanes combined)\<rparr>"

definition combine_confirmation_policies :: "confirmation_policy list \<Rightarrow> confirmation_policy" where
  "combine_confirmation_policies policies =
     (case policies of [] \<Rightarrow> confirmation_policy_enabled | p # ps \<Rightarrow> fold stricter_policy ps p)"

fun provider_policy :: "desk \<Rightarrow> provider \<Rightarrow> confirmation_policy" where
  "provider_policy d (Manager a) = cm_policy (dk_managers d a)"
| "provider_policy d (AutoApprove a) = confirmation_policy_default\<lparr>cp_enabled := False\<rparr>"
| "provider_policy d (Delegated a cc child pc parent) =
     combine_confirmation_policies (map (provider_policy d) (all_providers child parent))"

definition policy_for :: "desk \<Rightarrow> provider \<Rightarrow> str \<Rightarrow> json \<Rightarrow> confirmation_policy" where
  "policy_for d p tool_name args =
     (case p of
        Delegated a cc child pc parent \<Rightarrow>
          (let t = active_providers d cc child pc parent tool_name args
           in if \<not> is_available t then confirmation_policy_enabled
              else combine_confirmation_policies (map (provider_policy d) (ct_providers t)))
      | _ \<Rightarrow> provider_policy d p)"

subsection \<open>Requests\<close>

definition remember_parent_forward :: "nat \<Rightarrow> provider option \<Rightarrow> provider option \<Rightarrow> str \<Rightarrow> provider list \<Rightarrow> desk \<Rightarrow> desk" where
  "remember_parent_forward a child parent tool_id targets d =
     (case parent of
        None \<Rightarrow> d
      | Some p \<Rightarrow>
          (if same_as_child child p then d
           else if list_ex (\<lambda>q. ptr_eq q p) targets
                then d\<lparr>dk_forwarded := (dk_forwarded d)(a := List.insert tool_id (dk_forwarded d a))\<rparr>
                else d))"

definition take_parent_forward :: "nat \<Rightarrow> str \<Rightarrow> desk \<Rightarrow> bool \<times> desk" where
  "take_parent_forward a tool_id d =
     (tool_id \<in> set (dk_forwarded d a), d\<lparr>dk_forwarded := (dk_forwarded d)(a := removeAll tool_id (dk_forwarded d a))\<rparr>)"

definition drain_parent_forwards :: "nat \<Rightarrow> desk \<Rightarrow> str list \<times> desk" where
  "drain_parent_forwards a d = (dk_forwarded d a, d\<lparr>dk_forwarded := (dk_forwarded d)(a := [])\<rparr>)"

definition unavailable_response :: "str list \<Rightarrow> confirmation_response" where
  "unavailable_response missing_scopes =
     (let scopes = (if missing_scopes = [] then ''delegated permission boundary'' else join '' and '' missing_scopes)
      in \<lparr>cr_approved = False,
          cr_reason = Some (''Confirmation is unavailable for the '' @ scopes @ '' scope; execution was denied.'')\<rparr>)"

text \<open>The receivers of the active providers, asked in turn.\<close>

definition ask_in_turn :: "(provider \<Rightarrow> desk \<Rightarrow> receiver \<times> desk) \<Rightarrow> provider list \<Rightarrow> desk \<Rightarrow> receiver list \<times> desk" where
  "ask_in_turn request ps d = fold (\<lambda>p (rs, d). let (r, d) = request p d in (rs @ [r], d)) ps ([], d)"

lemma ask_in_turn_cong [fundef_cong]:
  assumes "ps = ps'" and "d = d'" and "\<And>p d. p \<in> set ps' \<Longrightarrow> f p d = g p d"
  shows "ask_in_turn f ps d = ask_in_turn g ps' d'"
  unfolding ask_in_turn_def assms(1,2) by (rule fold_cong) (auto simp: assms(3))

lemma size_active [termination_simp]:
  "p \<in> set (ct_providers (active_providers d cc child pc parent tool_name args))
    \<Longrightarrow> size p < Suc (size_option size child + size_option size parent)"
  by (auto simp: active_providers_def Let_def split: if_splits intro: size_child)

fun request_confirmation :: "int \<Rightarrow> str \<Rightarrow> str \<Rightarrow> json \<Rightarrow> provider \<Rightarrow> desk \<Rightarrow> receiver \<times> desk" where
  "request_confirmation now tool_id tool_name args (Manager a) d = manager_request now a tool_id tool_name args d"
| "request_confirmation now tool_id tool_name args (AutoApprove a) d = (Immediate \<lparr>cr_approved = True, cr_reason = None\<rparr>, d)"
| "request_confirmation now tool_id tool_name args (Delegated a cc child pc parent) d =
     (let t = active_providers d cc child pc parent tool_name args
      in if \<not> is_available t then (Immediate (unavailable_response (ct_missing_scopes t)), d)
         else if ct_providers t = [] then (Immediate \<lparr>cr_approved = True, cr_reason = None\<rparr>, d)
         else (let (receivers, d') = ask_in_turn (\<lambda>p. request_confirmation now tool_id tool_name args p)
                     (ct_providers (active_providers d cc child pc parent tool_name args))
                     (remember_parent_forward a child parent tool_id (ct_providers t) d)
               in (case receivers of [r] \<Rightarrow> r | _ \<Rightarrow> AllOf receivers, d')))"

subsection \<open>Settling\<close>

text \<open>The manager never fails; the error strings of foreign providers are joined.\<close>

definition note_outcome :: "str + bool \<Rightarrow> bool \<times> str list \<Rightarrow> bool \<times> str list" where
  "note_outcome outcome acc = (case outcome of Inr hit \<Rightarrow> (fst acc \<or> hit, snd acc) | Inl e \<Rightarrow> (fst acc, snd acc @ [e]))"

fun confirm_request :: "str \<Rightarrow> bool \<Rightarrow> str option \<Rightarrow> provider \<Rightarrow> desk \<Rightarrow> (str + bool) \<times> desk" where
  "confirm_request tool_id approved reason (Manager a) d =
     (let (hit, d) = manager_confirm a tool_id approved reason d in (Inr hit, d))"
| "confirm_request tool_id approved reason (AutoApprove a) d = (Inr False, d)"
| "confirm_request tool_id approved reason (Delegated a cc child pc parent) d =
     (let (acc, d) = (case child of
              None \<Rightarrow> ((False, []), d)
            | Some c \<Rightarrow> (let (r, d) = confirm_request tool_id approved reason c d in (note_outcome r (False, []), d)));
          (taken, d) = take_parent_forward a tool_id d;
          (acc, d) = (if taken
              then (case parent of
                  None \<Rightarrow> (acc, d)
                | Some p \<Rightarrow> (let (r, d) = confirm_request tool_id approved reason p d in (note_outcome r acc, d)))
              else (acc, d))
      in (if snd acc = [] then Inr (fst acc) else Inl (join ''; '' (snd acc)), d))"

fun cancel_request :: "str \<Rightarrow> provider \<Rightarrow> desk \<Rightarrow> bool \<times> desk" where
  "cancel_request tool_id (Manager a) d = manager_cancel a tool_id d"
| "cancel_request tool_id (AutoApprove a) d = (False, d)"
| "cancel_request tool_id (Delegated a cc child pc parent) d =
     (let (cancelled, d) = (case child of None \<Rightarrow> (False, d) | Some c \<Rightarrow> cancel_request tool_id c d);
          (taken, d) = take_parent_forward a tool_id d
      in if taken
         then (case parent of
             None \<Rightarrow> (cancelled, d)
           | Some p \<Rightarrow> (let (hit, d) = cancel_request tool_id p d in (cancelled \<or> hit, d)))
         else (cancelled, d))"

text \<open>A timer decides nothing; a delegated provider only forgets that it forwarded the request.\<close>

fun expire_request :: "str \<Rightarrow> timeout_action \<Rightarrow> provider \<Rightarrow> desk \<Rightarrow> bool \<times> desk" where
  "expire_request tool_id action (Manager a) d = (False, d)"
| "expire_request tool_id action (AutoApprove a) d = (False, d)"
| "expire_request tool_id action (Delegated a cc child pc parent) d =
     (let (expired, d) = (case child of None \<Rightarrow> (False, d) | Some c \<Rightarrow> expire_request tool_id action c d);
          (taken, d) = take_parent_forward a tool_id d
      in if taken
         then (case parent of
             None \<Rightarrow> (expired, d)
           | Some p \<Rightarrow> (let (hit, d) = expire_request tool_id action p d in (expired \<or> hit, d)))
         else (expired, d))"

fun check_timeouts :: "provider \<Rightarrow> nat" where
  "check_timeouts (Manager a) = 0"
| "check_timeouts (AutoApprove a) = 0"
| "check_timeouts (Delegated a cc child pc parent) =
     (let timed_out = (case child of None \<Rightarrow> 0 | Some c \<Rightarrow> check_timeouts c)
      in case parent of
           None \<Rightarrow> timed_out
         | Some p \<Rightarrow> (if same_as_child child p then timed_out else timed_out + check_timeouts p))"

fun cancel_all :: "provider \<Rightarrow> desk \<Rightarrow> nat \<times> desk" where
  "cancel_all (Manager a) d = manager_cancel_all a d"
| "cancel_all (AutoApprove a) d = (0, d)"
| "cancel_all (Delegated a cc child pc parent) d =
     (let (cancelled, d) = (case child of None \<Rightarrow> (0, d) | Some c \<Rightarrow> cancel_all c d);
          (forwarded, d) = drain_parent_forwards a d
      in case parent of
           None \<Rightarrow> (cancelled, d)
         | Some p \<Rightarrow>
             (if same_as_child child p then (cancelled, d)
              else fold (\<lambda>tool_id (n, d). let (hit, d) = cancel_request tool_id p d in (if hit then Suc n else n, d))
                     forwarded (cancelled, d)))"

fun set_policy :: "confirmation_policy \<Rightarrow> provider \<Rightarrow> desk \<Rightarrow> desk" where
  "set_policy policy (Manager a) d = update_manager a (\<lambda>m. m\<lparr>cm_policy := policy\<rparr>) d"
| "set_policy policy (AutoApprove a) d = d"
| "set_policy policy (Delegated a cc child pc parent) d = fold (\<lambda>p. set_policy policy p) (all_providers child parent) d"

definition merge_info :: "pending_confirmation_info \<Rightarrow> (str \<times> pending_confirmation_info) list \<Rightarrow> (str \<times> pending_confirmation_info) list" where
  "merge_info info acc =
     (case map_of acc (pi_tool_id info) of
        None \<Rightarrow> AList.update (pi_tool_id info) info acc
      | Some existing \<Rightarrow>
          AList.update (pi_tool_id info) (existing\<lparr>pi_remaining_ms := min (pi_remaining_ms existing) (pi_remaining_ms info)\<rparr>) acc)"

fun pending_confirmations :: "int \<Rightarrow> desk \<Rightarrow> provider \<Rightarrow> pending_confirmation_info list" where
  "pending_confirmations now d (Manager a) = pending_confirmation_details now a d"
| "pending_confirmations now d (AutoApprove a) = []"
| "pending_confirmations now d (Delegated a cc child pc parent) =
     sort_key pi_tool_id (map snd (fold merge_info
       (concat (map (\<lambda>p. pending_confirmations now d p) (all_providers child parent))) []))"

text \<open>Freezing a provider for a run: a delegated node is copied to a fresh address and starts with no forwarded ids; the other
  nodes are shared.  \<open>freeze\<close> is the \<^verbatim>\<open>snapshot_for_run\<close> of a checker.\<close>

fun snapshot_for_run :: "(checker \<Rightarrow> checker) \<Rightarrow> provider \<Rightarrow> nat \<Rightarrow> provider \<times> nat" where
  "snapshot_for_run freeze (Manager a) n = (Manager a, n)"
| "snapshot_for_run freeze (AutoApprove a) n = (AutoApprove a, n)"
| "snapshot_for_run freeze (Delegated a cc child pc parent) n =
     (let (child', n) = (case child of None \<Rightarrow> (None, n) | Some c \<Rightarrow> (let (c', n) = snapshot_for_run freeze c n in (Some c', n)));
          (parent', n) = (case parent of None \<Rightarrow> (None, n) | Some p \<Rightarrow> (let (p', n) = snapshot_for_run freeze p n in (Some p', n)))
      in (Delegated n (map_option freeze cc) child' (map_option freeze pc) parent', Suc n))"

subsection \<open>Waiting for the answer\<close>

definition rejection_of :: "channel_reply \<Rightarrow> str option" where
  "rejection_of r =
     (case r of
        Replied response \<Rightarrow> (if cr_approved response then None
          else Some (case cr_reason response of None \<Rightarrow> ''Confirmation was rejected'' | Some t \<Rightarrow> t))
      | SenderDropped \<Rightarrow> Some ''Confirmation channel closed'')"

definition combined_response :: "channel_reply list \<Rightarrow> confirmation_response" where
  "combined_response replies =
     (let rejection_reasons = List.map_filter rejection_of replies
      in if rejection_reasons = [] then \<lparr>cr_approved = True, cr_reason = None\<rparr>
         else \<lparr>cr_approved = False, cr_reason = Some (join ''; '' rejection_reasons)\<rparr>)"

fun receive :: "desk \<Rightarrow> receiver \<Rightarrow> channel_reply option" where
  "receive d (FromChannel c) = dk_replies d c"
| "receive d (Immediate response) = Some (Replied response)"
| "receive d (AllOf rs) = map_option (\<lambda>replies. Replied (combined_response replies)) (those (map (receive d) rs))"

record confirmation_request =
  cq_tool_id :: str
  cq_tool_name :: str
  cq_args :: json
  cq_timeout_ms :: int
  cq_timeout_action :: timeout_action

datatype confirmation_resolution = Approved | Rejected str

definition quoted_tool :: "str \<Rightarrow> str" where
  "quoted_tool tool_name = ''Tool '' @ [CHR 0x27] @ tool_name @ [CHR 0x27]"

text \<open>The first half of \<^verbatim>\<open>resolve_with_cancellation\<close>: the request, and the event for the host.\<close>

definition resolve_begin :: "int \<Rightarrow> confirmation_request \<Rightarrow> provider \<Rightarrow> desk \<Rightarrow> receiver \<times> host_event list \<times> desk" where
  "resolve_begin now q p d =
     (let (rx, d) = request_confirmation now (cq_tool_id q) (cq_tool_name q) (cq_args q) p d
      in (rx, [ConfirmationRequired (cq_tool_id q) (cq_tool_name q) (cq_args q) (cq_timeout_ms q)], d))"

text \<open>The second half, once the caller has cancelled or the receiver has something; \<open>None\<close> while it still waits.\<close>

definition resolve_end ::
    "confirmation_request \<Rightarrow> provider \<Rightarrow> bool \<Rightarrow> receiver \<Rightarrow> desk \<Rightarrow> (confirmation_resolution \<times> host_event list \<times> desk) option" where
  "resolve_end q p cancelled rx d =
     (if cancelled
      then Some (Rejected (quoted_tool (cq_tool_name q) @ '' cancelled by caller''),
             [ConfirmationReceived (cq_tool_id q) False (Some ''Confirmation cancelled'')],
             snd (cancel_request (cq_tool_id q) p d))
      else (case receive d rx of
          None \<Rightarrow> None
        | Some (Replied response) \<Rightarrow>
            Some (if cr_approved response then Approved
                  else Rejected (quoted_tool (cq_tool_name q) @ '' execution was REJECTED by the user. Reason: ''
                    @ (case cr_reason response of None \<Rightarrow> ''No reason provided'' | Some t \<Rightarrow> t)
                    @ ''. DO NOT retry this tool call unless the user explicitly asks you to.''),
                  [ConfirmationReceived (cq_tool_id q) (cr_approved response) (cr_reason response)], d)
        | Some SenderDropped \<Rightarrow>
            Some (Rejected (quoted_tool (cq_tool_name q) @ '' confirmation failed: confirmation channel closed''),
                  [ConfirmationTimeout (cq_tool_id q) ''rejected''],
                  snd (cancel_request (cq_tool_id q) p d))))"

end
