(* ===== verification/ConfirmationLaws.thy ===== *)
theory ConfirmationLaws
  imports Confirmations
begin

section \<open>Laws of confirmations\<close>

text \<open>
  Every operation of a provider, however deep its tree, is made of a few moves on the desk: a request is parked, bounced
  or settled.  The locales \<open>settling_relation\<close> and \<open>desk_relation\<close> say this once; interpreting them for a relation between desks
  shows that every operation keeps it.
\<close>

abbreviation pending_at :: "desk \<Rightarrow> nat \<Rightarrow> (str \<times> pending_confirmation) list" where
  "pending_at d a \<equiv> cm_pending (dk_managers d a)"

definition same_answers :: "desk \<Rightarrow> desk \<Rightarrow> bool" where
  "same_answers d d' \<longleftrightarrow> (\<forall>a. pending_at d' a = pending_at d a) \<and> dk_replies d' = dk_replies d
     \<and> dk_next_channel d' = dk_next_channel d"

definition settle_entry :: "nat \<Rightarrow> str \<Rightarrow> pending_confirmation \<Rightarrow> confirmation_response \<Rightarrow> desk \<Rightarrow> desk" where
  "settle_entry a k e r d =
     send_reply (pc_response_tx e) r (update_manager a (\<lambda>m. m\<lparr>cm_pending := AList.delete k (cm_pending m)\<rparr>) d)"

definition park_entry :: "nat \<Rightarrow> str \<Rightarrow> pending_confirmation \<Rightarrow> desk \<Rightarrow> desk" where
  "park_entry a k e d =
     update_manager a (\<lambda>m. m\<lparr>cm_pending := AList.update k e (cm_pending m)\<rparr>) (d\<lparr>dk_next_channel := Suc (dk_next_channel d)\<rparr>)"

definition bounce :: "confirmation_response \<Rightarrow> desk \<Rightarrow> desk" where
  "bounce r d = send_reply (dk_next_channel d) r (d\<lparr>dk_next_channel := Suc (dk_next_channel d)\<rparr>)"

lemma same_answersI:
  "(\<And>a. pending_at d' a = pending_at d a) \<Longrightarrow> dk_replies d' = dk_replies d \<Longrightarrow> dk_next_channel d' = dk_next_channel d \<Longrightarrow> same_answers d d'"
  by (simp add: same_answers_def)

lemma emit_same_answers: "same_answers d (update_manager a (emit_to_host ev) d)"
  by (rule same_answersI) (simp_all add: update_manager_def emit_to_host_def)

lemma policy_same_answers: "same_answers d (update_manager a (\<lambda>m. m\<lparr>cm_policy := p\<rparr>) d)"
  by (rule same_answersI) (simp_all add: update_manager_def)

lemma forwards_same_answers:
  "same_answers d (snd (take_parent_forward a k d))" "same_answers d (snd (drain_parent_forwards a d))"
  "same_answers d (remember_parent_forward a child parent k targets d)"
  by (rule same_answersI; simp add: take_parent_forward_def drain_parent_forwards_def remember_parent_forward_def split: option.split)+

lemma manager_confirm_eq:
  "manager_confirm a k approved reason d =
     (case map_of (pending_at d a) k of
        None \<Rightarrow> (False, d)
      | Some e \<Rightarrow> (True, settle_entry a k e \<lparr>cr_approved = approved, cr_reason = reason\<rparr>
          (update_manager a (emit_to_host (ConfirmationReceived k approved reason)) d)))"
  by (cases "dk_managers d a") (auto simp: manager_confirm_def settle_entry_def update_manager_def emit_to_host_def send_reply_def split: option.split)

lemma manager_cancel_eq:
  "manager_cancel a k d =
     (case map_of (pending_at d a) k of None \<Rightarrow> (False, d) | Some e \<Rightarrow> (True, settle_entry a k e cancelled_response d))"
  by (auto simp: manager_cancel_def settle_entry_def split: option.split)

definition duplicate_response :: "str \<Rightarrow> confirmation_response" where
  "duplicate_response k = \<lparr>cr_approved = False, cr_reason = Some (duplicate_reason k)\<rparr>"

definition new_entry :: "int \<Rightarrow> nat \<Rightarrow> str \<Rightarrow> str \<Rightarrow> json \<Rightarrow> desk \<Rightarrow> pending_confirmation" where
  "new_entry now a k tool_name args d =
     \<lparr>pc_tool_id = k, pc_tool_name = tool_name, pc_args = args, pc_created_at = now,
      pc_timeout_ms = cp_default_timeout_ms (cm_policy (dk_managers d a)), pc_response_tx = dk_next_channel d\<rparr>"

lemma manager_request_eq:
  "manager_request now a k tool_name args d =
     (FromChannel (dk_next_channel d),
      (case map_of (pending_at d a) k of
         None \<Rightarrow> update_manager a (emit_to_host (ConfirmationRequired k tool_name args (cp_default_timeout_ms (cm_policy (dk_managers d a)))))
           (park_entry a k (new_entry now a k tool_name args d) d)
       | Some e \<Rightarrow> update_manager a (emit_to_host (ConfirmationReceived k False (Some (duplicate_reason k))))
           (bounce (duplicate_response k) (settle_entry a k e (duplicate_response k) d))))"
  by (auto simp: manager_request_def Let_def park_entry_def bounce_def settle_entry_def new_entry_def duplicate_response_def
      update_manager_def emit_to_host_def send_reply_def split: option.split)

subsection \<open>What every operation keeps\<close>

locale settling_relation =
  fixes R :: "desk \<Rightarrow> desk \<Rightarrow> bool" and may :: "str \<Rightarrow> confirmation_response \<Rightarrow> bool"
  assumes R_trans: "R d1 d2 \<Longrightarrow> R d2 d3 \<Longrightarrow> R d1 d3"
    and R_same: "same_answers d d' \<Longrightarrow> R d d'"
    and R_settle: "map_of (pending_at d a) k = Some e \<Longrightarrow> may k r \<Longrightarrow> R d (settle_entry a k e r d)"
    and R_settle_all: "R d (snd (manager_cancel_all a d))"
    and may_reject: "\<not> cr_approved r \<Longrightarrow> may k r"
begin

lemma R_refl: "R d d"
  by (rule R_same) (simp add: same_answers_def)

lemma R_manager_confirm:
  assumes "may k \<lparr>cr_approved = approved, cr_reason = reason\<rparr>"
  shows "R d (snd (manager_confirm a k approved reason d))"
proof (cases "map_of (pending_at d a) k")
  case None
  then show ?thesis by (simp add: manager_confirm_eq R_refl)
next
  case (Some e)
  let ?d = "update_manager a (emit_to_host (ConfirmationReceived k approved reason)) d"
  have "map_of (pending_at ?d a) k = Some e" using Some by (simp add: update_manager_def emit_to_host_def)
  then show ?thesis
    using R_trans [OF R_same [OF emit_same_answers] R_settle [OF _ assms]] Some by (simp add: manager_confirm_eq)
qed

lemma R_manager_cancel: "R d (snd (manager_cancel a k d))"
  using R_settle [of d a k] may_reject [of cancelled_response k]
  by (simp add: manager_cancel_eq R_refl cancelled_response_def split: option.split)

text \<open>A delegated operation: the child first, then the parent if the request was forwarded there.\<close>

lemma R_delegate:
  fixes f :: "provider \<Rightarrow> desk \<Rightarrow> 'r \<times> desk"
  assumes "\<And>c d. c \<in> set_option child \<Longrightarrow> R d (snd (f c d))" and "\<And>p d. p \<in> set_option parent \<Longrightarrow> R d (snd (f p d))"
  shows "R d (snd (take_parent_forward a k (case child of None \<Rightarrow> d | Some c \<Rightarrow> snd (f c d))))"
    and "R d (let d2 = snd (take_parent_forward a k (case child of None \<Rightarrow> d | Some c \<Rightarrow> snd (f c d)))
              in case parent of None \<Rightarrow> d2 | Some p \<Rightarrow> snd (f p d2))"
proof -
  define d1 where "d1 = (case child of None \<Rightarrow> d | Some c \<Rightarrow> snd (f c d))"
  define d2 where "d2 = snd (take_parent_forward a k d1)"
  have "R d d1" using assms(1) by (auto simp: d1_def R_refl split: option.split)
  moreover have "R d1 d2" unfolding d2_def by (rule R_same [OF forwards_same_answers(1)])
  ultimately have *: "R d d2" by (rule R_trans)
  then show "R d (snd (take_parent_forward a k (case child of None \<Rightarrow> d | Some c \<Rightarrow> snd (f c d))))"
    by (simp only: d1_def d2_def)
  have "R d2 (case parent of None \<Rightarrow> d2 | Some p \<Rightarrow> snd (f p d2))" using assms(2) by (auto simp: R_refl split: option.split)
  then show "R d (let d2 = snd (take_parent_forward a k (case child of None \<Rightarrow> d | Some c \<Rightarrow> snd (f c d)))
              in case parent of None \<Rightarrow> d2 | Some p \<Rightarrow> snd (f p d2))"
    using R_trans [OF *] by (simp only: d1_def d2_def Let_def)
qed

lemma R_confirm_request:
  assumes "may k \<lparr>cr_approved = approved, cr_reason = reason\<rparr>"
  shows "R d (snd (confirm_request k approved reason p d))"
proof (induction p arbitrary: d)
  case (Manager a)
  then show ?case using R_manager_confirm [OF assms] by (simp add: split_beta)
next
  case (Delegated a cc child pc parent)
  then show ?case
    using R_delegate [of child "confirm_request k approved reason" parent d a k]
    by (auto simp: split_beta Let_def take_parent_forward_def split: option.splits if_splits)
qed (simp add: R_refl)

lemma R_cancel_request: "R d (snd (cancel_request k p d))"
proof (induction p arbitrary: d)
  case (Manager a)
  then show ?case by (simp add: R_manager_cancel)
next
  case (Delegated a cc child pc parent)
  then show ?case
    using R_delegate [of child "cancel_request k" parent d a k]
    by (auto simp: split_beta Let_def take_parent_forward_def split: option.splits if_splits)
qed (simp add: R_refl)

lemma R_expire_request: "R d (snd (expire_request k action p d))"
proof (induction p arbitrary: d)
  case (Delegated a cc child pc parent)
  then show ?case
    using R_delegate [of child "expire_request k action" parent d a k]
    by (auto simp: split_beta Let_def take_parent_forward_def split: option.splits if_splits)
qed (simp_all add: R_refl)

lemma R_cancel_each: "R d (snd (fold (\<lambda>k (n, d). let (hit, d) = cancel_request k p d in (if hit then Suc n else n, d)) ks (n, d)))"
proof (induction ks arbitrary: n d)
  case (Cons k ks)
  show ?case using R_trans [OF R_cancel_request [of d k p] Cons.IH] by (simp add: split_beta Let_def)
qed (simp add: R_refl)

lemma R_cancel_all: "R d (snd (cancel_all p d))"
proof (induction p arbitrary: d)
  case (Manager a)
  then show ?case by (simp add: R_settle_all)
next
  case (Delegated a cc child pc parent)
  define c1 where "c1 = (case child of None \<Rightarrow> (0, d) | Some c \<Rightarrow> cancel_all c d)"
  define d2 where "d2 = snd (drain_parent_forwards a (snd c1))"
  have "R d (snd c1)" using Delegated.IH(1) by (auto simp: c1_def R_refl split: option.split)
  then have d2: "R d d2" unfolding d2_def by (rule R_trans [OF _ R_same [OF forwards_same_answers(2)]])
  show ?case
  proof (cases parent)
    case (Some p)
    have "R d2 (snd (fold (\<lambda>k (n, d). let (hit, d) = cancel_request k p d in (if hit then Suc n else n, d))
        (fst (drain_parent_forwards a (snd c1))) (fst c1, d2)))" by (rule R_cancel_each)
    then show ?thesis using Some d2 R_trans [OF d2]
      by (simp add: c1_def [symmetric] d2_def split_beta Let_def)
  qed (use d2 in \<open>simp add: c1_def [symmetric] d2_def split_beta Let_def\<close>)
qed (simp add: R_refl)

lemma R_fold_same: "(\<And>p d. p \<in> set ps \<Longrightarrow> R d (f p d)) \<Longrightarrow> R d (fold f ps d)"
proof (induction ps arbitrary: d)
  case (Cons p ps)
  then show ?case using R_trans [of d "f p d"] by simp
qed (simp add: R_refl)

lemma R_set_policy: "R d (set_policy policy p d)"
proof (induction p arbitrary: d)
  case (Manager a)
  then show ?case by (simp add: R_same [OF policy_same_answers])
next
  case (Delegated a cc child pc parent)
  then show ?case by (auto intro!: R_fold_same dest!: all_providers_members)
qed (simp add: R_refl)

end

locale desk_relation = settling_relation +
  assumes R_park: "map_of (pending_at d a) k = None \<Longrightarrow> pc_tool_id e = k \<Longrightarrow> pc_response_tx e = dk_next_channel d \<Longrightarrow> R d (park_entry a k e d)"
    and R_bounce: "\<not> cr_approved r \<Longrightarrow> R d (bounce r d)"
begin

lemma R_manager_request: "R d (snd (manager_request now a k tool_name args d))"
proof (cases "map_of (pending_at d a) k")
  case None
  have "R d (park_entry a k (new_entry now a k tool_name args d) d)" by (rule R_park [OF None]) (simp_all add: new_entry_def)
  then show ?thesis using R_trans [OF _ R_same [OF emit_same_answers]] None by (simp add: manager_request_eq)
next
  case (Some e)
  have no: "\<not> cr_approved (duplicate_response k)" by (simp add: duplicate_response_def)
  have "R d (bounce (duplicate_response k) (settle_entry a k e (duplicate_response k) d))"
    by (rule R_trans [OF R_settle [OF Some may_reject [OF no]] R_bounce [OF no]])
  then show ?thesis using R_trans [OF _ R_same [OF emit_same_answers]] Some by (simp add: manager_request_eq)
qed

lemma R_ask_in_turn:
  assumes "\<And>p d. p \<in> set ps \<Longrightarrow> R d (snd (f p d))"
  shows "R d (snd (ask_in_turn f ps d))"
proof -
  have "R d (snd (fold (\<lambda>p (rs, d). let (r, d) = f p d in (rs @ [r], d)) ps (rs, d)))" for rs
    using assms
  proof (induction ps arbitrary: rs d)
    case (Cons p ps)
    then show ?case using R_trans [of d "snd (f p d)"] by (simp add: split_beta Let_def)
  qed (simp add: R_refl)
  then show ?thesis by (simp add: ask_in_turn_def)
qed

lemma R_request_confirmation: "R d (snd (request_confirmation now k tool_name args p d))"
proof (induction p arbitrary: d)
  case (Manager a)
  then show ?case by (simp add: R_manager_request)
next
  case (Delegated a cc child pc parent)
  let ?t = "active_providers d cc child pc parent tool_name args"
  have "R d (snd (ask_in_turn (\<lambda>p. request_confirmation now k tool_name args p) (ct_providers ?t)
      (remember_parent_forward a child parent k (ct_providers ?t) d)))"
  proof (rule R_trans [OF R_same [OF forwards_same_answers(3)] R_ask_in_turn])
    fix p d' assume "p \<in> set (ct_providers ?t)"
    then have "child = Some p \<or> parent = Some p"
      by (auto simp: active_providers_def Let_def split: if_splits dest!: delegated_targets_providers)
    then show "R d' (snd (request_confirmation now k tool_name args p d'))" using Delegated.IH by auto
  qed
  then show ?case by (simp add: Let_def split_beta R_refl)
qed (simp add: R_refl)

end

subsection \<open>Every request is parked or answered\<close>

definition parked :: "desk \<Rightarrow> nat \<Rightarrow> nat \<Rightarrow> str \<Rightarrow> pending_confirmation \<Rightarrow> bool" where
  "parked d c a k e \<longleftrightarrow> map_of (pending_at d a) k = Some e \<and> pc_response_tx e = c"

definition desk_ok :: "desk \<Rightarrow> bool" where
  "desk_ok d \<longleftrightarrow>
     (\<forall>a. distinct (map fst (pending_at d a)))
     \<and> (\<forall>c a k e. parked d c a k e \<longrightarrow> pc_tool_id e = k \<and> c < dk_next_channel d \<and> dk_replies d c = None)
     \<and> (\<forall>c a k e b l f. parked d c a k e \<longrightarrow> parked d c b l f \<longrightarrow> a = b \<and> k = l)
     \<and> (\<forall>c. dk_next_channel d \<le> c \<longrightarrow> dk_replies d c = None)
     \<and> (\<forall>c. c < dk_next_channel d \<longrightarrow> dk_replies d c = None \<longrightarrow> (\<exists>a k e. parked d c a k e))"

definition answers_kept :: "desk \<Rightarrow> desk \<Rightarrow> bool" where
  "answers_kept d d' \<longleftrightarrow> (\<forall>c r. dk_replies d c = Some r \<longrightarrow> dk_replies d' c = Some r)"

lemma desk_okI:
  assumes "\<And>a. distinct (map fst (pending_at d a))"
    and "\<And>c a k e. parked d c a k e \<Longrightarrow> pc_tool_id e = k \<and> c < dk_next_channel d \<and> dk_replies d c = None"
    and "\<And>c a k e b l f. parked d c a k e \<Longrightarrow> parked d c b l f \<Longrightarrow> a = b \<and> k = l"
    and "\<And>c. dk_next_channel d \<le> c \<Longrightarrow> dk_replies d c = None"
    and "\<And>c. c < dk_next_channel d \<Longrightarrow> dk_replies d c = None \<Longrightarrow> \<exists>a k e. parked d c a k e"
  shows "desk_ok d"
  unfolding desk_ok_def using assms by blast

lemma desk_okD:
  assumes "desk_ok d"
  shows "distinct (map fst (pending_at d a))"
    and "parked d c a k e \<Longrightarrow> pc_tool_id e = k" and "parked d c a k e \<Longrightarrow> c < dk_next_channel d"
    and "parked d c a k e \<Longrightarrow> dk_replies d c = None"
    and "parked d c a k e \<Longrightarrow> parked d c b l f \<Longrightarrow> a = b \<and> k = l"
    and "dk_next_channel d \<le> c \<Longrightarrow> dk_replies d c = None"
    and "c < dk_next_channel d \<Longrightarrow> dk_replies d c = None \<Longrightarrow> \<exists>a k e. parked d c a k e"
  using assms unfolding desk_ok_def by blast+

lemma same_answers_parked: "same_answers d d' \<Longrightarrow> parked d' = parked d"
  by (intro ext) (simp add: same_answers_def parked_def)

lemma same_answers_ok:
  assumes "same_answers d d'" and "desk_ok d"
  shows "desk_ok d' \<and> answers_kept d d'"
proof -
  have eqs: "pending_at d' a = pending_at d a" "dk_replies d' = dk_replies d" "dk_next_channel d' = dk_next_channel d" for a
    using assms(1) by (simp_all add: same_answers_def)
  show ?thesis using assms(2) unfolding desk_ok_def answers_kept_def eqs same_answers_parked [OF assms(1)] by simp
qed

lemma settle_frame:
  "pending_at (settle_entry a k e r d) b = (if b = a then AList.delete k (pending_at d a) else pending_at d b)"
  "dk_replies (settle_entry a k e r d) = (dk_replies d)(pc_response_tx e \<mapsto> Replied r)"
  "dk_next_channel (settle_entry a k e r d) = dk_next_channel d"
  by (simp_all add: settle_entry_def update_manager_def send_reply_def)

lemma parked_settle:
  "parked (settle_entry a k e r d) c b l f \<longleftrightarrow> parked d c b l f \<and> \<not> (b = a \<and> l = k)"
  by (auto simp: parked_def settle_frame delete_conv')

lemma settle_entry_ok:
  assumes "desk_ok d" and "map_of (pending_at d a) k = Some e"
  shows "desk_ok (settle_entry a k e r d) \<and> answers_kept d (settle_entry a k e r d)"
proof
  have e: "parked d (pc_response_tx e) a k e" using assms(2) by (simp add: parked_def)
  note ok = desk_okD [OF assms(1)]
  show "desk_ok (settle_entry a k e r d)"
  proof (rule desk_okI)
    show "distinct (map fst (pending_at (settle_entry a k e r d) b))" for b
      using ok(1) by (simp add: settle_frame distinct_delete)
  next
    fix c b l f assume p: "parked (settle_entry a k e r d) c b l f"
    then have "c \<noteq> pc_response_tx e" using ok(5) [OF e] by (auto simp: parked_settle)
    then show "pc_tool_id f = l \<and> c < dk_next_channel (settle_entry a k e r d) \<and> dk_replies (settle_entry a k e r d) c = None"
      using p ok(2,3,4) [of c b l f] by (simp add: parked_settle settle_frame)
  next
    fix c assume "c < dk_next_channel (settle_entry a k e r d)" "dk_replies (settle_entry a k e r d) c = None"
    then obtain b l f where "parked d c b l f" "c \<noteq> pc_response_tx e" using ok(7) [of c] by (auto simp: settle_frame split: if_splits)
    moreover then have "\<not> (b = a \<and> l = k)" using e by (auto simp: parked_def)
    ultimately show "\<exists>b l f. parked (settle_entry a k e r d) c b l f" by (auto simp: parked_settle)
  qed (use ok(3) [OF e] in \<open>auto simp: parked_settle settle_frame dest: ok(5,6)\<close>)
  show "answers_kept d (settle_entry a k e r d)"
    using ok(4) [OF e] by (auto simp: answers_kept_def settle_frame)
qed

lemma send_each_frame:
  "dk_managers (fold (\<lambda>(_, e). send_reply (pc_response_tx e) r) es d) = dk_managers d"
  "dk_next_channel (fold (\<lambda>(_, e). send_reply (pc_response_tx e) r) es d) = dk_next_channel d"
  "dk_replies (fold (\<lambda>(_, e). send_reply (pc_response_tx e) r) es d) c
     = (if c \<in> (\<lambda>(_, e). pc_response_tx e) ` set es then Some (Replied r) else dk_replies d c)"
  by (induction es arbitrary: d) (auto simp: send_reply_def)

lemma cancel_all_frame:
  "pending_at (snd (manager_cancel_all a d)) b = (if b = a then [] else pending_at d b)"
  "dk_next_channel (snd (manager_cancel_all a d)) = dk_next_channel d"
  "dk_replies (snd (manager_cancel_all a d)) c =
     (if c \<in> (\<lambda>(_, e). pc_response_tx e) ` set (pending_at d a) then Some (Replied cancelled_response) else dk_replies d c)"
  by (simp_all add: manager_cancel_all_def Let_def send_each_frame update_manager_def)

lemma channel_of_pending:
  assumes "desk_ok d"
  shows "c \<in> (\<lambda>(_, e). pc_response_tx e) ` set (pending_at d a) \<longleftrightarrow> (\<exists>k e. parked d c a k e)"
proof -
  have "(k, e) \<in> set (pending_at d a) \<longleftrightarrow> map_of (pending_at d a) k = Some e" for k e
    using desk_okD(1) [OF assms] by (simp add: map_of_eq_Some_iff)
  then show ?thesis by (force simp: parked_def)
qed

text \<open>All requests of a manager are answered alike.\<close>

definition clears :: "nat \<Rightarrow> channel_reply \<Rightarrow> desk \<Rightarrow> desk \<Rightarrow> bool" where
  "clears a reply d d' \<longleftrightarrow> (\<forall>b. pending_at d' b = (if b = a then [] else pending_at d b)) \<and> dk_next_channel d' = dk_next_channel d
     \<and> (\<forall>c. dk_replies d' c =
           (if c \<in> (\<lambda>(_, e). pc_response_tx e) ` set (pending_at d a) then Some reply else dk_replies d c))"

lemma clears_ok:
  assumes "desk_ok d" and "clears a reply d d'"
  shows "desk_ok d' \<and> answers_kept d d'"
proof
  note ok = desk_okD [OF assms(1)]
  have frame: "pending_at d' b = (if b = a then [] else pending_at d b)" "dk_next_channel d' = dk_next_channel d"
    "dk_replies d' c = (if \<exists>k e. parked d c a k e then Some reply else dk_replies d c)" for b c
    using assms by (simp_all add: clears_def channel_of_pending)
  have p: "parked d' c b k e \<longleftrightarrow> parked d c b k e \<and> b \<noteq> a" for c b k e by (auto simp: parked_def frame(1))
  show "desk_ok d'"
  proof (rule desk_okI)
    fix c b k e assume "parked d' c b k e"
    then have "parked d c b k e" "\<nexists>l f. parked d c a l f" using ok(5) by (auto simp: p)
    then show "pc_tool_id e = k \<and> c < dk_next_channel d' \<and> dk_replies d' c = None"
      using ok(2,3,4) by (simp add: frame(2,3))
  next
    fix c assume "c < dk_next_channel d'" "dk_replies d' c = None"
    then show "\<exists>b k e. parked d' c b k e" using ok(7) [of c] by (auto simp: frame(2,3) p split: if_splits)
  next
    fix c assume "dk_next_channel d' \<le> c"
    then show "dk_replies d' c = None" using ok(3) [of c] ok(6) [of c] by (auto simp: frame(2,3))
  qed (use ok(1) in \<open>auto simp: frame(1) p dest: ok(5)\<close>)
  show "answers_kept d d'" using ok(4) by (auto simp: answers_kept_def frame(3))
qed

lemma manager_cancel_all_clears: "clears a (Replied cancelled_response) d (snd (manager_cancel_all a d))"
  by (simp add: clears_def cancel_all_frame)

lemma park_frame:
  "pending_at (park_entry a k e d) b = (if b = a then AList.update k e (pending_at d a) else pending_at d b)"
  "dk_replies (park_entry a k e d) = dk_replies d" "dk_next_channel (park_entry a k e d) = Suc (dk_next_channel d)"
  by (simp_all add: park_entry_def update_manager_def)

lemma park_ok:
  assumes "desk_ok d" and "map_of (pending_at d a) k = None" and "pc_tool_id e = k" and "pc_response_tx e = dk_next_channel d"
  shows "desk_ok (park_entry a k e d) \<and> answers_kept d (park_entry a k e d)"
proof
  note ok = desk_okD [OF assms(1)]
  have p: "parked (park_entry a k e d) c b l f \<longleftrightarrow>
      (if b = a \<and> l = k then f = e \<and> c = dk_next_channel d else parked d c b l f)" for c b l f
    using assms(4) by (auto simp: parked_def park_frame update_conv')
  have fresh: "\<not> parked d (dk_next_channel d) b l f" for b l f using ok(3) by blast
  show "desk_ok (park_entry a k e d)"
  proof (rule desk_okI)
    show "distinct (map fst (pending_at (park_entry a k e d) b))" for b
      using ok(1) by (simp add: park_frame distinct_update)
  next
    fix c b l f assume "parked (park_entry a k e d) c b l f"
    then show "pc_tool_id f = l \<and> c < dk_next_channel (park_entry a k e d) \<and> dk_replies (park_entry a k e d) c = None"
      using ok(2,3,4) [of c b l f] ok(6) [of c] assms(3) by (auto simp: p park_frame split: if_splits)
  next
    fix c b l f b' l' f' assume "parked (park_entry a k e d) c b l f" "parked (park_entry a k e d) c b' l' f'"
    then show "b = b' \<and> l = l'" using ok(5) [of c b l f b' l' f'] fresh by (auto simp: p split: if_splits)
  next
    fix c assume c: "c < dk_next_channel (park_entry a k e d)" "dk_replies (park_entry a k e d) c = None"
    show "\<exists>b l f. parked (park_entry a k e d) c b l f"
    proof (cases "c = dk_next_channel d")
      case True
      then show ?thesis using p [of c a k e] by auto
    next
      case False
      then obtain b l f where "parked d c b l f" using c ok(7) [of c] by (auto simp: park_frame)
      moreover then have "\<not> (b = a \<and> l = k)" using assms(2) by (auto simp: parked_def)
      ultimately show ?thesis using p [of c b l f] by auto
    qed
  qed (use ok(6) in \<open>simp add: park_frame\<close>)
  show "answers_kept d (park_entry a k e d)" by (simp add: answers_kept_def park_frame)
qed

lemma bounce_ok:
  assumes "desk_ok d"
  shows "desk_ok (bounce r d) \<and> answers_kept d (bounce r d)"
proof
  note ok = desk_okD [OF assms]
  have frame: "pending_at (bounce r d) b = pending_at d b" "dk_next_channel (bounce r d) = Suc (dk_next_channel d)"
    "dk_replies (bounce r d) = (dk_replies d)(dk_next_channel d \<mapsto> Replied r)" for b
    by (simp_all add: bounce_def send_reply_def)
  have p: "parked (bounce r d) = parked d" by (intro ext) (simp add: parked_def frame)
  show "desk_ok (bounce r d)"
  proof (rule desk_okI)
    fix c b l f assume "parked (bounce r d) c b l f"
    then show "pc_tool_id f = l \<and> c < dk_next_channel (bounce r d) \<and> dk_replies (bounce r d) c = None"
      using ok(2,3,4) [of c b l f] by (auto simp: p frame)
  next
    fix c assume "c < dk_next_channel (bounce r d)" "dk_replies (bounce r d) c = None"
    then show "\<exists>b l f. parked (bounce r d) c b l f" using ok(7) [of c] by (auto simp: p frame split: if_splits)
  qed (use ok(1,5,6) in \<open>auto simp: p frame\<close>)
  show "answers_kept d (bounce r d)" using ok(6) by (simp add: answers_kept_def frame)
qed

interpretation kept: desk_relation "\<lambda>d d'. desk_ok d \<longrightarrow> desk_ok d' \<and> answers_kept d d'" "\<lambda>_ _. True"
proof
  show "desk_ok d1 \<longrightarrow> desk_ok d3 \<and> answers_kept d1 d3"
    if "desk_ok d1 \<longrightarrow> desk_ok d2 \<and> answers_kept d1 d2" "desk_ok d2 \<longrightarrow> desk_ok d3 \<and> answers_kept d2 d3" for d1 d2 d3
    using that by (auto simp: answers_kept_def)
qed (use same_answers_ok settle_entry_ok clears_ok [OF _ manager_cancel_all_clears] park_ok bounce_ok in blast)+

subsection \<open>Who may approve\<close>

definition approved_at :: "desk \<Rightarrow> nat \<Rightarrow> bool" where
  "approved_at d c \<longleftrightarrow> (\<exists>r. dk_replies d c = Some (Replied r) \<and> cr_approved r)"

text \<open>Without an approving answer of the host nothing becomes approved.\<close>

definition no_approval :: "desk \<Rightarrow> desk \<Rightarrow> bool" where
  "no_approval d d' \<longleftrightarrow> (\<forall>c. approved_at d' c \<longrightarrow> approved_at d c)"

interpretation unapproved: desk_relation no_approval "\<lambda>_ r. \<not> cr_approved r"
proof
  show "no_approval d (snd (manager_cancel_all a d))" for a d
    by (auto simp: no_approval_def approved_at_def cancel_all_frame cancelled_response_def)
qed (auto simp: no_approval_def approved_at_def same_answers_def settle_frame park_frame bounce_def send_reply_def split: if_splits)

text \<open>An approving answer under an id approves only what is parked under that id.\<close>

definition approves_only :: "str \<Rightarrow> desk \<Rightarrow> desk \<Rightarrow> bool" where
  "approves_only k d d' \<longleftrightarrow> (\<forall>c a l e. parked d' c a l e \<longrightarrow> parked d c a l e)
     \<and> (\<forall>c. approved_at d' c \<longrightarrow> approved_at d c \<or> (\<exists>a e. parked d c a k e))"

interpretation approving: settling_relation "approves_only k" "\<lambda>l r. cr_approved r \<longrightarrow> l = k" for k
proof
  show "approves_only k d1 d3" if "approves_only k d1 d2" "approves_only k d2 d3" for d1 d2 d3
    using that unfolding approves_only_def by meson
  show "approves_only k d d'" if "same_answers d d'" for d d'
    using same_answers_parked [OF that] that by (simp add: approves_only_def approved_at_def) (simp add: same_answers_def)
  show "approves_only k d (settle_entry a l e r d)"
    if "map_of (pending_at d a) l = Some e" "cr_approved r \<longrightarrow> l = k" for d a l e r
  proof -
    have "parked d (pc_response_tx e) a l e" using that(1) by (simp add: parked_def)
    then show ?thesis using that(2) by (auto simp: approves_only_def parked_settle approved_at_def settle_frame split: if_splits)
  qed
  show "approves_only k d (snd (manager_cancel_all a d))" for d a
    by (auto simp: approves_only_def parked_def approved_at_def cancel_all_frame cancelled_response_def)
qed simp

text \<open>A channel keeps its request.\<close>

definition channels_kept :: "desk \<Rightarrow> desk \<Rightarrow> bool" where
  "channels_kept d d' \<longleftrightarrow> dk_next_channel d \<le> dk_next_channel d'
     \<and> (\<forall>c a k e. c < dk_next_channel d \<longrightarrow> parked d' c a k e \<longrightarrow> parked d c a k e)"

interpretation owned: desk_relation channels_kept "\<lambda>_ _. True"
proof
  show "channels_kept d1 d3" if "channels_kept d1 d2" "channels_kept d2 d3" for d1 d2 d3
    using that unfolding channels_kept_def by (meson order_trans less_le_trans)
  show "channels_kept d d'" if "same_answers d d'" for d d'
    using same_answers_parked [OF that] that by (simp add: channels_kept_def) (simp add: same_answers_def)
  show "channels_kept d (settle_entry a k e r d)" for d a k e r
    by (auto simp: channels_kept_def parked_settle settle_frame)
  show "channels_kept d (snd (manager_cancel_all a d))" for a d
    by (auto simp: channels_kept_def parked_def cancel_all_frame)
  show "channels_kept d (park_entry a k e d)"
    if "map_of (pending_at d a) k = None" "pc_tool_id e = k" "pc_response_tx e = dk_next_channel d" for d a k e
    using that by (auto simp: channels_kept_def parked_def park_frame update_conv' split: if_splits)
qed (auto simp: channels_kept_def bounce_def send_reply_def parked_def)

subsection \<open>The desks a session can reach\<close>

text \<open>What calls, host, session and timers do; a manager that is dropped closes the channels of its requests.\<close>

datatype desk_op =
    AskHost int str str json provider
  | HostAnswers str bool "str option" provider
  | CancelOne str provider
  | CancelEvery provider
  | TimerFires str timeout_action provider
  | ChangePolicy confirmation_policy provider
  | DropManager nat

definition drop_manager :: "nat \<Rightarrow> desk \<Rightarrow> desk" where
  "drop_manager a d = (update_manager a (\<lambda>m. m\<lparr>cm_pending := []\<rparr>) d)
     \<lparr>dk_replies := (\<lambda>c. if c \<in> (\<lambda>(_, e). pc_response_tx e) ` set (pending_at d a) then Some SenderDropped else dk_replies d c)\<rparr>"

fun desk_step :: "desk_op \<Rightarrow> desk \<Rightarrow> desk" where
  "desk_step (AskHost now k tool_name args p) d = snd (request_confirmation now k tool_name args p d)"
| "desk_step (HostAnswers k approved reason p) d = snd (confirm_request k approved reason p d)"
| "desk_step (CancelOne k p) d = snd (cancel_request k p d)"
| "desk_step (CancelEvery p) d = snd (cancel_all p d)"
| "desk_step (TimerFires k action p) d = snd (expire_request k action p d)"
| "desk_step (ChangePolicy policy p) d = set_policy policy p d"
| "desk_step (DropManager a) d = drop_manager a d"

definition desk_new :: "(nat \<Rightarrow> confirmation_policy) \<Rightarrow> desk" where
  "desk_new policies = \<lparr>dk_managers = (\<lambda>a. confirmation_manager_new (policies a)), dk_forwarded = (\<lambda>_. []),
     dk_replies = (\<lambda>_. None), dk_next_channel = 0\<rparr>"

lemma drop_manager_clears: "clears a SenderDropped d (drop_manager a d)"
  by (simp add: clears_def drop_manager_def update_manager_def)

lemma desk_new_ok: "desk_ok (desk_new policies)"
  by (simp add: desk_ok_def desk_new_def confirmation_manager_new_def parked_def)

lemma desk_step_ok: "desk_ok d \<Longrightarrow> desk_ok (desk_step op d) \<and> answers_kept d (desk_step op d)"
  using kept.R_request_confirmation kept.R_confirm_request kept.R_cancel_request kept.R_cancel_all kept.R_expire_request
    kept.R_set_policy clears_ok [OF _ drop_manager_clears]
  by (cases op) simp_all

lemma desk_step_owned: "channels_kept d (desk_step op d)"
proof (cases op)
  case (DropManager a)
  then show ?thesis by (auto simp: channels_kept_def parked_def drop_manager_def update_manager_def)
qed (use owned.R_request_confirmation owned.R_confirm_request owned.R_cancel_request owned.R_cancel_all owned.R_expire_request
    owned.R_set_policy in simp_all)

text \<open>No step but an approving answer approves anything.\<close>

lemma desk_step_unapproved:
  assumes "\<And>k reason p. op \<noteq> HostAnswers k True reason p"
  shows "no_approval d (desk_step op d)"
proof (cases op)
  case (HostAnswers k approved reason p)
  then show ?thesis using assms unapproved.R_confirm_request [of False] by (cases approved) simp_all
next
  case (DropManager a)
  then show ?thesis by (simp add: no_approval_def approved_at_def drop_manager_def)
qed (simp_all add: unapproved.R_request_confirmation unapproved.R_cancel_request unapproved.R_cancel_all unapproved.R_expire_request
    unapproved.R_set_policy)

lemma desk_step_approval:
  assumes "approved_at (desk_step op d) c" and "\<not> approved_at d c"
  shows "\<exists>k reason p a e. op = HostAnswers k True reason p \<and> parked d c a k e"
proof -
  obtain k reason p where op: "op = HostAnswers k True reason p"
    using desk_step_unapproved [of op d] assms unfolding no_approval_def by blast
  have "approves_only k d (desk_step op d)" using approving.R_confirm_request op by simp
  then show ?thesis using assms op unfolding approves_only_def by blast
qed

lemma desk_run_ok:
  assumes "desk_ok d"
  shows "desk_ok (fold desk_step ops d) \<and> answers_kept d (fold desk_step ops d)"
  using assms
proof (induction ops arbitrary: d)
  case (Cons op ops)
  then show ?case using desk_step_ok [OF Cons.prems, of op] by (fastforce simp: answers_kept_def)
qed (simp add: answers_kept_def)

lemma desk_run_owned: "channels_kept d (fold desk_step ops d)"
proof (induction ops arbitrary: d)
  case (Cons op ops)
  show ?case using owned.R_trans [OF desk_step_owned Cons.IH] by simp
qed (simp add: owned.R_refl)

lemma desk_run_approval:
  assumes "approved_at (fold desk_step ops d) c" and "\<not> approved_at d c"
  shows "\<exists>before k reason p after a e. ops = before @ HostAnswers k True reason p # after
    \<and> parked (fold desk_step before d) c a k e"
  using assms
proof (induction ops arbitrary: d)
  case (Cons op ops)
  show ?case
  proof (cases "approved_at (desk_step op d) c")
    case True
    then show ?thesis using desk_step_approval [OF _ Cons.prems(2)] by (metis append_Nil fold_simps(1))
  next
    case False
    have "approved_at (fold desk_step ops (desk_step op d)) c" using Cons.prems(1) by simp
    from Cons.IH [OF this False] obtain before k reason p after a e where
      "ops = before @ HostAnswers k True reason p # after" "parked (fold desk_step before (desk_step op d)) c a k e" by blast
    then have "op # ops = (op # before) @ HostAnswers k True reason p # after" "parked (fold desk_step (op # before) d) c a k e" by simp_all
    then show ?thesis by blast
  qed
qed simp

text \<open>A request that a manager took is approved only when the host approves it under its id, while it lies on the desk as it was put
  there.\<close>

lemma manager_request_approval:
  assumes "desk_ok d" and "approved_at (fold desk_step ops (snd (manager_request now a k tool_name args d))) (dk_next_channel d)"
  shows "\<exists>before reason p after. ops = before @ HostAnswers k True reason p # after
    \<and> parked (fold desk_step before (snd (manager_request now a k tool_name args d))) (dk_next_channel d) a k
        (new_entry now a k tool_name args d)"
proof -
  define d1 where "d1 = snd (manager_request now a k tool_name args d)"
  define c where "c = dk_next_channel d"
  have ok1: "desk_ok d1" unfolding d1_def using kept.R_manager_request assms(1) by blast
  have "no_approval d d1" unfolding d1_def by (rule unapproved.R_manager_request)
  then have "\<not> approved_at d1 c"
    using desk_okD(6) [OF assms(1), of c] by (auto simp: no_approval_def approved_at_def c_def)
  with assms(2) obtain before l reason p after b e where
    ops: "ops = before @ HostAnswers l True reason p # after" and at: "parked (fold desk_step before d1) c b l e"
    unfolding d1_def [symmetric] c_def [symmetric] using desk_run_approval by blast
  have "dk_next_channel d1 = Suc c"
    by (auto simp: d1_def c_def manager_request_eq update_manager_def park_frame bounce_def send_reply_def settle_frame split: option.split)
  then have e1: "parked d1 c b l e" using desk_run_owned [of d1 before] at by (auto simp: channels_kept_def)
  have "map_of (pending_at d a) k = None"
  proof (rule ccontr)
    assume "map_of (pending_at d a) k \<noteq> None"
    then have "dk_replies d1 c \<noteq> None"
      by (auto simp: d1_def c_def manager_request_eq update_manager_def bounce_def send_reply_def settle_frame)
    then show False using desk_okD(4) [OF ok1 e1] by simp
  qed
  then have "parked d1 c a k (new_entry now a k tool_name args d)"
    by (simp add: d1_def c_def manager_request_eq parked_def update_manager_def emit_to_host_def park_entry_def update_conv' new_entry_def)
  moreover then have "b = a \<and> l = k" using desk_okD(5) [OF ok1 e1] by simp
  ultimately have "b = a" "l = k" "e = new_entry now a k tool_name args d" using e1 by (simp_all add: parked_def)
  then show ?thesis using ops at by (auto simp: d1_def c_def)
qed

end
