(* ===== verification/ConfirmationProperties.thy ===== *)
theory ConfirmationProperties
  imports ConfirmationLaws
begin

section \<open>Properties of confirmations\<close>

text \<open>
  Only the host approves, and only the very call it was shown; no request is lost; a delegated run cannot do without the
  approval of its parent.
\<close>

subsection \<open>The host decides\<close>

text \<open>C8. Only the host approves.  When a manager of a reachable desk takes a request and the request is approved later, whatever other
  calls, answers, cancellations, timers, policy changes and dropped managers came in between, then the host has answered
  with an approval under the id of the request, and at that moment the request was on the desk of that manager with
  the tool name and the arguments of the call.\<close>

theorem approval_comes_from_the_host:
  fixes d d1 :: desk
  assumes "d = fold desk_step earlier (desk_new policies)"
    and "manager_request now a k tool_name args d = (FromChannel c, d1)"
    and "receive (fold desk_step ops d1) (FromChannel c) = Some (Replied r)" and "cr_approved r"
  shows "\<exists>before reason p after e. ops = before @ HostAnswers k True reason p # after
    \<and> map_of (cm_pending (dk_managers (fold desk_step before d1) a)) k = Some e
    \<and> pc_tool_name e = tool_name \<and> pc_args e = args \<and> pc_response_tx e = c"
proof -
  have ok: "desk_ok d" unfolding assms(1) using desk_run_ok [OF desk_new_ok] by blast
  have c: "c = dk_next_channel d" "d1 = snd (manager_request now a k tool_name args d)"
    using assms(2) by (simp_all add: manager_request_eq)
  have "approved_at (fold desk_step ops d1) c" using assms(3,4) by (simp add: approved_at_def)
  then show ?thesis
    using manager_request_approval [OF ok, of ops now a k tool_name args] unfolding c by (fastforce simp: parked_def new_entry_def)
qed

definition sample_desk :: desk where
  "sample_desk = desk_new (\<lambda>_. confirmation_policy_enabled)"

theorem approval_comes_from_the_host_witness:
  "\<exists>before reason p after e. [HostAnswers ''t1'' True None (Manager 0)] = before @ HostAnswers ''t1'' True reason p # after
    \<and> map_of (cm_pending (dk_managers (fold desk_step before (snd (manager_request 5 0 ''t1'' ''bash'' JNull sample_desk))) 0)) ''t1'' = Some e
    \<and> pc_tool_name e = ''bash'' \<and> pc_args e = JNull \<and> pc_response_tx e = 0"
proof -
  have a: "sample_desk = fold desk_step [] (desk_new (\<lambda>_. confirmation_policy_enabled))" by (simp add: sample_desk_def)
  have b: "manager_request 5 0 ''t1'' ''bash'' JNull sample_desk = (FromChannel 0, snd (manager_request 5 0 ''t1'' ''bash'' JNull sample_desk))"
    by (simp add: manager_request_eq sample_desk_def desk_new_def)
  have c: "receive (fold desk_step [HostAnswers ''t1'' True None (Manager 0)] (snd (manager_request 5 0 ''t1'' ''bash'' JNull sample_desk)))
      (FromChannel 0) = Some (Replied \<lparr>cr_approved = True, cr_reason = None\<rparr>)"
    by code_simp
  show ?thesis by (rule approval_comes_from_the_host [OF a b c]) simp
qed

text \<open>C10. No request is lost.  In every reachable desk a channel that was handed out has no answer exactly if its request lies with exactly
  one manager under exactly one id, so that it can still be answered; and an answer, once there, stays whatever
  happens.\<close>

theorem every_request_is_pending_or_answered:
  fixes d :: desk
  assumes "d = fold desk_step earlier (desk_new policies)" and "c < dk_next_channel d"
  shows "(dk_replies d c = None \<longleftrightarrow> (\<exists>!(a, k). \<exists>e. map_of (cm_pending (dk_managers d a)) k = Some e \<and> pc_response_tx e = c))
    \<and> (dk_replies d c \<noteq> None \<longrightarrow> dk_replies (fold desk_step ops d) c = dk_replies d c)"
proof -
  have ok: "desk_ok d" unfolding assms(1) using desk_run_ok [OF desk_new_ok] by blast
  have "dk_replies d c = None \<longleftrightarrow> (\<exists>!(a, k). \<exists>e. parked d c a k e)"
  proof
    assume "dk_replies d c = None"
    then obtain a k e where "parked d c a k e" using desk_okD(7) [OF ok assms(2)] by blast
    then have "x = (a, k)" if "case x of (a, k) \<Rightarrow> \<exists>e. parked d c a k e" for x
      using desk_okD(5) [OF ok, of c a k e "fst x" "snd x"] that by (cases x) auto
    then show "\<exists>!(a, k). \<exists>e. parked d c a k e" using \<open>parked d c a k e\<close> by (intro ex1I [of _ "(a, k)"]) auto
  next
    assume "\<exists>!(a, k). \<exists>e. parked d c a k e"
    then obtain a k e where "parked d c a k e" by auto
    then show "dk_replies d c = None" by (rule desk_okD(4) [OF ok])
  qed
  moreover have "answers_kept d (fold desk_step ops d)" using desk_run_ok [OF ok] by blast
  ultimately show ?thesis unfolding parked_def answers_kept_def by (metis (no_types, lifting) not_Some_eq)
qed

theorem every_request_is_pending_or_answered_witness:
  "dk_replies (fold desk_step [AskHost 5 ''t1'' ''bash'' JNull (Manager 0)] sample_desk) 0 = None
   \<and> (\<exists>!(a, k). \<exists>e. map_of (cm_pending (dk_managers (fold desk_step [AskHost 5 ''t1'' ''bash'' JNull (Manager 0)] sample_desk) a)) k = Some e
        \<and> pc_response_tx e = 0)"
proof -
  let ?d = "fold desk_step [AskHost 5 ''t1'' ''bash'' JNull (Manager 0)] sample_desk"
  have a: "?d = fold desk_step [AskHost 5 ''t1'' ''bash'' JNull (Manager 0)] (desk_new (\<lambda>_. confirmation_policy_enabled))"
    by (simp add: sample_desk_def)
  have "0 < dk_next_channel ?d" "dk_replies ?d 0 = None" by code_simp+
  then show ?thesis using every_request_is_pending_or_answered [OF a] by blast
qed

subsection \<open>Delegated runs\<close>

fun channels_of :: "receiver \<Rightarrow> nat set" where
  "channels_of (FromChannel c) = {c}"
| "channels_of (Immediate r) = {}"
| "channels_of (AllOf rs) = (\<Union>r\<in>set rs. channels_of r)"

lemma combined_approves:
  "cr_approved (combined_response replies) \<longleftrightarrow> (\<forall>r\<in>set replies. rejection_of r = None)"
  by (auto simp: combined_response_def Let_def List.map_filter_def filter_empty_conv)

lemma rejection_None: "rejection_of r = None \<longleftrightarrow> (\<exists>q. r = Replied q \<and> cr_approved q)"
  by (cases r) (auto simp: rejection_of_def)

lemma those_Some_members: "those xs = Some ys \<Longrightarrow> x \<in> set xs \<Longrightarrow> \<exists>y\<in>set ys. x = Some y"
  by (induction xs arbitrary: ys) (auto split: option.splits)

text \<open>A receiver approves only if every channel it waits for does.\<close>

lemma receive_approved: "receive d rx = Some (Replied r) \<Longrightarrow> cr_approved r \<Longrightarrow> c \<in> channels_of rx \<Longrightarrow> approved_at d c"
proof (induction rx arbitrary: r)
  case (AllOf rs)
  then obtain x where x: "x \<in> set rs" "c \<in> channels_of x" by auto
  obtain replies where those: "those (map (receive d) rs) = Some replies" "cr_approved (combined_response replies)"
    using AllOf.prems by auto
  obtain y where "y \<in> set replies" "receive d x = Some y" using those_Some_members [OF those(1), of "receive d x"] x(1) by auto
  then show ?case using AllOf.IH [OF x(1)] those(2) x(2) by (auto simp: combined_approves rejection_None)
qed (auto simp: approved_at_def)

lemma channels_of_asked: "x \<in> set xs \<Longrightarrow> channels_of x \<subseteq> channels_of (case xs of [r] \<Rightarrow> r | _ \<Rightarrow> AllOf xs)"
  by (auto split: list.split)

lemma ask_in_turn_snoc:
  "ask_in_turn f (ps @ [p]) d =
     (let (rs, d') = ask_in_turn f ps d; (r, d'') = f p d' in (rs @ [r], d''))"
  by (simp add: ask_in_turn_def split_beta Let_def)

lemma delegated_targets_parent:
  assumes "pc tool_name args = Ask" and "is_available (delegated_targets cc child (Some pc) (Some p) tool_name args)"
    and "\<forall>q. child = Some q \<longrightarrow> ptr_eq q p \<longrightarrow> q = p"
  shows "\<exists>ps. ct_providers (delegated_targets cc child (Some pc) (Some p) tool_name args) = ps @ [p]"
  using assms
  by (auto simp: delegated_targets_def Let_def targets_default_def is_available_def targets_add_def add_provider_def
      split: if_splits option.splits)

lemma request_reaches_the_parent:
  assumes "pc tool_name args = Ask" and "cp_enabled (cm_policy (dk_managers d m))"
    and "\<forall>q. child = Some q \<longrightarrow> ptr_eq q (Manager m) \<longrightarrow> q = Manager m"
    and "request_confirmation now k tool_name args (Delegated a cc child (Some pc) (Some (Manager m))) d = (rx, d1)"
    and "receive d' rx = Some (Replied r)" and "cr_approved r" and "desk_ok d"
  shows "\<exists>d0. desk_ok d0 \<and> d1 = snd (manager_request now m k tool_name args d0) \<and> dk_next_channel d0 \<in> channels_of rx"
proof -
  define t where "t = active_providers d cc child (Some pc) (Some (Manager m)) tool_name args"
  define f where "f = (\<lambda>p. request_confirmation now k tool_name args p)"
  define d2 where "d2 = remember_parent_forward a child (Some (Manager m)) k (ct_providers t) d"
  have av: "is_available (delegated_targets cc child (Some pc) (Some (Manager m)) tool_name args)"
  proof (rule ccontr)
    assume "\<not> ?thesis"
    then show False using assms(4-6) by (auto simp: active_providers_def Let_def unavailable_response_def)
  qed
  obtain ps where ps: "ct_providers t = ps @ [Manager m]"
    using delegated_targets_parent [of pc tool_name args cc child "Manager m", OF assms(1) av assms(3)] assms(2) av
    by (auto simp: t_def active_providers_def policy_requires_confirmation_def)
  have t: "is_available t" using av by (simp add: t_def active_providers_def is_available_def Let_def)
  obtain rs d0 where ask: "ask_in_turn f ps d2 = (rs, d0)" by (cases "ask_in_turn f ps d2")
  have last: "ask_in_turn f (ps @ [Manager m]) d2
      = (rs @ [FromChannel (dk_next_channel d0)], snd (manager_request now m k tool_name args d0))"
    by (simp add: ask_in_turn_snoc ask) (simp add: f_def manager_request_eq)
  have rx: "rx = (case rs @ [FromChannel (dk_next_channel d0)] of [r] \<Rightarrow> r | _ \<Rightarrow> AllOf (rs @ [FromChannel (dk_next_channel d0)]))"
    and d1: "d1 = snd (manager_request now m k tool_name args d0)"
    using assms(4) [unfolded request_confirmation.simps(3) Let_def, folded t_def f_def] t last by (simp_all add: ps d2_def)
  have "desk_ok d2" unfolding d2_def using same_answers_ok [OF forwards_same_answers(3) assms(7)] by blast
  then have "desk_ok d0"
    using kept.R_ask_in_turn [of ps f d2] kept.R_request_confirmation ask by (auto simp: f_def)
  moreover have "dk_next_channel d0 \<in> channels_of rx" unfolding rx
    using channels_of_asked [of "FromChannel (dk_next_channel d0)" "rs @ [FromChannel (dk_next_channel d0)]"] by simp
  ultimately show ?thesis using d1 by blast
qed

text \<open>C9. A delegated run cannot do without its parent.  When the parent's checker asks about a call and the parent's manager has confirmations
  enabled, then whatever the child's own checker and provider are, the composed provider approves the call only if the host
  has approved it under its id while the call lay, with its tool name and arguments, on the desk of the parent's
  manager.\<close>

theorem child_run_respects_the_parent:
  fixes d d1 :: desk
  assumes "d = fold desk_step earlier (desk_new policies)"
    and "pc tool_name args = Ask" and "cp_enabled (cm_policy (dk_managers d m))"
    and "\<forall>q. child = Some q \<longrightarrow> ptr_eq q (Manager m) \<longrightarrow> q = Manager m"
    and "request_confirmation now k tool_name args (Delegated a cc child (Some pc) (Some (Manager m))) d = (rx, d1)"
    and "receive (fold desk_step ops d1) rx = Some (Replied r)" and "cr_approved r"
  shows "\<exists>before reason p after e. ops = before @ HostAnswers k True reason p # after
    \<and> map_of (cm_pending (dk_managers (fold desk_step before d1) m)) k = Some e \<and> pc_tool_name e = tool_name \<and> pc_args e = args"
proof -
  have ok: "desk_ok d" unfolding assms(1) using desk_run_ok [OF desk_new_ok] by blast
  obtain d0 where d0: "desk_ok d0" "d1 = snd (manager_request now m k tool_name args d0)" "dk_next_channel d0 \<in> channels_of rx"
    using request_reaches_the_parent [OF assms(2-7) ok] by blast
  have "approved_at (fold desk_step ops d1) (dk_next_channel d0)" by (rule receive_approved [OF assms(6,7) d0(3)])
  then show ?thesis
    using manager_request_approval [OF d0(1), of ops now m k tool_name args] unfolding d0(2) by (fastforce simp: parked_def new_entry_def)
qed

definition sample_child :: provider where
  "sample_child = Delegated 7 (Some (\<lambda>_ _. Ask)) (Some (AutoApprove 6)) (Some (\<lambda>_ _. Ask)) (Some (Manager 0))"

theorem child_run_respects_the_parent_witness:
  "\<exists>before reason p after e. [HostAnswers ''t1'' True None sample_child] = before @ HostAnswers ''t1'' True reason p # after
    \<and> map_of (cm_pending (dk_managers (fold desk_step before (snd (request_confirmation 5 ''t1'' ''bash'' JNull sample_child sample_desk))) 0)) ''t1''
        = Some e \<and> pc_tool_name e = ''bash'' \<and> pc_args e = JNull"
proof -
  let ?r = "request_confirmation 5 ''t1'' ''bash'' JNull sample_child sample_desk"
  have a: "sample_desk = fold desk_step [] (desk_new (\<lambda>_. confirmation_policy_enabled))" by (simp add: sample_desk_def)
  have b: "cp_enabled (cm_policy (dk_managers sample_desk 0))" by code_simp
  have c: "\<forall>q. Some (AutoApprove 6) = Some q \<longrightarrow> ptr_eq q (Manager 0) \<longrightarrow> q = Manager 0" by (simp add: ptr_eq_def)
  have e: "receive (fold desk_step [HostAnswers ''t1'' True None sample_child] (snd ?r)) (fst ?r)
      = Some (Replied \<lparr>cr_approved = True, cr_reason = None\<rparr>)" by code_simp
  have r: "request_confirmation 5 ''t1'' ''bash'' JNull
      (Delegated 7 (Some (\<lambda>_ _. Ask)) (Some (AutoApprove 6)) (Some (\<lambda>_ _. Ask)) (Some (Manager 0))) sample_desk = (fst ?r, snd ?r)"
    by (simp only: sample_child_def prod.collapse)
  show ?thesis by (rule child_run_respects_the_parent [OF a _ b c r e]) simp_all
qed

subsection \<open>Where forwarding goes wrong\<close>

text \<open>When the host answers the parent's manager directly, the delegated provider still counts the id as forwarded: closing the child
  later cancels a new request of the parent under the same id.\<close>

lemma closing_a_child_cancels_a_request_of_the_parent:
  "(let d = fold desk_step [AskHost 5 ''t1'' ''bash'' JNull sample_child, HostAnswers ''t1'' True None (Manager 0),
        AskHost 6 ''t1'' ''write'' JNull (Manager 0)] sample_desk
    in (dk_replies d 1, dk_replies (desk_step (CancelEvery sample_child) d) 1) = (None, Some (Replied cancelled_response)))"
  by code_simp

text \<open>A timer decides nothing, but it makes a delegated provider forget the request: the host's answer no longer reaches the
  parent's manager.\<close>

lemma expired_request_is_out_of_reach:
  "(let d = fold desk_step [AskHost 5 ''t1'' ''bash'' JNull sample_child, TimerFires ''t1'' RejectOnTimeout sample_child] sample_desk
    in (fst (confirm_request ''t1'' True None sample_child d), manager_pending_count 0 (desk_step (HostAnswers ''t1'' True None sample_child) d))
       = (Inr False, 1))"
  by code_simp

text \<open>A run two levels down that inherits its parent's provider asks it once.  The snapshot for the run copies that provider twice; the copies
  ask the same manager under the same id, and the call is rejected before the host sees it.\<close>

definition sample_grandchild :: provider where
  "sample_grandchild = Delegated 8 (Some (\<lambda>_ _. Ask)) (Some sample_child) (Some (\<lambda>_ _. Ask)) (Some sample_child)"

lemma snapshot_rejects_inherited_confirmations:
  "(let ask = (\<lambda>p. request_confirmation 5 ''t1'' ''bash'' JNull p sample_desk);
        outcome = (\<lambda>p. (map_option (\<lambda>r. rejection_of r \<noteq> None) (receive (snd (ask p)) (fst (ask p))), manager_pending_count 0 (snd (ask p))))
    in (outcome sample_grandchild, outcome (fst (snapshot_for_run (\<lambda>c. c) sample_grandchild 20))) = ((None, 1), (Some True, 0)))"
  by code_simp

end
