(* ===== verification/ToolGates.thy ===== *)
theory ToolGates
  imports Confirmations ShellClassifier
begin

section \<open>The gate in front of every tool call\<close>

text \<open>
  \<^verbatim>\<open>core/src/safety_gate.rs\<close>, the governed invoker of \<^verbatim>\<open>agent/tool_invoker.rs\<close> with its lifecycle (\<^verbatim>\<open>tools/invocation.rs\<close>), the
  reading of hook outcomes (\<^verbatim>\<open>agent/hook_runtime.rs\<close>), skill restrictions (\<^verbatim>\<open>skills/mod.rs\<close>), the read-only verifier
  (\<^verbatim>\<open>read_only_verifier.rs\<close>) and what a child run inherits of its parent's governance (\<^verbatim>\<open>child_run.rs\<close>, \<^verbatim>\<open>subagent.rs\<close>).

  Parameters, collected in the record \<open>invoker_env\<close>: the hook engine, argument validation, the declarations of the
  registered tool, the binding of request evidence, the budget guard, the sanitizer, and the execution of the tool.  The execution is
  noted with the name and the arguments it was given.  An assertion on the lifecycle that fails is \<open>None\<close>, as in a
  build with debug assertions; so is a panic of \<^verbatim>\<open>canonical_tool_name\<close>.
\<close>

subsection \<open>Skills\<close>

datatype skill_kind = InstructionSkill | PersonaSkill | ToolSkill

record tool_permission =
  tp_tool :: str
  tp_pattern :: str

record skill =
  sk_name :: str
  sk_allowed_tools :: "str option"
  sk_kind :: skill_kind

record skill_registry =
  sr_skills :: "skill list"
  sr_builtin_names :: "str list"

definition tool_permission_parse :: "str \<Rightarrow> tool_permission option" where
  "tool_permission_parse s =
     (let s = trim s;
          open_at = length (takeWhile (\<lambda>c. c \<noteq> CHR ''('') s);
          after_close = length (takeWhile (\<lambda>c. c \<noteq> CHR '')'') (rev s));
          close_at = length s - Suc after_close
      in if CHR ''('' \<notin> set s \<or> CHR '')'' \<notin> set s then None
         else if close_at \<le> open_at then None
         else Some \<lparr>tp_tool = trim (take open_at s), tp_pattern = trim (take (close_at - Suc open_at) (drop (Suc open_at) s))\<rparr>)"

definition allowed_parts :: "str \<Rightarrow> str list" where
  "allowed_parts allowed =
     (if CHR '','' \<in> set allowed then split_on CHR '','' allowed
      else if tool_permission_parse allowed \<noteq> None then [allowed]
      else split_whitespace allowed)"

definition parse_allowed_tools :: "skill \<Rightarrow> tool_permission list" where
  "parse_allowed_tools sk =
     (case sk_allowed_tools sk of
        None \<Rightarrow> []
      | Some allowed \<Rightarrow>
          map (\<lambda>part. case tool_permission_parse part of
                 Some perm \<Rightarrow> perm | None \<Rightarrow> \<lparr>tp_tool = part, tp_pattern = ''*''\<rparr>)
            (filter (\<lambda>part. part \<noteq> []) (map trim (allowed_parts allowed))))"

definition inherits_session_tools :: "skill \<Rightarrow> bool" where
  "inherits_session_tools sk = (sk_allowed_tools sk = None \<and> sk_kind sk \<noteq> ToolSkill)"

definition is_tool_allowed :: "skill \<Rightarrow> str \<Rightarrow> bool" where
  "is_tool_allowed sk tool_name =
     (if inherits_session_tools sk then True
      else (let permissions = parse_allowed_tools sk
            in if permissions = [] then False
               else list_ex (\<lambda>perm. (tp_tool perm = ''*'' \<or> eq_ignore_ascii_case (tp_tool perm) tool_name) \<and> tp_pattern perm = ''*'')
                      permissions))"

definition global_tool_restricting_skills :: "skill_registry \<Rightarrow> skill list" where
  "global_tool_restricting_skills registry =
     sort_key sk_name (filter (\<lambda>sk. sk_kind sk = InstructionSkill \<and> sk_allowed_tools sk \<noteq> None
         \<and> sk_name sk \<notin> set (sr_builtin_names registry)) (sr_skills registry))"

subsection \<open>Decisions\<close>

datatype gate_approval = PermissionAllow | ConfirmationNotRequired | HostDirectTrusted | RuntimeInternalApproval

datatype gate_denial = SkillRestriction | HookBlock | PermissionDeny | MissingConfirmationManager | ConfirmationUnavailable

datatype gate_error_kind = HookDenied str bool "int option" | InvalidArgument str

datatype gate_decision =
    ExecuteTool gate_approval
  | ConfirmTool int timeout_action
  | DenyTool str str gate_denial "gate_error_kind option"

record hook_denial_feedback =
  hd_reason :: str
  hd_retryable :: bool
  hd_retry_after_ms :: "int option"

definition feedback_blocked :: "str \<Rightarrow> hook_denial_feedback" where
  "feedback_blocked reason = \<lparr>hd_reason = reason, hd_retryable = False, hd_retry_after_ms = None\<rparr>"

definition feedback_retry :: "str \<Rightarrow> int \<Rightarrow> hook_denial_feedback" where
  "feedback_retry reason retry_after_ms = \<lparr>hd_reason = reason, hd_retryable = True, hd_retry_after_ms = Some retry_after_ms\<rparr>"

definition show_int :: "int \<Rightarrow> str" where
  "show_int n = show_nat (nat n)"

definition hook_guidance :: "hook_denial_feedback \<Rightarrow> str" where
  "hook_guidance f =
     (case hd_retry_after_ms f of
        Some delay_ms \<Rightarrow>
          (if hd_retryable f
           then ''Hook feedback: retryable=true; retry_after_ms='' @ show_int delay_ms @ ''. Retry only after the requested delay.''
           else ''Hook feedback: retryable=false. Do not repeat this tool call unchanged; choose another action or change the arguments or context.'')
      | None \<Rightarrow>
          (if hd_retryable f then ''Hook feedback: retryable=true. Retry only after the temporary condition changes.''
           else ''Hook feedback: retryable=false. Do not repeat this tool call unchanged; choose another action or change the arguments or context.''))"

definition into_gate_decision :: "hook_denial_feedback \<Rightarrow> str \<Rightarrow> gate_decision" where
  "into_gate_decision f tool_name =
     DenyTool (quoted_tool tool_name @ '' '' @ (if hd_retryable f then ''temporarily denied'' else ''denied'')
         @ '' by pre-tool hook: '' @ hd_reason f @ [CHR 0x0A, CHR 0x0A] @ hook_guidance f)
       (hd_reason f) HookBlock (Some (HookDenied (hd_reason f) (hd_retryable f) (hd_retry_after_ms f)))"

record gate_config =
  gc_enforce_skill_restrictions :: bool
  gc_skill_registry :: "skill_registry option"
  gc_permission_checker :: "checker option"
  gc_confirmation_manager :: "provider option"

record gate_input =
  gi_tool_name :: str
  gi_args :: json
  gi_pre_tool_denial :: "hook_denial_feedback option"
  gi_tool_requires_confirmation :: bool

definition check_skill_restrictions :: "gate_config \<Rightarrow> str \<Rightarrow> gate_decision option" where
  "check_skill_restrictions config tool_name =
     (if \<not> gc_enforce_skill_restrictions config then None
      else (case gc_skill_registry config of
          None \<Rightarrow> None
        | Some registry \<Rightarrow>
            (let restricting_skills = global_tool_restricting_skills registry
             in if restricting_skills = [] then None
                else if list_ex (\<lambda>sk. is_tool_allowed sk tool_name) restricting_skills then None
                else (let msg = quoted_tool tool_name @ '' is not allowed by any active skill.''
                      in Some (DenyTool msg msg SkillRestriction None)))))"

definition permission_decision :: "gate_config \<Rightarrow> str \<Rightarrow> json \<Rightarrow> decision" where
  "permission_decision config tool_name args =
     (case gc_permission_checker config of None \<Rightarrow> Ask | Some checks \<Rightarrow> checks tool_name args)"

definition missing_confirmation_manager :: "str \<Rightarrow> gate_decision" where
  "missing_confirmation_manager tool_name =
     (let msg = quoted_tool tool_name @ '' requires confirmation but no HITL confirmation manager is configured. ''
            @ ''Configure a confirmation policy to enable tool execution.''
      in DenyTool msg msg MissingConfirmationManager None)"

definition confirmation_unavailable :: "str \<Rightarrow> gate_decision" where
  "confirmation_unavailable tool_name =
     (let msg = quoted_tool tool_name @ '' requires authority outside the active execution boundary. ''
            @ ''The current confirmation policy cannot authorize this invocation.''
      in DenyTool msg msg ConfirmationUnavailable None)"

definition confirmation_decision :: "desk \<Rightarrow> gate_config \<Rightarrow> str \<Rightarrow> json \<Rightarrow> bool \<Rightarrow> gate_decision" where
  "confirmation_decision d config tool_name args tool_requires_confirmation =
     (case gc_confirmation_manager config of
        None \<Rightarrow> missing_confirmation_manager tool_name
      | Some cm \<Rightarrow>
          (if \<not> confirmation_available_for cm tool_name args then confirmation_unavailable tool_name
           else if \<not> tool_requires_confirmation \<and> \<not> requires_confirmation_for d cm tool_name args
           then ExecuteTool ConfirmationNotRequired
           else (let policy = policy_for d cm tool_name args
                 in ConfirmTool (cp_default_timeout_ms policy) (cp_timeout_action policy))))"

definition gate_decide :: "desk \<Rightarrow> gate_config \<Rightarrow> gate_input \<Rightarrow> gate_decision" where
  "gate_decide d config i =
     (case check_skill_restrictions config (gi_tool_name i) of
        Some denial \<Rightarrow> denial
      | None \<Rightarrow>
          (case gi_pre_tool_denial i of
             Some feedback \<Rightarrow> into_gate_decision feedback (gi_tool_name i)
           | None \<Rightarrow>
               (case permission_decision config (gi_tool_name i) (gi_args i) of
                  Deny \<Rightarrow> DenyTool (''Permission denied: '' @ quoted_tool (gi_tool_name i) @ '' is blocked by permission policy.'')
                            ''Blocked by deny rule in permission policy'' PermissionDeny None
                | Allow \<Rightarrow> (if gi_tool_requires_confirmation i
                            then confirmation_decision d config (gi_tool_name i) (gi_args i) True
                            else ExecuteTool PermissionAllow)
                | Ask \<Rightarrow> confirmation_decision d config (gi_tool_name i) (gi_args i) True)))"

end
