(* ===== verification/ToolInvokers.thy ===== *)
theory ToolInvokers
  imports ToolGates
begin

section \<open>Governed tool calls\<close>

text \<open>
  The scoped invoker of \<^verbatim>\<open>agent/tool_invoker.rs\<close>.  A call runs up to its end or until it waits for the host
  (\<open>invoke_begin\<close>); once the caller has cancelled or an answer is there it goes on (\<open>invoke_end\<close>).
\<close>

subsection \<open>Outcomes of hooks\<close>

datatype gate_hook_outcome =
  HookContinue "json option" | HookBlocked str | HookRetry str int | HookSkip | HookEscalate str "str option"

record pre_tool_decision =
  pt_denial :: "hook_denial_feedback option"
  pt_updated_args :: "json option"

datatype permission_hook_decision = PermissionContinue | PermissionGranted | PermissionRefused str

definition first_field :: "json \<Rightarrow> str list \<Rightarrow> json option" where
  "first_field v keys = (case List.map_filter (json_get v) keys of [] \<Rightarrow> None | x # _ \<Rightarrow> Some x)"

definition hook_specific_output :: "json \<Rightarrow> json" where
  "hook_specific_output v = (case json_get v ''hookSpecificOutput'' of None \<Rightarrow> v | Some x \<Rightarrow> x)"

definition extract_updated_tool_input :: "json \<Rightarrow> json option" where
  "extract_updated_tool_input modified =
     (let out = hook_specific_output modified
      in case first_field out [''updatedInput'', ''updated_input'', ''args''] of
           Some value \<Rightarrow> Some value
         | None \<Rightarrow>
             (if first_field out [''additionalContext'', ''additional_context'', ''decision'', ''permissionDecision''] \<noteq> None
              then None else Some out))"

definition normalize_pre_tool_gate_outcome :: "gate_hook_outcome \<Rightarrow> pre_tool_decision" where
  "normalize_pre_tool_gate_outcome outcome =
     (case outcome of
        HookContinue modified \<Rightarrow> \<lparr>pt_denial = None, pt_updated_args = Option.bind modified extract_updated_tool_input\<rparr>
      | HookSkip \<Rightarrow> \<lparr>pt_denial = None, pt_updated_args = None\<rparr>
      | HookBlocked reason \<Rightarrow> \<lparr>pt_denial = Some (feedback_blocked reason), pt_updated_args = None\<rparr>
      | HookRetry reason retry_after_ms \<Rightarrow> \<lparr>pt_denial = Some (feedback_retry reason retry_after_ms), pt_updated_args = None\<rparr>
      | HookEscalate reason target \<Rightarrow>
          \<lparr>pt_denial = Some (feedback_blocked (''Pre-tool hook escalated''
              @ (case target of None \<Rightarrow> [] | Some t \<Rightarrow> '' to '' @ t) @ '': '' @ reason)), pt_updated_args = None\<rparr>)"

definition normalize_permission_outcome :: "gate_hook_outcome \<Rightarrow> permission_hook_decision" where
  "normalize_permission_outcome outcome =
     (case outcome of
        HookContinue (Some value) \<Rightarrow>
          (let out = hook_specific_output value;
               verdict = str_or_empty (Option.bind (first_field out [''decision'', ''permissionDecision'']) as_str);
               reason = (case Option.bind (first_field out [''reason'', ''permissionDecisionReason'']) as_str of
                           None \<Rightarrow> ''Permission hook denied the tool'' | Some t \<Rightarrow> t);
               v = to_ascii_lowercase verdict
           in if v \<in> set [''allow'', ''approve''] then PermissionGranted
              else if v \<in> set [''deny'', ''reject'', ''block''] then PermissionRefused reason
              else PermissionContinue)
      | HookBlocked reason \<Rightarrow> PermissionRefused reason
      | HookRetry reason _ \<Rightarrow> PermissionRefused reason
      | HookEscalate reason _ \<Rightarrow> PermissionRefused reason
      | HookContinue None \<Rightarrow> PermissionContinue
      | HookSkip \<Rightarrow> PermissionContinue)"

subsection \<open>The life of a call\<close>

datatype host_direct_policy = TrustedControlPlane | GovernedControlPlane

datatype invocation_origin =
  FromAgent | Nested | RuntimeInternal | HostDirect host_direct_policy | HostDirectNested host_direct_policy

definition origin_is_nested :: "invocation_origin \<Rightarrow> bool" where
  "origin_is_nested origin = (case origin of Nested \<Rightarrow> True | RuntimeInternal \<Rightarrow> True | HostDirectNested _ \<Rightarrow> True | _ \<Rightarrow> False)"

datatype invocation_terminal = CallCompleted | CallRejected | CallCancelled | CallFailed

datatype invocation_state = CallCreated | CallAdmitted | CallGatePending | CallRunning | CallTerminal invocation_terminal

definition transition_allowed :: "invocation_state \<Rightarrow> invocation_state \<Rightarrow> bool" where
  "transition_allowed st st' =
     (case (st, st') of
        (CallCreated, CallAdmitted) \<Rightarrow> True
      | (CallCreated, CallTerminal _) \<Rightarrow> True
      | (CallAdmitted, CallGatePending) \<Rightarrow> True
      | (CallAdmitted, CallTerminal _) \<Rightarrow> True
      | (CallGatePending, CallRunning) \<Rightarrow> True
      | (CallGatePending, CallTerminal _) \<Rightarrow> True
      | (CallRunning, CallTerminal _) \<Rightarrow> True
      | _ \<Rightarrow> False)"

text \<open>\<^verbatim>\<open>debug_assert!(lifecycle.transition(..).is_ok())\<close>: \<open>None\<close> once an assertion has failed.\<close>

definition assert_transition :: "invocation_state \<Rightarrow> invocation_state option \<Rightarrow> invocation_state option" where
  "assert_transition st' lifecycle =
     Option.bind lifecycle (\<lambda>st. if transition_allowed st st' then Some st' else None)"

definition assert_terminal :: "invocation_terminal \<Rightarrow> invocation_state option \<Rightarrow> invocation_state option" where
  "assert_terminal outcome = assert_transition (CallTerminal outcome)"

record tool_invocation =
  ti_id :: str
  ti_name :: str
  ti_args :: json
  ti_origin :: invocation_origin
  ti_recent_tools :: "str list"

record call_context =
  cc_invocation_stack :: "str list"
  cc_verifier_read_only :: bool

definition enter_tool_invocation :: "str \<Rightarrow> call_context \<Rightarrow> str + call_context" where
  "enter_tool_invocation tool_name ctx =
     (if tool_name \<in> set [''batch'', ''program''] \<and> tool_name \<in> set (cc_invocation_stack ctx)
      then Inl (''recursive '' @ tool_name @ '' calls are not allowed'')
      else Inr (ctx\<lparr>cc_invocation_stack := cc_invocation_stack ctx @ [tool_name]\<rparr>))"

subsection \<open>The read-only verifier\<close>

definition MUTATING_TOOLS :: "str list" where
  "MUTATING_TOOLS = [''write'', ''edit'', ''patch'', ''download'']"

definition NESTED_WRITER_TOOLS :: "str list" where
  "NESTED_WRITER_TOOLS = [''skill'', ''task'', ''batch'']"

definition is_dynamically_registered :: "str \<Rightarrow> bool" where
  "is_dynamically_registered tool = (starts_with ''mcp__'' tool \<or> starts_with ''plugin__'' tool)"

definition presentable :: "str \<Rightarrow> bool" where
  "presentable tool =
     (let tool = to_ascii_lowercase tool
      in if is_dynamically_registered tool then False
         else tool \<notin> set MUTATING_TOOLS \<and> tool \<notin> set NESTED_WRITER_TOOLS)"

definition git_command_mutates :: "json \<Rightarrow> bool" where
  "git_command_mutates args =
     (let command = str_or_empty (get_str args ''command'')
      in if command = ''checkout'' then True
         else if command = ''branch'' then get_str args ''name'' \<noteq> None
         else if command = ''stash'' then
           get_str args ''message'' \<noteq> None
           \<or> (case Option.bind (json_get args ''include_untracked'') as_bool of None \<Rightarrow> False | Some b \<Rightarrow> b)
         else if command = ''worktree'' then get_str args ''subcommand'' \<in> {Some ''create'', Some ''remove''}
         else False)"

text \<open>\<open>None\<close> when the classifier does not answer.\<close>

definition looks_mutating :: "json \<Rightarrow> bool option" where
  "looks_mutating args =
     (if json_get args ''changed_paths'' \<noteq> None then Some True
      else map_option writes_files (analyze (str_or_empty (get_str args ''command''))))"

definition tool_allowed :: "str \<Rightarrow> json \<Rightarrow> bool option" where
  "tool_allowed tool args =
     (let tool = to_ascii_lowercase tool
      in if tool \<in> set MUTATING_TOOLS \<or> tool \<in> set NESTED_WRITER_TOOLS then Some False
         else if is_dynamically_registered tool then Some False
         else if tool = ''bash'' then map_option Not (looks_mutating args)
         else if tool = ''git'' then Some (\<not> git_command_mutates args)
         else Some True)"

definition nested_call_allowed :: "str \<Rightarrow> json \<Rightarrow> bool \<Rightarrow> bool option" where
  "nested_call_allowed tool args declared_read_only =
     map_option (\<lambda>allowed. allowed
         \<and> (to_ascii_lowercase tool \<in> set [''bash'', ''git'', ''program''] \<or> declared_read_only))
       (tool_allowed tool args)"

subsection \<open>The invoker\<close>

record tool_reply =
  tr_output :: str
  tr_is_error :: bool
  tr_error_kind :: "gate_error_kind option"

datatype budget_decision = BudgetAllow | BudgetSoftLimit str | BudgetDeny str str

text \<open>What surrounds the invoker: the hook engine (PreToolUse and PermissionRequest), and the collaborators named above.\<close>

record hook_engine =
  he_pre_tool_use :: "str \<Rightarrow> json \<Rightarrow> gate_hook_outcome"
  he_permission_request :: "str \<Rightarrow> str \<Rightarrow> json \<Rightarrow> gate_hook_outcome"

record invoker_env =
  ie_hooks :: "hook_engine option"
  ie_validate_arguments :: "str \<Rightarrow> json \<Rightarrow> str option"
  ie_requires_confirmation :: "str \<Rightarrow> json \<Rightarrow> bool"
  ie_declared_read_only :: "str \<Rightarrow> json \<Rightarrow> bool"
  ie_bind_error :: "tool_invocation \<Rightarrow> str option"
  ie_budget :: "(str \<Rightarrow> budget_decision) option"
  ie_sanitize :: "str \<Rightarrow> str"
  ie_execute :: "str \<Rightarrow> json \<Rightarrow> tool_reply"

record call_end =
  ce_lifecycle :: "invocation_state option"
  ce_reply :: tool_reply
  ce_events :: "host_event list"
  ce_executed :: "(str \<times> json) option"

definition denied_reply :: "str \<Rightarrow> gate_error_kind option \<Rightarrow> tool_reply" where
  "denied_reply out kind = \<lparr>tr_output = out, tr_is_error = True, tr_error_kind = kind\<rparr>"

definition invalid_arguments_reply :: "str \<Rightarrow> str \<Rightarrow> tool_reply" where
  "invalid_arguments_reply tool_name message =
     denied_reply (''Invalid arguments for tool '' @ [CHR 0x27] @ tool_name @ [CHR 0x27] @ '': '' @ message
         @ '' [permanent - change the arguments before retrying]'') (Some (InvalidArgument message))"

text \<open>A call that ends without running the tool.\<close>

definition stopped :: "invocation_terminal \<Rightarrow> invocation_state option \<Rightarrow> tool_reply \<Rightarrow> host_event list \<Rightarrow> call_end" where
  "stopped outcome lifecycle reply events =
     \<lparr>ce_lifecycle = assert_terminal outcome lifecycle, ce_reply = reply, ce_events = events, ce_executed = None\<rparr>"

definition fire_pre_tool_use :: "invoker_env \<Rightarrow> str \<Rightarrow> json \<Rightarrow> pre_tool_decision" where
  "fire_pre_tool_use env tool_name args =
     (case ie_hooks env of
        None \<Rightarrow> \<lparr>pt_denial = None, pt_updated_args = None\<rparr>
      | Some he \<Rightarrow> normalize_pre_tool_gate_outcome (he_pre_tool_use he tool_name (if args = JNull then JObject [] else args)))"

definition fire_permission_request :: "invoker_env \<Rightarrow> str \<Rightarrow> str \<Rightarrow> json \<Rightarrow> permission_hook_decision" where
  "fire_permission_request env tool_id tool_name args =
     (case ie_hooks env of
        None \<Rightarrow> PermissionContinue
      | Some he \<Rightarrow> normalize_permission_outcome (he_permission_request he tool_id tool_name args))"

definition canonicalize_invocation_name :: "tool_invocation \<Rightarrow> tool_invocation option" where
  "canonicalize_invocation_name call = map_option (\<lambda>n. call\<lparr>ti_name := n\<rparr>) (canonical_tool_name (ti_name call))"

text \<open>\<^verbatim>\<open>Err\<close> is the message of a refused argument update or of evidence that cannot be bound; the invocation is updated in place.\<close>

definition decide_gate ::
    "invoker_env \<Rightarrow> gate_config \<Rightarrow> desk \<Rightarrow> tool_invocation \<Rightarrow> ((str + gate_decision) \<times> tool_invocation \<times> host_event list) option" where
  "decide_gate env config d call =
     (case canonicalize_invocation_name call of
        None \<Rightarrow> None
      | Some call \<Rightarrow>
          (let hook = fire_pre_tool_use env (ti_name call) (ti_args call);
               call' = (case pt_updated_args hook of None \<Rightarrow> call | Some args \<Rightarrow> call\<lparr>ti_args := args\<rparr>);
               refused = (if pt_updated_args hook = None then None else ie_validate_arguments env (ti_name call') (ti_args call'))
           in case refused of
                Some message \<Rightarrow> Some (Inl message, call', [])
              | None \<Rightarrow>
                  (case ie_bind_error env call' of
                     Some message \<Rightarrow> Some (Inl message, call', [])
                   | None \<Rightarrow>
                       (let bound = [ToolRequestBound (ti_id call') (ti_name call') (ti_args call')];
                            trusted = (\<lambda>reason. case pt_denial hook of
                                Some feedback \<Rightarrow> into_gate_decision feedback (ti_name call') | None \<Rightarrow> ExecuteTool reason)
                        in Some (Inr (
                             if ti_origin call' = RuntimeInternal then trusted RuntimeInternalApproval
                             else if ti_origin call' \<in> {HostDirect TrustedControlPlane, HostDirectNested TrustedControlPlane}
                             then trusted HostDirectTrusted
                             else gate_decide d config
                               \<lparr>gi_tool_name = ti_name call', gi_args = ti_args call', gi_pre_tool_denial = pt_denial hook,
                                gi_tool_requires_confirmation = ie_requires_confirmation env (ti_name call') (ti_args call')\<rparr>), call', bound)))))"

definition check_before_tool :: "invoker_env \<Rightarrow> str \<Rightarrow> tool_reply option \<times> host_event list" where
  "check_before_tool env tool_name =
     (case ie_budget env of
        None \<Rightarrow> (None, [])
      | Some guard \<Rightarrow>
          (case guard tool_name of
             BudgetAllow \<Rightarrow> (None, [])
           | BudgetSoftLimit resource \<Rightarrow> (None, [BudgetThresholdHit resource ''soft''])
           | BudgetDeny resource reason \<Rightarrow>
               (Some (denied_reply (''Budget exhausted on '' @ [CHR 0x27] @ resource @ [CHR 0x27] @ '': '' @ reason) None),
                [BudgetThresholdHit resource ''hard''])))"

definition execute_budgeted :: "invoker_env \<Rightarrow> bool \<Rightarrow> tool_invocation \<Rightarrow> invocation_state option \<Rightarrow> call_end" where
  "execute_budgeted env cancelled call lifecycle =
     (case check_before_tool env (ti_name call) of
        (Some denied, events) \<Rightarrow> stopped CallRejected lifecycle denied events
      | (None, events) \<Rightarrow>
          (let lifecycle = assert_transition CallRunning lifecycle;
               reply = ie_execute env (ti_name call) (ti_args call);
               outcome = (if cancelled then CallCancelled else if tr_is_error reply then CallFailed else CallCompleted)
           in \<lparr>ce_lifecycle = assert_terminal outcome lifecycle, ce_reply = reply,
               ce_events = events @ [ToolExecutionStart (ti_id call) (ti_name call) (ti_args call)],
               ce_executed = Some (ti_name call, ti_args call)\<rparr>))"

definition denial_event :: "tool_invocation \<Rightarrow> str \<Rightarrow> host_event" where
  "denial_event call reason = PermissionDenied (ti_id call) (ti_name call) (ti_args call) reason"

definition confirmation_request_of :: "tool_invocation \<Rightarrow> int \<Rightarrow> timeout_action \<Rightarrow> confirmation_request" where
  "confirmation_request_of call timeout_ms action =
     \<lparr>cq_tool_id = ti_id call, cq_tool_name = ti_name call, cq_args = ti_args call, cq_timeout_ms = timeout_ms, cq_timeout_action = action\<rparr>"

text \<open>A call is over, or waits for the host.\<close>

datatype progress =
    Over call_end
  | Awaiting confirmation_request provider receiver "host_event list"

definition resolve_gate ::
    "invoker_env \<Rightarrow> gate_config \<Rightarrow> int \<Rightarrow> bool \<Rightarrow> tool_invocation \<Rightarrow> invocation_state option \<Rightarrow> gate_decision \<Rightarrow> desk \<Rightarrow> progress \<times> desk" where
  "resolve_gate env config now cancelled call lifecycle gate d =
     (case gate of
        DenyTool out event_reason _ error_kind \<Rightarrow>
          (Over (stopped CallRejected lifecycle (denied_reply out error_kind) [denial_event call event_reason]), d)
      | ExecuteTool _ \<Rightarrow> (Over (execute_budgeted env cancelled call lifecycle), d)
      | ConfirmTool timeout_ms action \<Rightarrow>
          (case fire_permission_request env (ti_id call) (ti_name call) (ti_args call) of
             PermissionGranted \<Rightarrow> (Over (execute_budgeted env cancelled call lifecycle), d)
           | PermissionRefused reason \<Rightarrow>
               (Over (stopped CallRejected lifecycle
                  (denied_reply (quoted_tool (ti_name call) @ '' denied by permission hook: '' @ reason) None) [denial_event call reason]), d)
           | PermissionContinue \<Rightarrow>
               (case gc_confirmation_manager config of
                  Some manager \<Rightarrow>
                    (let q = confirmation_request_of call timeout_ms action;
                         (rx, events, d) = resolve_begin now q manager d
                     in (Awaiting q manager rx events, d))
                | None \<Rightarrow>
                    (Over (stopped (if cancelled then CallCancelled else CallRejected) lifecycle
                       (denied_reply (quoted_tool (ti_name call)
                          @ '' requires confirmation but no HITL confirmation manager is configured.'') None) []), d))))"

text \<open>What follows the answer: the rest of \<^verbatim>\<open>resolve_gate\<close>.\<close>

definition after_confirmation ::
    "invoker_env \<Rightarrow> bool \<Rightarrow> tool_invocation \<Rightarrow> invocation_state option \<Rightarrow> confirmation_resolution \<Rightarrow> call_end" where
  "after_confirmation env cancelled call lifecycle resolution =
     (case resolution of
        Approved \<Rightarrow> execute_budgeted env cancelled call lifecycle
      | Rejected out \<Rightarrow> stopped (if cancelled then CallCancelled else CallRejected) lifecycle (denied_reply out None) [])"

definition finish_call :: "invoker_env \<Rightarrow> tool_invocation \<Rightarrow> host_event list \<Rightarrow> call_end \<Rightarrow> call_end" where
  "finish_call env call before e =
     (let reply = (ce_reply e)\<lparr>tr_output := ie_sanitize env (tr_output (ce_reply e))\<rparr>
      in e\<lparr>ce_reply := reply, ce_events := before @ ce_events e
            @ (if origin_is_nested (ti_origin call) then [ToolEnd (ti_id call) (ti_name call) (ti_args call) (tr_output reply)] else [])\<rparr>)"

text \<open>From the gate to the end of the call or to the wait.\<close>

definition pass_gate ::
    "invoker_env \<Rightarrow> gate_config \<Rightarrow> int \<Rightarrow> bool \<Rightarrow> tool_invocation \<Rightarrow> invocation_state option \<Rightarrow> desk
     \<Rightarrow> (tool_invocation \<times> progress \<times> host_event list \<times> desk) option" where
  "pass_gate env config now cancelled call pending d =
     (case decide_gate env config d call of
        None \<Rightarrow> None
      | Some (Inl message, call, events) \<Rightarrow>
          Some (call, Over (finish_call env call events
            (stopped CallFailed pending (invalid_arguments_reply (ti_name call) message) [])), [], d)
      | Some (Inr gate, call, events) \<Rightarrow>
          (case resolve_gate env config now cancelled call pending gate d of
             (Over e, d) \<Rightarrow> Some (call, Over (finish_call env call events e), [], d)
           | (Awaiting q p rx waiting, d) \<Rightarrow> Some (call, Awaiting q p rx waiting, events @ waiting, d)))"

text \<open>\<open>gate_cancelled\<close>: the token fired before the gate had decided; \<open>cancelled\<close>: it has fired when the outcome is noted.\<close>

definition invoke_begin ::
    "invoker_env \<Rightarrow> gate_config \<Rightarrow> int \<Rightarrow> bool \<Rightarrow> bool \<Rightarrow> call_context \<Rightarrow> tool_invocation \<Rightarrow> desk
     \<Rightarrow> (tool_invocation \<times> progress \<times> host_event list \<times> desk) option" where
  "invoke_begin env config now gate_cancelled cancelled ctx call d =
     Option.bind (canonicalize_invocation_name call) (\<lambda>call.
       let created = Some CallCreated;
           over = (\<lambda>call e. Some (call, Over (finish_call env call [] e), [], d))
       in case enter_tool_invocation (ti_name call) ctx of
            Inl message \<Rightarrow> over call (stopped CallFailed created (denied_reply message None) [])
          | Inr _ \<Rightarrow>
              (let admitted = assert_transition CallAdmitted created
               in Option.bind (if cc_verifier_read_only ctx
                       then nested_call_allowed (ti_name call) (ti_args call) (ie_declared_read_only env (ti_name call) (ti_args call))
                       else Some True) (\<lambda>allowed.
                 if \<not> allowed
                 then over call (stopped CallFailed admitted (denied_reply ''verifier role cannot mutate the workspace'' None) [])
                 else (case ie_validate_arguments env (ti_name call) (ti_args call) of
                     Some message \<Rightarrow> over call (stopped CallFailed admitted (invalid_arguments_reply (ti_name call) message) [])
                   | None \<Rightarrow>
                       (let pending = assert_transition CallGatePending admitted
                        in if gate_cancelled
                           then over call (stopped CallCancelled pending
                             (denied_reply (quoted_tool (ti_name call) @ '' cancelled by caller'') None) [])
                           else pass_gate env config now cancelled call pending d)))))"

text \<open>\<open>cancelled\<close>: the token has fired when the call wakes up; \<open>cancelled_later\<close>: it has fired when the outcome is noted.\<close>

definition invoke_end ::
    "invoker_env \<Rightarrow> bool \<Rightarrow> bool \<Rightarrow> tool_invocation \<Rightarrow> confirmation_request \<Rightarrow> provider \<Rightarrow> receiver \<Rightarrow> host_event list \<Rightarrow> desk
     \<Rightarrow> (call_end \<times> desk) option" where
  "invoke_end env cancelled cancelled_later call q p rx before d =
     map_option (\<lambda>(resolution, events, d).
         (finish_call env call (before @ events)
            (after_confirmation env (cancelled \<or> cancelled_later) call (Some CallGatePending) resolution), d))
       (resolve_end q p cancelled rx d)"

text \<open>The whole call; \<open>host\<close> is what happens on the desk while it waits, \<open>None\<close> that it still waits or has panicked.\<close>

definition invoke ::
    "invoker_env \<Rightarrow> gate_config \<Rightarrow> int \<Rightarrow> bool \<Rightarrow> bool \<Rightarrow> bool \<Rightarrow> call_context \<Rightarrow> tool_invocation \<Rightarrow> (desk \<Rightarrow> desk) \<Rightarrow> desk \<Rightarrow> call_end option" where
  "invoke env config now gate_cancelled cancelled cancelled_later ctx call host d =
     Option.bind (invoke_begin env config now gate_cancelled cancelled_later ctx call d) (\<lambda>(call, progress, events, d).
       case progress of
         Over e \<Rightarrow> Some e
       | Awaiting q p rx _ \<Rightarrow> map_option fst (invoke_end env cancelled cancelled_later call q p rx events (host d)))"

subsection \<open>What a child run inherits\<close>

fun stricter_decision :: "decision \<Rightarrow> decision \<Rightarrow> decision" where
  "stricter_decision Deny _ = Deny"
| "stricter_decision _ Deny = Deny"
| "stricter_decision Ask _ = Ask"
| "stricter_decision _ Ask = Ask"
| "stricter_decision Allow Allow = Allow"

definition compose_permission_checker :: "checker \<Rightarrow> checker option \<Rightarrow> checker" where
  "compose_permission_checker child parent =
     (case parent of
        None \<Rightarrow> child
      | Some p \<Rightarrow> (\<lambda>tool_name args. stricter_decision (child tool_name args) (p tool_name args)))"

definition delegated_expose_to_model ::
    "externals \<Rightarrow> (str \<Rightarrow> bool) \<Rightarrow> policy option \<Rightarrow> (str \<Rightarrow> bool) \<Rightarrow> policy option \<Rightarrow> str \<Rightarrow> bool option" where
  "delegated_expose_to_model E child_expose child_policy parent_expose parent_policy tool_name =
     (if \<not> child_expose tool_name then Some False
      else (case child_policy of
          None \<Rightarrow> Some (parent_expose tool_name)
        | Some p \<Rightarrow>
            Option.bind (declares_tool_access E p tool_name) (\<lambda>declared.
              if declared
              then (case parent_policy of None \<Rightarrow> Some (parent_expose tool_name) | Some pp \<Rightarrow> expose_to_model E pp tool_name)
              else if pol_default_decision p = Deny then Some False
              else Some (parent_expose tool_name))))"

datatype confirmation_inheritance = InheritAutoApprove | DenyOnAsk | InheritParent

text \<open>\<^verbatim>\<open>AgentDefinition::apply_to\<close>: \<open>declared\<close> is the inheritance the definition names, \<open>addr\<close> the address of a new node.\<close>

definition default_inheritance :: "confirmation_inheritance option \<Rightarrow> bool \<Rightarrow> confirmation_inheritance" where
  "default_inheritance declared has_permissions =
     (case declared of Some c \<Rightarrow> c | None \<Rightarrow> (if has_permissions then InheritAutoApprove else DenyOnAsk))"

definition child_confirmation :: "confirmation_inheritance \<Rightarrow> provider option \<Rightarrow> nat \<Rightarrow> provider option" where
  "child_confirmation inheritance own addr =
     (case own of
        Some p \<Rightarrow> Some p
      | None \<Rightarrow> (case inheritance of InheritAutoApprove \<Rightarrow> Some (AutoApprove addr) | _ \<Rightarrow> None))"

text \<open>\<^verbatim>\<open>ChildRunContext\<close> and its \<^verbatim>\<open>apply_to\<close>, the part that governs tool calls.\<close>

record child_run_context =
  cx_skill_registry :: "skill_registry option"
  cx_permission_checker :: "checker option"
  cx_confirmation_manager :: "provider option"
  cx_enforce_skill_restrictions :: "bool option"

definition apply_governance :: "confirmation_inheritance \<Rightarrow> child_run_context \<Rightarrow> nat \<Rightarrow> gate_config \<Rightarrow> gate_config" where
  "apply_governance inheritance parent addr child =
     (let child_conf = (if gc_confirmation_manager child = None \<and> inheritance = InheritParent
                        then cx_confirmation_manager parent else gc_confirmation_manager child)
      in child\<lparr>gc_skill_registry := (case gc_skill_registry child of None \<Rightarrow> cx_skill_registry parent | r \<Rightarrow> r),
          gc_permission_checker :=
            (case (gc_permission_checker child, cx_permission_checker parent) of
               (Some c, Some p) \<Rightarrow> Some (compose_permission_checker c (Some p))
             | (Some c, None) \<Rightarrow> Some c
             | (None, Some p) \<Rightarrow> Some p
             | (None, None) \<Rightarrow> None),
          gc_confirmation_manager := Some (Delegated addr (gc_permission_checker child) child_conf
            (cx_permission_checker parent) (cx_confirmation_manager parent)),
          gc_enforce_skill_restrictions := (case cx_enforce_skill_restrictions parent of
            None \<Rightarrow> gc_enforce_skill_restrictions child | Some enforce \<Rightarrow> enforce)\<rparr>)"

end
