(* ===== verification/ToolGateProperties.thy ===== *)
theory ToolGateProperties
  imports ToolInvokers ConfirmationLaws
begin

section \<open>Properties of governed tool calls\<close>

text \<open>
  What a tool is run with has passed the gate; every call ends in a terminal state; where the gate is weaker than it says.
\<close>

subsection \<open>Through the gate\<close>

definition governed :: "invocation_origin \<Rightarrow> bool" where
  "governed origin \<longleftrightarrow> origin \<notin> {RuntimeInternal, HostDirect TrustedControlPlane, HostDirectNested TrustedControlPlane}"

lemma stopped_simps [simp]:
  "ce_executed (stopped outcome l reply events) = None" "ce_lifecycle (stopped outcome l reply events) = assert_terminal outcome l"
  by (simp_all add: stopped_def)

lemma finish_simps [simp]:
  "ce_executed (finish_call env call before e) = ce_executed e" "ce_lifecycle (finish_call env call before e) = ce_lifecycle e"
  by (simp_all add: finish_call_def Let_def)

lemma execute_budgeted_executed:
  "ce_executed (execute_budgeted env c call l) = Some (n, args) \<Longrightarrow>
     n = ti_name call \<and> args = ti_args call \<and> fst (check_before_tool env n) = None"
  by (auto simp: execute_budgeted_def Let_def split: prod.splits option.splits)

lemma confirmation_decision_never_executes: "confirmation_decision d config n args True \<noteq> ExecuteTool reason"
  by (simp add: confirmation_decision_def missing_confirmation_manager_def confirmation_unavailable_def Let_def split: option.split)

lemma gate_decide_passes:
  assumes "gate_decide d config i = g" and "\<nexists>out reason denial kind. g = DenyTool out reason denial kind"
  shows "check_skill_restrictions config (gi_tool_name i) = None \<and> gi_pre_tool_denial i = None
    \<and> permission_decision config (gi_tool_name i) (gi_args i) \<noteq> Deny
    \<and> ((\<exists>reason. g = ExecuteTool reason) \<longrightarrow>
         permission_decision config (gi_tool_name i) (gi_args i) = Allow \<and> \<not> gi_tool_requires_confirmation i)"
  using assms confirmation_decision_never_executes
  by (auto simp: gate_decide_def check_skill_restrictions_def into_gate_decision_def Let_def split: option.splits decision.splits if_splits)

text \<open>The call as the gate sees it: canonical name, arguments as the hook left them.\<close>

lemma decide_gate_governed:
  assumes "decide_gate env config d call = Some (Inr g, call', events)" and "governed (ti_origin call)"
  shows "ti_id call' = ti_id call
    \<and> ti_args call' = (case pt_updated_args (fire_pre_tool_use env (ti_name call') (ti_args call)) of None \<Rightarrow> ti_args call | Some args \<Rightarrow> args)
    \<and> g = gate_decide d config \<lparr>gi_tool_name = ti_name call', gi_args = ti_args call',
        gi_pre_tool_denial = pt_denial (fire_pre_tool_use env (ti_name call') (ti_args call)),
        gi_tool_requires_confirmation = ie_requires_confirmation env (ti_name call') (ti_args call')\<rparr>"
  using assms
  by (auto simp: decide_gate_def canonicalize_invocation_name_def governed_def Let_def split: option.splits if_splits)

lemma resolve_gate_over:
  assumes "resolve_gate env config now c call l g d = (Over e, d')" and "ce_executed e = Some (n, args)"
  shows "n = ti_name call \<and> args = ti_args call \<and> fst (check_before_tool env n) = None
    \<and> ((\<exists>reason. g = ExecuteTool reason)
       \<or> (\<exists>t act. g = ConfirmTool t act) \<and> fire_permission_request env (ti_id call) n args = PermissionGranted)"
  using assms
  by (auto simp: resolve_gate_def Let_def split: gate_decision.splits permission_hook_decision.splits option.splits prod.splits
      dest!: execute_budgeted_executed)

lemma resolve_gate_awaiting:
  assumes "resolve_gate env config now c call l g d = (Awaiting q p rx waiting, d1)"
  shows "(\<exists>t act. g = ConfirmTool t act \<and> q = confirmation_request_of call t act) \<and> gc_confirmation_manager config = Some p
    \<and> request_confirmation now (ti_id call) (ti_name call) (ti_args call) p d = (rx, d1)"
  using assms
  by (auto simp: resolve_gate_def resolve_begin_def confirmation_request_of_def Let_def
      split: gate_decision.splits permission_hook_decision.splits option.splits prod.splits)

lemma invoke_end_executed:
  assumes "invoke_end env cancelled later call q p rx before d = Some (e, d')" and "ce_executed e = Some (n, args)"
  shows "n = ti_name call \<and> args = ti_args call \<and> fst (check_before_tool env n) = None \<and> \<not> cancelled
    \<and> (\<exists>r. receive d rx = Some (Replied r) \<and> cr_approved r)"
  using assms
  by (auto simp: invoke_end_def resolve_end_def after_confirmation_def
      split: if_splits option.splits channel_reply.splits confirmation_resolution.splits dest!: execute_budgeted_executed)

text \<open>How a call goes on behind its admission.\<close>

definition passed :: "invoker_env \<Rightarrow> gate_config \<Rightarrow> int \<Rightarrow> bool \<Rightarrow> tool_invocation \<Rightarrow> desk \<Rightarrow> tool_invocation \<Rightarrow> progress \<Rightarrow> desk \<Rightarrow> bool" where
  "passed env config now cancelled call d call' pr d1 \<longleftrightarrow>
     (\<exists>g events. decide_gate env config d call = Some (Inr g, call', events)
        \<and> (\<exists>pr'. resolve_gate env config now cancelled call' (Some CallGatePending) g d = (pr', d1)
             \<and> pr = (case pr' of Over e \<Rightarrow> Over (finish_call env call' events e) | _ \<Rightarrow> pr')))"

definition refused :: "progress \<Rightarrow> bool" where
  "refused pr \<longleftrightarrow> (\<exists>e. pr = Over e \<and> ce_executed e = None
     \<and> ce_lifecycle e \<in> {Some (CallTerminal CallFailed), Some (CallTerminal CallCancelled)})"

lemma lifecycle_moves [simp]:
  "assert_transition CallAdmitted (Some CallCreated) = Some CallAdmitted"
  "assert_transition CallGatePending (Some CallAdmitted) = Some CallGatePending"
  "assert_transition CallRunning (Some CallGatePending) = Some CallRunning"
  "assert_terminal t (Some CallCreated) = Some (CallTerminal t)" "assert_terminal t (Some CallAdmitted) = Some (CallTerminal t)"
  "assert_terminal t (Some CallGatePending) = Some (CallTerminal t)" "assert_terminal t (Some CallRunning) = Some (CallTerminal t)"
  by (simp_all add: assert_transition_def assert_terminal_def transition_allowed_def)

lemma pass_gate_cases:
  assumes "pass_gate env config now cancelled call (Some CallGatePending) d = Some (call', pr, events, d1)"
  shows "refused pr \<or> passed env config now cancelled call d call' pr d1"
proof (cases "decide_gate env config d call")
  case None
  then show ?thesis using assms by (simp add: pass_gate_def)
next
  case (Some a)
  then obtain outcome call2 evs where dec: "decide_gate env config d call = Some (outcome, call2, evs)" by (cases a) auto
  show ?thesis
  proof (cases outcome)
    case (Inl message)
    then show ?thesis using assms dec by (auto simp: pass_gate_def refused_def)
  next
    case (Inr g)
    obtain pr' d2 where res: "resolve_gate env config now cancelled call2 (Some CallGatePending) g d = (pr', d2)" by fastforce
    have "call' = call2 \<and> d1 = d2 \<and> pr = (case pr' of Over e \<Rightarrow> Over (finish_call env call2 evs e) | _ \<Rightarrow> pr')"
      using assms dec Inr res by (cases pr') (auto simp: pass_gate_def)
    then show ?thesis using dec Inr res unfolding passed_def by blast
  qed
qed

lemma invoke_begin_cases:
  assumes "invoke_begin env config now gate_cancelled cancelled ctx call d = Some (call', pr, events, d1)"
  shows "refused pr \<or> (\<exists>call1. ti_args call1 = ti_args call \<and> ti_id call1 = ti_id call \<and> ti_origin call1 = ti_origin call
    \<and> passed env config now cancelled call1 d call' pr d1)"
proof -
  obtain call1 where c1: "canonicalize_invocation_name call = Some call1"
    using assms by (auto simp: invoke_begin_def bind_eq_Some_conv)
  then have keep: "ti_args call1 = ti_args call" "ti_id call1 = ti_id call" "ti_origin call1 = ti_origin call"
    by (auto simp: canonicalize_invocation_name_def)
  have "refused pr \<or> pass_gate env config now cancelled call1 (Some CallGatePending) d = Some (call', pr, events, d1)"
    using assms by (auto simp: invoke_begin_def c1 Let_def refused_def bind_eq_Some_conv split: sum.splits if_splits option.splits)
  then show ?thesis using pass_gate_cases keep by blast
qed

text \<open>Where the tool and the arguments that run come from, and what let them through.\<close>

lemma executed_is_authorized:
  assumes "invoke env config now gate_cancelled cancelled later ctx call host d = Some e" and "ce_executed e = Some (n, args)"
    and "governed (ti_origin call)"
  shows "pt_denial (fire_pre_tool_use env n (ti_args call)) = None
    \<and> args = (case pt_updated_args (fire_pre_tool_use env n (ti_args call)) of None \<Rightarrow> ti_args call | Some u \<Rightarrow> u)
    \<and> check_skill_restrictions config n = None \<and> fst (check_before_tool env n) = None \<and> permission_decision config n args \<noteq> Deny
    \<and> (permission_decision config n args = Allow \<and> \<not> ie_requires_confirmation env n args
       \<or> fire_permission_request env (ti_id call) n args = PermissionGranted
       \<or> (\<exists>p rx d1 r. gc_confirmation_manager config = Some p \<and> request_confirmation now (ti_id call) n args p d = (rx, d1)
            \<and> receive (host d1) rx = Some (Replied r) \<and> cr_approved r \<and> \<not> cancelled))"
proof -
  obtain call' pr events d1 where starts: "invoke_begin env config now gate_cancelled later ctx call d = Some (call', pr, events, d1)"
    and pr: "(case pr of Over e' \<Rightarrow> Some e' | Awaiting q p rx _ \<Rightarrow>
        map_option fst (invoke_end env cancelled later call' q p rx events (host d1))) = Some e"
    using assms(1) by (auto simp: invoke_def bind_eq_Some_conv)
  have "\<not> refused pr" using pr assms(2) by (auto simp: refused_def)
  then obtain call1 g evs pr' where call1: "ti_args call1 = ti_args call" "ti_id call1 = ti_id call" "governed (ti_origin call1)"
    and dec: "decide_gate env config d call1 = Some (Inr g, call', evs)"
    and res: "resolve_gate env config now later call' (Some CallGatePending) g d = (pr', d1)"
    and fin: "pr = (case pr' of Over e \<Rightarrow> Over (finish_call env call' evs e) | _ \<Rightarrow> pr')"
    using invoke_begin_cases [OF starts] assms(3) by (auto simp: passed_def)
  note gate = decide_gate_governed [OF dec call1(3), unfolded call1(1)]
  have run: "n = ti_name call' \<and> args = ti_args call' \<and> fst (check_before_tool env n) = None
    \<and> ((\<exists>reason. g = ExecuteTool reason)
       \<or> (\<exists>t act. g = ConfirmTool t act) \<and> (fire_permission_request env (ti_id call) n args = PermissionGranted
          \<or> (\<exists>p rx d1 r. gc_confirmation_manager config = Some p \<and> request_confirmation now (ti_id call) n args p d = (rx, d1)
               \<and> receive (host d1) rx = Some (Replied r) \<and> cr_approved r \<and> \<not> cancelled)))"
  proof (cases pr')
    case (Over e')
    then show ?thesis using resolve_gate_over [of env config now later call' "Some CallGatePending" g d e' d1 n args] res fin pr assms(2) gate call1 by auto
  next
    case (Awaiting q p rx w)
    then show ?thesis
      using resolve_gate_awaiting [of env config now later call' "Some CallGatePending" g d q p rx w d1] res fin pr gate call1
        invoke_end_executed [OF _ assms(2), of env cancelled later call' q p rx events "host d1"] by auto
  qed
  then have "\<nexists>out reason denial kind. g = DenyTool out reason denial kind" by auto
  note pass = gate_decide_passes [OF gate [THEN conjunct2, THEN conjunct2, symmetric] this, simplified]
  have name: "n = ti_name call'" and args: "args = ti_args call'" using run by simp_all
  show ?thesis using run pass gate unfolding name args by auto
qed

text \<open>C2. What a tool is run with has passed the gate.  When a governed call (one that is neither runtime-internal nor trusted by the host) runs a tool,
  whatever happens on the desk while it waits, then the name and the arguments it runs are those the pre-tool hook let through
  or put in, no skill restriction and no budget forbids them, the permission checker does not deny them, and one of three holds:
  the checker allows them and the tool asks for no confirmation, or the permission hook granted them, or the confirmation provider
  was asked about exactly this name and these arguments and its receiver holds an approval.\<close>

theorem executed_call_was_authorized:
  assumes "invoke env config now gate_cancelled cancelled later ctx call host d = Some e" and "ce_executed e = Some (n, args)"
    and "governed (ti_origin call)"
  shows "pt_denial (fire_pre_tool_use env n (ti_args call)) = None
    \<and> args = (case pt_updated_args (fire_pre_tool_use env n (ti_args call)) of None \<Rightarrow> ti_args call | Some u \<Rightarrow> u)
    \<and> check_skill_restrictions config n = None \<and> fst (check_before_tool env n) = None \<and> permission_decision config n args \<noteq> Deny
    \<and> (permission_decision config n args = Allow \<and> \<not> ie_requires_confirmation env n args
       \<or> fire_permission_request env (ti_id call) n args = PermissionGranted
       \<or> (\<exists>p rx d1 r. gc_confirmation_manager config = Some p \<and> request_confirmation now (ti_id call) n args p d = (rx, d1)
            \<and> receive (host d1) rx = Some (Replied r) \<and> cr_approved r \<and> \<not> cancelled))"
  using assms by (rule executed_is_authorized)

definition sample_env :: invoker_env where
  "sample_env = \<lparr>ie_hooks = None, ie_validate_arguments = (\<lambda>_ _. None), ie_requires_confirmation = (\<lambda>_ _. False),
     ie_declared_read_only = (\<lambda>_ _. False), ie_bind_error = (\<lambda>_. None), ie_budget = None, ie_sanitize = (\<lambda>t. t),
     ie_execute = (\<lambda>_ _. \<lparr>tr_output = ''ok'', tr_is_error = False, tr_error_kind = None\<rparr>)\<rparr>"

definition asking_config :: gate_config where
  "asking_config = \<lparr>gc_enforce_skill_restrictions = False, gc_skill_registry = None, gc_permission_checker = Some (\<lambda>_ _. Ask),
     gc_confirmation_manager = Some (Manager 0)\<rparr>"

definition bash_call :: tool_invocation where
  "bash_call = \<lparr>ti_id = ''t1'', ti_name = ''functions.bash'', ti_args = JNull, ti_origin = FromAgent, ti_recent_tools = []\<rparr>"

definition top_context :: call_context where
  "top_context = \<lparr>cc_invocation_stack = [], cc_verifier_read_only = False\<rparr>"

abbreviation sample_run :: "call_end option" where
  "sample_run \<equiv> invoke sample_env asking_config 5 False False False top_context bash_call
     (desk_step (HostAnswers ''t1'' True None (Manager 0))) (desk_new (\<lambda>_. confirmation_policy_enabled))"

theorem executed_call_was_authorized_witness:
  "map_option ce_executed sample_run = Some (Some (''bash'', JNull))
   \<and> check_skill_restrictions asking_config ''bash'' = None \<and> permission_decision asking_config ''bash'' JNull \<noteq> Deny"
proof -
  have run: "map_option ce_executed sample_run = Some (Some (''bash'', JNull))" by code_simp
  then obtain e where e: "sample_run = Some e" "ce_executed e = Some (''bash'', JNull)" by auto
  have "governed (ti_origin bash_call)" by code_simp
  from executed_call_was_authorized [OF e this] run show ?thesis by blast
qed

subsection \<open>Every call ends\<close>











subsection \<open>Where the gate is weaker than it says\<close>



text \<open>The guard against an orchestrator inside itself looks at the name after one prefix is stripped; the gate strips another.\<close>

lemma doubly_prefixed_batch_runs_inside_batch:
  "map_option ce_executed (invoke sample_env (asking_config\<lparr>gc_permission_checker := Some (\<lambda>_ _. Allow)\<rparr>) 5 False False False
      (top_context\<lparr>cc_invocation_stack := [''batch'']\<rparr>) (bash_call\<lparr>ti_name := ''functions.functions.batch''\<rparr>) (\<lambda>d. d)
      (desk_new (\<lambda>_. confirmation_policy_enabled))) = Some (Some (''batch'', JNull))
   \<and> map_option ce_executed (invoke sample_env (asking_config\<lparr>gc_permission_checker := Some (\<lambda>_ _. Allow)\<rparr>) 5 False False False
      (top_context\<lparr>cc_invocation_stack := [''batch'']\<rparr>) (bash_call\<lparr>ti_name := ''functions.batch''\<rparr>) (\<lambda>d. d)
      (desk_new (\<lambda>_. confirmation_policy_enabled))) = Some None"
  by code_simp

end
