(* ===== verification/Spec2Isabelle.thy ===== *)
theory Spec2Isabelle
  imports ShellVerdicts PolicyProperties GuardrailProperties SchedulerProperties GraphProperties DiffProperties EditProperties PlanProperties
    FileToolProperties RunControlProperties RunStoreProperties ConfirmationProperties ToolGateProperties
begin

text \<open>
  A3S Code is a coding agent: a language model proposes tool calls, and the agent runs them for a user.
  What stands between a proposal and its effect is the permission system, what bounds how much runs at
  once is the task scheduler, what remembers the work is the state graph with its event log, and what changes a
  file are the write, edit and patch tools.  This library models them from the Rust sources under
  \<^verbatim>\<open>core/src\<close>.

  \<^bold>\<open>The parts and how they interact.\<close>  A tool call (a name and JSON arguments) reaches
  \<^verbatim>\<open>PermissionPolicy::check\<close>, which walks deny, allow and ask rules, splits batch reads into their files, and
  for shell tools asks \<^verbatim>\<open>shell::analyze\<close> what the command line would run.  The analysis tokenizes the line
  (\<^verbatim>\<open>shell/lexer.rs\<close>), unwraps wrappers, descends into nested scripts and gives one risk class.
  \<^verbatim>\<open>PermissionManager\<close> combines a global policy with one per session.  The interactive guardrail judges the same
  call by a four-level risk assessment, the workspace boundary and the approval mode of the session.  \<^verbatim>\<open>ToolSafetyGate\<close> puts these
  decisions together with skill restrictions and hooks; a call that needs confirmation is parked with the confirmation
  manager until the host answers, and a delegated run asks the manager of its parent as well.  A
  call that may run asks \<^verbatim>\<open>TaskScheduler\<close> for admission: one actor that owns a priority queue, the global
  capacity and the quotas.  What was done is kept by \<^verbatim>\<open>GraphRuntime\<close>: an append-only log of hash-chained records,
  the graph of objects and relations it projects to, behaviors that react to records with patches, cursors
  of external streams, and a store of log generations with compare-and-swap.  A call of a file tool reads the
  workspace, works out the new text (the patch tool parses a unified diff and applies its hunks, the edit tool
  replaces text under the line ends of the file, the write tool overwrites or appends), claims the path in a
  table that all sessions of the process share, and writes, under the version it read if the backend has versions.  The plan that an agent follows is a list of steps with dependencies, updated by
  notifications that may be delivered again.  A host steers or interrupts a run through its control inbox: requests
  are put to a hook, admitted with a receipt, and taken over by the loop at its safe points.  The runs of a session, their status
  and the latest of their events are kept in a run store.

  \<^bold>\<open>Theories and sources.\<close>
  \<^item> \<open>Prelude\<close>: the Rust string and iterator operations the code uses, shared lemmas and collections.
  \<^item> \<open>ShellTypes\<close>, \<open>ShellLexer\<close>: risk classes, constructs, tokens, and every function of
    \<^verbatim>\<open>permissions/shell/lexer.rs\<close>; the \<^verbatim>\<open>Lexer\<close> struct is the record \<open>lexer\<close>.
  \<^item> \<open>ShellPrograms\<close>, \<open>ShellClassifier\<close>: \<^verbatim>\<open>permissions/shell.rs\<close>, from path and option tests to \<open>analyze\<close>.
  \<^item> \<open>PermissionRules\<close>, \<open>PermissionPolicies\<close>, \<open>PermissionManagers\<close>: \<^verbatim>\<open>tool_name.rs\<close>,
    \<^verbatim>\<open>permissions/rule.rs\<close>, \<^verbatim>\<open>read_batch.rs\<close>, \<^verbatim>\<open>policy.rs\<close>, \<^verbatim>\<open>style_specialty.rs\<close>, \<^verbatim>\<open>manager.rs\<close>, and the
    lanes of \<^verbatim>\<open>queue.rs\<close>.
  \<^item> \<open>RiskAssessments\<close>, \<open>WorkspacePaths\<close>, \<open>InteractiveGuardrail\<close>: \<^verbatim>\<open>permissions/risk.rs\<close>,
    \<^verbatim>\<open>interactive.rs\<close> and \<^verbatim>\<open>interactive/assessment.rs\<close> on a Unix host.
  \<^item> \<open>Confirmations\<close>: \<^verbatim>\<open>hitl.rs\<close>, \<^verbatim>\<open>tool_confirmation.rs\<close> and the delegated provider of \<^verbatim>\<open>child_run.rs\<close>.  A provider is a tree of the
    datatype \<open>provider\<close>; managers, forwarded ids and one-shot channels are the record \<open>desk\<close>.
  \<^item> \<open>ToolGates\<close>, \<open>ToolInvokers\<close>: \<^verbatim>\<open>safety_gate.rs\<close>, the skill restrictions of \<^verbatim>\<open>skills/mod.rs\<close>, and the governed call of
    \<^verbatim>\<open>agent/tool_invoker.rs\<close> with its lifecycle, hooks, budget, read-only verifier and what a child run inherits.
  \<^item> \<open>TaskScheduler\<close>: \<^verbatim>\<open>task_scheduler.rs\<close> and the validation of \<^verbatim>\<open>execution_identity.rs\<close>.  The state of the
    actor is the record \<open>scheduler\<close>, a message a value of \<open>message\<close>, a handler a function from state to
    state and replies; clients, channels and actor are the step relation \<open>system_step\<close>.

  \<^item> \<open>StateGraphs\<close>: \<^verbatim>\<open>state_graph/types.rs\<close>, \<^verbatim>\<open>event.rs\<close> and \<^verbatim>\<open>graph.rs\<close>: events, the graph, its structural hash,
    differences, and the strict replay as a loop over the record \<open>replay_state\<close>.
  \<^item> \<open>GraphRuntimes\<close>: \<^verbatim>\<open>state_graph/runtime.rs\<close>, \<^verbatim>\<open>behavior.rs\<close> and the in-memory store of \<^verbatim>\<open>store.rs\<close>.  The struct
    \<^verbatim>\<open>GraphRuntime\<close> is the record \<open>graph_runtime\<close>; a method that mutates and may fail gives an outcome and the
    runtime it leaves behind.
  \<^item> \<open>UnifiedDiffs\<close>: the diff engine of \<^verbatim>\<open>tools/builtin/patch.rs\<close>, from \<^verbatim>\<open>parse_hunks\<close> to \<^verbatim>\<open>apply_hunks\<close>; the variables of
    the loop over hunks are the record \<open>patch_state\<close>.
  \<^item> \<open>TextEdits\<close>: \<^verbatim>\<open>text.rs\<close>, the edit that treats LF and CRLF alike and the cut at a byte bound.
  \<^item> \<open>WriteClaims\<close>: \<^verbatim>\<open>external_observation.rs\<close>; the table of dirty paths is the association list \<open>claims\<close>.
  \<^item> \<open>WorkspaceBackends\<close>: \<^verbatim>\<open>workspace/path.rs\<close>, \<^verbatim>\<open>error.rs\<close>, the two file system traits of \<^verbatim>\<open>mod.rs\<close> as the record \<open>backend\<close>,
    versioned reads and writes of \<^verbatim>\<open>services.rs\<close>, the in-memory backend of \<^verbatim>\<open>conformance.rs\<close>.
  \<^item> \<open>FileTools\<close>: \<^verbatim>\<open>tools/builtin/edit.rs\<close>, \<^verbatim>\<open>patch.rs\<close> and \<^verbatim>\<open>write.rs\<close>, each as a reading and a writing half, between which
    other sessions may work.
  \<^item> \<open>RunControls\<close>: \<^verbatim>\<open>run_control.rs\<close> with the safe point of \<^verbatim>\<open>agent/loop_runtime.rs\<close> and the entry points of
    \<^verbatim>\<open>agent_api/session_runs.rs\<close>.  The state behind the inbox's locks is the record \<open>inbox\<close>; every method is a function
    from inbox to result and inbox.
  \<^item> \<open>RunStores\<close>: \<^verbatim>\<open>run.rs\<close>; the struct \<^verbatim>\<open>InMemoryRunStore\<close> is the record \<open>run_store\<close>, its maps are association lists.
  \<^item> \<open>ExecutionPlans\<close>: tasks and plans of \<^verbatim>\<open>planning/mod.rs\<close>.

  \<^bold>\<open>What the lemmas show.\<close>
  \<^item> \<open>ShellLexer_Termination\<close>, \<open>ShellLexer_Calm\<close>, \<open>ShellTotal\<close>: the tokenizer and the classifier answer on
    every line without a stalling white-space character, and on a line that starts with one the tokenizer
    does not; the fuel is enough.
  \<^item> \<open>ShellLexer_RoundTrip\<close>: lexing inverts printing; quoted text is never interpreted.
  \<^item> \<open>ShellSafety\<close>, \<open>ShellVerdicts\<close>: the contract of the nested analyzer as the locale \<open>nested_analysis\<close>; the
    verdict is the least upper bound of its causes; read-only is given on evidence; escalation, fetched
    code and the removal of a root directory are seen wherever they stand.
  \<^item> \<open>GlobSemantics\<close>: the translation of globs to regular expressions agrees with a reference semantics,
    for an engine that behaves as documented.
  \<^item> \<open>PolicyLaws\<close>, \<open>PolicyProperties\<close>: deny rules win, the catastrophic floor, scoped allows cover every
    command, batch reads need every file (locale \<open>batch_checker\<close>, interpreted for the policy and for
    the manager), postures, decoding, the manager.
  \<^item> \<open>GuardrailProperties\<close>: hard denials, the workspace boundary, monotone modes, batches hide no risk.
  \<^item> \<open>ConfirmationLaws\<close>, \<open>ConfirmationProperties\<close>: every operation of every provider keeps each relation between desks that the moves
    of the locales \<open>settling_relation\<close> and \<open>desk_relation\<close> keep; so only the host approves, no request is lost, and a delegated
    run needs its parent.
  \<^item> \<open>ToolGateProperties\<close>: what a governed call runs is what hook, skills, checker, budget and, where asked, the host let
    through; every call that answers ends in a terminal state; a disabled policy is waived for a child.
  \<^item> \<open>SchedulerLaws\<close>, \<open>SchedulerAccounts\<close>, \<open>SchedulerInvariant\<close>, \<open>SchedulerHandlers\<close>, \<open>SchedulerTurns\<close>,
    \<open>SchedulerProperties\<close>: for every queue with the laws of the locale \<open>priority_queue\<close>, in every reachable
    state the capacity and the quotas are respected and exactly accounted, a waiting request is
    blocked, no request is forgotten, a shutdown completes, and admission follows the aged priority.
  \<^item> \<open>GraphHashing\<close>: the structural hash is addition modulo \<open>256 ^ 32\<close> (locale \<open>graph_hashing\<close>, whose law on digests
    is proved for every environment), so the incremental hash is the hash of the graph.
  \<^item> \<open>GraphRuntimeLaws\<close>, \<open>GraphLifecycles\<close>: every operation only appends, and keeps the log replayable to the
    graph, the hash and the cursors; the runtimes a client can reach are \<open>runtime_reachable\<close>.
  \<^item> \<open>GraphPatches\<close>: the overlay that validates a patch simulates a copy of the graph; a patch is applied as
    a whole; reactions end.
  \<^item> \<open>GraphStreams\<close>, \<open>GraphProperties\<close>: external events are recorded once and in order, logs are tamper-evident,
    stored history only grows, logs can be restored and forked.
  \<^item> \<open>DiffLaws\<close>, \<open>DiffProperties\<close>: parsing inverts printing; applying hunks is splicing at the places they name
    (relation \<open>splices\<close>); the reversed diff undoes a diff.
  \<^item> \<open>EditLaws\<close>, \<open>EditProperties\<close>: a replacement is a splice over the matches; offsets of the LF form of a text map
    into its CRLF form, so an edit of a Windows file is the edit of its Unix form; a cut is the longest prefix
    within the bound.
  \<^item> \<open>WriteClaimProperties\<close>: a claim stays with its holder and excludes other sessions; one claim for one file; the
    spellings that evade a claim.
  \<^item> \<open>FileToolLaws\<close>, \<open>FileToolProperties\<close>: for every backend with the laws of the locale \<open>workspace_contract\<close>, which the
    in-memory backend keeps: foreign claims stop every tool, versioned writes lose no update, batches of patches are
    validated first and report what they wrote, appends can be retried, failed calls leave no claim.
  \<^item> \<open>RunControlLaws\<close>, \<open>RunControlRuns\<close>, \<open>RunControlProperties\<close>: in every run of host, loop and session (\<open>control_run\<close>) the
    inbox moves receipts as the abstract ledger does (locale \<open>receipt_ledger\<close>), stays within its bounds and owns every
    accepted control once; retries return the first receipt, an interrupt is the last request, the persist
    transaction and the safe point decide everything, and closing is final.
  \<^item> \<open>RunStoreLaws\<close>, \<open>RunStoreProperties\<close>: in every store that operations and restores reach, the retained events are the last
    ones without a gap and within the caps, pages report them faithfully and continue each other, what is settled about a
    run stays settled, and saved records come back.
  \<^item> \<open>PlanProperties\<close>: steps never move back; a deadlock has a cause.
  \<^item> This theory composes tokenizer, classifier and policy: \<^verbatim>\<open>rm -rf\<close> of a root directory is denied by every
    policy, from the text of the script.  It composes gate, policy and classifier: no governed call runs a command that
    is classified as catastrophic.

  \<^bold>\<open>Bounds and fuel.\<close>  The lexer's main loop spends one unit of fuel per turn; \<open>lex\<close> gives enough for
  every text that is lexed at all (theorem \<open>lex_fuel_is_enough\<close>).  Nesting of scripts and of batches is bounded by the
  constants of the source.  The loops of the scheduler that pop until the queue is empty are bounded by its
  length, and the dispatch loop by that length plus one: every turn takes a request out.  Counters
  saturate at \<open>2 ^ 64 - 1\<close> as in the code; admission ids are taken not to wrap.  Reactions of a graph runtime
  need no fuel: every record that is queued took a place in a stream of bounded length.  Versions and
  sequence numbers of the graph are natural numbers.  The file tools have no loop beyond the entries of a batch.  The run-control inbox
  trims receipts in a loop that removes one entry per turn; its counters are 64 bit words that saturate.  Text ranges over U+0000
  to U+00FF.

  \<^bold>\<open>Parameters.\<close>  The \<^verbatim>\<open>regex\<close> engine and the JSON printer (record \<open>externals\<close>), the file system (record of
  three queries), the backend of a workspace (record \<open>backend\<close>), the priority queue of the crate \<^verbatim>\<open>a3s_lane\<close> (record \<open>queue_ops\<close>), and SHA-256, the JSON
  printer, UUIDs and the clock of the state graph (record \<open>graph_env\<close>), and the hook executor, the request digest and the
  append of the run-control inbox, the length of an encoded event and the validation of bindings of the run store, and the
  hooks, validators, budget, sanitizer and tools around the governed call (record \<open>invoker_env\<close>) are arguments; what is
  assumed of them is a named hypothesis or a locale, with an implementation that satisfies it.

  \<^bold>\<open>Not modelled.\<close>  The agent loop, the language-model clients, the other built-in tools, stores and the local,
  S3 and manifest workspaces do asynchronous, network or file I/O around third-party services; output texts and
  metadata of the file tools; of plans the prompt texts, the identity digest and the
  floating-point progress are left out; the session command queue is a wrapper of
  \<^verbatim>\<open>a3s_lane\<close>; wire types are serialized by derive macros; the language bindings are glue.  Of
  \<^verbatim>\<open>execution_identity.rs\<close> the derivation of a digest, claims and receipts are left out.  Error values of the
  scheduler carry no message text.  The file store of graph logs is the protocol of the in-memory store over
  locked files.  Planned: compaction, session queues.
\<close>

section \<open>Properties across components\<close>

text \<open>
  From the text of a command line to the decision: tokenizer, classifier and policy composed.  From a tool call to what
  it runs: gate, policy and classifier composed.
\<close>

lemma word_of_text [simp]: "w_text (word_of (Plain t)) = t" "\<not> w_quoted (word_of (Plain t))"
  by (simp_all add: word_default_def)



text \<open>C3. From the call to the classifier: a shell command that a governed call runs is never one that the classifier calls catastrophic.  Whatever the
  hooks put into the arguments, the host answers, and a delegated provider waives, if the permission checker of the session is the
  check of a policy, any policy, then the command that the tool is run with is not \<open>Catastrophic\<close>.\<close>

theorem executed_commands_are_never_catastrophic:
  assumes "invoke env config now gate_cancelled cancelled cancelled_later ctx call host d = Some e" and "ce_executed e = Some (tool, args)"
    and "governed (ti_origin call)"
    and "gc_permission_checker config = Some checks" and "\<And>t a dec. check E p t a = Some dec \<Longrightarrow> checks t a = dec" and "nameable_policy p"
    and "canonical_tool_name tool = Some n" and "eq_ignore_ascii_case n ''bash''"
    and "get_str args ''command'' = Some c" and "analyze c = Some a"
  shows "an_risk a \<noteq> Catastrophic"
proof
  assume "an_risk a = Catastrophic"
  then have "check E p tool args = Some Deny" using assms(6-10) by (intro floor_denies)
  then have "permission_decision config tool args = Deny" using assms(4,5) by (simp add: permission_decision_def)
  with executed_is_authorized [OF assms(1-3)] show False by blast
qed

definition policy_checker :: "externals \<Rightarrow> policy \<Rightarrow> checker" where
  "policy_checker E p t a = (case check E p t a of Some dec \<Rightarrow> dec | None \<Rightarrow> Deny)"

theorem executed_commands_are_never_catastrophic_witness:
  "\<exists>e a. invoke sample_env (asking_config\<lparr>gc_permission_checker := Some (policy_checker reference_externals unrestricted)\<rparr>) 5 False False False
      top_context (bash_call\<lparr>ti_args := shell_args ''ls''\<rparr>) (\<lambda>d. d) (desk_new (\<lambda>_. confirmation_policy_enabled)) = Some e
    \<and> ce_executed e = Some (''bash'', shell_args ''ls'') \<and> analyze ''ls'' = Some a \<and> an_risk a \<noteq> Catastrophic"
proof -
  let ?config = "asking_config\<lparr>gc_permission_checker := Some (policy_checker reference_externals unrestricted)\<rparr>"
  let ?call = "bash_call\<lparr>ti_args := shell_args ''ls''\<rparr>"
  let ?run = "invoke sample_env ?config 5 False False False top_context ?call (\<lambda>d. d) (desk_new (\<lambda>_. confirmation_policy_enabled))"
  have "map_option ce_executed ?run = Some (Some (''bash'', shell_args ''ls''))" by code_simp
  then obtain e where e: "?run = Some e" "ce_executed e = Some (''bash'', shell_args ''ls'')" by auto
  have "map_option (\<lambda>_. ()) (analyze_lexed ''ls'') = Some ()" by code_simp
  then obtain a where a: "analyze ''ls'' = Some a" by (auto simp: analyze_short MAX_SOURCE_BYTES_def)
  have names: "nameable_policy unrestricted" "canonical_tool_name ''bash'' = Some ''bash''" "eq_ignore_ascii_case ''bash'' ''bash''"
    "governed (ti_origin ?call)" by code_simp+
  have "an_risk a \<noteq> Catastrophic"
    by (rule executed_commands_are_never_catastrophic [where E = reference_externals and checks = "policy_checker reference_externals unrestricted", OF e names(4) _ _ names(1-3) get_shell_args a])
      (simp_all add: policy_checker_def)
  with e a show ?thesis by blast
qed

end
